(* ===== verification/Prelude.thy ===== *)
theory Prelude
  imports Main "HOL-Library.Word"
begin

text \<open>
  Shared vocabulary of the development: the widths of the C integer types of the
  Cortex-M4 build, the values of the kernel's return codes, the collections of
  rewrite rules the component theories extend, and generic facts on words and lists.
\<close>

unbundle bit_operations_syntax

section \<open>Names of the C types\<close>

type_synonym u8 = "8 word"
type_synonym u16 = "16 word"
type_synonym u32 = "32 word"
type_synonym TickType_t = "32 word"
type_synonym UBaseType_t = "32 word"

text \<open>\<open>portMAX_DELAY\<close> of the ARM_CM4F port: all ones in the 32-bit tick type.\<close>

definition portMAX_DELAY :: TickType_t where
  "portMAX_DELAY = 0xffffffff"

named_theorems klist_simps \<open>evaluation and frame rules of the kernel's linked lists\<close>
named_theorems kernel_defs \<open>definitions of the kernel operations, for case analysis\<close>
named_theorems ring_simps \<open>abstraction rules of the ring buffers\<close>

section \<open>Generic facts\<close>

lemma portMAX_DELAY_max [simp]: "v \<le> portMAX_DELAY"
proof -
  have "unat v < 2 ^ LENGTH(32)" by (rule unsigned_less)
  then show ?thesis by (simp add: portMAX_DELAY_def word_le_nat_alt)
qed

lemma not_portMAX_DELAY_less [simp]: "\<not> portMAX_DELAY < v"
  by (simp add: not_less)

lemma less_portMAX_DELAY: "v \<noteq> portMAX_DELAY \<Longrightarrow> v < portMAX_DELAY"
  by (simp add: order_less_le)

lemma takeWhile_neq_first: "j \<notin> set us \<Longrightarrow> takeWhile (\<lambda>y. y \<noteq> j) (us @ j # vs) = us"
  by (induction us) auto

lemma dropWhile_neq_first: "j \<notin> set us \<Longrightarrow> dropWhile (\<lambda>y. y \<noteq> j) (us @ j # vs) = j # vs"
  by (induction us) auto

lemma unat_of_nat_less: "n < 2 ^ LENGTH('a::len) \<Longrightarrow> unat (of_nat n :: 'a word) = n"
  by (simp add: take_bit_nat_eq_self unsigned_of_nat)

lemma set_insert_at: "set (takeWhile P xs @ x # dropWhile P xs) = insert x (set xs)"
  by (induction xs) auto

lemma length_insert_at [simp]: "length (takeWhile P xs) + length (dropWhile P xs) = length xs"
  by (simp flip: length_append)

lemma distinct_insert_at:
  "distinct xs \<Longrightarrow> x \<notin> set xs \<Longrightarrow> distinct (takeWhile P xs @ x # dropWhile P xs)"
  by (induction xs) (auto dest: set_takeWhileD set_dropWhileD)

lemma sorted_dropWhile_greater:
  fixes val :: "'a \<Rightarrow> 'b :: linorder"
  shows "sorted (map val xs) \<Longrightarrow> z \<in> set (dropWhile (\<lambda>y. val y \<le> v) xs) \<Longrightarrow> v < val z"
  by (induction xs) (force split: if_splits)+

lemma sorted_insert_at:
  fixes val :: "'a \<Rightarrow> 'b :: linorder"
  assumes "sorted (map val xs)"
  shows "sorted (map val (takeWhile (\<lambda>y. val y \<le> val x) xs @ x # dropWhile (\<lambda>y. val y \<le> val x) xs))"
proof -
  let ?P = "\<lambda>y. val y \<le> val x"
  have "sorted (map val (takeWhile ?P xs @ dropWhile ?P xs))" using assms by simp
  then show ?thesis
    using sorted_dropWhile_greater [OF assms]
    by (auto simp: sorted_append simp del: takeWhile_dropWhile_id
        dest: set_takeWhileD intro: less_imp_le)
qed

lemma word_less_imp_le_minus_one: "r < p \<Longrightarrow> r \<le> p - (1 :: 'a::len word)"
proof -
  assume "r < p"
  then have "p \<noteq> 0" by auto
  with \<open>r < p\<close> show ?thesis by (simp add: word_le_nat_alt word_less_nat_alt unat_minus_one)
qed

lemma word_minus_one_less: "p \<noteq> 0 \<Longrightarrow> p - (1 :: 'a::len word) < p"
  by (simp add: word_less_nat_alt unat_minus_one unat_gt_0)

lemma unat_Suc:
  fixes x y :: "'a::len word"
  assumes "unat x < unat y"
  shows "unat (x + 1) = Suc (unat x)"
proof -
  have "unat y < 2 ^ LENGTH('a)" by (rule unsigned_less)
  then have "Suc (unat x) < 2 ^ LENGTH('a)" using assms by linarith
  moreover have "x + 1 = of_nat (Suc (unat x))" by simp
  ultimately show ?thesis by (metis unat_of_nat_less)
qed

lemma unat_pred: "0 < unat x \<Longrightarrow> unat (x - (1 :: 'a::len word)) = unat x - 1"
  by (rule unat_minus_one) auto

text \<open>Total correctness of a computation that may fail: it gives a result, and the result satisfies \<open>P\<close>.\<close>

definition returns :: "'a option \<Rightarrow> ('a \<Rightarrow> bool) \<Rightarrow> bool" where
  "returns m P \<longleftrightarrow> (\<exists>x. m = Some x \<and> P x)"

lemma returns_Some: "P x \<Longrightarrow> returns (Some x) P"
  by (simp add: returns_def)

lemma returns_bind: "returns m P \<Longrightarrow> (\<And>x. P x \<Longrightarrow> returns (f x) Q) \<Longrightarrow> returns (Option.bind m f) Q"
  by (auto simp: returns_def)

lemma returns_if: "(c \<Longrightarrow> returns m P) \<Longrightarrow> (\<not> c \<Longrightarrow> returns n P) \<Longrightarrow> returns (if c then m else n) P"
  by simp

lemma returns_mono: "returns m P \<Longrightarrow> (\<And>x. P x \<Longrightarrow> Q x) \<Longrightarrow> returns m Q"
  by (auto simp: returns_def)

lemma returns_prod: "(\<And>a b. x = (a, b) \<Longrightarrow> returns (f a b) Q) \<Longrightarrow> returns (case x of (a, b) \<Rightarrow> f a b) Q"
  by (cases x) simp

text \<open>A 32-bit word as it lies in memory, least significant byte first.\<close>

definition len_bytes :: "u32 \<Rightarrow> u8 list" where
  "len_bytes n = [ucast n, ucast (drop_bit 8 n), ucast (drop_bit 16 n), ucast (drop_bit 24 n)]"

definition bytes_len :: "u8 list \<Rightarrow> u32" where
  "bytes_len b = ucast (b ! 0) OR push_bit 8 (ucast (b ! 1)) OR push_bit 16 (ucast (b ! 2)) OR push_bit 24 (ucast (b ! 3))"

lemma bytes_len_inverse: "bytes_len (len_bytes n) = n"
proof (rule bit_word_eqI)
  fix i assume "i < LENGTH(32)"
  then consider "i < 8" | "8 \<le> i" "i < 16" | "16 \<le> i" "i < 24" | "24 \<le> i" "i < 32" by fastforce
  then show "bit (bytes_len (len_bytes n)) i = bit n i"
    by cases (auto simp: bytes_len_def len_bytes_def bit_simps)
qed

lemma length_len_bytes [simp]: "length (len_bytes n) = 4"
  by (simp add: len_bytes_def)

text \<open>Addresses aligned to eight bytes.\<close>

lemma unat_and_7: "unat (x AND 7) = unat (x :: u32) mod 8"
proof -
  have "mask 3 = (7 :: u32)" by (simp add: mask_eq_exp_minus_1)
  then have "x AND 7 = take_bit 3 x" by (metis take_bit_eq_mask)
  then show ?thesis by (simp add: unsigned_take_bit_eq take_bit_eq_mod unat_mod_distrib)
qed

lemma aligned_iff: "x AND 7 = 0 \<longleftrightarrow> 8 dvd unat (x :: u32)"
  by (metis dvd_eq_mod_eq_0 unat_and_7 unat_eq_zero)

lemma align_down: "unat (x AND NOT 7) = unat (x :: u32) - unat x mod 8"
proof -
  have "x AND NOT 7 = x AND NOT (x AND 7)" by (rule bit_word_eqI) (auto simp: bit_simps)
  also have "\<dots> = x - (x AND 7)"
    by (rule disjunctive_diff_eq_and_not [symmetric]) (rule bit_word_eqI, auto simp: bit_simps)
  finally show ?thesis by (simp add: unat_sub word_and_le2 unat_and_7)
qed

lemma aligned_add: "x AND 7 = 0 \<Longrightarrow> y AND 7 = 0 \<Longrightarrow> (x + y) AND 7 = (0 :: u32)"
  by (simp add: aligned_iff unat_word_ariths dvd_mod)

lemma align_down_add:
  assumes "(a :: u32) AND 7 = 0" "d < 8"
  shows "(a + d) AND NOT 7 = a"
proof -
  obtain j where j: "unat a = 8 * j" using assms(1) by (auto simp: aligned_iff)
  have d: "unat d < 8" using assms(2) by (simp add: word_less_nat_alt)
  have "unat a < 2 ^ 32" using unsigned_less [of a] by simp
  then have "unat a + unat d < 2 ^ LENGTH(32)" using j d by simp
  then have "unat (a + d) = 8 * j + unat d" using unat_add_lem j by metis
  then have "unat ((a + d) AND NOT 7) = unat a" unfolding align_down using j d by simp
  then show ?thesis by (simp only: word_unat_eq_iff)
qed

end
