(* ===== verification/Kernel_List.thy ===== *)
theory Kernel_List
  imports Prelude
begin

text \<open>
  The kernel's doubly linked lists: \<open>FreeRTOS/list.c\<close> and the list macros of
  \<open>FreeRTOS/include/list.h\<close>, over an explicit store of list items and list headers.
\<close>

section \<open>Data\<close>

text \<open>
  A \<open>List_t\<close> embeds its end marker \<open>xListEnd\<close>, so a pointer to a list item is either the
  address of an item or the address of the marker of a list. Uninitialised memory is an
  arbitrary value of the store.
\<close>

type_synonym list_ptr = nat

datatype item_ptr = End list_ptr | Item nat

record ListItem_t =
  xItemValue :: TickType_t
  pxNext :: item_ptr
  pxPrevious :: item_ptr
  pvOwner :: nat
  pxContainer :: "list_ptr option"

record List_t =
  uxNumberOfItems :: UBaseType_t
  pxIndex :: item_ptr

record list_mem =
  items :: "item_ptr \<Rightarrow> ListItem_t"
  lists :: "list_ptr \<Rightarrow> List_t"

text \<open>Stores through a pointer: \<open>p->field = v\<close>.\<close>

definition set_next :: "item_ptr \<Rightarrow> item_ptr \<Rightarrow> list_mem \<Rightarrow> list_mem" where
  "set_next p q m = m\<lparr>items := (items m)(p := (items m p)\<lparr>pxNext := q\<rparr>)\<rparr>"

definition set_prev :: "item_ptr \<Rightarrow> item_ptr \<Rightarrow> list_mem \<Rightarrow> list_mem" where
  "set_prev p q m = m\<lparr>items := (items m)(p := (items m p)\<lparr>pxPrevious := q\<rparr>)\<rparr>"

definition set_container :: "item_ptr \<Rightarrow> list_ptr option \<Rightarrow> list_mem \<Rightarrow> list_mem" where
  "set_container p c m = m\<lparr>items := (items m)(p := (items m p)\<lparr>pxContainer := c\<rparr>)\<rparr>"

definition set_item_value :: "item_ptr \<Rightarrow> TickType_t \<Rightarrow> list_mem \<Rightarrow> list_mem" where
  "set_item_value p v m = m\<lparr>items := (items m)(p := (items m p)\<lparr>xItemValue := v\<rparr>)\<rparr>"

definition set_owner :: "item_ptr \<Rightarrow> nat \<Rightarrow> list_mem \<Rightarrow> list_mem" where
  "set_owner p v m = m\<lparr>items := (items m)(p := (items m p)\<lparr>pvOwner := v\<rparr>)\<rparr>"

definition set_index :: "list_ptr \<Rightarrow> item_ptr \<Rightarrow> list_mem \<Rightarrow> list_mem" where
  "set_index l p m = m\<lparr>lists := (lists m)(l := (lists m l)\<lparr>pxIndex := p\<rparr>)\<rparr>"

definition set_count :: "list_ptr \<Rightarrow> UBaseType_t \<Rightarrow> list_mem \<Rightarrow> list_mem" where
  "set_count l n m = m\<lparr>lists := (lists m)(l := (lists m l)\<lparr>uxNumberOfItems := n\<rparr>)\<rparr>"

lemmas list_store_defs =
  set_next_def set_prev_def set_container_def set_item_value_def set_owner_def
  set_index_def set_count_def

section \<open>Operations of list.c\<close>

definition vListInitialise :: "list_ptr \<Rightarrow> list_mem \<Rightarrow> list_mem" where
  "vListInitialise l m =
     (let m = set_index l (End l) m;
          m = set_item_value (End l) portMAX_DELAY m;
          m = set_next (End l) (End l) m;
          m = set_prev (End l) (End l) m
      in set_count l 0 m)"

definition vListInitialiseItem :: "item_ptr \<Rightarrow> list_mem \<Rightarrow> list_mem" where
  "vListInitialiseItem p m = set_container p None m"

definition vListInsertEnd :: "list_ptr \<Rightarrow> item_ptr \<Rightarrow> list_mem \<Rightarrow> list_mem" where
  "vListInsertEnd l new m =
     (let ix = pxIndex (lists m l);
          m = set_next new ix m;
          m = set_prev new (pxPrevious (items m ix)) m;
          m = set_next (pxPrevious (items m ix)) new m;
          m = set_prev ix new m;
          m = set_container new (Some l) m
      in set_count l (uxNumberOfItems (lists m l) + 1) m)"

text \<open>
  The \<open>for\<close> loop of \<open>vListInsert\<close> walks the \<open>pxNext\<close> chain until an item with a larger
  value; on a corrupt chain it need not stop, so it is a partial function.
\<close>

partial_function (option) insert_scan ::
  "list_mem \<Rightarrow> TickType_t \<Rightarrow> item_ptr \<Rightarrow> item_ptr option" where
  "insert_scan m v it =
     (if xItemValue (items m (pxNext (items m it))) \<le> v
      then insert_scan m v (pxNext (items m it)) else Some it)"

definition insert_after :: "list_ptr \<Rightarrow> item_ptr \<Rightarrow> item_ptr \<Rightarrow> list_mem \<Rightarrow> list_mem" where
  "insert_after l new it m =
     (let m = set_next new (pxNext (items m it)) m;
          m = set_prev (pxNext (items m new)) new m;
          m = set_prev new it m;
          m = set_next it new m;
          m = set_container new (Some l) m
      in set_count l (uxNumberOfItems (lists m l) + 1) m)"

definition vListInsert :: "list_ptr \<Rightarrow> item_ptr \<Rightarrow> list_mem \<Rightarrow> list_mem option" where
  "vListInsert l new m =
     (let v = xItemValue (items m new) in
      if v = portMAX_DELAY
      then Some (insert_after l new (pxPrevious (items m (End l))) m)
      else map_option (\<lambda>it. insert_after l new it m) (insert_scan m v (End l)))"

text \<open>\<open>uxListRemove\<close> reads the list from the item; an item in no list has a null container
  and the C code would dereference it, which is the result \<open>None\<close> here.\<close>

definition uxListRemove :: "item_ptr \<Rightarrow> list_mem \<Rightarrow> (UBaseType_t \<times> list_mem) option" where
  "uxListRemove p m =
     (case pxContainer (items m p) of
        None \<Rightarrow> None
      | Some l \<Rightarrow>
          (let m = set_prev (pxNext (items m p)) (pxPrevious (items m p)) m;
               m = set_next (pxPrevious (items m p)) (pxNext (items m p)) m;
               m = (if pxIndex (lists m l) = p then set_index l (pxPrevious (items m p)) m else m);
               m = set_container p None m;
               m = set_count l (uxNumberOfItems (lists m l) - 1) m
           in Some (uxNumberOfItems (lists m l), m)))"

text \<open>The macros of \<open>list.h\<close> the kernel uses.\<close>

definition listGET_OWNER_OF_NEXT_ENTRY :: "list_ptr \<Rightarrow> list_mem \<Rightarrow> nat \<times> list_mem" where
  "listGET_OWNER_OF_NEXT_ENTRY l m =
     (let m = set_index l (pxNext (items m (pxIndex (lists m l)))) m;
          m = (if pxIndex (lists m l) = End l
               then set_index l (pxNext (items m (pxIndex (lists m l)))) m else m)
      in (pvOwner (items m (pxIndex (lists m l))), m))"

definition listLIST_IS_EMPTY :: "list_ptr \<Rightarrow> list_mem \<Rightarrow> bool" where
  "listLIST_IS_EMPTY l m \<longleftrightarrow> uxNumberOfItems (lists m l) = 0"

definition listGET_OWNER_OF_HEAD_ENTRY :: "list_ptr \<Rightarrow> list_mem \<Rightarrow> nat" where
  "listGET_OWNER_OF_HEAD_ENTRY l m = pvOwner (items m (pxNext (items m (End l))))"

definition listGET_ITEM_VALUE_OF_HEAD_ENTRY :: "list_ptr \<Rightarrow> list_mem \<Rightarrow> TickType_t" where
  "listGET_ITEM_VALUE_OF_HEAD_ENTRY l m = xItemValue (items m (pxNext (items m (End l))))"

definition listIS_CONTAINED_WITHIN :: "list_ptr \<Rightarrow> item_ptr \<Rightarrow> list_mem \<Rightarrow> bool" where
  "listIS_CONTAINED_WITHIN l p m \<longleftrightarrow> pxContainer (items m p) = Some l"

section \<open>The representation invariant\<close>

text \<open>\<open>links m p xs q\<close>: the items \<open>xs\<close> are chained in both directions between \<open>p\<close> and \<open>q\<close>.\<close>

fun links :: "list_mem \<Rightarrow> item_ptr \<Rightarrow> item_ptr list \<Rightarrow> item_ptr \<Rightarrow> bool" where
  "links m p [] q \<longleftrightarrow> pxNext (items m p) = q \<and> pxPrevious (items m q) = p"
| "links m p (x # xs) q \<longleftrightarrow>
     pxNext (items m p) = x \<and> pxPrevious (items m x) = p \<and> links m x xs q"

section \<open>The abstract list\<close>

text \<open>
  What a kernel list means to its clients: a sequence of items with a cursor, which is
  \<open>None\<close> when \<open>pxIndex\<close> points at the end marker.
\<close>

record 'a klist =
  kitems :: "'a list"
  kindex :: "'a option"

definition kl_empty :: "'a klist" where
  "kl_empty = \<lparr>kitems = [], kindex = None\<rparr>"

definition kl_wf :: "'a klist \<Rightarrow> bool" where
  "kl_wf K \<longleftrightarrow> distinct (kitems K) \<and> (\<forall>j. kindex K = Some j \<longrightarrow> j \<in> set (kitems K))"

definition kl_insert_end :: "'a \<Rightarrow> 'a klist \<Rightarrow> 'a klist" where
  "kl_insert_end x K = K\<lparr>kitems :=
     takeWhile (\<lambda>y. kindex K \<noteq> Some y) (kitems K) @ x #
     dropWhile (\<lambda>y. kindex K \<noteq> Some y) (kitems K)\<rparr>"

definition kl_insert :: "('a \<Rightarrow> TickType_t) \<Rightarrow> 'a \<Rightarrow> 'a klist \<Rightarrow> 'a klist" where
  "kl_insert val x K = K\<lparr>kitems :=
     takeWhile (\<lambda>y. val y \<le> val x) (kitems K) @ x #
     dropWhile (\<lambda>y. val y \<le> val x) (kitems K)\<rparr>"

definition kl_before :: "'a \<Rightarrow> 'a list \<Rightarrow> 'a option" where
  "kl_before x xs = (case rev (takeWhile (\<lambda>y. y \<noteq> x) xs) of [] \<Rightarrow> None | y # _ \<Rightarrow> Some y)"

definition kl_remove :: "'a \<Rightarrow> 'a klist \<Rightarrow> 'a klist" where
  "kl_remove x K =
     \<lparr>kitems = remove1 x (kitems K),
      kindex = (if kindex K = Some x then kl_before x (kitems K) else kindex K)\<rparr>"

text \<open>The item after the cursor, skipping the end marker (\<open>None\<close> on an empty list).\<close>

definition kl_next :: "'a klist \<Rightarrow> 'a option" where
  "kl_next K =
     (case (case kindex K of None \<Rightarrow> kitems K
            | Some j \<Rightarrow> tl (dropWhile (\<lambda>y. y \<noteq> j) (kitems K)) @ kitems K) of
        [] \<Rightarrow> None | y # _ \<Rightarrow> Some y)"

definition kl_advance :: "'a klist \<Rightarrow> 'a klist" where
  "kl_advance K = K\<lparr>kindex := kl_next K\<rparr>"

lemmas kl_defs = kl_insert_end_def kl_insert_def kl_remove_def kl_advance_def

text \<open>
  \<open>list_repr m l K\<close>: in the store \<open>m\<close> the list \<open>l\<close> is chained through exactly the items of
  \<open>K\<close>, in this order, its counter counts them and its cursor is that of \<open>K\<close>.
\<close>

definition cursor :: "list_ptr \<Rightarrow> nat option \<Rightarrow> item_ptr" where
  "cursor l j = (case j of None \<Rightarrow> End l | Some i \<Rightarrow> Item i)"

definition list_repr :: "list_mem \<Rightarrow> list_ptr \<Rightarrow> nat klist \<Rightarrow> bool" where
  "list_repr m l K \<longleftrightarrow>
     kl_wf K \<and> links m (End l) (map Item (kitems K)) (End l) \<and>
     (\<forall>i\<in>set (kitems K). pxContainer (items m (Item i)) = Some l) \<and>
     xItemValue (items m (End l)) = portMAX_DELAY \<and>
     length (kitems K) < 2 ^ 32 \<and> uxNumberOfItems (lists m l) = of_nat (length (kitems K)) \<and>
     pxIndex (lists m l) = cursor l (kindex K)"

text \<open>The whole store: every list of \<open>A\<close> is represented.\<close>

definition store_repr :: "list_mem \<Rightarrow> (list_ptr \<rightharpoonup> nat klist) \<Rightarrow> bool" where
  "store_repr m A \<longleftrightarrow> (\<forall>l K. A l = Some K \<longrightarrow> list_repr m l K)"

section \<open>Segments\<close>

lemma links_append [klist_simps]:
  "links m p (xs @ y # ys) q \<longleftrightarrow> links m p xs y \<and> links m y ys q"
  by (induction xs arbitrary: p) auto

lemma links_frame:
  assumes "links m p xs q"
    and "\<And>x. x \<in> insert p (set xs) \<Longrightarrow> pxNext (items m' x) = pxNext (items m x)"
    and "\<And>x. x \<in> insert q (set xs) \<Longrightarrow> pxPrevious (items m' x) = pxPrevious (items m x)"
  shows "links m' p xs q"
  using assms by (induction xs arbitrary: p) auto

lemma links_next: "links m p xs q \<Longrightarrow> pxNext (items m p) = hd (xs @ [q])"
  by (cases xs) auto

lemma links_prev: "links m p xs q \<Longrightarrow> pxPrevious (items m q) = last (p # xs)"
  by (induction xs arbitrary: p) auto

lemma items_stores [klist_simps]:
  "items (set_next p v m) x = (if x = p then (items m x)\<lparr>pxNext := v\<rparr> else items m x)"
  "items (set_prev p v m) x = (if x = p then (items m x)\<lparr>pxPrevious := v\<rparr> else items m x)"
  "items (set_container p c m) x = (if x = p then (items m x)\<lparr>pxContainer := c\<rparr> else items m x)"
  "items (set_item_value p w m) x = (if x = p then (items m x)\<lparr>xItemValue := w\<rparr> else items m x)"
  "items (set_owner p n m) x = (if x = p then (items m x)\<lparr>pvOwner := n\<rparr> else items m x)"
  "items (set_index l v m) = items m" "items (set_count l k m) = items m"
  by (simp_all add: list_store_defs)

lemma lists_stores [klist_simps]:
  "lists (set_next p v m) = lists m" "lists (set_prev p v m) = lists m"
  "lists (set_container p c m) = lists m" "lists (set_item_value p w m) = lists m"
  "lists (set_owner p n m) = lists m"
  "lists (set_index l v m) k = (if k = l then (lists m k)\<lparr>pxIndex := v\<rparr> else lists m k)"
  "lists (set_count l j m) k = (if k = l then (lists m k)\<lparr>uxNumberOfItems := j\<rparr> else lists m k)"
  by (simp_all add: list_store_defs)

text \<open>The store after linking \<open>new\<close> in between the neighbours \<open>a\<close> and \<open>b\<close> of list \<open>l\<close>.\<close>

definition spliced ::
  "list_mem \<Rightarrow> list_ptr \<Rightarrow> item_ptr \<Rightarrow> item_ptr \<Rightarrow> item_ptr \<Rightarrow> list_mem \<Rightarrow> bool" where
  "spliced m l a new b m' \<longleftrightarrow>
     (\<forall>x. pxNext (items m' x) = (if x = new then b else if x = a then new else pxNext (items m x))) \<and>
     (\<forall>x. pxPrevious (items m' x) =
        (if x = new then a else if x = b then new else pxPrevious (items m x))) \<and>
     (\<forall>x. pxContainer (items m' x) = (if x = new then Some l else pxContainer (items m x))) \<and>
     (\<forall>x. xItemValue (items m' x) = xItemValue (items m x)) \<and>
     (\<forall>x. pvOwner (items m' x) = pvOwner (items m x)) \<and>
     lists m' = (lists m)(l := (lists m l)\<lparr>uxNumberOfItems := uxNumberOfItems (lists m l) + 1\<rparr>)"

lemma insert_after_spliced:
  assumes "new \<noteq> it" "new \<noteq> pxNext (items m it)"
  shows "spliced m l it new (pxNext (items m it)) (insert_after l new it m)"
  using assms by (auto simp: spliced_def insert_after_def Let_def klist_simps fun_eq_iff)

lemma vListInsertEnd_spliced:
  assumes "new \<noteq> pxIndex (lists m l)" "new \<noteq> pxPrevious (items m (pxIndex (lists m l)))"
  shows "spliced m l (pxPrevious (items m (pxIndex (lists m l)))) new (pxIndex (lists m l))
           (vListInsertEnd l new m)"
  using assms by (auto simp: spliced_def vListInsertEnd_def Let_def klist_simps fun_eq_iff)

lemma spliced_fields:
  assumes "spliced m l a new b m'"
  shows "pxNext (items m' x) = (if x = new then b else if x = a then new else pxNext (items m x))"
    and "pxPrevious (items m' x) =
      (if x = new then a else if x = b then new else pxPrevious (items m x))"
    and "pxContainer (items m' x) = (if x = new then Some l else pxContainer (items m x))"
    and "xItemValue (items m' x) = xItemValue (items m x)"
    and "pvOwner (items m' x) = pvOwner (items m x)"
    and "lists m' = (lists m)(l := (lists m l)\<lparr>uxNumberOfItems := uxNumberOfItems (lists m l) + 1\<rparr>)"
  using assms by (simp_all only: spliced_def)

lemma links_splice:
  assumes "links m p (us @ vs) q" "distinct (us @ vs)" "p \<notin> set (us @ vs)" "q \<notin> set (us @ vs)"
    and "new \<notin> insert p (insert q (set (us @ vs)))"
    and "spliced m l (last (p # us)) new (hd (vs @ [q])) m'"
  shows "links m' p (us @ new # vs) q"
  using assms
proof (induction us arbitrary: p)
  case Nil
  note f = spliced_fields [OF Nil.prems(6)]
  show ?case
  proof (cases vs)
    case Nil
    with Nil.prems show ?thesis by (auto simp: f)
  next
    case (Cons v ws)
    have out: "new \<notin> insert v (insert q (set ws))" "p \<notin> insert v (set ws)"
      "v \<notin> insert q (set ws)"
      using Nil.prems(2-5) by (auto simp: Cons)
    have "links m' v ws q"
    proof (rule links_frame [of m])
      show "links m v ws q" using Nil.prems(1) by (simp add: Cons)
    qed (use out in \<open>auto simp: f Cons\<close>)
    with out Nil.prems(5) show ?thesis by (auto simp: f Cons)
  qed
next
  case (Cons u us)
  note f = spliced_fields [OF Cons.prems(6)]
  have "links m' u (us @ new # vs) q"
    using Cons.prems by (intro Cons.IH) auto
  moreover have "last (u # us) \<in> set (u # us)" by (rule last_in_set) simp
  then have "p \<noteq> last (p # u # us)" using Cons.prems(3) by auto
  then have "pxNext (items m' p) = u" using Cons.prems(1,5) by (simp only: f) auto
  moreover have "u \<noteq> hd (vs @ [q])"
    using Cons.prems by (cases vs) auto
  then have "pxPrevious (items m' u) = p" using Cons.prems(1,5) by (simp only: f) auto
  ultimately show ?case by simp
qed

lemma spliced_repr:
  assumes "list_repr m l K" "kitems K = us @ vs" "pxContainer (items m (Item i)) = None"
    and "length (kitems K) + 1 < 2 ^ 32"
    and "spliced m l (last (End l # map Item us)) (Item i) (hd (map Item vs @ [End l])) m'"
  shows "list_repr m' l (K\<lparr>kitems := us @ i # vs\<rparr>)"
proof -
  from assms(1,3) have new: "i \<notin> set (kitems K)"
    by (auto simp: list_repr_def)
  have "links m' (End l) (map Item us @ Item i # map Item vs) (End l)"
    using assms new by (intro links_splice [of m])
      (auto simp: list_repr_def kl_wf_def distinct_map inj_on_def)
  then show ?thesis
    using assms(1-4) new
    by (auto simp: list_repr_def kl_wf_def spliced_fields [OF assms(5)] cursor_def)
qed

lemma spliced_frame:
  assumes "list_repr m k J" "list_repr m l K" "k \<noteq> l" "pxContainer (items m (Item i)) = None"
    and "a \<in> insert (End l) (Item ` set (kitems K))" "b \<in> insert (End l) (Item ` set (kitems K))"
    and "spliced m l a (Item i) b m'"
  shows "list_repr m' k J"
proof -
  note f = spliced_fields [OF assms(7)]
  let ?S = "insert (End k) (Item ` set (kitems J))"
  have "set (kitems J) \<inter> set (kitems K) = {}"
    using assms(1-3) by (auto simp: list_repr_def)
  then have out: "a \<notin> ?S" "b \<notin> ?S" "Item i \<notin> ?S"
    using assms(1,3-6) by (auto simp: list_repr_def)
  have "links m' (End k) (map Item (kitems J)) (End k)"
  proof (rule links_frame [of m])
    show "links m (End k) (map Item (kitems J)) (End k)"
      using assms(1) by (simp add: list_repr_def)
  qed (use out in \<open>auto simp: f\<close>)
  moreover have "pxContainer (items m' (Item j)) = pxContainer (items m (Item j))"
    if "j \<in> set (kitems J)" for j
    using that out by (auto simp: f)
  ultimately show ?thesis
    using assms(1,3) by (simp add: list_repr_def f)
qed

lemma spliced_store:
  assumes "store_repr m A" "A l = Some K" "kitems K = us @ vs"
    and "pxContainer (items m (Item i)) = None" "length (kitems K) + 1 < 2 ^ 32"
    and sp: "spliced m l (last (End l # map Item us)) (Item i) (hd (map Item vs @ [End l])) m'"
  shows "store_repr m' (A(l \<mapsto> K\<lparr>kitems := us @ i # vs\<rparr>))"
proof -
  have K: "list_repr m l K" using assms(1,2) by (auto simp: store_repr_def)
  have ends: "last (End l # map Item us) \<in> insert (End l) (Item ` set (kitems K))"
    "hd (map Item vs @ [End l]) \<in> insert (End l) (Item ` set (kitems K))"
    using assms(3) by (auto simp: last_map hd_append hd_map)
  have "list_repr m' l (K\<lparr>kitems := us @ i # vs\<rparr>)"
    using spliced_repr [OF K] assms by blast
  moreover have "list_repr m' k J" if "k \<noteq> l" "A k = Some J" for k J
    using spliced_frame [OF _ K \<open>k \<noteq> l\<close> assms(4) ends sp] that assms(1)
    by (auto simp: store_repr_def)
  ultimately show ?thesis by (auto simp: store_repr_def)
qed

section \<open>Insertion\<close>

text \<open>The scan of \<open>vListInsert\<close> stops: it finds the last item whose value is not larger.\<close>

lemma insert_scan_links:
  assumes "links m p xs q" "\<not> xItemValue (items m q) \<le> v"
  shows "insert_scan m v p = Some (last (p # takeWhile (\<lambda>x. xItemValue (items m x) \<le> v) xs))"
  using assms
proof (induction xs arbitrary: p)
  case Nil
  then show ?case by (simp add: insert_scan.simps)
next
  case (Cons x xs)
  then show ?case by (subst insert_scan.simps) simp
qed

lemma takeWhile_Item:
  "takeWhile P (map Item xs) = map Item (takeWhile (\<lambda>i. P (Item i)) xs)"
  by (simp add: takeWhile_map o_def)

lemma links_split_next:
  assumes "links m p (us @ vs) q"
  shows "pxNext (items m (last (p # us))) = hd (vs @ [q])"
  using assms by (induction us arbitrary: p) (auto simp: links_next)

lemma links_split_prev:
  assumes "links m p (us @ vs) q"
  shows "pxPrevious (items m (hd (vs @ [q]))) = last (p # us)"
proof (cases vs)
  case Nil
  with assms show ?thesis by (simp add: links_prev)
next
  case (Cons v ws)
  with assms show ?thesis by (auto simp: klist_simps links_prev)
qed

lemma repr_ends:
  assumes "list_repr m l K" "kitems K = us @ vs"
  shows "pxNext (items m (last (End l # map Item us))) = hd (map Item vs @ [End l])"
    and "pxPrevious (items m (hd (map Item vs @ [End l]))) = last (End l # map Item us)"
  using assms links_split_next [of m "End l" "map Item us" "map Item vs" "End l"]
    links_split_prev [of m "End l" "map Item us" "map Item vs" "End l"]
  by (simp_all add: list_repr_def)

lemma ends_in_list:
  "last (End l # map Item us) \<in> insert (End l) (Item ` set us)"
  "hd (map Item vs @ [End l]) \<in> insert (End l) (Item ` set vs)"
  by (auto simp: last_map hd_append hd_map)

lemma new_not_end:
  assumes "list_repr m l K" "kitems K = us @ vs" "pxContainer (items m (Item i)) = None"
  shows "Item i \<noteq> last (End l # map Item us)" "Item i \<noteq> hd (map Item vs @ [End l])"
proof -
  have "i \<notin> set us" "i \<notin> set vs" using assms by (auto simp: list_repr_def)
  then show "Item i \<noteq> last (End l # map Item us)" "Item i \<noteq> hd (map Item vs @ [End l])"
    using ends_in_list(1) [of l us] ends_in_list(2) [of vs l] by (auto simp del: last.simps)
qed

lemma insert_point:
  assumes "list_repr m l K"
    and us: "us = takeWhile (\<lambda>j. xItemValue (items m (Item j)) \<le> xItemValue (items m (Item i))) (kitems K)"
  shows "vListInsert l (Item i) m = Some (insert_after l (Item i) (last (End l # map Item us)) m)"
proof (cases "xItemValue (items m (Item i)) = portMAX_DELAY")
  case True
  then have "us = kitems K" by (simp add: us)
  then show ?thesis
    using True repr_ends(2) [OF assms(1), of us "[]"] by (simp add: vListInsert_def)
next
  case False
  then have "\<not> portMAX_DELAY \<le> xItemValue (items m (Item i))"
    using less_portMAX_DELAY by (simp add: not_le)
  then have "insert_scan m (xItemValue (items m (Item i))) (End l) = Some (last (End l # map Item us))"
    using assms(1) by (subst insert_scan_links [where xs = "map Item (kitems K)" and q = "End l"])
      (auto simp: list_repr_def takeWhile_Item us)
  then show ?thesis using False by (simp add: vListInsert_def)
qed

lemma vListInsert_spliced:
  assumes "list_repr m l K" "pxContainer (items m (Item i)) = None"
  defines "P \<equiv> \<lambda>j. xItemValue (items m (Item j)) \<le> xItemValue (items m (Item i))"
  shows "\<exists>m'. vListInsert l (Item i) m = Some m' \<and>
    spliced m l (last (End l # map Item (takeWhile P (kitems K)))) (Item i)
      (hd (map Item (dropWhile P (kitems K)) @ [End l])) m'"
proof -
  let ?us = "takeWhile P (kitems K)" and ?vs = "dropWhile P (kitems K)"
  have sp: "kitems K = ?us @ ?vs" by simp
  note new = new_not_end [OF assms(1) sp assms(2)]
  show ?thesis
    using insert_point [OF assms(1) P_def [THEN meta_eq_to_obj_eq, THEN arg_cong, of "\<lambda>p. takeWhile p (kitems K)"]]
      insert_after_spliced [of "Item i" "last (End l # map Item ?us)" m l] new
      repr_ends(1) [OF assms(1) sp] by auto
qed

text \<open>Inserting before the cursor, as \<open>vListInsertEnd\<close> does.\<close>

lemma vListInsertEnd_point:
  assumes "list_repr m l K" "pxContainer (items m (Item i)) = None"
  defines "P \<equiv> \<lambda>j. kindex K \<noteq> Some j"
  shows "spliced m l (last (End l # map Item (takeWhile P (kitems K)))) (Item i)
      (hd (map Item (dropWhile P (kitems K)) @ [End l])) (vListInsertEnd l (Item i) m)"
proof -
  let ?us = "takeWhile P (kitems K)" and ?vs = "dropWhile P (kitems K)"
  have sp: "kitems K = ?us @ ?vs" by simp
  have ix: "pxIndex (lists m l) = hd (map Item ?vs @ [End l])"
  proof (cases "kindex K")
    case None
    then have vs: "?vs = []" by (simp add: P_def)
    from None assms(1) show ?thesis by (simp only: vs list_repr_def cursor_def) simp
  next
    case (Some j)
    then have "j \<in> set (kitems K)" using assms(1) by (auto simp: list_repr_def kl_wf_def)
    then obtain ws where "?vs = j # ws"
      using Some hd_dropWhile [of P "kitems K"] by (cases ?vs) (auto simp: P_def)
    with Some assms(1) show ?thesis by (simp add: list_repr_def cursor_def)
  qed
  show ?thesis
    using vListInsertEnd_spliced [of "Item i" m l] new_not_end [OF assms(1) sp assms(2)]
      repr_ends(2) [OF assms(1) sp] by (simp only: ix) auto
qed

section \<open>Removal\<close>

definition unlinked ::
  "list_mem \<Rightarrow> list_ptr \<Rightarrow> item_ptr \<Rightarrow> item_ptr \<Rightarrow> item_ptr \<Rightarrow> list_mem \<Rightarrow> bool" where
  "unlinked m l a x b m' \<longleftrightarrow>
     (\<forall>y. pxNext (items m' y) = (if y = a then b else pxNext (items m y))) \<and>
     (\<forall>y. pxPrevious (items m' y) = (if y = b then a else pxPrevious (items m y))) \<and>
     (\<forall>y. pxContainer (items m' y) = (if y = x then None else pxContainer (items m y))) \<and>
     (\<forall>y. xItemValue (items m' y) = xItemValue (items m y)) \<and>
     (\<forall>y. pvOwner (items m' y) = pvOwner (items m y)) \<and>
     lists m' = (lists m)(l := \<lparr>uxNumberOfItems = uxNumberOfItems (lists m l) - 1,
       pxIndex = (if pxIndex (lists m l) = x then a else pxIndex (lists m l))\<rparr>)"

lemma unlinked_fields:
  assumes "unlinked m l a x b m'"
  shows "pxNext (items m' y) = (if y = a then b else pxNext (items m y))"
    and "pxPrevious (items m' y) = (if y = b then a else pxPrevious (items m y))"
    and "pxContainer (items m' y) = (if y = x then None else pxContainer (items m y))"
    and "xItemValue (items m' y) = xItemValue (items m y)"
    and "pvOwner (items m' y) = pvOwner (items m y)"
    and "lists m' = (lists m)(l := \<lparr>uxNumberOfItems = uxNumberOfItems (lists m l) - 1,
       pxIndex = (if pxIndex (lists m l) = x then a else pxIndex (lists m l))\<rparr>)"
  using assms by (simp_all only: unlinked_def)

lemma uxListRemove_unlinked:
  assumes "pxContainer (items m x) = Some l" "pxNext (items m x) \<noteq> x" "pxPrevious (items m x) \<noteq> x"
  shows "\<exists>m'. uxListRemove x m = Some (uxNumberOfItems (lists m l) - 1, m') \<and>
    unlinked m l (pxPrevious (items m x)) x (pxNext (items m x)) m'"
  using assms
  by (auto simp: uxListRemove_def unlinked_def Let_def klist_simps fun_eq_iff)

lemma links_unlink:
  assumes "links m p (us @ x # vs) q" "distinct (us @ x # vs)"
    and "p \<notin> set (us @ x # vs)" "q \<notin> set (us @ x # vs)"
    and "unlinked m l (last (p # us)) x (hd (vs @ [q])) m'"
  shows "links m' p (us @ vs) q"
  using assms
proof (induction us arbitrary: p)
  case Nil
  note f = unlinked_fields [OF Nil.prems(5)]
  show ?case
  proof (cases vs)
    case Nil
    with Nil.prems show ?thesis by (auto simp: f)
  next
    case (Cons v ws)
    have out: "p \<notin> insert v (set ws)" "v \<notin> insert q (set ws)"
      using Nil.prems(2-4) by (auto simp: Cons)
    have "links m' v ws q"
    proof (rule links_frame [of m])
      show "links m v ws q" using Nil.prems(1) by (simp add: Cons)
    qed (use out in \<open>auto simp: f Cons\<close>)
    then show ?thesis by (auto simp: f Cons)
  qed
next
  case (Cons u us)
  note f = unlinked_fields [OF Cons.prems(5)]
  have "links m' u (us @ vs) q"
    using Cons.prems by (intro Cons.IH) auto
  moreover have "last (u # us) \<in> set (u # us)" by (rule last_in_set) simp
  then have "p \<noteq> last (p # u # us)" using Cons.prems(3) by auto
  then have "pxNext (items m' p) = u" using Cons.prems(1) by (simp only: f) auto
  moreover have "u \<noteq> hd (vs @ [q])"
    using Cons.prems by (cases vs) auto
  then have "pxPrevious (items m' u) = p" using Cons.prems(1) by (simp only: f) auto
  ultimately show ?case by simp
qed

lemma remove1_middle: "i \<notin> set us \<Longrightarrow> remove1 i (us @ i # vs) = us @ vs"
  by (simp add: remove1_append)

lemma kl_before_middle:
  "i \<notin> set us \<Longrightarrow> kl_before i (us @ i # vs) = (if us = [] then None else Some (last us))"
  by (cases us rule: rev_cases) (auto simp: kl_before_def takeWhile_neq_first [of _ "_ @ [_]", simplified])

lemma unlinked_repr:
  assumes "list_repr m l K" "kitems K = us @ i # vs"
    and "unlinked m l (last (End l # map Item us)) (Item i) (hd (map Item vs @ [End l])) m'"
  shows "list_repr m' l (kl_remove i K)"
proof -
  note f = unlinked_fields [OF assms(3)]
  have d: "i \<notin> set us" "i \<notin> set vs" "distinct us" "distinct vs" "set us \<inter> set vs = {}"
    using assms(1,2) by (auto simp: list_repr_def kl_wf_def)
  have items: "kitems (kl_remove i K) = us @ vs"
    by (simp add: kl_remove_def assms(2) remove1_middle d)
  have index: "kindex (kl_remove i K) =
      (if kindex K = Some i then (if us = [] then None else Some (last us)) else kindex K)"
    by (simp add: kl_remove_def assms(2) kl_before_middle d)
  have "links m' (End l) (map Item us @ map Item vs) (End l)"
  proof (rule links_unlink [of m _ _ "Item i", OF _ _ _ _ assms(3)])
    show "links m (End l) (map Item us @ Item i # map Item vs) (End l)"
      using assms(1,2) by (simp add: list_repr_def)
  qed (use d in \<open>auto simp: distinct_map inj_on_def\<close>)
  moreover have "cursor l (kindex (kl_remove i K)) = pxIndex (lists m' l)"
    using assms(1) by (auto simp: index f list_repr_def cursor_def last_map split: option.splits)
  moreover have "kl_wf (kl_remove i K)"
    using assms(1,2) d by (auto simp: kl_wf_def items index list_repr_def)
  ultimately show ?thesis
    using assms(1,2) d by (auto simp: list_repr_def items f)
qed

lemma unlinked_frame:
  assumes "list_repr m k J" "list_repr m l K" "k \<noteq> l" "i \<in> set (kitems K)"
    and "a \<in> insert (End l) (Item ` set (kitems K))" "b \<in> insert (End l) (Item ` set (kitems K))"
    and "unlinked m l a (Item i) b m'"
  shows "list_repr m' k J"
proof -
  note f = unlinked_fields [OF assms(7)]
  let ?S = "insert (End k) (Item ` set (kitems J))"
  have "set (kitems J) \<inter> set (kitems K) = {}"
    using assms(1-3) by (auto simp: list_repr_def)
  then have out: "a \<notin> ?S" "b \<notin> ?S" "Item i \<notin> ?S"
    using assms(3-6) by auto
  have "links m' (End k) (map Item (kitems J)) (End k)"
  proof (rule links_frame [of m])
    show "links m (End k) (map Item (kitems J)) (End k)"
      using assms(1) by (simp add: list_repr_def)
  qed (use out in \<open>auto simp: f\<close>)
  moreover have "pxContainer (items m' (Item j)) = pxContainer (items m (Item j))"
    if "j \<in> set (kitems J)" for j
    using that out by (auto simp: f)
  ultimately show ?thesis
    using assms(1,3) by (simp add: list_repr_def f)
qed

section \<open>The operations on a represented store\<close>

text \<open>Every operation keeps the values and owners of all items.\<close>

definition same_data :: "list_mem \<Rightarrow> list_mem \<Rightarrow> bool" where
  "same_data m m' \<longleftrightarrow>
     (\<forall>x. xItemValue (items m' x) = xItemValue (items m x) \<and> pvOwner (items m' x) = pvOwner (items m x))"

lemma vListInsert_store:
  assumes "store_repr m A" "A l = Some K" "pxContainer (items m (Item i)) = None"
    and "length (kitems K) + 1 < 2 ^ 32"
  shows "\<exists>m'. vListInsert l (Item i) m = Some m' \<and> same_data m m' \<and>
    store_repr m' (A(l \<mapsto> kl_insert (\<lambda>j. xItemValue (items m (Item j))) i K))"
proof -
  let ?P = "\<lambda>j. xItemValue (items m (Item j)) \<le> xItemValue (items m (Item i))"
  have "list_repr m l K" using assms(1,2) by (auto simp: store_repr_def)
  from vListInsert_spliced [OF this assms(3)] obtain m' where
    "vListInsert l (Item i) m = Some m'" and
    sp: "spliced m l (last (End l # map Item (takeWhile ?P (kitems K)))) (Item i)
      (hd (map Item (dropWhile ?P (kitems K)) @ [End l])) m'" by blast
  moreover have "store_repr m' (A(l \<mapsto> kl_insert (\<lambda>j. xItemValue (items m (Item j))) i K))"
    unfolding kl_insert_def by (rule spliced_store [OF assms(1,2) _ assms(3,4) sp]) simp
  ultimately show ?thesis by (auto simp: same_data_def spliced_fields [OF sp])
qed

lemma vListInsertEnd_store:
  assumes "store_repr m A" "A l = Some K" "pxContainer (items m (Item i)) = None"
    and "length (kitems K) + 1 < 2 ^ 32"
  shows "same_data m (vListInsertEnd l (Item i) m) \<and>
    store_repr (vListInsertEnd l (Item i) m) (A(l \<mapsto> kl_insert_end i K))"
proof -
  have "list_repr m l K" using assms(1,2) by (auto simp: store_repr_def)
  note sp = vListInsertEnd_point [OF this assms(3)]
  have "store_repr (vListInsertEnd l (Item i) m) (A(l \<mapsto> kl_insert_end i K))"
    unfolding kl_insert_end_def by (rule spliced_store [OF assms(1,2) _ assms(3,4) sp]) simp
  then show ?thesis by (auto simp: same_data_def spliced_fields [OF sp])
qed

lemma uxListRemove_store:
  assumes "store_repr m A" "A l = Some K" "i \<in> set (kitems K)"
  shows "\<exists>m'. uxListRemove (Item i) m = Some (of_nat (length (kitems K) - 1), m') \<and>
    same_data m m' \<and> store_repr m' (A(l \<mapsto> kl_remove i K)) \<and>
    pxContainer (items m' (Item i)) = None"
proof -
  have K: "list_repr m l K" using assms(1,2) by (auto simp: store_repr_def)
  from assms(3) obtain us vs where uv: "kitems K = us @ i # vs" by (meson split_list)
  let ?a = "last (End l # map Item us)" and ?b = "hd (map Item vs @ [End l])"
  have nb: "pxNext (items m (Item i)) = ?b" "pxPrevious (items m (Item i)) = ?a"
    using repr_ends(1) [OF K, of "us @ [i]" vs] repr_ends(2) [OF K, of us "i # vs"] uv by auto
  have d: "i \<notin> set us" "i \<notin> set vs"
    using K uv by (auto simp: list_repr_def kl_wf_def)
  then have ne: "?a \<noteq> Item i" "?b \<noteq> Item i"
    using ends_in_list(1) [of l us] ends_in_list(2) [of vs l] by (auto simp del: last.simps)
  from K assms(3) have "pxContainer (items m (Item i)) = Some l"
    and "uxNumberOfItems (lists m l) - 1 = of_nat (length (kitems K) - 1)"
    by (auto simp: list_repr_def uv)
  then obtain m' where m': "uxListRemove (Item i) m = Some (of_nat (length (kitems K) - 1), m')"
    and un: "unlinked m l ?a (Item i) ?b m'"
    using uxListRemove_unlinked [of m "Item i" l] ne nb by auto
  have ends: "?a \<in> insert (End l) (Item ` set (kitems K))" "?b \<in> insert (End l) (Item ` set (kitems K))"
    using ends_in_list(1) [of l us] ends_in_list(2) [of vs l] uv by (auto simp del: last.simps)
  have "list_repr m' k J" if "k \<noteq> l" "A k = Some J" for k J
    using unlinked_frame [OF _ K \<open>k \<noteq> l\<close> assms(3) ends un] that assms(1)
    by (auto simp: store_repr_def)
  with unlinked_repr [OF K uv un] have "store_repr m' (A(l \<mapsto> kl_remove i K))"
    by (auto simp: store_repr_def)
  with m' show ?thesis by (auto simp: same_data_def unlinked_fields [OF un])
qed

lemma vListInitialise_store:
  assumes "store_repr m A" "A l = None"
  shows "store_repr (vListInitialise l m) (A(l \<mapsto> kl_empty))"
proof -
  have "list_repr (vListInitialise l m) k J" if "A k = Some J" for k J
  proof -
    from that assms have k: "k \<noteq> l" "list_repr m k J" by (auto simp: store_repr_def)
    have "links (vListInitialise l m) (End k) (map Item (kitems J)) (End k)"
    proof (rule links_frame [of m])
      show "links m (End k) (map Item (kitems J)) (End k)" using k by (simp add: list_repr_def)
    qed (use k in \<open>auto simp: vListInitialise_def Let_def klist_simps\<close>)
    with k show ?thesis by (auto simp: list_repr_def vListInitialise_def Let_def klist_simps)
  qed
  moreover have "list_repr (vListInitialise l m) l kl_empty"
    by (simp add: list_repr_def vListInitialise_def Let_def klist_simps kl_empty_def kl_wf_def cursor_def)
  ultimately show ?thesis by (auto simp: store_repr_def)
qed

section \<open>The cursor\<close>

text \<open>Position of the item the next advance of the cursor selects.\<close>

definition kl_pos :: "'a klist \<Rightarrow> nat" where
  "kl_pos K = (case kindex K of None \<Rightarrow> 0
     | Some j \<Rightarrow> Suc (length (takeWhile (\<lambda>y. y \<noteq> j) (kitems K))) mod length (kitems K))"

lemma kl_next_pos:
  assumes "kl_wf K" "kitems K \<noteq> []"
  shows "kl_next K = Some (kitems K ! kl_pos K)"
proof (cases "kindex K")
  case None
  with assms(2) show ?thesis
    by (cases "kitems K") (auto simp: kl_next_def kl_pos_def)
next
  case (Some j)
  with assms(1) obtain us vs where uv: "kitems K = us @ j # vs" "j \<notin> set us"
    by (auto simp: kl_wf_def dest: split_list_first)
  then have "takeWhile (\<lambda>y. y \<noteq> j) (kitems K) = us" "dropWhile (\<lambda>y. y \<noteq> j) (kitems K) = j # vs"
    by (simp_all add: takeWhile_neq_first dropWhile_neq_first)
  then show ?thesis
    using uv by (cases vs; cases us) (auto simp: kl_next_def kl_pos_def Some nth_append)
qed

lemma kl_pos_less: "kitems K \<noteq> [] \<Longrightarrow> kl_pos K < length (kitems K)"
  by (simp add: kl_pos_def split: option.splits)

lemma takeWhile_nth_distinct:
  "distinct xs \<Longrightarrow> n < length xs \<Longrightarrow> takeWhile (\<lambda>y. y \<noteq> xs ! n) xs = take n xs"
  by (rule takeWhile_eq_take_P_nth) (auto simp: nth_eq_iff_index_eq)

lemma kl_advance_wf:
  assumes "kl_wf K" "kitems K \<noteq> []"
  shows "kl_wf (kl_advance K)" "kitems (kl_advance K) = kitems K"
    "kl_pos (kl_advance K) = Suc (kl_pos K) mod length (kitems K)"
  using assms kl_pos_less [OF assms(2)]
  by (auto simp: kl_advance_def kl_next_pos kl_wf_def kl_pos_def takeWhile_nth_distinct)

lemma kl_advance_pow:
  assumes "kl_wf K" "kitems K \<noteq> []"
  shows "kl_wf ((kl_advance ^^ n) K) \<and> kitems ((kl_advance ^^ n) K) = kitems K \<and>
    kl_pos ((kl_advance ^^ n) K) = (kl_pos K + n) mod length (kitems K)"
proof (induction n)
  case 0
  then show ?case using assms kl_pos_less [OF assms(2)] by simp
next
  case (Suc n)
  then show ?case using kl_advance_wf [of "(kl_advance ^^ n) K"] assms(2) by (simp add: mod_Suc_eq)
qed

lemma set_index_twice: "set_index l p (set_index l q m) = set_index l p m"
  by (simp add: set_index_def)

lemma next_entry_cursor:
  assumes "list_repr m l K" "kitems K \<noteq> []"
  shows "\<exists>i. kl_next K = Some i \<and> i \<in> set (kitems K) \<and>
    listGET_OWNER_OF_NEXT_ENTRY l m = (pvOwner (items m (Item i)), set_index l (Item i) m)"
proof -
  have first: "pxNext (items m (End l)) = Item (hd (kitems K))"
    using repr_ends(1) [OF assms(1), of "[]" "kitems K"] assms(2) by (simp add: hd_map hd_append)
  show ?thesis
  proof (cases "kindex K")
    case None
    with assms first show ?thesis
      by (cases "kitems K") (auto simp: listGET_OWNER_OF_NEXT_ENTRY_def Let_def klist_simps
        list_repr_def cursor_def kl_next_def)
  next
    case (Some j)
    with assms(1) obtain us vs where uv: "kitems K = us @ j # vs" "j \<notin> set us"
      by (auto simp: list_repr_def kl_wf_def dest: split_list_first)
    have ix: "pxIndex (lists m l) = Item j"
      using assms(1) Some by (simp add: list_repr_def cursor_def)
    have "pxNext (items m (Item j)) = hd (map Item vs @ [End l])"
      using repr_ends(1) [OF assms(1), of "us @ [j]" vs] uv by simp
    moreover have "kl_next K = Some (hd (vs @ kitems K))"
      using uv(2) by (cases vs; cases us) (auto simp: kl_next_def Some uv(1) dropWhile_neq_first)
    ultimately show ?thesis
      using first uv ix by (cases vs)
        (auto simp: listGET_OWNER_OF_NEXT_ENTRY_def Let_def klist_simps set_index_twice hd_append)
  qed
qed

lemma next_entry_store:
  assumes "store_repr m A" "A l = Some K" "kitems K \<noteq> []"
  shows "\<exists>i m'. kl_next K = Some i \<and> i \<in> set (kitems K) \<and>
    listGET_OWNER_OF_NEXT_ENTRY l m = (pvOwner (items m (Item i)), m') \<and>
    same_data m m' \<and> store_repr m' (A(l \<mapsto> kl_advance K))"
proof -
  have K: "list_repr m l K" using assms(1,2) by (auto simp: store_repr_def)
  from next_entry_cursor [OF K assms(3)] obtain i where i: "kl_next K = Some i" "i \<in> set (kitems K)"
    and eq: "listGET_OWNER_OF_NEXT_ENTRY l m = (pvOwner (items m (Item i)), set_index l (Item i) m)"
    by blast
  have frame: "links (set_index l (Item i) m) = links m"
    by (intro ext, rule iffI; erule links_frame) (simp_all add: klist_simps)
  have "store_repr (set_index l (Item i) m) (A(l \<mapsto> kl_advance K))"
    using assms(1) K i
    by (auto simp: store_repr_def list_repr_def kl_advance_def kl_wf_def klist_simps cursor_def frame)
  with i eq show ?thesis by (auto simp: same_data_def klist_simps)
qed

lemma head_entry_repr:
  assumes "store_repr m A" "A l = Some K" "kitems K \<noteq> []"
  shows "listGET_OWNER_OF_HEAD_ENTRY l m = pvOwner (items m (Item (hd (kitems K))))"
    and "listGET_ITEM_VALUE_OF_HEAD_ENTRY l m = xItemValue (items m (Item (hd (kitems K))))"
proof -
  have "list_repr m l K" using assms(1,2) by (auto simp: store_repr_def)
  from repr_ends(1) [OF this, of "[]" "kitems K"] assms(3)
  have "pxNext (items m (End l)) = Item (hd (kitems K))" by (simp add: hd_append hd_map)
  then show "listGET_OWNER_OF_HEAD_ENTRY l m = pvOwner (items m (Item (hd (kitems K))))"
    and "listGET_ITEM_VALUE_OF_HEAD_ENTRY l m = xItemValue (items m (Item (hd (kitems K))))"
    by (simp_all add: listGET_OWNER_OF_HEAD_ENTRY_def listGET_ITEM_VALUE_OF_HEAD_ENTRY_def)
qed

lemma is_empty_repr:
  assumes "store_repr m A" "A l = Some K"
  shows "listLIST_IS_EMPTY l m \<longleftrightarrow> kitems K = []"
proof -
  have "length (kitems K) < 2 ^ LENGTH(32)" "uxNumberOfItems (lists m l) = of_nat (length (kitems K))"
    using assms by (auto simp: store_repr_def list_repr_def)
  then show ?thesis
    using unat_of_nat_less [of "length (kitems K)", where 'a = 32]
    by (auto simp: listLIST_IS_EMPTY_def)
qed

section \<open>Facts on the abstract list\<close>

lemma set_kl_insert [simp]: "set (kitems (kl_insert val x K)) = insert x (set (kitems K))"
  using set_insert_at by (simp add: kl_insert_def del: set_append)

lemma set_kl_insert_end [simp]: "set (kitems (kl_insert_end x K)) = insert x (set (kitems K))"
  using set_insert_at by (simp add: kl_insert_end_def del: set_append)

lemma set_kl_remove [simp]: "kl_wf K \<Longrightarrow> set (kitems (kl_remove x K)) = set (kitems K) - {x}"
  by (simp add: kl_remove_def kl_wf_def)

lemma kl_insert_wf: "kl_wf K \<Longrightarrow> x \<notin> set (kitems K) \<Longrightarrow> kl_wf (kl_insert val x K)"
  using set_kl_insert [of val x K] distinct_insert_at
  by (auto simp: kl_wf_def kl_insert_def simp del: set_append distinct_append)

lemma kl_insert_end_wf: "kl_wf K \<Longrightarrow> x \<notin> set (kitems K) \<Longrightarrow> kl_wf (kl_insert_end x K)"
  using set_kl_insert_end [of x K] distinct_insert_at
  by (auto simp: kl_wf_def kl_insert_end_def simp del: set_append distinct_append)

lemma kl_insert_sorted:
  "sorted (map val (kitems K)) \<Longrightarrow> sorted (map val (kitems (kl_insert val x K)))"
  using sorted_insert_at [of val "kitems K" x] by (simp add: kl_insert_def)

lemma kl_insert_split:
  assumes "sorted (map val (kitems K))"
  shows "\<exists>us vs. kitems K = us @ vs \<and> kitems (kl_insert val i K) = us @ i # vs \<and>
    (\<forall>u\<in>set us. val u \<le> val i) \<and> (\<forall>v\<in>set vs. val i < val v)"
  using sorted_dropWhile_greater [OF assms]
  by (intro exI [of _ "takeWhile (\<lambda>y. val y \<le> val i) (kitems K)"]
      exI [of _ "dropWhile (\<lambda>y. val y \<le> val i) (kitems K)"])
    (auto simp: kl_insert_def dest: set_takeWhileD)

lemma kl_remove_insert:
  assumes "kl_wf K" "i \<notin> set (kitems K)"
  shows "kl_remove i (kl_insert val i K) = K" "kl_remove i (kl_insert_end i K) = K"
proof -
  have "i \<notin> set (takeWhile P (kitems K))" for P
    using assms(2) by (auto dest: set_takeWhileD)
  then show "kl_remove i (kl_insert val i K) = K" "kl_remove i (kl_insert_end i K) = K"
    using assms by (auto simp: kl_remove_def kl_insert_def kl_insert_end_def remove1_middle kl_wf_def)
qed

text \<open>Owners returned by \<open>n\<close> successive advances of a list's cursor.\<close>

fun next_owners :: "('m \<Rightarrow> nat \<times> 'm) \<Rightarrow> nat \<Rightarrow> 'm \<Rightarrow> nat list" where
  "next_owners nxt 0 m = []"
| "next_owners nxt (Suc n) m = (case nxt m of (ow, m') \<Rightarrow> ow # next_owners nxt n m')"

section \<open>The interface of the lists\<close>

text \<open>
  What the scheduler relies on: a store of lists behaves as the abstract lists do, an
  insertion returns, and the values and owners of the items do not change.
\<close>

locale kernel_lists =
  fixes rep :: "'m \<Rightarrow> (list_ptr \<rightharpoonup> nat klist) \<Rightarrow> bool"
    and val :: "'m \<Rightarrow> nat \<Rightarrow> TickType_t"
    and owner :: "'m \<Rightarrow> nat \<Rightarrow> nat"
    and unlisted :: "'m \<Rightarrow> nat \<Rightarrow> bool"
    and insert_op :: "list_ptr \<Rightarrow> nat \<Rightarrow> 'm \<Rightarrow> 'm option"
    and insert_end_op :: "list_ptr \<Rightarrow> nat \<Rightarrow> 'm \<Rightarrow> 'm"
    and remove_op :: "nat \<Rightarrow> 'm \<Rightarrow> (UBaseType_t \<times> 'm) option"
    and next_op :: "list_ptr \<Rightarrow> 'm \<Rightarrow> nat \<times> 'm"
  assumes rep_wf: "rep m A \<Longrightarrow> A l = Some K \<Longrightarrow> kl_wf K"
    and rep_unlisted: "rep m A \<Longrightarrow> A l = Some K \<Longrightarrow> unlisted m i \<Longrightarrow> i \<notin> set (kitems K)"
    and insert_law: "rep m A \<Longrightarrow> A l = Some K \<Longrightarrow> unlisted m i \<Longrightarrow> length (kitems K) + 1 < 2 ^ 32 \<Longrightarrow>
      \<exists>m'. insert_op l i m = Some m' \<and> rep m' (A(l \<mapsto> kl_insert (val m) i K)) \<and>
        val m' = val m \<and> owner m' = owner m"
    and insert_end_law: "rep m A \<Longrightarrow> A l = Some K \<Longrightarrow> unlisted m i \<Longrightarrow> length (kitems K) + 1 < 2 ^ 32 \<Longrightarrow>
      rep (insert_end_op l i m) (A(l \<mapsto> kl_insert_end i K)) \<and>
        val (insert_end_op l i m) = val m \<and> owner (insert_end_op l i m) = owner m"
    and remove_law: "rep m A \<Longrightarrow> A l = Some K \<Longrightarrow> i \<in> set (kitems K) \<Longrightarrow>
      \<exists>m'. remove_op i m = Some (of_nat (length (kitems K) - 1), m') \<and>
        rep m' (A(l \<mapsto> kl_remove i K)) \<and> unlisted m' i \<and> val m' = val m \<and> owner m' = owner m"
    and next_law: "rep m A \<Longrightarrow> A l = Some K \<Longrightarrow> kitems K \<noteq> [] \<Longrightarrow>
      \<exists>i m'. kl_next K = Some i \<and> next_op l m = (owner m i, m') \<and>
        rep m' (A(l \<mapsto> kl_advance K)) \<and> val m' = val m \<and> owner m' = owner m"
begin

lemma insert_ordered:
  assumes "rep m A" "A l = Some K" "unlisted m i" "length (kitems K) + 1 < 2 ^ 32"
    and "sorted (map (val m) (kitems K))"
  shows "\<exists>m' us vs. insert_op l i m = Some m' \<and> kitems K = us @ vs \<and>
    rep m' (A(l \<mapsto> K\<lparr>kitems := us @ i # vs\<rparr>)) \<and> sorted (map (val m') (us @ i # vs)) \<and>
    (\<forall>u\<in>set us. val m u \<le> val m i) \<and> (\<forall>v\<in>set vs. val m i < val m v)"
proof -
  obtain us vs where uv: "kitems K = us @ vs" "kitems (kl_insert (val m) i K) = us @ i # vs"
    "\<forall>u\<in>set us. val m u \<le> val m i" "\<forall>v\<in>set vs. val m i < val m v"
    using kl_insert_split [OF assms(5)] by blast
  moreover have "kl_insert (val m) i K = K\<lparr>kitems := us @ i # vs\<rparr>"
    using uv(2) by (simp add: kl_insert_def)
  moreover have "sorted (map (val m) (us @ i # vs))"
    using kl_insert_sorted [OF assms(5), of i] uv(2) by simp
  ultimately show ?thesis
    using insert_law [OF assms(1-4)] by metis
qed

lemma insert_remove:
  assumes "rep m A" "A l = Some K" "unlisted m i" "length (kitems K) + 1 < 2 ^ 32"
  shows "\<exists>m' m''. insert_op l i m = Some m' \<and>
    remove_op i m' = Some (of_nat (length (kitems K)), m'') \<and> rep m'' A \<and> unlisted m'' i"
proof -
  have wf: "kl_wf K" "i \<notin> set (kitems K)"
    using assms rep_wf rep_unlisted by blast+
  obtain m' where m': "insert_op l i m = Some m'" "rep m' (A(l \<mapsto> kl_insert (val m) i K))"
    using insert_law [OF assms] by blast
  moreover have "length (kitems (kl_insert (val m) i K)) - 1 = length (kitems K)"
    by (simp add: kl_insert_def)
  moreover have "A(l \<mapsto> K) = A" using assms(2) by auto
  ultimately show ?thesis
    using remove_law [OF m'(2), of l _ i] wf by (auto simp: kl_remove_insert)
qed

lemma round_robin:
  assumes "rep m A" "A l = Some K" "kitems K \<noteq> []"
  shows "next_owners (next_op l) n m =
    map (\<lambda>k. owner m (kitems K ! ((kl_pos K + k) mod length (kitems K)))) [0..<n]"
  using assms
proof (induction n arbitrary: m A K)
  case 0
  then show ?case by simp
next
  case (Suc n)
  note wf = rep_wf [OF Suc.prems(1,2)]
  obtain m' where m': "next_op l m = (owner m (kitems K ! kl_pos K), m')"
    "rep m' (A(l \<mapsto> kl_advance K))" "owner m' = owner m"
    using next_law [OF Suc.prems] kl_next_pos [OF wf Suc.prems(3)] by auto
  have "next_owners (next_op l) n m' =
    map (\<lambda>k. owner m (kitems K ! ((Suc (kl_pos K) mod length (kitems K) + k) mod length (kitems K)))) [0..<n]"
    using Suc.IH [OF m'(2)] kl_advance_wf [OF wf Suc.prems(3)] Suc.prems(3) m'(3) by simp
  moreover have "kl_pos K mod length (kitems K) = kl_pos K"
    using kl_pos_less [OF Suc.prems(3)] by simp
  ultimately show ?case
    using m'(1) by (simp add: map_upt_Suc mod_simps del: upt_Suc)
qed

end

interpretation clist: kernel_lists store_repr
  "\<lambda>m i. xItemValue (items m (Item i))" "\<lambda>m i. pvOwner (items m (Item i))"
  "\<lambda>m i. pxContainer (items m (Item i)) = None"
  "\<lambda>l i. vListInsert l (Item i)" "\<lambda>l i. vListInsertEnd l (Item i)"
  "\<lambda>i. uxListRemove (Item i)" listGET_OWNER_OF_NEXT_ENTRY
proof (unfold_locales, goal_cases)
  case (1 m A l K)
  then show ?case by (auto simp: store_repr_def list_repr_def)
next
  case (2 m A l K i)
  then have "list_repr m l K" by (auto simp: store_repr_def)
  with 2 show ?case by (auto simp: list_repr_def)
next
  case (3 m A l K i)
  from vListInsert_store [OF this] show ?case by (auto simp: same_data_def)
next
  case (4 m A l K i)
  from vListInsertEnd_store [OF this] show ?case by (auto simp: same_data_def)
next
  case (5 m A l K i)
  from uxListRemove_store [OF this] show ?case by (auto simp: same_data_def)
next
  case (6 m A l K)
  from next_entry_store [OF this] show ?case by (auto simp: same_data_def)
qed

section \<open>Properties\<close>

text \<open>
  C40. \<open>vListInsert\<close> always returns on a well-formed store, keeps a sorted list sorted, puts
  the item after the items with a smaller or equal value and before the larger ones, and
  leaves every other list as it was.
\<close>

theorem vListInsert_correct:
  assumes "store_repr m A" "A l = Some K" "pxContainer (items m (Item i)) = None"
    and "length (kitems K) + 1 < 2 ^ 32"
    and "sorted (map (\<lambda>j. xItemValue (items m (Item j))) (kitems K))"
  shows "\<exists>m' us vs. vListInsert l (Item i) m = Some m' \<and> kitems K = us @ vs \<and>
    store_repr m' (A(l \<mapsto> K\<lparr>kitems := us @ i # vs\<rparr>)) \<and>
    sorted (map (\<lambda>j. xItemValue (items m' (Item j))) (us @ i # vs)) \<and>
    (\<forall>u\<in>set us. xItemValue (items m (Item u)) \<le> xItemValue (items m (Item i))) \<and>
    (\<forall>v\<in>set vs. xItemValue (items m (Item i)) < xItemValue (items m (Item v)))"
  using assms by (rule clist.insert_ordered)

text \<open>
  Removing an item that was just inserted gives back the same abstract store, the count
  of the list before the insertion, and an item that is in no list.
\<close>

theorem vListInsert_uxListRemove:
  assumes "store_repr m A" "A l = Some K" "pxContainer (items m (Item i)) = None"
    and "length (kitems K) + 1 < 2 ^ 32"
  shows "\<exists>m' m''. vListInsert l (Item i) m = Some m' \<and>
    uxListRemove (Item i) m' = Some (of_nat (length (kitems K)), m'') \<and> store_repr m'' A \<and>
    pxContainer (items m'' (Item i)) = None"
  using assms by (rule clist.insert_remove)

text \<open>
  Round robin: successive uses of \<open>listGET_OWNER_OF_NEXT_ENTRY\<close> return the owners of the
  items of the list in cyclic order from the cursor, so each item is selected exactly once in
  as many calls as the list has items.
\<close>

theorem listGET_OWNER_OF_NEXT_ENTRY_round_robin:
  assumes "store_repr m A" "A l = Some K" "kitems K \<noteq> []"
  shows "next_owners (listGET_OWNER_OF_NEXT_ENTRY l) (length (kitems K)) m =
    map (\<lambda>i. pvOwner (items m (Item i))) (rotate (kl_pos K) (kitems K))"
  using clist.round_robin [OF assms, of "length (kitems K)"]
  by (auto intro!: nth_equalityI simp: nth_rotate add.commute)

section \<open>Witnesses\<close>

text \<open>A store of items with the values 5, 5, 3 \<dots>, and a list made of it.\<close>

definition demo_mem :: list_mem where
  "demo_mem =
     \<lparr>items = (\<lambda>p. \<lparr>xItemValue = (if p = Item 2 then 3 else 5), pxNext = p, pxPrevious = p,
        pvOwner = (case p of Item i \<Rightarrow> 10 + i | End _ \<Rightarrow> 0), pxContainer = None\<rparr>),
      lists = (\<lambda>_. \<lparr>uxNumberOfItems = 7, pxIndex = Item 0\<rparr>)\<rparr>"

lemma demo_store: "store_repr (vListInitialise 0 demo_mem) [0 \<mapsto> kl_empty]"
  by (rule vListInitialise_store) (auto simp: store_repr_def)

lemma demo_fields:
  "pxContainer (items (vListInitialise 0 demo_mem) (Item i)) = None"
  "pvOwner (items (vListInitialise 0 demo_mem) (Item i)) = 10 + i"
  by (simp_all add: vListInitialise_def demo_mem_def Let_def klist_simps)

theorem vListInsert_correct_witness:
  "\<exists>m' us vs. vListInsert 0 (Item 1) (vListInitialise 0 demo_mem) = Some m' \<and>
    kitems (kl_empty :: nat klist) = us @ vs \<and>
    store_repr m' [0 \<mapsto> kl_empty\<lparr>kitems := us @ 1 # vs\<rparr>]"
  using vListInsert_correct [OF demo_store, of 0 kl_empty 1]
  by (force simp: demo_fields kl_empty_def)

theorem vListInsert_uxListRemove_witness:
  "\<exists>m' m''. vListInsert 0 (Item 1) (vListInitialise 0 demo_mem) = Some m' \<and>
    uxListRemove (Item 1) m' = Some (0, m'') \<and> store_repr m'' [0 \<mapsto> kl_empty]"
  using vListInsert_uxListRemove [OF demo_store, of 0 kl_empty 1]
  by (force simp: demo_fields kl_empty_def)

definition demo_mem2 :: list_mem where
  "demo_mem2 = vListInsertEnd 0 (Item 3) (vListInitialise 0 demo_mem)"

lemma demo_store2: "store_repr demo_mem2 [0 \<mapsto> \<lparr>kitems = [3], kindex = None\<rparr>]"
  using vListInsertEnd_store [OF demo_store, of 0 kl_empty 3]
  by (simp add: demo_mem2_def demo_fields kl_empty_def kl_insert_end_def)

theorem listGET_OWNER_OF_NEXT_ENTRY_round_robin_witness:
  "next_owners (listGET_OWNER_OF_NEXT_ENTRY 0) 1 demo_mem2 = [13]"
  using listGET_OWNER_OF_NEXT_ENTRY_round_robin [OF demo_store2, of 0]
    vListInsertEnd_store [OF demo_store, of 0 kl_empty 3]
  by (simp add: demo_mem2_def same_data_def demo_fields kl_empty_def kl_pos_def)

end
