(* ===== verification/Kernel_Tasks.thy ===== *)
theory Kernel_Tasks
  imports Kernel_List "HOL-Library.Monad_Syntax"
begin

text \<open>
  The scheduler: the parts of \<open>FreeRTOS/tasks.c\<close> that keep the ready, delayed, pending and
  suspended lists, count ticks, select the running task and lend priorities, in the
  configuration of \<open>Inc/FreeRTOSConfig.h\<close> (preemption and time slicing on, generic task
  selection, 56 priorities, 32-bit ticks, one notification per task, no static allocation).

  The task lists are the abstract lists of theory \<open>Kernel_List\<close>, whose refinement theorems
  say that the pointer code of \<open>list.c\<close> implements them. The result \<open>None\<close> of an operation
  means that the processor stops in a failed \<open>configASSERT\<close> or dereferences a null pointer.
  The state record is extensible: the theories of the kernel objects add their fields.
\<close>

section \<open>State\<close>

type_synonym tid = nat

definition configMAX_PRIORITIES :: UBaseType_t where
  "configMAX_PRIORITIES = 56"

definition tskIDLE_PRIORITY :: UBaseType_t where
  "tskIDLE_PRIORITY = 0"

text \<open>
  The lists of \<open>tasks.c\<close> and the event lists of queues, event groups. A list of the second
  kind links the \<open>xEventListItem\<close> of its tasks, the others link the \<open>xStateListItem\<close>.
\<close>

datatype list_id =
    Ready UBaseType_t | Delayed1 | Delayed2 | TasksWaitingTermination | SuspendedTaskList
  | PendingReadyList | WaitingToSend nat | WaitingToReceive nat | WaitingForBits nat

fun is_event_list :: "list_id \<Rightarrow> bool" where
  "is_event_list PendingReadyList = True"
| "is_event_list (WaitingToSend _) = True"
| "is_event_list (WaitingToReceive _) = True"
| "is_event_list (WaitingForBits _) = True"
| "is_event_list _ = False"

datatype notify_state = taskNOT_WAITING_NOTIFICATION | taskWAITING_NOTIFICATION | taskNOTIFICATION_RECEIVED

record tcb =
  uxPriority :: UBaseType_t
  uxBasePriority :: UBaseType_t
  uxMutexesHeld :: UBaseType_t
  uxTCBNumber :: UBaseType_t
  state_value :: TickType_t              \<comment> \<open>\<open>xStateListItem.xItemValue\<close>\<close>
  state_list :: "list_id option"         \<comment> \<open>\<open>xStateListItem.pxContainer\<close>\<close>
  event_value :: TickType_t              \<comment> \<open>\<open>xEventListItem.xItemValue\<close>\<close>
  event_list :: "list_id option"         \<comment> \<open>\<open>xEventListItem.pxContainer\<close>\<close>
  ulNotifiedValue :: u32
  ucNotifyState :: notify_state

record kernel =
  tcbs :: "tid \<Rightarrow> tcb"
  task_lists :: "list_id \<Rightarrow> tid klist"
  pxCurrentTCB :: "tid option"
  pxDelayedTaskList :: list_id
  pxOverflowDelayedTaskList :: list_id
  uxDeletedTasksWaitingCleanUp :: UBaseType_t
  uxCurrentNumberOfTasks :: UBaseType_t
  xTickCount :: TickType_t
  uxTopReadyPriority :: UBaseType_t
  xSchedulerRunning :: bool
  xPendedTicks :: TickType_t
  xYieldPending :: bool
  xNumOfOverflows :: u32
  uxTaskNumber :: UBaseType_t
  xNextTaskUnblockTime :: TickType_t
  uxSchedulerSuspended :: UBaseType_t
  pendsv :: bool                         \<comment> \<open>\<open>PENDSVSET\<close> of the interrupt controller\<close>

section \<open>Access to lists and control blocks\<close>

definition upd_tcb :: "tid \<Rightarrow> (tcb \<Rightarrow> tcb) \<Rightarrow> 'z kernel_scheme \<Rightarrow> 'z kernel_scheme" where
  "upd_tcb t f k = k\<lparr>tcbs := (tcbs k)(t := f (tcbs k t))\<rparr>"

definition upd_list :: "list_id \<Rightarrow> (tid klist \<Rightarrow> tid klist) \<Rightarrow> 'z kernel_scheme \<Rightarrow> 'z kernel_scheme" where
  "upd_list l f k = k\<lparr>task_lists := (task_lists k)(l := f (task_lists k l))\<rparr>"

abbreviation members :: "'z kernel_scheme \<Rightarrow> list_id \<Rightarrow> tid list" where
  "members k l \<equiv> kitems (task_lists k l)"

abbreviation prio :: "'z kernel_scheme \<Rightarrow> tid \<Rightarrow> UBaseType_t" where
  "prio k t \<equiv> uxPriority (tcbs k t)"

text \<open>\<open>uxListRemove\<close> and \<open>listREMOVE_ITEM\<close> on the two items of a control block.\<close>

definition remove_state_item :: "tid \<Rightarrow> 'z kernel_scheme \<Rightarrow> 'z kernel_scheme option" where
  "remove_state_item t k = do {
     l \<leftarrow> state_list (tcbs k t);
     Some (upd_tcb t (\<lambda>b. b\<lparr>state_list := None\<rparr>) (upd_list l (kl_remove t) k))
   }"

definition remove_event_item :: "tid \<Rightarrow> 'z kernel_scheme \<Rightarrow> 'z kernel_scheme option" where
  "remove_event_item t k = do {
     l \<leftarrow> event_list (tcbs k t);
     Some (upd_tcb t (\<lambda>b. b\<lparr>event_list := None\<rparr>) (upd_list l (kl_remove t) k))
   }"

text \<open>\<open>vListInsertEnd\<close> and \<open>vListInsert\<close> of an item.\<close>

definition insert_end_state :: "list_id \<Rightarrow> tid \<Rightarrow> 'z kernel_scheme \<Rightarrow> 'z kernel_scheme" where
  "insert_end_state l t k = upd_tcb t (\<lambda>b. b\<lparr>state_list := Some l\<rparr>) (upd_list l (kl_insert_end t) k)"

definition insert_state :: "list_id \<Rightarrow> tid \<Rightarrow> 'z kernel_scheme \<Rightarrow> 'z kernel_scheme" where
  "insert_state l t k = upd_tcb t (\<lambda>b. b\<lparr>state_list := Some l\<rparr>)
     (upd_list l (kl_insert (\<lambda>j. state_value (tcbs k j)) t) k)"

definition insert_end_event :: "list_id \<Rightarrow> tid \<Rightarrow> 'z kernel_scheme \<Rightarrow> 'z kernel_scheme" where
  "insert_end_event l t k = upd_tcb t (\<lambda>b. b\<lparr>event_list := Some l\<rparr>) (upd_list l (kl_insert_end t) k)"

definition insert_event :: "list_id \<Rightarrow> tid \<Rightarrow> 'z kernel_scheme \<Rightarrow> 'z kernel_scheme" where
  "insert_event l t k = upd_tcb t (\<lambda>b. b\<lparr>event_list := Some l\<rparr>)
     (upd_list l (kl_insert (\<lambda>j. event_value (tcbs k j)) t) k)"

definition head_owner :: "list_id \<Rightarrow> 'z kernel_scheme \<Rightarrow> tid option" where
  "head_owner l k = (case members k l of [] \<Rightarrow> None | t # _ \<Rightarrow> Some t)"

text \<open>\<open>configASSERT\<close>: a false condition stops the processor.\<close>

definition configASSERT :: "bool \<Rightarrow> unit option" where
  "configASSERT b = (if b then Some () else None)"

text \<open>\<open>portYIELD\<close> pends the context switch, which the PendSV handler makes.\<close>

definition portYIELD :: "'z kernel_scheme \<Rightarrow> 'z kernel_scheme" where
  "portYIELD k = k\<lparr>pendsv := True\<rparr>"

section \<open>Ready lists and task selection\<close>

definition taskRECORD_READY_PRIORITY :: "UBaseType_t \<Rightarrow> 'z kernel_scheme \<Rightarrow> 'z kernel_scheme" where
  "taskRECORD_READY_PRIORITY p k =
     (if p > uxTopReadyPriority k then k\<lparr>uxTopReadyPriority := p\<rparr> else k)"

text \<open>The array of ready lists has \<open>configMAX_PRIORITIES\<close> elements.\<close>

definition prvAddTaskToReadyList :: "tid \<Rightarrow> 'z kernel_scheme \<Rightarrow> 'z kernel_scheme option" where
  "prvAddTaskToReadyList t k =
     (if prio k t < configMAX_PRIORITIES
      then Some (insert_end_state (Ready (prio k t)) t (taskRECORD_READY_PRIORITY (prio k t) k))
      else None)"

function top_ready :: "'z kernel_scheme \<Rightarrow> UBaseType_t \<Rightarrow> UBaseType_t option" where
  "top_ready k p =
     (if members k (Ready p) \<noteq> [] then Some p
      else if p = 0 then None else top_ready k (p - 1))"
  by pat_completeness auto
termination
  by (relation "measure (\<lambda>(k, p). unat p)") (auto simp: unat_gt_0 measure_unat)

declare top_ready.simps [simp del]

definition taskSELECT_HIGHEST_PRIORITY_TASK :: "'z kernel_scheme \<Rightarrow> 'z kernel_scheme option" where
  "taskSELECT_HIGHEST_PRIORITY_TASK k = do {
     p \<leftarrow> top_ready k (uxTopReadyPriority k);
     let k = upd_list (Ready p) kl_advance k;
     t \<leftarrow> kindex (task_lists k (Ready p));
     Some (k\<lparr>pxCurrentTCB := Some t, uxTopReadyPriority := p\<rparr>)
   }"

definition vTaskSwitchContext :: "'z kernel_scheme \<Rightarrow> 'z kernel_scheme option" where
  "vTaskSwitchContext k =
     (if uxSchedulerSuspended k \<noteq> 0 then Some (k\<lparr>xYieldPending := True\<rparr>)
      else taskSELECT_HIGHEST_PRIORITY_TASK (k\<lparr>xYieldPending := False\<rparr>))"

section \<open>Creating tasks\<close>

text \<open>
  \<open>prvInitialiseNewTask\<close> on the fields of the scheduler. The control block comes zeroed from
  \<open>xTaskCreate\<close>; stack, name and C library context are not part of the state.
\<close>

definition zero_tcb :: tcb where
  "zero_tcb = \<lparr>uxPriority = 0, uxBasePriority = 0, uxMutexesHeld = 0, uxTCBNumber = 0,
     state_value = 0, state_list = None, event_value = 0, event_list = None,
     ulNotifiedValue = 0, ucNotifyState = taskNOT_WAITING_NOTIFICATION\<rparr>"

definition prvInitialiseNewTask :: "UBaseType_t \<Rightarrow> tid \<Rightarrow> 'z kernel_scheme \<Rightarrow> 'z kernel_scheme option" where
  "prvInitialiseNewTask pr t k = do {
     configASSERT (pr < configMAX_PRIORITIES);
     let pr = (if pr \<ge> configMAX_PRIORITIES then configMAX_PRIORITIES - 1 else pr);
     Some (upd_tcb t (\<lambda>b. b\<lparr>uxPriority := pr, uxBasePriority := pr, state_list := None,
       event_list := None, event_value := configMAX_PRIORITIES - pr\<rparr>) k)
   }"

definition prvInitialiseTaskLists :: "'z kernel_scheme \<Rightarrow> 'z kernel_scheme" where
  "prvInitialiseTaskLists k =
     k\<lparr>task_lists := (\<lambda>l. case l of
         Ready p \<Rightarrow> (if p < configMAX_PRIORITIES then kl_empty else task_lists k l)
       | Delayed1 \<Rightarrow> kl_empty | Delayed2 \<Rightarrow> kl_empty | PendingReadyList \<Rightarrow> kl_empty
       | TasksWaitingTermination \<Rightarrow> kl_empty | SuspendedTaskList \<Rightarrow> kl_empty
       | _ \<Rightarrow> task_lists k l),
       pxDelayedTaskList := Delayed1, pxOverflowDelayedTaskList := Delayed2\<rparr>"

definition prvAddNewTaskToReadyList :: "tid \<Rightarrow> 'z kernel_scheme \<Rightarrow> 'z kernel_scheme option" where
  "prvAddNewTaskToReadyList t k = do {
     let k = k\<lparr>uxCurrentNumberOfTasks := uxCurrentNumberOfTasks k + 1\<rparr>;
     let k = (case pxCurrentTCB k of
         None \<Rightarrow> (let k = k\<lparr>pxCurrentTCB := Some t\<rparr> in
                  if uxCurrentNumberOfTasks k = 1 then prvInitialiseTaskLists k else k)
       | Some c \<Rightarrow>
           if \<not> xSchedulerRunning k \<and> prio k c \<le> prio k t then k\<lparr>pxCurrentTCB := Some t\<rparr> else k);
     let k = k\<lparr>uxTaskNumber := uxTaskNumber k + 1\<rparr>;
     let k = upd_tcb t (\<lambda>b. b\<lparr>uxTCBNumber := uxTaskNumber k\<rparr>) k;
     k \<leftarrow> prvAddTaskToReadyList t k;
     if xSchedulerRunning k then do {
       c \<leftarrow> pxCurrentTCB k;
       Some (if prio k c < prio k t then portYIELD k else k)
     } else Some k
   }"

text \<open>
  \<open>xTaskCreate\<close>: \<open>alloc\<close> is what the allocator returned for the stack and control block
  (\<open>None\<close>: out of memory, \<open>errCOULD_NOT_ALLOCATE_REQUIRED_MEMORY\<close> is \<open>-1\<close>).
\<close>

definition xTaskCreate ::
  "tid option \<Rightarrow> UBaseType_t \<Rightarrow> 'z kernel_scheme \<Rightarrow> (int \<times> 'z kernel_scheme) option" where
  "xTaskCreate alloc pr k =
     (case alloc of
        None \<Rightarrow> Some (-1, k)
      | Some t \<Rightarrow> do {
          k \<leftarrow> prvInitialiseNewTask pr t (upd_tcb t (\<lambda>_. zero_tcb) k);
          k \<leftarrow> prvAddNewTaskToReadyList t k;
          Some (1, k)
        })"

section \<open>Delays and ticks\<close>

definition prvResetNextTaskUnblockTime :: "'z kernel_scheme \<Rightarrow> 'z kernel_scheme" where
  "prvResetNextTaskUnblockTime k =
     (case members k (pxDelayedTaskList k) of
        [] \<Rightarrow> k\<lparr>xNextTaskUnblockTime := portMAX_DELAY\<rparr>
      | t # _ \<Rightarrow> k\<lparr>xNextTaskUnblockTime := state_value (tcbs k t)\<rparr>)"

definition prvAddCurrentTaskToDelayedList ::
  "TickType_t \<Rightarrow> bool \<Rightarrow> 'z kernel_scheme \<Rightarrow> 'z kernel_scheme option" where
  "prvAddCurrentTaskToDelayedList xTicksToWait xCanBlockIndefinitely k = do {
     c \<leftarrow> pxCurrentTCB k;
     k \<leftarrow> remove_state_item c k;
     if xTicksToWait = portMAX_DELAY \<and> xCanBlockIndefinitely
     then Some (insert_end_state SuspendedTaskList c k)
     else do {
       let xTimeToWake = xTickCount k + xTicksToWait;
       let k = upd_tcb c (\<lambda>b. b\<lparr>state_value := xTimeToWake\<rparr>) k;
       if xTimeToWake < xTickCount k
       then Some (insert_state (pxOverflowDelayedTaskList k) c k)
       else do {
         let k = insert_state (pxDelayedTaskList k) c k;
         Some (if xTimeToWake < xNextTaskUnblockTime k
               then k\<lparr>xNextTaskUnblockTime := xTimeToWake\<rparr> else k)
       }
     }
   }"

definition taskSWITCH_DELAYED_LISTS :: "'z kernel_scheme \<Rightarrow> 'z kernel_scheme option" where
  "taskSWITCH_DELAYED_LISTS k = do {
     configASSERT (members k (pxDelayedTaskList k) = []);
     Some (prvResetNextTaskUnblockTime
       (k\<lparr>pxDelayedTaskList := pxOverflowDelayedTaskList k,
          pxOverflowDelayedTaskList := pxDelayedTaskList k,
          xNumOfOverflows := xNumOfOverflows k + 1\<rparr>))
   }"

text \<open>
  The \<open>for\<close> loop of \<open>xTaskIncrementTick\<close>: wakes the head of the delayed list as long as its
  time has come. It returns the state and whether a switch is required.
\<close>

partial_function (option) unblock_delayed ::
  "TickType_t \<Rightarrow> bool \<Rightarrow> 'z kernel_scheme \<Rightarrow> (bool \<times> 'z kernel_scheme) option" where
  "unblock_delayed xConstTickCount xSwitchRequired k =
     (case members k (pxDelayedTaskList k) of
        [] \<Rightarrow> Some (xSwitchRequired, k\<lparr>xNextTaskUnblockTime := portMAX_DELAY\<rparr>)
      | t # _ \<Rightarrow>
          if xConstTickCount < state_value (tcbs k t)
          then Some (xSwitchRequired, k\<lparr>xNextTaskUnblockTime := state_value (tcbs k t)\<rparr>)
          else do {
            k \<leftarrow> remove_state_item t k;
            k \<leftarrow> (if event_list (tcbs k t) \<noteq> None then remove_event_item t k else Some k);
            k \<leftarrow> prvAddTaskToReadyList t k;
            c \<leftarrow> pxCurrentTCB k;
            unblock_delayed xConstTickCount (prio k t > prio k c \<or> xSwitchRequired) k
          })"

definition xTaskIncrementTick :: "'z kernel_scheme \<Rightarrow> (bool \<times> 'z kernel_scheme) option" where
  "xTaskIncrementTick k =
     (if uxSchedulerSuspended k = 0 then do {
        let xConstTickCount = xTickCount k + 1;
        let k = k\<lparr>xTickCount := xConstTickCount\<rparr>;
        k \<leftarrow> (if xConstTickCount = 0 then taskSWITCH_DELAYED_LISTS k else Some k);
        (sw, k) \<leftarrow> (if xConstTickCount \<ge> xNextTaskUnblockTime k
                   then unblock_delayed xConstTickCount False k else Some (False, k));
        c \<leftarrow> pxCurrentTCB k;
        let sw = (sw \<or> length (members k (Ready (prio k c))) > 1);
        let sw = (sw \<or> xYieldPending k);
        Some (sw, k)
      }
      else Some (False, k\<lparr>xPendedTicks := xPendedTicks k + 1\<rparr>))"

section \<open>Suspending the scheduler\<close>

definition vTaskSuspendAll :: "'z kernel_scheme \<Rightarrow> 'z kernel_scheme" where
  "vTaskSuspendAll k = k\<lparr>uxSchedulerSuspended := uxSchedulerSuspended k + 1\<rparr>"

text \<open>The \<open>while\<close> loop of \<open>xTaskResumeAll\<close> over the pending ready list; the boolean says
  whether it moved a task (\<open>pxTCB != NULL\<close>).\<close>

partial_function (option) drain_pending ::
  "bool \<Rightarrow> 'z kernel_scheme \<Rightarrow> (bool \<times> 'z kernel_scheme) option" where
  "drain_pending moved k =
     (case members k PendingReadyList of
        [] \<Rightarrow> Some (moved, k)
      | t # _ \<Rightarrow> do {
          k \<leftarrow> remove_event_item t k;
          k \<leftarrow> remove_state_item t k;
          k \<leftarrow> prvAddTaskToReadyList t k;
          c \<leftarrow> pxCurrentTCB k;
          drain_pending True (if prio k t \<ge> prio k c then k\<lparr>xYieldPending := True\<rparr> else k)
        })"

fun replay_ticks :: "nat \<Rightarrow> 'z kernel_scheme \<Rightarrow> 'z kernel_scheme option" where
  "replay_ticks 0 k = Some k"
| "replay_ticks (Suc n) k = do {
     (sw, k) \<leftarrow> xTaskIncrementTick k;
     replay_ticks n (if sw then k\<lparr>xYieldPending := True\<rparr> else k)
   }"

definition xTaskResumeAll :: "'z kernel_scheme \<Rightarrow> (bool \<times> 'z kernel_scheme) option" where
  "xTaskResumeAll k = do {
     configASSERT (uxSchedulerSuspended k \<noteq> 0);
     let k = k\<lparr>uxSchedulerSuspended := uxSchedulerSuspended k - 1\<rparr>;
     if uxSchedulerSuspended k = 0 \<and> uxCurrentNumberOfTasks k > 0 then do {
       (moved, k) \<leftarrow> drain_pending False k;
       let k = (if moved then prvResetNextTaskUnblockTime k else k);
       k \<leftarrow> (if xPendedTicks k > 0 then do {
                k \<leftarrow> replay_ticks (unat (xPendedTicks k)) k;
                Some (k\<lparr>xPendedTicks := 0\<rparr>)
              } else Some k);
       Some (if xYieldPending k then (True, portYIELD k) else (False, k))
     } else Some (False, k)
   }"

definition vTaskDelay :: "TickType_t \<Rightarrow> 'z kernel_scheme \<Rightarrow> 'z kernel_scheme option" where
  "vTaskDelay xTicksToDelay k = do {
     (xAlreadyYielded, k) \<leftarrow> (if xTicksToDelay > 0 then do {
         configASSERT (uxSchedulerSuspended k = 0);
         k \<leftarrow> prvAddCurrentTaskToDelayedList xTicksToDelay False (vTaskSuspendAll k);
         xTaskResumeAll k
       } else Some (False, k));
     Some (if xAlreadyYielded then k else portYIELD k)
   }"

definition xTaskDelayUntil ::
  "TickType_t \<Rightarrow> TickType_t \<Rightarrow> 'z kernel_scheme \<Rightarrow> (bool \<times> TickType_t \<times> 'z kernel_scheme) option" where
  "xTaskDelayUntil pxPreviousWakeTime xTimeIncrement k = do {
     configASSERT (xTimeIncrement > 0);
     configASSERT (uxSchedulerSuspended k = 0);
     let k = vTaskSuspendAll k;
     let xConstTickCount = xTickCount k;
     let xTimeToWake = pxPreviousWakeTime + xTimeIncrement;
     let xShouldDelay =
       (if xConstTickCount < pxPreviousWakeTime
        then xTimeToWake < pxPreviousWakeTime \<and> xTimeToWake > xConstTickCount
        else xTimeToWake < pxPreviousWakeTime \<or> xTimeToWake > xConstTickCount);
     k \<leftarrow> (if xShouldDelay
           then prvAddCurrentTaskToDelayedList (xTimeToWake - xConstTickCount) False k else Some k);
     (xAlreadyYielded, k) \<leftarrow> xTaskResumeAll k;
     Some (xShouldDelay, xTimeToWake, if xAlreadyYielded then k else portYIELD k)
   }"

definition xTaskCatchUpTicks :: "TickType_t \<Rightarrow> 'z kernel_scheme \<Rightarrow> (bool \<times> 'z kernel_scheme) option" where
  "xTaskCatchUpTicks xTicksToCatchUp k = do {
     configASSERT (uxSchedulerSuspended k = 0);
     let k = vTaskSuspendAll k;
     xTaskResumeAll (k\<lparr>xPendedTicks := xPendedTicks k + xTicksToCatchUp\<rparr>)
   }"

section \<open>Suspending, resuming and deleting tasks\<close>

definition get_tcb :: "tid option \<Rightarrow> 'z kernel_scheme \<Rightarrow> tid option" where
  "get_tcb h k = (case h of None \<Rightarrow> pxCurrentTCB k | Some t \<Rightarrow> Some t)"

text \<open>\<open>vTaskDelete\<close> up to the release of the memory of another task's control block.\<close>

definition vTaskDelete :: "tid option \<Rightarrow> 'z kernel_scheme \<Rightarrow> 'z kernel_scheme option" where
  "vTaskDelete xTaskToDelete k = do {
     t \<leftarrow> get_tcb xTaskToDelete k;
     k \<leftarrow> remove_state_item t k;
     k \<leftarrow> (if event_list (tcbs k t) \<noteq> None then remove_event_item t k else Some k);
     let k = k\<lparr>uxTaskNumber := uxTaskNumber k + 1\<rparr>;
     let k = (if Some t = pxCurrentTCB k
              then (insert_end_state TasksWaitingTermination t k)
                \<lparr>uxDeletedTasksWaitingCleanUp := uxDeletedTasksWaitingCleanUp k + 1\<rparr>
              else prvResetNextTaskUnblockTime
                (k\<lparr>uxCurrentNumberOfTasks := uxCurrentNumberOfTasks k - 1\<rparr>));
     if xSchedulerRunning k \<and> Some t = pxCurrentTCB k then do {
       configASSERT (uxSchedulerSuspended k = 0);
       Some (portYIELD k)
     } else Some k
   }"

partial_function (option) prvCheckTasksWaitingTermination ::
  "'z kernel_scheme \<Rightarrow> 'z kernel_scheme option" where
  "prvCheckTasksWaitingTermination k =
     (if uxDeletedTasksWaitingCleanUp k > 0 then do {
        t \<leftarrow> head_owner TasksWaitingTermination k;
        k \<leftarrow> remove_state_item t k;
        prvCheckTasksWaitingTermination
          (k\<lparr>uxCurrentNumberOfTasks := uxCurrentNumberOfTasks k - 1,
             uxDeletedTasksWaitingCleanUp := uxDeletedTasksWaitingCleanUp k - 1\<rparr>)
      } else Some k)"

definition vTaskSuspend :: "tid option \<Rightarrow> 'z kernel_scheme \<Rightarrow> 'z kernel_scheme option" where
  "vTaskSuspend xTaskToSuspend k = do {
     t \<leftarrow> get_tcb xTaskToSuspend k;
     k \<leftarrow> remove_state_item t k;
     k \<leftarrow> (if event_list (tcbs k t) \<noteq> None then remove_event_item t k else Some k);
     let k = insert_end_state SuspendedTaskList t k;
     let k = upd_tcb t (\<lambda>b. if ucNotifyState b = taskWAITING_NOTIFICATION
               then b\<lparr>ucNotifyState := taskNOT_WAITING_NOTIFICATION\<rparr> else b) k;
     let k = (if xSchedulerRunning k then prvResetNextTaskUnblockTime k else k);
     if Some t = pxCurrentTCB k then
       (if xSchedulerRunning k then do {
          configASSERT (uxSchedulerSuspended k = 0);
          Some (portYIELD k)
        }
        else if of_nat (length (members k SuspendedTaskList)) = uxCurrentNumberOfTasks k
        then Some (k\<lparr>pxCurrentTCB := None\<rparr>)
        else vTaskSwitchContext k)
     else Some k
   }"

definition prvTaskIsTaskSuspended :: "tid \<Rightarrow> 'z kernel_scheme \<Rightarrow> bool" where
  "prvTaskIsTaskSuspended t k \<longleftrightarrow>
     state_list (tcbs k t) = Some SuspendedTaskList \<and>
     event_list (tcbs k t) \<noteq> Some PendingReadyList \<and> event_list (tcbs k t) = None"

definition vTaskResume :: "tid \<Rightarrow> 'z kernel_scheme \<Rightarrow> 'z kernel_scheme option" where
  "vTaskResume t k =
     (if Some t \<noteq> pxCurrentTCB k \<and> prvTaskIsTaskSuspended t k then do {
        k \<leftarrow> remove_state_item t k;
        k \<leftarrow> prvAddTaskToReadyList t k;
        c \<leftarrow> pxCurrentTCB k;
        Some (if prio k t \<ge> prio k c then portYIELD k else k)
      } else Some k)"

definition xTaskResumeFromISR :: "tid \<Rightarrow> 'z kernel_scheme \<Rightarrow> (bool \<times> 'z kernel_scheme) option" where
  "xTaskResumeFromISR t k =
     (if prvTaskIsTaskSuspended t k then
        (if uxSchedulerSuspended k = 0 then do {
           c \<leftarrow> pxCurrentTCB k;
           let y = (prio k t \<ge> prio k c);
           let k = (if y then k\<lparr>xYieldPending := True\<rparr> else k);
           k \<leftarrow> remove_state_item t k;
           k \<leftarrow> prvAddTaskToReadyList t k;
           Some (y, k)
         } else Some (False, insert_end_event PendingReadyList t k))
      else Some (False, k))"

datatype eTaskState = eRunning | eReady | eBlocked | eSuspended | eDeleted

definition eTaskGetState :: "tid \<Rightarrow> 'z kernel_scheme \<Rightarrow> eTaskState" where
  "eTaskGetState t k =
     (if Some t = pxCurrentTCB k then eRunning
      else let l = state_list (tcbs k t) in
        if l = Some (pxDelayedTaskList k) \<or> l = Some (pxOverflowDelayedTaskList k) then eBlocked
        else if l = Some SuspendedTaskList then
          (if event_list (tcbs k t) = None
           then (if ucNotifyState (tcbs k t) = taskWAITING_NOTIFICATION then eBlocked else eSuspended)
           else eBlocked)
        else if l = Some TasksWaitingTermination \<or> l = None then eDeleted
        else eReady)"

section \<open>Priorities\<close>

definition taskEVENT_LIST_ITEM_VALUE_IN_USE :: TickType_t where
  "taskEVENT_LIST_ITEM_VALUE_IN_USE = 0x80000000"

text \<open>The value of an event item that is not in use as an event group record follows the priority.\<close>

definition set_event_priority :: "tid \<Rightarrow> UBaseType_t \<Rightarrow> 'z kernel_scheme \<Rightarrow> 'z kernel_scheme" where
  "set_event_priority t p k =
     (if event_value (tcbs k t) AND taskEVENT_LIST_ITEM_VALUE_IN_USE = 0
      then upd_tcb t (\<lambda>b. b\<lparr>event_value := configMAX_PRIORITIES - p\<rparr>) k else k)"

definition vTaskPrioritySet :: "tid option \<Rightarrow> UBaseType_t \<Rightarrow> 'z kernel_scheme \<Rightarrow> 'z kernel_scheme option" where
  "vTaskPrioritySet xTask uxNewPriority k = do {
     configASSERT (uxNewPriority < configMAX_PRIORITIES);
     let uxNewPriority = (if uxNewPriority \<ge> configMAX_PRIORITIES
                          then configMAX_PRIORITIES - 1 else uxNewPriority);
     t \<leftarrow> get_tcb xTask k;
     if uxBasePriority (tcbs k t) \<noteq> uxNewPriority then do {
       xYieldRequired \<leftarrow>
         (if uxNewPriority > uxBasePriority (tcbs k t)
          then (if Some t \<noteq> pxCurrentTCB k
                then do { c \<leftarrow> pxCurrentTCB k; Some (uxNewPriority \<ge> prio k c) } else Some False)
          else Some (Some t = pxCurrentTCB k));
       let uxPriorityUsedOnEntry = prio k t;
       let k = upd_tcb t (\<lambda>b. (if uxBasePriority b = uxPriority b
                 then b\<lparr>uxPriority := uxNewPriority\<rparr> else b)\<lparr>uxBasePriority := uxNewPriority\<rparr>) k;
       let k = set_event_priority t uxNewPriority k;
       k \<leftarrow> (if state_list (tcbs k t) = Some (Ready uxPriorityUsedOnEntry) then do {
                k \<leftarrow> remove_state_item t k;
                prvAddTaskToReadyList t k
              } else Some k);
       Some (if xYieldRequired then portYIELD k else k)
     } else Some k
   }"

definition xTaskPriorityInherit :: "tid option \<Rightarrow> 'z kernel_scheme \<Rightarrow> (bool \<times> 'z kernel_scheme) option" where
  "xTaskPriorityInherit pxMutexHolder k =
     (case pxMutexHolder of
        None \<Rightarrow> Some (False, k)
      | Some t \<Rightarrow> do {
          c \<leftarrow> pxCurrentTCB k;
          if prio k t < prio k c then do {
            let k = set_event_priority t (prio k c) k;
            k \<leftarrow> (if state_list (tcbs k t) = Some (Ready (prio k t)) then do {
                     k \<leftarrow> remove_state_item t k;
                     prvAddTaskToReadyList t (upd_tcb t (\<lambda>b. b\<lparr>uxPriority := prio k c\<rparr>) k)
                   } else Some (upd_tcb t (\<lambda>b. b\<lparr>uxPriority := prio k c\<rparr>) k));
            Some (True, k)
          } else Some (uxBasePriority (tcbs k t) < prio k c, k)
        })"

definition xTaskPriorityDisinherit :: "tid option \<Rightarrow> 'z kernel_scheme \<Rightarrow> (bool \<times> 'z kernel_scheme) option" where
  "xTaskPriorityDisinherit pxMutexHolder k =
     (case pxMutexHolder of
        None \<Rightarrow> Some (False, k)
      | Some t \<Rightarrow> do {
          configASSERT (Some t = pxCurrentTCB k);
          configASSERT (uxMutexesHeld (tcbs k t) \<noteq> 0);
          let k = upd_tcb t (\<lambda>b. b\<lparr>uxMutexesHeld := uxMutexesHeld b - 1\<rparr>) k;
          if prio k t \<noteq> uxBasePriority (tcbs k t) \<and> uxMutexesHeld (tcbs k t) = 0 then do {
            k \<leftarrow> remove_state_item t k;
            let k = upd_tcb t (\<lambda>b. b\<lparr>uxPriority := uxBasePriority b\<rparr>) k;
            let k = upd_tcb t (\<lambda>b. b\<lparr>event_value := configMAX_PRIORITIES - uxPriority b\<rparr>) k;
            k \<leftarrow> prvAddTaskToReadyList t k;
            Some (True, k)
          } else Some (False, k)
        })"

definition vTaskPriorityDisinheritAfterTimeout ::
  "tid option \<Rightarrow> UBaseType_t \<Rightarrow> 'z kernel_scheme \<Rightarrow> 'z kernel_scheme option" where
  "vTaskPriorityDisinheritAfterTimeout pxMutexHolder uxHighestPriorityWaitingTask k =
     (case pxMutexHolder of
        None \<Rightarrow> Some k
      | Some t \<Rightarrow> do {
          configASSERT (uxMutexesHeld (tcbs k t) \<noteq> 0);
          let uxPriorityToUse =
            (if uxBasePriority (tcbs k t) < uxHighestPriorityWaitingTask
             then uxHighestPriorityWaitingTask else uxBasePriority (tcbs k t));
          if prio k t \<noteq> uxPriorityToUse \<and> uxMutexesHeld (tcbs k t) = 1 then do {
            configASSERT (Some t \<noteq> pxCurrentTCB k);
            let uxPriorityUsedOnEntry = prio k t;
            let k = upd_tcb t (\<lambda>b. b\<lparr>uxPriority := uxPriorityToUse\<rparr>) k;
            let k = set_event_priority t uxPriorityToUse k;
            if state_list (tcbs k t) = Some (Ready uxPriorityUsedOnEntry) then do {
              k \<leftarrow> remove_state_item t k;
              prvAddTaskToReadyList t k
            } else Some k
          } else Some k
        })"

definition pvTaskIncrementMutexHeldCount :: "'z kernel_scheme \<Rightarrow> tid option \<times> 'z kernel_scheme" where
  "pvTaskIncrementMutexHeldCount k =
     (case pxCurrentTCB k of
        None \<Rightarrow> (None, k)
      | Some c \<Rightarrow> (Some c, upd_tcb c (\<lambda>b. b\<lparr>uxMutexesHeld := uxMutexesHeld b + 1\<rparr>) k))"

section \<open>Event lists\<close>

definition vTaskPlaceOnEventList :: "list_id \<Rightarrow> TickType_t \<Rightarrow> 'z kernel_scheme \<Rightarrow> 'z kernel_scheme option" where
  "vTaskPlaceOnEventList pxEventList xTicksToWait k = do {
     c \<leftarrow> pxCurrentTCB k;
     prvAddCurrentTaskToDelayedList xTicksToWait True (insert_event pxEventList c k)
   }"

definition vTaskPlaceOnUnorderedEventList ::
  "list_id \<Rightarrow> TickType_t \<Rightarrow> TickType_t \<Rightarrow> 'z kernel_scheme \<Rightarrow> 'z kernel_scheme option" where
  "vTaskPlaceOnUnorderedEventList pxEventList xValue xTicksToWait k = do {
     configASSERT (uxSchedulerSuspended k \<noteq> 0);
     c \<leftarrow> pxCurrentTCB k;
     let k = upd_tcb c (\<lambda>b. b\<lparr>event_value := xValue OR taskEVENT_LIST_ITEM_VALUE_IN_USE\<rparr>) k;
     prvAddCurrentTaskToDelayedList xTicksToWait True (insert_end_event pxEventList c k)
   }"

definition vTaskPlaceOnEventListRestricted ::
  "list_id \<Rightarrow> TickType_t \<Rightarrow> bool \<Rightarrow> 'z kernel_scheme \<Rightarrow> 'z kernel_scheme option" where
  "vTaskPlaceOnEventListRestricted pxEventList xTicksToWait xWaitIndefinitely k = do {
     c \<leftarrow> pxCurrentTCB k;
     let k = insert_end_event pxEventList c k;
     let xTicksToWait = (if xWaitIndefinitely then portMAX_DELAY else xTicksToWait);
     prvAddCurrentTaskToDelayedList xTicksToWait xWaitIndefinitely k
   }"

definition xTaskRemoveFromEventList :: "list_id \<Rightarrow> 'z kernel_scheme \<Rightarrow> (bool \<times> 'z kernel_scheme) option" where
  "xTaskRemoveFromEventList pxEventList k = do {
     t \<leftarrow> head_owner pxEventList k;
     k \<leftarrow> remove_event_item t k;
     k \<leftarrow> (if uxSchedulerSuspended k = 0 then do {
              k \<leftarrow> remove_state_item t k;
              prvAddTaskToReadyList t k
            } else Some (insert_end_event PendingReadyList t k));
     c \<leftarrow> pxCurrentTCB k;
     Some (if prio k t > prio k c then (True, k\<lparr>xYieldPending := True\<rparr>) else (False, k))
   }"

definition vTaskRemoveFromUnorderedEventList ::
  "tid \<Rightarrow> TickType_t \<Rightarrow> 'z kernel_scheme \<Rightarrow> 'z kernel_scheme option" where
  "vTaskRemoveFromUnorderedEventList t xValue k = do {
     configASSERT (uxSchedulerSuspended k \<noteq> 0);
     let k = upd_tcb t (\<lambda>b. b\<lparr>event_value := xValue OR taskEVENT_LIST_ITEM_VALUE_IN_USE\<rparr>) k;
     k \<leftarrow> remove_event_item t k;
     k \<leftarrow> remove_state_item t k;
     k \<leftarrow> prvAddTaskToReadyList t k;
     c \<leftarrow> pxCurrentTCB k;
     Some (if prio k t > prio k c then k\<lparr>xYieldPending := True\<rparr> else k)
   }"

definition vTaskMissedYield :: "'z kernel_scheme \<Rightarrow> 'z kernel_scheme" where
  "vTaskMissedYield k = k\<lparr>xYieldPending := True\<rparr>"

definition uxTaskResetEventItemValue :: "'z kernel_scheme \<Rightarrow> (TickType_t \<times> 'z kernel_scheme) option" where
  "uxTaskResetEventItemValue k = do {
     c \<leftarrow> pxCurrentTCB k;
     Some (event_value (tcbs k c),
           upd_tcb c (\<lambda>b. b\<lparr>event_value := configMAX_PRIORITIES - uxPriority b\<rparr>) k)
   }"

section \<open>Timeouts\<close>

record TimeOut_t =
  xOverflowCount :: u32
  xTimeOnEntering :: TickType_t

definition vTaskInternalSetTimeOutState :: "'z kernel_scheme \<Rightarrow> TimeOut_t" where
  "vTaskInternalSetTimeOutState k =
     \<lparr>xOverflowCount = xNumOfOverflows k, xTimeOnEntering = xTickCount k\<rparr>"

definition xTaskCheckForTimeOut ::
  "TimeOut_t \<Rightarrow> TickType_t \<Rightarrow> 'z kernel_scheme \<Rightarrow> bool \<times> TimeOut_t \<times> TickType_t" where
  "xTaskCheckForTimeOut pxTimeOut pxTicksToWait k =
     (let xConstTickCount = xTickCount k;
          xElapsedTime = xConstTickCount - xTimeOnEntering pxTimeOut
      in if pxTicksToWait = portMAX_DELAY then (False, pxTimeOut, pxTicksToWait)
         else if xNumOfOverflows k \<noteq> xOverflowCount pxTimeOut \<and> xConstTickCount \<ge> xTimeOnEntering pxTimeOut
         then (True, pxTimeOut, 0)
         else if xElapsedTime < pxTicksToWait
         then (False, vTaskInternalSetTimeOutState k, pxTicksToWait - xElapsedTime)
         else (True, pxTimeOut, 0))"

datatype scheduler_state = taskSCHEDULER_NOT_STARTED | taskSCHEDULER_RUNNING | taskSCHEDULER_SUSPENDED

definition xTaskGetSchedulerState :: "'z kernel_scheme \<Rightarrow> scheduler_state" where
  "xTaskGetSchedulerState k =
     (if \<not> xSchedulerRunning k then taskSCHEDULER_NOT_STARTED
      else if uxSchedulerSuspended k = 0 then taskSCHEDULER_RUNNING else taskSCHEDULER_SUSPENDED)"

end
