(* ===== verification/Ring.thy ===== *)
theory Ring
  imports Prelude "HOL-Library.Monad_Syntax"
begin

text \<open>
  Ring buffers: the sequence that a ring of slots holds, the effect of writing and reading at its
  ends, rings of fixed-size items in a byte array, and the interface of a bounded queue, which the
  kernel queues provide.
\<close>

section \<open>Rings of slots\<close>

definition ring :: "(nat \<Rightarrow> 'a) \<Rightarrow> nat \<Rightarrow> nat \<Rightarrow> nat \<Rightarrow> 'a list" where
  "ring f len i n = map (\<lambda>j. f ((i + j) mod len)) [0..<n]"

lemma length_ring [simp]: "length (ring f len i n) = n"
  by (simp add: ring_def)

lemma ring_0 [simp]: "ring f len i 0 = []"
  by (simp add: ring_def)

lemma ring_nth: "j < n \<Longrightarrow> ring f len i n ! j = f ((i + j) mod len)"
  by (simp add: ring_def)

lemma ring_mod [ring_simps]: "ring f len (i mod len) n = ring f len i n"
  by (simp add: ring_def mod_simps)

lemma mod_add_inj:
  "j < len \<Longrightarrow> n < len \<Longrightarrow> j \<noteq> n \<Longrightarrow> (i + j) mod len \<noteq> (i + n) mod (len :: nat)"
proof (cases j n rule: linorder_cases)
  case less
  assume "n < len"
  have False if "(i + n) mod len = (i + j) mod len"
  proof -
    have "len dvd (i + n) - (i + j)" using that less by (simp add: mod_eq_dvd_iff_nat)
    then show False using less \<open>n < len\<close> by (auto dest: dvd_imp_le)
  qed
  then show "(i + j) mod len \<noteq> (i + n) mod len" by metis
next
  case greater
  assume "j < len"
  have False if "(i + j) mod len = (i + n) mod len"
  proof -
    have "len dvd (i + j) - (i + n)" using that greater by (simp add: mod_eq_dvd_iff_nat)
    then show False using greater \<open>j < len\<close> by (auto dest: dvd_imp_le)
  qed
  then show "(i + j) mod len \<noteq> (i + n) mod len" by metis
qed auto

lemma ring_upd_free:
  assumes "n \<le> m" "m < len"
  shows "ring (f((i + m) mod len := x)) len i n = ring f len i n"
  using mod_add_inj [of _ len m i] assms by (auto simp: ring_def)

lemma ring_snoc [ring_simps]:
  assumes "n < len"
  shows "ring (f((i + n) mod len := x)) len i (Suc n) = ring f len i n @ [x]"
  using ring_upd_free [of n n len f i x] assms by (simp add: ring_def)

lemma ring_Suc: "ring f len i (Suc n) = f (i mod len) # ring f len (Suc i) n"
  by (simp add: ring_def upt_conv_Cons map_Suc_upt [symmetric] del: upt_Suc map_Suc_upt)

lemma ring_cons [ring_simps]:
  assumes "n < len"
  shows "ring (f((i + (len - 1)) mod len := x)) len (i + (len - 1)) (Suc n) = x # ring f len i n"
proof -
  have "Suc (i + (len - 1)) mod len = i mod len" using assms by simp
  then have "ring g len (Suc (i + (len - 1))) n = ring g len i n" for g :: "nat \<Rightarrow> 'a"
    by (metis ring_mod)
  moreover have "ring (f((i + (len - 1)) mod len := x)) len i n = ring f len i n"
    using assms by (intro ring_upd_free) auto
  ultimately show ?thesis by (simp add: ring_Suc)
qed

lemma ring_back: "0 < len \<Longrightarrow> ((i + (len - 1)) mod len + Suc n) mod len = (i + n) mod (len :: nat)"
proof -
  assume "0 < len"
  have "((i + (len - 1)) mod len + Suc n) mod len = (i + (len - 1) + Suc n) mod len" by (rule mod_add_left_eq)
  also have "i + (len - 1) + Suc n = i + n + len" using \<open>0 < len\<close> by simp
  finally show ?thesis by simp
qed

lemma ring_forth: "0 < n \<Longrightarrow> (Suc i mod len + (n - 1)) mod len = (i + n) mod (len :: nat)"
proof -
  assume "0 < n"
  have "(Suc i mod len + (n - 1)) mod len = (Suc i + (n - 1)) mod len" by (rule mod_add_left_eq)
  with \<open>0 < n\<close> show ?thesis by simp
qed

section \<open>Items in a byte array\<close>

definition slot :: "'a list \<Rightarrow> nat \<Rightarrow> nat \<Rightarrow> 'a list" where
  "slot s sz j = take sz (drop (j * sz) s)"

text \<open>\<open>memcpy\<close> into and out of an array; \<open>None\<close> is an access outside of it.\<close>

definition write_at :: "int \<Rightarrow> 'a list \<Rightarrow> 'a list \<Rightarrow> 'a list option" where
  "write_at off xs s =
     (if 0 \<le> off \<and> nat off + length xs \<le> length s
      then Some (take (nat off) s @ xs @ drop (nat off + length xs) s) else None)"

definition read_at :: "int \<Rightarrow> nat \<Rightarrow> 'a list \<Rightarrow> 'a list option" where
  "read_at off n s = (if 0 \<le> off \<and> nat off + n \<le> length s then Some (take n (drop (nat off) s)) else None)"

lemma slot_bounds: "j < len \<Longrightarrow> j * sz + sz \<le> len * (sz :: nat)"
  by (metis add.commute mult_Suc mult_le_mono1 Suc_leI)

lemma write_at_slot:
  assumes "length s = len * sz" "j < len" "length xs = sz"
  obtains s' where "write_at (int (j * sz)) xs s = Some s'" "length s' = length s"
    "slot s' sz = (slot s sz)(j := xs)"
proof -
  let ?s = "take (j * sz) s @ xs @ drop (j * sz + sz) s"
  note b = slot_bounds [OF assms(2), of sz]
  have w: "write_at (int (j * sz)) xs s = Some ?s"
    using b assms by (simp add: write_at_def nat_mult_distrib)
  have "slot ?s sz i = slot s sz i" if "i \<noteq> j" for i
  proof (cases i j rule: linorder_cases)
    case less
    then have "i * sz + sz \<le> j * sz" by (rule slot_bounds)
    then have "take sz (drop (i * sz) ?s) = take sz (take (j * sz - i * sz) (drop (i * sz) s))"
      using b assms(1) by (simp add: drop_take)
    also have "\<dots> = take sz (drop (i * sz) s)"
      using \<open>i * sz + sz \<le> j * sz\<close> by (simp add: min_def)
    finally show ?thesis by (simp add: slot_def)
  next
    case greater
    then have g: "j * sz + sz \<le> i * sz" by (rule slot_bounds)
    then have "drop (i * sz) ?s = drop (i * sz - (j * sz + sz)) (drop (j * sz + sz) s)"
      using b assms greater by simp
    also have "\<dots> = drop (i * sz) s" using g by simp
    finally show ?thesis by (simp add: slot_def)
  qed (use that in simp)
  moreover have "slot ?s sz j = xs" using b assms by (simp add: slot_def)
  ultimately show thesis using w b assms by (intro that [of ?s]) auto
qed

lemma read_at_slot:
  "length s = len * sz \<Longrightarrow> j < len \<Longrightarrow> read_at (int (j * sz)) sz s = Some (slot s sz j)"
  using slot_bounds [of j len sz] by (simp add: read_at_def slot_def nat_mult_distrib)

section \<open>The interface of a bounded queue\<close>

text \<open>Repeated pushes and pops.\<close>

fun push_all :: "('a \<Rightarrow> 'q \<Rightarrow> 'q option) \<Rightarrow> 'a list \<Rightarrow> 'q \<Rightarrow> 'q option" where
  "push_all push [] q = Some q"
| "push_all push (x # xs) q = do { q \<leftarrow> push x q; push_all push xs q }"

fun pop_n :: "('q \<Rightarrow> ('a \<times> 'q) option) \<Rightarrow> nat \<Rightarrow> 'q \<Rightarrow> ('a list \<times> 'q) option" where
  "pop_n pop 0 q = Some ([], q)"
| "pop_n pop (Suc n) q = do { (x, q) \<leftarrow> pop q; (xs, q) \<leftarrow> pop_n pop n q; Some (x # xs, q) }"

text \<open>
  A buffer of capacity \<open>cap\<close> whose contents is \<open>abs\<close>: a push on a buffer that is not full appends,
  a pop of a buffer that is not empty takes the oldest element, both succeed and keep the invariant.
\<close>

locale bounded_fifo =
  fixes inv :: "'q \<Rightarrow> bool" and abs :: "'q \<Rightarrow> 'a list" and cap :: "'q \<Rightarrow> nat" and ok :: "'q \<Rightarrow> 'a \<Rightarrow> bool"
    and push :: "'a \<Rightarrow> 'q \<Rightarrow> 'q option" and pop :: "'q \<Rightarrow> ('a \<times> 'q) option"
  assumes bounded: "inv q \<Longrightarrow> length (abs q) \<le> cap q"
    and push_ok: "inv q \<Longrightarrow> ok q x \<Longrightarrow> length (abs q) < cap q \<Longrightarrow>
      \<exists>q'. push x q = Some q' \<and> inv q' \<and> abs q' = abs q @ [x] \<and> cap q' = cap q \<and> ok q' = ok q"
    and pop_ok: "inv q \<Longrightarrow> abs q = x # xs \<Longrightarrow>
      \<exists>q'. pop q = Some (x, q') \<and> inv q' \<and> abs q' = xs \<and> cap q' = cap q \<and> ok q' = ok q"
begin

lemma push_all_abs:
  "inv q \<Longrightarrow> \<forall>x\<in>set xs. ok q x \<Longrightarrow> length (abs q) + length xs \<le> cap q \<Longrightarrow>
    \<exists>q'. push_all push xs q = Some q' \<and> inv q' \<and> abs q' = abs q @ xs \<and> cap q' = cap q \<and> ok q' = ok q"
proof (induction xs arbitrary: q)
  case (Cons x xs)
  obtain q1 where q1: "push x q = Some q1" "inv q1" "abs q1 = abs q @ [x]" "cap q1 = cap q" "ok q1 = ok q"
    using push_ok [OF Cons(2), of x] Cons(3,4) by auto
  moreover have "\<forall>y\<in>set xs. ok q1 y" "length (abs q1) + length xs \<le> cap q1" using Cons(3,4) q1 by auto
  ultimately show ?case using Cons(1) [OF q1(2)] by auto
qed simp

lemma pop_n_abs:
  "inv q \<Longrightarrow> n \<le> length (abs q) \<Longrightarrow>
    \<exists>q'. pop_n pop n q = Some (take n (abs q), q') \<and> inv q' \<and> abs q' = drop n (abs q) \<and> cap q' = cap q"
proof (induction n arbitrary: q)
  case (Suc n)
  then obtain x xs where a: "abs q = x # xs" by (cases "abs q") auto
  obtain q1 where q1: "pop q = Some (x, q1)" "inv q1" "abs q1 = xs" "cap q1 = cap q"
    using pop_ok [OF Suc(2) a] by auto
  with Suc(1) [of q1] Suc(3) a show ?case by auto
qed simp

text \<open>First in, first out: what is pushed into an empty buffer comes out in the same order.\<close>

lemma fifo_order:
  assumes "inv q" "abs q = []" "length xs \<le> cap q" "\<forall>x\<in>set xs. ok q x"
  shows "\<exists>q' q''. push_all push xs q = Some q' \<and> pop_n pop (length xs) q' = Some (xs, q'') \<and> inv q'' \<and> abs q'' = []"
proof -
  obtain q' where q': "push_all push xs q = Some q'" "inv q'" "abs q' = xs"
    using push_all_abs [OF assms(1,4)] assms(2,3) by auto
  with pop_n_abs [of q' "length xs"] show ?thesis by auto
qed

end

end
