(* ===== verification/Kernel_Queue.thy ===== *)
theory Kernel_Queue
  imports Kernel_Tasks Ring
begin

text \<open>
  Queues, semaphores and mutexes: \<open>FreeRTOS/queue.c\<close> in the configuration of
  \<open>Inc/FreeRTOSConfig.h\<close> (mutexes, recursive mutexes and counting semaphores on, queue sets and
  static allocation off). A queue handle is a number; the two event lists of queue \<open>q\<close> are the task
  lists \<open>WaitingToSend q\<close> and \<open>WaitingToReceive q\<close> of the kernel.

  The blocking calls are loops around two parts: a critical section that tries the operation, and a
  part under the suspended scheduler that checks the time and blocks the task. A definition
  \<open>..._pass\<close> is one pass of the loop: it returns, or it ends with the task blocked or with the queue
  changed, and the next pass starts when the task runs again, with the local variables it returns.
\<close>

section \<open>State\<close>

text \<open>
  The union of \<open>QueuePointers_t\<close> and \<open>SemaphoreData_t\<close>. Pointers into the storage are offsets from
  its start; \<open>pcHead\<close> is \<open>None\<close> in a mutex (\<open>uxQueueType == queueQUEUE_IS_MUTEX\<close>).
\<close>

datatype queue_union =
    QueuePointers (pcTail: int) (pcReadFrom: int)
  | SemaphoreData (xMutexHolder: "tid option") (uxRecursiveCallCount: UBaseType_t)

record Queue_t =
  storage :: "u8 list"
  pcHead :: "int option"
  pcWriteTo :: int
  u_ptrs :: queue_union
  uxMessagesWaiting :: UBaseType_t
  uxLength :: UBaseType_t
  uxItemSize :: UBaseType_t
  cRxLock :: int
  cTxLock :: int
  uxQueueNumber :: UBaseType_t
  ucQueueType :: u8

type_synonym registry_item = "string option \<times> nat option"

record qkernel = kernel +
  queues :: "nat \<Rightarrow> Queue_t"
  xQueueRegistry :: "registry_item list"

definition queueUNLOCKED :: int where "queueUNLOCKED = -1"
definition queueLOCKED_UNMODIFIED :: int where "queueLOCKED_UNMODIFIED = 0"
definition queueINT8_MAX :: int where "queueINT8_MAX = 127"

definition upd_queue :: "nat \<Rightarrow> (Queue_t \<Rightarrow> Queue_t) \<Rightarrow> 'z qkernel_scheme \<Rightarrow> 'z qkernel_scheme" where
  "upd_queue q f k = k\<lparr>queues := (queues k)(q := f (queues k q))\<rparr>"

text \<open>Reading the other member of the union has no defined result.\<close>

definition mutex_holder :: "Queue_t \<Rightarrow> tid option option" where
  "mutex_holder Q = (case u_ptrs Q of SemaphoreData h _ \<Rightarrow> Some h | QueuePointers _ _ \<Rightarrow> None)"

definition set_mutex_holder :: "tid option \<Rightarrow> Queue_t \<Rightarrow> Queue_t" where
  "set_mutex_holder h Q =
     Q\<lparr>u_ptrs := (case u_ptrs Q of SemaphoreData _ c \<Rightarrow> SemaphoreData h c | u \<Rightarrow> u)\<rparr>"

definition recursive_count :: "Queue_t \<Rightarrow> UBaseType_t option" where
  "recursive_count Q = (case u_ptrs Q of SemaphoreData _ c \<Rightarrow> Some c | QueuePointers _ _ \<Rightarrow> None)"

definition set_recursive_count :: "UBaseType_t \<Rightarrow> Queue_t \<Rightarrow> Queue_t" where
  "set_recursive_count c Q =
     Q\<lparr>u_ptrs := (case u_ptrs Q of SemaphoreData h _ \<Rightarrow> SemaphoreData h c | u \<Rightarrow> u)\<rparr>"

definition read_from :: "Queue_t \<Rightarrow> int option" where
  "read_from Q = (case u_ptrs Q of QueuePointers _ r \<Rightarrow> Some r | SemaphoreData _ _ \<Rightarrow> None)"

section \<open>Moving data\<close>

datatype copy_position = queueSEND_TO_BACK | queueSEND_TO_FRONT | queueOVERWRITE

text \<open>The bytes \<open>memcpy\<close> takes from \<open>pvItemToQueue\<close> (\<open>None\<close>: the null pointer, or a short buffer).\<close>

definition item_bytes :: "u8 list option \<Rightarrow> Queue_t \<Rightarrow> u8 list option" where
  "item_bytes item Q = do {
     b \<leftarrow> item;
     if unat (uxItemSize Q) \<le> length b then Some (take (unat (uxItemSize Q)) b) else None
   }"

definition copy_to_back :: "u8 list \<Rightarrow> Queue_t \<Rightarrow> Queue_t option" where
  "copy_to_back b Q = do {
     s \<leftarrow> write_at (pcWriteTo Q) b (storage Q);
     h \<leftarrow> pcHead Q;
     t \<leftarrow> (case u_ptrs Q of QueuePointers t _ \<Rightarrow> Some t | _ \<Rightarrow> None);
     let w = pcWriteTo Q + uint (uxItemSize Q);
     Some (Q\<lparr>storage := s, pcWriteTo := (if w \<ge> t then h else w)\<rparr>)
   }"

definition copy_to_front :: "u8 list \<Rightarrow> Queue_t \<Rightarrow> Queue_t option" where
  "copy_to_front b Q = do {
     r \<leftarrow> read_from Q;
     s \<leftarrow> write_at r b (storage Q);
     h \<leftarrow> pcHead Q;
     t \<leftarrow> (case u_ptrs Q of QueuePointers t _ \<Rightarrow> Some t | _ \<Rightarrow> None);
     let r = r - uint (uxItemSize Q);
     Some (Q\<lparr>storage := s,
       u_ptrs := QueuePointers t (if r < h then t - uint (uxItemSize Q) else r)\<rparr>)
   }"

definition prvCopyDataToQueue ::
  "nat \<Rightarrow> u8 list option \<Rightarrow> copy_position \<Rightarrow> 'z qkernel_scheme \<Rightarrow> (bool \<times> 'z qkernel_scheme) option" where
  "prvCopyDataToQueue q pvItemToQueue xPosition k = do {
     let Q = queues k q;
     let uxMessages = uxMessagesWaiting Q;
     (xReturn, uxMessages, k) \<leftarrow>
       (if uxItemSize Q = 0 then
          (if pcHead Q = None then do {
             h \<leftarrow> mutex_holder Q;
             (y, k) \<leftarrow> xTaskPriorityDisinherit h k;
             Some (y, uxMessages, upd_queue q (set_mutex_holder None) k)
           } else Some (False, uxMessages, k))
        else if xPosition = queueSEND_TO_BACK then do {
          b \<leftarrow> item_bytes pvItemToQueue Q;
          Q' \<leftarrow> copy_to_back b Q;
          Some (False, uxMessages, upd_queue q (\<lambda>_. Q') k)
        } else do {
          b \<leftarrow> item_bytes pvItemToQueue Q;
          Q' \<leftarrow> copy_to_front b Q;
          Some (False,
            if xPosition = queueOVERWRITE \<and> uxMessages > 0 then uxMessages - 1 else uxMessages,
            upd_queue q (\<lambda>_. Q') k)
        });
     Some (xReturn, upd_queue q (\<lambda>Q. Q\<lparr>uxMessagesWaiting := uxMessages + 1\<rparr>) k)
   }"

text \<open>\<open>prvCopyDataFromQueue\<close> returns the bytes it writes to \<open>pvBuffer\<close>.\<close>

definition prvCopyDataFromQueue :: "Queue_t \<Rightarrow> (u8 list \<times> Queue_t) option" where
  "prvCopyDataFromQueue Q =
     (if uxItemSize Q \<noteq> 0 then do {
        h \<leftarrow> pcHead Q;
        r \<leftarrow> read_from Q;
        t \<leftarrow> (case u_ptrs Q of QueuePointers t _ \<Rightarrow> Some t | _ \<Rightarrow> None);
        let r = r + uint (uxItemSize Q);
        let r = (if r \<ge> t then h else r);
        b \<leftarrow> read_at r (unat (uxItemSize Q)) (storage Q);
        Some (b, Q\<lparr>u_ptrs := QueuePointers t r\<rparr>)
      } else Some ([], Q))"

section \<open>Locks\<close>

definition prvLockQueue :: "nat \<Rightarrow> 'z qkernel_scheme \<Rightarrow> 'z qkernel_scheme" where
  "prvLockQueue q = upd_queue q (\<lambda>Q. Q
     \<lparr>cRxLock := (if cRxLock Q = queueUNLOCKED then queueLOCKED_UNMODIFIED else cRxLock Q),
      cTxLock := (if cTxLock Q = queueUNLOCKED then queueLOCKED_UNMODIFIED else cTxLock Q)\<rparr>)"

definition prvIncrementQueueTxLock :: "nat \<Rightarrow> int \<Rightarrow> 'z qkernel_scheme \<Rightarrow> 'z qkernel_scheme option" where
  "prvIncrementQueueTxLock q c k =
     (if (of_int c :: UBaseType_t) < uxCurrentNumberOfTasks k then do {
        configASSERT (c \<noteq> queueINT8_MAX);
        Some (upd_queue q (\<lambda>Q. Q\<lparr>cTxLock := c + 1\<rparr>) k)
      } else Some k)"

definition prvIncrementQueueRxLock :: "nat \<Rightarrow> int \<Rightarrow> 'z qkernel_scheme \<Rightarrow> 'z qkernel_scheme option" where
  "prvIncrementQueueRxLock q c k =
     (if (of_int c :: UBaseType_t) < uxCurrentNumberOfTasks k then do {
        configASSERT (c \<noteq> queueINT8_MAX);
        Some (upd_queue q (\<lambda>Q. Q\<lparr>cRxLock := c + 1\<rparr>) k)
      } else Some k)"

text \<open>The loops of \<open>prvUnlockQueue\<close>: one waiting task is released per item moved under the lock.\<close>

fun release_waiters :: "list_id \<Rightarrow> nat \<Rightarrow> 'z kernel_scheme \<Rightarrow> 'z kernel_scheme option" where
  "release_waiters l 0 k = Some k"
| "release_waiters l (Suc n) k =
     (if members k l = [] then Some k
      else do {
        (y, k) \<leftarrow> xTaskRemoveFromEventList l k;
        release_waiters l n (if y then vTaskMissedYield k else k)
      })"

definition prvUnlockQueue :: "nat \<Rightarrow> 'z qkernel_scheme \<Rightarrow> 'z qkernel_scheme option" where
  "prvUnlockQueue q k = do {
     k \<leftarrow> release_waiters (WaitingToReceive q) (nat (cTxLock (queues k q))) k;
     let k = upd_queue q (\<lambda>Q. Q\<lparr>cTxLock := queueUNLOCKED\<rparr>) k;
     k \<leftarrow> release_waiters (WaitingToSend q) (nat (cRxLock (queues k q))) k;
     Some (upd_queue q (\<lambda>Q. Q\<lparr>cRxLock := queueUNLOCKED\<rparr>) k)
   }"

definition prvIsQueueEmpty :: "Queue_t \<Rightarrow> bool" where
  "prvIsQueueEmpty Q \<longleftrightarrow> uxMessagesWaiting Q = 0"

definition prvIsQueueFull :: "Queue_t \<Rightarrow> bool" where
  "prvIsQueueFull Q \<longleftrightarrow> uxMessagesWaiting Q = uxLength Q"

text \<open>Releasing the first waiter of an event list; a switch is made when it has a higher priority.\<close>

definition release_and_yield :: "list_id \<Rightarrow> 'z kernel_scheme \<Rightarrow> 'z kernel_scheme option" where
  "release_and_yield l k =
     (if members k l = [] then Some k
      else do { (y, k) \<leftarrow> xTaskRemoveFromEventList l k; Some (if y then portYIELD k else k) })"

section \<open>Creating queues\<close>

definition xQueueGenericReset :: "nat \<Rightarrow> bool \<Rightarrow> 'z qkernel_scheme \<Rightarrow> (bool \<times> 'z qkernel_scheme) option" where
  "xQueueGenericReset q xNewQueue k = do {
     let Q = queues k q;
     configASSERT (uxLength Q \<ge> 1 \<and> 0xffffffff div uxLength Q \<ge> uxItemSize Q);
     let h = (case pcHead Q of None \<Rightarrow> 0 | Some h \<Rightarrow> h);
     let k = upd_queue q (\<lambda>Q. Q\<lparr>
         u_ptrs := QueuePointers (h + uint (uxLength Q * uxItemSize Q))
                                 (h + uint ((uxLength Q - 1) * uxItemSize Q)),
         uxMessagesWaiting := 0, pcWriteTo := h,
         cRxLock := queueUNLOCKED, cTxLock := queueUNLOCKED\<rparr>) k;
     k \<leftarrow> (if \<not> xNewQueue then release_and_yield (WaitingToSend q) k
          else Some (upd_list (WaitingToReceive q) (\<lambda>_. kl_empty)
                      (upd_list (WaitingToSend q) (\<lambda>_. kl_empty) k)));
     Some (True, k)
   }"

definition prvInitialiseNewQueue ::
  "UBaseType_t \<Rightarrow> UBaseType_t \<Rightarrow> u8 list \<Rightarrow> u8 \<Rightarrow> nat \<Rightarrow> 'z qkernel_scheme \<Rightarrow> 'z qkernel_scheme option" where
  "prvInitialiseNewQueue uxQueueLength uxSize pucQueueStorage ucType q k = do {
     let k = upd_queue q (\<lambda>Q. Q\<lparr>pcHead := Some 0, storage := pucQueueStorage,
               uxLength := uxQueueLength, uxItemSize := uxSize\<rparr>) k;
     (_, k) \<leftarrow> xQueueGenericReset q True k;
     Some (upd_queue q (\<lambda>Q. Q\<lparr>ucQueueType := ucType\<rparr>) k)
   }"

definition sizeof_Queue_t :: u32 where
  "sizeof_Queue_t = 80"

text \<open>
  \<open>xQueueGenericCreate\<close>: \<open>alloc\<close> is what \<open>pvPortMalloc\<close> returned, a fresh handle and the bytes of the
  storage area behind the control block, or \<open>None\<close>.
\<close>

definition xQueueGenericCreate ::
  "(nat \<times> u8 list) option \<Rightarrow> UBaseType_t \<Rightarrow> UBaseType_t \<Rightarrow> u8 \<Rightarrow> 'z qkernel_scheme \<Rightarrow>
     (nat option \<times> 'z qkernel_scheme) option" where
  "xQueueGenericCreate alloc uxQueueLength uxSize ucType k =
     (if uxQueueLength > 0 \<and> 0xffffffff div uxQueueLength \<ge> uxSize \<and>
         0xffffffff - sizeof_Queue_t \<ge> uxQueueLength * uxSize
      then (case alloc of
              None \<Rightarrow> Some (None, k)
            | Some (q, mem) \<Rightarrow> do {
                k \<leftarrow> prvInitialiseNewQueue uxQueueLength uxSize mem ucType q k;
                Some (Some q, k)
              })
      else None)"

section \<open>Blocking calls\<close>

text \<open>The local variables of a blocking call that survive from one pass to the next.\<close>

record wait_locals =
  xEntryTimeSet :: bool
  xTimeOut :: TimeOut_t
  xTicksToWait :: TickType_t
  xInheritanceOccurred :: bool

datatype 'a pass = Returned 'a | Again wait_locals

definition new_wait :: "TickType_t \<Rightarrow> wait_locals" where
  "new_wait n = \<lparr>xEntryTimeSet = False, xTimeOut = \<lparr>xOverflowCount = 0, xTimeOnEntering = 0\<rparr>,
     xTicksToWait = n, xInheritanceOccurred = False\<rparr>"

definition set_entry_time :: "'z kernel_scheme \<Rightarrow> wait_locals \<Rightarrow> wait_locals" where
  "set_entry_time k w = (if xEntryTimeSet w then w
     else w\<lparr>xTimeOut := vTaskInternalSetTimeOutState k, xEntryTimeSet := True\<rparr>)"

definition check_time :: "'z kernel_scheme \<Rightarrow> wait_locals \<Rightarrow> bool \<times> wait_locals" where
  "check_time k w =
     (let (b, t, n) = xTaskCheckForTimeOut (xTimeOut w) (xTicksToWait w) k
      in (b, w\<lparr>xTimeOut := t, xTicksToWait := n\<rparr>))"

definition unlock_resume :: "nat \<Rightarrow> 'z qkernel_scheme \<Rightarrow> 'z qkernel_scheme option" where
  "unlock_resume q k = do {
     k \<leftarrow> prvUnlockQueue q k;
     (_, k) \<leftarrow> xTaskResumeAll k;
     Some k
   }"

definition block_on :: "nat \<Rightarrow> list_id \<Rightarrow> TickType_t \<Rightarrow> 'z qkernel_scheme \<Rightarrow> 'z qkernel_scheme option" where
  "block_on q l n k = do {
     k \<leftarrow> vTaskPlaceOnEventList l n k;
     k \<leftarrow> prvUnlockQueue q k;
     (y, k) \<leftarrow> xTaskResumeAll k;
     Some (if y then k else portYIELD k)
   }"

text \<open>\<open>xTaskGetSchedulerState() == taskSCHEDULER_SUSPENDED\<close> forbids waiting.\<close>

definition may_wait :: "TickType_t \<Rightarrow> 'z kernel_scheme \<Rightarrow> bool" where
  "may_wait n k \<longleftrightarrow> \<not> (xTaskGetSchedulerState k = taskSCHEDULER_SUSPENDED \<and> n \<noteq> 0)"

subsection \<open>Sending\<close>

definition send_try ::
  "nat \<Rightarrow> u8 list option \<Rightarrow> copy_position \<Rightarrow> wait_locals \<Rightarrow> 'z qkernel_scheme \<Rightarrow>
     (bool pass \<times> 'z qkernel_scheme) option" where
  "send_try q pvItemToQueue xCopyPosition w k = do {
     let Q = queues k q;
     if uxMessagesWaiting Q < uxLength Q \<or> xCopyPosition = queueOVERWRITE then do {
       (xYieldRequired, k) \<leftarrow> prvCopyDataToQueue q pvItemToQueue xCopyPosition k;
       k \<leftarrow> (if members k (WaitingToReceive q) \<noteq> [] then release_and_yield (WaitingToReceive q) k
            else Some (if xYieldRequired then portYIELD k else k));
       Some (Returned True, k)
     }
     else if xTicksToWait w = 0 then Some (Returned False, k)
     else Some (Again (set_entry_time k w), k)
   }"

definition send_wait :: "nat \<Rightarrow> wait_locals \<Rightarrow> 'z qkernel_scheme \<Rightarrow> (bool pass \<times> 'z qkernel_scheme) option" where
  "send_wait q w k = do {
     let k = prvLockQueue q (vTaskSuspendAll k);
     let (timed_out, w) = check_time k w;
     if \<not> timed_out then
       (if prvIsQueueFull (queues k q) then do {
          k \<leftarrow> block_on q (WaitingToSend q) (xTicksToWait w) k;
          Some (Again w, k)
        } else do { k \<leftarrow> unlock_resume q k; Some (Again w, k) })
     else do { k \<leftarrow> unlock_resume q k; Some (Returned False, k) }
   }"

definition send_pass ::
  "nat \<Rightarrow> u8 list option \<Rightarrow> copy_position \<Rightarrow> wait_locals \<Rightarrow> 'z qkernel_scheme \<Rightarrow>
     (bool pass \<times> 'z qkernel_scheme) option" where
  "send_pass q item pos w k = do {
     (r, k) \<leftarrow> send_try q item pos w k;
     case r of Returned b \<Rightarrow> Some (Returned b, k) | Again w \<Rightarrow> send_wait q w k
   }"

definition xQueueGenericSend ::
  "nat \<Rightarrow> u8 list option \<Rightarrow> TickType_t \<Rightarrow> copy_position \<Rightarrow> 'z qkernel_scheme \<Rightarrow>
     (bool pass \<times> 'z qkernel_scheme) option" where
  "xQueueGenericSend q pvItemToQueue xTicks xCopyPosition k = do {
     let Q = queues k q;
     configASSERT (\<not> (pvItemToQueue = None \<and> uxItemSize Q \<noteq> 0));
     configASSERT (\<not> (xCopyPosition = queueOVERWRITE \<and> uxLength Q \<noteq> 1));
     configASSERT (may_wait xTicks k);
     send_pass q pvItemToQueue xCopyPosition (new_wait xTicks) k
   }"

definition release_from_isr :: "list_id \<Rightarrow> bool \<Rightarrow> 'z kernel_scheme \<Rightarrow> (bool \<times> 'z kernel_scheme) option" where
  "release_from_isr l woken k =
     (if members k l = [] then Some (woken, k)
      else do { (y, k) \<leftarrow> xTaskRemoveFromEventList l k; Some (y \<or> woken, k) })"

text \<open>
  \<open>xQueueGenericSendFromISR\<close>: the second component is \<open>*pxHigherPriorityTaskWoken\<close>, whose value
  on entry is \<open>woken\<close>.
\<close>

definition xQueueGenericSendFromISR ::
  "nat \<Rightarrow> u8 list option \<Rightarrow> bool \<Rightarrow> copy_position \<Rightarrow> 'z qkernel_scheme \<Rightarrow>
     (bool \<times> bool \<times> 'z qkernel_scheme) option" where
  "xQueueGenericSendFromISR q pvItemToQueue woken xCopyPosition k = do {
     let Q = queues k q;
     configASSERT (\<not> (pvItemToQueue = None \<and> uxItemSize Q \<noteq> 0));
     configASSERT (\<not> (xCopyPosition = queueOVERWRITE \<and> uxLength Q \<noteq> 1));
     if uxMessagesWaiting Q < uxLength Q \<or> xCopyPosition = queueOVERWRITE then do {
       let c = cTxLock Q;
       (_, k) \<leftarrow> prvCopyDataToQueue q pvItemToQueue xCopyPosition k;
       (woken, k) \<leftarrow> (if c = queueUNLOCKED then release_from_isr (WaitingToReceive q) woken k
                     else do { k \<leftarrow> prvIncrementQueueTxLock q c k; Some (woken, k) });
       Some (True, woken, k)
     } else Some (False, woken, k)
   }"

definition xQueueGiveFromISR ::
  "nat \<Rightarrow> bool \<Rightarrow> 'z qkernel_scheme \<Rightarrow> (bool \<times> bool \<times> 'z qkernel_scheme) option" where
  "xQueueGiveFromISR q woken k = do {
     let Q = queues k q;
     configASSERT (uxItemSize Q = 0);
     configASSERT (\<not> (pcHead Q = None \<and> mutex_holder Q \<noteq> Some None));
     if uxMessagesWaiting Q < uxLength Q then do {
       let c = cTxLock Q;
       let k = upd_queue q (\<lambda>Q. Q\<lparr>uxMessagesWaiting := uxMessagesWaiting Q + 1\<rparr>) k;
       (woken, k) \<leftarrow> (if c = queueUNLOCKED then release_from_isr (WaitingToReceive q) woken k
                     else do { k \<leftarrow> prvIncrementQueueTxLock q c k; Some (woken, k) });
       Some (True, woken, k)
     } else Some (False, woken, k)
   }"

subsection \<open>Receiving\<close>

text \<open>A receiving call returns \<open>Some\<close> of the bytes it wrote to \<open>pvBuffer\<close> or \<open>None\<close> (\<open>errQUEUE_EMPTY\<close>).\<close>

definition recv_try ::
  "nat \<Rightarrow> wait_locals \<Rightarrow> 'z qkernel_scheme \<Rightarrow> (u8 list option pass \<times> 'z qkernel_scheme) option" where
  "recv_try q w k = do {
     let n = uxMessagesWaiting (queues k q);
     if n > 0 then do {
       (b, Q) \<leftarrow> prvCopyDataFromQueue (queues k q);
       let k = upd_queue q (\<lambda>_. Q\<lparr>uxMessagesWaiting := n - 1\<rparr>) k;
       k \<leftarrow> release_and_yield (WaitingToSend q) k;
       Some (Returned (Some b), k)
     }
     else if xTicksToWait w = 0 then Some (Returned None, k)
     else Some (Again (set_entry_time k w), k)
   }"

definition recv_wait ::
  "nat \<Rightarrow> wait_locals \<Rightarrow> 'z qkernel_scheme \<Rightarrow> (u8 list option pass \<times> 'z qkernel_scheme) option" where
  "recv_wait q w k = do {
     let k = prvLockQueue q (vTaskSuspendAll k);
     let (timed_out, w) = check_time k w;
     if \<not> timed_out then
       (if prvIsQueueEmpty (queues k q) then do {
          k \<leftarrow> block_on q (WaitingToReceive q) (xTicksToWait w) k;
          Some (Again w, k)
        } else do { k \<leftarrow> unlock_resume q k; Some (Again w, k) })
     else do {
       k \<leftarrow> unlock_resume q k;
       Some (if prvIsQueueEmpty (queues k q) then Returned None else Again w, k)
     }
   }"

definition recv_pass ::
  "nat \<Rightarrow> wait_locals \<Rightarrow> 'z qkernel_scheme \<Rightarrow> (u8 list option pass \<times> 'z qkernel_scheme) option" where
  "recv_pass q w k = do {
     (r, k) \<leftarrow> recv_try q w k;
     case r of Returned b \<Rightarrow> Some (Returned b, k) | Again w \<Rightarrow> recv_wait q w k
   }"

definition xQueueReceive ::
  "nat \<Rightarrow> bool \<Rightarrow> TickType_t \<Rightarrow> 'z qkernel_scheme \<Rightarrow> (u8 list option pass \<times> 'z qkernel_scheme) option" where
  "xQueueReceive q pvBuffer_null xTicks k = do {
     configASSERT (\<not> (pvBuffer_null \<and> uxItemSize (queues k q) \<noteq> 0));
     configASSERT (may_wait xTicks k);
     recv_pass q (new_wait xTicks) k
   }"

definition peek_try ::
  "nat \<Rightarrow> wait_locals \<Rightarrow> 'z qkernel_scheme \<Rightarrow> (u8 list option pass \<times> 'z qkernel_scheme) option" where
  "peek_try q w k = do {
     let Q = queues k q;
     if uxMessagesWaiting Q > 0 then do {
       (b, Q') \<leftarrow> prvCopyDataFromQueue Q;
       let k = upd_queue q (\<lambda>_. Q'\<lparr>u_ptrs := u_ptrs Q\<rparr>) k;
       k \<leftarrow> release_and_yield (WaitingToReceive q) k;
       Some (Returned (Some b), k)
     }
     else if xTicksToWait w = 0 then Some (Returned None, k)
     else Some (Again (set_entry_time k w), k)
   }"

definition xQueuePeek ::
  "nat \<Rightarrow> bool \<Rightarrow> TickType_t \<Rightarrow> 'z qkernel_scheme \<Rightarrow> (u8 list option pass \<times> 'z qkernel_scheme) option" where
  "xQueuePeek q pvBuffer_null xTicks k = do {
     configASSERT (\<not> (pvBuffer_null \<and> uxItemSize (queues k q) \<noteq> 0));
     configASSERT (may_wait xTicks k);
     (r, k) \<leftarrow> peek_try q (new_wait xTicks) k;
     case r of Returned b \<Rightarrow> Some (Returned b, k) | Again w \<Rightarrow> recv_wait q w k
   }"

definition xQueueReceiveFromISR ::
  "nat \<Rightarrow> bool \<Rightarrow> bool \<Rightarrow> 'z qkernel_scheme \<Rightarrow> (u8 list option \<times> bool \<times> 'z qkernel_scheme) option" where
  "xQueueReceiveFromISR q pvBuffer_null woken k = do {
     let Q = queues k q;
     configASSERT (\<not> (pvBuffer_null \<and> uxItemSize Q \<noteq> 0));
     if uxMessagesWaiting Q > 0 then do {
       let c = cRxLock Q;
       (b, Q') \<leftarrow> prvCopyDataFromQueue Q;
       let k = upd_queue q (\<lambda>_. Q'\<lparr>uxMessagesWaiting := uxMessagesWaiting Q - 1\<rparr>) k;
       (woken, k) \<leftarrow> (if c = queueUNLOCKED then release_from_isr (WaitingToSend q) woken k
                     else do { k \<leftarrow> prvIncrementQueueRxLock q c k; Some (woken, k) });
       Some (Some b, woken, k)
     } else Some (None, woken, k)
   }"

definition xQueuePeekFromISR ::
  "nat \<Rightarrow> bool \<Rightarrow> 'z qkernel_scheme \<Rightarrow> (u8 list option \<times> 'z qkernel_scheme) option" where
  "xQueuePeekFromISR q pvBuffer_null k = do {
     let Q = queues k q;
     configASSERT (\<not> (pvBuffer_null \<and> uxItemSize Q \<noteq> 0));
     configASSERT (uxItemSize Q \<noteq> 0);
     if uxMessagesWaiting Q > 0 then do {
       (b, Q') \<leftarrow> prvCopyDataFromQueue Q;
       Some (Some b, upd_queue q (\<lambda>_. Q'\<lparr>u_ptrs := u_ptrs Q\<rparr>) k)
     } else Some (None, k)
   }"

section \<open>Semaphores and mutexes\<close>

definition take_try :: "nat \<Rightarrow> wait_locals \<Rightarrow> 'z qkernel_scheme \<Rightarrow> (bool pass \<times> 'z qkernel_scheme) option" where
  "take_try q w k = do {
     let n = uxMessagesWaiting (queues k q);
     if n > 0 then do {
       let k = upd_queue q (\<lambda>Q. Q\<lparr>uxMessagesWaiting := n - 1\<rparr>) k;
       let k = (if pcHead (queues k q) = None then
                  (let (h, k) = pvTaskIncrementMutexHeldCount k in upd_queue q (set_mutex_holder h) k)
                else k);
       k \<leftarrow> release_and_yield (WaitingToSend q) k;
       Some (Returned True, k)
     }
     else if xTicksToWait w = 0 then Some (Returned False, k)
     else Some (Again (set_entry_time k w), k)
   }"

definition prvGetDisinheritPriorityAfterTimeout :: "nat \<Rightarrow> 'z kernel_scheme \<Rightarrow> UBaseType_t" where
  "prvGetDisinheritPriorityAfterTimeout q k =
     (case members k (WaitingToReceive q) of
        [] \<Rightarrow> tskIDLE_PRIORITY
      | t # _ \<Rightarrow> configMAX_PRIORITIES - event_value (tcbs k t))"

definition take_wait :: "nat \<Rightarrow> wait_locals \<Rightarrow> 'z qkernel_scheme \<Rightarrow> (bool pass \<times> 'z qkernel_scheme) option" where
  "take_wait q w k = do {
     let k = prvLockQueue q (vTaskSuspendAll k);
     let (timed_out, w) = check_time k w;
     if \<not> timed_out then
       (if prvIsQueueEmpty (queues k q) then do {
          (w, k) \<leftarrow> (if pcHead (queues k q) = None then do {
              h \<leftarrow> mutex_holder (queues k q);
              (y, k) \<leftarrow> xTaskPriorityInherit h k;
              Some (w\<lparr>xInheritanceOccurred := y\<rparr>, k)
            } else Some (w, k));
          k \<leftarrow> block_on q (WaitingToReceive q) (xTicksToWait w) k;
          Some (Again w, k)
        } else do { k \<leftarrow> unlock_resume q k; Some (Again w, k) })
     else do {
       k \<leftarrow> unlock_resume q k;
       if prvIsQueueEmpty (queues k q) then do {
         k \<leftarrow> (if xInheritanceOccurred w then do {
                  h \<leftarrow> mutex_holder (queues k q);
                  vTaskPriorityDisinheritAfterTimeout h (prvGetDisinheritPriorityAfterTimeout q k) k
                } else Some k);
         Some (Returned False, k)
       } else Some (Again w, k)
     }
   }"

definition take_pass :: "nat \<Rightarrow> wait_locals \<Rightarrow> 'z qkernel_scheme \<Rightarrow> (bool pass \<times> 'z qkernel_scheme) option" where
  "take_pass q w k = do {
     (r, k) \<leftarrow> take_try q w k;
     case r of Returned b \<Rightarrow> Some (Returned b, k) | Again w \<Rightarrow> take_wait q w k
   }"

definition xQueueSemaphoreTake ::
  "nat \<Rightarrow> TickType_t \<Rightarrow> 'z qkernel_scheme \<Rightarrow> (bool pass \<times> 'z qkernel_scheme) option" where
  "xQueueSemaphoreTake q xTicks k = do {
     configASSERT (uxItemSize (queues k q) = 0);
     configASSERT (may_wait xTicks k);
     take_pass q (new_wait xTicks) k
   }"

definition prvInitialiseMutex :: "nat option \<Rightarrow> 'z qkernel_scheme \<Rightarrow> 'z qkernel_scheme option" where
  "prvInitialiseMutex h k =
     (case h of
        None \<Rightarrow> Some k
      | Some q \<Rightarrow> do {
          let k = upd_queue q (\<lambda>Q. Q\<lparr>u_ptrs := SemaphoreData None 0, pcHead := None\<rparr>) k;
          (_, k) \<leftarrow> xQueueGenericSend q None 0 queueSEND_TO_BACK k;
          Some k
        })"

definition xQueueCreateMutex ::
  "(nat \<times> u8 list) option \<Rightarrow> u8 \<Rightarrow> 'z qkernel_scheme \<Rightarrow> (nat option \<times> 'z qkernel_scheme) option" where
  "xQueueCreateMutex alloc ucType k = do {
     (h, k) \<leftarrow> xQueueGenericCreate alloc 1 0 ucType k;
     k \<leftarrow> prvInitialiseMutex h k;
     Some (h, k)
   }"

definition queueQUEUE_TYPE_COUNTING_SEMAPHORE :: u8 where
  "queueQUEUE_TYPE_COUNTING_SEMAPHORE = 2"

definition xQueueCreateCountingSemaphore ::
  "(nat \<times> u8 list) option \<Rightarrow> UBaseType_t \<Rightarrow> UBaseType_t \<Rightarrow> 'z qkernel_scheme \<Rightarrow>
     (nat option \<times> 'z qkernel_scheme) option" where
  "xQueueCreateCountingSemaphore alloc uxMaxCount uxInitialCount k =
     (if uxMaxCount \<noteq> 0 \<and> uxInitialCount \<le> uxMaxCount then do {
        (h, k) \<leftarrow> xQueueGenericCreate alloc uxMaxCount 0 queueQUEUE_TYPE_COUNTING_SEMAPHORE k;
        Some (h, case h of None \<Rightarrow> k
          | Some q \<Rightarrow> upd_queue q (\<lambda>Q. Q\<lparr>uxMessagesWaiting := uxInitialCount\<rparr>) k)
      } else None)"

definition xQueueGetMutexHolder :: "nat \<Rightarrow> 'z qkernel_scheme \<Rightarrow> tid option option" where
  "xQueueGetMutexHolder q k =
     (if pcHead (queues k q) = None then mutex_holder (queues k q) else Some None)"

definition xQueueGetMutexHolderFromISR :: "nat \<Rightarrow> 'z qkernel_scheme \<Rightarrow> tid option option" where
  "xQueueGetMutexHolderFromISR q k =
     (if pcHead (queues k q) = None then mutex_holder (queues k q) else Some None)"

definition xQueueGiveMutexRecursive :: "nat \<Rightarrow> 'z qkernel_scheme \<Rightarrow> (bool \<times> 'z qkernel_scheme) option" where
  "xQueueGiveMutexRecursive q k = do {
     h \<leftarrow> mutex_holder (queues k q);
     if h = pxCurrentTCB k then do {
       c \<leftarrow> recursive_count (queues k q);
       let k = upd_queue q (set_recursive_count (c - 1)) k;
       k \<leftarrow> (if c - 1 = 0 then do {
                (_, k) \<leftarrow> xQueueGenericSend q None 0 queueSEND_TO_BACK k; Some k
              } else Some k);
       Some (True, k)
     } else Some (False, k)
   }"

text \<open>What \<open>xQueueTakeMutexRecursive\<close> does when its \<open>xQueueSemaphoreTake\<close> has returned.\<close>

definition recursive_taken :: "nat \<Rightarrow> bool pass \<times> 'z qkernel_scheme \<Rightarrow> (bool pass \<times> 'z qkernel_scheme) option" where
  "recursive_taken q rk = (case rk of
       (Returned True, k) \<Rightarrow> do {
         c \<leftarrow> recursive_count (queues k q);
         Some (Returned True, upd_queue q (set_recursive_count (c + 1)) k)
       }
     | _ \<Rightarrow> Some rk)"

definition xQueueTakeMutexRecursive ::
  "nat \<Rightarrow> TickType_t \<Rightarrow> 'z qkernel_scheme \<Rightarrow> (bool pass \<times> 'z qkernel_scheme) option" where
  "xQueueTakeMutexRecursive q xTicks k = do {
     h \<leftarrow> mutex_holder (queues k q);
     if h = pxCurrentTCB k then do {
       c \<leftarrow> recursive_count (queues k q);
       Some (Returned True, upd_queue q (set_recursive_count (c + 1)) k)
     } else do {
       rk \<leftarrow> xQueueSemaphoreTake q xTicks k;
       recursive_taken q rk
     }
   }"

section \<open>Queries and the registry\<close>

definition uxQueueMessagesWaiting :: "nat \<Rightarrow> 'z qkernel_scheme \<Rightarrow> UBaseType_t" where
  "uxQueueMessagesWaiting q k = uxMessagesWaiting (queues k q)"

definition uxQueueSpacesAvailable :: "nat \<Rightarrow> 'z qkernel_scheme \<Rightarrow> UBaseType_t" where
  "uxQueueSpacesAvailable q k = uxLength (queues k q) - uxMessagesWaiting (queues k q)"

definition uxQueueMessagesWaitingFromISR :: "nat \<Rightarrow> 'z qkernel_scheme \<Rightarrow> UBaseType_t" where
  "uxQueueMessagesWaitingFromISR q k = uxMessagesWaiting (queues k q)"

definition xQueueIsQueueEmptyFromISR :: "nat \<Rightarrow> 'z qkernel_scheme \<Rightarrow> bool" where
  "xQueueIsQueueEmptyFromISR q k \<longleftrightarrow> uxMessagesWaiting (queues k q) = 0"

definition xQueueIsQueueFullFromISR :: "nat \<Rightarrow> 'z qkernel_scheme \<Rightarrow> bool" where
  "xQueueIsQueueFullFromISR q k \<longleftrightarrow> uxMessagesWaiting (queues k q) = uxLength (queues k q)"

definition uxQueueGetQueueNumber :: "nat \<Rightarrow> 'z qkernel_scheme \<Rightarrow> UBaseType_t" where
  "uxQueueGetQueueNumber q k = Queue_t.uxQueueNumber (queues k q)"

definition vQueueSetQueueNumber :: "nat \<Rightarrow> UBaseType_t \<Rightarrow> 'z qkernel_scheme \<Rightarrow> 'z qkernel_scheme" where
  "vQueueSetQueueNumber q n = upd_queue q (\<lambda>Q. Q\<lparr>uxQueueNumber := n\<rparr>)"

definition ucQueueGetQueueType :: "nat \<Rightarrow> 'z qkernel_scheme \<Rightarrow> u8" where
  "ucQueueGetQueueType q k = ucQueueType (queues k q)"

text \<open>The loop of \<open>vQueueAddToRegistry\<close>: the entry of the queue if it has one, else the first free one.\<close>

fun registry_entry :: "nat \<Rightarrow> registry_item list \<Rightarrow> nat \<Rightarrow> nat option \<Rightarrow> nat option" where
  "registry_entry q [] ux w = w"
| "registry_entry q ((name, h) # rs) ux w =
     (if h = Some q then Some ux
      else registry_entry q rs (Suc ux) (if w = None \<and> name = None then Some ux else w))"

definition vQueueAddToRegistry :: "nat \<Rightarrow> string option \<Rightarrow> 'z qkernel_scheme \<Rightarrow> 'z qkernel_scheme" where
  "vQueueAddToRegistry q pcQueueName k =
     (case (if pcQueueName \<noteq> None then registry_entry q (xQueueRegistry k) 0 None else None) of
        None \<Rightarrow> k
      | Some ux \<Rightarrow> k\<lparr>xQueueRegistry := (xQueueRegistry k)[ux := (pcQueueName, Some q)]\<rparr>)"

fun registry_name :: "nat \<Rightarrow> registry_item list \<Rightarrow> string option" where
  "registry_name q [] = None"
| "registry_name q ((name, h) # rs) = (if h = Some q then name else registry_name q rs)"

definition pcQueueGetName :: "nat \<Rightarrow> 'z qkernel_scheme \<Rightarrow> string option" where
  "pcQueueGetName q k = registry_name q (xQueueRegistry k)"

fun registry_remove :: "nat \<Rightarrow> registry_item list \<Rightarrow> registry_item list" where
  "registry_remove q [] = []"
| "registry_remove q ((name, h) # rs) =
     (if h = Some q then (None, None) # rs else (name, h) # registry_remove q rs)"

definition vQueueUnregisterQueue :: "nat \<Rightarrow> 'z qkernel_scheme \<Rightarrow> 'z qkernel_scheme" where
  "vQueueUnregisterQueue q k = k\<lparr>xQueueRegistry := registry_remove q (xQueueRegistry k)\<rparr>"

text \<open>\<open>vQueueDelete\<close> up to the release of the memory.\<close>

definition vQueueDelete :: "nat \<Rightarrow> 'z qkernel_scheme \<Rightarrow> 'z qkernel_scheme" where
  "vQueueDelete q k = vQueueUnregisterQueue q k"

definition vQueueWaitForMessageRestricted ::
  "nat \<Rightarrow> TickType_t \<Rightarrow> bool \<Rightarrow> 'z qkernel_scheme \<Rightarrow> 'z qkernel_scheme option" where
  "vQueueWaitForMessageRestricted q xTicks xWaitIndefinitely k = do {
     let k = prvLockQueue q k;
     k \<leftarrow> (if uxMessagesWaiting (queues k q) = 0
          then vTaskPlaceOnEventListRestricted (WaitingToReceive q) xTicks xWaitIndefinitely k
          else Some k);
     prvUnlockQueue q k
   }"

end
