(* ===== verification/Scheduler.thy ===== *)
theory Scheduler
  imports Kernel_Tasks
begin

text \<open>
  The invariant of the scheduler's lists and clocks, and what the operations of theory
  \<open>Kernel_Tasks\<close> do to it: selection of the running task, ticks and delays, event lists,
  priority inheritance and timeouts.
\<close>

section \<open>The invariant\<close>

text \<open>Every list is well formed and the containers of the items say where the tasks are.\<close>

definition lists_ok :: "'z kernel_scheme \<Rightarrow> bool" where
  "lists_ok k \<longleftrightarrow>
     (\<forall>l. kl_wf (task_lists k l)) \<and>
     (\<forall>l t. t \<in> set (members k l) \<longleftrightarrow>
        (if is_event_list l then event_list (tcbs k t) = Some l else state_list (tcbs k t) = Some l)) \<and>
     (\<forall>l t. state_list (tcbs k t) = Some l \<longrightarrow> \<not> is_event_list l) \<and>
     (\<forall>l t. event_list (tcbs k t) = Some l \<longrightarrow> is_event_list l)"

text \<open>A ready list holds the tasks of its priority, and none lies above the recorded top.\<close>

definition ready_ok :: "'z kernel_scheme \<Rightarrow> bool" where
  "ready_ok k \<longleftrightarrow>
     (\<forall>p t. state_list (tcbs k t) = Some (Ready p) \<longrightarrow> prio k t = p \<and> p \<le> uxTopReadyPriority k) \<and>
     (\<forall>t. state_list (tcbs k t) \<noteq> None \<longrightarrow> prio k t < configMAX_PRIORITIES \<and>
        uxBasePriority (tcbs k t) < configMAX_PRIORITIES)"

text \<open>
  The delayed list holds the tasks that wake up before the tick counter wraps, in the order
  of their times, and the overflow list those that wake up after it.
\<close>

definition delayed_ok :: "'z kernel_scheme \<Rightarrow> bool" where
  "delayed_ok k \<longleftrightarrow>
     {pxDelayedTaskList k, pxOverflowDelayedTaskList k} = {Delayed1, Delayed2} \<and>
     sorted (map (\<lambda>t. state_value (tcbs k t)) (members k (pxDelayedTaskList k))) \<and>
     sorted (map (\<lambda>t. state_value (tcbs k t)) (members k (pxOverflowDelayedTaskList k))) \<and>
     (\<forall>t. state_list (tcbs k t) = Some (pxDelayedTaskList k) \<longrightarrow>
        xTickCount k \<le> state_value (tcbs k t) \<and> xNextTaskUnblockTime k \<le> state_value (tcbs k t)) \<and>
     (\<forall>t. state_list (tcbs k t) = Some (pxOverflowDelayedTaskList k) \<longrightarrow>
        state_value (tcbs k t) < xTickCount k)"

text \<open>Inside the tick handler the tasks whose time has come are still on the delayed list.\<close>

definition no_due :: "'z kernel_scheme \<Rightarrow> bool" where
  "no_due k \<longleftrightarrow>
     (\<forall>t. state_list (tcbs k t) = Some (pxDelayedTaskList k) \<longrightarrow> xTickCount k < state_value (tcbs k t))"

text \<open>A task on an event list is blocked, with or without a time limit.\<close>

definition waiters_ok :: "'z kernel_scheme \<Rightarrow> bool" where
  "waiters_ok k \<longleftrightarrow>
     (\<forall>t. event_list (tcbs k t) \<noteq> None \<longrightarrow>
        state_list (tcbs k t) \<in> {Some Delayed1, Some Delayed2, Some SuspendedTaskList})"

definition list_inv :: "'z kernel_scheme \<Rightarrow> bool" where
  "list_inv k \<longleftrightarrow> lists_ok k \<and> ready_ok k \<and> delayed_ok k"

definition sched_inv :: "'z kernel_scheme \<Rightarrow> bool" where
  "sched_inv k \<longleftrightarrow> list_inv k \<and> no_due k \<and> waiters_ok k"

lemmas upd_defs = upd_tcb_def upd_list_def
lemmas inv_defs = sched_inv_def list_inv_def no_due_def waiters_ok_def

section \<open>Moving items\<close>

lemma remove_state_item_eq:
  "remove_state_item t k = Some k' \<longleftrightarrow>
    (\<exists>l. state_list (tcbs k t) = Some l \<and>
      k' = upd_tcb t (\<lambda>b. b\<lparr>state_list := None\<rparr>) (upd_list l (kl_remove t) k))"
  by (auto simp: remove_state_item_def bind_eq_Some_conv)

lemma remove_event_item_eq:
  "remove_event_item t k = Some k' \<longleftrightarrow>
    (\<exists>l. event_list (tcbs k t) = Some l \<and>
      k' = upd_tcb t (\<lambda>b. b\<lparr>event_list := None\<rparr>) (upd_list l (kl_remove t) k))"
  by (auto simp: remove_event_item_def bind_eq_Some_conv)

lemma kl_remove_wf: "kl_wf K \<Longrightarrow> kl_wf (kl_remove t K)"
proof -
  assume wf: "kl_wf K"
  have "j \<in> set (remove1 t (kitems K))" if "kl_before t (kitems K) = Some j" for j
  proof -
    have "j \<in> set (takeWhile (\<lambda>y. y \<noteq> t) (kitems K))"
      using that by (auto simp: kl_before_def split: list.splits dest: arg_cong [where f = set])
    then show ?thesis
      using wf by (auto simp: kl_wf_def dest: set_takeWhileD)
  qed
  with wf show ?thesis by (auto simp: kl_wf_def kl_remove_def)
qed

lemma lists_ok_remove_state:
  assumes "lists_ok k" "state_list (tcbs k t) = Some l"
  shows "lists_ok (upd_tcb t (\<lambda>b. b\<lparr>state_list := None\<rparr>) (upd_list l (kl_remove t) k))"
  using assms by (auto simp: lists_ok_def upd_defs kl_remove_wf split: if_splits)

lemma lists_ok_remove_event:
  assumes "lists_ok k" "event_list (tcbs k t) = Some l"
  shows "lists_ok (upd_tcb t (\<lambda>b. b\<lparr>event_list := None\<rparr>) (upd_list l (kl_remove t) k))"
  using assms by (auto simp: lists_ok_def upd_defs kl_remove_wf split: if_splits)

lemma lists_ok_insert_end_state:
  assumes "lists_ok k" "state_list (tcbs k t) = None" "\<not> is_event_list l"
  shows "lists_ok (insert_end_state l t k)"
  using assms by (auto simp: lists_ok_def upd_defs insert_end_state_def kl_insert_end_wf split: if_splits)

lemma lists_ok_insert_state:
  assumes "lists_ok k" "state_list (tcbs k t) = None" "\<not> is_event_list l"
  shows "lists_ok (insert_state l t k)"
  using assms by (auto simp: lists_ok_def upd_defs insert_state_def kl_insert_wf split: if_splits)

lemma lists_ok_insert_end_event:
  assumes "lists_ok k" "event_list (tcbs k t) = None" "is_event_list l"
  shows "lists_ok (insert_end_event l t k)"
  using assms by (auto simp: lists_ok_def upd_defs insert_end_event_def kl_insert_end_wf split: if_splits)

lemma lists_ok_insert_event:
  assumes "lists_ok k" "event_list (tcbs k t) = None" "is_event_list l"
  shows "lists_ok (insert_event l t k)"
  using assms by (auto simp: lists_ok_def upd_defs insert_event_def kl_insert_wf split: if_splits)

lemma lists_ok_state: "lists_ok k \<Longrightarrow> state_list (tcbs k t) = Some l \<Longrightarrow> \<not> is_event_list l"
  unfolding lists_ok_def by blast

lemma lists_ok_event: "lists_ok k \<Longrightarrow> event_list (tcbs k t) = Some l \<Longrightarrow> is_event_list l"
  unfolding lists_ok_def by blast

lemma state_member:
  "lists_ok k \<Longrightarrow> \<not> is_event_list l \<Longrightarrow> t \<in> set (members k l) \<longleftrightarrow> state_list (tcbs k t) = Some l"
  unfolding lists_ok_def by simp

lemma event_member:
  "lists_ok k \<Longrightarrow> is_event_list l \<Longrightarrow> t \<in> set (members k l) \<longleftrightarrow> event_list (tcbs k t) = Some l"
  unfolding lists_ok_def by simp

section \<open>Selecting the running task\<close>

lemma top_ready_Some:
  "top_ready k p = Some q \<Longrightarrow>
    q \<le> p \<and> members k (Ready q) \<noteq> [] \<and> (\<forall>r. q < r \<longrightarrow> r \<le> p \<longrightarrow> members k (Ready r) = [])"
proof (induction k p rule: top_ready.induct)
  case (1 k p)
  show ?case
  proof (cases "members k (Ready p) \<noteq> [] \<or> p = 0")
    case True
    with 1(2) show ?thesis by (auto simp: top_ready.simps [of k p] split: if_splits)
  next
    case False
    then have rec: "top_ready k (p - 1) = Some q" using 1(2) by (simp add: top_ready.simps [of k p])
    with False 1(1) have IH: "q \<le> p - 1" "members k (Ready q) \<noteq> []"
      "\<And>r. q < r \<Longrightarrow> r \<le> p - 1 \<Longrightarrow> members k (Ready r) = []" by auto
    have "q \<le> p" using IH(1) word_minus_one_less [of p] False by simp
    moreover have "members k (Ready r) = []" if "q < r" "r \<le> p" for r
    proof (cases "r = p")
      case True
      with False show ?thesis by simp
    next
      case neq: False
      with that(2) have "r \<le> p - 1" by (intro word_less_imp_le_minus_one) simp
      with IH(3) that(1) show ?thesis by simp
    qed
    ultimately show ?thesis using IH(2) by simp
  qed
qed

lemma top_ready_exists:
  "members k (Ready r) \<noteq> [] \<Longrightarrow> r \<le> p \<Longrightarrow> \<exists>q. top_ready k p = Some q"
proof (induction k p rule: top_ready.induct)
  case (1 k p)
  show ?case
  proof (cases "members k (Ready p) \<noteq> [] \<or> p = 0")
    case True
    with 1(2,3) show ?thesis by (auto simp: top_ready.simps [of k p])
  next
    case False
    with 1(2,3) have "r < p" by (auto simp: order_less_le)
    then have "r \<le> p - 1" by (rule word_less_imp_le_minus_one)
    with False 1 show ?thesis by (auto simp: top_ready.simps [of k p])
  qed
qed

lemma ready_member_prio:
  "sched_inv k \<Longrightarrow> t \<in> set (members k (Ready p)) \<Longrightarrow> prio k t = p \<and> p \<le> uxTopReadyPriority k"
  by (auto simp: inv_defs lists_ok_def ready_ok_def)

lemma kl_advance_index:
  "kl_wf K \<Longrightarrow> kitems K \<noteq> [] \<Longrightarrow> \<exists>t. kindex (kl_advance K) = Some t \<and> t \<in> set (kitems K)"
  by (auto simp: kl_advance_def kl_next_pos kl_pos_less)

lemma select_task:
  assumes "sched_inv k" "members k (Ready r) \<noteq> []"
  obtains p t where
    "taskSELECT_HIGHEST_PRIORITY_TASK k =
      Some ((upd_list (Ready p) kl_advance k)\<lparr>pxCurrentTCB := Some t, uxTopReadyPriority := p\<rparr>)"
    "kl_next (task_lists k (Ready p)) = Some t" "t \<in> set (members k (Ready p))"
    "\<forall>q. members k (Ready q) \<noteq> [] \<longrightarrow> q \<le> p"
proof -
  obtain u where "u \<in> set (members k (Ready r))" using assms(2) by (cases "members k (Ready r)") auto
  then have "r \<le> uxTopReadyPriority k" using ready_member_prio [OF assms(1)] by blast
  then obtain p where p: "top_ready k (uxTopReadyPriority k) = Some p"
    using top_ready_exists [OF assms(2)] by blast
  note top = top_ready_Some [OF p]
  have wf: "kl_wf (task_lists k (Ready p))" using assms(1) by (simp add: inv_defs lists_ok_def)
  then obtain t where t: "kindex (kl_advance (task_lists k (Ready p))) = Some t" "t \<in> set (members k (Ready p))"
    using kl_advance_index top by blast
  have "q \<le> p" if "members k (Ready q) \<noteq> []" for q
  proof -
    obtain u where "u \<in> set (members k (Ready q))" using \<open>members k (Ready q) \<noteq> []\<close> by (meson list.set_sel(1))
    then have "q \<le> uxTopReadyPriority k" using ready_member_prio [OF assms(1)] by blast
    with top that show ?thesis by (meson not_le)
  qed
  moreover have "kl_next (task_lists k (Ready p)) = Some t" using t(1) by (simp add: kl_advance_def)
  ultimately show thesis
    using t p by (intro that [of p t]) (auto simp: taskSELECT_HIGHEST_PRIORITY_TASK_def upd_list_def)
qed

lemma select_inv:
  assumes "sched_inv k" "\<forall>q. members k (Ready q) \<noteq> [] \<longrightarrow> q \<le> p" "members k (Ready p) \<noteq> []"
  shows "sched_inv ((upd_list (Ready p) kl_advance k)\<lparr>pxCurrentTCB := c, uxTopReadyPriority := p\<rparr>)"
proof -
  have wf: "kl_wf (task_lists k (Ready p))"
    using assms(1) by (simp add: inv_defs lists_ok_def)
  note adv = kl_advance_wf [OF wf assms(3)]
  have le: "q \<le> p" if "state_list (tcbs k t) = Some (Ready q)" for t q
  proof -
    from that assms(1) have "t \<in> set (members k (Ready q))" by (simp add: inv_defs lists_ok_def)
    with assms(2) show ?thesis by (cases "members k (Ready q)") auto
  qed
  have "pxDelayedTaskList k \<noteq> Ready p" "pxOverflowDelayedTaskList k \<noteq> Ready p"
    using assms(1) by (auto simp: inv_defs delayed_ok_def doubleton_eq_iff)
  with assms(1) adv le show ?thesis
    by (auto simp: inv_defs lists_ok_def ready_ok_def delayed_ok_def upd_list_def)
qed

text \<open>The running task after a switch: what \<open>vTaskSwitchContext\<close> promises.\<close>

definition runs_highest :: "'z kernel_scheme \<Rightarrow> bool" where
  "runs_highest k \<longleftrightarrow>
     (\<exists>t. pxCurrentTCB k = Some t \<and> t \<in> set (members k (Ready (prio k t))) \<and>
        (\<forall>u p. u \<in> set (members k (Ready p)) \<longrightarrow> prio k u \<le> prio k t))"

lemma vTaskSwitchContext_spec:
  assumes "sched_inv k" "uxSchedulerSuspended k = 0" "members k (Ready r) \<noteq> []"
  shows "\<exists>k'. vTaskSwitchContext k = Some k' \<and> sched_inv k' \<and> runs_highest k' \<and> \<not> xYieldPending k' \<and>
    tcbs k' = tcbs k"
proof -
  let ?k = "k\<lparr>xYieldPending := False\<rparr>"
  have inv: "sched_inv ?k"
    using assms(1) by (simp add: inv_defs lists_ok_def ready_ok_def delayed_ok_def)
  have "members ?k (Ready r) \<noteq> []" using assms(3) by simp
  with inv obtain p t where sel: "taskSELECT_HIGHEST_PRIORITY_TASK ?k =
      Some ((upd_list (Ready p) kl_advance ?k)\<lparr>pxCurrentTCB := Some t, uxTopReadyPriority := p\<rparr>)"
    and t: "t \<in> set (members ?k (Ready p))" and top: "\<forall>q. members ?k (Ready q) \<noteq> [] \<longrightarrow> q \<le> p"
    by (rule select_task)
  let ?k' = "(upd_list (Ready p) kl_advance ?k)\<lparr>pxCurrentTCB := Some t, uxTopReadyPriority := p\<rparr>"
  have "members ?k (Ready p) \<noteq> []" using t by auto
  from select_inv [OF inv top this] have "sched_inv ?k'" .
  moreover have "runs_highest ?k'"
  proof -
    have "q \<le> p" if "u \<in> set (members k (Ready q))" for u q
      using that top by (cases "members k (Ready q)") auto
    moreover have "prio k u = q" if "u \<in> set (members k (Ready q))" for u q
      using ready_member_prio [OF assms(1) that] by simp
    ultimately show ?thesis
      using t by (auto simp: runs_highest_def upd_list_def kl_advance_def)
  qed
  ultimately show ?thesis
    using sel assms(2) by (auto simp: vTaskSwitchContext_def upd_list_def)
qed

text \<open>A switch leaves the state outside the kernel alone and does not resume the scheduler.\<close>

lemma switch_more:
  assumes "vTaskSwitchContext k = Some k'"
  shows "kernel.more k' = kernel.more k" "uxSchedulerSuspended k' = uxSchedulerSuspended k"
  using assms
  by (auto simp: vTaskSwitchContext_def taskSELECT_HIGHEST_PRIORITY_TASK_def upd_list_def bind_eq_Some_conv Let_def split: if_splits)

section \<open>Moving a task to its ready list\<close>

text \<open>The clocks and the running task, which moving a task does not change.\<close>

definition same_clock :: "'z kernel_scheme \<Rightarrow> 'z kernel_scheme \<Rightarrow> bool" where
  "same_clock k k' \<longleftrightarrow>
     pxCurrentTCB k' = pxCurrentTCB k \<and> pxDelayedTaskList k' = pxDelayedTaskList k \<and>
     pxOverflowDelayedTaskList k' = pxOverflowDelayedTaskList k \<and> xTickCount k' = xTickCount k \<and>
     xNextTaskUnblockTime k' = xNextTaskUnblockTime k \<and>
     uxSchedulerSuspended k' = uxSchedulerSuspended k \<and> xNumOfOverflows k' = xNumOfOverflows k \<and>
     xPendedTicks k' = xPendedTicks k \<and> uxCurrentNumberOfTasks k' = uxCurrentNumberOfTasks k \<and>
     xYieldPending k' = xYieldPending k \<and> xSchedulerRunning k' = xSchedulerRunning k \<and>
     pendsv k' = pendsv k"

lemma same_clock_refl [simp]: "same_clock k k"
  by (simp add: same_clock_def)

lemma same_clock_trans: "same_clock a b \<Longrightarrow> same_clock b c \<Longrightarrow> same_clock a c"
  by (simp add: same_clock_def)

lemma same_clockD:
  assumes "same_clock k k'"
  shows "pxCurrentTCB k' = pxCurrentTCB k" "pxDelayedTaskList k' = pxDelayedTaskList k"
    "pxOverflowDelayedTaskList k' = pxOverflowDelayedTaskList k" "xTickCount k' = xTickCount k"
    "xNextTaskUnblockTime k' = xNextTaskUnblockTime k"
    "uxSchedulerSuspended k' = uxSchedulerSuspended k" "xNumOfOverflows k' = xNumOfOverflows k"
    "xPendedTicks k' = xPendedTicks k" "uxCurrentNumberOfTasks k' = uxCurrentNumberOfTasks k"
    "xYieldPending k' = xYieldPending k" "xSchedulerRunning k' = xSchedulerRunning k"
    "pendsv k' = pendsv k"
  using assms by (simp_all add: same_clock_def)

lemma delayed_lists_distinct:
  "delayed_ok k \<Longrightarrow> pxDelayedTaskList k \<noteq> pxOverflowDelayedTaskList k"
  "delayed_ok k \<Longrightarrow> pxDelayedTaskList k \<in> {Delayed1, Delayed2}"
  "delayed_ok k \<Longrightarrow> pxOverflowDelayedTaskList k \<in> {Delayed1, Delayed2}"
  by (auto simp: delayed_ok_def doubleton_eq_iff)

lemma delayed_ok_frame:
  assumes "delayed_ok k"
    and "pxDelayedTaskList k' = pxDelayedTaskList k"
    and "pxOverflowDelayedTaskList k' = pxOverflowDelayedTaskList k"
    and "xTickCount k' = xTickCount k"
    and "xNextTaskUnblockTime k' = xNextTaskUnblockTime k"
    and "\<And>t. state_value (tcbs k' t) = state_value (tcbs k t)"
    and "\<And>l. l \<in> {Delayed1, Delayed2} \<Longrightarrow>
      members k' l = members k l \<or> (\<exists>t. members k' l = remove1 t (members k l))"
    and "\<And>t l. l \<in> {Delayed1, Delayed2} \<Longrightarrow> state_list (tcbs k' t) = Some l \<Longrightarrow>
      state_list (tcbs k t) = Some l"
  shows "delayed_ok k'"
proof -
  have "sorted (map (\<lambda>t. state_value (tcbs k' t)) (members k' l))" if "l \<in> {Delayed1, Delayed2}" for l
  proof -
    have "sorted (map (\<lambda>t. state_value (tcbs k t)) (members k l))"
      using assms(1) that by (auto simp: delayed_ok_def doubleton_eq_iff)
    with assms(7) [OF that] show ?thesis by (auto simp: assms(6) sorted_map_remove1)
  qed
  then show ?thesis
    unfolding delayed_ok_def assms(2-6)
    using assms(1,8) delayed_lists_distinct [OF assms(1)]
    by (simp add: delayed_ok_def assms(6))
qed

lemma to_ready:
  assumes "list_inv k" "state_list (tcbs k t) = Some l"
  obtains k1 k2 where "remove_state_item t k = Some k1" "prvAddTaskToReadyList t k1 = Some k2"
    "list_inv k2" "same_clock k k2" "kernel.more k2 = kernel.more k"
    "tcbs k2 = (tcbs k)(t := (tcbs k t)\<lparr>state_list := Some (Ready (prio k t))\<rparr>)"
    "\<And>l'. l' \<noteq> l \<Longrightarrow> l' \<noteq> Ready (prio k t) \<Longrightarrow> task_lists k2 l' = task_lists k l'"
    "l \<noteq> Ready (prio k t) \<Longrightarrow> members k2 l = remove1 t (members k l)"
proof -
  let ?k1 = "upd_tcb t (\<lambda>b. b\<lparr>state_list := None\<rparr>) (upd_list l (kl_remove t) k)"
  let ?p = "prio k t"
  let ?k2 = "insert_end_state (Ready ?p) t (taskRECORD_READY_PRIORITY ?p ?k1)"
  have inv: "lists_ok k" "ready_ok k" "delayed_ok k" using assms(1) by (auto simp: list_inv_def)
  have pr: "?p < configMAX_PRIORITIES" using inv(2) assms(2) by (auto simp: ready_ok_def)
  have "lists_ok (taskRECORD_READY_PRIORITY ?p ?k1)"
    using lists_ok_remove_state [OF inv(1) assms(2)]
    by (simp add: lists_ok_def taskRECORD_READY_PRIORITY_def)
  then have l2: "lists_ok ?k2"
    by (rule lists_ok_insert_end_state) (auto simp: taskRECORD_READY_PRIORITY_def upd_defs)
  have r2: "ready_ok ?k2"
    using inv(2) pr assms(2)
    by (auto simp: ready_ok_def insert_end_state_def taskRECORD_READY_PRIORITY_def upd_defs
        split: if_splits intro: order.trans [OF _ less_imp_le])
  have d2: "delayed_ok ?k2"
    using inv(3)
    by (rule delayed_ok_frame)
      (auto simp: insert_end_state_def taskRECORD_READY_PRIORITY_def upd_defs kl_remove_def
        split: if_splits)
  show thesis
  proof (rule that [of ?k1 ?k2])
    show "remove_state_item t k = Some ?k1" by (simp add: remove_state_item_eq assms(2))
    show "prvAddTaskToReadyList t ?k1 = Some ?k2"
      using pr by (simp add: prvAddTaskToReadyList_def upd_defs)
    show "list_inv ?k2" using l2 r2 d2 by (simp add: list_inv_def)
  qed (auto simp: same_clock_def insert_end_state_def taskRECORD_READY_PRIORITY_def upd_defs kl_remove_def)
qed

lemma no_due_frame:
  assumes "no_due k" "same_clock k k'"
    and "\<And>t. state_list (tcbs k' t) = Some (pxDelayedTaskList k) \<Longrightarrow>
      state_list (tcbs k t) = Some (pxDelayedTaskList k) \<and> state_value (tcbs k' t) = state_value (tcbs k t)"
  shows "no_due k'"
  using assms by (auto simp: no_due_def same_clock_def)

lemma off_event:
  assumes "list_inv k" "event_list (tcbs k t) = Some l"
  obtains k1 where "remove_event_item t k = Some k1" "list_inv k1" "same_clock k k1"
    "kernel.more k1 = kernel.more k" "uxTopReadyPriority k1 = uxTopReadyPriority k"
    "tcbs k1 = (tcbs k)(t := (tcbs k t)\<lparr>event_list := None\<rparr>)"
    "\<And>l'. l' \<noteq> l \<Longrightarrow> task_lists k1 l' = task_lists k l'"
    "members k1 l = remove1 t (members k l)"
proof -
  let ?k1 = "upd_tcb t (\<lambda>b. b\<lparr>event_list := None\<rparr>) (upd_list l (kl_remove t) k)"
  have inv: "lists_ok k" "ready_ok k" "delayed_ok k" using assms(1) by (auto simp: list_inv_def)
  have "lists_ok ?k1" by (rule lists_ok_remove_event [OF inv(1) assms(2)])
  moreover have "ready_ok ?k1" using inv(2) by (auto simp: ready_ok_def upd_defs)
  moreover have "delayed_ok ?k1"
    using inv(3)
    by (rule delayed_ok_frame) (auto simp: upd_defs kl_remove_def split: if_splits)
  ultimately show thesis
    by (intro that [of ?k1])
      (auto simp: remove_event_item_eq assms(2) list_inv_def same_clock_def upd_defs kl_remove_def)
qed

definition wake_tcb :: "tcb \<Rightarrow> tcb" where
  "wake_tcb b = b\<lparr>state_list := Some (Ready (uxPriority b)), event_list := None\<rparr>"

lemma wake_tcb_simps [simp]:
  "state_list (wake_tcb b) = Some (Ready (uxPriority b))" "event_list (wake_tcb b) = None"
  "uxPriority (wake_tcb b) = uxPriority b" "state_value (wake_tcb b) = state_value b"
  "uxBasePriority (wake_tcb b) = uxBasePriority b" "event_value (wake_tcb b) = event_value b"
  "uxMutexesHeld (wake_tcb b) = uxMutexesHeld b" "wake_tcb (wake_tcb b) = wake_tcb b"
  by (simp_all add: wake_tcb_def)

lemma items_swap [simp]: "b\<lparr>event_list := x, state_list := y\<rparr> = b\<lparr>state_list := y, event_list := x\<rparr>"
  by (cases b) simp

lemma remove_items_commute:
  assumes "lists_ok k" "event_list (tcbs k t) = Some e" "remove_state_item t k = Some k1"
    "remove_event_item t k = Some k1'"
  shows "\<exists>k2. remove_event_item t k1 = Some k2 \<and> remove_state_item t k1' = Some k2"
proof -
  obtain l where l: "state_list (tcbs k t) = Some l" using assms(3) by (auto simp: remove_state_item_eq)
  with assms(1,2) have "l \<noteq> e" using lists_ok_state lists_ok_event by blast
  with assms l show ?thesis
    by (auto simp: remove_state_item_def remove_event_item_def upd_defs fun_upd_twist)
qed

lemma wake_item:
  assumes "list_inv k" "state_list (tcbs k t) = Some l"
  obtains k1 k2 k3 where "remove_state_item t k = Some k1"
    "(if event_list (tcbs k1 t) \<noteq> None then remove_event_item t k1 else Some k1) = Some k2"
    "prvAddTaskToReadyList t k2 = Some k3"
    "list_inv k3" "same_clock k k3" "kernel.more k3 = kernel.more k"
    "tcbs k3 = (tcbs k)(t := wake_tcb (tcbs k t))"
    "\<And>l'. l' \<noteq> l \<Longrightarrow> l' \<noteq> Ready (prio k t) \<Longrightarrow> \<not> is_event_list l' \<Longrightarrow> task_lists k3 l' = task_lists k l'"
    "l \<noteq> Ready (prio k t) \<Longrightarrow> members k3 l = remove1 t (members k l)"
proof (cases "event_list (tcbs k t)")
  case None
  obtain k1 k2 where "remove_state_item t k = Some k1" "prvAddTaskToReadyList t k1 = Some k2"
    "list_inv k2" "same_clock k k2" "kernel.more k2 = kernel.more k"
    "tcbs k2 = (tcbs k)(t := (tcbs k t)\<lparr>state_list := Some (Ready (prio k t))\<rparr>)"
    "\<And>l'. l' \<noteq> l \<Longrightarrow> l' \<noteq> Ready (prio k t) \<Longrightarrow> task_lists k2 l' = task_lists k l'"
    "l \<noteq> Ready (prio k t) \<Longrightarrow> members k2 l = remove1 t (members k l)"
    using to_ready [OF assms] by blast
  moreover have "event_list (tcbs k1 t) = None"
    using calculation(1) None by (auto simp: remove_state_item_eq upd_defs)
  moreover have "(tcbs k t)\<lparr>state_list := Some (Ready (prio k t))\<rparr> = wake_tcb (tcbs k t)"
    using None by (simp add: wake_tcb_def)
  ultimately show thesis by (intro that [of k1 k1 k2]) auto
next
  case (Some e)
  from off_event [OF assms(1) Some] obtain k1' where e: "remove_event_item t k = Some k1'"
    "list_inv k1'" "same_clock k k1'" "kernel.more k1' = kernel.more k"
    "tcbs k1' = (tcbs k)(t := (tcbs k t)\<lparr>event_list := None\<rparr>)"
    "\<And>l'. l' \<noteq> e \<Longrightarrow> task_lists k1' l' = task_lists k l'" by blast
  obtain k2 k3 where r: "remove_state_item t k1' = Some k2" "prvAddTaskToReadyList t k2 = Some k3"
    "list_inv k3" "same_clock k1' k3" "kernel.more k3 = kernel.more k1'"
    "tcbs k3 = (tcbs k1')(t := (tcbs k1' t)\<lparr>state_list := Some (Ready (prio k1' t))\<rparr>)"
    "\<And>l'. l' \<noteq> l \<Longrightarrow> l' \<noteq> Ready (prio k1' t) \<Longrightarrow> task_lists k3 l' = task_lists k1' l'"
    "l \<noteq> Ready (prio k1' t) \<Longrightarrow> members k3 l = remove1 t (members k1' l)"
    using to_ready [of k1' t l] e assms(2) by auto
  obtain k1 where k1: "remove_state_item t k = Some k1" using assms(2) by (simp add: remove_state_item_def)
  have ok: "lists_ok k" using assms(1) by (simp add: list_inv_def)
  have "remove_event_item t k1 = Some k2"
    using remove_items_commute [OF ok Some k1 e(1)] r(1) by auto
  moreover have "event_list (tcbs k1 t) = Some e" using k1 Some by (auto simp: remove_state_item_eq upd_defs)
  moreover have "is_event_list e" "\<not> is_event_list l"
    using lists_ok_event [OF ok Some] lists_ok_state [OF ok assms(2)] by auto
  moreover have "tcbs k3 = (tcbs k)(t := wake_tcb (tcbs k t))" using r(6) e(5) by (simp add: wake_tcb_def)
  moreover have "task_lists k3 l' = task_lists k l'"
    if "l' \<noteq> l" "l' \<noteq> Ready (prio k t)" "\<not> is_event_list l'" for l'
    using r(7) [of l'] e(6) [of l'] e(5) that \<open>is_event_list e\<close> by auto
  moreover have "l \<noteq> e" using \<open>is_event_list e\<close> \<open>\<not> is_event_list l\<close> by auto
  then have "members k3 l = remove1 t (members k l)" if "l \<noteq> Ready (prio k t)"
    using r(8) e(6) [of l] e(5) that by simp
  ultimately show thesis
    using k1 r(2,3) same_clock_trans [OF e(3) r(4)] r(5) e(4) by (intro that [of k1 k2 k3]) simp_all
qed

section \<open>Ticks\<close>

text \<open>The tasks that the tick handler wakes, once the counter has its new value.\<close>

definition due :: "'z kernel_scheme \<Rightarrow> tid \<Rightarrow> bool" where
  "due k t \<longleftrightarrow>
     state_list (tcbs k t) = Some (pxDelayedTaskList k) \<and> state_value (tcbs k t) \<le> xTickCount k"

lemma sorted_head_le:
  "sorted (map f xs) \<Longrightarrow> xs = x # ys \<Longrightarrow> y \<in> set xs \<Longrightarrow> f x \<le> (f y :: 'a::linorder)"
  by auto

lemma delayed_sorted:
  "delayed_ok k \<Longrightarrow> sorted (map (\<lambda>t. state_value (tcbs k t)) (members k (pxDelayedTaskList k)))"
  by (simp add: delayed_ok_def)

lemma delayed_not_event: "delayed_ok k \<Longrightarrow> \<not> is_event_list (pxDelayedTaskList k)"
  using delayed_lists_distinct(2) [of k] by auto

lemma delayed_head:
  assumes "list_inv k" "members k (pxDelayedTaskList k) = t # ts"
  shows "state_list (tcbs k t) = Some (pxDelayedTaskList k)"
    "state_list (tcbs k u) = Some (pxDelayedTaskList k) \<Longrightarrow> state_value (tcbs k t) \<le> state_value (tcbs k u)"
proof -
  have ok: "lists_ok k" "delayed_ok k" using assms(1) by (auto simp: list_inv_def)
  note mem = state_member [OF ok(1) delayed_not_event [OF ok(2)]]
  show "state_list (tcbs k t) = Some (pxDelayedTaskList k)" using mem [of t] assms(2) by simp
  assume "state_list (tcbs k u) = Some (pxDelayedTaskList k)"
  then have "u \<in> set (members k (pxDelayedTaskList k))" using mem by simp
  then show "state_value (tcbs k t) \<le> state_value (tcbs k u)"
    using sorted_head_le [OF delayed_sorted [OF ok(2)] assms(2)] by simp
qed

lemma delayed_empty:
  assumes "list_inv k" "members k (pxDelayedTaskList k) = []"
  shows "state_list (tcbs k t) \<noteq> Some (pxDelayedTaskList k)"
  using assms state_member [of k "pxDelayedTaskList k" t] delayed_not_event [of k]
  by (auto simp: list_inv_def)

lemma set_next_unblock:
  assumes "list_inv k"
    "\<And>t. state_list (tcbs k t) = Some (pxDelayedTaskList k) \<Longrightarrow> v \<le> state_value (tcbs k t)"
  shows "list_inv (k\<lparr>xNextTaskUnblockTime := v\<rparr>)"
  using assms by (auto simp: list_inv_def lists_ok_def ready_ok_def delayed_ok_def)

lemma unblock_delayed_spec:
  assumes "list_inv k" "pxCurrentTCB k = Some c"
  shows "\<exists>sw' k'. unblock_delayed (xTickCount k) sw k = Some (sw', k') \<and> list_inv k' \<and> no_due k' \<and>
    same_clock k (k'\<lparr>xNextTaskUnblockTime := xNextTaskUnblockTime k\<rparr>) \<and>
    kernel.more k' = kernel.more k \<and>
    tcbs k' = (\<lambda>t. if due k t then wake_tcb (tcbs k t) else tcbs k t) \<and>
    (sw' \<longleftrightarrow> sw \<or> (\<exists>t. due k t \<and> prio k c < prio k t))"
  using assms
proof (induction "length (members k (pxDelayedTaskList k))" arbitrary: k sw)
  case 0
  then have e: "members k (pxDelayedTaskList k) = []" by simp
  note none = delayed_empty [OF 0(2) e]
  have "\<not> due k t" for t using none by (simp add: due_def)
  moreover have "list_inv (k\<lparr>xNextTaskUnblockTime := portMAX_DELAY\<rparr>)"
    using 0(2) none by (intro set_next_unblock) auto
  ultimately show ?case
    using none by (subst unblock_delayed.simps) (auto simp: e no_due_def same_clock_def)
next
  case (Suc n)
  then obtain t ts where m: "members k (pxDelayedTaskList k) = t # ts"
    by (cases "members k (pxDelayedTaskList k)") auto
  note hd = delayed_head [OF Suc(3) m]
  show ?case
  proof (cases "xTickCount k < state_value (tcbs k t)")
    case True
    then have "\<not> due k u" for u using hd(2) [of u] by (auto simp: due_def)
    moreover have "list_inv (k\<lparr>xNextTaskUnblockTime := state_value (tcbs k t)\<rparr>)"
      using Suc(3) hd by (intro set_next_unblock) auto
    moreover have "no_due k" using True hd(2) by (auto simp: no_due_def intro: less_le_trans)
    ultimately show ?thesis
      using True by (subst unblock_delayed.simps) (auto simp: m no_due_def same_clock_def)
  next
    case False
    obtain k1 k2 k3 where w: "remove_state_item t k = Some k1"
      "(if event_list (tcbs k1 t) \<noteq> None then remove_event_item t k1 else Some k1) = Some k2"
      "prvAddTaskToReadyList t k2 = Some k3" "list_inv k3" "same_clock k k3"
      "kernel.more k3 = kernel.more k" "tcbs k3 = (tcbs k)(t := wake_tcb (tcbs k t))"
      "\<And>l'. l' \<noteq> pxDelayedTaskList k \<Longrightarrow> l' \<noteq> Ready (prio k t) \<Longrightarrow> \<not> is_event_list l' \<Longrightarrow>
        task_lists k3 l' = task_lists k l'"
      "pxDelayedTaskList k \<noteq> Ready (prio k t) \<Longrightarrow>
        members k3 (pxDelayedTaskList k) = remove1 t (members k (pxDelayedTaskList k))"
      by (rule wake_item [OF Suc(3) hd(1)], rule that)
    have nr: "pxDelayedTaskList k \<noteq> Ready p" "Ready p \<noteq> pxDelayedTaskList k" for p
      using Suc(3) delayed_lists_distinct(2) [of k] by (auto simp: list_inv_def)
    note clk = same_clockD [OF w(5)]
    have len: "n = length (members k3 (pxDelayedTaskList k3))" using w(9) nr m Suc(2) by (simp add: clk)
    have c3: "pxCurrentTCB k3 = Some c" using Suc(4) by (simp add: clk)
    have due3: "due k u \<longleftrightarrow> u = t \<or> due k3 u" for u
      using False hd(1) nr by (auto simp: due_def w(7) clk)
    have p3: "prio k3 u = prio k u" for u by (simp add: w(7))
    have nt: "\<not> due k3 t" using nr by (auto simp: due_def w(7) clk)
    let ?sw = "prio k3 t > prio k3 c \<or> sw"
    from Suc(1) [OF len w(4) c3, of ?sw] obtain sw' k' where
      IH: "unblock_delayed (xTickCount k3) ?sw k3 = Some (sw', k')" "list_inv k'" "no_due k'"
        "same_clock k3 (k'\<lparr>xNextTaskUnblockTime := xNextTaskUnblockTime k3\<rparr>)"
        "kernel.more k' = kernel.more k3"
        "tcbs k' = (\<lambda>t. if due k3 t then wake_tcb (tcbs k3 t) else tcbs k3 t)"
        "sw' \<longleftrightarrow> ?sw \<or> (\<exists>u. due k3 u \<and> prio k3 c < prio k3 u)" by blast
    have "unblock_delayed (xTickCount k) sw k = Some (sw', k')"
      using IH(1) w(1-3) c3 False by (subst unblock_delayed.simps) (simp add: m clk)
    moreover have "tcbs k' = (\<lambda>t. if due k t then wake_tcb (tcbs k t) else tcbs k t)"
      using nt by (auto simp: IH(6) due3 w(7))
    moreover have "sw' \<longleftrightarrow> sw \<or> (\<exists>u. due k u \<and> prio k c < prio k u)"
      unfolding IH(7) due3 p3 by blast
    moreover have "same_clock k (k'\<lparr>xNextTaskUnblockTime := xNextTaskUnblockTime k\<rparr>)"
      using IH(4) w(5) by (simp add: same_clock_def)
    ultimately show ?thesis using IH w(6) by auto
  qed
qed

text \<open>A blocked task waits on one of the two delayed lists.\<close>

definition blocked :: "'z kernel_scheme \<Rightarrow> tid \<Rightarrow> bool" where
  "blocked k t \<longleftrightarrow> state_list (tcbs k t) = Some Delayed1 \<or> state_list (tcbs k t) = Some Delayed2"

definition expires :: "'z kernel_scheme \<Rightarrow> tid \<Rightarrow> bool" where
  "expires k t \<longleftrightarrow> blocked k t \<and> state_value (tcbs k t) = xTickCount k + 1"

definition same_task_count :: "'z kernel_scheme \<Rightarrow> 'z kernel_scheme \<Rightarrow> bool" where
  "same_task_count k k' \<longleftrightarrow>
     pxCurrentTCB k' = pxCurrentTCB k \<and> uxSchedulerSuspended k' = uxSchedulerSuspended k \<and>
     xPendedTicks k' = xPendedTicks k \<and> uxCurrentNumberOfTasks k' = uxCurrentNumberOfTasks k \<and>
     xYieldPending k' = xYieldPending k \<and> xSchedulerRunning k' = xSchedulerRunning k \<and>
     pendsv k' = pendsv k \<and> kernel.more k' = kernel.more k"

lemma blocked_delayed:
  "delayed_ok k \<Longrightarrow> blocked k t \<longleftrightarrow>
    state_list (tcbs k t) = Some (pxDelayedTaskList k) \<or> state_list (tcbs k t) = Some (pxOverflowDelayedTaskList k)"
  by (auto simp: blocked_def delayed_ok_def doubleton_eq_iff)

lemma word_Suc_le: "a + 1 \<noteq> (0 :: 'a::len word) \<Longrightarrow> a < v \<Longrightarrow> a + 1 \<le> v"
  by (metis add_diff_cancel_right' diff_add_cancel not_le word_less_imp_le_minus_one word_minus_one_less
      less_le_trans order.strict_trans1 order_less_irrefl)

lemma word_less_Suc: "a + 1 \<noteq> (0 :: 'a::len word) \<Longrightarrow> a < a + 1"
  using word_minus_one_less [of "a + 1"] by simp

lemma advance_clock:
  assumes "sched_inv k" "xTickCount k + 1 \<noteq> 0"
  shows "list_inv (k\<lparr>xTickCount := xTickCount k + 1\<rparr>)"
    "due (k\<lparr>xTickCount := xTickCount k + 1\<rparr>) t \<longleftrightarrow> expires k t"
proof -
  let ?k = "k\<lparr>xTickCount := xTickCount k + 1\<rparr>"
  have inv: "lists_ok k" "ready_ok k" "delayed_ok k" "no_due k" using assms(1) by (auto simp: inv_defs)
  have nd: "xTickCount k + 1 \<le> state_value (tcbs k u)"
    if "state_list (tcbs k u) = Some (pxDelayedTaskList k)" for u
    using inv(4) that word_Suc_le [OF assms(2)] by (auto simp: no_due_def)
  have ov: "state_value (tcbs k u) < xTickCount k + 1"
    if "state_list (tcbs k u) = Some (pxOverflowDelayedTaskList k)" for u
    using inv(3) that word_less_Suc [OF assms(2)] by (auto simp: delayed_ok_def intro: less_trans)
  show "list_inv ?k"
    using inv nd ov by (auto simp: list_inv_def lists_ok_def ready_ok_def delayed_ok_def)
  show "due ?k t \<longleftrightarrow> expires k t"
    using nd [of t] ov [of t] by (auto simp: due_def expires_def blocked_delayed [OF inv(3)])
qed

lemma reset_unblock:
  assumes "list_inv (k\<lparr>xNextTaskUnblockTime := 0\<rparr>)"
  obtains v where "prvResetNextTaskUnblockTime k = k\<lparr>xNextTaskUnblockTime := v\<rparr>"
    "list_inv (k\<lparr>xNextTaskUnblockTime := v\<rparr>)"
proof -
  let ?k = "k\<lparr>xNextTaskUnblockTime := 0\<rparr>"
  obtain v where v: "prvResetNextTaskUnblockTime k = k\<lparr>xNextTaskUnblockTime := v\<rparr>"
    "v = (case members k (pxDelayedTaskList k) of [] \<Rightarrow> portMAX_DELAY | t # _ \<Rightarrow> state_value (tcbs k t))"
    by (auto simp: prvResetNextTaskUnblockTime_def split: list.splits)
  have "v \<le> state_value (tcbs k t)" if "state_list (tcbs k t) = Some (pxDelayedTaskList k)" for t
    using that v(2) delayed_empty [OF assms] delayed_head(2) [OF assms, of _ _ t]
    by (cases "members k (pxDelayedTaskList k)") auto
  then have "list_inv (k\<lparr>xNextTaskUnblockTime := v\<rparr>)"
    using set_next_unblock [OF assms, of v] by simp
  with v(1) show thesis by (rule that)
qed

lemma wrap_clock:
  assumes "sched_inv k" "xTickCount k + 1 = 0"
  obtains k' where "taskSWITCH_DELAYED_LISTS (k\<lparr>xTickCount := 0\<rparr>) = Some k'"
    "list_inv k'" "\<And>t. due k' t \<longleftrightarrow> expires k t" "tcbs k' = tcbs k" "xTickCount k' = 0"
    "xNumOfOverflows k' = xNumOfOverflows k + 1" "same_task_count k k'"
proof -
  have inv: "lists_ok k" "ready_ok k" "delayed_ok k" "no_due k" "list_inv k"
    using assms(1) by (auto simp: inv_defs)
  have "xTickCount k = portMAX_DELAY"
    using assms(2) by (simp add: portMAX_DELAY_def add_eq_0_iff2)
  then have nd: "state_list (tcbs k t) \<noteq> Some (pxDelayedTaskList k)" for t
    using inv(4) by (auto simp: no_due_def)
  with state_member [OF inv(1) delayed_not_event [OF inv(3)]]
  have empty: "members k (pxDelayedTaskList k) = []" by (cases "members k (pxDelayedTaskList k)") auto
  let ?k = "k\<lparr>xTickCount := 0, pxDelayedTaskList := pxOverflowDelayedTaskList k,
    pxOverflowDelayedTaskList := pxDelayedTaskList k, xNumOfOverflows := xNumOfOverflows k + 1\<rparr>"
  have "list_inv (?k\<lparr>xNextTaskUnblockTime := 0\<rparr>)"
    using inv nd by (auto simp: list_inv_def lists_ok_def ready_ok_def delayed_ok_def)
  then obtain v where v: "prvResetNextTaskUnblockTime ?k = ?k\<lparr>xNextTaskUnblockTime := v\<rparr>"
    "list_inv (?k\<lparr>xNextTaskUnblockTime := v\<rparr>)" by (rule reset_unblock)
  show thesis
  proof (rule that [of "?k\<lparr>xNextTaskUnblockTime := v\<rparr>"])
    show "taskSWITCH_DELAYED_LISTS (k\<lparr>xTickCount := 0\<rparr>) = Some (?k\<lparr>xNextTaskUnblockTime := v\<rparr>)"
      using empty v(1) by (simp add: taskSWITCH_DELAYED_LISTS_def configASSERT_def)
    show "due (?k\<lparr>xNextTaskUnblockTime := v\<rparr>) t \<longleftrightarrow> expires k t" for t
      using nd [of t] by (auto simp: due_def expires_def blocked_delayed [OF inv(3)] assms(2))
  qed (use v(2) in \<open>auto simp: same_task_count_def\<close>)
qed

lemma xTaskIncrementTick_spec:
  assumes "sched_inv k" "uxSchedulerSuspended k = 0" "pxCurrentTCB k = Some c"
  obtains sw k' where "xTaskIncrementTick k = Some (sw, k')" "sched_inv k'"
    "xTickCount k' = xTickCount k + 1"
    "xNumOfOverflows k' = (if xTickCount k + 1 = 0 then xNumOfOverflows k + 1 else xNumOfOverflows k)"
    "tcbs k' = (\<lambda>t. if expires k t then wake_tcb (tcbs k t) else tcbs k t)" "same_task_count k k'"
    "sw \<longleftrightarrow> xYieldPending k \<or> (\<exists>t. expires k t \<and> prio k c < prio k t) \<or>
      length (members k' (Ready (prio k c))) > 1"
proof -
  let ?n = "xTickCount k + 1"
  obtain k1 where k1: "(if ?n = 0 then taskSWITCH_DELAYED_LISTS (k\<lparr>xTickCount := ?n\<rparr>)
      else Some (k\<lparr>xTickCount := ?n\<rparr>)) = Some k1"
    "list_inv k1" "\<And>t. due k1 t \<longleftrightarrow> expires k t" "tcbs k1 = tcbs k" "xTickCount k1 = ?n"
    "xNumOfOverflows k1 = (if ?n = 0 then xNumOfOverflows k + 1 else xNumOfOverflows k)"
    "same_task_count k k1"
  proof (cases "?n = 0")
    case True
    from wrap_clock [OF assms(1) True] that True show thesis by auto
  next
    case False
    from that [of "k\<lparr>xTickCount := ?n\<rparr>"] False advance_clock [OF assms(1) False] show thesis
      by (auto simp: same_task_count_def)
  qed
  note cnt = k1(7) [unfolded same_task_count_def]
  obtain sw k2 where k2: "(if ?n \<ge> xNextTaskUnblockTime k1 then unblock_delayed ?n False k1
      else Some (False, k1)) = Some (sw, k2)"
    "sched_inv k2" "tcbs k2 = (\<lambda>t. if expires k t then wake_tcb (tcbs k t) else tcbs k t)"
    "sw \<longleftrightarrow> (\<exists>t. expires k t \<and> prio k c < prio k t)"
    "xTickCount k2 = xTickCount k1" "xNumOfOverflows k2 = xNumOfOverflows k1" "same_task_count k k2"
  proof (cases "?n \<ge> xNextTaskUnblockTime k1")
    case True
    have "pxCurrentTCB k1 = Some c" using cnt assms(3) by simp
    from unblock_delayed_spec [OF k1(2) this, of False, unfolded k1(3-5)] obtain sw k2 where u:
      "unblock_delayed ?n False k1 = Some (sw, k2)" "list_inv k2" "no_due k2"
      "same_clock k1 (k2\<lparr>xNextTaskUnblockTime := xNextTaskUnblockTime k1\<rparr>)"
      "kernel.more k2 = kernel.more k1"
      "tcbs k2 = (\<lambda>t. if expires k t then wake_tcb (tcbs k t) else tcbs k t)"
      "sw \<longleftrightarrow> False \<or> (\<exists>t. expires k t \<and> prio k c < prio k t)" by blast
    moreover have "same_task_count k k2" using u(4,5) cnt by (simp add: same_clock_def same_task_count_def)
    moreover have "xTickCount k2 = xTickCount k1" "xNumOfOverflows k2 = xNumOfOverflows k1"
      using u(4) by (simp_all add: same_clock_def)
    moreover have "waiters_ok k2" using assms(1) by (auto simp: sched_inv_def waiters_ok_def u(6))
    ultimately show thesis using True by (intro that [of sw k2]) (simp_all add: sched_inv_def)
  next
    case False
    then have "no_due k1" using k1(2) unfolding no_due_def list_inv_def delayed_ok_def k1(5)
      by (auto intro: less_le_trans)
    moreover from this have "\<not> expires k t" for t
      by (auto simp: k1(3) [symmetric] due_def no_due_def dest: leD)
    moreover have "waiters_ok k1" using assms(1) by (auto simp: sched_inv_def waiters_ok_def k1(4))
    ultimately show thesis using that [of False k1] False k1 by (auto simp: sched_inv_def)
  qed
  have "pxCurrentTCB k2 = Some c" using k2(7) assms(3) by (simp add: same_task_count_def)
  moreover have "prio k2 c = prio k c" by (simp add: k2(3))
  moreover have "xYieldPending k2 = xYieldPending k" using k2(7) by (simp add: same_task_count_def)
  ultimately have "xTaskIncrementTick k = Some ((sw \<or> length (members k2 (Ready (prio k c))) > 1) \<or> xYieldPending k, k2)"
    using assms(2) k1(1) k2(1)
    by (auto simp: xTaskIncrementTick_def Let_def split: if_splits)
  with k2 k1 show thesis by (intro that) auto
qed

section \<open>Blocking the running task\<close>

text \<open>Where \<open>prvAddCurrentTaskToDelayedList\<close> leaves the control block of the running task.\<close>

definition parked :: "TickType_t \<Rightarrow> bool \<Rightarrow> 'z kernel_scheme \<Rightarrow> tcb \<Rightarrow> tcb" where
  "parked n indef k b =
     (if n = portMAX_DELAY \<and> indef then b\<lparr>state_list := Some SuspendedTaskList\<rparr>
      else b\<lparr>state_value := xTickCount k + n,
             state_list := Some (if xTickCount k + n < xTickCount k
                                 then pxOverflowDelayedTaskList k else pxDelayedTaskList k)\<rparr>)"

lemma delayed_insert:
  assumes "list_inv k" "state_list (tcbs k c) = None"
    and "pxDelayedTaskList k = l \<Longrightarrow> xTickCount k \<le> v" "pxOverflowDelayedTaskList k = l \<Longrightarrow> v < xTickCount k"
    and "l \<in> {Delayed1, Delayed2}"
    and "x = (if pxDelayedTaskList k = l \<and> v < xNextTaskUnblockTime k then v else xNextTaskUnblockTime k)"
    and "prio k c < configMAX_PRIORITIES" "uxBasePriority (tcbs k c) < configMAX_PRIORITIES"
  shows "list_inv ((insert_state l c (upd_tcb c (\<lambda>b. b\<lparr>state_value := v\<rparr>) k))\<lparr>xNextTaskUnblockTime := x\<rparr>)"
proof -
  let ?k1 = "upd_tcb c (\<lambda>b. b\<lparr>state_value := v\<rparr>) k"
  let ?k = "(insert_state l c ?k1)\<lparr>xNextTaskUnblockTime := x\<rparr>"
  have inv: "lists_ok k" "ready_ok k" "delayed_ok k" using assms(1) by (auto simp: list_inv_def)
  have ne: "\<not> is_event_list l" "\<And>p. l \<noteq> Ready p" using assms(5) by auto
  have "lists_ok ?k1" using inv(1) by (auto simp: lists_ok_def upd_defs)
  then have "lists_ok (insert_state l c ?k1)"
    by (rule lists_ok_insert_state) (use assms(2) ne in \<open>auto simp: upd_defs\<close>)
  then have l: "lists_ok ?k" by (simp add: lists_ok_def)
  have r: "ready_ok ?k" using inv(2) ne(2) assms(7,8) by (auto simp: ready_ok_def insert_state_def upd_defs)
  have srt: "sorted (map (\<lambda>t. state_value (tcbs ?k t)) (members ?k l'))" if "l' \<in> {Delayed1, Delayed2}" for l'
  proof -
    have "c \<notin> set (members k l')" using state_member [OF inv(1), of l' c] that assms(2) by auto
    then have eq: "map (\<lambda>t. state_value (tcbs ?k1 t)) (members k l') = map (\<lambda>t. state_value (tcbs k t)) (members k l')"
      by (auto simp: upd_defs)
    have "sorted (map (\<lambda>t. state_value (tcbs k t)) (members k l'))"
      using inv(3) that by (auto simp: delayed_ok_def doubleton_eq_iff)
    then have "sorted (map (\<lambda>t. state_value (tcbs ?k1 t)) (members k l'))" by (simp only: eq)
    moreover have "(\<lambda>t. state_value (tcbs ?k t)) = (\<lambda>t. state_value (tcbs ?k1 t))"
      by (auto simp: insert_state_def upd_defs)
    moreover have "task_lists ?k l' =
      (if l' = l then kl_insert (\<lambda>t. state_value (tcbs ?k1 t)) c (task_lists k l') else task_lists k l')"
      by (simp add: insert_state_def upd_defs)
    ultimately show ?thesis using kl_insert_sorted by (cases "l' = l") (simp_all only: if_True if_False simp_thms)
  qed
  have "delayed_ok ?k"
    using inv(3) delayed_lists_distinct [OF inv(3)] assms(3-6) srt
    by (simp add: delayed_ok_def insert_state_def upd_defs) (auto intro: less_imp_le order.trans)
  with l r show ?thesis by (simp add: list_inv_def)
qed

lemma clock_fields [simp]:
  "xTickCount (upd_tcb t f k) = xTickCount k" "xTickCount (upd_list l g k) = xTickCount k"
  "pxDelayedTaskList (upd_tcb t f k) = pxDelayedTaskList k"
  "pxDelayedTaskList (upd_list l g k) = pxDelayedTaskList k"
  "pxOverflowDelayedTaskList (upd_tcb t f k) = pxOverflowDelayedTaskList k"
  "pxOverflowDelayedTaskList (upd_list l g k) = pxOverflowDelayedTaskList k"
  "xNextTaskUnblockTime (upd_tcb t f k) = xNextTaskUnblockTime k"
  "xNextTaskUnblockTime (upd_list l g k) = xNextTaskUnblockTime k"
  "xNextTaskUnblockTime (insert_state l t k) = xNextTaskUnblockTime k"
  by (simp_all add: upd_defs insert_state_def)

lemma next_unblock_same: "xNextTaskUnblockTime k = v \<Longrightarrow> k\<lparr>xNextTaskUnblockTime := v\<rparr> = k"
  by auto

lemma delay_current:
  assumes "list_inv k" "pxCurrentTCB k = Some c" "state_list (tcbs k c) = Some l" "n \<noteq> 0" "no_due k"
    and w: "\<And>t. t \<noteq> c \<Longrightarrow> event_list (tcbs k t) \<noteq> None \<Longrightarrow>
      state_list (tcbs k t) \<in> {Some Delayed1, Some Delayed2, Some SuspendedTaskList}"
  obtains k' where "prvAddCurrentTaskToDelayedList n indef k = Some k'" "sched_inv k'"
    "tcbs k' = (tcbs k)(c := parked n indef k (tcbs k c))"
    "same_clock k (k'\<lparr>xNextTaskUnblockTime := xNextTaskUnblockTime k\<rparr>)" "kernel.more k' = kernel.more k"
    "uxTopReadyPriority k' = uxTopReadyPriority k"
    "\<And>l'. is_event_list l' \<Longrightarrow> task_lists k' l' = task_lists k l'"
proof -
  have inv: "lists_ok k" "ready_ok k" "delayed_ok k" "no_due k"
    using assms(1,5) by (auto simp: list_inv_def)
  let ?k1 = "upd_tcb c (\<lambda>b. b\<lparr>state_list := None\<rparr>) (upd_list l (kl_remove c) k)"
  have rm: "remove_state_item c k = Some ?k1" by (simp add: remove_state_item_eq assms(3))
  have ne: "\<not> is_event_list l" using lists_ok_state [OF inv(1) assms(3)] .
  have l1: "lists_ok ?k1" by (rule lists_ok_remove_state [OF inv(1) assms(3)])
  have r1: "ready_ok ?k1" using inv(2) by (auto simp: ready_ok_def upd_defs)
  have d1: "delayed_ok ?k1"
    using inv(3) by (rule delayed_ok_frame) (auto simp: upd_defs kl_remove_def split: if_splits)
  have pr: "prio k c < configMAX_PRIORITIES" "uxBasePriority (tcbs k c) < configMAX_PRIORITIES"
    using inv(2) assms(3) by (auto simp: ready_ok_def)
  show thesis
  proof (cases "n = portMAX_DELAY \<and> indef")
    case True
    let ?k' = "insert_end_state SuspendedTaskList c ?k1"
    have "lists_ok ?k'" by (rule lists_ok_insert_end_state [OF l1]) (auto simp: upd_defs)
    moreover have "ready_ok ?k'" using inv(2) pr by (auto simp: ready_ok_def insert_end_state_def upd_defs)
    moreover have "delayed_ok ?k'"
      using d1 by (rule delayed_ok_frame) (auto simp: insert_end_state_def upd_defs split: if_splits)
    moreover have "no_due ?k'" "waiters_ok ?k'"
      using inv(4) w delayed_lists_distinct [OF inv(3)]
      by (auto simp: no_due_def waiters_ok_def insert_end_state_def upd_defs)
    ultimately have "sched_inv ?k'" by (simp add: sched_inv_def list_inv_def)
    then show thesis
      using True rm assms(2) ne
      by (intro that [of ?k'])
        (auto simp: prvAddCurrentTaskToDelayedList_def parked_def same_clock_def insert_end_state_def upd_defs)
  next
    case False
    let ?v = "xTickCount k + n"
    let ?l = "if ?v < xTickCount k then pxOverflowDelayedTaskList k else pxDelayedTaskList k"
    let ?x = "if \<not> ?v < xTickCount k \<and> ?v < xNextTaskUnblockTime k then ?v else xNextTaskUnblockTime k"
    let ?k' = "(insert_state ?l c (upd_tcb c (\<lambda>b. b\<lparr>state_value := ?v\<rparr>) ?k1))\<lparr>xNextTaskUnblockTime := ?x\<rparr>"
    have ll: "?l \<in> {Delayed1, Delayed2}" using delayed_lists_distinct [OF inv(3)] by auto
    have li: "list_inv ?k'"
    proof (rule delayed_insert)
      show "list_inv ?k1" using l1 r1 d1 by (simp add: list_inv_def)
    qed (use ll pr delayed_lists_distinct(1) [OF inv(3)] in \<open>auto simp: upd_defs split: if_splits\<close>)
    have v: "\<not> ?v < xTickCount k \<Longrightarrow> xTickCount k < ?v" using assms(4) by (simp add: order_less_le not_less)
    have "no_due ?k'" "waiters_ok ?k'"
      using inv(4) w delayed_lists_distinct [OF inv(3)] v
      by (auto simp: no_due_def waiters_ok_def insert_state_def upd_defs)
    with li have "sched_inv ?k'" by (simp add: sched_inv_def)
    moreover have "prvAddCurrentTaskToDelayedList n indef k = Some ?k'"
      using False rm assms(2)
      by (auto simp: prvAddCurrentTaskToDelayedList_def Let_def next_unblock_same)
    moreover have "\<not> is_event_list ?l" using ll by auto
    ultimately show thesis
      using False ne by (intro that [of ?k']) (auto simp: parked_def same_clock_def insert_state_def upd_defs)
  qed
qed

end
