(* ===== verification/Scheduler_Ops.thy ===== *)
theory Scheduler_Ops
  imports Scheduler
begin

text \<open>
  The operations of the scheduler that tasks and kernel objects call: suspending and resuming
  the scheduler, delays, event lists, priorities. Each is shown to succeed and to keep the
  invariant of theory \<open>Scheduler\<close>, with its effect on the control blocks spelled out.
\<close>

section \<open>Pending tasks and resuming the scheduler\<close>

lemma wake_waiter:
  assumes "list_inv k" "state_list (tcbs k t) = Some l" "event_list (tcbs k t) = Some e"
  obtains k1 k2 k3 where "remove_event_item t k = Some k1" "remove_state_item t k1 = Some k2"
    "prvAddTaskToReadyList t k2 = Some k3" "list_inv k3" "same_clock k k3"
    "kernel.more k3 = kernel.more k" "tcbs k3 = (tcbs k)(t := wake_tcb (tcbs k t))"
    "members k3 e = remove1 t (members k e)"
    "\<And>l'. l' \<noteq> l \<Longrightarrow> l' \<noteq> Ready (prio k t) \<Longrightarrow> l' \<noteq> e \<Longrightarrow> task_lists k3 l' = task_lists k l'"
proof -
  obtain k1 where e: "remove_event_item t k = Some k1" "list_inv k1" "same_clock k k1"
    "kernel.more k1 = kernel.more k" "uxTopReadyPriority k1 = uxTopReadyPriority k"
    "tcbs k1 = (tcbs k)(t := (tcbs k t)\<lparr>event_list := None\<rparr>)"
    "\<And>l'. l' \<noteq> e \<Longrightarrow> task_lists k1 l' = task_lists k l'" "members k1 e = remove1 t (members k e)"
    by (rule off_event [OF assms(1,3)], rule that)
  have st: "state_list (tcbs k1 t) = Some l" using assms(2) by (simp add: e(6))
  obtain k2 k3 where r: "remove_state_item t k1 = Some k2" "prvAddTaskToReadyList t k2 = Some k3"
    "list_inv k3" "same_clock k1 k3" "kernel.more k3 = kernel.more k1"
    "tcbs k3 = (tcbs k1)(t := (tcbs k1 t)\<lparr>state_list := Some (Ready (prio k1 t))\<rparr>)"
    "\<And>l'. l' \<noteq> l \<Longrightarrow> l' \<noteq> Ready (prio k1 t) \<Longrightarrow> task_lists k3 l' = task_lists k1 l'"
    "l \<noteq> Ready (prio k1 t) \<Longrightarrow> members k3 l = remove1 t (members k1 l)"
    by (rule to_ready [OF e(2) st], rule that)
  have ok: "lists_ok k" using assms(1) by (simp add: list_inv_def)
  have "e \<noteq> l" "e \<noteq> Ready (prio k1 t)"
    using lists_ok_event [OF ok assms(3)] lists_ok_state [OF ok assms(2)] by auto
  then have "members k3 e = remove1 t (members k e)" using r(7) [of e] e(8) by simp
  moreover have "tcbs k3 = (tcbs k)(t := wake_tcb (tcbs k t))" by (simp add: r(6) e(6) wake_tcb_def)
  moreover have "task_lists k3 l' = task_lists k l'"
    if "l' \<noteq> l" "l' \<noteq> Ready (prio k t)" "l' \<noteq> e" for l'
    using r(7) [of l'] e(7) [of l'] that by (simp add: e(6))
  ultimately show thesis
    using that [OF e(1) r(1-3) same_clock_trans [OF e(3) r(4)]] r(5) e(4) by simp
qed

text \<open>The tasks that were readied while the scheduler was suspended.\<close>

definition pending :: "'z kernel_scheme \<Rightarrow> tid \<Rightarrow> bool" where
  "pending k t \<longleftrightarrow> event_list (tcbs k t) = Some PendingReadyList"

lemma sched_inv_wake:
  assumes "sched_inv k" "list_inv k'" "same_clock k k'" "tcbs k' = (tcbs k)(t := wake_tcb (tcbs k t))"
  shows "sched_inv k'"
proof -
  have inv: "no_due k" "waiters_ok k" "delayed_ok k" using assms(1) by (auto simp: inv_defs)
  have "pxDelayedTaskList k \<noteq> Ready (prio k t)" using delayed_lists_distinct(2) [OF inv(3)] by auto
  then have "no_due k'"
    using inv(1) assms(3) by (intro no_due_frame [of k k']) (auto simp: assms(4) split: if_splits)
  moreover have "waiters_ok k'" using inv(2) by (auto simp: waiters_ok_def assms(4))
  ultimately show ?thesis using assms(2) by (simp add: sched_inv_def)
qed

lemma waiter_state:
  assumes "sched_inv k" "event_list (tcbs k t) = Some e"
  obtains l where "state_list (tcbs k t) = Some l" "l \<in> {Delayed1, Delayed2, SuspendedTaskList}"
  using assms by (auto simp: sched_inv_def waiters_ok_def)

lemma sched_inv_yield [simp]:
  "sched_inv (k\<lparr>xYieldPending := b\<rparr>) = sched_inv k" "sched_inv (k\<lparr>pendsv := b\<rparr>) = sched_inv k"
  "sched_inv (k\<lparr>uxSchedulerSuspended := n\<rparr>) = sched_inv k"
  "sched_inv (k\<lparr>xPendedTicks := m\<rparr>) = sched_inv k"
  by (simp_all add: inv_defs lists_ok_def ready_ok_def delayed_ok_def)

lemma drain_pending_spec:
  assumes "sched_inv k" "pxCurrentTCB k = Some c"
  shows "\<exists>moved k'. drain_pending m k = Some (moved, k') \<and> sched_inv k' \<and>
    same_clock k (k'\<lparr>xYieldPending := xYieldPending k\<rparr>) \<and> kernel.more k' = kernel.more k \<and>
    tcbs k' = (\<lambda>t. if pending k t then wake_tcb (tcbs k t) else tcbs k t) \<and>
    (xYieldPending k' \<longleftrightarrow> xYieldPending k \<or> (\<exists>t. pending k t \<and> prio k c \<le> prio k t))"
  using assms
proof (induction "length (members k PendingReadyList)" arbitrary: k m)
  case 0
  then have "members k PendingReadyList = []" by simp
  moreover from this 0(2) have "\<not> pending k t" for t
    using event_member [of k PendingReadyList t] by (auto simp: pending_def inv_defs)
  ultimately show ?case using 0 by (subst drain_pending.simps) (simp add: same_clock_def)
next
  case (Suc n)
  then obtain t ts where m: "members k PendingReadyList = t # ts"
    by (cases "members k PendingReadyList") auto
  have li: "list_inv k" and ok: "lists_ok k" using Suc(3) by (auto simp: inv_defs)
  have ev: "event_list (tcbs k t) = Some PendingReadyList"
    using event_member [OF ok, of PendingReadyList t] m by simp
  obtain l where st: "state_list (tcbs k t) = Some l" by (rule waiter_state [OF Suc(3) ev])
  obtain k1 k2 k3 where w: "remove_event_item t k = Some k1" "remove_state_item t k1 = Some k2"
    "prvAddTaskToReadyList t k2 = Some k3" "list_inv k3" "same_clock k k3"
    "kernel.more k3 = kernel.more k" "tcbs k3 = (tcbs k)(t := wake_tcb (tcbs k t))"
    "members k3 PendingReadyList = remove1 t (members k PendingReadyList)"
    by (rule wake_waiter [OF li st ev]) blast
  let ?k = "if prio k3 t \<ge> prio k3 c then k3\<lparr>xYieldPending := True\<rparr> else k3"
  note clk = same_clockD [OF w(5)]
  have inv3: "sched_inv ?k" using sched_inv_wake [OF Suc(3) w(4,5,7)] by simp
  have len: "n = length (members ?k PendingReadyList)" using w(8) m Suc(2) by simp
  have c3: "pxCurrentTCB ?k = Some c" using Suc(4) by (simp add: clk)
  have p3: "prio ?k u = prio k u" for u by (simp add: w(7))
  have pend3: "pending k u \<longleftrightarrow> u = t \<or> pending ?k u" "\<not> pending ?k t" for u
    using ev by (auto simp: pending_def w(7))
  from Suc(1) [OF len inv3 c3, of True] obtain moved k' where
    IH: "drain_pending True ?k = Some (moved, k')" "sched_inv k'"
      "same_clock ?k (k'\<lparr>xYieldPending := xYieldPending ?k\<rparr>)" "kernel.more k' = kernel.more ?k"
      "tcbs k' = (\<lambda>t. if pending ?k t then wake_tcb (tcbs ?k t) else tcbs ?k t)"
      "xYieldPending k' \<longleftrightarrow> xYieldPending ?k \<or> (\<exists>u. pending ?k u \<and> prio ?k c \<le> prio ?k u)" by blast
  have "drain_pending m k = Some (moved, k')"
    using w(1-3) IH(1) c3 by (subst drain_pending.simps) (simp add: m split: if_splits)
  moreover have "tcbs ?k = tcbs k3" by simp
  then have "tcbs k' = (\<lambda>t. if pending k t then wake_tcb (tcbs k t) else tcbs k t)"
    unfolding IH(5) using pend3(2) by (auto simp: pend3(1) w(7))
  moreover have "xYieldPending ?k \<longleftrightarrow> xYieldPending k \<or> prio k c \<le> prio k t"
    by (simp add: clk w(7))
  then have "xYieldPending k' \<longleftrightarrow> xYieldPending k \<or> (\<exists>u. pending k u \<and> prio k c \<le> prio k u)"
    unfolding IH(6) p3 pend3(1) by blast
  moreover have "same_clock k (k'\<lparr>xYieldPending := xYieldPending k\<rparr>)"
    using IH(3) w(5) by (simp add: same_clock_def split: if_splits)
  moreover have "kernel.more k' = kernel.more k" using IH(4) w(6) by simp
  ultimately show ?case using IH(2) by blast
qed

section \<open>Replaying ticks\<close>

text \<open>The number of ticks that a blocked task still has to wait.\<close>

definition remaining :: "'z kernel_scheme \<Rightarrow> tid \<Rightarrow> nat" where
  "remaining k t = unat (state_value (tcbs k t) - xTickCount k)"

lemma remaining_pos:
  assumes "sched_inv k" "blocked k t"
  shows "remaining k t > 0"
proof -
  have "delayed_ok k" using assms(1) by (simp add: inv_defs)
  with assms have "state_value (tcbs k t) \<noteq> xTickCount k"
    by (auto simp: blocked_delayed inv_defs delayed_ok_def)
  then show ?thesis by (simp add: remaining_def unat_gt_0)
qed

lemma expires_remaining: "expires k t \<longleftrightarrow> blocked k t \<and> remaining k t = 1"
proof -
  have "remaining k t = 1 \<longleftrightarrow> state_value (tcbs k t) - xTickCount k = 1"
    by (simp add: remaining_def word_unat_eq_iff)
  then show ?thesis by (auto simp: expires_def algebra_simps)
qed

lemma remaining_tick:
  assumes "xTickCount k' = xTickCount k + 1" "state_value (tcbs k' t) = state_value (tcbs k t)"
    "remaining k t > 0"
  shows "remaining k' t = remaining k t - 1"
proof -
  have "state_value (tcbs k' t) - xTickCount k' = (state_value (tcbs k t) - xTickCount k) - 1"
    using assms(1,2) by simp
  moreover have "state_value (tcbs k t) - xTickCount k \<noteq> 0" using assms(3) by (auto simp: remaining_def)
  ultimately show ?thesis using unat_minus_one by (metis remaining_def)
qed

lemma not_blocked_wake [simp]:
  "tcbs k' t = wake_tcb b \<Longrightarrow> \<not> blocked k' t"
  by (simp add: blocked_def)

definition task_frame :: "'z kernel_scheme \<Rightarrow> 'z kernel_scheme \<Rightarrow> bool" where
  "task_frame k k' \<longleftrightarrow>
     pxCurrentTCB k' = pxCurrentTCB k \<and> uxSchedulerSuspended k' = uxSchedulerSuspended k \<and>
     uxCurrentNumberOfTasks k' = uxCurrentNumberOfTasks k \<and>
     xSchedulerRunning k' = xSchedulerRunning k \<and> kernel.more k' = kernel.more k"

lemma task_frame_refl [simp]: "task_frame k k"
  by (simp add: task_frame_def)

lemma task_frame_trans: "task_frame a b \<Longrightarrow> task_frame b c \<Longrightarrow> task_frame a c"
  by (simp add: task_frame_def)

lemma replay_ticks_spec:
  assumes "sched_inv k" "uxSchedulerSuspended k = 0" "pxCurrentTCB k = Some c"
  shows "\<exists>k'. replay_ticks n k = Some k' \<and> sched_inv k' \<and> task_frame k k' \<and>
    xTickCount k' = xTickCount k + of_nat n \<and>
    tcbs k' = (\<lambda>t. if blocked k t \<and> remaining k t \<le> n then wake_tcb (tcbs k t) else tcbs k t) \<and>
    (xYieldPending k \<longrightarrow> xYieldPending k')"
  using assms
proof (induction n arbitrary: k)
  case 0
  then show ?case using remaining_pos [OF 0(1)] by fastforce
next
  case (Suc n)
  obtain sw k1 where t: "xTaskIncrementTick k = Some (sw, k1)" "sched_inv k1"
    "xTickCount k1 = xTickCount k + 1"
    "xNumOfOverflows k1 = (if xTickCount k + 1 = 0 then xNumOfOverflows k + 1 else xNumOfOverflows k)"
    "tcbs k1 = (\<lambda>t. if expires k t then wake_tcb (tcbs k t) else tcbs k t)" "same_task_count k k1"
    "sw \<longleftrightarrow> xYieldPending k \<or> (\<exists>t. expires k t \<and> prio k c < prio k t) \<or>
      length (members k1 (Ready (prio k c))) > 1"
    by (rule xTaskIncrementTick_spec [OF Suc(2-4)])
  let ?k = "if sw then k1\<lparr>xYieldPending := True\<rparr> else k1"
  have f: "task_frame k ?k" "pxCurrentTCB ?k = Some c" "uxSchedulerSuspended ?k = 0" "sched_inv ?k"
    "tcbs ?k = tcbs k1" "xTickCount ?k = xTickCount k1" "xYieldPending k \<Longrightarrow> xYieldPending ?k"
    using t(2,6,7) Suc(3,4) by (auto simp: task_frame_def same_task_count_def)
  from Suc(1) [OF f(4,3,2)] obtain k' where IH: "replay_ticks n ?k = Some k'" "sched_inv k'"
    "task_frame ?k k'" "xTickCount k' = xTickCount ?k + of_nat n"
    "tcbs k' = (\<lambda>t. if blocked ?k t \<and> remaining ?k t \<le> n then wake_tcb (tcbs ?k t) else tcbs ?k t)"
    "xYieldPending ?k \<longrightarrow> xYieldPending k'" by blast
  have "tcbs k' t = (if blocked k t \<and> remaining k t \<le> Suc n then wake_tcb (tcbs k t) else tcbs k t)" for t
  proof (cases "expires k t")
    case True
    then have "tcbs ?k t = wake_tcb (tcbs k t)" by (simp add: t(5))
    moreover from this have "\<not> blocked ?k t" by (rule not_blocked_wake)
    ultimately show ?thesis using True by (simp add: IH(5) expires_remaining)
  next
    case False
    then have same: "tcbs ?k t = tcbs k t" by (simp add: t(5))
    then have b: "blocked ?k t = blocked k t" by (simp add: blocked_def)
    show ?thesis
    proof (cases "blocked k t")
      case True
      have "remaining ?k t = remaining k t - 1" "remaining k t \<noteq> 1"
        using remaining_tick [of ?k k t] remaining_pos [OF Suc(2) True] same t(3) f(6) False True
        by (auto simp: expires_remaining)
      with remaining_pos [OF Suc(2) True] have "remaining ?k t \<le> n \<longleftrightarrow> remaining k t \<le> Suc n" by linarith
      then show ?thesis by (simp only: IH(5) b same)
    qed (simp only: IH(5) b same simp_thms if_False)
  qed
  moreover have "replay_ticks (Suc n) k = Some k'" using t(1) IH(1) by simp
  moreover have "xTickCount k' = xTickCount k + of_nat (Suc n)" using IH(4) f(6) t(3) by simp
  ultimately show ?case using IH(2,6) f(7) task_frame_trans [OF f(1) IH(3)] by blast
qed

lemma reset_sched:
  assumes "sched_inv k"
  obtains v where "prvResetNextTaskUnblockTime k = k\<lparr>xNextTaskUnblockTime := v\<rparr>"
    "sched_inv (k\<lparr>xNextTaskUnblockTime := v\<rparr>)"
proof -
  have "list_inv (k\<lparr>xNextTaskUnblockTime := 0\<rparr>)"
    using assms by (auto simp: sched_inv_def intro: set_next_unblock)
  then obtain v where "prvResetNextTaskUnblockTime k = k\<lparr>xNextTaskUnblockTime := v\<rparr>"
    "list_inv (k\<lparr>xNextTaskUnblockTime := v\<rparr>)" by (rule reset_unblock)
  with assms show thesis by (intro that) (auto simp: sched_inv_def no_due_def waiters_ok_def)
qed

section \<open>Resuming the scheduler\<close>

definition caught_up :: "'z kernel_scheme \<Rightarrow> tid \<Rightarrow> tcb" where
  "caught_up k t =
     (if pending k t \<or> blocked k t \<and> remaining k t \<le> unat (xPendedTicks k)
      then wake_tcb (tcbs k t) else tcbs k t)"

lemma xTaskResumeAll_spec:
  assumes "sched_inv k" "uxSchedulerSuspended k = 1" "pxCurrentTCB k = Some c" "uxCurrentNumberOfTasks k > 0"
  obtains y k' where "xTaskResumeAll k = Some (y, k')" "sched_inv k'" "uxSchedulerSuspended k' = 0"
    "pxCurrentTCB k' = Some c" "kernel.more k' = kernel.more k" "xPendedTicks k' = 0"
    "uxCurrentNumberOfTasks k' = uxCurrentNumberOfTasks k" "xSchedulerRunning k' = xSchedulerRunning k"
    "xTickCount k' = xTickCount k + xPendedTicks k" "tcbs k' = caught_up k"
    "y \<longleftrightarrow> xYieldPending k'" "y \<longrightarrow> pendsv k'"
    "xYieldPending k \<or> (\<exists>t. pending k t \<and> prio k c \<le> prio k t) \<longrightarrow> y"
proof -
  let ?k0 = "k\<lparr>uxSchedulerSuspended := 0\<rparr>"
  have "sched_inv ?k0" "pxCurrentTCB ?k0 = Some c" using assms(1,3) by auto
  from drain_pending_spec [OF this, of False] obtain m k1 where d: "drain_pending False ?k0 = Some (m, k1)"
    "sched_inv k1" "same_clock ?k0 (k1\<lparr>xYieldPending := xYieldPending ?k0\<rparr>)"
    "kernel.more k1 = kernel.more ?k0"
    "tcbs k1 = (\<lambda>t. if pending ?k0 t then wake_tcb (tcbs ?k0 t) else tcbs ?k0 t)"
    "xYieldPending k1 \<longleftrightarrow> xYieldPending ?k0 \<or> (\<exists>t. pending ?k0 t \<and> prio ?k0 c \<le> prio ?k0 t)" by blast
  obtain x where x: "prvResetNextTaskUnblockTime k1 = k1\<lparr>xNextTaskUnblockTime := x\<rparr>"
    "sched_inv (k1\<lparr>xNextTaskUnblockTime := x\<rparr>)" by (rule reset_sched [OF d(2)])
  define k2 where "k2 = (if m then k1\<lparr>xNextTaskUnblockTime := x\<rparr> else k1)"
  have k2_reset: "(if m then prvResetNextTaskUnblockTime k1 else k1) = k2" by (simp add: k2_def x(1))
  have pend0: "pending ?k0 = pending k" by (auto simp: pending_def)
  have k2: "sched_inv k2" "uxSchedulerSuspended k2 = 0" "pxCurrentTCB k2 = Some c"
    "xPendedTicks k2 = xPendedTicks k" "tcbs k2 = tcbs k1" "xTickCount k2 = xTickCount k"
    "kernel.more k2 = kernel.more k" "uxCurrentNumberOfTasks k2 = uxCurrentNumberOfTasks k"
    "xSchedulerRunning k2 = xSchedulerRunning k" "xYieldPending k2 = xYieldPending k1"
    using x(2) d(2,3,4) assms(2,3) by (simp_all add: same_clock_def k2_def)
  from replay_ticks_spec [OF k2(1-3), of "unat (xPendedTicks k)"] obtain k3 where
    r: "replay_ticks (unat (xPendedTicks k)) k2 = Some k3" "sched_inv k3" "task_frame k2 k3"
    "xTickCount k3 = xTickCount k2 + of_nat (unat (xPendedTicks k))"
    "tcbs k3 = (\<lambda>t. if blocked k2 t \<and> remaining k2 t \<le> unat (xPendedTicks k)
       then wake_tcb (tcbs k2 t) else tcbs k2 t)"
    "xYieldPending k2 \<longrightarrow> xYieldPending k3" by blast
  have t3: "tcbs k3 = caught_up k"
  proof
    fix t
    show "tcbs k3 t = caught_up k t"
    proof (cases "pending k t")
      case True
      then have "tcbs k2 t = wake_tcb (tcbs k t)" by (simp only: k2(5) d(5) pend0) simp
      moreover from this have "\<not> blocked k2 t" by (rule not_blocked_wake)
      ultimately show ?thesis using True by (simp only: r(5) caught_up_def simp_thms if_True if_False)
    next
      case False
      then have e: "tcbs k2 t = tcbs k t" by (simp only: k2(5) d(5) pend0) simp
      then have "blocked k2 t = blocked k t" "remaining k2 t = remaining k t"
        using k2(6) by (simp_all only: blocked_def remaining_def)
      with e False show ?thesis by (simp only: r(5) caught_up_def simp_thms)
    qed
  qed
  obtain k4 where k4: "(if xPendedTicks k2 > 0 then do {
      k \<leftarrow> replay_ticks (unat (xPendedTicks k2)) k2; Some (k\<lparr>xPendedTicks := 0\<rparr>) } else Some k2) = Some k4"
    "sched_inv k4" "tcbs k4 = caught_up k" "xTickCount k4 = xTickCount k + xPendedTicks k"
    "xPendedTicks k4 = 0" "task_frame k2 k4" "xYieldPending k2 \<longrightarrow> xYieldPending k4"
  proof (cases "xPendedTicks k = 0")
    case True
    with r(1) have "k3 = k2" by simp
    with r(2-6) t3 True k2(4,6) show thesis by (intro that [of k3]) simp_all
  next
    case False
    with r t3 k2(4,6) show thesis
      by (intro that [of "k3\<lparr>xPendedTicks := 0\<rparr>"]) (simp_all add: task_frame_def word_gt_0)
  qed
  let ?k' = "if xYieldPending k4 then portYIELD k4 else k4"
  have "xTaskResumeAll k = Some (xYieldPending k4, ?k')"
    using k4(1)
    by (cases "0 < xPendedTicks k2")
      (auto simp: xTaskResumeAll_def configASSERT_def Let_def assms(2,4) d(1) k2_reset bind_eq_Some_conv)
  then show thesis
  proof (rule that)
    show "xYieldPending k \<or> (\<exists>t. pending k t \<and> prio k c \<le> prio k t) \<longrightarrow> xYieldPending k4"
      using k4(7) k2(10) d(6) pend0 by simp
  qed (use k4 k2 in \<open>simp_all add: portYIELD_def task_frame_def\<close>)
qed

text \<open>Between calls the scheduler is not suspended and nothing waits for it to be resumed.\<close>

definition quiet :: "'z kernel_scheme \<Rightarrow> bool" where
  "quiet k \<longleftrightarrow> uxSchedulerSuspended k = 0 \<and> xPendedTicks k = 0 \<and> (\<forall>t. \<not> pending k t)"

lemma caught_up_quiet:
  assumes "sched_inv k" "xPendedTicks k = 0" "\<forall>t. \<not> pending k t"
  shows "caught_up k = tcbs k"
  using assms remaining_pos [OF assms(1)] by (fastforce simp: caught_up_def)

text \<open>Resuming a scheduler that has nothing to make up for.\<close>

lemma resume_quiet:
  assumes "sched_inv k" "uxSchedulerSuspended k = 1" "xPendedTicks k = 0" "\<And>t. \<not> pending k t" "pxCurrentTCB k = Some c"
    "uxCurrentNumberOfTasks k > 0"
  obtains y k' where "xTaskResumeAll k = Some (y, k')" "sched_inv k'" "quiet k'" "tcbs k' = tcbs k"
    "pxCurrentTCB k' = Some c" "xTickCount k' = xTickCount k" "kernel.more k' = kernel.more k"
    "uxCurrentNumberOfTasks k' = uxCurrentNumberOfTasks k" "xSchedulerRunning k' = xSchedulerRunning k"
    "y \<longrightarrow> pendsv k'" "xYieldPending k \<longrightarrow> y"
proof -
  obtain y k' where r: "xTaskResumeAll k = Some (y, k')" "sched_inv k'" "uxSchedulerSuspended k' = 0"
    "pxCurrentTCB k' = Some c" "kernel.more k' = kernel.more k" "xPendedTicks k' = 0"
    "uxCurrentNumberOfTasks k' = uxCurrentNumberOfTasks k" "xSchedulerRunning k' = xSchedulerRunning k"
    "xTickCount k' = xTickCount k + xPendedTicks k" "tcbs k' = caught_up k" "y \<longleftrightarrow> xYieldPending k'" "y \<longrightarrow> pendsv k'"
    "xYieldPending k \<or> (\<exists>t. pending k t \<and> prio k c \<le> prio k t) \<longrightarrow> y"
    by (rule xTaskResumeAll_spec [OF assms(1,2,5,6)])
  have t: "tcbs k' = tcbs k" using caught_up_quiet [OF assms(1,3)] assms(4) by (simp add: r(10))
  then have "quiet k'" using r(3,6) assms(4) by (simp add: quiet_def pending_def)
  with r t assms(3) show thesis by (intro that [of y k']) simp_all
qed

lemma suspend_resume_quiet:
  assumes "sched_inv k" "uxSchedulerSuspended k = 1" "xPendedTicks k = 0" "\<And>t. \<not> pending k t" "pxCurrentTCB k = Some c"
    "uxCurrentNumberOfTasks k > 0"
  obtains y k' where "xTaskResumeAll k = Some (y, k')" "sched_inv k'" "quiet k'" "tcbs k' = tcbs k"
    "pxCurrentTCB k' = Some c" "xTickCount k' = xTickCount k" "kernel.more k' = kernel.more k"
    "uxCurrentNumberOfTasks k' = uxCurrentNumberOfTasks k"
  by (rule resume_quiet [OF assms], rule that)

text \<open>What a task needs to run a call that may suspend the scheduler.\<close>

definition can_run :: "tid \<Rightarrow> 'z kernel_scheme \<Rightarrow> bool" where
  "can_run c k \<longleftrightarrow> sched_inv k \<and> quiet k \<and> pxCurrentTCB k = Some c \<and> uxCurrentNumberOfTasks k > 0"

section \<open>Delays\<close>

lemma sched_inv_parts:
  assumes "sched_inv k"
  shows "list_inv k" "no_due k" "lists_ok k" "delayed_ok k" "ready_ok k"
    "event_list (tcbs k t) \<noteq> None \<Longrightarrow>
      state_list (tcbs k t) \<in> {Some Delayed1, Some Delayed2, Some SuspendedTaskList}"
  using assms unfolding sched_inv_def list_inv_def waiters_ok_def by blast+

lemma sched_inv_prio:
  assumes "sched_inv k" "state_list (tcbs k t) = Some l"
  shows "prio k t < configMAX_PRIORITIES" "uxBasePriority (tcbs k t) < configMAX_PRIORITIES"
  using sched_inv_parts(5) [OF assms(1)] assms(2) unfolding ready_ok_def by blast+

lemma vTaskDelay_spec:
  assumes "sched_inv k" "quiet k" "pxCurrentTCB k = Some c" "state_list (tcbs k c) = Some l"
    "uxCurrentNumberOfTasks k > 0" "n \<noteq> 0"
  obtains k' where "vTaskDelay n k = Some k'" "sched_inv k'" "quiet k'" "pxCurrentTCB k' = Some c"
    "tcbs k' = (tcbs k)(c := parked n False k (tcbs k c))" "xTickCount k' = xTickCount k" "pendsv k'"
    "uxCurrentNumberOfTasks k' = uxCurrentNumberOfTasks k"
proof -
  let ?k0 = "vTaskSuspendAll k"
  have q: "uxSchedulerSuspended k = 0" "xPendedTicks k = 0" "\<And>t. \<not> pending k t"
    using assms(2) by (auto simp: quiet_def)
  have k0: "sched_inv ?k0" "pxCurrentTCB ?k0 = Some c" "state_list (tcbs ?k0 c) = Some l"
    "tcbs ?k0 = tcbs k" "xTickCount ?k0 = xTickCount k"
    using assms by (simp_all add: vTaskSuspendAll_def)
  obtain k1 where d: "prvAddCurrentTaskToDelayedList n False ?k0 = Some k1" "sched_inv k1"
    "tcbs k1 = (tcbs ?k0)(c := parked n False ?k0 (tcbs ?k0 c))"
    "same_clock ?k0 (k1\<lparr>xNextTaskUnblockTime := xNextTaskUnblockTime ?k0\<rparr>)"
    "kernel.more k1 = kernel.more ?k0" "uxTopReadyPriority k1 = uxTopReadyPriority ?k0"
    "\<And>l'. is_event_list l' \<Longrightarrow> task_lists k1 l' = task_lists ?k0 l'"
    by (rule delay_current [OF sched_inv_parts(1) [OF k0(1)] k0(2,3) assms(6) sched_inv_parts(2) [OF k0(1)]
          sched_inv_parts(6) [OF k0(1)]], assumption, rule that)
  have p: "parked n False ?k0 b = parked n False k b" for b
    by (simp add: parked_def vTaskSuspendAll_def)
  have pe: "\<not> pending k1 t" for t using q(3) [of t] by (auto simp: pending_def d(3) k0(4) p parked_def)
  have k1: "uxSchedulerSuspended k1 = 1" "pxCurrentTCB k1 = Some c" "uxCurrentNumberOfTasks k1 > 0"
    "xPendedTicks k1 = 0" "xTickCount k1 = xTickCount k"
    "uxCurrentNumberOfTasks k1 = uxCurrentNumberOfTasks k"
    using d(4) q assms(3,5) by (simp_all add: same_clock_def vTaskSuspendAll_def)
  obtain y k2 where r: "xTaskResumeAll k1 = Some (y, k2)" "sched_inv k2" "uxSchedulerSuspended k2 = 0"
    "pxCurrentTCB k2 = Some c" "kernel.more k2 = kernel.more k1" "xPendedTicks k2 = 0"
    "uxCurrentNumberOfTasks k2 = uxCurrentNumberOfTasks k1" "xSchedulerRunning k2 = xSchedulerRunning k1"
    "xTickCount k2 = xTickCount k1 + xPendedTicks k1" "tcbs k2 = caught_up k1"
    "y \<longleftrightarrow> xYieldPending k2" "y \<longrightarrow> pendsv k2"
    "xYieldPending k1 \<or> (\<exists>t. pending k1 t \<and> prio k1 c \<le> prio k1 t) \<longrightarrow> y"
    by (rule xTaskResumeAll_spec [OF d(2) k1(1-3)])
  let ?k' = "if y then k2 else portYIELD k2"
  have t2: "tcbs k2 = (tcbs k)(c := parked n False k (tcbs k c))"
    using caught_up_quiet [OF d(2) k1(4)] pe by (simp add: r(10) d(3) k0(4) p)
  have "quiet ?k'"
    using r(3,6) pe caught_up_quiet [OF d(2) k1(4)]
    by (auto simp: quiet_def portYIELD_def pending_def r(10))
  moreover have "vTaskDelay n k = Some ?k'"
    using assms(6) q(1) d(1) r(1) by (auto simp: vTaskDelay_def configASSERT_def word_gt_0)
  ultimately show thesis
    using r t2 k1 by (intro that [of ?k']) (auto simp: portYIELD_def)
qed

text \<open>A delay of \<open>n\<close> ticks blocks the task for exactly \<open>n\<close> ticks, whatever the tick counter shows.\<close>

lemma parked_blocked:
  assumes "sched_inv k" "tcbs k' = (tcbs k)(c := parked n False k (tcbs k c))" "xTickCount k' = xTickCount k"
  shows "blocked k' c" "remaining k' c = unat n"
  using delayed_lists_distinct [OF sched_inv_parts(4) [OF assms(1)]]
  by (auto simp: blocked_def remaining_def assms(2,3) parked_def)

section \<open>Event lists\<close>

lemma list_inv_event_frame:
  assumes "list_inv k" "lists_ok k'" "same_clock k k'" "uxTopReadyPriority k' = uxTopReadyPriority k"
    "\<And>t. uxPriority (tcbs k' t) = uxPriority (tcbs k t) \<and> uxBasePriority (tcbs k' t) = uxBasePriority (tcbs k t) \<and>
      state_list (tcbs k' t) = state_list (tcbs k t) \<and> state_value (tcbs k' t) = state_value (tcbs k t)"
    "\<And>l. \<not> is_event_list l \<Longrightarrow> task_lists k' l = task_lists k l"
  shows "list_inv k'"
proof -
  have inv: "ready_ok k" "delayed_ok k" using assms(1) by (auto simp: list_inv_def)
  have "delayed_ok k'"
    using inv(2) by (rule delayed_ok_frame) (use assms(3,5,6) in \<open>auto simp: same_clock_def\<close>)
  moreover have "ready_ok k'" using inv(1) by (simp add: ready_ok_def assms(4,5))
  ultimately show ?thesis using assms(2) by (simp add: list_inv_def)
qed

lemma list_inv_insert_event:
  assumes "list_inv k" "event_list (tcbs k c) = None" "is_event_list e"
  shows "list_inv (insert_event e c k)" "list_inv (insert_end_event e c k)"
proof -
  have ok: "lists_ok k" using assms(1) by (simp add: list_inv_def)
  show "list_inv (insert_event e c k)"
    using assms(1) lists_ok_insert_event [OF ok assms(2,3)]
    by (rule list_inv_event_frame) (use assms(3) in \<open>auto simp: insert_event_def upd_defs same_clock_def\<close>)
  show "list_inv (insert_end_event e c k)"
    using assms(1) lists_ok_insert_end_event [OF ok assms(2,3)]
    by (rule list_inv_event_frame) (use assms(3) in \<open>auto simp: insert_end_event_def upd_defs same_clock_def\<close>)
qed

lemma park_waiter:
  assumes "sched_inv k" "list_inv k1" "pxCurrentTCB k = Some c" "state_list (tcbs k c) = Some l" "n \<noteq> 0"
    and k1: "same_clock k k1" "kernel.more k1 = kernel.more k" "tcbs k1 = (tcbs k)(c := b)"
      "state_list b = state_list (tcbs k c)" "state_value b = state_value (tcbs k c)"
  obtains k' where "prvAddCurrentTaskToDelayedList n indef k1 = Some k'" "sched_inv k'"
    "tcbs k' = (tcbs k)(c := parked n indef k b)" "kernel.more k' = kernel.more k"
    "same_clock k (k'\<lparr>xNextTaskUnblockTime := xNextTaskUnblockTime k\<rparr>)"
    "\<And>l'. is_event_list l' \<Longrightarrow> task_lists k' l' = task_lists k1 l'"
proof -
  note clk = same_clockD [OF k1(1)]
  have c1: "pxCurrentTCB k1 = Some c" "state_list (tcbs k1 c) = Some l"
    using assms(3,4) k1(4) by (simp_all add: clk k1(3))
  have nd: "no_due k1"
    using sched_inv_parts(2) [OF assms(1)] by (auto simp: no_due_def clk k1(3-5))
  have w: "state_list (tcbs k1 t) \<in> {Some Delayed1, Some Delayed2, Some SuspendedTaskList}"
    if "t \<noteq> c" "event_list (tcbs k1 t) \<noteq> None" for t
    using sched_inv_parts(6) [OF assms(1), of t] that by (simp add: k1(3))
  obtain k' where d: "prvAddCurrentTaskToDelayedList n indef k1 = Some k'" "sched_inv k'"
    "tcbs k' = (tcbs k1)(c := parked n indef k1 (tcbs k1 c))"
    "same_clock k1 (k'\<lparr>xNextTaskUnblockTime := xNextTaskUnblockTime k1\<rparr>)"
    "kernel.more k' = kernel.more k1" "uxTopReadyPriority k' = uxTopReadyPriority k1"
    "\<And>l'. is_event_list l' \<Longrightarrow> task_lists k' l' = task_lists k1 l'"
    by (rule delay_current [OF assms(2) c1 assms(5) nd w], assumption, assumption, rule that)
  have "parked n indef k1 b = parked n indef k b" by (simp add: parked_def clk)
  then show thesis
    using d k1 by (intro that [of k']) (auto simp: same_clock_def)
qed

lemma vTaskPlaceOnEventList_spec:
  assumes "sched_inv k" "pxCurrentTCB k = Some c" "state_list (tcbs k c) = Some l"
    "event_list (tcbs k c) = None" "is_event_list e" "n \<noteq> 0"
  obtains k' where "vTaskPlaceOnEventList e n k = Some k'" "sched_inv k'"
    "tcbs k' = (tcbs k)(c := parked n True k ((tcbs k c)\<lparr>event_list := Some e\<rparr>))"
    "kernel.more k' = kernel.more k"
    "same_clock k (k'\<lparr>xNextTaskUnblockTime := xNextTaskUnblockTime k\<rparr>)"
    "task_lists k' e = kl_insert (\<lambda>t. event_value (tcbs k t)) c (task_lists k e)"
    "\<And>l'. is_event_list l' \<Longrightarrow> l' \<noteq> e \<Longrightarrow> task_lists k' l' = task_lists k l'"
proof -
  let ?k1 = "insert_event e c k"
  have f: "same_clock k ?k1" "kernel.more ?k1 = kernel.more k"
    "tcbs ?k1 = (tcbs k)(c := (tcbs k c)\<lparr>event_list := Some e\<rparr>)"
    by (simp_all add: insert_event_def upd_defs same_clock_def)
  obtain k' where p: "prvAddCurrentTaskToDelayedList n True ?k1 = Some k'" "sched_inv k'"
    "tcbs k' = (tcbs k)(c := parked n True k ((tcbs k c)\<lparr>event_list := Some e\<rparr>))"
    "kernel.more k' = kernel.more k"
    "same_clock k (k'\<lparr>xNextTaskUnblockTime := xNextTaskUnblockTime k\<rparr>)"
    "\<And>l'. is_event_list l' \<Longrightarrow> task_lists k' l' = task_lists ?k1 l'"
    by (rule park_waiter [OF assms(1) list_inv_insert_event(1) [OF sched_inv_parts(1) [OF assms(1)] assms(4,5)]
          assms(2,3,6) f]) (auto intro: that)
  have "vTaskPlaceOnEventList e n k = Some k'" by (simp add: vTaskPlaceOnEventList_def assms(2) p(1))
  then show thesis
    using p(6) assms(5) by (intro that [OF _ p(2-5)]) (auto simp: insert_event_def upd_defs)
qed

text \<open>
  \<open>xTaskRemoveFromEventList\<close> takes the first waiter, the one of highest priority, off the list and
  readies it at once or, with the scheduler suspended, when the scheduler is resumed.
\<close>

definition released :: "'z kernel_scheme \<Rightarrow> tcb \<Rightarrow> tcb" where
  "released k b = (if uxSchedulerSuspended k = 0 then wake_tcb b else b\<lparr>event_list := Some PendingReadyList\<rparr>)"

lemma xTaskRemoveFromEventList_spec:
  assumes "sched_inv k" "pxCurrentTCB k = Some c" "members k e = t # ts" "is_event_list e"
    "e \<noteq> PendingReadyList"
  obtains y k' where "xTaskRemoveFromEventList e k = Some (y, k')" "sched_inv k'"
    "y \<longleftrightarrow> prio k c < prio k t" "tcbs k' = (tcbs k)(t := released k (tcbs k t))"
    "kernel.more k' = kernel.more k" "members k' e = ts"
    "same_clock k (k'\<lparr>xYieldPending := xYieldPending k\<rparr>)"
    "xYieldPending k' \<longleftrightarrow> xYieldPending k \<or> y"
    "\<And>l'. is_event_list l' \<Longrightarrow> l' \<noteq> e \<Longrightarrow> l' \<noteq> PendingReadyList \<Longrightarrow> task_lists k' l' = task_lists k l'"
proof -
  note inv = sched_inv_parts [OF assms(1)]
  have ev: "event_list (tcbs k t) = Some e" using event_member [OF inv(3) assms(4), of t] assms(3) by simp
  obtain l where st: "state_list (tcbs k t) = Some l" "l \<in> {Delayed1, Delayed2, SuspendedTaskList}"
    by (rule waiter_state [OF assms(1) ev])
  have "\<exists>k1 k2. remove_event_item t k = Some k1 \<and>
    (if uxSchedulerSuspended k1 = 0 then do { k \<leftarrow> remove_state_item t k1; prvAddTaskToReadyList t k }
     else Some (insert_end_event PendingReadyList t k1)) = Some k2 \<and>
    sched_inv k2 \<and> tcbs k2 = (tcbs k)(t := released k (tcbs k t)) \<and> kernel.more k2 = kernel.more k \<and>
    members k2 e = ts \<and> same_clock k k2 \<and>
    (\<forall>l'. is_event_list l' \<longrightarrow> l' \<noteq> e \<longrightarrow> l' \<noteq> PendingReadyList \<longrightarrow> task_lists k2 l' = task_lists k l')"
  proof (cases "uxSchedulerSuspended k = 0")
    case True
    obtain k1 k2 k3 where w: "remove_event_item t k = Some k1" "remove_state_item t k1 = Some k2"
      "prvAddTaskToReadyList t k2 = Some k3" "list_inv k3" "same_clock k k3"
      "kernel.more k3 = kernel.more k" "tcbs k3 = (tcbs k)(t := wake_tcb (tcbs k t))"
      "members k3 e = remove1 t (members k e)"
      "\<And>l'. l' \<noteq> l \<Longrightarrow> l' \<noteq> Ready (prio k t) \<Longrightarrow> l' \<noteq> e \<Longrightarrow> task_lists k3 l' = task_lists k l'"
      by (rule wake_waiter [OF inv(1) st(1) ev], rule that)
    have "task_lists k3 l' = task_lists k l'" if "is_event_list l'" "l' \<noteq> e" for l'
      by (rule w(9)) (use that st(2) in auto)
    moreover have "uxSchedulerSuspended k1 = 0"
      using w(1) True by (auto simp: remove_event_item_eq upd_defs)
    ultimately show ?thesis
      using w sched_inv_wake [OF assms(1) w(4,5,7)] True assms(3) by (auto simp: released_def)
  next
    case False
    obtain k1 where w: "remove_event_item t k = Some k1" "list_inv k1" "same_clock k k1"
      "kernel.more k1 = kernel.more k" "uxTopReadyPriority k1 = uxTopReadyPriority k"
      "tcbs k1 = (tcbs k)(t := (tcbs k t)\<lparr>event_list := None\<rparr>)"
      "\<And>l'. l' \<noteq> e \<Longrightarrow> task_lists k1 l' = task_lists k l'" "members k1 e = remove1 t (members k e)"
      by (rule off_event [OF inv(1) ev], rule that)
    let ?k2 = "insert_end_event PendingReadyList t k1"
    have t2: "tcbs ?k2 = (tcbs k)(t := released k (tcbs k t))"
      using False by (simp add: insert_end_event_def upd_defs w(6) released_def)
    have c2: "same_clock k ?k2" using w(3) by (simp add: same_clock_def insert_end_event_def upd_defs)
    have "list_inv ?k2" using w(2) by (intro list_inv_insert_event) (simp_all add: w(6))
    moreover have "no_due ?k2"
      by (rule no_due_frame [OF inv(2) c2]) (use False in \<open>simp add: t2 released_def split: if_splits\<close>)
    moreover have "waiters_ok ?k2"
      using inv(6) st False by (auto simp: waiters_ok_def t2 released_def)
    ultimately have "sched_inv ?k2" by (simp add: sched_inv_def)
    moreover have "uxSchedulerSuspended k1 \<noteq> 0" using False same_clockD(6) [OF w(3)] by simp
    moreover have "members ?k2 e = ts" using w(8) assms(3,5) by (simp add: insert_end_event_def upd_defs)
    moreover have "kernel.more ?k2 = kernel.more k" using w(4) by (simp add: insert_end_event_def upd_defs)
    moreover have "task_lists ?k2 l' = task_lists k l'" if "l' \<noteq> e" "l' \<noteq> PendingReadyList" for l'
      using w(7) [of l'] that by (simp add: insert_end_event_def upd_defs)
    ultimately show ?thesis using w(1) t2 c2 by (intro exI [of _ k1] exI [of _ ?k2]) simp
  qed
  then obtain k1 k2 where k2: "remove_event_item t k = Some k1"
    "(if uxSchedulerSuspended k1 = 0 then do { k \<leftarrow> remove_state_item t k1; prvAddTaskToReadyList t k }
     else Some (insert_end_event PendingReadyList t k1)) = Some k2"
    "sched_inv k2" "tcbs k2 = (tcbs k)(t := released k (tcbs k t))" "kernel.more k2 = kernel.more k"
    "members k2 e = ts" "same_clock k k2"
    "\<And>l'. is_event_list l' \<Longrightarrow> l' \<noteq> e \<Longrightarrow> l' \<noteq> PendingReadyList \<Longrightarrow> task_lists k2 l' = task_lists k l'"
    by blast
  have pr: "prio k2 u = prio k u" for u by (simp add: k2(4) released_def)
  have c2: "pxCurrentTCB k2 = Some c" using assms(2) same_clockD(1) [OF k2(7)] by simp
  let ?y = "prio k c < prio k t"
  have "xTaskRemoveFromEventList e k = Some (?y, if ?y then k2\<lparr>xYieldPending := True\<rparr> else k2)"
    using k2(1,2) c2 by (auto simp: xTaskRemoveFromEventList_def head_owner_def assms(3) pr)
  then show thesis
    using k2 by (intro that [of ?y "if ?y then k2\<lparr>xYieldPending := True\<rparr> else k2"]) (auto simp: same_clock_def)
qed

section \<open>Priorities\<close>

lemma off_state:
  assumes "list_inv k" "state_list (tcbs k t) = Some l"
  obtains k1 where "remove_state_item t k = Some k1" "list_inv k1" "same_clock k k1"
    "kernel.more k1 = kernel.more k" "uxTopReadyPriority k1 = uxTopReadyPriority k"
    "tcbs k1 = (tcbs k)(t := (tcbs k t)\<lparr>state_list := None\<rparr>)"
    "\<And>l'. is_event_list l' \<Longrightarrow> task_lists k1 l' = task_lists k l'"
proof -
  let ?k1 = "upd_tcb t (\<lambda>b. b\<lparr>state_list := None\<rparr>) (upd_list l (kl_remove t) k)"
  have inv: "lists_ok k" "ready_ok k" "delayed_ok k" using assms(1) by (auto simp: list_inv_def)
  have "ready_ok ?k1" using inv(2) by (auto simp: ready_ok_def upd_defs)
  moreover have "delayed_ok ?k1"
    using inv(3) by (rule delayed_ok_frame) (auto simp: upd_defs kl_remove_def split: if_splits)
  ultimately have "list_inv ?k1" using lists_ok_remove_state [OF inv(1) assms(2)] by (simp add: list_inv_def)
  then show thesis
    using lists_ok_state [OF inv(1) assms(2)]
    by (intro that [of ?k1]) (auto simp: remove_state_item_eq assms(2) same_clock_def upd_defs)
qed

lemma list_inv_unlisted:
  assumes "list_inv k" "state_list (tcbs k t) = None" "state_list (f (tcbs k t)) = None"
    "event_list (f (tcbs k t)) = event_list (tcbs k t)" "state_value (f (tcbs k t)) = state_value (tcbs k t)"
  shows "list_inv (upd_tcb t f k)"
proof -
  have inv: "lists_ok k" "ready_ok k" "delayed_ok k" using assms(1) by (auto simp: list_inv_def)
  have "lists_ok (upd_tcb t f k)" using inv(1) assms(2-4) by (auto simp: lists_ok_def upd_defs)
  moreover have "ready_ok (upd_tcb t f k)" using inv(2) assms(3) by (auto simp: ready_ok_def upd_defs)
  moreover have "delayed_ok (upd_tcb t f k)"
    using inv(3) by (rule delayed_ok_frame) (use assms in \<open>auto simp: upd_defs split: if_splits\<close>)
  ultimately show ?thesis by (simp add: list_inv_def)
qed

lemma add_ready:
  assumes "list_inv k" "state_list (tcbs k t) = None" "prio k t < configMAX_PRIORITIES"
    "uxBasePriority (tcbs k t) < configMAX_PRIORITIES"
  obtains k' where "prvAddTaskToReadyList t k = Some k'" "list_inv k'" "same_clock k k'"
    "kernel.more k' = kernel.more k"
    "tcbs k' = (tcbs k)(t := (tcbs k t)\<lparr>state_list := Some (Ready (prio k t))\<rparr>)"
    "\<And>l'. l' \<noteq> Ready (prio k t) \<Longrightarrow> task_lists k' l' = task_lists k l'"
proof -
  let ?p = "prio k t"
  let ?k' = "insert_end_state (Ready ?p) t (taskRECORD_READY_PRIORITY ?p k)"
  have inv: "lists_ok k" "ready_ok k" "delayed_ok k" using assms(1) by (auto simp: list_inv_def)
  have "lists_ok (taskRECORD_READY_PRIORITY ?p k)"
    using inv(1) by (simp add: lists_ok_def taskRECORD_READY_PRIORITY_def)
  then have "lists_ok ?k'"
    by (rule lists_ok_insert_end_state) (use assms(2) in \<open>auto simp: taskRECORD_READY_PRIORITY_def\<close>)
  moreover have "ready_ok ?k'"
    using inv(2) assms(3,4)
    by (auto simp: ready_ok_def insert_end_state_def taskRECORD_READY_PRIORITY_def upd_defs
        split: if_splits intro: order.trans [OF _ less_imp_le])
  moreover have "delayed_ok ?k'"
    using inv(3)
    by (rule delayed_ok_frame)
      (auto simp: insert_end_state_def taskRECORD_READY_PRIORITY_def upd_defs split: if_splits)
  ultimately show thesis
    using assms(3)
    by (intro that [of ?k']) (auto simp: list_inv_def prvAddTaskToReadyList_def same_clock_def
        insert_end_state_def taskRECORD_READY_PRIORITY_def upd_defs)
qed

text \<open>Changing the priority of a task, in the order in which the code does it.\<close>

definition move_priority :: "tid \<Rightarrow> (tcb \<Rightarrow> tcb) \<Rightarrow> UBaseType_t \<Rightarrow> 'z kernel_scheme \<Rightarrow> 'z kernel_scheme option" where
  "move_priority t f p k =
     (if state_list (tcbs k t) = Some (Ready p) then do {
        k \<leftarrow> remove_state_item t k;
        prvAddTaskToReadyList t (upd_tcb t f k)
      } else Some (upd_tcb t f k))"

definition renumbered :: "(tcb \<Rightarrow> tcb) \<Rightarrow> tcb \<Rightarrow> tcb" where
  "renumbered f b = (f b)\<lparr>state_list := (if state_list b = Some (Ready (uxPriority b))
     then Some (Ready (uxPriority (f b))) else state_list b)\<rparr>"

lemma state_list_same: "state_list b = x \<Longrightarrow> b\<lparr>state_list := x\<rparr> = b"
  by auto

lemma move_priority_spec:
  assumes "sched_inv k" "state_list (tcbs k t) = Some l"
    and keep: "\<And>b. state_list (f b) = state_list b" "\<And>b. event_list (f b) = event_list b"
      "\<And>b. state_value (f b) = state_value b" "\<And>b x. f (b\<lparr>state_list := x\<rparr>) = (f b)\<lparr>state_list := x\<rparr>"
    and ok: "uxPriority (f (tcbs k t)) < configMAX_PRIORITIES" "uxBasePriority (f (tcbs k t)) < configMAX_PRIORITIES"
  obtains k' where "move_priority t f (prio k t) k = Some k'" "sched_inv k'" "same_clock k k'"
    "kernel.more k' = kernel.more k" "tcbs k' = (tcbs k)(t := renumbered f (tcbs k t))"
    "\<And>l'. is_event_list l' \<Longrightarrow> task_lists k' l' = task_lists k l'"
proof (cases "state_list (tcbs k t) = Some (Ready (prio k t))")
  case True
  note inv = sched_inv_parts [OF assms(1)]
  obtain k1 where r: "remove_state_item t k = Some k1" "list_inv k1" "same_clock k k1"
    "kernel.more k1 = kernel.more k" "uxTopReadyPriority k1 = uxTopReadyPriority k"
    "tcbs k1 = (tcbs k)(t := (tcbs k t)\<lparr>state_list := None\<rparr>)"
    "\<And>l'. is_event_list l' \<Longrightarrow> task_lists k1 l' = task_lists k l'"
    by (rule off_state [OF inv(1) assms(2)], rule that)
  let ?k2 = "upd_tcb t f k1"
  have t2: "tcbs ?k2 = (tcbs k)(t := (f (tcbs k t))\<lparr>state_list := None\<rparr>)"
    by (simp add: upd_tcb_def r(6) keep)
  have "list_inv ?k2" using r(2) by (rule list_inv_unlisted) (simp_all add: r(6) keep)
  moreover have "state_list (tcbs ?k2 t) = None" "prio ?k2 t < configMAX_PRIORITIES"
    "uxBasePriority (tcbs ?k2 t) < configMAX_PRIORITIES" using ok by (simp_all add: t2)
  ultimately obtain k' where a: "prvAddTaskToReadyList t ?k2 = Some k'" "list_inv k'" "same_clock ?k2 k'"
    "kernel.more k' = kernel.more ?k2"
    "tcbs k' = (tcbs ?k2)(t := (tcbs ?k2 t)\<lparr>state_list := Some (Ready (prio ?k2 t))\<rparr>)"
    "\<And>l'. l' \<noteq> Ready (prio ?k2 t) \<Longrightarrow> task_lists k' l' = task_lists ?k2 l'"
    by (rule add_ready) blast
  have t': "tcbs k' = (tcbs k)(t := renumbered f (tcbs k t))"
    using True by (simp add: a(5) t2 renumbered_def)
  have c': "same_clock k k'" using r(3) a(3) by (simp add: same_clock_def upd_defs)
  have nr: "pxDelayedTaskList k \<noteq> Ready p" "Ready p \<noteq> pxDelayedTaskList k" for p
    using delayed_lists_distinct(2) [OF inv(4)] by auto
  have "no_due k'"
    by (rule no_due_frame [OF inv(2) c']) (use True nr in \<open>auto simp: t' renumbered_def keep split: if_splits\<close>)
  moreover have "waiters_ok k'"
    using inv(6) True by (fastforce simp: waiters_ok_def t' renumbered_def keep)
  moreover have "task_lists k' l' = task_lists k l'" if "is_event_list l'" for l'
    using that r(7) [OF that] a(6) [of l'] by (cases l') (auto simp: upd_defs)
  ultimately show thesis
    using True r(1,4) a(1,2,4) t' c' by (intro that [of k']) (auto simp: move_priority_def sched_inv_def upd_defs)
next
  case False
  note inv = sched_inv_parts [OF assms(1)]
  let ?k' = "upd_tcb t f k"
  have t': "tcbs ?k' = (tcbs k)(t := renumbered f (tcbs k t))"
    using False by (simp add: upd_tcb_def renumbered_def state_list_same [OF keep(1)])
  have nr: "state_list (tcbs k t) \<noteq> Some (Ready p)" for p
    using False inv(5) assms(2) by (auto simp: ready_ok_def)
  have "lists_ok ?k'" using inv(3) by (auto simp: lists_ok_def upd_defs keep)
  moreover have "ready_ok ?k'" using inv(5) ok nr by (auto simp: ready_ok_def upd_defs keep)
  moreover have "delayed_ok ?k'"
    using inv(4) by (rule delayed_ok_frame) (auto simp: upd_defs keep split: if_splits)
  moreover have "no_due ?k'" "waiters_ok ?k'"
    using inv(2) sched_inv_parts(6) [OF assms(1)] by (auto simp: no_due_def waiters_ok_def upd_defs keep)
  ultimately show thesis
    using False t' by (intro that [of ?k'])
      (auto simp: move_priority_def sched_inv_def list_inv_def same_clock_def upd_defs)
qed

lemma move_priority_after:
  assumes "\<And>b. state_list (f b) = state_list b" "\<And>b x. f (b\<lparr>state_list := x\<rparr>) = (f b)\<lparr>state_list := x\<rparr>"
  shows "(if state_list (tcbs (upd_tcb t f k) t) = Some (Ready p) then do {
      k \<leftarrow> remove_state_item t (upd_tcb t f k); prvAddTaskToReadyList t k } else Some (upd_tcb t f k)) =
    move_priority t f p k"
  by (auto simp: move_priority_def remove_state_item_def upd_defs assms)

definition event_prio :: "UBaseType_t \<Rightarrow> tcb \<Rightarrow> tcb" where
  "event_prio p b = (if event_value b AND taskEVENT_LIST_ITEM_VALUE_IN_USE = 0
     then b\<lparr>event_value := configMAX_PRIORITIES - p\<rparr> else b)"

lemma event_prio_fields [simp]:
  "uxPriority (event_prio p b) = uxPriority b" "uxBasePriority (event_prio p b) = uxBasePriority b"
  "state_list (event_prio p b) = state_list b" "event_list (event_prio p b) = event_list b"
  "state_value (event_prio p b) = state_value b" "uxMutexesHeld (event_prio p b) = uxMutexesHeld b"
  "event_prio p (b\<lparr>state_list := x\<rparr>) = (event_prio p b)\<lparr>state_list := x\<rparr>"
  "event_prio p (b\<lparr>uxPriority := q\<rparr>) = (event_prio p b)\<lparr>uxPriority := q\<rparr>"
  "event_prio p (b\<lparr>uxBasePriority := q\<rparr>) = (event_prio p b)\<lparr>uxBasePriority := q\<rparr>"
  by (cases b; simp add: event_prio_def)+

lemma set_event_priority_upd: "set_event_priority t p k = upd_tcb t (event_prio p) k"
  by (auto simp: set_event_priority_def event_prio_def upd_tcb_def)

lemma upd_tcb_upd: "upd_tcb t g (upd_tcb t f k) = upd_tcb t (\<lambda>b. g (f b)) k"
  by (simp add: upd_tcb_def)

lemma renumbered_fields [simp]:
  "uxPriority (renumbered f b) = uxPriority (f b)" "uxBasePriority (renumbered f b) = uxBasePriority (f b)"
  "uxMutexesHeld (renumbered f b) = uxMutexesHeld (f b)" "event_list (renumbered f b) = event_list (f b)"
  "event_value (renumbered f b) = event_value (f b)"
  by (simp_all add: renumbered_def)

lemma tcb_swaps [simp]:
  "b\<lparr>state_list := x, uxPriority := p\<rparr> = b\<lparr>uxPriority := p, state_list := x\<rparr>"
  "b\<lparr>state_list := x, uxBasePriority := p\<rparr> = b\<lparr>uxBasePriority := p, state_list := x\<rparr>"
  "b\<lparr>state_list := x, event_value := v\<rparr> = b\<lparr>event_value := v, state_list := x\<rparr>"
  by (cases b; simp)+

lemma xTaskPriorityInherit_spec:
  assumes "sched_inv k" "pxCurrentTCB k = Some c" "state_list (tcbs k c) \<noteq> None" "state_list (tcbs k t) = Some l"
  obtains y k' where "xTaskPriorityInherit (Some t) k = Some (y, k')" "sched_inv k'" "same_clock k k'"
    "kernel.more k' = kernel.more k"
    "y \<longleftrightarrow> uxBasePriority (tcbs k t) < prio k c \<or> prio k t < prio k c"
    "tcbs k' = (tcbs k)(t := if prio k t < prio k c
       then renumbered (\<lambda>b. (event_prio (prio k c) b)\<lparr>uxPriority := prio k c\<rparr>) (tcbs k t) else tcbs k t)"
    "\<And>l'. is_event_list l' \<Longrightarrow> task_lists k' l' = task_lists k l'"
proof (cases "prio k t < prio k c")
  case True
  let ?p = "prio k c" let ?f = "\<lambda>b. (event_prio ?p b)\<lparr>uxPriority := ?p\<rparr>"
  have ct: "c \<noteq> t" using True by auto
  have ok: "?p < configMAX_PRIORITIES" "uxBasePriority (tcbs k t) < configMAX_PRIORITIES"
    using sched_inv_parts(5) [OF assms(1)] assms(3,4) by (auto simp: ready_ok_def)
  obtain k' where m: "move_priority t ?f (prio k t) k = Some k'" "sched_inv k'" "same_clock k k'"
    "kernel.more k' = kernel.more k" "tcbs k' = (tcbs k)(t := renumbered ?f (tcbs k t))"
    "\<And>l'. is_event_list l' \<Longrightarrow> task_lists k' l' = task_lists k l'"
    by (rule move_priority_spec [OF assms(1,4), of ?f]) (use ok in \<open>auto intro: that\<close>)
  have "xTaskPriorityInherit (Some t) k = Some (True, k')"
    using m(1) True ct
    by (auto simp: xTaskPriorityInherit_def assms(2) set_event_priority_upd move_priority_def
        remove_state_item_def upd_defs Let_def split: if_splits)
  then show thesis using m True by (intro that [of True k']) auto
next
  case False
  then show thesis using assms by (intro that [of "uxBasePriority (tcbs k t) < prio k c" k])
    (auto simp: xTaskPriorityInherit_def)
qed

lemma sched_inv_mutexes:
  "sched_inv (upd_tcb t (\<lambda>b. b\<lparr>uxMutexesHeld := g b\<rparr>) k) = sched_inv k"
proof -
  let ?k = "upd_tcb t (\<lambda>b. b\<lparr>uxMutexesHeld := g b\<rparr>) k"
  have f: "\<And>u. uxPriority (tcbs ?k u) = prio k u" "\<And>u. uxBasePriority (tcbs ?k u) = uxBasePriority (tcbs k u)"
    "\<And>u. state_list (tcbs ?k u) = state_list (tcbs k u)" "\<And>u. event_list (tcbs ?k u) = event_list (tcbs k u)"
    "\<And>u. state_value (tcbs ?k u) = state_value (tcbs k u)"
    by (auto simp: upd_tcb_def)
  have g: "task_lists ?k = task_lists k" "uxTopReadyPriority ?k = uxTopReadyPriority k"
    by (auto simp: upd_tcb_def)
  show ?thesis
    unfolding sched_inv_def list_inv_def lists_ok_def ready_ok_def delayed_ok_def no_due_def waiters_ok_def f g
    by simp
qed

definition disinherited :: "tcb \<Rightarrow> tcb" where
  "disinherited b = renumbered (\<lambda>b. b\<lparr>uxPriority := uxBasePriority b,
     event_value := configMAX_PRIORITIES - uxBasePriority b\<rparr>) b"

lemma xTaskPriorityDisinherit_spec:
  assumes "sched_inv k" "pxCurrentTCB k = Some t" "state_list (tcbs k t) = Some (Ready (prio k t))"
    "uxMutexesHeld (tcbs k t) \<noteq> 0"
  obtains y k' where "xTaskPriorityDisinherit (Some t) k = Some (y, k')" "sched_inv k'" "same_clock k k'"
    "kernel.more k' = kernel.more k"
    "y \<longleftrightarrow> prio k t \<noteq> uxBasePriority (tcbs k t) \<and> uxMutexesHeld (tcbs k t) = 1"
    "tcbs k' = (tcbs k)(t := (if y then disinherited else id)
       ((tcbs k t)\<lparr>uxMutexesHeld := uxMutexesHeld (tcbs k t) - 1\<rparr>))"
    "\<And>l'. is_event_list l' \<Longrightarrow> task_lists k' l' = task_lists k l'"
proof -
  let ?k1 = "upd_tcb t (\<lambda>b. b\<lparr>uxMutexesHeld := uxMutexesHeld b - 1\<rparr>) k"
  have k1: "sched_inv ?k1" "same_clock k ?k1" "kernel.more ?k1 = kernel.more k"
    "tcbs ?k1 = (tcbs k)(t := (tcbs k t)\<lparr>uxMutexesHeld := uxMutexesHeld (tcbs k t) - 1\<rparr>)"
    "task_lists ?k1 = task_lists k"
    using assms(1) by (simp_all add: sched_inv_mutexes) (simp_all add: upd_tcb_def same_clock_def)
  let ?y = "prio k t \<noteq> uxBasePriority (tcbs k t) \<and> uxMutexesHeld (tcbs k t) = 1"
  have y1: "uxMutexesHeld (tcbs k t) - 1 = 0 \<longleftrightarrow> uxMutexesHeld (tcbs k t) = 1" by simp
  show thesis
  proof (cases ?y)
    case True
    let ?f = "\<lambda>b. b\<lparr>uxPriority := uxBasePriority b, event_value := configMAX_PRIORITIES - uxBasePriority b\<rparr>"
    note ok = sched_inv_prio(2) [OF assms(1,3)]
    have ok1: "uxPriority (?f (tcbs ?k1 t)) < configMAX_PRIORITIES"
      "uxBasePriority (?f (tcbs ?k1 t)) < configMAX_PRIORITIES" using ok by (simp_all add: k1(4))
    have st: "state_list (tcbs ?k1 t) = Some (Ready (prio k t))" using assms(3) by (simp add: k1(4))
    obtain k' where m: "move_priority t ?f (prio ?k1 t) ?k1 = Some k'" "sched_inv k'" "same_clock ?k1 k'"
      "kernel.more k' = kernel.more ?k1" "tcbs k' = (tcbs ?k1)(t := renumbered ?f (tcbs ?k1 t))"
      "\<And>l'. is_event_list l' \<Longrightarrow> task_lists k' l' = task_lists ?k1 l'"
      by (rule move_priority_spec [OF k1(1) st, of ?f], simp, simp, simp, simp, rule ok1, rule ok1, rule that)
    have "xTaskPriorityDisinherit (Some t) k = Some (True, k')"
      using m(1) True assms(3,4)
      by (auto simp: xTaskPriorityDisinherit_def configASSERT_def assms(2) k1(4) move_priority_def
          upd_tcb_upd bind_eq_Some_conv split: if_splits)
    then show thesis
      using m k1(2-5) True same_clock_trans [OF k1(2) m(3)]
      by (intro that [of True k']) (auto simp: disinherited_def)
  next
    case False
    then have "xTaskPriorityDisinherit (Some t) k = Some (False, ?k1)"
      using assms(4) by (auto simp: xTaskPriorityDisinherit_def configASSERT_def assms(2) k1(4))
    with False k1 show thesis by (intro that [of False ?k1]) auto
  qed
qed

section \<open>Timeouts\<close>

text \<open>The clock of a kernel that has counted \<open>n\<close> ticks since the scheduler started.\<close>

definition clock_at :: "nat \<Rightarrow> 'z kernel_scheme \<Rightarrow> bool" where
  "clock_at n k \<longleftrightarrow> xTickCount k = of_nat n \<and> xNumOfOverflows k = of_nat (n div 2 ^ 32)"

definition entered_at :: "nat \<Rightarrow> TimeOut_t" where
  "entered_at n = \<lparr>xOverflowCount = of_nat (n div 2 ^ 32), xTimeOnEntering = of_nat n\<rparr>"

lemma set_timeout_entered: "clock_at n k \<Longrightarrow> vTaskInternalSetTimeOutState k = entered_at n"
  by (simp add: clock_at_def entered_at_def vTaskInternalSetTimeOutState_def)

lemma div_mod_near:
  assumes "e \<le> (n::nat)" "n - e < m" "n div m \<noteq> e div m"
  shows "n mod m < e mod m"
proof (rule ccontr)
  assume "\<not> n mod m < e mod m"
  moreover have "e div m < n div m" using assms(1,3) div_le_mono [OF assms(1), of m] by simp
  moreover have "n = m * (n div m) + n mod m" "e = m * (e div m) + e mod m" by simp_all
  moreover have "m * (e div m) + m \<le> m * (n div m)"
    using calculation(2) by (metis Suc_leI mult.commute mult_Suc mult_le_mono1 add.commute)
  ultimately show False using assms(2) by linarith
qed

lemma of_nat_u32: "unat (of_nat n :: 32 word) = n mod 2 ^ 32"
  by (simp add: unsigned_of_nat take_bit_eq_mod)

lemma xTaskCheckForTimeOut_near:
  assumes "e \<le> n" "n - e < 2 ^ 32" "clock_at n k" "w \<noteq> portMAX_DELAY"
  shows "xTaskCheckForTimeOut (entered_at e) w k =
    (if n - e < unat w then (False, entered_at n, w - of_nat (n - e)) else (True, entered_at e, 0))"
proof -
  have d: "xTickCount k - xTimeOnEntering (entered_at e) = of_nat (n - e)"
    using assms(1,3) by (simp add: clock_at_def entered_at_def of_nat_diff)
  have u: "unat (of_nat (n - e) :: 32 word) = n - e" using assms(2) by (simp add: of_nat_u32)
  have "\<not> (xNumOfOverflows k \<noteq> xOverflowCount (entered_at e) \<and> xTickCount k \<ge> xTimeOnEntering (entered_at e))"
    using div_mod_near [OF assms(1,2)] assms(3)
    by (cases "n div 2 ^ 32 = e div 2 ^ 32")
      (auto simp: clock_at_def entered_at_def word_le_nat_alt of_nat_u32)
  then show ?thesis
    using assms(4) by (auto simp: xTaskCheckForTimeOut_def Let_def d word_less_nat_alt u set_timeout_entered [OF assms(3)])
qed

section \<open>Properties\<close>

text \<open>
  C4. When the scheduler is not suspended and some task is ready, a context switch always finds a
  task. It runs a task that is ready at its own priority, no ready task has a higher priority, the
  pended yield is taken back and the invariant of the scheduler is kept.
\<close>

theorem vTaskSwitchContext_highest:
  assumes "sched_inv k" "uxSchedulerSuspended k = 0" "members k (Ready r) \<noteq> []"
  shows "\<exists>k'. vTaskSwitchContext k = Some k' \<and> sched_inv k' \<and> runs_highest k' \<and> \<not> xYieldPending k' \<and>
    tcbs k' = tcbs k"
  using assms by (rule vTaskSwitchContext_spec)

text \<open>
  C2. A tick with the scheduler running never fails an assertion, even when the counter wraps. It
  readies exactly the tasks whose wake-up time is the new tick, takes them off their event lists and
  leaves all other control blocks alone; a switch is asked for when a woken task has a higher priority
  than the running one, when the running task shares its priority, or when a yield is pended.
\<close>

theorem xTaskIncrementTick_wakes:
  assumes "sched_inv k" "uxSchedulerSuspended k = 0" "pxCurrentTCB k = Some c"
  shows "\<exists>sw k'. xTaskIncrementTick k = Some (sw, k') \<and> sched_inv k' \<and>
    xTickCount k' = xTickCount k + 1 \<and>
    xNumOfOverflows k' = (if xTickCount k + 1 = 0 then xNumOfOverflows k + 1 else xNumOfOverflows k) \<and>
    (\<forall>t. tcbs k' t = (if blocked k t \<and> state_value (tcbs k t) = xTickCount k + 1
       then (tcbs k t)\<lparr>state_list := Some (Ready (prio k t)), event_list := None\<rparr> else tcbs k t)) \<and>
    (sw \<longleftrightarrow> xYieldPending k \<or> (\<exists>t. expires k t \<and> prio k c < prio k t) \<or>
      length (members k' (Ready (prio k c))) > 1)"
  by (rule xTaskIncrementTick_spec [OF assms]) (auto simp: expires_def wake_tcb_def)

text \<open>
  C1. A task that calls \<open>vTaskDelay\<close> with \<open>n > 0\<close> is blocked and a switch is pended. Whatever the value of
  the tick counter, it is still blocked after fewer than \<open>n\<close> ticks and it is ready, at its priority,
  after the \<open>n\<close>-th tick.
\<close>

theorem vTaskDelay_exact:
  assumes "sched_inv k" "quiet k" "pxCurrentTCB k = Some c" "state_list (tcbs k c) = Some (Ready p)"
    "uxCurrentNumberOfTasks k > 0" "n \<noteq> 0"
  shows "\<exists>k'. vTaskDelay n k = Some k' \<and> sched_inv k' \<and> pendsv k' \<and>
    (\<forall>j. \<exists>k''. replay_ticks j k' = Some k'' \<and> sched_inv k'' \<and>
      (if j < unat n then blocked k'' c else state_list (tcbs k'' c) = Some (Ready p)))"
proof -
  obtain k' where d: "vTaskDelay n k = Some k'" "sched_inv k'" "quiet k'" "pxCurrentTCB k' = Some c"
    "tcbs k' = (tcbs k)(c := parked n False k (tcbs k c))" "xTickCount k' = xTickCount k" "pendsv k'"
    "uxCurrentNumberOfTasks k' = uxCurrentNumberOfTasks k"
    by (rule vTaskDelay_spec [OF assms])
  note b = parked_blocked [OF assms(1) d(5,6)]
  have p: "prio k' c = p"
    using sched_inv_parts(5) [OF assms(1)] assms(4) by (simp add: d(5) parked_def ready_ok_def)
  have "\<exists>k''. replay_ticks j k' = Some k'' \<and> sched_inv k'' \<and>
      (if j < unat n then blocked k'' c else state_list (tcbs k'' c) = Some (Ready p))" for j
  proof -
    have "uxSchedulerSuspended k' = 0" using d(3) by (simp add: quiet_def)
    from replay_ticks_spec [OF d(2) this d(4), of j] obtain k'' where r: "replay_ticks j k' = Some k''"
      "sched_inv k''"
      "tcbs k'' = (\<lambda>t. if blocked k' t \<and> remaining k' t \<le> j then wake_tcb (tcbs k' t) else tcbs k' t)"
      by blast
    have "tcbs k'' c = (if unat n \<le> j then wake_tcb (tcbs k' c) else tcbs k' c)" using b by (simp add: r(3))
    then show ?thesis using r(1,2) b(1) p by (auto simp: blocked_def)
  qed
  with d show ?thesis by auto
qed


text \<open>
  C11. When a task of higher priority wants a mutex, the holder runs at that priority until it gives
  the mutex back: \<open>xTaskPriorityInherit\<close> raises it to the priority of the waiter, moves it to the ready
  list of that priority if it was ready, keeps its base priority and changes no other task.
\<close>

theorem xTaskPriorityInherit_raises:
  assumes "sched_inv k" "pxCurrentTCB k = Some c" "state_list (tcbs k c) \<noteq> None" "state_list (tcbs k t) = Some l"
  shows "\<exists>y k'. xTaskPriorityInherit (Some t) k = Some (y, k') \<and> sched_inv k' \<and>
    prio k' t = max (prio k t) (prio k c) \<and> uxBasePriority (tcbs k' t) = uxBasePriority (tcbs k t) \<and>
    (l = Ready (prio k t) \<longrightarrow> t \<in> set (members k' (Ready (max (prio k t) (prio k c))))) \<and>
    (\<forall>u. u \<noteq> t \<longrightarrow> tcbs k' u = tcbs k u)"
proof -
  obtain y k' where s: "xTaskPriorityInherit (Some t) k = Some (y, k')" "sched_inv k'" "same_clock k k'"
    "kernel.more k' = kernel.more k"
    "y \<longleftrightarrow> uxBasePriority (tcbs k t) < prio k c \<or> prio k t < prio k c"
    "tcbs k' = (tcbs k)(t := if prio k t < prio k c
       then renumbered (\<lambda>b. (event_prio (prio k c) b)\<lparr>uxPriority := prio k c\<rparr>) (tcbs k t) else tcbs k t)"
    "\<And>l'. is_event_list l' \<Longrightarrow> task_lists k' l' = task_lists k l'"
    by (rule xTaskPriorityInherit_spec [OF assms], rule that)
  have p: "prio k' t = max (prio k t) (prio k c)" by (auto simp: s(6) max_def)
  have "state_list (tcbs k' t) = Some (Ready (max (prio k t) (prio k c)))" if "l = Ready (prio k t)"
    using assms(4) that by (auto simp: s(6) renumbered_def max_def)
  with state_member [OF sched_inv_parts(3) [OF s(2)]] p show ?thesis
    using s(1,2) by (auto simp: s(6))
qed

text \<open>
  Giving the last mutex back ends the inheritance: the task returns to its base priority, to the
  ready list of that priority, and a switch is asked for exactly when its priority changed.
\<close>

theorem xTaskPriorityDisinherit_restores:
  assumes "sched_inv k" "pxCurrentTCB k = Some t" "state_list (tcbs k t) = Some (Ready (prio k t))"
    "uxMutexesHeld (tcbs k t) \<noteq> 0"
  shows "\<exists>y k'. xTaskPriorityDisinherit (Some t) k = Some (y, k') \<and> sched_inv k' \<and>
    prio k' t = (if uxMutexesHeld (tcbs k t) = 1 then uxBasePriority (tcbs k t) else prio k t) \<and>
    t \<in> set (members k' (Ready (prio k' t))) \<and>
    uxMutexesHeld (tcbs k' t) = uxMutexesHeld (tcbs k t) - 1 \<and> (y \<longleftrightarrow> prio k' t \<noteq> prio k t) \<and>
    (\<forall>u. u \<noteq> t \<longrightarrow> tcbs k' u = tcbs k u)"
proof -
  obtain y k' where s: "xTaskPriorityDisinherit (Some t) k = Some (y, k')" "sched_inv k'" "same_clock k k'"
    "kernel.more k' = kernel.more k"
    "y \<longleftrightarrow> prio k t \<noteq> uxBasePriority (tcbs k t) \<and> uxMutexesHeld (tcbs k t) = 1"
    "tcbs k' = (tcbs k)(t := (if y then disinherited else id)
       ((tcbs k t)\<lparr>uxMutexesHeld := uxMutexesHeld (tcbs k t) - 1\<rparr>))"
    "\<And>l'. is_event_list l' \<Longrightarrow> task_lists k' l' = task_lists k l'"
    by (rule xTaskPriorityDisinherit_spec [OF assms], rule that)
  have "state_list (tcbs k' t) = Some (Ready (prio k' t))"
    using assms(3) by (simp add: s(6) disinherited_def renumbered_def)
  with state_member [OF sched_inv_parts(3) [OF s(2)], of "Ready (prio k' t)" t]
  show ?thesis
    using s(1,2,5) by (intro exI [of _ y] exI [of _ k']) (auto simp: s(6) disinherited_def)
qed

text \<open>
  C14. \<open>xTaskCheckForTimeOut\<close> measures time exactly across the wrap of the tick counter: for a
  wait that began at tick \<open>e\<close> of the true time and is checked at tick \<open>n\<close>, less than \<open>2^32\<close> ticks later,
  it reports a timeout if and only if \<open>w\<close> ticks have passed, and otherwise leaves the ticks that are
  still to wait and restarts the measurement.
\<close>

theorem xTaskCheckForTimeOut_exact:
  assumes "e \<le> n" "n - e < 2 ^ 32" "clock_at n k" "w \<noteq> portMAX_DELAY"
  shows "xTaskCheckForTimeOut (entered_at e) w k =
    (if n - e < unat w then (False, entered_at n, w - of_nat (n - e)) else (True, entered_at e, 0))"
  using assms by (rule xTaskCheckForTimeOut_near)

section \<open>Kernels with more state\<close>

lemma extend_fields [simp]:
  "tcbs (kernel.extend k e) = tcbs k" "task_lists (kernel.extend k e) = task_lists k"
  "pxCurrentTCB (kernel.extend k e) = pxCurrentTCB k" "xTickCount (kernel.extend k e) = xTickCount k"
  "pxDelayedTaskList (kernel.extend k e) = pxDelayedTaskList k"
  "pxOverflowDelayedTaskList (kernel.extend k e) = pxOverflowDelayedTaskList k"
  "xNextTaskUnblockTime (kernel.extend k e) = xNextTaskUnblockTime k"
  "uxTopReadyPriority (kernel.extend k e) = uxTopReadyPriority k"
  "uxSchedulerSuspended (kernel.extend k e) = uxSchedulerSuspended k"
  "xPendedTicks (kernel.extend k e) = xPendedTicks k" "xSchedulerRunning (kernel.extend k e) = xSchedulerRunning k"
  "uxCurrentNumberOfTasks (kernel.extend k e) = uxCurrentNumberOfTasks k"
  by (simp_all add: kernel.defs)

lemma extend_inv [simp]: "sched_inv (kernel.extend k e) = sched_inv k" "quiet (kernel.extend k e) = quiet k"
  by (simp_all add: inv_defs lists_ok_def ready_ok_def delayed_ok_def quiet_def pending_def)

section \<open>A concrete kernel\<close>

text \<open>
  The idle task 0, task 1 running at priority 5 with one mutex, task 2 of priority 7 that waits for a
  queue until tick 8, and task 3 of priority 3, which waits without limit and has been readied while
  the scheduler was suspended; the tick counter is 5.
\<close>

definition demo_tcb :: "UBaseType_t \<Rightarrow> list_id \<Rightarrow> TickType_t \<Rightarrow> list_id option \<Rightarrow> tcb" where
  "demo_tcb p l v e = zero_tcb\<lparr>uxPriority := p, uxBasePriority := p, state_list := Some l,
     state_value := v, event_list := e, event_value := configMAX_PRIORITIES - p\<rparr>"

definition demo_kernel :: "UBaseType_t \<Rightarrow> list_id option \<Rightarrow> kernel" where
  "demo_kernel susp e3 = \<lparr>
     tcbs = (\<lambda>_. zero_tcb)(0 := demo_tcb 0 (Ready 0) 0 None,
       1 := (demo_tcb 5 (Ready 5) 0 None)\<lparr>uxMutexesHeld := 1\<rparr>,
       2 := demo_tcb 7 Delayed1 8 (Some (WaitingToReceive 0)),
       3 := demo_tcb 3 SuspendedTaskList 0 e3),
     task_lists = (\<lambda>_. kl_empty)(Ready 0 := \<lparr>kitems = [0], kindex = None\<rparr>,
       Ready 5 := \<lparr>kitems = [1], kindex = None\<rparr>, Delayed1 := \<lparr>kitems = [2], kindex = None\<rparr>,
       SuspendedTaskList := \<lparr>kitems = [3], kindex = None\<rparr>,
       WaitingToReceive 0 := \<lparr>kitems = [2], kindex = None\<rparr>,
       PendingReadyList := \<lparr>kitems = (if e3 = None then [] else [3]), kindex = None\<rparr>),
     pxCurrentTCB = Some 1, pxDelayedTaskList = Delayed1, pxOverflowDelayedTaskList = Delayed2,
     uxDeletedTasksWaitingCleanUp = 0, uxCurrentNumberOfTasks = 4, xTickCount = 5,
     uxTopReadyPriority = 5, xSchedulerRunning = True, xPendedTicks = (if susp = 0 then 0 else 1),
     xYieldPending = False, xNumOfOverflows = 0, uxTaskNumber = 4, xNextTaskUnblockTime = 8,
     uxSchedulerSuspended = susp, pendsv = False\<rparr>"

lemmas demo_defs = demo_kernel_def demo_tcb_def zero_tcb_def configMAX_PRIORITIES_def

lemma demo_sched_inv:
  assumes "e3 \<in> {None, Some PendingReadyList}"
  shows "sched_inv (demo_kernel susp e3)"
proof -
  let ?k = "demo_kernel susp e3"
  have "lists_ok ?k"
    using assms by (auto simp: lists_ok_def demo_defs kl_wf_def kl_empty_def split: if_splits)
  moreover have "ready_ok ?k" by (auto simp: ready_ok_def demo_defs split: if_splits)
  moreover have "delayed_ok ?k" by (auto simp: delayed_ok_def demo_defs kl_empty_def split: if_splits)
  moreover have "no_due ?k" "waiters_ok ?k"
    using assms by (auto simp: no_due_def waiters_ok_def demo_defs split: if_splits)
  ultimately show ?thesis by (simp add: sched_inv_def list_inv_def)
qed

lemma demo_quiet: "quiet (demo_kernel 0 None)"
  by (auto simp: quiet_def pending_def demo_defs)

lemma demo_kernel_fields:
  "pxCurrentTCB (demo_kernel s e) = Some 1" "uxSchedulerSuspended (demo_kernel s e) = s"
  "uxCurrentNumberOfTasks (demo_kernel s e) = 4" "members (demo_kernel s e) (Ready 0) = [0]"
  "state_list (tcbs (demo_kernel s e) 1) = Some (Ready 5)" "prio (demo_kernel s e) 1 = 5"
  "state_list (tcbs (demo_kernel s e) 0) = Some (Ready 0)" "uxMutexesHeld (tcbs (demo_kernel s e) 1) = 1"
  "prio (demo_kernel s e) 0 = 0" "uxBasePriority (tcbs (demo_kernel s e) 1) = 5"
  "event_list (tcbs (demo_kernel s e) 3) = e" "prio (demo_kernel s e) 3 = 3"
  "xPendedTicks (demo_kernel 1 e) = 1"
  "xTickCount (demo_kernel s e) = 5" "xNumOfOverflows (demo_kernel s e) = 0"
  by (simp_all add: demo_defs)

theorem vTaskSwitchContext_highest_witness:
  "\<exists>k'. vTaskSwitchContext (demo_kernel 0 None) = Some k' \<and> sched_inv k' \<and> runs_highest k' \<and>
    \<not> xYieldPending k' \<and> tcbs k' = tcbs (demo_kernel 0 None)"
  by (rule vTaskSwitchContext_highest [of _ 0]) (simp_all add: demo_sched_inv demo_kernel_fields)

theorem xTaskIncrementTick_wakes_witness:
  "\<exists>sw k'. xTaskIncrementTick (demo_kernel 0 None) = Some (sw, k') \<and> sched_inv k' \<and> xTickCount k' = 6"
  using xTaskIncrementTick_wakes [of "demo_kernel 0 None" 1] by (auto simp: demo_sched_inv demo_kernel_fields)

theorem vTaskDelay_exact_witness:
  "\<exists>k'. vTaskDelay 3 (demo_kernel 0 None) = Some k' \<and> sched_inv k' \<and>
    (\<exists>k''. replay_ticks 2 k' = Some k'' \<and> blocked k'' 1) \<and>
    (\<exists>k''. replay_ticks 3 k' = Some k'' \<and> state_list (tcbs k'' 1) = Some (Ready 5))"
proof -
  obtain k' where k: "vTaskDelay 3 (demo_kernel 0 None) = Some k'" "sched_inv k'"
    "\<And>j. \<exists>k''. replay_ticks j k' = Some k'' \<and> sched_inv k'' \<and>
      (if j < unat (3::32 word) then blocked k'' 1 else state_list (tcbs k'' 1) = Some (Ready 5))"
    using vTaskDelay_exact [of "demo_kernel 0 None" 1 5 3] by (auto simp: demo_sched_inv demo_quiet demo_kernel_fields simp del: One_nat_def)
  then show ?thesis using k(3) [of 2] k(3) [of 3] by auto
qed


theorem xTaskPriorityInherit_raises_witness:
  "\<exists>y k'. xTaskPriorityInherit (Some 0) (demo_kernel 0 None) = Some (y, k') \<and> sched_inv k' \<and>
    prio k' 0 = 5 \<and> 0 \<in> set (members k' (Ready 5))"
  using xTaskPriorityInherit_raises [of "demo_kernel 0 None" 1 0 "Ready 0"] 
  by (auto simp: demo_sched_inv demo_kernel_fields max_def simp del: One_nat_def)

theorem xTaskPriorityDisinherit_restores_witness:
  "\<exists>y k'. xTaskPriorityDisinherit (Some 1) (demo_kernel 0 None) = Some (y, k') \<and> sched_inv k' \<and>
    prio k' 1 = 5 \<and> uxMutexesHeld (tcbs k' 1) = 0"
  using xTaskPriorityDisinherit_restores [of "demo_kernel 0 None" 1]
  by (auto simp: demo_sched_inv demo_kernel_fields simp del: One_nat_def)

theorem xTaskCheckForTimeOut_exact_witness:
  "xTaskCheckForTimeOut (entered_at 2) 10 (demo_kernel 0 None) = (False, entered_at 5, 7)"
  using xTaskCheckForTimeOut_exact [of 2 5 "demo_kernel 0 None" 10]
  by (simp add: clock_at_def demo_kernel_fields portMAX_DELAY_def)

end
