(* ===== verification/Queue_Props.thy ===== *)
theory Queue_Props
  imports Kernel_Queue Scheduler_Ops
begin

text \<open>
  Correctness of the kernel queues: the storage area is a ring that implements a bounded sequence of
  items, sending and receiving move items through it in order and release the right waiters, blocked
  callers are on the right lists, the lock counts lose no wake-up, and mutexes keep their holder.
\<close>

section \<open>The storage area\<close>

definition head_index :: "Queue_t \<Rightarrow> nat" where
  "head_index Q = (nat (pcReadFrom (u_ptrs Q)) div unat (uxItemSize Q) + 1) mod unat (uxLength Q)"

definition contents :: "Queue_t \<Rightarrow> u8 list list" where
  "contents Q = ring (slot (storage Q) (unat (uxItemSize Q))) (unat (uxLength Q)) (head_index Q)
     (unat (uxMessagesWaiting Q))"

definition ring_at :: "nat \<Rightarrow> Queue_t \<Rightarrow> bool" where
  "ring_at i Q \<longleftrightarrow>
     (let len = unat (uxLength Q); sz = unat (uxItemSize Q); n = unat (uxMessagesWaiting Q)
      in 0 < sz \<and> i < len \<and> n \<le> len \<and> len * sz < 2 ^ 32 \<and> length (storage Q) = len * sz \<and>
         pcHead Q = Some 0 \<and> pcWriteTo Q = int ((i + n) mod len * sz) \<and>
         u_ptrs Q = QueuePointers (int (len * sz)) (int ((i + (len - 1)) mod len * sz)))"

text \<open>A queue of items: the pointers enclose the items in the storage area.\<close>

definition data_queue :: "Queue_t \<Rightarrow> bool" where
  "data_queue Q \<longleftrightarrow> (\<exists>i. ring_at i Q)"

lemma ring_at_head:
  assumes "ring_at i Q"
  shows "head_index Q = i"
proof -
  let ?len = "unat (uxLength Q)"
  have "head_index Q = ((i + (?len - 1)) mod ?len + 1) mod ?len"
    using assms by (simp add: ring_at_def head_index_def Let_def nat_mult_distrib)
  also have "\<dots> = (i + ?len) mod ?len" using assms by (simp add: mod_simps ring_at_def Let_def)
  finally show ?thesis using assms by (simp add: ring_at_def Let_def)
qed

lemma data_queue_ring: "data_queue Q \<longleftrightarrow> ring_at (head_index Q) Q"
  using ring_at_head by (auto simp: data_queue_def)

lemma length_contents [simp]: "length (contents Q) = unat (uxMessagesWaiting Q)"
  by (simp add: contents_def)

lemma contents_at:
  "ring_at i Q \<Longrightarrow> contents Q = ring (slot (storage Q) (unat (uxItemSize Q))) (unat (uxLength Q)) i
     (unat (uxMessagesWaiting Q))"
  by (simp add: contents_def ring_at_head)

lemma step_offset:
  assumes "0 < sz" "j < len"
  shows "(if int (len * sz) \<le> int (j * sz) + int sz then 0 else int (j * sz) + int sz) =
    int (Suc j mod len * sz)"
proof (cases "Suc j = len")
  case True
  then have "j * sz + sz = len * sz" by auto
  then have "int (j * sz) + int sz = int (len * sz)" by (metis of_nat_add)
  then show ?thesis using True by simp
next
  case False
  then have "Suc j < len" using assms(2) by simp
  then have "Suc j * sz < len * sz" using assms(1) by (intro mult_strict_right_mono) auto
  then have "j * sz + sz < len * sz" by (simp add: add.commute)
  then have "int (j * sz) + int sz < int (len * sz)" by (simp only: of_nat_add [symmetric] of_nat_less_iff)
  then show ?thesis using \<open>Suc j < len\<close> by (simp add: algebra_simps)
qed

lemma back_offset:
  assumes "0 < sz" "j < len"
  shows "(if int (j * sz) - int sz < 0 then int (len * sz) - int sz else int (j * sz) - int sz) =
    int ((j + (len - 1)) mod len * sz)"
proof (cases j)
  case 0
  have "int (len * sz) - int sz = int ((len - 1) * sz)"
    using assms(2) by (cases len) simp_all
  then show ?thesis using 0 assms by simp
next
  case (Suc i)
  then have "(j + (len - 1)) mod len = i" using assms(2) by simp
  moreover have "int (j * sz) - int sz = int (i * sz)" using Suc by simp
  ultimately show ?thesis by (simp only: of_nat_less_0_iff if_False)
qed

lemma uint_size: "uint (x :: 32 word) = int (unat x)"
  by (rule uint_nat)

lemma copy_to_back_ring:
  assumes "ring_at i Q" "unat (uxMessagesWaiting Q) < unat (uxLength Q)" "length b = unat (uxItemSize Q)"
  obtains Q' where "copy_to_back b Q = Some Q'"
    "ring_at i (Q'\<lparr>uxMessagesWaiting := uxMessagesWaiting Q + 1\<rparr>)"
    "contents (Q'\<lparr>uxMessagesWaiting := uxMessagesWaiting Q + 1\<rparr>) = contents Q @ [b]"
    "\<exists>s w. Q' = Q\<lparr>storage := s, pcWriteTo := w\<rparr>"
proof -
  let ?len = "unat (uxLength Q)" let ?sz = "unat (uxItemSize Q)" let ?n = "unat (uxMessagesWaiting Q)"
  let ?j = "(i + ?n) mod ?len"
  have r: "0 < ?sz" "i < ?len" "length (storage Q) = ?len * ?sz" "pcHead Q = Some 0" "?len * ?sz < 2 ^ 32"
    "pcWriteTo Q = int (?j * ?sz)"
    "u_ptrs Q = QueuePointers (int (?len * ?sz)) (int ((i + (?len - 1)) mod ?len * ?sz))"
    using assms(1) by (auto simp: ring_at_def Let_def)
  have j: "?j < ?len" using r(2) by simp
  obtain s where s: "write_at (int (?j * ?sz)) b (storage Q) = Some s" "length s = length (storage Q)"
    "slot s ?sz = (slot (storage Q) ?sz)(?j := b)"
    by (rule write_at_slot [OF r(3) j assms(3)])
  have n1: "unat (uxMessagesWaiting Q + 1) = Suc ?n"
    using assms(2) by (rule unat_Suc)
  let ?Q = "Q\<lparr>storage := s, pcWriteTo := int (Suc ?j mod ?len * ?sz)\<rparr>"
  let ?R = "?Q\<lparr>uxMessagesWaiting := uxMessagesWaiting Q + 1\<rparr>"
  have w: "write_at (pcWriteTo Q) b (storage Q) = Some s" using s(1) by (simp only: r(6))
  have off: "(if int (?len * ?sz) \<le> pcWriteTo Q + uint (uxItemSize Q) then 0
      else pcWriteTo Q + uint (uxItemSize Q)) = int (Suc ?j mod ?len * ?sz)"
    using step_offset [OF r(1) j] by (simp only: r(6) uint_size)
  have c: "copy_to_back b Q = Some ?Q"
    by (simp only: copy_to_back_def w r(4,7) Let_def bind.bind_lunit queue_union.case off)
  have at: "ring_at i ?R"
    using r s(2) assms(2) n1 by (simp add: ring_at_def Let_def mod_simps)
  have "contents ?R = contents Q @ [b]"
    using ring_snoc [OF assms(2), of "slot (storage Q) ?sz" i b]
    by (simp only: contents_at [OF at] contents_at [OF assms(1)]) (simp add: n1 s(3))
  with c at show thesis by (intro that [of ?Q]) auto
qed

lemma ring_at_parts:
  assumes "ring_at i Q"
  defines "len \<equiv> unat (uxLength Q)" and "sz \<equiv> unat (uxItemSize Q)" and "n \<equiv> unat (uxMessagesWaiting Q)"
  shows "0 < sz" "i < len" "n \<le> len" "length (storage Q) = len * sz" "pcHead Q = Some 0" "len * sz < 2 ^ 32"
    "pcWriteTo Q = int ((i + n) mod len * sz)"
    "u_ptrs Q = QueuePointers (int (len * sz)) (int ((i + (len - 1)) mod len * sz))"
  using assms(1) by (auto simp: ring_at_def Let_def len_def sz_def n_def)

lemma copy_to_front_ring:
  assumes "ring_at i Q" "unat (uxMessagesWaiting Q) < unat (uxLength Q)" "length b = unat (uxItemSize Q)"
  obtains Q' where "copy_to_front b Q = Some Q'"
    "data_queue (Q'\<lparr>uxMessagesWaiting := uxMessagesWaiting Q + 1\<rparr>)"
    "contents (Q'\<lparr>uxMessagesWaiting := uxMessagesWaiting Q + 1\<rparr>) = b # contents Q"
    "\<exists>s u. Q' = Q\<lparr>storage := s, u_ptrs := u\<rparr>"
proof -
  let ?len = "unat (uxLength Q)" let ?sz = "unat (uxItemSize Q)" let ?n = "unat (uxMessagesWaiting Q)"
  let ?j = "(i + (?len - 1)) mod ?len"
  note r = ring_at_parts [OF assms(1)]
  have j: "?j < ?len" using r(2) by simp
  obtain s where s: "write_at (int (?j * ?sz)) b (storage Q) = Some s" "length s = length (storage Q)"
    "slot s ?sz = (slot (storage Q) ?sz)(?j := b)"
    by (rule write_at_slot [OF r(4) j assms(3)])
  have n1: "unat (uxMessagesWaiting Q + 1) = Suc ?n" using assms(2) by (rule unat_Suc)
  let ?Q = "Q\<lparr>storage := s, u_ptrs := QueuePointers (int (?len * ?sz)) (int ((?j + (?len - 1)) mod ?len * ?sz))\<rparr>"
  let ?R = "?Q\<lparr>uxMessagesWaiting := uxMessagesWaiting Q + 1\<rparr>"
  have off: "(if int (?j * ?sz) - uint (uxItemSize Q) < 0 then int (?len * ?sz) - uint (uxItemSize Q)
      else int (?j * ?sz) - uint (uxItemSize Q)) = int ((?j + (?len - 1)) mod ?len * ?sz)"
    using back_offset [OF r(1) j] by (simp only: uint_size)
  have c: "copy_to_front b Q = Some ?Q"
    by (simp only: copy_to_front_def read_from_def s(1) r(5,8) Let_def bind.bind_lunit queue_union.case off)
  have "(?j + Suc ?n) mod ?len = (i + ?n) mod ?len"
    using assms(2) by (intro ring_back) simp
  then have at: "ring_at ?j ?R"
    using r s(2) assms(2) j by (simp add: ring_at_def Let_def n1)
  have "contents ?R = b # contents Q"
    using ring_cons [OF assms(2), of "slot (storage Q) ?sz" i b]
    by (simp only: contents_at [OF at] contents_at [OF assms(1)]) (simp add: n1 s(3) ring_mod)
  with c at show thesis by (intro that [of ?Q]) (auto simp: data_queue_def)
qed

lemma copy_to_front_count:
  "copy_to_front b (Q\<lparr>uxMessagesWaiting := m\<rparr>) =
    map_option (\<lambda>Q. Q\<lparr>uxMessagesWaiting := m\<rparr>) (copy_to_front b Q)"
  by (cases "u_ptrs Q"; cases "write_at (pcReadFrom (u_ptrs Q)) b (storage Q)"; cases "pcHead Q")
    (simp_all add: copy_to_front_def read_from_def Let_def)

text \<open>Overwriting a queue of length one replaces its item.\<close>

lemma copy_to_front_overwrite:
  assumes "ring_at i Q" "uxLength Q = 1" "length b = unat (uxItemSize Q)"
  obtains Q' where "copy_to_front b Q = Some Q'" "data_queue (Q'\<lparr>uxMessagesWaiting := 1\<rparr>)"
    "contents (Q'\<lparr>uxMessagesWaiting := 1\<rparr>) = [b]" "\<exists>s u. Q' = Q\<lparr>storage := s, u_ptrs := u\<rparr>"
proof -
  let ?Q = "Q\<lparr>uxMessagesWaiting := 0\<rparr>"
  have at: "ring_at i ?Q" using ring_at_parts [OF assms(1)] assms(2) by (simp add: ring_at_def Let_def)
  obtain Q' where q: "copy_to_front b ?Q = Some Q'"
    "data_queue (Q'\<lparr>uxMessagesWaiting := uxMessagesWaiting ?Q + 1\<rparr>)"
    "contents (Q'\<lparr>uxMessagesWaiting := uxMessagesWaiting ?Q + 1\<rparr>) = b # contents ?Q"
    "\<exists>s u. Q' = ?Q\<lparr>storage := s, u_ptrs := u\<rparr>"
    by (rule copy_to_front_ring [OF at]) (use assms in auto)
  obtain Q0 where q0: "copy_to_front b Q = Some Q0" "Q' = Q0\<lparr>uxMessagesWaiting := 0\<rparr>"
    using q(1) by (auto simp: copy_to_front_count)
  moreover have "contents ?Q = []" by (simp add: contents_def)
  moreover have "\<exists>s u. Q0 = Q\<lparr>storage := s, u_ptrs := u\<rparr>"
    using q0(1) by (auto simp: copy_to_front_def read_from_def bind_eq_Some_conv Let_def)
  ultimately show thesis using q(2,3) by (intro that [of Q0]) auto
qed

lemma copy_from_ring:
  assumes "ring_at i Q" "0 < unat (uxMessagesWaiting Q)"
  obtains Q' where "prvCopyDataFromQueue Q = Some (hd (contents Q), Q')"
    "data_queue (Q'\<lparr>uxMessagesWaiting := uxMessagesWaiting Q - 1\<rparr>)"
    "contents (Q'\<lparr>uxMessagesWaiting := uxMessagesWaiting Q - 1\<rparr>) = tl (contents Q)"
    "\<exists>u. Q' = Q\<lparr>u_ptrs := u\<rparr>"
proof -
  let ?len = "unat (uxLength Q)" let ?sz = "unat (uxItemSize Q)" let ?n = "unat (uxMessagesWaiting Q)"
  let ?j = "(i + (?len - 1)) mod ?len"
  note r = ring_at_parts [OF assms(1)]
  have j: "?j < ?len" using r(2) by simp
  have ji: "Suc ?j mod ?len = i" using r(2) by (simp add: mod_simps)
  have n1: "unat (uxMessagesWaiting Q - 1) = ?n - 1" using assms(2) by (rule unat_pred)
  let ?Q = "Q\<lparr>u_ptrs := QueuePointers (int (?len * ?sz)) (int (i * ?sz))\<rparr>"
  let ?R = "?Q\<lparr>uxMessagesWaiting := uxMessagesWaiting Q - 1\<rparr>"
  have off: "(if int (?len * ?sz) \<le> int (?j * ?sz) + uint (uxItemSize Q) then 0
      else int (?j * ?sz) + uint (uxItemSize Q)) = int (i * ?sz)"
    using step_offset [OF r(1) j] by (simp only: uint_size ji)
  have nz: "uxItemSize Q \<noteq> 0" using r(1) by auto
  have c: "prvCopyDataFromQueue Q = Some (slot (storage Q) ?sz i, ?Q)"
    by (simp only: prvCopyDataFromQueue_def read_from_def nz r(5,8) Let_def bind.bind_lunit queue_union.case off
        not_False_eq_True if_True read_at_slot [OF r(4) r(2)])
  have m: "Suc i mod ?len < ?len" "(Suc i mod ?len + (?n - 1)) mod ?len = (i + ?n) mod ?len"
    "(Suc i mod ?len + (?len - 1)) mod ?len = i"
    using r(2) ring_forth [OF assms(2), of i ?len] ring_forth [of ?len i ?len] by simp_all
  have at: "ring_at (Suc i mod ?len) ?R"
    using r m by (simp add: ring_at_def Let_def n1)
  have "ring f ?len i ?n = f i # ring f ?len (Suc i) (?n - 1)" for f :: "nat \<Rightarrow> u8 list"
    using ring_Suc [of f ?len i "?n - 1"] assms(2) r(2) by simp
  then have "contents Q = slot (storage Q) ?sz i # contents ?R"
    by (simp only: contents_at [OF at] contents_at [OF assms(1)]) (simp add: n1 ring_mod)
  with c at show thesis by (intro that [of ?Q]) (auto simp: data_queue_def)
qed

section \<open>Queues inside the kernel\<close>

lemma upd_queue_base [simp]:
  "tcbs (upd_queue q f k) = tcbs k" "task_lists (upd_queue q f k) = task_lists k"
  "pxCurrentTCB (upd_queue q f k) = pxCurrentTCB k" "xTickCount (upd_queue q f k) = xTickCount k"
  "uxSchedulerSuspended (upd_queue q f k) = uxSchedulerSuspended k"
  "uxCurrentNumberOfTasks (upd_queue q f k) = uxCurrentNumberOfTasks k"
  "xPendedTicks (upd_queue q f k) = xPendedTicks k" "xYieldPending (upd_queue q f k) = xYieldPending k"
  "xNumOfOverflows (upd_queue q f k) = xNumOfOverflows k" "pendsv (upd_queue q f k) = pendsv k"
  "queues (upd_queue q f k) = (queues k)(q := f (queues k q))"
  by (simp_all add: upd_queue_def)

lemma upd_queue_more [simp]: "qkernel.more (upd_queue q f k) = qkernel.more k"
  by (simp add: upd_queue_def)

lemma sched_inv_upd_queue [simp]: "sched_inv (upd_queue q f k) = sched_inv k"
  by (simp add: upd_queue_def inv_defs lists_ok_def ready_ok_def delayed_ok_def)

lemma blocked_upd_queue [simp]:
  "blocked (upd_queue q f k) t = blocked k t" "pending (upd_queue q f k) t = pending k t"
  "remaining (upd_queue q f k) t = remaining k t" "released (upd_queue q f k) b = released k b"
  by (simp_all add: blocked_def pending_def remaining_def released_def)

lemma queues_more:
  "kernel.more k' = kernel.more k \<Longrightarrow> queues k' = queues k"
  "kernel.more k' = kernel.more k \<Longrightarrow> xQueueRegistry k' = xQueueRegistry k"
  "kernel.more k' = kernel.more k \<Longrightarrow> qkernel.more k' = qkernel.more k"
  by (cases k; cases k'; simp)+

text \<open>
  The waiters that \<open>n\<close> releases take off an event list: the first \<open>n\<close> of it, which are the waiters
  of the highest priorities; each is readied, or put on the pending list if the scheduler is
  suspended.
\<close>

definition waiters_gone :: "list_id \<Rightarrow> nat \<Rightarrow> 'z kernel_scheme \<Rightarrow> 'z kernel_scheme \<Rightarrow> bool" where
  "waiters_gone l n k k' \<longleftrightarrow>
     members k' l = drop n (members k l) \<and>
     tcbs k' = (\<lambda>t. if t \<in> set (take n (members k l)) then released k (tcbs k t) else tcbs k t) \<and>
     (\<forall>l'. is_event_list l' \<and> l' \<noteq> l \<and> l' \<noteq> PendingReadyList \<longrightarrow> task_lists k' l' = task_lists k l') \<and>
     kernel.more k' = kernel.more k \<and> pxCurrentTCB k' = pxCurrentTCB k \<and> xTickCount k' = xTickCount k \<and>
     uxSchedulerSuspended k' = uxSchedulerSuspended k \<and> xPendedTicks k' = xPendedTicks k \<and>
     uxCurrentNumberOfTasks k' = uxCurrentNumberOfTasks k \<and>
     pxDelayedTaskList k' = pxDelayedTaskList k \<and> pxOverflowDelayedTaskList k' = pxOverflowDelayedTaskList k \<and>
     xNumOfOverflows k' = xNumOfOverflows k \<and> xSchedulerRunning k' = xSchedulerRunning k"

definition event_list_of :: "list_id \<Rightarrow> bool" where
  "event_list_of l \<longleftrightarrow> is_event_list l \<and> l \<noteq> PendingReadyList"

lemma remove_one_waiter:
  assumes "sched_inv k" "pxCurrentTCB k = Some c" "members k l \<noteq> []" "event_list_of l"
  obtains y k' where "xTaskRemoveFromEventList l k = Some (y, k')" "sched_inv k'" "waiters_gone l 1 k k'"
    "y \<longleftrightarrow> prio k c < prio k (hd (members k l))" "pendsv k' = pendsv k"
    "xYieldPending k' \<longleftrightarrow> xYieldPending k \<or> y"
proof -
  obtain t ts where m: "members k l = t # ts" using assms(3) by (cases "members k l") auto
  obtain y k' where x: "xTaskRemoveFromEventList l k = Some (y, k')" "sched_inv k'"
    "y \<longleftrightarrow> prio k c < prio k t" "tcbs k' = (tcbs k)(t := released k (tcbs k t))"
    "kernel.more k' = kernel.more k" "members k' l = ts"
    "same_clock k (k'\<lparr>xYieldPending := xYieldPending k\<rparr>)"
    "xYieldPending k' \<longleftrightarrow> xYieldPending k \<or> y"
    "\<And>l'. is_event_list l' \<Longrightarrow> l' \<noteq> l \<Longrightarrow> l' \<noteq> PendingReadyList \<Longrightarrow> task_lists k' l' = task_lists k l'"
    by (rule xTaskRemoveFromEventList_spec [OF assms(1,2) m])
      (use assms(4) in \<open>auto simp: event_list_of_def intro: that\<close>)
  have "waiters_gone l 1 k k'"
    using x by (auto simp: waiters_gone_def m same_clock_def)
  moreover have "pendsv k' = pendsv k" using x(7) by (simp add: same_clock_def)
  ultimately show thesis using x(1-3,8) m by (intro that) auto
qed

lemma waiters_gone_queues: "waiters_gone l n k k' \<Longrightarrow> queues k' = queues k"
  unfolding waiters_gone_def using queues_more(1) by blast

lemma waiters_gone_more: "waiters_gone l n k k' \<Longrightarrow> qkernel.more k' = qkernel.more k"
  unfolding waiters_gone_def using queues_more(3) by blast

lemma waiters_gone_none: "waiters_gone l n k k' \<Longrightarrow> members k l = [] \<Longrightarrow> tcbs k' = tcbs k"
  by (simp add: waiters_gone_def)

lemma waiters_gone_0 [simp]: "waiters_gone l 0 k k"
  by (simp add: waiters_gone_def)

lemma waiters_gone_Suc:
  assumes "waiters_gone l 1 k k1" "waiters_gone l n k1 k2" "distinct (members k l)"
  shows "waiters_gone l (Suc n) k k2"
proof (cases "members k l")
  case (Cons t ts)
  have k1: "members k1 l = ts" "tcbs k1 = (tcbs k)(t := released k (tcbs k t))"
    "uxSchedulerSuspended k1 = uxSchedulerSuspended k"
    using assms(1) Cons by (auto simp: waiters_gone_def)
  have r: "released k1 b = released k b" for b by (simp add: released_def k1(3))
  have "t \<notin> set (take n ts)" using assms(3) Cons by (auto dest: in_set_takeD)
  then have "tcbs k2 = (\<lambda>u. if u \<in> set (take (Suc n) (t # ts)) then released k (tcbs k u) else tcbs k u)"
    using assms(2) by (auto simp: waiters_gone_def k1 r)
  then show ?thesis using assms(1,2) Cons by (simp add: waiters_gone_def)
qed (use assms in \<open>auto simp: waiters_gone_def\<close>)

lemma release_waiters_spec:
  assumes "sched_inv k" "pxCurrentTCB k = Some c" "event_list_of l"
  shows "\<exists>k'. release_waiters l n k = Some k' \<and> sched_inv k' \<and> waiters_gone l n k k' \<and> pendsv k' = pendsv k \<and>
    (xYieldPending k' \<longleftrightarrow> xYieldPending k \<or> (\<exists>t\<in>set (take n (members k l)). prio k c < prio k t))"
  using assms
proof (induction n arbitrary: k)
  case (Suc n)
  show ?case
  proof (cases "members k l = []")
    case True
    then have "waiters_gone l (Suc n) k k" by (simp add: waiters_gone_def)
    with True Suc(2) show ?thesis by simp
  next
    case False
    obtain y k1 where r: "xTaskRemoveFromEventList l k = Some (y, k1)" "sched_inv k1" "waiters_gone l 1 k k1"
      "y \<longleftrightarrow> prio k c < prio k (hd (members k l))" "pendsv k1 = pendsv k"
      "xYieldPending k1 \<longleftrightarrow> xYieldPending k \<or> y"
      by (rule remove_one_waiter [OF Suc(2,3) False Suc(4)])
    let ?k1 = "if y then vTaskMissedYield k1 else k1"
    have e: "?k1 = k1" using r(6) by (auto simp: vTaskMissedYield_def)
    have "pxCurrentTCB k1 = Some c" using r(3) Suc(3) by (simp add: waiters_gone_def)
    with Suc(1) [OF r(2) _ Suc(4)] obtain k' where IH: "release_waiters l n k1 = Some k'" "sched_inv k'"
      "waiters_gone l n k1 k'" "pendsv k' = pendsv k1"
      "xYieldPending k' \<longleftrightarrow> xYieldPending k1 \<or> (\<exists>t\<in>set (take n (members k1 l)). prio k1 c < prio k1 t)"
      by blast
    have d: "distinct (members k l)" using sched_inv_parts(3) [OF Suc(2)] by (simp add: lists_ok_def kl_wf_def)
    have p: "prio k1 t = prio k t" for t using r(3) by (simp add: waiters_gone_def released_def)
    have "members k1 l = tl (members k l)" using r(3) by (simp add: waiters_gone_def drop_Suc)
    then have "xYieldPending k' \<longleftrightarrow> xYieldPending k \<or> (\<exists>t\<in>set (take (Suc n) (members k l)). prio k c < prio k t)"
      using IH(5) r(4,6) p False by (cases "members k l") auto
    then show ?thesis
      using IH r(1,5) e False waiters_gone_Suc [OF r(3) IH(3) d] by simp
  qed
qed simp

lemma queue_lists [simp]: "event_list_of (WaitingToSend q)" "event_list_of (WaitingToReceive q)"
  by (simp_all add: event_list_of_def)

lemma sched_inv_portYIELD [simp]: "sched_inv (portYIELD k) = sched_inv k"
  by (simp add: portYIELD_def)

lemma waiters_gone_pendsv [simp]: "waiters_gone l n k (k'\<lparr>pendsv := b\<rparr>) = waiters_gone l n k k'"
  by (simp add: waiters_gone_def)

text \<open>The first waiter of an event list has a higher priority than the running task.\<close>

definition outranked :: "list_id \<Rightarrow> 'z kernel_scheme \<Rightarrow> bool" where
  "outranked l k \<longleftrightarrow> (case members k l of [] \<Rightarrow> False
     | t # _ \<Rightarrow> (case pxCurrentTCB k of None \<Rightarrow> False | Some c \<Rightarrow> prio k c < prio k t))"

lemma release_and_yield_spec:
  assumes "sched_inv k" "pxCurrentTCB k = Some c" "event_list_of l"
  obtains k' where "release_and_yield l k = Some k'" "sched_inv k'" "waiters_gone l 1 k k'"
    "pendsv k' \<longleftrightarrow> pendsv k \<or> outranked l k"
proof (cases "members k l")
  case Nil
  then have "waiters_gone l 1 k k" by (simp add: waiters_gone_def)
  with Nil assms show thesis by (intro that [of k]) (auto simp: release_and_yield_def outranked_def)
next
  case (Cons t ts)
  then have "members k l \<noteq> []" by simp
  then obtain y k1 where r: "xTaskRemoveFromEventList l k = Some (y, k1)" "sched_inv k1" "waiters_gone l 1 k k1"
    "y \<longleftrightarrow> prio k c < prio k (hd (members k l))" "pendsv k1 = pendsv k"
    "xYieldPending k1 \<longleftrightarrow> xYieldPending k \<or> y"
    by (rule remove_one_waiter [OF assms(1,2) _ assms(3)])
  let ?k' = "if y then portYIELD k1 else k1"
  have "release_and_yield l k = Some ?k'" using r(1) Cons by (simp add: release_and_yield_def)
  moreover have "waiters_gone l 1 k ?k'" using r(3) by (simp add: portYIELD_def)
  ultimately show thesis
    using r(2,4,5) Cons assms(2) by (intro that [of ?k']) (auto simp: portYIELD_def outranked_def)
qed

lemma release_from_isr_spec:
  assumes "sched_inv k" "pxCurrentTCB k = Some c" "event_list_of l"
  obtains k' where "release_from_isr l w k = Some (outranked l k \<or> w, k')" "sched_inv k'" "waiters_gone l 1 k k'"
proof (cases "members k l")
  case Nil
  then have "waiters_gone l 1 k k" by (simp add: waiters_gone_def)
  with Nil assms show thesis by (intro that [of k]) (auto simp: release_from_isr_def outranked_def)
next
  case (Cons t ts)
  then have "members k l \<noteq> []" by simp
  then obtain y k1 where r: "xTaskRemoveFromEventList l k = Some (y, k1)" "sched_inv k1" "waiters_gone l 1 k k1"
    "y \<longleftrightarrow> prio k c < prio k (hd (members k l))" "pendsv k1 = pendsv k"
    "xYieldPending k1 \<longleftrightarrow> xYieldPending k \<or> y"
    by (rule remove_one_waiter [OF assms(1,2) _ assms(3)])
  then show thesis
    using Cons assms(2) by (intro that [of k1]) (auto simp: release_from_isr_def outranked_def)
qed

section \<open>Unlocking a queue\<close>

lemma prvUnlockQueue_spec:
  assumes "sched_inv k" "pxCurrentTCB k = Some c"
  obtains k1 k2 k' where "prvUnlockQueue q k = Some k'" "sched_inv k'"
    "waiters_gone (WaitingToReceive q) (nat (cTxLock (queues k q))) k k1"
    "waiters_gone (WaitingToSend q) (nat (cRxLock (queues k q)))
       (upd_queue q (\<lambda>Q. Q\<lparr>cTxLock := queueUNLOCKED\<rparr>) k1) k2"
    "k' = upd_queue q (\<lambda>Q. Q\<lparr>cRxLock := queueUNLOCKED\<rparr>) k2" "pendsv k' = pendsv k"
proof -
  let ?n = "nat (cTxLock (queues k q))" let ?m = "nat (cRxLock (queues k q))"
  obtain k1 where k1: "release_waiters (WaitingToReceive q) ?n k = Some k1" "sched_inv k1"
    "waiters_gone (WaitingToReceive q) ?n k k1" "pendsv k1 = pendsv k"
    using release_waiters_spec [OF assms queue_lists(2), of q ?n] by blast
  let ?k1 = "upd_queue q (\<lambda>Q. Q\<lparr>cTxLock := queueUNLOCKED\<rparr>) k1"
  have q1: "queues k1 = queues k" using k1(3) by (rule waiters_gone_queues)
  have "sched_inv ?k1" "pxCurrentTCB ?k1 = Some c" using k1(2,3) assms(2) by (simp_all add: waiters_gone_def)
  from release_waiters_spec [OF this queue_lists(1), of q ?m] obtain k2 where
    k2: "release_waiters (WaitingToSend q) ?m ?k1 = Some k2" "sched_inv k2"
    "waiters_gone (WaitingToSend q) ?m ?k1 k2" "pendsv k2 = pendsv ?k1" by blast
  have "cRxLock (queues ?k1 q) = cRxLock (queues k q)" using q1 by simp
  then have "prvUnlockQueue q k = Some (upd_queue q (\<lambda>Q. Q\<lparr>cRxLock := queueUNLOCKED\<rparr>) k2)"
    using k1(1) k2(1) by (simp add: prvUnlockQueue_def)
  moreover have "sched_inv (upd_queue q (\<lambda>Q. Q\<lparr>cRxLock := queueUNLOCKED\<rparr>) k2)"
    "pendsv (upd_queue q (\<lambda>Q. Q\<lparr>cRxLock := queueUNLOCKED\<rparr>) k2) = pendsv k"
    using k1(4) k2(2,4) by simp_all
  ultimately show thesis using that [OF _ _ k1(3) k2(3) refl] by blast
qed

text \<open>What unlocking does, over the state before: both locks open, waiters released by the counts.\<close>

lemma prvUnlockQueue_effect:
  assumes "sched_inv k" "pxCurrentTCB k = Some c"
  obtains k' where "prvUnlockQueue q k = Some k'" "sched_inv k'" "pxCurrentTCB k' = Some c"
    "queues k' = (queues k)(q := (queues k q)\<lparr>cTxLock := queueUNLOCKED, cRxLock := queueUNLOCKED\<rparr>)"
    "members k' (WaitingToReceive q) = drop (nat (cTxLock (queues k q))) (members k (WaitingToReceive q))"
    "members k' (WaitingToSend q) = drop (nat (cRxLock (queues k q))) (members k (WaitingToSend q))"
    "tcbs k' = (\<lambda>t. if t \<in> set (take (nat (cTxLock (queues k q))) (members k (WaitingToReceive q))) \<or>
         t \<in> set (take (nat (cRxLock (queues k q))) (members k (WaitingToSend q)))
       then released k (tcbs k t) else tcbs k t)"
    "uxSchedulerSuspended k' = uxSchedulerSuspended k" "xPendedTicks k' = xPendedTicks k"
    "xTickCount k' = xTickCount k" "uxCurrentNumberOfTasks k' = uxCurrentNumberOfTasks k"
    "pendsv k' = pendsv k" "qkernel.more k' = qkernel.more k"
proof -
  obtain k1 k2 k' where u: "prvUnlockQueue q k = Some k'" "sched_inv k'"
    "waiters_gone (WaitingToReceive q) (nat (cTxLock (queues k q))) k k1"
    "waiters_gone (WaitingToSend q) (nat (cRxLock (queues k q)))
       (upd_queue q (\<lambda>Q. Q\<lparr>cTxLock := queueUNLOCKED\<rparr>) k1) k2"
    "k' = upd_queue q (\<lambda>Q. Q\<lparr>cRxLock := queueUNLOCKED\<rparr>) k2" "pendsv k' = pendsv k"
    by (rule prvUnlockQueue_spec [OF assms])
  note g1 = u(3) [unfolded waiters_gone_def] and g2 = u(4) [unfolded waiters_gone_def]
  have ls: "task_lists k1 (WaitingToSend q) = task_lists k (WaitingToSend q)" using g1 by simp
  have lr: "task_lists k2 (WaitingToReceive q) = task_lists k1 (WaitingToReceive q)" using g2 by simp
  have q1: "queues k1 = queues k" by (rule waiters_gone_queues [OF u(3)])
  have q2: "queues k2 = (queues k)(q := (queues k q)\<lparr>cTxLock := queueUNLOCKED\<rparr>)"
    using waiters_gone_queues [OF u(4)] by (simp add: q1)
  have r1: "released k1 b = released k b" "released k (released k b) = released k b" for b
    using g1 by (simp_all add: released_def)
  have t1: "tcbs k1 t = (if t \<in> set (take (nat (cTxLock (queues k q))) (members k (WaitingToReceive q)))
      then released k (tcbs k t) else tcbs k t)" for t using g1 by simp
  have t2: "tcbs k2 t = (if t \<in> set (take (nat (cRxLock (queues k q))) (members k (WaitingToSend q)))
      then released k (tcbs k1 t) else tcbs k1 t)" for t using g2 by (simp add: ls r1(1))
  have t': "tcbs k' = (\<lambda>t. if t \<in> set (take (nat (cTxLock (queues k q))) (members k (WaitingToReceive q))) \<or>
         t \<in> set (take (nat (cRxLock (queues k q))) (members k (WaitingToSend q)))
       then released k (tcbs k t) else tcbs k t)"
    by (auto simp: u(5) t2 t1 r1)
  have m: "members k' (WaitingToReceive q) = drop (nat (cTxLock (queues k q))) (members k (WaitingToReceive q))"
    "members k' (WaitingToSend q) = drop (nat (cRxLock (queues k q))) (members k (WaitingToSend q))"
    using g1 g2 by (simp_all add: u(5) ls lr)
  have f: "pxCurrentTCB k' = Some c" "uxSchedulerSuspended k' = uxSchedulerSuspended k"
    "xPendedTicks k' = xPendedTicks k" "xTickCount k' = xTickCount k"
    "uxCurrentNumberOfTasks k' = uxCurrentNumberOfTasks k"
    using g1 g2 assms(2) by (simp_all add: u(5))
  have "queues k' = (queues k)(q := (queues k q)\<lparr>cTxLock := queueUNLOCKED, cRxLock := queueUNLOCKED\<rparr>)"
    by (simp add: u(5) q2)
  moreover have "qkernel.more k' = qkernel.more k"
    using waiters_gone_more [OF u(3)] waiters_gone_more [OF u(4)] by (simp add: u(5))
  ultimately show thesis using u(1,2) f m t' u(6) by (intro that [of k'])
qed

section \<open>Sending and receiving items\<close>

lemma upd_queue_upd [simp]: "upd_queue q g (upd_queue q f k) = upd_queue q (\<lambda>Q. g (f Q)) k"
  by (simp add: upd_queue_def)

text \<open>What a queue keeps when items move through it.\<close>

definition same_shape :: "Queue_t \<Rightarrow> Queue_t \<Rightarrow> bool" where
  "same_shape Q Q' \<longleftrightarrow> uxLength Q' = uxLength Q \<and> uxItemSize Q' = uxItemSize Q \<and>
     cTxLock Q' = cTxLock Q \<and> cRxLock Q' = cRxLock Q \<and> pcHead Q' = pcHead Q"

definition stored :: "copy_position \<Rightarrow> u8 list \<Rightarrow> u8 list list \<Rightarrow> u8 list list" where
  "stored pos b xs = (case pos of queueSEND_TO_BACK \<Rightarrow> xs @ [b] | queueSEND_TO_FRONT \<Rightarrow> b # xs
     | queueOVERWRITE \<Rightarrow> [b])"

lemma size_nonzero: "data_queue Q \<Longrightarrow> uxItemSize Q \<noteq> 0"
  by (auto simp: data_queue_def ring_at_def Let_def)

lemma prvCopyDataToQueue_data:
  assumes "data_queue (queues k q)" "unat (uxItemSize (queues k q)) \<le> length b"
    and room: "if pos = queueOVERWRITE then uxLength (queues k q) = 1
      else uxMessagesWaiting (queues k q) < uxLength (queues k q)"
  obtains Q' where "prvCopyDataToQueue q (Some b) pos k = Some (False, upd_queue q (\<lambda>_. Q') k)"
    "data_queue Q'" "same_shape (queues k q) Q'"
    "contents Q' = stored pos (take (unat (uxItemSize (queues k q))) b) (contents (queues k q))"
proof -
  let ?Q = "queues k q" let ?b = "take (unat (uxItemSize ?Q)) b"
  obtain i where at: "ring_at i ?Q" using assms(1) by (auto simp: data_queue_def)
  note nz = size_nonzero [OF assms(1)]
  have ib: "item_bytes (Some b) ?Q = Some ?b" and lb: "length ?b = unat (uxItemSize ?Q)"
    using assms(2) by (simp_all add: item_bytes_def)
  show thesis
  proof (cases pos)
    case queueSEND_TO_BACK
    with room have "unat (uxMessagesWaiting ?Q) < unat (uxLength ?Q)" by (simp add: word_less_nat_alt)
    from copy_to_back_ring [OF at this lb] obtain Q' where q: "copy_to_back ?b ?Q = Some Q'"
      "ring_at i (Q'\<lparr>uxMessagesWaiting := uxMessagesWaiting ?Q + 1\<rparr>)"
      "contents (Q'\<lparr>uxMessagesWaiting := uxMessagesWaiting ?Q + 1\<rparr>) = contents ?Q @ [?b]"
      "\<exists>s w. Q' = ?Q\<lparr>storage := s, pcWriteTo := w\<rparr>" by blast
    show thesis
      using q queueSEND_TO_BACK nz
      by (intro that [of "Q'\<lparr>uxMessagesWaiting := uxMessagesWaiting ?Q + 1\<rparr>"])
        (auto simp: prvCopyDataToQueue_def ib data_queue_def same_shape_def stored_def Let_def)
  next
    case queueSEND_TO_FRONT
    with room have "unat (uxMessagesWaiting ?Q) < unat (uxLength ?Q)" by (simp add: word_less_nat_alt)
    from copy_to_front_ring [OF at this lb] obtain Q' where q: "copy_to_front ?b ?Q = Some Q'"
      "data_queue (Q'\<lparr>uxMessagesWaiting := uxMessagesWaiting ?Q + 1\<rparr>)"
      "contents (Q'\<lparr>uxMessagesWaiting := uxMessagesWaiting ?Q + 1\<rparr>) = ?b # contents ?Q"
      "\<exists>s u. Q' = ?Q\<lparr>storage := s, u_ptrs := u\<rparr>" by blast
    show thesis
      using q queueSEND_TO_FRONT nz
      by (intro that [of "Q'\<lparr>uxMessagesWaiting := uxMessagesWaiting ?Q + 1\<rparr>"])
        (auto simp: prvCopyDataToQueue_def ib same_shape_def stored_def Let_def)
  next
    case queueOVERWRITE
    with room have l1: "uxLength ?Q = 1" by simp
    from copy_to_front_overwrite [OF at l1 lb] obtain Q' where q: "copy_to_front ?b ?Q = Some Q'"
      "data_queue (Q'\<lparr>uxMessagesWaiting := 1\<rparr>)" "contents (Q'\<lparr>uxMessagesWaiting := 1\<rparr>) = [?b]"
      "\<exists>s u. Q' = ?Q\<lparr>storage := s, u_ptrs := u\<rparr>" by blast
    have "unat (uxMessagesWaiting ?Q) \<le> 1" using ring_at_parts(3) [OF at] l1 by simp
    then have "uxMessagesWaiting ?Q = 0 \<or> uxMessagesWaiting ?Q = 1" by (auto simp: word_unat_eq_iff)
    then have n: "(if uxMessagesWaiting ?Q > 0 then uxMessagesWaiting ?Q - 1 else uxMessagesWaiting ?Q) + 1 = 1"
      by auto
    show thesis
      using q queueOVERWRITE nz n
      by (intro that [of "Q'\<lparr>uxMessagesWaiting := 1\<rparr>"])
        (auto simp: prvCopyDataToQueue_def ib same_shape_def stored_def Let_def split: if_splits)
  qed
qed

lemma send_try_data:
  assumes "sched_inv k" "pxCurrentTCB k = Some c" "data_queue (queues k q)"
    "unat (uxItemSize (queues k q)) \<le> length b"
    "if pos = queueOVERWRITE then uxLength (queues k q) = 1
      else uxMessagesWaiting (queues k q) < uxLength (queues k q)"
  obtains Q' k' where "send_try q (Some b) pos w k = Some (Returned True, k')" "sched_inv k'"
    "waiters_gone (WaitingToReceive q) 1 (upd_queue q (\<lambda>_. Q') k) k'"
    "data_queue Q'" "same_shape (queues k q) Q'"
    "contents Q' = stored pos (take (unat (uxItemSize (queues k q))) b) (contents (queues k q))"
    "pendsv k' \<longleftrightarrow> pendsv k \<or> outranked (WaitingToReceive q) k"
proof -
  obtain Q' where c: "prvCopyDataToQueue q (Some b) pos k = Some (False, upd_queue q (\<lambda>_. Q') k)"
    "data_queue Q'" "same_shape (queues k q) Q'"
    "contents Q' = stored pos (take (unat (uxItemSize (queues k q))) b) (contents (queues k q))"
    by (rule prvCopyDataToQueue_data [OF assms(3-5)])
  let ?k = "upd_queue q (\<lambda>_. Q') k"
  have o: "outranked l ?k = outranked l k" for l
    by (auto simp: outranked_def split: list.splits option.splits)
  have "sched_inv ?k" "pxCurrentTCB ?k = Some c" using assms(1,2) by simp_all
  from release_and_yield_spec [OF this queue_lists(2), of q] obtain k' where
    r: "release_and_yield (WaitingToReceive q) ?k = Some k'" "sched_inv k'"
    "waiters_gone (WaitingToReceive q) 1 ?k k'"
    "pendsv k' \<longleftrightarrow> pendsv ?k \<or> outranked (WaitingToReceive q) ?k" by blast
  have "send_try q (Some b) pos w k = Some (Returned True, k')"
    using assms(5) c(1) r(1)
    by (cases "members k (WaitingToReceive q) = []")
      (auto simp: send_try_def Let_def release_and_yield_def split: if_splits)
  with c(2-4) r(2-4) o show thesis by (intro that) auto
qed

section \<open>Blocking\<close>

lemma parked_event_list [simp]: "event_list (parked n b k x) = event_list x"
  by (simp add: parked_def)

lemma block_on_spec:
  assumes "sched_inv k" "uxSchedulerSuspended k = 1" "xPendedTicks k = 0" "\<And>t. \<not> pending k t"
    "pxCurrentTCB k = Some c" "state_list (tcbs k c) = Some l0" "event_list (tcbs k c) = None"
    "uxCurrentNumberOfTasks k > 0" "n \<noteq> 0" "event_list_of l" "cTxLock (queues k q) \<le> 0" "cRxLock (queues k q) \<le> 0"
  obtains k' where "block_on q l n k = Some k'" "sched_inv k'" "quiet k'" "pendsv k'"
    "tcbs k' = (tcbs k)(c := parked n True k ((tcbs k c)\<lparr>event_list := Some l\<rparr>))"
    "queues k' = (queues k)(q := (queues k q)\<lparr>cTxLock := queueUNLOCKED, cRxLock := queueUNLOCKED\<rparr>)"
    "pxCurrentTCB k' = Some c" "xTickCount k' = xTickCount k"
    "uxCurrentNumberOfTasks k' = uxCurrentNumberOfTasks k" "qkernel.more k' = qkernel.more k"
proof -
  have el: "is_event_list l" "l \<noteq> PendingReadyList" using assms(10) by (auto simp: event_list_of_def)
  let ?b = "parked n True k ((tcbs k c)\<lparr>event_list := Some l\<rparr>)"
  obtain k1 where p: "vTaskPlaceOnEventList l n k = Some k1" "sched_inv k1" "tcbs k1 = (tcbs k)(c := ?b)"
    "kernel.more k1 = kernel.more k"
    "same_clock k (k1\<lparr>xNextTaskUnblockTime := xNextTaskUnblockTime k\<rparr>)"
    by (rule vTaskPlaceOnEventList_spec [OF assms(1,5,6,7) el(1) assms(9)]) blast
  have f1: "pxCurrentTCB k1 = Some c" "uxSchedulerSuspended k1 = 1" "xPendedTicks k1 = 0"
    "xTickCount k1 = xTickCount k" "uxCurrentNumberOfTasks k1 > 0" "queues k1 = queues k"
    using p(4,5) assms(2,3,5,8) queues_more(1) [OF p(4)] by (simp_all add: same_clock_def)
  obtain k2 where u: "prvUnlockQueue q k1 = Some k2" "sched_inv k2" "pxCurrentTCB k2 = Some c"
    "queues k2 = (queues k1)(q := (queues k1 q)\<lparr>cTxLock := queueUNLOCKED, cRxLock := queueUNLOCKED\<rparr>)"
    "members k2 (WaitingToReceive q) = drop (nat (cTxLock (queues k1 q))) (members k1 (WaitingToReceive q))"
    "members k2 (WaitingToSend q) = drop (nat (cRxLock (queues k1 q))) (members k1 (WaitingToSend q))"
    "tcbs k2 = (\<lambda>t. if t \<in> set (take (nat (cTxLock (queues k1 q))) (members k1 (WaitingToReceive q))) \<or>
         t \<in> set (take (nat (cRxLock (queues k1 q))) (members k1 (WaitingToSend q)))
       then released k1 (tcbs k1 t) else tcbs k1 t)"
    "uxSchedulerSuspended k2 = uxSchedulerSuspended k1" "xPendedTicks k2 = xPendedTicks k1"
    "xTickCount k2 = xTickCount k1" "uxCurrentNumberOfTasks k2 = uxCurrentNumberOfTasks k1"
    "pendsv k2 = pendsv k1" "qkernel.more k2 = qkernel.more k1"
    by (rule prvUnlockQueue_effect [OF p(2) f1(1)])
  have t2: "tcbs k2 = (tcbs k)(c := ?b)" using assms(11,12) by (auto simp: u(7) f1(6) p(3))
  have np: "\<not> pending k2 t" for t using assms(4) [of t] el(2) by (auto simp: pending_def t2)
  have f2: "uxSchedulerSuspended k2 = 1" "xPendedTicks k2 = 0" "uxCurrentNumberOfTasks k2 > 0"
    using u(8,9,11) f1 by simp_all
  obtain y k3 where r: "xTaskResumeAll k2 = Some (y, k3)" "sched_inv k3" "uxSchedulerSuspended k3 = 0"
    "pxCurrentTCB k3 = Some c" "kernel.more k3 = kernel.more k2" "xPendedTicks k3 = 0"
    "uxCurrentNumberOfTasks k3 = uxCurrentNumberOfTasks k2" "xSchedulerRunning k3 = xSchedulerRunning k2"
    "xTickCount k3 = xTickCount k2 + xPendedTicks k2" "tcbs k3 = caught_up k2"
    "y \<longleftrightarrow> xYieldPending k3" "y \<longrightarrow> pendsv k3"
    "xYieldPending k2 \<or> (\<exists>t. pending k2 t \<and> prio k2 c \<le> prio k2 t) \<longrightarrow> y"
    by (rule xTaskResumeAll_spec [OF u(2) f2(1) u(3) f2(3)])
  have t3: "tcbs k3 = (tcbs k)(c := ?b)"
    using caught_up_quiet [OF u(2) f2(2)] np by (simp add: r(10) t2)
  have q3: "queues k3 = queues k2" by (rule queues_more(1) [OF r(5)])
  let ?k = "if y then k3 else portYIELD k3"
  have "quiet ?k" using r(3,6) np by (auto simp: quiet_def portYIELD_def pending_def t3 t2)
  moreover have "block_on q l n k = Some ?k" using p(1) u(1) r(1) by (simp add: block_on_def)
  ultimately show thesis
    using r(2,4,7,9,12) t3 q3 u(4,10,11,13) f1 f2 p(5) queues_more(3) [OF r(5)] queues_more(3) [OF p(4)]
    by (intro that [of ?k]) (auto simp: portYIELD_def same_clock_def)
qed

lemma check_time_fresh:
  assumes "xTimeOut w = vTaskInternalSetTimeOutState k" "xTicksToWait w \<noteq> 0"
  shows "check_time k w = (False, w)"
proof -
  have "\<not> (xNumOfOverflows k \<noteq> xOverflowCount (xTimeOut w) \<and> xTickCount k \<ge> xTimeOnEntering (xTimeOut w))"
    "xTickCount k - xTimeOnEntering (xTimeOut w) = 0"
    using assms(1) by (simp_all add: vTaskInternalSetTimeOutState_def)
  then show ?thesis
    using assms by (auto simp: check_time_def xTaskCheckForTimeOut_def Let_def word_gt_0)
qed

text \<open>The running task, about to block: not on an event list, with the scheduler and the queue at rest.\<close>

definition can_block :: "nat \<Rightarrow> tid \<Rightarrow> 'z qkernel_scheme \<Rightarrow> bool" where
  "can_block q c k \<longleftrightarrow> pxCurrentTCB k = Some c \<and> state_list (tcbs k c) \<noteq> None \<and> event_list (tcbs k c) = None \<and>
     uxCurrentNumberOfTasks k > 0 \<and> cTxLock (queues k q) = queueUNLOCKED \<and> cRxLock (queues k q) = queueUNLOCKED"

lemma block_locked:
  assumes "sched_inv k" "quiet k" "can_block q c k" "n \<noteq> 0" "event_list_of l"
  obtains k' where "block_on q l n (prvLockQueue q (vTaskSuspendAll k)) = Some k'" "sched_inv k'" "quiet k'" "pendsv k'"
    "tcbs k' = (tcbs k)(c := parked n True k ((tcbs k c)\<lparr>event_list := Some l\<rparr>))" "queues k' = queues k"
    "pxCurrentTCB k' = Some c" "xTickCount k' = xTickCount k"
    "uxCurrentNumberOfTasks k' = uxCurrentNumberOfTasks k" "qkernel.more k' = qkernel.more k"
proof -
  let ?k = "prvLockQueue q (vTaskSuspendAll k)"
  obtain l0 where c: "pxCurrentTCB k = Some c" "state_list (tcbs k c) = Some l0" "event_list (tcbs k c) = None"
    "uxCurrentNumberOfTasks k > 0" "cTxLock (queues k q) = queueUNLOCKED" "cRxLock (queues k q) = queueUNLOCKED"
    using assms(3) by (auto simp: can_block_def)
  have q: "uxSchedulerSuspended k = 0" "xPendedTicks k = 0" "\<And>t. \<not> pending k t"
    using assms(2) by (auto simp: quiet_def)
  have f: "sched_inv ?k" "uxSchedulerSuspended ?k = 1" "xPendedTicks ?k = 0" "\<And>t. \<not> pending ?k t"
    "pxCurrentTCB ?k = Some c" "state_list (tcbs ?k c) = Some l0" "event_list (tcbs ?k c) = None"
    "uxCurrentNumberOfTasks ?k > 0" "cTxLock (queues ?k q) \<le> 0" "cRxLock (queues ?k q) \<le> 0"
    "tcbs ?k = tcbs k" "xTickCount ?k = xTickCount k"
    using assms(1) q c
    by (simp_all add: prvLockQueue_def vTaskSuspendAll_def pending_def queueLOCKED_UNMODIFIED_def)
  obtain k' where b: "block_on q l n ?k = Some k'" "sched_inv k'" "quiet k'" "pendsv k'"
    "tcbs k' = (tcbs ?k)(c := parked n True ?k ((tcbs ?k c)\<lparr>event_list := Some l\<rparr>))"
    "queues k' = (queues ?k)(q := (queues ?k q)\<lparr>cTxLock := queueUNLOCKED, cRxLock := queueUNLOCKED\<rparr>)"
    "pxCurrentTCB k' = Some c" "xTickCount k' = xTickCount ?k"
    "uxCurrentNumberOfTasks k' = uxCurrentNumberOfTasks ?k" "qkernel.more k' = qkernel.more ?k"
    by (rule block_on_spec [OF f(1-8) assms(4,5) f(9,10)])
  have "parked n True ?k x = parked n True k x" for x
    by (simp add: parked_def prvLockQueue_def vTaskSuspendAll_def upd_queue_def)
  moreover have "queues k' = queues k"
    using c(5,6) by (auto simp: b(6) prvLockQueue_def vTaskSuspendAll_def)
  moreover have "uxCurrentNumberOfTasks ?k = uxCurrentNumberOfTasks k" "qkernel.more ?k = qkernel.more k"
    by (simp_all add: prvLockQueue_def vTaskSuspendAll_def)
  ultimately show thesis using b f(11,12) by (intro that [of k']) simp_all
qed

lemma recv_try_data:
  assumes "sched_inv k" "pxCurrentTCB k = Some c" "data_queue (queues k q)" "uxMessagesWaiting (queues k q) \<noteq> 0"
  obtains Q' k' where "recv_try q w k = Some (Returned (Some (hd (contents (queues k q)))), k')" "sched_inv k'"
    "waiters_gone (WaitingToSend q) 1 (upd_queue q (\<lambda>_. Q') k) k'" "data_queue Q'" "same_shape (queues k q) Q'"
    "contents Q' = tl (contents (queues k q))" "pendsv k' \<longleftrightarrow> pendsv k \<or> outranked (WaitingToSend q) k"
proof -
  let ?Q = "queues k q"
  obtain i where at: "ring_at i ?Q" using assms(3) by (auto simp: data_queue_def)
  have "0 < unat (uxMessagesWaiting ?Q)" using assms(4) by (simp add: unat_gt_0)
  from copy_from_ring [OF at this] obtain Q' where c: "prvCopyDataFromQueue ?Q = Some (hd (contents ?Q), Q')"
    "data_queue (Q'\<lparr>uxMessagesWaiting := uxMessagesWaiting ?Q - 1\<rparr>)"
    "contents (Q'\<lparr>uxMessagesWaiting := uxMessagesWaiting ?Q - 1\<rparr>) = tl (contents ?Q)"
    "\<exists>u. Q' = ?Q\<lparr>u_ptrs := u\<rparr>" by blast
  let ?R = "Q'\<lparr>uxMessagesWaiting := uxMessagesWaiting ?Q - 1\<rparr>"
  let ?k = "upd_queue q (\<lambda>_. ?R) k"
  have o: "outranked l ?k = outranked l k" for l
    by (auto simp: outranked_def split: list.splits option.splits)
  have "sched_inv ?k" "pxCurrentTCB ?k = Some c" using assms(1,2) by simp_all
  from release_and_yield_spec [OF this queue_lists(1), of q] obtain k' where
    r: "release_and_yield (WaitingToSend q) ?k = Some k'" "sched_inv k'" "waiters_gone (WaitingToSend q) 1 ?k k'"
    "pendsv k' \<longleftrightarrow> pendsv ?k \<or> outranked (WaitingToSend q) ?k" by blast
  have "recv_try q w k = Some (Returned (Some (hd (contents ?Q))), k')"
    using c(1) r(1) assms(4) by (simp add: recv_try_def Let_def word_gt_0)
  moreover have "same_shape ?Q ?R" using c(4) by (auto simp: same_shape_def)
  ultimately show thesis using c(2,3) r(2-4) o by (intro that [of k' ?R]) simp_all
qed

section \<open>Non-blocking calls as a bounded FIFO\<close>

text \<open>The calls \<open>xQueueSend(q, item, 0)\<close> and \<open>xQueueReceive(q, buffer, 0)\<close> that succeed.\<close>

definition send_now :: "nat \<Rightarrow> u8 list \<Rightarrow> 'z qkernel_scheme \<Rightarrow> 'z qkernel_scheme option" where
  "send_now q b k = (case xQueueGenericSend q (Some b) 0 queueSEND_TO_BACK k of
     Some (Returned True, k') \<Rightarrow> Some k' | _ \<Rightarrow> None)"

definition receive_now :: "nat \<Rightarrow> 'z qkernel_scheme \<Rightarrow> (u8 list \<times> 'z qkernel_scheme) option" where
  "receive_now q k = (case xQueueReceive q False 0 k of
     Some (Returned (Some b), k') \<Rightarrow> Some (b, k') | _ \<Rightarrow> None)"

definition queue_inv :: "nat \<Rightarrow> 'z qkernel_scheme \<Rightarrow> bool" where
  "queue_inv q k \<longleftrightarrow> sched_inv k \<and> pxCurrentTCB k \<noteq> None \<and> data_queue (queues k q)"

definition queue_contents :: "nat \<Rightarrow> 'z qkernel_scheme \<Rightarrow> u8 list list" where
  "queue_contents q k = contents (queues k q)"

definition queue_capacity :: "nat \<Rightarrow> 'z qkernel_scheme \<Rightarrow> nat" where
  "queue_capacity q k = unat (uxLength (queues k q))"

definition item_fits :: "nat \<Rightarrow> 'z qkernel_scheme \<Rightarrow> u8 list \<Rightarrow> bool" where
  "item_fits q k b \<longleftrightarrow> length b = unat (uxItemSize (queues k q))"

lemma waiters_gone_queue:
  assumes "waiters_gone l n (upd_queue q (\<lambda>_. Q') k) k'"
  shows "queues k' q = Q'" "pxCurrentTCB k' = pxCurrentTCB k" "q' \<noteq> q \<Longrightarrow> queues k' q' = queues k q'"
  using waiters_gone_queues [OF assms] assms by (simp_all add: waiters_gone_def)

lemma may_wait_0 [simp]: "may_wait 0 k"
  by (simp add: may_wait_def)

lemma send_now_ok:
  assumes "queue_inv q k" "item_fits q k b" "length (queue_contents q k) < queue_capacity q k"
  shows "\<exists>k'. send_now q b k = Some k' \<and> queue_inv q k' \<and> queue_contents q k' = queue_contents q k @ [b] \<and>
    queue_capacity q k' = queue_capacity q k \<and> item_fits q k' = item_fits q k"
proof -
  obtain c where c: "pxCurrentTCB k = Some c" "sched_inv k" "data_queue (queues k q)"
    using assms(1) by (auto simp: queue_inv_def)
  have lb: "length b = unat (uxItemSize (queues k q))" using assms(2) by (simp add: item_fits_def)
  have "uxMessagesWaiting (queues k q) < uxLength (queues k q)"
    using assms(3) by (simp add: queue_contents_def queue_capacity_def word_less_nat_alt)
  then have room: "if queueSEND_TO_BACK = queueOVERWRITE then uxLength (queues k q) = 1
      else uxMessagesWaiting (queues k q) < uxLength (queues k q)" by simp
  obtain Q' k' where s: "send_try q (Some b) queueSEND_TO_BACK (new_wait 0) k = Some (Returned True, k')" "sched_inv k'"
    "waiters_gone (WaitingToReceive q) 1 (upd_queue q (\<lambda>_. Q') k) k'"
    "data_queue Q'" "same_shape (queues k q) Q'"
    "contents Q' = stored queueSEND_TO_BACK (take (unat (uxItemSize (queues k q))) b) (contents (queues k q))"
    "pendsv k' \<longleftrightarrow> pendsv k \<or> outranked (WaitingToReceive q) k"
    by (rule send_try_data [OF c(2,1,3) _ room, of b "new_wait 0"]) (use lb in auto)
  have "send_now q b k = Some k'"
    using s(1) by (simp add: send_now_def xQueueGenericSend_def send_pass_def configASSERT_def)
  then show ?thesis
    using s(2,4-6) c(1) lb waiters_gone_queue(1,2) [OF s(3)]
    by (simp add: queue_inv_def queue_contents_def queue_capacity_def item_fits_def [abs_def] stored_def same_shape_def)
qed

lemma receive_now_ok:
  assumes "queue_inv q k" "queue_contents q k = b # bs"
  shows "\<exists>k'. receive_now q k = Some (b, k') \<and> queue_inv q k' \<and> queue_contents q k' = bs \<and>
    queue_capacity q k' = queue_capacity q k \<and> item_fits q k' = item_fits q k"
proof -
  obtain c where c: "pxCurrentTCB k = Some c" "sched_inv k" "data_queue (queues k q)"
    using assms(1) by (auto simp: queue_inv_def)
  have "unat (uxMessagesWaiting (queues k q)) \<noteq> 0"
    using assms(2) length_contents [of "queues k q"] by (simp add: queue_contents_def del: length_contents)
  then have "uxMessagesWaiting (queues k q) \<noteq> 0" by auto
  from recv_try_data [OF c(2,1,3) this, of "new_wait 0"] obtain Q' k' where
    r: "recv_try q (new_wait 0) k = Some (Returned (Some (hd (contents (queues k q)))), k')" "sched_inv k'"
    "waiters_gone (WaitingToSend q) 1 (upd_queue q (\<lambda>_. Q') k) k'" "data_queue Q'" "same_shape (queues k q) Q'"
    "contents Q' = tl (contents (queues k q))" by blast
  have "receive_now q k = Some (b, k')"
    using r(1) assms(2) by (simp add: receive_now_def xQueueReceive_def recv_pass_def configASSERT_def queue_contents_def)
  then show ?thesis
    using r(2,4-6) c(1) assms(2) waiters_gone_queue(1,2) [OF r(3)]
    by (simp add: queue_inv_def queue_contents_def queue_capacity_def item_fits_def [abs_def] same_shape_def)
qed

interpretation kq: bounded_fifo "queue_inv q" "queue_contents q" "queue_capacity q" "item_fits q"
  "send_now q" "receive_now q" for q :: nat
proof
  show "length (queue_contents q k) \<le> queue_capacity q k" if "queue_inv q k" for k :: "'z qkernel_scheme"
    using that by (auto simp: queue_inv_def queue_contents_def queue_capacity_def data_queue_def ring_at_def Let_def)
qed (rule send_now_ok receive_now_ok; assumption)+

section \<open>Mutexes\<close>

text \<open>A mutex is free and has no holder, or is held by the task that took it.\<close>

definition mutex_ok :: "Queue_t \<Rightarrow> bool" where
  "mutex_ok Q \<longleftrightarrow> pcHead Q = None \<and> uxItemSize Q = 0 \<and> uxLength Q = 1 \<and>
     (\<exists>h c. u_ptrs Q = SemaphoreData h c \<and>
        (h = None \<and> uxMessagesWaiting Q = 1 \<or> h \<noteq> None \<and> uxMessagesWaiting Q = 0))"

lemma mutex_holder_SemaphoreData [simp]:
  "u_ptrs Q = SemaphoreData h c \<Longrightarrow> mutex_holder Q = Some h"
  by (simp add: mutex_holder_def)

lemma parked_prio [simp]:
  "uxPriority (parked n b k x) = uxPriority x" "uxBasePriority (parked n b k x) = uxBasePriority x"
  "uxMutexesHeld (parked n b k x) = uxMutexesHeld x"
  by (simp_all add: parked_def)

lemma take_free:
  assumes "sched_inv k" "pxCurrentTCB k = Some c" "mutex_ok (queues k q)" "uxMessagesWaiting (queues k q) = 1"
  obtains k' where "take_try q w k = Some (Returned True, k')" "sched_inv k'" "mutex_ok (queues k' q)"
    "mutex_holder (queues k' q) = Some (Some c)" "uxMessagesWaiting (queues k' q) = 0"
    "members k (WaitingToSend q) = [] \<Longrightarrow>
      tcbs k' = (tcbs k)(c := (tcbs k c)\<lparr>uxMutexesHeld := uxMutexesHeld (tcbs k c) + 1\<rparr>)"
proof -
  obtain r where m: "pcHead (queues k q) = None" "uxItemSize (queues k q) = 0" "uxLength (queues k q) = 1"
    "u_ptrs (queues k q) = SemaphoreData None r"
    using assms(3,4) by (auto simp: mutex_ok_def)
  let ?k1 = "upd_queue q (\<lambda>Q. Q\<lparr>uxMessagesWaiting := 0\<rparr>) k"
  let ?k2 = "upd_tcb c (\<lambda>b. b\<lparr>uxMutexesHeld := uxMutexesHeld b + 1\<rparr>) ?k1"
  let ?k3 = "upd_queue q (set_mutex_holder (Some c)) ?k2"
  have "sched_inv ?k3" "pxCurrentTCB ?k3 = Some c"
    using assms(1,2) by (simp_all add: sched_inv_mutexes) (simp add: upd_tcb_def)
  from release_and_yield_spec [OF this queue_lists(1), of q] obtain k' where
    r: "release_and_yield (WaitingToSend q) ?k3 = Some k'" "sched_inv k'" "waiters_gone (WaitingToSend q) 1 ?k3 k'"
    by blast
  have t: "take_try q w k = Some (Returned True, k')"
    using r(1) by (simp add: take_try_def Let_def assms(2,4) m(1) pvTaskIncrementMutexHeldCount_def)
  have "queues ?k2 = queues ?k1" by (simp add: upd_tcb_def)
  then have q: "queues k' q = (queues k q)\<lparr>uxMessagesWaiting := 0, u_ptrs := SemaphoreData (Some c) r\<rparr>"
    using waiters_gone_queues [OF r(3)] m(4) by (simp add: set_mutex_holder_def)
  have "tcbs k' = tcbs ?k3" if "members k (WaitingToSend q) = []"
    by (rule waiters_gone_none [OF r(3)]) (use that in \<open>simp add: upd_tcb_def\<close>)
  then show thesis
    using t r(2) q m by (intro that [of k']) (auto simp: mutex_ok_def upd_tcb_def)
qed

text \<open>A task that waits for a held mutex lends its priority to the holder and blocks.\<close>

lemma take_wait_inherits:
  assumes "sched_inv k" "quiet k" "can_block q c k" "xTimeOut w = vTaskInternalSetTimeOutState k"
    "xTicksToWait w \<noteq> 0" "mutex_ok (queues k q)" "mutex_holder (queues k q) = Some (Some t)"
    "state_list (tcbs k t) \<noteq> None"
  obtains w' k' where "take_wait q w k = Some (Again w', k')" "sched_inv k'" "quiet k'" "pendsv k'"
    "queues k' = queues k" "event_list (tcbs k' c) = Some (WaitingToReceive q)"
    "prio k' t = max (prio k t) (prio k c)" "uxBasePriority (tcbs k' t) = uxBasePriority (tcbs k t)"
    "\<And>u. u \<noteq> t \<Longrightarrow> u \<noteq> c \<Longrightarrow> tcbs k' u = tcbs k u" "xTicksToWait w' = xTicksToWait w"
proof -
  let ?k = "prvLockQueue q (vTaskSuspendAll k)" let ?n = "xTicksToWait w"
  obtain l0 lt where c: "pxCurrentTCB k = Some c" "state_list (tcbs k c) = Some l0" "event_list (tcbs k c) = None"
    "uxCurrentNumberOfTasks k > 0" "cTxLock (queues k q) = queueUNLOCKED" "cRxLock (queues k q) = queueUNLOCKED"
    "state_list (tcbs k t) = Some lt"
    using assms(3,8) by (auto simp: can_block_def)
  have q: "uxSchedulerSuspended k = 0" "xPendedTicks k = 0" "\<And>t. \<not> pending k t"
    using assms(2) by (auto simp: quiet_def)
  have m: "pcHead (queues k q) = None" "uxMessagesWaiting (queues k q) = 0"
    using assms(6,7) by (auto simp: mutex_ok_def)
  have f: "sched_inv ?k" "tcbs ?k = tcbs k" "xTickCount ?k = xTickCount k" "pxCurrentTCB ?k = Some c"
    "pcHead (queues ?k q) = None" "prvIsQueueEmpty (queues ?k q)" "mutex_holder (queues ?k q) = Some (Some t)"
    "xTimeOut w = vTaskInternalSetTimeOutState ?k" "uxSchedulerSuspended ?k = 1" "xPendedTicks ?k = 0"
    "uxCurrentNumberOfTasks ?k > 0" "cTxLock (queues ?k q) = 0" "cRxLock (queues ?k q) = 0"
    "queues ?k = (queues k)(q := (queues k q)\<lparr>cRxLock := 0, cTxLock := 0\<rparr>)"
    using assms(1,4,7) c m q
    by (simp_all add: prvLockQueue_def vTaskSuspendAll_def prvIsQueueEmpty_def mutex_holder_def
        queueLOCKED_UNMODIFIED_def vTaskInternalSetTimeOutState_def)
  obtain y k1 where i: "xTaskPriorityInherit (Some t) ?k = Some (y, k1)" "sched_inv k1" "same_clock ?k k1"
    "kernel.more k1 = kernel.more ?k"
    "tcbs k1 = (tcbs ?k)(t := if prio ?k t < prio ?k c
       then renumbered (\<lambda>b. (event_prio (prio ?k c) b)\<lparr>uxPriority := prio ?k c\<rparr>) (tcbs ?k t) else tcbs ?k t)"
    by (rule xTaskPriorityInherit_spec [OF f(1,4), of t lt]) (use c f(2) in \<open>simp_all\<close>)
  note clk = same_clockD [OF i(3)]
  have q1: "queues k1 = queues ?k" by (rule queues_more(1) [OF i(4)])
  have tc: "prio k1 t = max (prio k t) (prio k c)" "uxBasePriority (tcbs k1 t) = uxBasePriority (tcbs k t)"
    by (auto simp: i(5) f(2) max_def)
  have same_c: "tcbs k1 c = tcbs k c" by (simp add: i(5) f(2))
  have other: "tcbs k1 u = tcbs k u" if "u \<noteq> t" for u using that by (simp add: i(5) f(2))
  have np: "\<not> pending k1 u" for u
    using q(3) [of u] by (auto simp: pending_def i(5) f(2))
  have f1: "uxSchedulerSuspended k1 = 1" "xPendedTicks k1 = 0" "pxCurrentTCB k1 = Some c"
    "state_list (tcbs k1 c) = Some l0" "event_list (tcbs k1 c) = None" "uxCurrentNumberOfTasks k1 > 0"
    "cTxLock (queues k1 q) \<le> 0" "cRxLock (queues k1 q) \<le> 0" "xTickCount k1 = xTickCount k"
    using c(2,3) f by (simp_all add: clk same_c q1)
  obtain k' where b: "block_on q (WaitingToReceive q) ?n k1 = Some k'" "sched_inv k'" "quiet k'" "pendsv k'"
    "tcbs k' = (tcbs k1)(c := parked ?n True k1 ((tcbs k1 c)\<lparr>event_list := Some (WaitingToReceive q)\<rparr>))"
    "queues k' = (queues k1)(q := (queues k1 q)\<lparr>cTxLock := queueUNLOCKED, cRxLock := queueUNLOCKED\<rparr>)"
    by (rule block_on_spec [OF i(2) f1(1,2) np f1(3-6) assms(5) queue_lists(2) f1(7,8)]) blast
  have "take_wait q w k = Some (Again (w\<lparr>xInheritanceOccurred := y\<rparr>), k')"
    using check_time_fresh [OF f(8) assms(5)] i(1) b(1)
    by (simp add: take_wait_def Let_def f(5,6,7))
  moreover have "queues k' = queues k" using c(5,6) by (auto simp: b(6) q1 f(14))
  moreover have "prio k' t = prio k1 t" "uxBasePriority (tcbs k' t) = uxBasePriority (tcbs k1 t)"
    by (simp_all add: b(5))
  ultimately show thesis
    using b(2-4) tc other by (intro that [of "w\<lparr>xInheritanceOccurred := y\<rparr>" k']) (simp_all add: b(5))
qed

lemma ready_no_event:
  assumes "sched_inv k" "state_list (tcbs k t) = Some (Ready p)" "is_event_list l"
  shows "t \<notin> set (members k l)"
  using sched_inv_parts(6) [OF assms(1), of t] event_member [OF sched_inv_parts(3) [OF assms(1)] assms(3), of t] assms(2)
  by auto

lemma give_mutex:
  assumes "sched_inv k" "pxCurrentTCB k = Some t" "mutex_ok (queues k q)"
    "mutex_holder (queues k q) = Some (Some t)" "state_list (tcbs k t) = Some (Ready (prio k t))"
    "uxMutexesHeld (tcbs k t) \<noteq> 0"
  obtains k' where "send_try q item queueSEND_TO_BACK w k = Some (Returned True, k')" "sched_inv k'"
    "mutex_ok (queues k' q)" "mutex_holder (queues k' q) = Some None"
    "members k' (WaitingToReceive q) = tl (members k (WaitingToReceive q))"
    "\<And>u. u \<in> set (take 1 (members k (WaitingToReceive q))) \<Longrightarrow> tcbs k' u = released k (tcbs k u)"
    "prio k' t = (if uxMutexesHeld (tcbs k t) = 1 then uxBasePriority (tcbs k t) else prio k t)"
    "state_list (tcbs k' t) = Some (Ready (prio k' t))"
    "uxMutexesHeld (tcbs k' t) = uxMutexesHeld (tcbs k t) - 1" "qkernel.more k' = qkernel.more k"
    "pxCurrentTCB k' = Some t"
proof -
  obtain r where m: "pcHead (queues k q) = None" "uxItemSize (queues k q) = 0" "uxLength (queues k q) = 1"
    "u_ptrs (queues k q) = SemaphoreData (Some t) r" "uxMessagesWaiting (queues k q) = 0"
    using assms(3,4) by (auto simp: mutex_ok_def)
  obtain y k1 where d: "xTaskPriorityDisinherit (Some t) k = Some (y, k1)" "sched_inv k1" "same_clock k k1"
    "kernel.more k1 = kernel.more k"
    "y \<longleftrightarrow> prio k t \<noteq> uxBasePriority (tcbs k t) \<and> uxMutexesHeld (tcbs k t) = 1"
    "tcbs k1 = (tcbs k)(t := (if y then disinherited else id)
       ((tcbs k t)\<lparr>uxMutexesHeld := uxMutexesHeld (tcbs k t) - 1\<rparr>))"
    "\<And>l'. is_event_list l' \<Longrightarrow> task_lists k1 l' = task_lists k l'"
    by (rule xTaskPriorityDisinherit_spec [OF assms(1,2,5,6)], rule that)
  let ?f = "\<lambda>Q. (set_mutex_holder None Q)\<lparr>uxMessagesWaiting := 1\<rparr>"
  let ?k2 = "upd_queue q ?f k1"
  have q1: "queues k1 = queues k" by (rule queues_more(1) [OF d(4)])
  have cp: "prvCopyDataToQueue q item queueSEND_TO_BACK k = Some (y, ?k2)"
    using d(1) m by (simp add: prvCopyDataToQueue_def Let_def)
  have "sched_inv ?k2" "pxCurrentTCB ?k2 = Some t" using d(2) same_clockD(1) [OF d(3)] assms(2) by simp_all
  from release_and_yield_spec [OF this queue_lists(2), of q] obtain k3 where
    r: "release_and_yield (WaitingToReceive q) ?k2 = Some k3" "sched_inv k3" "waiters_gone (WaitingToReceive q) 1 ?k2 k3"
    by blast
  let ?k' = "if members k (WaitingToReceive q) = [] \<and> y then portYIELD k3 else k3"
  have l1: "task_lists k1 (WaitingToReceive q) = task_lists k (WaitingToReceive q)" using d(7) by simp
  have e: "k3 = ?k2" if "members k (WaitingToReceive q) = []"
    using r(1) l1 that by (simp add: release_and_yield_def)
  have s: "send_try q item queueSEND_TO_BACK w k = Some (Returned True, ?k')"
    by (cases "members k (WaitingToReceive q) = []")
      (use r(1) cp m l1 e in \<open>simp_all add: send_try_def Let_def\<close>)
  have g: "tcbs ?k' = tcbs k3" "queues ?k' = queues k3" "task_lists ?k' = task_lists k3" "sched_inv ?k'"
    using r(2) by (simp_all add: portYIELD_def)
  have st1: "state_list (tcbs k1 t) = Some (Ready (prio k1 t))"
    using assms(5) by (simp add: d(6) disinherited_def renumbered_def)
  have nt: "t \<notin> set (members k (WaitingToReceive q))" by (rule ready_no_event [OF assms(1,5)]) simp
  have t3: "tcbs k3 u = (if u \<in> set (take 1 (members k (WaitingToReceive q))) then released k1 (tcbs k1 u) else tcbs k1 u)"
    for u using r(3) by (simp add: waiters_gone_def l1)
  have tt: "tcbs k3 t = tcbs k1 t" using nt t3 [of t] by (auto dest: in_set_takeD)
  have rel: "released k1 b = released k b" for b using same_clockD(6) [OF d(3)] by (simp add: released_def)
  have "queues k3 q = ?f (queues k q)" using waiters_gone_queues [OF r(3)] by (simp add: q1)
  then have mq: "mutex_ok (queues k3 q)" "mutex_holder (queues k3 q) = Some None"
    using m by (simp_all add: mutex_ok_def set_mutex_holder_def mutex_holder_def)
  have pt: "prio k1 t = (if uxMutexesHeld (tcbs k t) = 1 then uxBasePriority (tcbs k t) else prio k t)"
    using d(5) by (auto simp: d(6) disinherited_def)
  show thesis
  proof (rule that [OF s])
    fix u assume u: "u \<in> set (take 1 (members k (WaitingToReceive q)))"
    then have "u \<noteq> t" using nt by (auto dest: in_set_takeD)
    then show "tcbs ?k' u = released k (tcbs k u)" using u g(1) t3 [of u] rel by (simp add: d(6))
  next
    show "members ?k' (WaitingToReceive q) = tl (members k (WaitingToReceive q))"
      using r(3) g(3) l1 by (simp add: waiters_gone_def drop_Suc)
    show "prio ?k' t = (if uxMutexesHeld (tcbs k t) = 1 then uxBasePriority (tcbs k t) else prio k t)"
      by (simp only: g(1) tt pt)
    show "qkernel.more ?k' = qkernel.more k"
      using waiters_gone_more [OF r(3)] queues_more(3) [OF d(4)] by (simp add: portYIELD_def)
    show "pxCurrentTCB ?k' = Some t"
      using r(3) same_clockD(1) [OF d(3)] assms(2) by (simp add: waiters_gone_def portYIELD_def)
  qed (use g mq st1 tt in \<open>simp_all add: d(6) disinherited_def\<close>)
qed

section \<open>Creation\<close>

text \<open>No task waits on a handle that has just been allocated.\<close>

definition fresh_queue :: "nat \<Rightarrow> 'z kernel_scheme \<Rightarrow> bool" where
  "fresh_queue q k \<longleftrightarrow>
     (\<forall>t. event_list (tcbs k t) \<noteq> Some (WaitingToSend q) \<and> event_list (tcbs k t) \<noteq> Some (WaitingToReceive q))"

lemma kl_empty_simps [simp]: "kitems kl_empty = []" "kl_wf kl_empty"
  by (simp_all add: kl_empty_def kl_wf_def)

lemma fresh_lists:
  assumes "sched_inv k" "fresh_queue q k"
  shows "sched_inv (upd_list (WaitingToReceive q) (\<lambda>_. kl_empty) (upd_list (WaitingToSend q) (\<lambda>_. kl_empty) k))"
proof -
  let ?k = "upd_list (WaitingToReceive q) (\<lambda>_. kl_empty) (upd_list (WaitingToSend q) (\<lambda>_. kl_empty) k)"
  note inv = sched_inv_parts [OF assms(1)]
  have "lists_ok ?k" using inv(3) assms(2) by (auto simp: lists_ok_def upd_list_def fresh_queue_def)
  then have "list_inv ?k"
    by (rule list_inv_event_frame [OF inv(1)]) (auto simp: upd_list_def same_clock_def)
  then show ?thesis
    using assms(1) by (simp add: sched_inv_def no_due_def waiters_ok_def upd_list_def)
qed

lemma mult_fits:
  assumes "0 < (l :: 32 word)" "s \<le> 0xffffffff div l"
  shows "unat (l * s) = unat l * unat s" "unat l * unat s < 2 ^ 32"
proof -
  have "unat s \<le> 0xffffffff div unat l"
    using assms(2) by (simp add: word_le_nat_alt unat_div)
  then have "unat l * unat s \<le> unat l * (0xffffffff div unat l)" by (intro mult_le_mono2)
  also have "\<dots> \<le> 0xffffffff" by (simp add: mult.commute div_times_less_eq_dividend)
  finally show b: "unat l * unat s < 2 ^ 32" by simp
  then show "unat (l * s) = unat l * unat s" by (simp add: unat_mult_lem [THEN iffD1])
qed

lemma create_data_queue:
  assumes "sched_inv k" "fresh_queue q k" "len > 0" "sz > 0" "sz \<le> 0xffffffff div len"
    "0xffffffff - sizeof_Queue_t \<ge> len * sz" "length mem = unat len * unat sz"
  obtains k' where "xQueueGenericCreate (Some (q, mem)) len sz ty k = Some (Some q, k')" "sched_inv k'"
    "data_queue (queues k' q)" "contents (queues k' q) = []" "uxLength (queues k' q) = len"
    "uxItemSize (queues k' q) = sz" "tcbs k' = tcbs k" "pxCurrentTCB k' = pxCurrentTCB k"
    "cTxLock (queues k' q) = queueUNLOCKED" "cRxLock (queues k' q) = queueUNLOCKED"
proof -
  note m = mult_fits [OF assms(3,5)]
  have l1: "1 \<le> len" using assms(3) by (simp add: word_le_nat_alt word_less_nat_alt)
  have "unat ((len - 1) * sz) = (unat len - 1) * unat sz"
  proof -
    have u: "unat (len - 1) = unat len - 1" using assms(3) by (intro unat_pred) (simp add: unat_gt_0 word_gt_0)
    have "unat (len - 1) * unat sz \<le> unat len * unat sz" by (simp only: u mult_le_mono1 diff_le_self)
    from order.strict_trans1 [OF this m(2)] have "unat (len - 1) * unat sz < 2 ^ LENGTH(32)" by simp
    then show ?thesis by (simp add: unat_mult_lem [THEN iffD1] u)
  qed
  then have off: "uint ((len - 1) * sz) = int ((unat len - 1) * unat sz)" "uint (len * sz) = int (unat len * unat sz)"
    by (simp_all only: uint_nat m(1))
  let ?Q = "(queues k q)\<lparr>pcHead := Some 0, storage := mem, uxLength := len, uxItemSize := sz,
    u_ptrs := QueuePointers (int (unat len * unat sz)) (int ((unat len - 1) * unat sz)),
    uxMessagesWaiting := 0, pcWriteTo := 0, cRxLock := queueUNLOCKED, cTxLock := queueUNLOCKED, ucQueueType := ty\<rparr>"
  let ?k = "upd_list (WaitingToReceive q) (\<lambda>_. kl_empty) (upd_list (WaitingToSend q) (\<lambda>_. kl_empty) k)"
  let ?k' = "upd_queue q (\<lambda>_. ?Q) ?k"
  have "xQueueGenericCreate (Some (q, mem)) len sz ty k = Some (Some q, ?k')"
    using assms(3-6) l1
    by (simp add: xQueueGenericCreate_def prvInitialiseNewQueue_def xQueueGenericReset_def configASSERT_def
        Let_def upd_list_def upd_queue_def off)
  moreover have "ring_at 0 ?Q"
    using assms(3,4,7) m(2) by (simp add: ring_at_def Let_def unat_gt_0 word_gt_0)
  then have "data_queue ?Q" by (auto simp: data_queue_def)
  moreover have "contents ?Q = []" by (simp add: contents_def)
  ultimately show thesis
    using fresh_lists [OF assms(1,2)] by (intro that [of ?k']) (simp_all add: upd_list_def)
qed

section \<open>Properties\<close>

text \<open>
  C15. First in, first out: items of the right size that are sent to an empty queue, as many as its
  length allows, are received in the order in which they were sent, and the queue is empty again.
  Every send and receive of the sequence succeeds and keeps the invariants of queue and scheduler.
\<close>

theorem queue_fifo:
  assumes "queue_inv q k" "queue_contents q k = []" "length xs \<le> queue_capacity q k"
    "\<forall>x\<in>set xs. item_fits q k x"
  shows "\<exists>k' k''. push_all (send_now q) xs k = Some k' \<and>
    pop_n (receive_now q) (length xs) k' = Some (xs, k'') \<and> queue_inv q k'' \<and> queue_contents q k'' = []"
  using assms by (rule kq.fifo_order)

text \<open>
  C16. A send to a queue with room, to its back or front, or an overwrite of a queue of length one,
  returns at once with success: the bytes of the item are stored at that end, the first task waiting
  to receive is readied and taken off the list, a switch is pended if that task has a higher priority
  than the sender, and no other queue changes.
\<close>

theorem xQueueGenericSend_delivers:
  assumes "sched_inv k" "pxCurrentTCB k = Some c" "data_queue (queues k q)" "may_wait n k"
    "unat (uxItemSize (queues k q)) \<le> length b"
    "if pos = queueOVERWRITE then uxLength (queues k q) = 1
      else uxMessagesWaiting (queues k q) < uxLength (queues k q)"
  shows "\<exists>k'. xQueueGenericSend q (Some b) n pos k = Some (Returned True, k') \<and> sched_inv k' \<and>
    data_queue (queues k' q) \<and>
    contents (queues k' q) = stored pos (take (unat (uxItemSize (queues k q))) b) (contents (queues k q)) \<and>
    members k' (WaitingToReceive q) = tl (members k (WaitingToReceive q)) \<and>
    tcbs k' = (\<lambda>t. if t \<in> set (take 1 (members k (WaitingToReceive q))) then released k (tcbs k t) else tcbs k t) \<and>
    (outranked (WaitingToReceive q) k \<longrightarrow> pendsv k') \<and> (\<forall>q'. q' \<noteq> q \<longrightarrow> queues k' q' = queues k q')"
proof -
  obtain Q' k' where s: "send_try q (Some b) pos (new_wait n) k = Some (Returned True, k')" "sched_inv k'"
    "waiters_gone (WaitingToReceive q) 1 (upd_queue q (\<lambda>_. Q') k) k'" "data_queue Q'" "same_shape (queues k q) Q'"
    "contents Q' = stored pos (take (unat (uxItemSize (queues k q))) b) (contents (queues k q))"
    "pendsv k' \<longleftrightarrow> pendsv k \<or> outranked (WaitingToReceive q) k"
    by (rule send_try_data [OF assms(1-3,5,6)])
  note g = s(3) [unfolded waiters_gone_def]
  have "pos = queueOVERWRITE \<Longrightarrow> uxLength (queues k q) = 1" using assms(6) by simp
  then have "xQueueGenericSend q (Some b) n pos k = Some (Returned True, k')"
    using s(1) assms(4) by (simp add: xQueueGenericSend_def send_pass_def configASSERT_def)
  moreover have "tcbs k' t = (if t \<in> set (take 1 (members k (WaitingToReceive q))) then released k (tcbs k t) else tcbs k t)"
    for t using g by simp
  moreover have "members k' (WaitingToReceive q) = tl (members k (WaitingToReceive q))"
    using g by (simp add: drop_Suc)
  ultimately show ?thesis
    using s(2,4,6,7) waiters_gone_queue [OF s(3)] by (intro exI [of _ k']) auto
qed

text \<open>
  A receive from a queue that holds items returns the oldest one at once and removes it; the first
  task waiting to send is readied, and a switch is pended if it has a higher priority.
\<close>

theorem xQueueReceive_takes_oldest:
  assumes "sched_inv k" "pxCurrentTCB k = Some c" "data_queue (queues k q)" "may_wait n k"
    "contents (queues k q) = b # bs"
  shows "\<exists>k'. xQueueReceive q False n k = Some (Returned (Some b), k') \<and> sched_inv k' \<and>
    data_queue (queues k' q) \<and> contents (queues k' q) = bs \<and>
    members k' (WaitingToSend q) = tl (members k (WaitingToSend q)) \<and>
    (outranked (WaitingToSend q) k \<longrightarrow> pendsv k') \<and> (\<forall>q'. q' \<noteq> q \<longrightarrow> queues k' q' = queues k q')"
proof -
  have "unat (uxMessagesWaiting (queues k q)) = Suc (length bs)"
    using assms(5) length_contents [of "queues k q"] by (simp del: length_contents)
  then have ne: "uxMessagesWaiting (queues k q) \<noteq> 0" by auto
  obtain Q' k' where r: "recv_try q (new_wait n) k = Some (Returned (Some (hd (contents (queues k q)))), k')"
    "sched_inv k'" "waiters_gone (WaitingToSend q) 1 (upd_queue q (\<lambda>_. Q') k) k'" "data_queue Q'"
    "same_shape (queues k q) Q'" "contents Q' = tl (contents (queues k q))"
    "pendsv k' \<longleftrightarrow> pendsv k \<or> outranked (WaitingToSend q) k"
    by (rule recv_try_data [OF assms(1-3) ne])
  have "members k' (WaitingToSend q) = tl (members k (WaitingToSend q))"
    using r(3) by (simp add: waiters_gone_def drop_Suc)
  moreover have "xQueueReceive q False n k = Some (Returned (Some b), k')"
    using r(1) assms(4,5) by (simp add: xQueueReceive_def recv_pass_def configASSERT_def)
  ultimately show ?thesis
    using r(2,4,6,7) assms(5) waiters_gone_queue [OF r(3)] by (intro exI [of _ k']) auto
qed

text \<open>
  C20. A send to a full queue with a time limit blocks the sender: it is on the list of tasks waiting to
  send and, with a finite limit \<open>n\<close>, on a delayed list with exactly \<open>n\<close> ticks to go; the queue is
  unchanged and unlocked, the scheduler runs again and a switch is pended. With no time limit
  (\<open>n = 0\<close>) the call returns \<open>errQUEUE_FULL\<close> and nothing changes.
\<close>

theorem xQueueGenericSend_full:
  assumes "sched_inv k" "quiet k" "can_block q c k" "uxMessagesWaiting (queues k q) = uxLength (queues k q)"
    "pos \<noteq> queueOVERWRITE" "item \<noteq> None \<or> uxItemSize (queues k q) = 0" "may_wait n k"
  shows "if n = 0 then xQueueGenericSend q item n pos k = Some (Returned False, k)
    else \<exists>w k'. xQueueGenericSend q item n pos k = Some (Again w, k') \<and> sched_inv k' \<and> quiet k' \<and> pendsv k' \<and>
      queues k' = queues k \<and> c \<in> set (members k' (WaitingToSend q)) \<and>
      (if n = portMAX_DELAY then state_list (tcbs k' c) = Some SuspendedTaskList
       else blocked k' c \<and> remaining k' c = unat n) \<and> (\<forall>t. t \<noteq> c \<longrightarrow> tcbs k' t = tcbs k t)"
proof (cases "n = 0")
  case True
  then show ?thesis
    using assms(4-7) by (simp add: xQueueGenericSend_def send_pass_def send_try_def configASSERT_def new_wait_def Let_def)
next
  case False
  let ?w = "set_entry_time k (new_wait n)" let ?k = "prvLockQueue q (vTaskSuspendAll k)"
  have w: "xTimeOut ?w = vTaskInternalSetTimeOutState ?k" "xTicksToWait ?w = n"
    by (simp_all add: set_entry_time_def new_wait_def prvLockQueue_def vTaskSuspendAll_def vTaskInternalSetTimeOutState_def)
  have ct: "check_time ?k ?w = (False, ?w)" using False w by (intro check_time_fresh) simp_all
  obtain k' where b: "block_on q (WaitingToSend q) n ?k = Some k'" "sched_inv k'" "quiet k'" "pendsv k'"
    "tcbs k' = (tcbs k)(c := parked n True k ((tcbs k c)\<lparr>event_list := Some (WaitingToSend q)\<rparr>))" "queues k' = queues k"
    "pxCurrentTCB k' = Some c" "xTickCount k' = xTickCount k"
    by (rule block_locked [OF assms(1-3) False queue_lists(1)]) blast
  have "prvIsQueueFull (queues ?k q)"
    using assms(4) by (simp add: prvIsQueueFull_def prvLockQueue_def vTaskSuspendAll_def)
  then have "xQueueGenericSend q item n pos k = Some (Again ?w, k')"
    using assms(4-7) False ct w(2) b(1)
    by (simp add: xQueueGenericSend_def send_pass_def send_try_def send_wait_def configASSERT_def Let_def new_wait_def)
  moreover have "c \<in> set (members k' (WaitingToSend q))"
    using event_member [OF sched_inv_parts(3) [OF b(2)], of "WaitingToSend q" c] by (simp add: b(5))
  moreover have "if n = portMAX_DELAY then state_list (tcbs k' c) = Some SuspendedTaskList
      else blocked k' c \<and> remaining k' c = unat n"
    using delayed_lists_distinct [OF sched_inv_parts(4) [OF assms(1)]]
    by (auto simp: b(5,8) parked_def blocked_def remaining_def)
  ultimately show ?thesis using b(2-6) False by auto
qed


text \<open>
  C17. A task that tries to take a mutex held by another task is blocked on the list of tasks waiting
  for it, and the holder inherits its priority: it runs at the higher of the two, its base priority is
  kept, and no third task changes.
\<close>

theorem xQueueSemaphoreTake_inherits:
  assumes "sched_inv k" "quiet k" "can_block q c k" "mutex_ok (queues k q)"
    "mutex_holder (queues k q) = Some (Some t)" "state_list (tcbs k t) \<noteq> None" "n \<noteq> 0" "may_wait n k"
  shows "\<exists>w k'. xQueueSemaphoreTake q n k = Some (Again w, k') \<and> sched_inv k' \<and> quiet k' \<and> pendsv k' \<and>
    queues k' = queues k \<and> c \<in> set (members k' (WaitingToReceive q)) \<and>
    prio k' t = max (prio k t) (prio k c) \<and> uxBasePriority (tcbs k' t) = uxBasePriority (tcbs k t) \<and>
    (\<forall>u. u \<noteq> t \<longrightarrow> u \<noteq> c \<longrightarrow> tcbs k' u = tcbs k u)"
proof -
  let ?w = "set_entry_time k (new_wait n)"
  have w: "xTimeOut ?w = vTaskInternalSetTimeOutState k" "xTicksToWait ?w = n" "xTicksToWait ?w \<noteq> 0"
    using assms(7) by (simp_all add: set_entry_time_def new_wait_def)
  have m: "uxMessagesWaiting (queues k q) = 0" "uxItemSize (queues k q) = 0"
    using assms(4,5) by (auto simp: mutex_ok_def)
  obtain w' k' where t: "take_wait q ?w k = Some (Again w', k')" "sched_inv k'" "quiet k'" "pendsv k'"
    "queues k' = queues k" "event_list (tcbs k' c) = Some (WaitingToReceive q)"
    "prio k' t = max (prio k t) (prio k c)" "uxBasePriority (tcbs k' t) = uxBasePriority (tcbs k t)"
    "\<And>u. u \<noteq> t \<Longrightarrow> u \<noteq> c \<Longrightarrow> tcbs k' u = tcbs k u" "xTicksToWait w' = xTicksToWait ?w"
    by (rule take_wait_inherits [OF assms(1-3) w(1,3) assms(4-6)], rule that)
  have "xQueueSemaphoreTake q n k = Some (Again w', k')"
    using t(1) assms(7,8) m
    by (simp add: xQueueSemaphoreTake_def take_pass_def take_try_def configASSERT_def Let_def new_wait_def)
  moreover have "c \<in> set (members k' (WaitingToReceive q))"
    using event_member [OF sched_inv_parts(3) [OF t(2)], of "WaitingToReceive q" c] t(6) by simp
  ultimately show ?thesis using t by auto
qed

text \<open>
  C18. Giving a mutex back frees it, readies the first task that waits for it and, when it was the last
  mutex the task held, ends the inheritance: the task is on the ready list of its base priority.
\<close>

theorem mutex_give_releases:
  assumes "sched_inv k" "pxCurrentTCB k = Some t" "mutex_ok (queues k q)"
    "mutex_holder (queues k q) = Some (Some t)" "state_list (tcbs k t) = Some (Ready (prio k t))"
    "uxMutexesHeld (tcbs k t) \<noteq> 0"
  shows "\<exists>k'. xQueueGenericSend q None 0 queueSEND_TO_BACK k = Some (Returned True, k') \<and> sched_inv k' \<and>
    mutex_ok (queues k' q) \<and> mutex_holder (queues k' q) = Some None \<and>
    members k' (WaitingToReceive q) = tl (members k (WaitingToReceive q)) \<and>
    (\<forall>u\<in>set (take 1 (members k (WaitingToReceive q))). tcbs k' u = released k (tcbs k u)) \<and>
    prio k' t = (if uxMutexesHeld (tcbs k t) = 1 then uxBasePriority (tcbs k t) else prio k t) \<and>
    state_list (tcbs k' t) = Some (Ready (prio k' t))"
proof -
  obtain k' where g: "send_try q None queueSEND_TO_BACK (new_wait 0) k = Some (Returned True, k')" "sched_inv k'"
    "mutex_ok (queues k' q)" "mutex_holder (queues k' q) = Some None"
    "members k' (WaitingToReceive q) = tl (members k (WaitingToReceive q))"
    "\<And>u. u \<in> set (take 1 (members k (WaitingToReceive q))) \<Longrightarrow> tcbs k' u = released k (tcbs k u)"
    "prio k' t = (if uxMutexesHeld (tcbs k t) = 1 then uxBasePriority (tcbs k t) else prio k t)"
    "state_list (tcbs k' t) = Some (Ready (prio k' t))"
    by (rule give_mutex [OF assms, of None "new_wait 0"]) blast
  have "uxItemSize (queues k q) = 0" using assms(3) by (simp add: mutex_ok_def)
  then have "xQueueGenericSend q None 0 queueSEND_TO_BACK k = Some (Returned True, k')"
    using g(1) by (simp add: xQueueGenericSend_def send_pass_def configASSERT_def)
  with g show ?thesis by auto
qed

text \<open>
  Creating a queue whose size in bytes fits the address space, on memory that the allocator
  returned, yields an empty, unlocked queue of the given length and item size and disturbs no task.
\<close>

theorem xQueueGenericCreate_empty:
  assumes "sched_inv k" "fresh_queue q k" "len > 0" "sz > 0" "sz \<le> 0xffffffff div len"
    "0xffffffff - sizeof_Queue_t \<ge> len * sz" "length mem = unat len * unat sz"
  shows "\<exists>k'. xQueueGenericCreate (Some (q, mem)) len sz ty k = Some (Some q, k') \<and> sched_inv k' \<and>
    data_queue (queues k' q) \<and> contents (queues k' q) = [] \<and> uxLength (queues k' q) = len \<and>
    uxItemSize (queues k' q) = sz \<and> cTxLock (queues k' q) = queueUNLOCKED \<and>
    cRxLock (queues k' q) = queueUNLOCKED \<and> tcbs k' = tcbs k"
  by (rule create_data_queue [OF assms, of ty]) blast

section \<open>A concrete kernel with queues\<close>

text \<open>
  The kernel of theory \<open>Scheduler_Ops\<close> with an empty queue 0 of two one-byte items, on which task 2
  waits, a full queue 1, a mutex 2 held by the idle task, a mutex 3 held by the running task and a
  locked queue 4.
\<close>

definition demo_ring :: "UBaseType_t \<Rightarrow> u8 list \<Rightarrow> int \<Rightarrow> UBaseType_t \<Rightarrow> int \<Rightarrow> int \<Rightarrow> Queue_t" where
  "demo_ring n s w len r lock = \<lparr>storage = s, pcHead = Some 0, pcWriteTo = w,
     u_ptrs = QueuePointers (int (unat len)) r, uxMessagesWaiting = n, uxLength = len, uxItemSize = 1,
     cRxLock = lock, cTxLock = lock, uxQueueNumber = 0, ucQueueType = 0\<rparr>"

definition demo_mutex :: "tid \<Rightarrow> Queue_t" where
  "demo_mutex t = \<lparr>storage = [], pcHead = None, pcWriteTo = 0, u_ptrs = SemaphoreData (Some t) 0,
     uxMessagesWaiting = 0, uxLength = 1, uxItemSize = 0, cRxLock = -1, cTxLock = -1,
     uxQueueNumber = 0, ucQueueType = 1\<rparr>"

definition demo_qkernel :: qkernel where
  "demo_qkernel = kernel.extend (demo_kernel 0 None)
     \<lparr>queues = (\<lambda>_. demo_ring 0 [0, 0] 0 2 1 (-1))(1 := demo_ring 1 [7] 0 1 0 (-1),
        2 := demo_mutex 0, 3 := demo_mutex 1, 4 := demo_ring 0 [0, 0] 0 2 1 0),
      xQueueRegistry = replicate 8 (None, None)\<rparr>"

lemma demo_qkernel_inv: "sched_inv demo_qkernel"
  using demo_sched_inv [of None 0] by (simp add: demo_qkernel_def)

lemma demo_qkernel_quiet: "quiet demo_qkernel"
  using demo_quiet by (simp add: demo_qkernel_def)

lemma demo_qkernel_fields:
  "pxCurrentTCB demo_qkernel = Some 1" "uxCurrentNumberOfTasks demo_qkernel = 4"
  "uxSchedulerSuspended demo_qkernel = 0"
  "state_list (tcbs demo_qkernel 1) = Some (Ready 5)" "event_list (tcbs demo_qkernel 1) = None"
  "prio demo_qkernel 1 = 5" "prio demo_qkernel 0 = 0" "uxMutexesHeld (tcbs demo_qkernel 1) = 1"
  "uxBasePriority (tcbs demo_qkernel 1) = 5" "state_list (tcbs demo_qkernel 0) = Some (Ready 0)"
  "members demo_qkernel (WaitingToReceive 0) = [2]"
  "queues demo_qkernel 0 = demo_ring 0 [0, 0] 0 2 1 (-1)" "queues demo_qkernel 1 = demo_ring 1 [7] 0 1 0 (-1)"
  "queues demo_qkernel 2 = demo_mutex 0" "queues demo_qkernel 3 = demo_mutex 1"
  "queues demo_qkernel 4 = demo_ring 0 [0, 0] 0 2 1 0"
  "event_list (tcbs demo_qkernel t) \<noteq> Some (WaitingToSend q)"
  "event_list (tcbs demo_qkernel t) \<noteq> Some (WaitingToReceive 5)"
  by (simp_all add: demo_qkernel_def demo_defs) (simp_all add: kernel.defs)

lemma demo_ring_data: "data_queue (demo_ring 0 [0, 0] 0 2 1 l)" "data_queue (demo_ring 1 [7] 0 1 0 l)"
  by (auto simp: data_queue_def ring_at_def demo_ring_def Let_def intro: exI [of _ 0])

lemma demo_may_wait: "may_wait n demo_qkernel"
  by (simp add: may_wait_def xTaskGetSchedulerState_def demo_qkernel_fields)

lemma demo_can_block: "q \<noteq> 4 \<Longrightarrow> can_block q 1 demo_qkernel"
  using demo_qkernel_fields(1-5)
  by (auto simp: can_block_def demo_qkernel_def demo_ring_def demo_mutex_def queueUNLOCKED_def kernel.defs simp del: One_nat_def)

lemma demo_contents [simp]:
  "contents (demo_ring 0 s 0 2 1 l) = []" "contents (demo_ring 1 [7] 0 1 0 l) = [[7]]"
  "uxItemSize (demo_ring n s w len r l) = 1" "uxLength (demo_ring n s w len r l) = len"
  "uxMessagesWaiting (demo_ring n s w len r l) = n" "cTxLock (demo_ring n s w len r l) = l"
  "cRxLock (demo_ring n s w len r l) = l"
  by (simp_all add: contents_def demo_ring_def head_index_def slot_def Let_def ring_def)

lemma demo_mutex_fields [simp]: "mutex_ok (demo_mutex t)" "mutex_holder (demo_mutex t) = Some (Some t)"
  "uxMessagesWaiting (demo_mutex t) = 0"
  by (simp_all add: demo_mutex_def mutex_ok_def mutex_holder_def)

lemma demo_fresh: "fresh_queue 5 demo_qkernel"
  by (auto simp: fresh_queue_def demo_qkernel_fields)

theorem queue_fifo_witness:
  "\<exists>k' k''. push_all (send_now 0) [[1], [2]] demo_qkernel = Some k' \<and>
    pop_n (receive_now 0) 2 k' = Some ([[1], [2]], k'')"
proof -
  have "queue_inv 0 demo_qkernel" "queue_contents 0 demo_qkernel = []" "length [[1], [2 :: u8]] \<le> queue_capacity 0 demo_qkernel"
    "\<forall>x\<in>set [[1], [2]]. item_fits 0 demo_qkernel x"
    by (simp_all add: queue_inv_def queue_contents_def queue_capacity_def item_fits_def demo_qkernel_inv
      demo_qkernel_fields demo_ring_data)
  from queue_fifo [OF this] show ?thesis by (auto simp: numeral_2_eq_2)
qed

theorem xQueueGenericSend_delivers_witness:
  "\<exists>k'. xQueueGenericSend 0 (Some [9]) 10 queueSEND_TO_BACK demo_qkernel = Some (Returned True, k') \<and>
    sched_inv k' \<and> contents (queues k' 0) = [[9]] \<and> members k' (WaitingToReceive 0) = []"
proof -
  have "data_queue (queues demo_qkernel 0)" by (simp add: demo_qkernel_fields demo_ring_data)
  from xQueueGenericSend_delivers [OF demo_qkernel_inv demo_qkernel_fields(1) this demo_may_wait, of "[9]" queueSEND_TO_BACK 10]
  show ?thesis by (auto simp: demo_qkernel_fields stored_def)
qed

theorem xQueueReceive_takes_oldest_witness:
  "\<exists>k'. xQueueReceive 1 False 10 demo_qkernel = Some (Returned (Some [7]), k') \<and> contents (queues k' 1) = []"
proof -
  have "data_queue (queues demo_qkernel 1)" "contents (queues demo_qkernel 1) = [7] # []"
    by (simp_all add: demo_qkernel_fields demo_ring_data del: One_nat_def)
  from xQueueReceive_takes_oldest [OF demo_qkernel_inv demo_qkernel_fields(1) this(1) demo_may_wait this(2)]
  show ?thesis by blast
qed

theorem xQueueGenericSend_full_witness:
  "\<exists>w k'. xQueueGenericSend 1 (Some [9]) 10 queueSEND_TO_BACK demo_qkernel = Some (Again w, k') \<and> sched_inv k' \<and>
    blocked k' 1 \<and> remaining k' 1 = 10"
proof -
  have full: "uxMessagesWaiting (queues demo_qkernel 1) = uxLength (queues demo_qkernel 1)"
    by (simp add: demo_qkernel_fields del: One_nat_def)
  have pos: "queueSEND_TO_BACK \<noteq> queueOVERWRITE" "Some [9] \<noteq> None \<or> uxItemSize (queues demo_qkernel 1) = 0" by simp_all
  have cb: "can_block 1 1 demo_qkernel" by (rule demo_can_block) simp
  show ?thesis
    using xQueueGenericSend_full [OF demo_qkernel_inv demo_qkernel_quiet cb full pos demo_may_wait, of 10]
    by (auto simp: portMAX_DELAY_def simp del: One_nat_def)
qed


theorem xQueueSemaphoreTake_inherits_witness:
  "\<exists>w k'. xQueueSemaphoreTake 2 10 demo_qkernel = Some (Again w, k') \<and> sched_inv k' \<and> prio k' 0 = 5"
proof -
  have cb: "can_block 2 1 demo_qkernel" by (rule demo_can_block) simp
  have "mutex_ok (queues demo_qkernel 2)" "mutex_holder (queues demo_qkernel 2) = Some (Some 0)"
    "state_list (tcbs demo_qkernel 0) \<noteq> None" "(10 :: TickType_t) \<noteq> 0"
    using demo_qkernel_fields by simp_all
  from xQueueSemaphoreTake_inherits [OF demo_qkernel_inv demo_qkernel_quiet cb this demo_may_wait]
  have "\<exists>w k'. xQueueSemaphoreTake 2 10 demo_qkernel = Some (Again w, k') \<and> sched_inv k' \<and>
    prio k' 0 = max (prio demo_qkernel 0) (prio demo_qkernel 1)" by blast
  then show ?thesis by (simp only: demo_qkernel_fields) (simp add: max_def)
qed

theorem mutex_give_releases_witness:
  "\<exists>k'. xQueueGenericSend 3 None 0 queueSEND_TO_BACK demo_qkernel = Some (Returned True, k') \<and>
    mutex_holder (queues k' 3) = Some None"
proof -
  have "mutex_ok (queues demo_qkernel 3)" "mutex_holder (queues demo_qkernel 3) = Some (Some 1)"
    "state_list (tcbs demo_qkernel 1) = Some (Ready (prio demo_qkernel 1))" "uxMutexesHeld (tcbs demo_qkernel 1) \<noteq> 0"
    using demo_qkernel_fields by (simp_all del: One_nat_def)
  from mutex_give_releases [OF demo_qkernel_inv demo_qkernel_fields(1) this] show ?thesis by blast
qed

theorem xQueueGenericCreate_empty_witness:
  "\<exists>k'. xQueueGenericCreate (Some (5, replicate 20 0)) 4 5 0 demo_qkernel = Some (Some 5, k') \<and>
    data_queue (queues k' 5) \<and> contents (queues k' 5) = []"
proof -
  have "(4 :: u32) > 0" "(5 :: u32) > 0" "(5 :: u32) \<le> 0xffffffff div 4" "0xffffffff - sizeof_Queue_t \<ge> (4 :: u32) * 5"
    "length (replicate 20 (0 :: u8)) = unat (4 :: u32) * unat (5 :: u32)"
    by (simp_all add: sizeof_Queue_t_def)
  from xQueueGenericCreate_empty [OF demo_qkernel_inv demo_fresh this, of 0] show ?thesis by blast
qed

end
