(* ===== verification/Semaphores.thy ===== *)
theory Semaphores
  imports Queue_Props
begin

text \<open>
  Counting and binary semaphores: queues without items, as \<open>semphr.h\<close> uses the functions of \<open>queue.c\<close>.
  What taking and giving do, from a task and from an interrupt.
\<close>

definition semaphore_ok :: "Queue_t \<Rightarrow> bool" where
  "semaphore_ok Q \<longleftrightarrow> pcHead Q \<noteq> None \<and> uxItemSize Q = 0 \<and> uxMessagesWaiting Q \<le> uxLength Q"

definition set_count :: "UBaseType_t \<Rightarrow> Queue_t \<Rightarrow> Queue_t" where
  "set_count n Q = Q\<lparr>uxMessagesWaiting := n\<rparr>"

lemma set_count_simps [simp]:
  "uxMessagesWaiting (set_count n Q) = n" "uxLength (set_count n Q) = uxLength Q" "pcHead (set_count n Q) = pcHead Q"
  "uxItemSize (set_count n Q) = uxItemSize Q" "cTxLock (set_count n Q) = cTxLock Q" "cRxLock (set_count n Q) = cRxLock Q"
  "set_count n (set_count m Q) = set_count n Q" "set_count (uxMessagesWaiting Q) Q = Q"
  by (simp_all add: set_count_def)

lemma semaphore_set_count: "semaphore_ok Q \<Longrightarrow> semaphore_ok (set_count n Q) \<longleftrightarrow> n \<le> uxLength Q"
  by (simp add: semaphore_ok_def)

text \<open>A take of a semaphore whose count is not zero returns at once.\<close>

lemma semaphore_take_now:
  assumes "sched_inv k" "pxCurrentTCB k = Some c" "semaphore_ok (queues k q)" "uxMessagesWaiting (queues k q) > 0"
    "members k (WaitingToSend q) = []"
  shows "take_pass q w k = Some (Returned True, upd_queue q (set_count (uxMessagesWaiting (queues k q) - 1)) k)"
  using assms
  by (auto simp: take_pass_def take_try_def release_and_yield_def Let_def semaphore_ok_def upd_queue_def set_count_def)

text \<open>A take of a semaphore whose count is zero blocks the task until the time given.\<close>

lemma semaphore_take_blocks:
  assumes "sched_inv k" "quiet k" "can_block q c k" "semaphore_ok (queues k q)" "uxMessagesWaiting (queues k q) = 0"
    "n \<noteq> 0" "may_wait n k"
  obtains w k' where "xQueueSemaphoreTake q n k = Some (Again w, k')" "sched_inv k'" "quiet k'" "pendsv k'"
    "tcbs k' = (tcbs k)(c := parked n True k ((tcbs k c)\<lparr>event_list := Some (WaitingToReceive q)\<rparr>))"
    "queues k' = queues k" "pxCurrentTCB k' = Some c" "xTickCount k' = xTickCount k"
    "uxCurrentNumberOfTasks k' = uxCurrentNumberOfTasks k" "qkernel.more k' = qkernel.more k" "xTicksToWait w = n"
proof -
  let ?w = "set_entry_time k (new_wait n)" let ?k = "prvLockQueue q (vTaskSuspendAll k)"
  have w: "xTimeOut ?w = vTaskInternalSetTimeOutState ?k" "xTicksToWait ?w = n"
    by (simp_all add: set_entry_time_def new_wait_def prvLockQueue_def vTaskSuspendAll_def vTaskInternalSetTimeOutState_def)
  have ct: "check_time ?k ?w = (False, ?w)" using assms(6) w by (intro check_time_fresh) simp_all
  obtain k' where b: "block_on q (WaitingToReceive q) n ?k = Some k'" "sched_inv k'" "quiet k'" "pendsv k'"
    "tcbs k' = (tcbs k)(c := parked n True k ((tcbs k c)\<lparr>event_list := Some (WaitingToReceive q)\<rparr>))"
    "queues k' = queues k" "pxCurrentTCB k' = Some c" "xTickCount k' = xTickCount k"
    "uxCurrentNumberOfTasks k' = uxCurrentNumberOfTasks k" "qkernel.more k' = qkernel.more k"
    by (rule block_locked [OF assms(1-3,6) queue_lists(2)])
  have "prvIsQueueEmpty (queues ?k q)" "pcHead (queues ?k q) \<noteq> None"
    using assms(4,5) by (simp_all add: prvIsQueueEmpty_def prvLockQueue_def vTaskSuspendAll_def semaphore_ok_def)
  then have "xQueueSemaphoreTake q n k = Some (Again ?w, k')"
    using assms(4-7) ct w(2) b(1)
    by (auto simp: xQueueSemaphoreTake_def take_pass_def take_try_def take_wait_def configASSERT_def Let_def
        semaphore_ok_def new_wait_def)
  then show thesis using b(2-) w(2) by (rule that)
qed

text \<open>A give from an interrupt counts up and readies the first waiting task.\<close>

lemma semaphore_give_isr:
  assumes "sched_inv k" "pxCurrentTCB k = Some c" "semaphore_ok (queues k q)"
    "uxMessagesWaiting (queues k q) < uxLength (queues k q)" "cTxLock (queues k q) = queueUNLOCKED"
  obtains k' where "xQueueGiveFromISR q woken k = Some (True, outranked (WaitingToReceive q) k \<or> woken, k')" "sched_inv k'"
    "waiters_gone (WaitingToReceive q) 1 (upd_queue q (set_count (uxMessagesWaiting (queues k q) + 1)) k) k'"
proof -
  let ?k = "upd_queue q (set_count (uxMessagesWaiting (queues k q) + 1)) k"
  have "sched_inv ?k" "pxCurrentTCB ?k = Some c" using assms(1,2) by simp_all
  then obtain k' where r: "release_from_isr (WaitingToReceive q) woken ?k =
      Some (outranked (WaitingToReceive q) ?k \<or> woken, k')" "sched_inv k'" "waiters_gone (WaitingToReceive q) 1 ?k k'"
    by (rule release_from_isr_spec [OF _ _ queue_lists(2)])
  have "upd_queue q (\<lambda>Q. Q\<lparr>uxMessagesWaiting := uxMessagesWaiting Q + 1\<rparr>) k = ?k"
    by (simp add: upd_queue_def set_count_def)
  moreover have "outranked (WaitingToReceive q) ?k = outranked (WaitingToReceive q) k" by (simp add: outranked_def cong: list.case_cong option.case_cong)
  ultimately show thesis
    using assms(3-5) r by (intro that [of k']) (auto simp: xQueueGiveFromISR_def configASSERT_def Let_def semaphore_ok_def)
qed

section \<open>A free mutex\<close>

text \<open>Taking a mutex that is free and for which no sender waits, with the resulting state written out.\<close>

definition mutex_taken :: "nat \<Rightarrow> tid \<Rightarrow> 'z qkernel_scheme \<Rightarrow> 'z qkernel_scheme" where
  "mutex_taken q c k = upd_queue q (\<lambda>Q. set_mutex_holder (Some c) (set_count 0 Q))
     (upd_tcb c (\<lambda>b. b\<lparr>uxMutexesHeld := uxMutexesHeld b + 1\<rparr>) k)"

lemma mutex_take_now:
  assumes "pxCurrentTCB k = Some c" "mutex_ok (queues k q)" "uxMessagesWaiting (queues k q) = 1"
    "members k (WaitingToSend q) = []"
  shows "take_pass q w k = Some (Returned True, mutex_taken q c k)"
  using assms
  by (auto simp: take_pass_def take_try_def release_and_yield_def Let_def mutex_ok_def mutex_taken_def
      pvTaskIncrementMutexHeldCount_def upd_queue_def upd_tcb_def set_count_def set_mutex_holder_def)

lemma mutex_taken_simps [simp]:
  "pxCurrentTCB (mutex_taken q c k) = pxCurrentTCB k" "task_lists (mutex_taken q c k) = task_lists k"
  "uxSchedulerSuspended (mutex_taken q c k) = uxSchedulerSuspended k" "xTickCount (mutex_taken q c k) = xTickCount k"
  "uxCurrentNumberOfTasks (mutex_taken q c k) = uxCurrentNumberOfTasks k"
  "tcbs (mutex_taken q c k) = (tcbs k)(c := (tcbs k c)\<lparr>uxMutexesHeld := uxMutexesHeld (tcbs k c) + 1\<rparr>)"
  "qkernel.more (mutex_taken q c k) = qkernel.more k" "pendsv (mutex_taken q c k) = pendsv k"
  "queues (mutex_taken q c k) = (queues k)(q := set_mutex_holder (Some c) (set_count 0 (queues k q)))"
  "may_wait n (mutex_taken q c k) = may_wait n k"
  by (simp_all add: mutex_taken_def upd_tcb_def upd_queue_def may_wait_def xTaskGetSchedulerState_def)

lemma mutex_taken_quiet [simp]: "quiet (mutex_taken q c k) = quiet k"
proof -
  have "pending (mutex_taken q c k) t = pending k t" for t by (simp add: pending_def)
  then show ?thesis by (simp add: quiet_def) (simp add: mutex_taken_def upd_tcb_def)
qed

lemma mutex_taken_inv [simp]: "sched_inv (mutex_taken q c k) = sched_inv k"
  by (simp add: mutex_taken_def sched_inv_mutexes)

lemma mutex_taken_ok:
  assumes "mutex_ok (queues k q)" "uxMessagesWaiting (queues k q) = 1"
  shows "mutex_ok (queues (mutex_taken q c k) q)" "mutex_holder (queues (mutex_taken q c k) q) = Some (Some c)"
  using assms by (auto simp: mutex_ok_def set_count_def set_mutex_holder_def mutex_holder_def)

end
