(* ===== verification/Cli.thy ===== *)
theory Cli
  imports Prelude "HOL-Library.Monad_Syntax"
begin

text \<open>
  The command line of the board, \<open>Src/cli.c\<close>, with the parts of the ST low-layer drivers it calls:
  the RTC of \<open>stm32f4xx_ll_rtc.c/.h\<close> and the pin functions of \<open>stm32f4xx_ll_gpio.h\<close>. The registers
  and the terminal output are the record \<open>board\<close>. A C string is the list of the bytes of its array;
  reading outside the array is \<open>None\<close>. The flags that the hardware changes on its own, read while
  the RTC enters its initialisation mode, are the argument \<open>rtc_env\<close>.
\<close>

section \<open>Registers\<close>

record board =
  GPIOE_ODR :: u32
  RTC_TR :: u32
  RTC_DR :: u32
  RTC_ISR :: u32
  out :: string

text \<open>A write to the bit set/reset register: the low half sets output bits, the high half resets them.\<close>

definition write_BSRR :: "u32 \<Rightarrow> board \<Rightarrow> board" where
  "write_BSRR v b = b\<lparr>GPIOE_ODR := (GPIOE_ODR b AND NOT (drop_bit 16 v)) OR (v AND 0xffff)\<rparr>"

definition LL_GPIO_PIN_13 :: u32 where "LL_GPIO_PIN_13 = 0x2000"

definition LL_GPIO_SetOutputPin :: "u32 \<Rightarrow> board \<Rightarrow> board" where
  "LL_GPIO_SetOutputPin PinMask = write_BSRR PinMask"

definition LL_GPIO_ResetOutputPin :: "u32 \<Rightarrow> board \<Rightarrow> board" where
  "LL_GPIO_ResetOutputPin PinMask = write_BSRR (push_bit 16 PinMask)"

definition LL_RTC_CONVERT_BIN2BCD :: "u32 \<Rightarrow> u8" where
  "LL_RTC_CONVERT_BIN2BCD v = ucast (push_bit 4 (v div 10) OR v mod 10)"

definition LL_RTC_CONVERT_BCD2BIN :: "u32 \<Rightarrow> u8" where
  "LL_RTC_CONVERT_BCD2BIN v = ucast (drop_bit 4 (v AND 0xf0) * 10 + (v AND 0x0f))"

definition LL_RTC_TIME_Get :: "board \<Rightarrow> u32" where
  "LL_RTC_TIME_Get b = RTC_TR b AND (0x300000 OR 0xf0000 OR 0x7000 OR 0xf00 OR 0x70 OR 0xf)"

definition LL_RTC_GET_HOUR :: "u32 \<Rightarrow> u32" where "LL_RTC_GET_HOUR t = drop_bit 16 t AND 0xff"
definition LL_RTC_GET_MINUTE :: "u32 \<Rightarrow> u32" where "LL_RTC_GET_MINUTE t = drop_bit 8 t AND 0xff"
definition LL_RTC_GET_SECOND :: "u32 \<Rightarrow> u32" where "LL_RTC_GET_SECOND t = t AND 0xff"

definition LL_RTC_DATE_Get :: "board \<Rightarrow> u32" where
  "LL_RTC_DATE_Get b =
    (let temp = RTC_DR b AND (0xe000 OR 0x1000 OR 0xf00 OR 0x30 OR 0xf OR 0xf00000 OR 0xf0000)
     in push_bit 24 (drop_bit 13 (temp AND 0xe000)) OR push_bit 16 (temp AND (0x30 OR 0xf)) OR
        push_bit 8 (drop_bit 8 (temp AND (0x1000 OR 0xf00))) OR drop_bit 16 (temp AND (0xf00000 OR 0xf0000)))"

definition LL_RTC_GET_YEAR :: "u32 \<Rightarrow> u32" where "LL_RTC_GET_YEAR d = d AND 0xff"
definition LL_RTC_GET_MONTH :: "u32 \<Rightarrow> u32" where "LL_RTC_GET_MONTH d = drop_bit 8 d AND 0xff"
definition LL_RTC_GET_DAY :: "u32 \<Rightarrow> u32" where "LL_RTC_GET_DAY d = drop_bit 16 d AND 0xff"

section \<open>The initialisation mode of the RTC\<close>

datatype ErrorStatus = SUCCESS | ERROR

text \<open>
  What successive reads of two volatile flags give: \<open>initf i\<close> is the \<open>i\<close>-th read of INITF, \<open>systick i\<close>
  the \<open>i\<close>-th read of the SysTick count flag.
\<close>

record rtc_env =
  initf :: "nat \<Rightarrow> bool"
  systick :: "nat \<Rightarrow> bool"

definition RTC_INITMODE_TIMEOUT :: u32 where "RTC_INITMODE_TIMEOUT = 1000"

text \<open>The polling loop. It has no bound of its own: only SysTick flags count the timeout down.\<close>

partial_function (option) init_poll ::
  "rtc_env \<Rightarrow> nat \<Rightarrow> u32 \<Rightarrow> bool \<Rightarrow> ErrorStatus \<Rightarrow> ErrorStatus option" where
  "init_poll e i timeout tmp status =
    (if timeout \<noteq> 0 \<and> \<not> tmp
     then let timeout' = (if systick e i then timeout - 1 else timeout);
              tmp' = initf e (i + 2);
              status' = (if timeout' = 0 then ERROR else status)
          in init_poll e (i + 1) timeout' tmp' status'
     else Some status)"

definition LL_RTC_EnterInitMode :: "rtc_env \<Rightarrow> board \<Rightarrow> (ErrorStatus \<times> board) option" where
  "LL_RTC_EnterInitMode e b =
    (if \<not> initf e 0
     then do {
       let b = b\<lparr>RTC_ISR := 0xffffffff\<rparr>;
       status \<leftarrow> init_poll e 0 RTC_INITMODE_TIMEOUT (initf e 1) SUCCESS;
       Some (status, b)
     }
     else Some (SUCCESS, b))"

definition LL_RTC_ExitInitMode :: "board \<Rightarrow> board" where
  "LL_RTC_ExitInitMode b = b\<lparr>RTC_ISR := NOT 0x80\<rparr>"

section \<open>Characters, strings and formatted output\<close>

definition NUL :: char where "NUL = CHR 0x00"
definition CR :: char where "CR = CHR 0x0d"
definition LF :: char where "LF = CHR 0x0a"

definition isblank :: "char \<Rightarrow> bool" where "isblank c \<longleftrightarrow> c = CHR '' '' \<or> c = CHR 0x09"

definition isdigit :: "char \<Rightarrow> bool" where
  "isdigit c \<longleftrightarrow> 48 \<le> (of_char c :: int) \<and> (of_char c :: int) \<le> 57"

text \<open>\<open>buf[i]\<close>\<close>

definition rd :: "string \<Rightarrow> nat \<Rightarrow> char option" where
  "rd buf i = (if i < length buf then Some (buf ! i) else None)"

text \<open>\<open>while (isblank(buf[i])) ++i;\<close>\<close>

function skip_blanks :: "string \<Rightarrow> nat \<Rightarrow> nat option" where
  "skip_blanks buf i = (case rd buf i of None \<Rightarrow> None
     | Some c \<Rightarrow> if isblank c then skip_blanks buf (Suc i) else Some i)"
  by pat_completeness auto
termination
  by (relation "measure (\<lambda>(buf, i). length buf - i)") (auto simp: rd_def split: if_splits)

text \<open>\<open>!strncmp(buf + i, s, n)\<close> for a literal \<open>s\<close> of length \<open>n\<close>: reading stops at the first difference.\<close>

fun strncmp_eq :: "string \<Rightarrow> nat \<Rightarrow> string \<Rightarrow> bool option" where
  "strncmp_eq buf i [] = Some True"
| "strncmp_eq buf i (c # s) = do { x \<leftarrow> rd buf i; if x = c then strncmp_eq buf (Suc i) s else Some False }"

definition printf :: "string \<Rightarrow> board \<Rightarrow> board" where
  "printf s b = b\<lparr>out := out b @ s\<rparr>"

text \<open>The conversions \<open>%d\<close> and \<open>%02d\<close> of a number that is not negative.\<close>

fun dec :: "nat \<Rightarrow> string" where
  "dec n = (if n < 10 then [char_of (48 + n)] else dec (n div 10) @ [char_of (48 + n mod 10)])"

definition dec2 :: "nat \<Rightarrow> string" where
  "dec2 n = (if n < 10 then CHR ''0'' # dec n else dec n)"

section \<open>The commands\<close>

definition match_pin_cmd :: "string \<Rightarrow> board \<Rightarrow> (bool \<times> board) option" where
  "match_pin_cmd buf b = do {
     i \<leftarrow> skip_blanks buf 0;
     m \<leftarrow> strncmp_eq buf i ''pin'';
     if \<not> m then Some (False, b) else do {
       i \<leftarrow> skip_blanks buf (i + 3);
       m \<leftarrow> strncmp_eq buf i ''set'';
       if \<not> m then Some (False, b) else do {
         i \<leftarrow> skip_blanks buf (i + 3);
         c \<leftarrow> rd buf i;
         Some (if c = CHR ''0'' then (True, LL_GPIO_SetOutputPin LL_GPIO_PIN_13 b)
               else if c = CHR ''1'' then (True, LL_GPIO_ResetOutputPin LL_GPIO_PIN_13 b)
               else (False, b))
       } } }"

text \<open>The second digit is read only when the first is a digit.\<close>

definition get_num_from_str :: "string \<Rightarrow> nat \<Rightarrow> int option" where
  "get_num_from_str buf i = do {
     c0 \<leftarrow> rd buf i;
     if \<not> isdigit c0 then Some (-1) else do {
       c1 \<leftarrow> rd buf (i + 1);
       if \<not> isdigit c1 then Some (-1)
       else Some ((of_char c0 - 48) * 10 + of_char c1 - 48)
     } }"

definition time_word :: "u32 \<Rightarrow> u32 \<Rightarrow> u32 \<Rightarrow> u32" where
  "time_word hours minutes seconds =
    (push_bit 16 (ucast (LL_RTC_CONVERT_BIN2BCD hours)) AND 0x3f0000) OR
    (push_bit 8 (ucast (LL_RTC_CONVERT_BIN2BCD minutes)) AND 0x7f00) OR
    (ucast (LL_RTC_CONVERT_BIN2BCD seconds) AND 0x7f)"

definition set_time_from_str :: "rtc_env \<Rightarrow> string \<Rightarrow> nat \<Rightarrow> board \<Rightarrow> (bool \<times> board) option" where
  "set_time_from_str e buf i b = do {
     hours \<leftarrow> get_num_from_str buf i;
     if hours < 0 \<or> hours > 23 then Some (False, b) else do {
     c \<leftarrow> rd buf (i + 2);
     if c \<noteq> CHR '':'' then Some (False, b) else do {
     minutes \<leftarrow> get_num_from_str buf (i + 3);
     if minutes < 0 \<or> minutes > 59 then Some (False, b) else do {
     c \<leftarrow> rd buf (i + 5);
     if c \<noteq> CHR '':'' then Some (False, b) else do {
     seconds \<leftarrow> get_num_from_str buf (i + 6);
     if seconds < 0 \<or> seconds > 59 then Some (False, b) else do {
     let b = printf (''Time is succesfully set '' @ dec (nat hours) @ '':'' @ dec (nat minutes) @ '':'' @
                     dec (nat seconds) @ ''!'' @ [CR, LF]) b;
     (status, b) \<leftarrow> LL_RTC_EnterInitMode e b;
     if status = ERROR then Some (False, b) else do {
     let b = b\<lparr>RTC_TR := time_word (word_of_int hours) (word_of_int minutes) (word_of_int seconds)\<rparr>;
     Some (True, LL_RTC_ExitInitMode b)
     } } } } } } }"

definition match_time_cmd :: "rtc_env \<Rightarrow> string \<Rightarrow> board \<Rightarrow> (bool \<times> board) option" where
  "match_time_cmd e buf b = do {
     i \<leftarrow> skip_blanks buf 0;
     m \<leftarrow> strncmp_eq buf i ''time'';
     if \<not> m then Some (False, b) else do {
       i \<leftarrow> skip_blanks buf (i + 4);
       m \<leftarrow> strncmp_eq buf i ''set'';
       if m then do {
         i \<leftarrow> skip_blanks buf (i + 3);
         set_time_from_str e buf i b
       } else do {
         m \<leftarrow> strncmp_eq buf i ''get'';
         if m then
           let time = LL_RTC_TIME_Get b;
               hours = LL_RTC_CONVERT_BCD2BIN (LL_RTC_GET_HOUR time);
               minutes = LL_RTC_CONVERT_BCD2BIN (LL_RTC_GET_MINUTE time);
               seconds = LL_RTC_CONVERT_BCD2BIN (LL_RTC_GET_SECOND time)
           in Some (True, printf (''time is '' @ dec2 (unat hours) @ '':'' @ dec2 (unat minutes) @ '':'' @
                                  dec2 (unat seconds) @ [CR, LF]) b)
         else Some (False, b)
       } } }"

definition date_word :: "u32 \<Rightarrow> u32 \<Rightarrow> u32 \<Rightarrow> u32" where
  "date_word year month day =
    (push_bit 16 (ucast (LL_RTC_CONVERT_BIN2BCD year)) AND 0xff0000) OR
    (push_bit 8 (ucast (LL_RTC_CONVERT_BIN2BCD month) + 0x20) AND 0x1f00) OR
    (ucast (LL_RTC_CONVERT_BIN2BCD day) AND 0x3f)"

definition set_date_from_str :: "rtc_env \<Rightarrow> string \<Rightarrow> nat \<Rightarrow> board \<Rightarrow> (bool \<times> board) option" where
  "set_date_from_str e buf i b = do {
     year \<leftarrow> get_num_from_str buf i;
     if year < 0 then Some (False, b) else do {
     c \<leftarrow> rd buf (i + 2);
     if c \<noteq> CHR '':'' then Some (False, b) else do {
     month \<leftarrow> get_num_from_str buf (i + 3);
     if month < 1 \<or> month > 12 then Some (False, b) else do {
     c \<leftarrow> rd buf (i + 5);
     if c \<noteq> CHR '':'' then Some (False, b) else do {
     day \<leftarrow> get_num_from_str buf (i + 6);
     if day < 1 \<or> day > 31 then Some (False, b) else do {
     (status, b) \<leftarrow> LL_RTC_EnterInitMode e b;
     if status = ERROR then Some (False, b) else do {
     let b = b\<lparr>RTC_DR := date_word (word_of_int year) (word_of_int month) (word_of_int day)\<rparr>;
     Some (True, printf (''Date is succesfully set!'' @ [CR, LF]) (LL_RTC_ExitInitMode b))
     } } } } } } }"

definition match_date_cmd :: "rtc_env \<Rightarrow> string \<Rightarrow> board \<Rightarrow> (bool \<times> board) option" where
  "match_date_cmd e buf b = do {
     i \<leftarrow> skip_blanks buf 0;
     m \<leftarrow> strncmp_eq buf i ''date'';
     if \<not> m then Some (False, b) else do {
       i \<leftarrow> skip_blanks buf (i + 4);
       m \<leftarrow> strncmp_eq buf i ''set'';
       if m then do {
         i \<leftarrow> skip_blanks buf (i + 3);
         set_date_from_str e buf i b
       } else do {
         m \<leftarrow> strncmp_eq buf i ''get'';
         if m then
           let date = LL_RTC_DATE_Get b;
               year = LL_RTC_CONVERT_BCD2BIN (LL_RTC_GET_YEAR date);
               month = LL_RTC_CONVERT_BCD2BIN (LL_RTC_GET_MONTH date);
               day = LL_RTC_CONVERT_BCD2BIN (LL_RTC_GET_DAY date)
           in Some (True, printf (''date is 20'' @ dec2 (unat year) @ '':'' @ dec2 (unat month) @ '':'' @
                                  dec2 (unat day) @ [CR, LF]) b)
         else Some (False, b)
       } } }"

definition match_i2c_cmd :: "string \<Rightarrow> board \<Rightarrow> (bool \<times> board) option" where
  "match_i2c_cmd buf b = Some (False, b)"

definition parse_string :: "rtc_env \<Rightarrow> string \<Rightarrow> board \<Rightarrow> (bool \<times> board) option" where
  "parse_string e buf b = do {
     (m, b) \<leftarrow> match_pin_cmd buf b;
     if m then Some (True, b) else do {
     (m, b) \<leftarrow> match_i2c_cmd buf b;
     if m then Some (True, b) else do {
     (m, b) \<leftarrow> match_time_cmd e buf b;
     if m then Some (True, b) else do {
     (m, b) \<leftarrow> match_date_cmd e buf b;
     Some (m, b)
     } } } }"

section \<open>The command line task\<close>

definition BUFLEN :: nat where "BUFLEN = 256"

text \<open>
  \<open>fgets(buf, n, stdin)\<close>: the characters up to and including the first newline, at most \<open>n - 1\<close>, then a
  terminating NUL; the bytes after it stay as they are. With no input the array is not written.
\<close>

fun upto_newline :: "string \<Rightarrow> string" where
  "upto_newline [] = []"
| "upto_newline (c # s) = (if c = LF then [c] else c # upto_newline s)"

definition fgets :: "nat \<Rightarrow> string \<Rightarrow> string \<Rightarrow> string" where
  "fgets n buf input = (if input = [] then buf
     else let l = take (n - 1) (upto_newline input) in l @ [NUL] @ drop (Suc (length l)) buf)"

definition print_help :: "board \<Rightarrow> board" where
  "print_help = printf (''supported commands:'' @ [CR, LF] @
     ''pin set [0|1] -- sets/resets LED1 on the board'' @ [CR, LF] @
     ''time [set HH:MM:SS|get]'' @ [CR, LF] @
     ''date [set YY::MM:DD |get]'' @ [CR, LF] @
     ''i2c [read|write str] -- access to i2c flash'' @ [CR, LF] @
     ''TBD'' @ [CR, LF] @ [LF])"

text \<open>One round of the loop of \<open>cli_task\<close> on what the terminal delivers.\<close>

definition cli_task :: "rtc_env \<Rightarrow> string \<Rightarrow> string \<times> board \<Rightarrow> (string \<times> board) option" where
  "cli_task e input = (\<lambda>(buf, b). do {
     let b = printf ''misha>>> '' b;
     let buf = fgets BUFLEN buf input;
     (ok, b) \<leftarrow> parse_string e buf b;
     Some (buf, if ok then b else print_help (printf (''syntax error!'' @ [CR, LF]) b))
   })"

section \<open>Reading within the array\<close>

text \<open>A read is safe at an index from which a NUL follows within the array.\<close>

definition safe :: "string \<Rightarrow> nat \<Rightarrow> bool" where
  "safe buf i \<longleftrightarrow> NUL \<in> set (drop i buf)"

lemma safe_rd:
  assumes "safe buf i"
  shows "\<exists>c. rd buf i = Some c \<and> (c \<noteq> NUL \<longrightarrow> safe buf (Suc i))"
proof -
  have i: "i < length buf" using assms by (auto simp: safe_def intro: ccontr)
  with assms have "buf ! i \<noteq> NUL \<longrightarrow> safe buf (Suc i)"
    by (auto simp: safe_def Cons_nth_drop_Suc [symmetric])
  with i show ?thesis by (simp add: rd_def)
qed

declare skip_blanks.simps [simp del] dec.simps [simp del]

lemma skip_blanks_safe: "safe buf i \<Longrightarrow> \<exists>j. skip_blanks buf i = Some j \<and> safe buf j"
proof (induction buf i rule: skip_blanks.induct)
  case (1 buf i)
  from safe_rd [OF "1.prems"] obtain c where c: "rd buf i = Some c" "c \<noteq> NUL \<longrightarrow> safe buf (Suc i)" by blast
  show ?case
  proof (cases "isblank c")
    case True
    then have "c \<noteq> NUL" by (auto simp: isblank_def NUL_def)
    with c True "1.IH" [OF c(1) True] show ?thesis by (simp add: skip_blanks.simps [of buf i])
  next
    case False
    with c "1.prems" show ?thesis by (simp add: skip_blanks.simps [of buf i])
  qed
qed

lemma strncmp_eq_safe:
  "safe buf i \<Longrightarrow> NUL \<notin> set s \<Longrightarrow> \<exists>m. strncmp_eq buf i s = Some m \<and> (m \<longrightarrow> safe buf (i + length s))"
proof (induction s arbitrary: i)
  case (Cons c s)
  from safe_rd [OF Cons.prems(1)] obtain x where x: "rd buf i = Some x" "x \<noteq> NUL \<longrightarrow> safe buf (Suc i)" by blast
  with Cons.prems Cons.IH [of "Suc i"] show ?case by (cases "x = c") auto
qed auto

lemma get_num_safe:
  assumes "safe buf i"
  obtains n where "get_num_from_str buf i = Some n" "-1 \<le> n" "n < 100" "0 \<le> n \<Longrightarrow> safe buf (i + 2)"
proof -
  have digit: "c \<noteq> NUL" if "isdigit c" for c using that by (auto simp: isdigit_def NUL_def)
  from safe_rd [OF assms] obtain c0 where c0: "rd buf i = Some c0" "c0 \<noteq> NUL \<longrightarrow> safe buf (Suc i)" by blast
  show ?thesis
  proof (cases "isdigit c0")
    case False
    with c0 that [of "-1"] show ?thesis by (simp add: get_num_from_str_def)
  next
    case True
    then have "safe buf (Suc i)" using c0(2) digit by blast
    from safe_rd [OF this] obtain c1 where c1: "rd buf (Suc i) = Some c1" "c1 \<noteq> NUL \<longrightarrow> safe buf (Suc (Suc i))" by blast
    show ?thesis
    proof (cases "isdigit c1")
      case False
      with c0 c1 True that [of "-1"] show ?thesis by (simp add: get_num_from_str_def)
    next
      case d1: True
      have "safe buf (i + 2)" using c1(2) digit [OF d1] by simp
      then show ?thesis
        using c0(1) c1(1) True d1 by (intro that) (auto simp: get_num_from_str_def isdigit_def)
    qed
  qed
qed

section \<open>The polling loop\<close>

lemma init_poll_stop: "timeout = 0 \<or> tmp \<Longrightarrow> init_poll e i timeout tmp status = Some status"
  by (subst init_poll.simps) auto

lemma init_poll_step:
  "timeout \<noteq> 0 \<Longrightarrow> \<not> tmp \<Longrightarrow> init_poll e i timeout tmp status =
     init_poll e (Suc i) (if systick e i then timeout - 1 else timeout) (initf e (i + 2))
       (if (if systick e i then timeout - 1 else timeout) = 0 then ERROR else status)"
  by (subst init_poll.simps) (simp add: Let_def)

lemma init_poll_returns:
  assumes ticks: "\<And>i. \<exists>j\<ge>i. systick e j"
  shows "\<exists>s. init_poll e i timeout tmp status = Some s"
proof (induction "unat timeout" arbitrary: i timeout tmp status rule: less_induct)
  case less
  obtain j where "i \<le> j" "systick e j" using ticks by blast
  then obtain d where "systick e (i + d)" by (metis le_Suc_ex)
  then show ?case
  proof (induction d arbitrary: i tmp status)
    case 0
    then show ?case
    proof (cases "timeout = 0 \<or> tmp")
      case False
      then have "unat (timeout - 1) < unat timeout" by (simp add: unat_pred unat_gt_0)
      with less [of "timeout - 1"] 0 False show ?thesis by (simp add: init_poll_step)
    qed (simp add: init_poll_stop)
  next
    case (Suc d)
    show ?case
    proof (cases "timeout = 0 \<or> tmp")
      case False
      then have "unat (timeout - 1) < unat timeout" by (simp add: unat_pred unat_gt_0)
      with less [of "timeout - 1"] Suc.IH [of "Suc i"] Suc.prems False show ?thesis
        by (cases "systick e i") (simp_all add: init_poll_step)
    qed (simp add: init_poll_stop)
  qed
qed

text \<open>An error means that INITF stayed clear while the timeout was counted down to zero.\<close>

lemma init_poll_error:
  assumes "init_poll e i timeout tmp SUCCESS = Some ERROR"
  shows "\<exists>n\<ge>i. length (filter (systick e) [i..<n]) = unat timeout \<and> (\<forall>j. i \<le> j \<and> Suc j < n \<longrightarrow> \<not> initf e (j + 2))"
proof -
  let ?P = "\<lambda>i timeout tmp. timeout \<noteq> 0 \<and> \<not> tmp \<and>
    (\<exists>n\<ge>i. length (filter (systick e) [i..<n]) = unat timeout \<and> (\<forall>j. i \<le> j \<and> Suc j < n \<longrightarrow> \<not> initf e (j + 2)))"
  let ?Q = "\<lambda>e' i timeout tmp status r. e' = e \<longrightarrow> r = ERROR \<longrightarrow> status = SUCCESS \<longrightarrow> ?P i timeout tmp"
  have "?Q e i timeout tmp SUCCESS ERROR"
  proof (rule init_poll.raw_induct [of ?Q, OF _ assms])
    fix f e' i timeout tmp status r
    assume 1: "\<And>e' i timeout tmp status r. f e' i timeout tmp status = Some r \<Longrightarrow> ?Q e' i timeout tmp status r"
      "(if timeout \<noteq> 0 \<and> \<not> tmp then let timeout' = if systick e' i then timeout - 1 else timeout; tmp' = initf e' (i + 2)
         in Let (if timeout' = 0 then ERROR else status) (f e' (i + 1) timeout' tmp') else Some status) = Some r"
    show "?Q e' i timeout tmp status r"
    proof (intro impI)
      assume a: "e' = e" "r = ERROR" "status = SUCCESS"
      define t where "t = (if systick e i then timeout - 1 else timeout)"
      have c: "timeout \<noteq> 0" "\<not> tmp" "f e (i + 1) t (initf e (i + 2)) (if t = 0 then ERROR else SUCCESS) = Some ERROR"
        using 1(2) a unfolding t_def by (auto simp: Let_def split: if_splits)
      have n: "unat timeout = (if systick e i then 1 else 0) + unat t"
        using c(1) unfolding t_def by (simp add: unat_pred unat_gt_0)
      show "?P i timeout tmp"
      proof (cases "t = 0")
        case True
        with n have "unat timeout = (if systick e i then 1 else 0)" by simp
        then show ?thesis using c(1,2) by (intro conjI exI [of _ "Suc i"]) auto
      next
        case False
        then have st: "(if t = 0 then ERROR else SUCCESS) = SUCCESS" by simp
        have "?P (i + 1) t (initf e (i + 2))" by (rule mp [OF mp [OF mp [OF 1(1) [OF c(3)] refl] refl] st])
        then obtain n' where n': "n' \<ge> i + 1" "length (filter (systick e) [i + 1..<n']) = unat t"
          "\<forall>j. i + 1 \<le> j \<and> Suc j < n' \<longrightarrow> \<not> initf e (j + 2)" "\<not> initf e (i + 2)" by blast
        have u: "[i..<n'] = i # [i + 1..<n']" using n'(1) by (simp add: upt_conv_Cons)
        have "length (filter (systick e) [i..<n']) = unat timeout" unfolding u n using n'(2) by simp
        moreover have "\<not> initf e (j + 2)" if "i \<le> j \<and> Suc j < n'" for j
          using that n'(3,4) by (cases "j = i") auto
        ultimately show ?thesis using c(1,2) n'(1) by (intro conjI exI [of _ n']) auto
      qed
    qed
  qed
  then show ?thesis by blast
qed

section \<open>Every command returns\<close>

text \<open>The reads of the parser, as rules of total correctness.\<close>

lemma returns_skip_blanks: "safe buf i \<Longrightarrow> returns (skip_blanks buf i) (safe buf)"
  using skip_blanks_safe by (auto simp: returns_def)

lemma returns_strncmp:
  "safe buf i \<Longrightarrow> NUL \<notin> set s \<Longrightarrow> returns (strncmp_eq buf i s) (\<lambda>m. m \<longrightarrow> safe buf (i + length s))"
  using strncmp_eq_safe by (auto simp: returns_def)

lemma returns_rd: "safe buf i \<Longrightarrow> returns (rd buf i) (\<lambda>c. c \<noteq> NUL \<longrightarrow> safe buf (Suc i))"
  using safe_rd by (auto simp: returns_def)

lemma returns_get_num:
  "safe buf i \<Longrightarrow> returns (get_num_from_str buf i) (\<lambda>n. -1 \<le> n \<and> n < 100 \<and> (0 \<le> n \<longrightarrow> safe buf (i + 2)))"
  by (erule get_num_safe) (auto simp: returns_def)

text \<open>The SysTick flag is set again and again.\<close>

definition systick_runs :: "rtc_env \<Rightarrow> bool" where
  "systick_runs e \<longleftrightarrow> (\<forall>i. \<exists>j\<ge>i. systick e j)"

lemma returns_EnterInitMode:
  "systick_runs e \<Longrightarrow> returns (LL_RTC_EnterInitMode e b)
     (\<lambda>(st, b'). b' = b \<or> \<not> initf e 0 \<and> b' = b\<lparr>RTC_ISR := 0xffffffff\<rparr>)"
  using init_poll_returns [of e 0 RTC_INITMODE_TIMEOUT "initf e 1" SUCCESS]
  by (auto simp: LL_RTC_EnterInitMode_def returns_def systick_runs_def)

text \<open>
  A command that is not recognised leaves pins, clock and date alone; it can have printed only the
  message of a time that could not be set.
\<close>

definition rejected :: "board \<Rightarrow> bool \<times> board \<Rightarrow> bool" where
  "rejected b = (\<lambda>(m, b'). \<not> m \<longrightarrow> GPIOE_ODR b' = GPIOE_ODR b \<and> RTC_TR b' = RTC_TR b \<and> RTC_DR b' = RTC_DR b)"

lemma rejected_simps [simp]: "rejected b (True, b')" "rejected b (False, b)"
  "rejected b (False, printf s b') = rejected b (False, b')"
  "rejected b (False, b'\<lparr>RTC_ISR := v\<rparr>) = rejected b (False, b')"
  by (auto simp: rejected_def printf_def)

lemma no_NUL [simp]: "CHR '':'' \<noteq> NUL"
  by (simp add: NUL_def)

lemmas parser_rules = returns_bind [OF returns_skip_blanks] returns_bind [OF returns_strncmp]
  returns_bind [OF returns_rd] returns_bind [OF returns_get_num] returns_bind [OF returns_EnterInitMode]
  returns_if returns_Some returns_prod

lemma returns_pin: "safe buf 0 \<Longrightarrow> returns (match_pin_cmd buf b) (rejected b)"
  unfolding match_pin_cmd_def by (intro parser_rules; simp add: NUL_def eval_nat_numeral)

lemma returns_set_time:
  assumes "safe buf i" "systick_runs e"
  shows "returns (set_time_from_str e buf i b) (rejected b)"
  unfolding set_time_from_str_def Let_def
  using assms by (intro parser_rules; auto simp: eval_nat_numeral)

lemma returns_set_date:
  assumes "safe buf i" "systick_runs e"
  shows "returns (set_date_from_str e buf i b) (rejected b)"
  unfolding set_date_from_str_def Let_def
  using assms by (intro parser_rules; auto simp: eval_nat_numeral)

lemma returns_time: "safe buf 0 \<Longrightarrow> systick_runs e \<Longrightarrow> returns (match_time_cmd e buf b) (rejected b)"
  unfolding match_time_cmd_def Let_def
  by (intro parser_rules returns_set_time; simp add: NUL_def eval_nat_numeral)

lemma returns_date: "safe buf 0 \<Longrightarrow> systick_runs e \<Longrightarrow> returns (match_date_cmd e buf b) (rejected b)"
  unfolding match_date_cmd_def Let_def
  by (intro parser_rules returns_set_date; simp add: NUL_def eval_nat_numeral)

lemma rejected_trans: "rejected b (False, b') \<Longrightarrow> rejected b' x \<Longrightarrow> rejected b x"
  by (auto simp: rejected_def)

lemma returns_parse:
  assumes "safe buf 0" "systick_runs e"
  shows "returns (parse_string e buf b) (rejected b)"
  unfolding parse_string_def match_i2c_cmd_def bind.bind_lunit
  by (intro returns_bind [OF returns_pin] returns_bind [OF returns_time] returns_bind [OF returns_date]
      returns_if returns_Some returns_prod assms; (simp only: prod.case if_False)?; auto intro: rejected_trans)

lemma safe_fgets:
  assumes "input \<noteq> []" "length buf = BUFLEN"
  shows "safe (fgets BUFLEN buf input) 0" "length (fgets BUFLEN buf input) = BUFLEN"
proof -
  have "upto_newline input \<noteq> []" using assms(1) by (cases input) auto
  then show "safe (fgets BUFLEN buf input) 0" "length (fgets BUFLEN buf input) = BUFLEN"
    using assms by (auto simp: fgets_def safe_def Let_def BUFLEN_def)
qed

section \<open>Fields of the clock registers\<close>

lemma mask_numerals:
  "0x3f0000 = (push_bit 16 (mask 6) :: u32)" "0x7f00 = (push_bit 8 (mask 7) :: u32)" "0x7f = (mask 7 :: u32)"
  "0xff = (mask 8 :: u32)" "0x3f = (mask 6 :: u32)" "0xff0000 = (push_bit 16 (mask 8) :: u32)"
  "0x1f00 = (push_bit 8 (mask 5) :: u32)" "0x1f = (mask 5 :: u32)" "0xe000 = (push_bit 13 (mask 3) :: u32)"
  by (simp_all add: mask_eq_exp_minus_1)

lemma read_masks:
  "(0x300000 OR 0xf0000 OR 0x7000 OR 0xf00 OR 0x70 OR 0xf) = (push_bit 16 (mask 6) OR push_bit 8 (mask 7) OR mask 7 :: u32)"
  "(0xe000 OR 0x1000 OR 0xf00 OR 0x30 OR 0xf OR 0xf00000 OR 0xf0000) = (push_bit 16 (mask 8) OR push_bit 8 (mask 8) OR mask 6 :: u32)"
  "(0x30 OR 0xf) = (mask 6 :: u32)" "(0x1000 OR 0xf00) = (push_bit 8 (mask 5) :: u32)"
  "(0xf00000 OR 0xf0000) = (push_bit 16 (mask 8) :: u32)"
  by (simp_all add: mask_eq_exp_minus_1)

lemma time_fields:
  fixes h m s :: u32
  assumes "RTC_TR b = (push_bit 16 h AND 0x3f0000) OR (push_bit 8 m AND 0x7f00) OR (s AND 0x7f)"
  shows "LL_RTC_GET_HOUR (LL_RTC_TIME_Get b) = h AND 0x3f" "LL_RTC_GET_MINUTE (LL_RTC_TIME_Get b) = m AND 0x7f"
    "LL_RTC_GET_SECOND (LL_RTC_TIME_Get b) = s AND 0x7f"
  unfolding LL_RTC_GET_HOUR_def LL_RTC_GET_MINUTE_def LL_RTC_GET_SECOND_def LL_RTC_TIME_Get_def assms read_masks(1,2)
  unfolding read_masks(3-) unfolding mask_numerals
  by (auto intro!: bit_word_eqI simp: bit_simps)

lemma date_fields:
  fixes y m d :: u32
  assumes "RTC_DR b = (push_bit 16 y AND 0xff0000) OR (push_bit 8 m AND 0x1f00) OR (d AND 0x3f)"
  shows "LL_RTC_GET_YEAR (LL_RTC_DATE_Get b) = y AND 0xff" "LL_RTC_GET_MONTH (LL_RTC_DATE_Get b) = m AND 0x1f"
    "LL_RTC_GET_DAY (LL_RTC_DATE_Get b) = d AND 0x3f" "RTC_DR b AND 0xe000 = 0"
  unfolding LL_RTC_GET_YEAR_def LL_RTC_GET_MONTH_def LL_RTC_GET_DAY_def LL_RTC_DATE_Get_def Let_def assms read_masks(1,2)
  unfolding read_masks(3-) unfolding mask_numerals
  by (auto intro!: bit_word_eqI simp: bit_simps)

lemma all_below: "list_all P [0..<n] \<Longrightarrow> k < n \<Longrightarrow> P k"
  by (simp add: list_all_iff)

abbreviation bcd :: "nat \<Rightarrow> u32" where "bcd n \<equiv> ucast (LL_RTC_CONVERT_BIN2BCD (of_nat n))"

lemma bcd_roundtrip: "n < 100 \<Longrightarrow> unat (LL_RTC_CONVERT_BCD2BIN (bcd n)) = n"
  by (rule all_below [of "\<lambda>n. unat (LL_RTC_CONVERT_BCD2BIN (bcd n)) = n" 100]) code_simp

lemma bcd_masks:
  "n < 100 \<Longrightarrow> bcd n AND 0xff = bcd n" "n < 60 \<Longrightarrow> bcd n AND 0x7f = bcd n"
  "n < 32 \<Longrightarrow> bcd n AND 0x3f = bcd n" "n < 13 \<Longrightarrow> (bcd n + 0x20) AND 0x1f = bcd n"
proof -
  have h: "list_all (\<lambda>n. bcd n AND 0xff = bcd n) [0..<100]" "list_all (\<lambda>n. bcd n AND 0x7f = bcd n) [0..<60]"
    "list_all (\<lambda>n. bcd n AND 0x3f = bcd n) [0..<32]" "list_all (\<lambda>n. (bcd n + 0x20) AND 0x1f = bcd n) [0..<13]"
    by code_simp+
  show "n < 100 \<Longrightarrow> bcd n AND 0xff = bcd n" "n < 60 \<Longrightarrow> bcd n AND 0x7f = bcd n"
    "n < 32 \<Longrightarrow> bcd n AND 0x3f = bcd n" "n < 13 \<Longrightarrow> (bcd n + 0x20) AND 0x1f = bcd n"
    by (fact all_below [OF h(1)] all_below [OF h(2)] all_below [OF h(3)] all_below [OF h(4)])+
qed

section \<open>Parsing a command\<close>

lemma rd_drop: "drop i buf = c # r \<Longrightarrow> rd buf i = Some c"
  by (cases "i < length buf") (auto simp: rd_def Cons_nth_drop_Suc [symmetric])

lemma drop_more: "drop i buf = xs @ r \<Longrightarrow> drop (i + length xs) buf = r"
  by (metis add.commute append_eq_conv_conj drop_drop)

lemma skip_blanks_drop:
  "drop i buf = ws @ c # r \<Longrightarrow> list_all isblank ws \<Longrightarrow> \<not> isblank c \<Longrightarrow> skip_blanks buf i = Some (i + length ws)"
proof (induction ws arbitrary: i)
  case Nil
  then show ?case by (simp add: skip_blanks.simps [of buf i] rd_drop)
next
  case (Cons w ws)
  then have "drop (Suc i) buf = ws @ c # r" using drop_more [of i buf "[w]"] by simp
  with Cons show ?case by (simp add: skip_blanks.simps [of buf i] rd_drop)
qed

lemma strncmp_eq_drop: "drop i buf = s @ r \<Longrightarrow> strncmp_eq buf i s = Some True"
proof (induction s arbitrary: i)
  case (Cons c s)
  then have "drop (Suc i) buf = s @ r" using drop_more [of i buf "[c]"] by simp
  with Cons show ?case by (simp add: rd_drop)
qed simp

lemma strncmp_eq_other: "drop i buf = c # r \<Longrightarrow> c \<noteq> d \<Longrightarrow> strncmp_eq buf i (d # s) = Some False"
  by (simp add: rd_drop)

lemma char_zero: "char_of (48 :: nat) = CHR ''0''"
  by code_simp

lemma dec2_digits: "n < 100 \<Longrightarrow> dec2 n = [char_of (48 + n div 10), char_of (48 + n mod 10)]"
  by (auto simp: dec2_def dec.simps [of n] dec.simps [of "n div 10"] char_zero)

lemma get_num_drop:
  assumes "drop i buf = dec2 n @ r" "n < 100"
  shows "get_num_from_str buf i = Some (int n)"
proof -
  let ?c = "char_of (48 + n div 10) :: char" and ?d = "char_of (48 + n mod 10) :: char"
  have c: "drop i buf = ?c # ?d # r" using assms by (simp add: dec2_digits)
  then have d: "drop (Suc i) buf = ?d # r" using drop_more [of i buf "[?c]"] by simp
  have "of_char (char_of m :: char) = int m" if "m < 256" for m :: nat
    using of_nat_of_char [of "char_of m", where 'a = int] of_char_of [of m] that by simp
  then have "of_char ?c = int (48 + n div 10)" "of_char ?d = int (48 + n mod 10)"
    using assms(2) by simp_all
  moreover have "n mod 10 \<le> 9" "n div 10 \<le> 9" using assms(2) by linarith+
  moreover have "int (n div 10) * 10 + int (n mod 10) = int n"
    by (metis div_mult_mod_eq of_nat_add of_nat_mult of_nat_numeral)
  ultimately show ?thesis using rd_drop [OF c] rd_drop [OF d] by (simp add: get_num_from_str_def isdigit_def)
qed

text \<open>The RTC reports its initialisation mode before the timeout.\<close>

definition enters_init :: "rtc_env \<Rightarrow> bool" where
  "enters_init e \<longleftrightarrow> initf e 0 \<or> init_poll e 0 RTC_INITMODE_TIMEOUT (initf e 1) SUCCESS = Some SUCCESS"

lemma enters_init_mode:
  assumes "enters_init e"
  obtains v where "LL_RTC_EnterInitMode e b = Some (SUCCESS, b\<lparr>RTC_ISR := v\<rparr>)"
proof (cases "initf e 0")
  case True
  with that [of "RTC_ISR b"] show ?thesis by (simp add: LL_RTC_EnterInitMode_def)
next
  case False
  with assms that [of "0xffffffff"] show ?thesis by (simp add: LL_RTC_EnterInitMode_def enters_init_def Let_def)
qed

lemma skip_to_word:
  assumes "drop i buf = ws @ w @ r" "list_all isblank ws" "w \<noteq> []" "\<not> isblank (hd w)"
  shows "skip_blanks buf i = Some (i + length ws)" "drop (i + length ws) buf = w @ r"
  using skip_blanks_drop [of i buf ws "hd w" "tl w @ r"] drop_more [of i buf ws "w @ r"] assms by simp_all

lemma match_pin_other:
  assumes "buf = ws @ w @ r" "list_all isblank ws" "w \<noteq> []" "\<not> isblank (hd w)" "hd w \<noteq> CHR ''p''"
  shows "match_pin_cmd buf b = Some (False, b)"
proof -
  note i = skip_to_word [of 0 buf ws w r]
  have "strncmp_eq buf (length ws) ''pin'' = Some False"
    using i(2) assms strncmp_eq_other [of "length ws" buf "hd w" "tl w @ r"] by (simp del: strncmp_eq.simps)
  with i(1) assms show ?thesis by (simp add: match_pin_cmd_def del: strncmp_eq.simps)
qed

lemma colon_fields:
  assumes "drop i buf = dec2 h @ '':'' @ dec2 m @ '':'' @ dec2 s @ r" "h < 100" "m < 100" "s < 100"
  shows "get_num_from_str buf i = Some (int h)" "get_num_from_str buf (i + 3) = Some (int m)"
    "get_num_from_str buf (i + 6) = Some (int s)" "rd buf (i + 2) = Some CHR '':''" "rd buf (i + 5) = Some CHR '':''"
proof -
  have len: "length (dec2 n) = 2" if "n < 100" for n using that by (simp add: dec2_digits)
  have d: "drop (i + 2) buf = '':'' @ dec2 m @ '':'' @ dec2 s @ r" "drop (i + 3) buf = dec2 m @ '':'' @ dec2 s @ r"
    "drop (i + 5) buf = '':'' @ dec2 s @ r" "drop (i + 6) buf = dec2 s @ r"
    using drop_more [of i buf "dec2 h"] drop_more [of i buf "dec2 h @ '':''"] drop_more [of i buf "dec2 h @ '':'' @ dec2 m"]
      drop_more [of i buf "dec2 h @ '':'' @ dec2 m @ '':''"] assms len by (simp_all add: eval_nat_numeral)
  show "get_num_from_str buf i = Some (int h)" "get_num_from_str buf (i + 3) = Some (int m)"
    "get_num_from_str buf (i + 6) = Some (int s)" "rd buf (i + 2) = Some CHR '':''" "rd buf (i + 5) = Some CHR '':''"
    using get_num_drop [OF assms(1)] get_num_drop [OF d(2)] get_num_drop [OF d(4)] rd_drop d(1,3) assms by auto
qed

lemma match_time_other:
  assumes "buf = ws @ w @ r" "list_all isblank ws" "w \<noteq> []" "\<not> isblank (hd w)" "hd w \<noteq> CHR ''t''"
  shows "match_time_cmd e buf b = Some (False, b)"
proof -
  note i = skip_to_word [of 0 buf ws w r]
  have "strncmp_eq buf (length ws) ''time'' = Some False"
    using i(2) assms strncmp_eq_other [of "length ws" buf "hd w" "tl w @ r"] by (simp del: strncmp_eq.simps)
  with i(1) assms show ?thesis by (simp add: match_time_cmd_def del: strncmp_eq.simps)
qed

lemma set_time_ok:
  assumes "drop i buf = dec2 h @ '':'' @ dec2 m @ '':'' @ dec2 s @ r" "h < 24" "m < 60" "s < 60" "enters_init e"
  obtains b' where "set_time_from_str e buf i b = Some (True, b')" "GPIOE_ODR b' = GPIOE_ODR b" "RTC_DR b' = RTC_DR b"
    "RTC_TR b' = time_word (of_nat h) (of_nat m) (of_nat s)"
proof -
  let ?b = "printf (''Time is succesfully set '' @ dec h @ '':'' @ dec m @ '':'' @ dec s @ ''!'' @ [CR, LF]) b"
  obtain v where v: "LL_RTC_EnterInitMode e ?b = Some (SUCCESS, ?b\<lparr>RTC_ISR := v\<rparr>)"
    using enters_init_mode [OF assms(5)] by blast
  show ?thesis
    using colon_fields [OF assms(1)] v assms(2-4)
    by (intro that [of "LL_RTC_ExitInitMode (?b\<lparr>RTC_ISR := v, RTC_TR := time_word (of_nat h) (of_nat m) (of_nat s)\<rparr>)"])
      (simp_all add: set_time_from_str_def Let_def LL_RTC_ExitInitMode_def printf_def)
qed

lemma set_date_ok:
  assumes "drop i buf = dec2 y @ '':'' @ dec2 m @ '':'' @ dec2 d @ r" "y < 100" "1 \<le> m" "m \<le> 12" "1 \<le> d" "d \<le> 31"
    "enters_init e"
  obtains b' where "set_date_from_str e buf i b = Some (True, b')" "GPIOE_ODR b' = GPIOE_ODR b" "RTC_TR b' = RTC_TR b"
    "RTC_DR b' = date_word (of_nat y) (of_nat m) (of_nat d)"
proof -
  obtain v where v: "LL_RTC_EnterInitMode e b = Some (SUCCESS, b\<lparr>RTC_ISR := v\<rparr>)"
    using enters_init_mode [OF assms(7)] by blast
  show ?thesis
    using colon_fields [OF assms(1)] v assms(2-6)
    by (intro that [of "printf (''Date is succesfully set!'' @ [CR, LF]) (LL_RTC_ExitInitMode
          (b\<lparr>RTC_ISR := v, RTC_DR := date_word (of_nat y) (of_nat m) (of_nat d)\<rparr>))"])
      (simp_all add: set_date_from_str_def Let_def LL_RTC_ExitInitMode_def printf_def)
qed

text \<open>What the two \<open>get\<close> commands print.\<close>

lemma time_get_prints:
  assumes "RTC_TR b = time_word (of_nat h) (of_nat m) (of_nat s)" "h < 24" "m < 60" "s < 60"
    "buf = ws @ ''time'' @ ws' @ ''get'' @ r" "list_all isblank ws" "list_all isblank ws'"
  shows "match_time_cmd e buf b = Some (True, printf (''time is '' @ dec2 h @ '':'' @ dec2 m @ '':'' @ dec2 s @ [CR, LF]) b)"
proof -
  have f: "unat (LL_RTC_CONVERT_BCD2BIN (LL_RTC_GET_HOUR (LL_RTC_TIME_Get b))) = h"
    "unat (LL_RTC_CONVERT_BCD2BIN (LL_RTC_GET_MINUTE (LL_RTC_TIME_Get b))) = m"
    "unat (LL_RTC_CONVERT_BCD2BIN (LL_RTC_GET_SECOND (LL_RTC_TIME_Get b))) = s"
    using time_fields [OF assms(1) [unfolded time_word_def]] bcd_masks bcd_roundtrip assms(2-4) by simp_all
  note w = skip_to_word [of 0 buf ws "''time''" "ws' @ ''get'' @ r"]
  have w': "skip_blanks buf (length ws + 4) = Some (length ws + 4 + length ws')"
      "drop (length ws + 4 + length ws') buf = ''get'' @ r"
    using skip_to_word [of "length ws + 4" buf ws' "''get''" r] assms(5-7) by (simp_all add: isblank_def)
  show ?thesis
    using w w' strncmp_eq_drop [of "length ws" buf "''time''" "ws' @ ''get'' @ r"]
      strncmp_eq_other [OF w'(2) [simplified], of "CHR ''s''" "''et''"] strncmp_eq_drop [OF w'(2)] assms(5-7) f
    by (simp add: match_time_cmd_def isblank_def Let_def del: strncmp_eq.simps)
qed

lemma date_get_prints:
  assumes "RTC_DR b = date_word (of_nat y) (of_nat m) (of_nat d)" "y < 100" "m \<le> 12" "d \<le> 31"
    "buf = ws @ ''date'' @ ws' @ ''get'' @ r" "list_all isblank ws" "list_all isblank ws'"
  shows "match_date_cmd e buf b = Some (True, printf (''date is 20'' @ dec2 y @ '':'' @ dec2 m @ '':'' @ dec2 d @ [CR, LF]) b)"
proof -
  have f: "unat (LL_RTC_CONVERT_BCD2BIN (LL_RTC_GET_YEAR (LL_RTC_DATE_Get b))) = y"
    "unat (LL_RTC_CONVERT_BCD2BIN (LL_RTC_GET_MONTH (LL_RTC_DATE_Get b))) = m"
    "unat (LL_RTC_CONVERT_BCD2BIN (LL_RTC_GET_DAY (LL_RTC_DATE_Get b))) = d"
    using date_fields [OF assms(1) [unfolded date_word_def]] bcd_masks bcd_roundtrip assms(2-4) by simp_all
  note w = skip_to_word [of 0 buf ws "''date''" "ws' @ ''get'' @ r"]
  have w': "skip_blanks buf (length ws + 4) = Some (length ws + 4 + length ws')"
      "drop (length ws + 4 + length ws') buf = ''get'' @ r"
    using skip_to_word [of "length ws + 4" buf ws' "''get''" r] assms(5-7) by (simp_all add: isblank_def)
  show ?thesis
    using w w' strncmp_eq_drop [of "length ws" buf "''date''" "ws' @ ''get'' @ r"]
      strncmp_eq_other [OF w'(2) [simplified], of "CHR ''s''" "''et''"] strncmp_eq_drop [OF w'(2)] assms(5-7) f
    by (simp add: match_date_cmd_def isblank_def Let_def del: strncmp_eq.simps)
qed

lemma dec2_not_blank: "n < 100 \<Longrightarrow> \<not> isblank (hd (dec2 n))"
proof -
  have "list_all (\<lambda>n. \<not> isblank (hd (dec2 n))) [0..<100]" by code_simp
  then show "n < 100 \<Longrightarrow> \<not> isblank (hd (dec2 n))" by (rule all_below)
qed

text \<open>The \<open>set\<close> commands reach the parsers of time and date.\<close>

lemma set_cmd_reached:
  assumes "buf = ws @ cmd @ ws' @ ''set'' @ ws'' @ dec2 n @ r" "list_all isblank ws" "list_all isblank ws'"
    "list_all isblank ws''" "length cmd = 4" "\<not> isblank (hd cmd)" "n < 100"
  shows "skip_blanks buf 0 = Some (length ws)" "strncmp_eq buf (length ws) cmd = Some True"
    "skip_blanks buf (length ws + 4) = Some (length ws + 4 + length ws')"
    "strncmp_eq buf (length ws + 4 + length ws') ''set'' = Some True"
    "skip_blanks buf (length ws + 4 + length ws' + 3) = Some (length ws + 4 + length ws' + 3 + length ws'')"
    "drop (length ws + 4 + length ws' + 3 + length ws'') buf = dec2 n @ r"
proof -
  have n: "\<not> isblank (hd (dec2 n))" "dec2 n \<noteq> []" using assms(7) dec2_not_blank by (simp_all add: dec2_digits)
  have c: "cmd \<noteq> []" using assms(5) by auto
  have d1: "drop 0 buf = ws @ cmd @ ws' @ ''set'' @ ws'' @ dec2 n @ r" using assms(1) by simp
  note w1 = skip_to_word [OF d1 assms(2) c assms(6), unfolded add_0]
  have d2: "drop (length ws + 4) buf = ws' @ ''set'' @ ws'' @ dec2 n @ r"
    using drop_more [OF w1(2)] assms(5) by simp
  note w2 = skip_to_word [OF d2 assms(3)]
  have d3: "drop (length ws + 4 + length ws' + 3) buf = ws'' @ dec2 n @ r"
    using drop_more [of "length ws + 4 + length ws'" buf "''set''"] w2(2) by (simp add: isblank_def eval_nat_numeral)
  note w3 = skip_to_word [OF d3 assms(4) n(2,1)]
  show "skip_blanks buf 0 = Some (length ws)" using w1(1) .
  show "strncmp_eq buf (length ws) cmd = Some True" by (rule strncmp_eq_drop [OF w1(2)])
  show "skip_blanks buf (length ws + 4) = Some (length ws + 4 + length ws')" using w2(1) by (simp add: isblank_def)
  show "strncmp_eq buf (length ws + 4 + length ws') ''set'' = Some True"
    by (rule strncmp_eq_drop [OF w2(2)]) (simp_all add: isblank_def)
  show "skip_blanks buf (length ws + 4 + length ws' + 3) = Some (length ws + 4 + length ws' + 3 + length ws'')"
    using w3(1) .
  show "drop (length ws + 4 + length ws' + 3 + length ws'') buf = dec2 n @ r" using w3(2) .
qed

section \<open>Properties\<close>


text \<open>
  C38. Round trip of the clock: after \<open>time set HH:MM:SS\<close>, with any blanks between the words and any time of
  day, \<open>time get\<close> prints that time. The pins and the date are not touched. The RTC must have entered its
  initialisation mode before the timeout.
\<close>

theorem time_set_get:
  assumes "h < 24" "m < 60" "s < 60" "enters_init e" "list_all isblank ws" "list_all isblank ws'" "list_all isblank ws''"
  shows "\<exists>b1 b2. parse_string e (ws @ ''time'' @ ws' @ ''set'' @ ws'' @ dec2 h @ '':'' @ dec2 m @ '':'' @ dec2 s @ r) b =
      Some (True, b1) \<and> GPIOE_ODR b1 = GPIOE_ODR b \<and> RTC_DR b1 = RTC_DR b \<and>
    parse_string e' (ws @ ''time'' @ ws' @ ''get'' @ r') b1 = Some (True, b2) \<and>
    out b2 = out b1 @ ''time is '' @ dec2 h @ '':'' @ dec2 m @ '':'' @ dec2 s @ [CR, LF]"
proof -
  define buf where "buf = ws @ ''time'' @ ws' @ ''set'' @ ws'' @ dec2 h @ '':'' @ dec2 m @ '':'' @ dec2 s @ r"
  define buf' where "buf' = ws @ ''time'' @ ws' @ ''get'' @ r'"
  note s = set_cmd_reached [of buf ws "''time''" ws' ws'' h, OF buf_def assms(5-7)]
  have d: "drop (length ws + 4 + length ws' + 3 + length ws'') buf = dec2 h @ '':'' @ dec2 m @ '':'' @ dec2 s @ r"
    using s(6) assms(1) by (simp add: isblank_def)
  obtain b1 where b1: "set_time_from_str e buf (length ws + 4 + length ws' + 3 + length ws'') b = Some (True, b1)"
    "GPIOE_ODR b1 = GPIOE_ODR b" "RTC_DR b1 = RTC_DR b" "RTC_TR b1 = time_word (of_nat h) (of_nat m) (of_nat s)"
    by (rule set_time_ok [OF d assms(1-4)])
  have p: "match_pin_cmd buf b = Some (False, b)" "match_pin_cmd buf' b1 = Some (False, b1)"
    using match_pin_other [OF buf_def assms(5)] match_pin_other [OF buf'_def assms(5)] by (simp_all add: isblank_def)
  have "parse_string e buf b = Some (True, b1)"
    using p s(1-5) b1(1) assms(1) by (simp add: parse_string_def match_i2c_cmd_def match_time_cmd_def isblank_def del: strncmp_eq.simps)
  moreover have "parse_string e' buf' b1 = Some (True, printf (''time is '' @ dec2 h @ '':'' @ dec2 m @ '':'' @ dec2 s @ [CR, LF]) b1)"
    using time_get_prints [OF b1(4) assms(1-3) buf'_def assms(5,6)] p(2) by (simp add: parse_string_def match_i2c_cmd_def)
  ultimately show ?thesis using b1(2,3) unfolding buf_def buf'_def by (auto simp: printf_def)
qed

text \<open>
  Round trip of the date: after \<open>date set YY:MM:DD\<close> with a month and day in range, \<open>date get\<close> prints that
  date. The weekday field of the date register is left at zero, which is not a weekday.
\<close>

theorem date_set_get:
  assumes "y < 100" "1 \<le> m" "m \<le> 12" "1 \<le> d" "d \<le> 31" "enters_init e"
    "list_all isblank ws" "list_all isblank ws'" "list_all isblank ws''"
  shows "\<exists>b1 b2. parse_string e (ws @ ''date'' @ ws' @ ''set'' @ ws'' @ dec2 y @ '':'' @ dec2 m @ '':'' @ dec2 d @ r) b =
      Some (True, b1) \<and> GPIOE_ODR b1 = GPIOE_ODR b \<and> RTC_TR b1 = RTC_TR b \<and> RTC_DR b1 AND 0xe000 = 0 \<and>
    parse_string e' (ws @ ''date'' @ ws' @ ''get'' @ r') b1 = Some (True, b2) \<and>
    out b2 = out b1 @ ''date is 20'' @ dec2 y @ '':'' @ dec2 m @ '':'' @ dec2 d @ [CR, LF]"
proof -
  define buf where "buf = ws @ ''date'' @ ws' @ ''set'' @ ws'' @ dec2 y @ '':'' @ dec2 m @ '':'' @ dec2 d @ r"
  define buf' where "buf' = ws @ ''date'' @ ws' @ ''get'' @ r'"
  note s = set_cmd_reached [of buf ws "''date''" ws' ws'' y, OF buf_def assms(7-9)]
  have dr: "drop (length ws + 4 + length ws' + 3 + length ws'') buf = dec2 y @ '':'' @ dec2 m @ '':'' @ dec2 d @ r"
    using s(6) assms(1) by (simp add: isblank_def)
  obtain b1 where b1: "set_date_from_str e buf (length ws + 4 + length ws' + 3 + length ws'') b = Some (True, b1)"
    "GPIOE_ODR b1 = GPIOE_ODR b" "RTC_TR b1 = RTC_TR b" "RTC_DR b1 = date_word (of_nat y) (of_nat m) (of_nat d)"
    by (rule set_date_ok [OF dr assms(1-6)])
  have p: "match_pin_cmd buf b = Some (False, b)" "match_pin_cmd buf' b1 = Some (False, b1)"
    "match_time_cmd e buf b = Some (False, b)" "match_time_cmd e' buf' b1 = Some (False, b1)"
    using match_pin_other [OF buf_def assms(7)] match_pin_other [OF buf'_def assms(7)]
      match_time_other [OF buf_def assms(7)] match_time_other [OF buf'_def assms(7)] by (simp_all add: isblank_def)
  have "parse_string e buf b = Some (True, b1)"
    using p s(1-5) b1(1) assms(1) by (simp add: parse_string_def match_i2c_cmd_def match_date_cmd_def isblank_def del: strncmp_eq.simps)
  moreover have "parse_string e' buf' b1 = Some (True, printf (''date is 20'' @ dec2 y @ '':'' @ dec2 m @ '':'' @ dec2 d @ [CR, LF]) b1)"
    using date_get_prints [OF b1(4) assms(1,3,5) buf'_def assms(7,8)] p(2,4) by (simp add: parse_string_def match_i2c_cmd_def)
  moreover have "RTC_DR b1 AND 0xe000 = 0" by (rule date_fields(4) [OF b1(4) [unfolded date_word_def]])
  ultimately show ?thesis using b1(2,3) unfolding buf_def buf'_def by (auto simp: printf_def)
qed

text \<open>
  Entering the initialisation mode of the RTC always ends when SysTick runs; it reports an error only
  after the count flag of SysTick was read set 1000 times while the flag INITF was read clear.
\<close>

theorem LL_RTC_EnterInitMode_ends:
  assumes "systick_runs e"
  shows "\<exists>st b'. LL_RTC_EnterInitMode e b = Some (st, b') \<and>
    (st = ERROR \<longrightarrow> \<not> initf e 0 \<and> (\<exists>n. length (filter (systick e) [0..<n]) = 1000 \<and> (\<forall>j. Suc j < n \<longrightarrow> \<not> initf e (j + 2))))"
proof -
  obtain st where st: "init_poll e 0 RTC_INITMODE_TIMEOUT (initf e 1) SUCCESS = Some st"
    using init_poll_returns assms unfolding systick_runs_def by blast
  show ?thesis
  proof (cases "initf e 0")
    case False
    then have "LL_RTC_EnterInitMode e b = Some (st, b\<lparr>RTC_ISR := 0xffffffff\<rparr>)"
      using st by (simp add: LL_RTC_EnterInitMode_def Let_def)
    moreover have "\<exists>n. length (filter (systick e) [0..<n]) = 1000 \<and> (\<forall>j. Suc j < n \<longrightarrow> \<not> initf e (j + 2))" if "st = ERROR"
      using init_poll_error [of e 0 RTC_INITMODE_TIMEOUT "initf e 1"] st that by (auto simp: RTC_INITMODE_TIMEOUT_def)
    ultimately show ?thesis using False by blast
  qed (simp add: LL_RTC_EnterInitMode_def)
qed

section \<open>A concrete board\<close>

definition demo_board :: board where
  "demo_board = \<lparr>GPIOE_ODR = 0, RTC_TR = 0, RTC_DR = 0x2101, RTC_ISR = 7, out = []\<rparr>"

definition demo_env :: rtc_env where
  "demo_env = \<lparr>initf = (\<lambda>i. i = 1), systick = (\<lambda>i. True)\<rparr>"

lemma demo_env_ok: "systick_runs demo_env" "enters_init demo_env"
  by (auto simp: systick_runs_def enters_init_def demo_env_def init_poll_stop)

lemma demo_numbers: "dec2 9 = ''09''" "dec2 5 = ''05''" "dec2 0 = ''00''" "dec2 24 = ''24''" "dec2 2 = ''02''" "dec2 29 = ''29''"
  by code_simp+


theorem time_set_get_witness:
  "\<exists>b1 b2. parse_string demo_env (''time set 09:05:00'' @ [LF, NUL]) demo_board = Some (True, b1) \<and>
    parse_string demo_env (''time get'' @ [LF, NUL]) b1 = Some (True, b2) \<and> out b2 = out b1 @ ''time is 09:05:00'' @ [CR, LF]"
  using time_set_get [of 9 5 0 demo_env "[]" "'' ''" "'' ''" "[LF, NUL]" demo_board demo_env "[LF, NUL]"] demo_env_ok(2)
  by (auto simp: isblank_def demo_numbers)

theorem date_set_get_witness:
  "\<exists>b1 b2. parse_string demo_env (''date set 24:02:29'' @ [LF, NUL]) demo_board = Some (True, b1) \<and>
    RTC_DR b1 AND 0xe000 = 0 \<and>
    parse_string demo_env (''date get'' @ [LF, NUL]) b1 = Some (True, b2) \<and> out b2 = out b1 @ ''date is 2024:02:29'' @ [CR, LF]"
  using date_set_get [of 24 2 29 demo_env "[]" "'' ''" "'' ''" "[LF, NUL]" demo_board demo_env "[LF, NUL]"] demo_env_ok(2)
  by (auto simp: isblank_def demo_numbers)

theorem LL_RTC_EnterInitMode_ends_witness:
  "\<exists>st b'. LL_RTC_EnterInitMode demo_env demo_board = Some (st, b')"
  using LL_RTC_EnterInitMode_ends [OF demo_env_ok(1), of demo_board] by blast

end
