(* ===== verification/Tty.thy ===== *)
theory Tty
  imports Semaphores Cli
begin

text \<open>
  The terminal driver over USART1, \<open>Src/usart1_driver.c\<close>: transmission through the interrupt handler,
  with the locks and semaphores of \<open>queue.c\<close>, and the line editor of \<open>TTY_Task\<close>. The driver's state
  extends the kernel with the queues; the bytes written to the data register are the list \<open>DR_out\<close>.
\<close>

section \<open>State\<close>

record tty_driver =
  lock_tx :: nat
  sem_tx :: nat
  lock_rx :: nat
  sem_rx :: nat
  q_rx :: nat
  tx_buf :: "u8 list"
  tx_num :: u32
  rx_buf :: "u8 list"
  rx_num :: u32
  rx_enable :: bool

record tty_kernel = qkernel +
  tty :: tty_driver
  tx_ind :: u32
  TXEIE :: bool
  RXNEIE :: bool
  DR_out :: "u8 list"

definition upd_tty :: "(tty_driver \<Rightarrow> tty_driver) \<Rightarrow> 'z tty_kernel_scheme \<Rightarrow> 'z tty_kernel_scheme" where
  "upd_tty f k = k\<lparr>tty := f (tty k)\<rparr>"

section \<open>Transmission\<close>

text \<open>
  Where a call of the driver that has not returned stands: it waits for the lock or for the semaphore,
  or it has given the lock back, which may switch to a task of higher priority, and is about to read
  the number it returns.
\<close>

datatype tty_call = TtyReturned u32 | AtLock wait_locals | AtSem wait_locals | AtReturn

definition tty_tx_done :: "'z tty_kernel_scheme \<Rightarrow> (tty_call \<times> 'z tty_kernel_scheme) option" where
  "tty_tx_done k = do {
     (_, k) \<leftarrow> xQueueGenericSend (lock_tx (tty k)) None 0 queueSEND_TO_BACK k;
     Some (AtReturn, k)
   }"

definition tty_tx_locked :: "u8 list \<Rightarrow> u32 \<Rightarrow> 'z tty_kernel_scheme \<Rightarrow> (tty_call \<times> 'z tty_kernel_scheme) option" where
  "tty_tx_locked ptr num k = do {
     let k = upd_tty (\<lambda>t. t\<lparr>tx_num := num, tx_buf := ptr\<rparr>) k;
     let k = k\<lparr>TXEIE := True\<rparr>;
     (r, k) \<leftarrow> xQueueSemaphoreTake (sem_tx (tty k)) portMAX_DELAY k;
     case r of Again w \<Rightarrow> Some (AtSem w, k) | Returned _ \<Rightarrow> tty_tx_done k
   }"

definition tty_driver_tx :: "u8 list \<Rightarrow> u32 \<Rightarrow> 'z tty_kernel_scheme \<Rightarrow> (tty_call \<times> 'z tty_kernel_scheme) option" where
  "tty_driver_tx ptr num k =
     (if num \<le> 0 then Some (TtyReturned 0, k)
      else do {
        (r, k) \<leftarrow> xQueueSemaphoreTake (lock_tx (tty k)) portMAX_DELAY k;
        case r of Again w \<Rightarrow> Some (AtLock w, k) | Returned _ \<Rightarrow> tty_tx_locked ptr num k
      })"

text \<open>The next pass of a call that was blocked, when its task runs again.\<close>

definition tty_tx_resume ::
  "u8 list \<Rightarrow> u32 \<Rightarrow> tty_call \<Rightarrow> 'z tty_kernel_scheme \<Rightarrow> (tty_call \<times> 'z tty_kernel_scheme) option" where
  "tty_tx_resume ptr num c k =
     (case c of
        TtyReturned n \<Rightarrow> Some (TtyReturned n, k)
      | AtReturn \<Rightarrow> Some (TtyReturned (tx_num (tty k)), k)
      | AtLock w \<Rightarrow> do {
          (r, k) \<leftarrow> take_pass (lock_tx (tty k)) w k;
          case r of Again w \<Rightarrow> Some (AtLock w, k) | Returned _ \<Rightarrow> tty_tx_locked ptr num k }
      | AtSem w \<Rightarrow> do {
          (r, k) \<leftarrow> take_pass (sem_tx (tty k)) w k;
          case r of Again w \<Rightarrow> Some (AtSem w, k) | Returned _ \<Rightarrow> tty_tx_done k })"

section \<open>Reception\<close>

definition tty_rx_done :: "'z tty_kernel_scheme \<Rightarrow> (tty_call \<times> 'z tty_kernel_scheme) option" where
  "tty_rx_done k = do {
     (_, k) \<leftarrow> xQueueGenericSend (lock_rx (tty k)) None 0 queueSEND_TO_BACK k;
     Some (AtReturn, k)
   }"

definition tty_rx_locked :: "u8 list \<Rightarrow> u32 \<Rightarrow> 'z tty_kernel_scheme \<Rightarrow> (tty_call \<times> 'z tty_kernel_scheme) option" where
  "tty_rx_locked buf num k = do {
     let k = upd_tty (\<lambda>t. t\<lparr>rx_buf := buf, rx_num := num, rx_enable := True\<rparr>) k;
     (r, k) \<leftarrow> xQueueSemaphoreTake (sem_rx (tty k)) portMAX_DELAY k;
     case r of Again w \<Rightarrow> Some (AtSem w, k) | Returned _ \<Rightarrow> tty_rx_done k
   }"

definition tty_driver_rx :: "u8 list \<Rightarrow> u32 \<Rightarrow> 'z tty_kernel_scheme \<Rightarrow> (tty_call \<times> 'z tty_kernel_scheme) option" where
  "tty_driver_rx buf num k =
     (if num \<le> 0 then Some (TtyReturned 0, k)
      else do {
        (r, k) \<leftarrow> xQueueSemaphoreTake (lock_rx (tty k)) portMAX_DELAY k;
        case r of Again w \<Rightarrow> Some (AtLock w, k) | Returned _ \<Rightarrow> tty_rx_locked buf num k
      })"

definition tty_rx_resume ::
  "u8 list \<Rightarrow> u32 \<Rightarrow> tty_call \<Rightarrow> 'z tty_kernel_scheme \<Rightarrow> (tty_call \<times> 'z tty_kernel_scheme) option" where
  "tty_rx_resume buf num c k =
     (case c of
        TtyReturned n \<Rightarrow> Some (TtyReturned n, k)
      | AtReturn \<Rightarrow> Some (TtyReturned (rx_num (tty k)), k)
      | AtLock w \<Rightarrow> do {
          (r, k) \<leftarrow> take_pass (lock_rx (tty k)) w k;
          case r of Again w \<Rightarrow> Some (AtLock w, k) | Returned _ \<Rightarrow> tty_rx_locked buf num k }
      | AtSem w \<Rightarrow> do {
          (r, k) \<leftarrow> take_pass (sem_rx (tty k)) w k;
          case r of Again w \<Rightarrow> Some (AtSem w, k) | Returned _ \<Rightarrow> tty_rx_done k })"

section \<open>The interrupt handler\<close>

text \<open>
  \<open>txe\<close> and \<open>rxne\<close> are the status flags, \<open>dr\<close> the byte received. \<open>xHigherPriorityTaskWoken\<close> is not initialised
  in the source: its value on entry is the argument \<open>w0\<close>.
\<close>

definition portYIELD_FROM_ISR :: "bool \<Rightarrow> 'z kernel_scheme \<Rightarrow> 'z kernel_scheme" where
  "portYIELD_FROM_ISR x k = (if x then portYIELD k else k)"

definition USART1_IRQHandler ::
  "bool \<Rightarrow> bool \<Rightarrow> bool \<Rightarrow> u8 \<Rightarrow> 'z tty_kernel_scheme \<Rightarrow> 'z tty_kernel_scheme option" where
  "USART1_IRQHandler w0 txe rxne dr k =
     (if txe \<and> TXEIE k then do {
        b \<leftarrow> (if unat (tx_ind k) < length (tx_buf (tty k)) then Some (tx_buf (tty k) ! unat (tx_ind k)) else None);
        let k = k\<lparr>DR_out := DR_out k @ [b], tx_ind := tx_ind k + 1\<rparr>;
        if tx_ind k = tx_num (tty k) then do {
          let k = k\<lparr>tx_ind := 0, TXEIE := False\<rparr>;
          (_, w, k) \<leftarrow> xQueueGiveFromISR (sem_tx (tty k)) w0 k;
          Some (portYIELD_FROM_ISR w k)
        } else Some k
      }
      else if rxne \<and> RXNEIE k then do {
        (_, w, k) \<leftarrow> xQueueGenericSendFromISR (q_rx (tty k)) (Some [dr]) w0 queueSEND_TO_BACK k;
        Some (portYIELD_FROM_ISR w k)
      }
      else Some k)"

section \<open>The line editor\<close>

definition isascii :: "u8 \<Rightarrow> bool" where "isascii b \<longleftrightarrow> b AND 0x80 = 0"

text \<open>\<open>rx_buf[i] = b\<close> and printing \<open>rx_buf\<close> with \<open>%s\<close>; both stay within the array or are undefined.\<close>

definition rx_store :: "nat \<Rightarrow> u8 \<Rightarrow> tty_driver \<Rightarrow> tty_driver option" where
  "rx_store i b t = (if i < length (rx_buf t) then Some (t\<lparr>rx_buf := (rx_buf t)[i := b]\<rparr>) else None)"

definition c_string :: "u8 list \<Rightarrow> u8 list option" where
  "c_string m = (if 0 \<in> set m then Some (takeWhile (\<lambda>b. b \<noteq> 0) m) else None)"

definition bytes :: "string \<Rightarrow> u8 list" where
  "bytes s = map of_char s"

definition hex_digit :: "nat \<Rightarrow> u8" where
  "hex_digit n = of_nat (if n < 10 then 48 + n else 87 + n)"

text \<open>
  The body of the inner loop of \<open>TTY_Task\<close> on a byte from the receive queue: the byte is echoed, then it
  ends the line, deletes a character or is stored. The result says whether the loop is left; the last
  component is what goes out through \<open>tty_driver_tx\<close> and \<open>printf\<close>.
\<close>

definition TTY_Task_byte :: "u8 \<Rightarrow> u8 \<times> tty_driver \<times> u8 list \<Rightarrow> (bool \<times> u8 \<times> tty_driver \<times> u8 list) option" where
  "TTY_Task_byte byte = (\<lambda>(cnt, t, out). do {
     let out = out @ [byte];
     if \<not> rx_enable t then Some (False, cnt, t, out)
     else if byte = 13 then do {
       t \<leftarrow> rx_store (unat cnt) 10 t;
       Some (True, cnt + 1, t, out @ [13, 10])
     }
     else if byte = 8 \<or> byte = 0x7f then
       (if cnt > 0 then do {
          t \<leftarrow> rx_store (unat (cnt - 1)) 0 t;
          s \<leftarrow> c_string (rx_buf t);
          Some (False, cnt - 1, t, out @ [13] @ s @ [32, 8])
        } else Some (False, cnt, t, out))
     else if isascii byte then do {
       t \<leftarrow> rx_store (unat cnt) byte t;
       let cnt = cnt + 1;
       Some ((ucast cnt :: u32) = rx_num t, cnt, t, out)
     }
     else Some (False, cnt, t, out @ bytes '' Unknown Symbol '' @
                  [hex_digit (unat byte div 16), hex_digit (unat byte mod 16)] @ [13, 10])
   })"

text \<open>After the line: the number of bytes is reported and reception is switched off until the next read.\<close>

definition TTY_Task_line :: "u8 \<times> tty_driver \<times> u8 list \<Rightarrow> u8 \<times> tty_driver \<times> u8 list" where
  "TTY_Task_line = (\<lambda>(cnt, t, out). (0, t\<lparr>rx_num := ucast cnt, rx_enable := False\<rparr>, out))"

text \<open>The inner loop on the bytes that arrive; \<open>False\<close> means that it waits for more.\<close>

fun TTY_Task_bytes :: "u8 list \<Rightarrow> u8 \<times> tty_driver \<times> u8 list \<Rightarrow> (bool \<times> (u8 \<times> tty_driver \<times> u8 list) \<times> u8 list) option" where
  "TTY_Task_bytes [] s = Some (False, s, [])"
| "TTY_Task_bytes (b # bs) s = do {
     (fin, s) \<leftarrow> TTY_Task_byte b s;
     if fin then Some (True, TTY_Task_line s, bs) else TTY_Task_bytes bs s
   }"

section \<open>The line editor refines an editor of lists\<close>

text \<open>The editor that a reader sees: a line of at most \<open>n\<close> bytes, its last byte deleted by backspace or DEL.\<close>

definition edit :: "nat \<Rightarrow> u8 \<Rightarrow> u8 list \<Rightarrow> bool \<times> u8 list" where
  "edit n b l =
     (if b = 13 then (True, l @ [10])
      else if b = 8 \<or> b = 0x7f then (False, butlast l)
      else if isascii b then (Suc (length l) = n, l @ [b])
      else (False, l))"

fun edit_all :: "nat \<Rightarrow> u8 list \<Rightarrow> u8 list \<Rightarrow> bool \<times> u8 list \<times> u8 list" where
  "edit_all n [] l = (False, l, [])"
| "edit_all n (b # bs) l = (let (fin, l) = edit n b l in if fin then (True, l, bs) else edit_all n bs l)"

text \<open>A read is under way into a buffer of at most 255 bytes that is not full.\<close>

definition line_ok :: "u8 \<times> tty_driver \<times> u8 list \<Rightarrow> bool" where
  "line_ok = (\<lambda>(cnt, t, out). rx_enable t \<and> unat cnt < unat (rx_num t) \<and> unat (rx_num t) \<le> length (rx_buf t) \<and>
     unat (rx_num t) \<le> 255)"

definition the_line :: "u8 \<times> tty_driver \<times> u8 list \<Rightarrow> u8 list" where
  "the_line = (\<lambda>(cnt, t, out). take (unat cnt) (rx_buf t))"

definition rx_limit :: "u8 \<times> tty_driver \<times> u8 list \<Rightarrow> nat" where
  "rx_limit = (\<lambda>(cnt, t, out). unat (rx_num t))"

lemma take_update_last: "i < length xs \<Longrightarrow> take (Suc i) (xs[i := x]) = take i xs @ [x]"
  by (simp add: take_Suc_conv_app_nth)

lemma unat_u8_Suc: "unat (c :: u8) < 255 \<Longrightarrow> unat (c + 1) = Suc (unat c)"
  by (rule unat_Suc [of c 255]) simp

lemma unat_ucast_u8 [simp]: "unat (ucast (c :: u8) :: u32) = unat c"
proof -
  have "unat c < 2 ^ 8" using unsigned_less [of c] by simp
  then have "unat c < 2 ^ 32" by simp
  then show ?thesis by (simp add: unsigned_ucast_eq take_bit_nat_eq_self)
qed

lemma c_string_update: "i < length m \<Longrightarrow> \<exists>s. c_string (m[i := 0]) = Some s"
  by (simp add: c_string_def set_update_memI)

lemma TTY_Task_byte_refines:
  assumes "line_ok s"
  shows "\<exists>fin s'. TTY_Task_byte b s = Some (fin, s') \<and> edit (rx_limit s) b (the_line s) = (fin, the_line s') \<and>
    rx_limit s' = rx_limit s \<and> (\<not> fin \<longrightarrow> line_ok s') \<and> length (the_line s') \<le> rx_limit s \<and>
    length (the_line s') = unat (fst s')"
proof -
  obtain cnt t out where s: "s = (cnt, t, out)" by (cases s)
  have a: "rx_enable t" "unat cnt < unat (rx_num t)" "unat (rx_num t) \<le> length (rx_buf t)" "unat (rx_num t) \<le> 255"
    using assms by (auto simp: line_ok_def s)
  have c: "unat (cnt + 1) = Suc (unat cnt)" using a by (intro unat_u8_Suc) simp
  have i: "unat cnt < length (rx_buf t)" using a by simp
  have len: "min (length (rx_buf t)) (unat cnt) = unat cnt" using i by simp
  have full: "((ucast (cnt + 1) :: u32) = rx_num t) = (Suc (unat cnt) = unat (rx_num t))"
    using c by (simp add: word_unat_eq_iff)
  have less: "Suc (unat cnt) \<noteq> unat (rx_num t) \<Longrightarrow> Suc (unat cnt) < unat (rx_num t)" using a by simp
  consider "b = 13" | "b = 8 \<or> b = 0x7f" "cnt > 0" | "b = 8 \<or> b = 0x7f" "cnt = 0"
    | "b \<noteq> 13" "\<not> (b = 8 \<or> b = 0x7f)" "isascii b" | "b \<noteq> 13" "\<not> (b = 8 \<or> b = 0x7f)" "\<not> isascii b"
    using word_neq_0_conv by blast
  then show ?thesis
  proof cases
    case 1
    with a c i show ?thesis
      by (auto simp: s TTY_Task_byte_def rx_store_def edit_def the_line_def rx_limit_def take_update_last)
  next
    case 2
    then have p: "unat (cnt - 1) = unat cnt - 1" "unat cnt > 0" by (simp_all add: unat_pred unat_gt_0)
    obtain z where z: "c_string ((rx_buf t)[unat (cnt - 1) := 0]) = Some z"
      using c_string_update [of "unat (cnt - 1)" "rx_buf t"] p i by (auto dest: less_imp_diff_less)
    have "butlast (take (unat cnt) (rx_buf t)) = take (unat (cnt - 1)) ((rx_buf t)[unat (cnt - 1) := 0])"
      using p i by (simp add: butlast_take)
    moreover have "TTY_Task_byte b s = Some (False, cnt - 1, t\<lparr>rx_buf := (rx_buf t)[unat (cnt - 1) := 0]\<rparr>,
        out @ [b] @ [13] @ z @ [32, 8])"
      using 2 a(1) p i z by (auto simp: s TTY_Task_byte_def rx_store_def simp del: One_nat_def)
    moreover have "edit (unat (rx_num t)) b (take (unat cnt) (rx_buf t)) = (False, butlast (take (unat cnt) (rx_buf t)))"
      using 2 by (auto simp: edit_def)
    moreover have "unat (cnt - 1) < unat (rx_num t)" "unat (cnt - 1) < length (rx_buf t)" using p a i by linarith+
    ultimately show ?thesis using a by (auto simp: s the_line_def rx_limit_def line_ok_def)
  next
    case 3
    with a show ?thesis
      by (auto simp: s TTY_Task_byte_def edit_def the_line_def rx_limit_def line_ok_def)
  next
    case 4
    have e: "edit (unat (rx_num t)) b (take (unat cnt) (rx_buf t)) = (Suc (unat cnt) = unat (rx_num t), take (unat cnt) (rx_buf t) @ [b])"
      using 4 len by (auto simp: edit_def)
    have "TTY_Task_byte b s = Some (Suc (unat cnt) = unat (rx_num t), cnt + 1, t\<lparr>rx_buf := (rx_buf t)[unat cnt := b]\<rparr>, out @ [b])"
      using 4 a(1) i full by (simp add: s TTY_Task_byte_def rx_store_def)
    with a c i e less show ?thesis
      by (auto simp: s the_line_def rx_limit_def line_ok_def take_update_last)
  next
    case 5
    with a show ?thesis
      by (auto simp: s TTY_Task_byte_def edit_def the_line_def rx_limit_def line_ok_def)
  qed
qed

text \<open>The read has been answered with the line \<open>l\<close>.\<close>

definition line_read :: "u8 list \<Rightarrow> u8 \<times> tty_driver \<times> u8 list \<Rightarrow> bool" where
  "line_read l = (\<lambda>(cnt, t, out). cnt = 0 \<and> \<not> rx_enable t \<and> unat (rx_num t) = length l \<and> take (length l) (rx_buf t) = l)"

lemma TTY_Task_bytes_refines:
  assumes "line_ok s" "edit_all (rx_limit s) bs (the_line s) = (fin, l, rest)"
  shows "\<exists>s'. TTY_Task_bytes bs s = Some (fin, s', rest) \<and> length l \<le> rx_limit s \<and>
    (if fin then line_read l s' else line_ok s' \<and> the_line s' = l \<and> rx_limit s' = rx_limit s)"
  using assms
proof (induction bs arbitrary: s)
  case Nil
  then show ?case by (auto simp: the_line_def rx_limit_def line_ok_def)
next
  case (Cons b bs)
  obtain f s' where s': "TTY_Task_byte b s = Some (f, s')" "edit (rx_limit s) b (the_line s) = (f, the_line s')"
    "rx_limit s' = rx_limit s" "\<not> f \<longrightarrow> line_ok s'" "length (the_line s') \<le> rx_limit s"
    "length (the_line s') = unat (fst s')"
    using TTY_Task_byte_refines [OF Cons.prems(1), of b] by blast
  show ?case
  proof (cases f)
    case True
    then show ?thesis using s' Cons.prems(2)
      by (cases s') (auto simp: TTY_Task_line_def the_line_def line_read_def)
  next
    case False
    then have "line_ok s'" "edit_all (rx_limit s') bs (the_line s') = (fin, l, rest)"
      using s' Cons.prems(2) by simp_all
    from Cons.IH [OF this] obtain s'' where "TTY_Task_bytes bs s' = Some (fin, s'', rest)" "length l \<le> rx_limit s'"
      "if fin then line_read l s'' else line_ok s'' \<and> the_line s'' = l \<and> rx_limit s'' = rx_limit s'" by blast
    then show ?thesis using s'(1,3) False by (intro exI [of _ s'']) simp
  qed
qed

section \<open>Transmission by interrupts\<close>

lemma tty_fields_upd [simp]:
  "tty (upd_queue q f k) = tty k" "tx_ind (upd_queue q f k) = tx_ind k" "TXEIE (upd_queue q f k) = TXEIE k"
  "RXNEIE (upd_queue q f k) = RXNEIE k" "DR_out (upd_queue q f k) = DR_out k"
  by (simp_all add: upd_queue_def)

lemma tty_more:
  assumes "qkernel.more k' = qkernel.more k"
  shows "tty k' = tty k" "tx_ind k' = tx_ind k" "TXEIE k' = TXEIE k" "RXNEIE k' = RXNEIE k" "DR_out k' = DR_out k"
  using assms by (cases k; cases k'; simp)+

text \<open>Changes of the driver's own fields are invisible to the scheduler and the queues.\<close>

definition same_kernel :: "'z qkernel_scheme \<Rightarrow> 'z qkernel_scheme \<Rightarrow> bool" where
  "same_kernel k k' \<longleftrightarrow> qkernel.truncate k' = qkernel.truncate k"

lemma same_kernelI [simp]:
  "same_kernel k (k\<lparr>tty := a\<rparr>)" "same_kernel k (k\<lparr>TXEIE := b\<rparr>)" "same_kernel k (k\<lparr>tx_ind := i, TXEIE := b\<rparr>)"
  "same_kernel k (k\<lparr>DR_out := d, tx_ind := i\<rparr>)" "same_kernel k (k\<lparr>DR_out := d, tx_ind := i, TXEIE := b\<rparr>)"
  "same_kernel k (k\<lparr>tty := a, TXEIE := b\<rparr>)"
  by (simp_all add: same_kernel_def qkernel.defs)

lemma same_kernel_fields:
  assumes "same_kernel k k'"
  shows "tcbs k' = tcbs k" "task_lists k' = task_lists k" "pxCurrentTCB k' = pxCurrentTCB k"
    "pxDelayedTaskList k' = pxDelayedTaskList k" "pxOverflowDelayedTaskList k' = pxOverflowDelayedTaskList k"
    "uxCurrentNumberOfTasks k' = uxCurrentNumberOfTasks k" "xTickCount k' = xTickCount k"
    "uxTopReadyPriority k' = uxTopReadyPriority k" "xSchedulerRunning k' = xSchedulerRunning k"
    "xPendedTicks k' = xPendedTicks k" "xNextTaskUnblockTime k' = xNextTaskUnblockTime k"
    "uxSchedulerSuspended k' = uxSchedulerSuspended k" "pendsv k' = pendsv k" "queues k' = queues k"
  using assms by (cases k; cases k'; simp add: same_kernel_def qkernel.defs)+

lemma same_kernelD:
  assumes "same_kernel k k'"
  shows "sched_inv k' = sched_inv k" "quiet k' = quiet k" "can_block q c k' = can_block q c k"
    "may_wait n k' = may_wait n k" "outranked l k' = outranked l k" "released k' b = released k b"
  by (simp_all add: same_kernel_fields [OF assms] inv_defs lists_ok_def ready_ok_def delayed_ok_def quiet_def
      pending_def can_block_def may_wait_def xTaskGetSchedulerState_def outranked_def released_def cong: list.case_cong option.case_cong)

text \<open>A number of interrupts with the transmit register empty; each event has the values the handler does not use.\<close>

fun tx_irqs :: "(bool \<times> bool \<times> u8) list \<Rightarrow> 'z tty_kernel_scheme \<Rightarrow> 'z tty_kernel_scheme option" where
  "tx_irqs [] k = Some k"
| "tx_irqs ((w, rxne, dr) # es) k = do { k \<leftarrow> USART1_IRQHandler w True rxne dr k; tx_irqs es k }"

definition sending :: "nat \<Rightarrow> 'z tty_kernel_scheme \<Rightarrow> bool" where
  "sending i k \<longleftrightarrow> TXEIE k \<and> tx_ind k = of_nat i \<and> i < unat (tx_num (tty k)) \<and> unat (tx_num (tty k)) \<le> length (tx_buf (tty k))"

lemma unat_of_nat_below: "i \<le> unat n \<Longrightarrow> unat (of_nat i :: u32) = i" for n :: u32
  using unsigned_less [of n, where 'a = nat] by (intro unat_of_nat_less) linarith

lemma of_nat_eq_unat: "i \<le> unat n \<Longrightarrow> of_nat i = n \<longleftrightarrow> i = unat (n :: u32)"
  by (simp add: word_unat_eq_iff unat_of_nat_below)

lemma sending_index:
  assumes "sending i k"
  shows "unat (tx_ind k) = i" "tx_ind k + 1 = of_nat (Suc i)" "i < length (tx_buf (tty k))"
    "tx_ind k + 1 = tx_num (tty k) \<longleftrightarrow> Suc i = unat (tx_num (tty k))"
proof -
  show i: "unat (tx_ind k) = i" "tx_ind k + 1 = of_nat (Suc i)" "i < length (tx_buf (tty k))"
    using assms unat_of_nat_below [of i "tx_num (tty k)"] by (auto simp: sending_def)
  show "tx_ind k + 1 = tx_num (tty k) \<longleftrightarrow> Suc i = unat (tx_num (tty k))"
    using assms of_nat_eq_unat [of "Suc i" "tx_num (tty k)"] unfolding i(2) by (simp add: sending_def)
qed

lemma irq_sends:
  assumes "sending i k" "Suc i < unat (tx_num (tty k))"
  shows "\<exists>k'. USART1_IRQHandler w True rxne dr k = Some k' \<and> same_kernel k k' \<and> tty k' = tty k \<and>
    sending (Suc i) k' \<and> DR_out k' = DR_out k @ [tx_buf (tty k) ! i]"
proof -
  let ?k = "k\<lparr>DR_out := DR_out k @ [tx_buf (tty k) ! i], tx_ind := tx_ind k + 1\<rparr>"
  note i = sending_index [OF assms(1)]
  have "TXEIE k" using assms(1) by (simp add: sending_def)
  then have "USART1_IRQHandler w True rxne dr k = Some ?k"
    using assms(2) i(1,3,4) by (simp add: USART1_IRQHandler_def Let_def)
  then show ?thesis using assms i by (intro exI [of _ ?k]) (simp add: sending_def)
qed

lemma tx_irqs_send:
  assumes "sending i k" "i + length es < unat (tx_num (tty k))"
  shows "\<exists>k'. tx_irqs es k = Some k' \<and> same_kernel k k' \<and> tty k' = tty k \<and> sending (i + length es) k' \<and>
    DR_out k' = DR_out k @ take (length es) (drop i (tx_buf (tty k)))"
  using assms
proof (induction es arbitrary: i k)
  case Nil
  then show ?case by (auto simp: same_kernel_def)
next
  case (Cons e es)
  obtain w rxne dr where e: "e = (w, rxne, dr)" by (cases e)
  obtain k1 where k1: "USART1_IRQHandler w True rxne dr k = Some k1" "same_kernel k k1" "tty k1 = tty k"
    "sending (Suc i) k1" "DR_out k1 = DR_out k @ [tx_buf (tty k) ! i]"
    using irq_sends [OF Cons.prems(1), of w rxne dr] Cons.prems(2) by auto
  obtain k2 where k2: "tx_irqs es k1 = Some k2" "same_kernel k1 k2" "tty k2 = tty k1" "sending (Suc i + length es) k2"
    "DR_out k2 = DR_out k1 @ take (length es) (drop (Suc i) (tx_buf (tty k1)))"
    using Cons.IH [OF k1(4)] Cons.prems(2) k1(3) by auto
  have "i < length (tx_buf (tty k))" using Cons.prems by (auto simp: sending_def)
  then show ?case using e k1 k2 by (auto simp: same_kernel_def Cons_nth_drop_Suc [symmetric])
qed

text \<open>The interrupt that sends the last byte stops the transmission and gives the semaphore.\<close>

lemma irq_last:
  assumes "sending i k" "Suc i = unat (tx_num (tty k))" "sched_inv k" "pxCurrentTCB k = Some c"
    "semaphore_ok (queues k (sem_tx (tty k)))" "uxMessagesWaiting (queues k (sem_tx (tty k))) < uxLength (queues k (sem_tx (tty k)))"
    "cTxLock (queues k (sem_tx (tty k))) = queueUNLOCKED"
  obtains k1 k' where "USART1_IRQHandler w True rxne dr k = Some k'" "sched_inv k'" "tty k' = tty k"
    "DR_out k' = DR_out k @ [tx_buf (tty k) ! i]" "\<not> TXEIE k'" "tx_ind k' = 0" "same_kernel k k1"
    "outranked (WaitingToReceive (sem_tx (tty k))) k \<longrightarrow> pendsv k'"
    "waiters_gone (WaitingToReceive (sem_tx (tty k))) 1
      (upd_queue (sem_tx (tty k)) (set_count (uxMessagesWaiting (queues k (sem_tx (tty k))) + 1)) k1) k'"
proof -
  let ?q = "sem_tx (tty k)"
  define k1 where "k1 = k\<lparr>DR_out := DR_out k @ [tx_buf (tty k) ! i], tx_ind := 0, TXEIE := False\<rparr>"
  have s: "same_kernel k k1" by (simp add: k1_def)
  note f = same_kernel_fields [OF s] same_kernelD [OF s]
  have p: "sched_inv k1" "pxCurrentTCB k1 = Some c" "semaphore_ok (queues k1 ?q)"
    "uxMessagesWaiting (queues k1 ?q) < uxLength (queues k1 ?q)" "cTxLock (queues k1 ?q) = queueUNLOCKED"
    using assms(3-7) by (simp_all add: f)
  obtain k2 where g: "xQueueGiveFromISR ?q w k1 = Some (True, outranked (WaitingToReceive ?q) k1 \<or> w, k2)" "sched_inv k2"
    "waiters_gone (WaitingToReceive ?q) 1 (upd_queue ?q (set_count (uxMessagesWaiting (queues k1 ?q) + 1)) k1) k2"
    by (rule semaphore_give_isr [OF p])
  let ?k' = "portYIELD_FROM_ISR (outranked (WaitingToReceive ?q) k \<or> w) k2"
  note i = sending_index [OF assms(1)]
  have "TXEIE k" using assms(1) by (simp add: sending_def)
  moreover have "k\<lparr>DR_out := DR_out k @ [tx_buf (tty k) ! i], tx_ind := 0, TXEIE := False\<rparr> = k1" by (simp add: k1_def)
  ultimately have h: "USART1_IRQHandler w True rxne dr k = Some ?k'"
    using assms(2) i(1,3,4) g(1) f(19) by (simp add: USART1_IRQHandler_def Let_def)
  have "qkernel.more k2 = qkernel.more k1" using waiters_gone_more [OF g(3)] by simp
  from tty_more [OF this] have m: "tty ?k' = tty k" "DR_out ?k' = DR_out k @ [tx_buf (tty k) ! i]" "\<not> TXEIE ?k'" "tx_ind ?k' = 0"
    by (simp_all add: k1_def portYIELD_FROM_ISR_def portYIELD_def)
  have "sched_inv ?k'" "outranked (WaitingToReceive ?q) k \<longrightarrow> pendsv ?k'"
    using g(2) by (simp_all add: portYIELD_FROM_ISR_def portYIELD_def)
  moreover have "waiters_gone (WaitingToReceive ?q) 1 (upd_queue ?q (set_count (uxMessagesWaiting (queues k ?q) + 1)) k1) ?k'"
    using g(3) by (simp add: f portYIELD_FROM_ISR_def portYIELD_def)
  ultimately show thesis using h m s by (intro that)
qed

lemma tx_irqs_snoc: "tx_irqs (es @ [(w, rxne, dr)]) k = do { k \<leftarrow> tx_irqs es k; USART1_IRQHandler w True rxne dr k }"
  by (induction es k rule: tx_irqs.induct) (auto split: Option.bind_split)

text \<open>All interrupts of a transmission: every byte goes out, in order, and the semaphore is given once.\<close>

lemma tx_irqs_all:
  assumes "sending 0 k" "length es = unat (tx_num (tty k))" "sched_inv k" "pxCurrentTCB k = Some c"
    "semaphore_ok (queues k (sem_tx (tty k)))" "uxMessagesWaiting (queues k (sem_tx (tty k))) < uxLength (queues k (sem_tx (tty k)))"
    "cTxLock (queues k (sem_tx (tty k))) = queueUNLOCKED"
  obtains k1 k' where "tx_irqs es k = Some k'" "sched_inv k'" "tty k' = tty k"
    "DR_out k' = DR_out k @ take (unat (tx_num (tty k))) (tx_buf (tty k))" "\<not> TXEIE k'" "tx_ind k' = 0" "same_kernel k k1"
    "outranked (WaitingToReceive (sem_tx (tty k))) k \<longrightarrow> pendsv k'"
    "waiters_gone (WaitingToReceive (sem_tx (tty k))) 1
      (upd_queue (sem_tx (tty k)) (set_count (uxMessagesWaiting (queues k (sem_tx (tty k))) + 1)) k1) k'"
proof -
  have "es \<noteq> []" using assms(1,2) by (auto simp: sending_def)
  then obtain es1 w rxne dr where e: "es = es1 @ [(w, rxne, dr)]" by (metis prod_cases3 rev_exhaust)
  let ?n = "length es1"
  have n: "Suc ?n = unat (tx_num (tty k))" using assms(2) e by simp
  obtain k0 where k0: "tx_irqs es1 k = Some k0" "same_kernel k k0" "tty k0 = tty k" "sending ?n k0"
    "DR_out k0 = DR_out k @ take ?n (tx_buf (tty k))"
    using tx_irqs_send [OF assms(1), of es1] n by auto
  note f = same_kernel_fields [OF k0(2)] same_kernelD [OF k0(2)]
  have p: "Suc ?n = unat (tx_num (tty k0))" "sched_inv k0" "pxCurrentTCB k0 = Some c" "semaphore_ok (queues k0 (sem_tx (tty k0)))"
    "uxMessagesWaiting (queues k0 (sem_tx (tty k0))) < uxLength (queues k0 (sem_tx (tty k0)))"
    "cTxLock (queues k0 (sem_tx (tty k0))) = queueUNLOCKED"
    using n assms(3-7) by (simp_all add: k0(3) f)
  obtain k1 k' where l: "USART1_IRQHandler w True rxne dr k0 = Some k'" "sched_inv k'" "tty k' = tty k0"
    "DR_out k' = DR_out k0 @ [tx_buf (tty k0) ! ?n]" "\<not> TXEIE k'" "tx_ind k' = 0" "same_kernel k0 k1"
    "outranked (WaitingToReceive (sem_tx (tty k0))) k0 \<longrightarrow> pendsv k'"
    "waiters_gone (WaitingToReceive (sem_tx (tty k0))) 1
      (upd_queue (sem_tx (tty k0)) (set_count (uxMessagesWaiting (queues k0 (sem_tx (tty k0))) + 1)) k1) k'"
    by (rule irq_last [OF k0(4) p])
  have "?n < length (tx_buf (tty k))" using assms(1) n by (simp add: sending_def)
  then have "DR_out k' = DR_out k @ take (unat (tx_num (tty k))) (tx_buf (tty k))"
    using n by (simp add: l(4) k0(3,5) take_Suc_conv_app_nth flip: n)
  moreover have "tx_irqs es k = Some k'" using k0(1) l(1) by (simp add: e tx_irqs_snoc)
  moreover have "same_kernel k k1" using k0(2) l(7) by (simp add: same_kernel_def)
  ultimately show thesis using l(2,3,5,6,8,9) by (intro that) (simp_all add: k0(3) f)
qed

section \<open>A whole call of the transmit function\<close>

lemma event_members_empty:
  assumes "sched_inv k" "is_event_list l"
  shows "members k l = [] \<longleftrightarrow> (\<forall>t. event_list (tcbs k t) \<noteq> Some l)"
  using event_member [OF sched_inv_parts(3) [OF assms(1)] assms(2)] by (metis empty_iff ex_in_conv set_empty)

lemma event_members_single:
  assumes "sched_inv k" "is_event_list l" "\<And>t. event_list (tcbs k t) = Some l \<longleftrightarrow> t = c"
  shows "members k l = [c]"
proof -
  have "distinct (members k l)" using sched_inv_parts(3) [OF assms(1)] by (simp add: lists_ok_def kl_wf_def)
  moreover have "set (members k l) = {c}"
    using event_member [OF sched_inv_parts(3) [OF assms(1)] assms(2)] assms(3) by auto
  ultimately show ?thesis by (cases "members k l"; cases "tl (members k l)") auto
qed

text \<open>The driver at rest: both semaphores as \<open>tty_driver_init\<close> creates them, nobody sending.\<close>

definition tx_idle :: "'z tty_kernel_scheme \<Rightarrow> bool" where
  "tx_idle k \<longleftrightarrow> (let L = queues k (lock_tx (tty k)); S = queues k (sem_tx (tty k)) in
     lock_tx (tty k) \<noteq> sem_tx (tty k) \<and> mutex_ok L \<and> uxMessagesWaiting L = 1 \<and>
     semaphore_ok S \<and> uxMessagesWaiting S = 0 \<and> uxLength S = 1 \<and> cTxLock S = queueUNLOCKED \<and> cRxLock S = queueUNLOCKED \<and>
     members k (WaitingToSend (lock_tx (tty k))) = [] \<and> members k (WaitingToSend (sem_tx (tty k))) = [] \<and>
     members k (WaitingToReceive (sem_tx (tty k))) = [] \<and> tx_ind k = 0)"

lemma tty_driver_tx_blocks:
  assumes "sched_inv k" "quiet k" "pxCurrentTCB k = Some c" "state_list (tcbs k c) = Some (Ready (prio k c))"
    "uxCurrentNumberOfTasks k > 0" "may_wait portMAX_DELAY k" "tx_idle k" "num > 0" "unat num \<le> length ptr"
  obtains w k1 where "tty_driver_tx ptr num k = Some (AtSem w, k1)" "sched_inv k1" "sending 0 k1" "pxCurrentTCB k1 = Some c"
    "uxSchedulerSuspended k1 = 0" "tty k1 = (tty k)\<lparr>tx_num := num, tx_buf := ptr\<rparr>" "DR_out k1 = DR_out k"
    "queues k1 = (queues k)(lock_tx (tty k) := set_mutex_holder (Some c) (set_count 0 (queues k (lock_tx (tty k)))))"
    "tcbs k1 = (tcbs k)(c := (tcbs k c)\<lparr>uxMutexesHeld := uxMutexesHeld (tcbs k c) + 1,
       state_list := Some SuspendedTaskList, event_list := Some (WaitingToReceive (sem_tx (tty k)))\<rparr>)"
proof -
  let ?L = "lock_tx (tty k)" and ?S = "sem_tx (tty k)"
  have d: "?L \<noteq> ?S" "mutex_ok (queues k ?L)" "uxMessagesWaiting (queues k ?L) = 1" "members k (WaitingToSend ?L) = []"
    "semaphore_ok (queues k ?S)" "uxMessagesWaiting (queues k ?S) = 0" "cTxLock (queues k ?S) = queueUNLOCKED"
    "cRxLock (queues k ?S) = queueUNLOCKED" "tx_ind k = 0"
    using assms(7) by (simp_all add: tx_idle_def Let_def)
  let ?m = "mutex_taken ?L c k"
  define k0 where "k0 = ?m\<lparr>tty := (tty k)\<lparr>tx_num := num, tx_buf := ptr\<rparr>, TXEIE := True\<rparr>"
  have mm: "tty ?m = tty k" "tx_ind ?m = tx_ind k" "DR_out ?m = DR_out k" using tty_more [of ?m k] by simp_all
  have "xQueueSemaphoreTake ?L portMAX_DELAY k = Some (Returned True, ?m)"
    using mutex_take_now [OF assms(3) d(2-4)] assms(6) d(2) by (simp add: xQueueSemaphoreTake_def configASSERT_def mutex_ok_def)
  then have t: "tty_driver_tx ptr num k = tty_tx_locked ptr num ?m"
    using assms(8) by (simp add: tty_driver_tx_def word_gt_0)
  have s: "same_kernel ?m k0" by (simp add: k0_def)
  note f = same_kernel_fields [OF s] same_kernelD [OF s]
  have ev: "event_list (tcbs k c) = None"
    using sched_inv_parts(6) [OF assms(1), of c] assms(4) by (cases "event_list (tcbs k c)") auto
  have p: "sched_inv k0" "quiet k0" "can_block ?S c k0" "semaphore_ok (queues k0 ?S)" "uxMessagesWaiting (queues k0 ?S) = 0"
    "portMAX_DELAY \<noteq> 0" "may_wait portMAX_DELAY k0"
    using assms(1-6) d ev by (simp_all add: f can_block_def portMAX_DELAY_def)
  obtain w k1 where b: "xQueueSemaphoreTake ?S portMAX_DELAY k0 = Some (Again w, k1)" "sched_inv k1" "quiet k1" "pendsv k1"
    "tcbs k1 = (tcbs k0)(c := parked portMAX_DELAY True k0 ((tcbs k0 c)\<lparr>event_list := Some (WaitingToReceive ?S)\<rparr>))"
    "queues k1 = queues k0" "pxCurrentTCB k1 = Some c" "xTickCount k1 = xTickCount k0"
    "uxCurrentNumberOfTasks k1 = uxCurrentNumberOfTasks k0" "qkernel.more k1 = qkernel.more k0" "xTicksToWait w = portMAX_DELAY"
    by (rule semaphore_take_blocks [OF p])
  have "tty_driver_tx ptr num k = Some (AtSem w, k1)"
    using b(1) by (simp add: t tty_tx_locked_def upd_tty_def mm k0_def)
  moreover have "sending 0 k1" "tty k1 = (tty k)\<lparr>tx_num := num, tx_buf := ptr\<rparr>" "DR_out k1 = DR_out k"
    using tty_more [OF b(10)] assms(8,9) d(9) mm by (simp_all add: k0_def sending_def unat_gt_0)
  moreover have "uxSchedulerSuspended k1 = 0" using b(3) by (simp add: quiet_def)
  ultimately show thesis using b(2,7)
    by (intro that [of w k1]) (simp_all add: b(5,6) f parked_def)
qed

text \<open>The task runs again after the last interrupt: it takes the semaphore and gives the lock back.\<close>

lemma tty_tx_finishes:
  assumes "sched_inv k" "pxCurrentTCB k = Some c" "state_list (tcbs k c) = Some (Ready (prio k c))"
    "mutex_ok (queues k (lock_tx (tty k)))" "mutex_holder (queues k (lock_tx (tty k))) = Some (Some c)"
    "uxMutexesHeld (tcbs k c) \<noteq> 0" "lock_tx (tty k) \<noteq> sem_tx (tty k)"
    "semaphore_ok (queues k (sem_tx (tty k)))" "uxMessagesWaiting (queues k (sem_tx (tty k))) = 1"
    "members k (WaitingToSend (sem_tx (tty k))) = []"
  obtains k' where "tty_tx_resume ptr num (AtSem w) k = Some (AtReturn, k')" "sched_inv k'" "tty k' = tty k"
    "DR_out k' = DR_out k" "mutex_ok (queues k' (lock_tx (tty k)))" "mutex_holder (queues k' (lock_tx (tty k))) = Some None"
    "tty_tx_resume ptr num AtReturn k' = Some (TtyReturned (tx_num (tty k)), k')"
proof -
  let ?L = "lock_tx (tty k)" and ?S = "sem_tx (tty k)"
  let ?k = "upd_queue ?S (set_count 0) k"
  have t: "take_pass ?S w k = Some (Returned True, ?k)"
    using semaphore_take_now [OF assms(1,2,8)] assms(9,10) by simp
  have p: "sched_inv ?k" "pxCurrentTCB ?k = Some c" "mutex_ok (queues ?k ?L)" "mutex_holder (queues ?k ?L) = Some (Some c)"
    "state_list (tcbs ?k c) = Some (Ready (prio ?k c))" "uxMutexesHeld (tcbs ?k c) \<noteq> 0"
    using assms by simp_all
  obtain k' where g: "send_try ?L None queueSEND_TO_BACK (new_wait 0) ?k = Some (Returned True, k')" "sched_inv k'"
    "mutex_ok (queues k' ?L)" "mutex_holder (queues k' ?L) = Some None" "qkernel.more k' = qkernel.more ?k"
    by (rule give_mutex [OF p, of None "new_wait 0"]) blast
  have "uxItemSize (queues ?k ?L) = 0" using p(3) by (simp add: mutex_ok_def)
  then have "xQueueGenericSend ?L None 0 queueSEND_TO_BACK ?k = Some (Returned True, k')"
    using g(1) by (simp add: xQueueGenericSend_def send_pass_def configASSERT_def)
  then have "tty_tx_resume ptr num (AtSem w) k = Some (AtReturn, k')"
    by (simp add: tty_tx_resume_def t tty_tx_done_def)
  then show thesis
    using tty_more [OF g(5)] g(2-4) by (intro that [of k']) (simp_all add: tty_tx_resume_def)
qed

section \<open>Properties\<close>

text \<open>
  Transmission: once \<open>tty_driver_tx\<close> has set up a buffer of \<open>n\<close> bytes, \<open>n\<close> interrupts with the transmit
  register empty write exactly these bytes, in order, to the data register; then the interrupt is
  disabled, the index is reset for the next buffer, the semaphore is given once and the first task
  that waits for it is readied, with a switch pended if it has a higher priority.
\<close>

theorem USART1_IRQHandler_transmits:
  assumes "sched_inv k" "pxCurrentTCB k = Some c" "TXEIE k" "tx_ind k = 0" "tx_num (tty k) > 0"
    "unat (tx_num (tty k)) \<le> length (tx_buf (tty k))" "length es = unat (tx_num (tty k))"
    "semaphore_ok (queues k (sem_tx (tty k)))" "uxMessagesWaiting (queues k (sem_tx (tty k))) < uxLength (queues k (sem_tx (tty k)))"
    "cTxLock (queues k (sem_tx (tty k))) = queueUNLOCKED"
  shows "\<exists>k'. tx_irqs es k = Some k' \<and> sched_inv k' \<and>
    DR_out k' = DR_out k @ take (unat (tx_num (tty k))) (tx_buf (tty k)) \<and> \<not> TXEIE k' \<and> tx_ind k' = 0 \<and>
    uxMessagesWaiting (queues k' (sem_tx (tty k))) = uxMessagesWaiting (queues k (sem_tx (tty k))) + 1 \<and>
    members k' (WaitingToReceive (sem_tx (tty k))) = tl (members k (WaitingToReceive (sem_tx (tty k)))) \<and>
    (\<forall>t\<in>set (take 1 (members k (WaitingToReceive (sem_tx (tty k))))). tcbs k' t = released k (tcbs k t)) \<and>
    (outranked (WaitingToReceive (sem_tx (tty k))) k \<longrightarrow> pendsv k')"
proof -
  let ?q = "sem_tx (tty k)"
  have "sending 0 k" using assms(3-6) by (simp add: sending_def unat_gt_0)
  then obtain k1 k' where i: "tx_irqs es k = Some k'" "sched_inv k'" "tty k' = tty k"
    "DR_out k' = DR_out k @ take (unat (tx_num (tty k))) (tx_buf (tty k))" "\<not> TXEIE k'" "tx_ind k' = 0" "same_kernel k k1"
    "outranked (WaitingToReceive ?q) k \<longrightarrow> pendsv k'"
    "waiters_gone (WaitingToReceive ?q) 1 (upd_queue ?q (set_count (uxMessagesWaiting (queues k ?q) + 1)) k1) k'"
    by (rule tx_irqs_all [OF _ assms(7,1,2,8-10)])
  note f = same_kernel_fields [OF i(7)] same_kernelD [OF i(7)]
  have "members k' (WaitingToReceive ?q) = tl (members k (WaitingToReceive ?q))"
    using i(9) by (simp add: waiters_gone_def f drop_Suc)
  moreover have "tcbs k' t = released k (tcbs k t)" if "t \<in> set (take 1 (members k (WaitingToReceive ?q)))" for t
    using i(9) that by (simp add: waiters_gone_def f)
  moreover have "uxMessagesWaiting (queues k' ?q) = uxMessagesWaiting (queues k ?q) + 1"
    using waiters_gone_queues [OF i(9)] by simp
  ultimately show ?thesis using i(1,2,4-6,8) by blast
qed


text \<open>
  The counter of \<open>TTY_Task\<close> has 8 bits: in a read of more than 255 bytes the 256th character of a line
  does not end the read but wraps the counter to zero, so that the next characters overwrite the
  beginning of the line.
\<close>

theorem TTY_Task_counter_wraps:
  assumes "rx_enable t" "unat (rx_num t) > 255" "unat (rx_num t) \<le> length (rx_buf t)"
    "isascii b" "b \<notin> {8, 13, 0x7f}"
  shows "TTY_Task_byte b (255, t, ws) = Some (False, 0, t\<lparr>rx_buf := (rx_buf t)[255 := b]\<rparr>, ws @ [b])"
  using assms by (auto simp: TTY_Task_byte_def rx_store_def)


text \<open>
  The number is read after the lock is given back: if a task that gets the lock starts to send \<open>num2\<close>
  bytes before the first task, which sent \<open>num\<close> bytes, reads it, the first call returns \<open>num2\<close>.
\<close>

theorem tty_driver_tx_return_race:
  assumes "sched_inv k" "quiet k" "pxCurrentTCB k = Some c2" "state_list (tcbs k c2) = Some (Ready (prio k c2))"
    "uxCurrentNumberOfTasks k > 0" "may_wait portMAX_DELAY k" "tx_idle k" "num2 > 0" "unat num2 \<le> length ptr2"
  shows "\<exists>w k1. tty_driver_tx ptr2 num2 k = Some (AtSem w, k1) \<and>
    tty_tx_resume ptr num AtReturn k1 = Some (TtyReturned num2, k1)"
proof -
  obtain w k1 where "tty_driver_tx ptr2 num2 k = Some (AtSem w, k1)" "tty k1 = (tty k)\<lparr>tx_num := num2, tx_buf := ptr2\<rparr>"
    by (rule tty_driver_tx_blocks [OF assms]) blast
  then show ?thesis by (simp add: tty_tx_resume_def)
qed

section \<open>A concrete driver\<close>

definition demo_tty :: tty_driver where
  "demo_tty = \<lparr>lock_tx = 6, sem_tx = 7, lock_rx = 8, sem_rx = 9, q_rx = 10, tx_buf = [1, 2, 3], tx_num = 3,
     rx_buf = replicate 4 0, rx_num = 4, rx_enable = True\<rparr>"

definition demo_free_mutex :: Queue_t where
  "demo_free_mutex = (demo_mutex 1)\<lparr>u_ptrs := SemaphoreData None 0, uxMessagesWaiting := 1\<rparr>"

definition demo_sem :: Queue_t where
  "demo_sem = (demo_ring 0 [] 0 1 0 (-1))\<lparr>uxItemSize := 0\<rparr>"

definition demo_tkernel :: "bool \<Rightarrow> tty_kernel" where
  "demo_tkernel txe = qkernel.extend (demo_qkernel\<lparr>queues := (queues demo_qkernel)(6 := demo_free_mutex, 7 := demo_sem)\<rparr>)
     \<lparr>tty = demo_tty, tx_ind = 0, TXEIE = txe, RXNEIE = True, DR_out = []\<rparr>"

lemma qextend_fields:
  "tcbs (qkernel.extend k e) = tcbs k" "task_lists (qkernel.extend k e) = task_lists k"
  "pxCurrentTCB (qkernel.extend k e) = pxCurrentTCB k" "xTickCount (qkernel.extend k e) = xTickCount k"
  "pxDelayedTaskList (qkernel.extend k e) = pxDelayedTaskList k"
  "pxOverflowDelayedTaskList (qkernel.extend k e) = pxOverflowDelayedTaskList k"
  "xNextTaskUnblockTime (qkernel.extend k e) = xNextTaskUnblockTime k"
  "uxTopReadyPriority (qkernel.extend k e) = uxTopReadyPriority k"
  "uxSchedulerSuspended (qkernel.extend k e) = uxSchedulerSuspended k"
  "xPendedTicks (qkernel.extend k e) = xPendedTicks k" "xSchedulerRunning (qkernel.extend k e) = xSchedulerRunning k"
  "uxCurrentNumberOfTasks (qkernel.extend k e) = uxCurrentNumberOfTasks k" "queues (qkernel.extend k e) = queues k"
  by (simp_all add: qkernel.defs)

lemma demo_tkernel_fields:
  "pxCurrentTCB (demo_tkernel x) = Some 1" "uxCurrentNumberOfTasks (demo_tkernel x) > 0"
  "tcbs (demo_tkernel x) = tcbs demo_qkernel" "task_lists (demo_tkernel x) = task_lists demo_qkernel"
  "queues (demo_tkernel x) 6 = demo_free_mutex" "queues (demo_tkernel x) 7 = demo_sem"
  "tty (demo_tkernel x) = demo_tty" "tx_ind (demo_tkernel x) = 0" "TXEIE (demo_tkernel x) = x" "DR_out (demo_tkernel x) = []"
  "may_wait n (demo_tkernel x)"
  by (simp_all add: demo_tkernel_def qextend_fields demo_qkernel_fields may_wait_def xTaskGetSchedulerState_def)
     (simp_all add: qkernel.defs)

lemma demo_tkernel_inv: "sched_inv (demo_tkernel x)" "quiet (demo_tkernel x)"
  using demo_qkernel_inv demo_qkernel_quiet
  by (simp_all add: demo_tkernel_def qextend_fields inv_defs lists_ok_def ready_ok_def delayed_ok_def quiet_def pending_def)

lemma demo_no_waiters: "members demo_qkernel (WaitingToSend q) = []" "members demo_qkernel (WaitingToReceive 7) = []"
  by (simp_all add: demo_qkernel_def demo_defs kl_empty_def)

lemma demo_tx_idle: "tx_idle (demo_tkernel x)"
  by (simp add: tx_idle_def Let_def demo_tkernel_fields demo_tty_def demo_no_waiters demo_free_mutex_def demo_sem_def
      mutex_ok_def semaphore_ok_def demo_ring_def demo_mutex_def queueUNLOCKED_def)

theorem USART1_IRQHandler_transmits_witness:
  "\<exists>k'. tx_irqs (replicate 3 (False, True, 0)) (demo_tkernel True) = Some k' \<and> DR_out k' = [1, 2, 3] \<and> \<not> TXEIE k'"
  using USART1_IRQHandler_transmits [of "demo_tkernel True" 1 "replicate 3 (False, True, 0)"]
  by (auto simp: demo_tkernel_inv demo_tkernel_fields demo_tty_def demo_sem_def semaphore_ok_def demo_ring_def queueUNLOCKED_def
      simp del: One_nat_def)


theorem TTY_Task_counter_wraps_witness:
  "TTY_Task_byte 65 (255, demo_tty\<lparr>rx_num := 1024, rx_buf := replicate 1024 0\<rparr>, []) =
     Some (False, 0, demo_tty\<lparr>rx_num := 1024, rx_buf := (replicate 1024 0)[255 := 65]\<rparr>, [65])"
  using TTY_Task_counter_wraps [of "demo_tty\<lparr>rx_num := 1024, rx_buf := replicate 1024 0\<rparr>" 65 "[]"]
  by (simp add: isascii_def demo_tty_def)


theorem tty_driver_tx_return_race_witness:
  "\<exists>w k1. tty_driver_tx [5, 6] 2 (demo_tkernel False) = Some (AtSem w, k1) \<and>
    tty_tx_resume [1] 1 AtReturn k1 = Some (TtyReturned 2, k1)"
proof -
  let ?k = "demo_tkernel False"
  have "state_list (tcbs ?k 1) = Some (Ready (prio ?k 1))" "(2 :: u32) > 0" "unat (2 :: u32) \<le> length [5, 6 :: u8]"
    using demo_qkernel_fields by (simp_all add: demo_tkernel_fields del: One_nat_def)
  from tty_driver_tx_return_race [OF demo_tkernel_inv demo_tkernel_fields(1) this(1) demo_tkernel_fields(2) demo_tkernel_fields(11)
      demo_tx_idle this(2,3)]
  show ?thesis by blast
qed

end
