(* ===== verification/Syscalls.thy ===== *)
theory Syscalls
  imports Tty
begin

text \<open>
  The system calls newlib needs, \<open>Src/newlib_syscalls.c\<close>: the heap of \<open>malloc\<close> grows through \<open>_sbrk\<close>, with the
  scheduler suspended, and \<open>_read\<close> and \<open>_write\<close> are the terminal driver. Addresses of the heap are offsets
  from the start of the array \<open>heap\<close>.
\<close>

record sys_kernel = tty_kernel +
  heap_end :: int
  errno :: int

definition HEAP_SIZE :: int where "HEAP_SIZE = 64 * 1024"
definition ENOMEM :: int where "ENOMEM = 12"

text \<open>The result \<open>None\<close> inside stands for \<open>(uint8_t *) -1\<close>.\<close>

definition sbrk :: "int \<Rightarrow> 'z sys_kernel_scheme \<Rightarrow> (int option \<times> 'z sys_kernel_scheme) option" where
  "sbrk incr k = do {
     let k = vTaskSuspendAll k;
     let prev_heap_end = heap_end k;
     if heap_end k + incr > HEAP_SIZE then Some (None, k\<lparr>errno := ENOMEM\<rparr>)
     else do {
       let k = k\<lparr>heap_end := heap_end k + incr\<rparr>;
       (_, k) \<leftarrow> xTaskResumeAll k;
       Some (Some prev_heap_end, k)
     }
   }"

definition sys_write :: "int \<Rightarrow> u8 list \<Rightarrow> u32 \<Rightarrow> 'z tty_kernel_scheme \<Rightarrow> (tty_call \<times> 'z tty_kernel_scheme) option" where
  "sys_write fd buf nbytes = tty_driver_tx buf nbytes"

definition sys_read :: "int \<Rightarrow> u8 list \<Rightarrow> u32 \<Rightarrow> 'z tty_kernel_scheme \<Rightarrow> (tty_call \<times> 'z tty_kernel_scheme) option" where
  "sys_read fd buf nbytes = tty_driver_rx buf nbytes"

definition sys_close :: "int \<Rightarrow> int" where "sys_close fildes = 0"
definition sys_lseek :: "int \<Rightarrow> int \<Rightarrow> int \<Rightarrow> int" where "sys_lseek fildes offset whence = 0"
definition sys_fstat :: "int \<Rightarrow> int" where "sys_fstat fd = 0"
definition sys_isatty :: "int \<Rightarrow> int" where "sys_isatty fildes = 1"

section \<open>Requests that fit\<close>

text \<open>What a task needs to call \<open>_sbrk\<close>: the scheduler runs and nothing is pended.\<close>

definition can_sbrk :: "'z kernel_scheme \<Rightarrow> bool" where
  "can_sbrk k \<longleftrightarrow> sched_inv k \<and> quiet k \<and> pxCurrentTCB k \<noteq> None \<and> uxCurrentNumberOfTasks k > 0"

lemma sys_more:
  assumes "kernel.more k' = kernel.more k"
  shows "heap_end k' = heap_end k" "errno k' = errno k"
  using assms by (cases k; cases k'; simp)+

lemma sbrk_fits:
  assumes "can_sbrk k" "heap_end k + incr \<le> HEAP_SIZE"
  obtains k' where "sbrk incr k = Some (Some (heap_end k), k')" "heap_end k' = heap_end k + incr" "can_sbrk k'"
    "tcbs k' = tcbs k" "xTickCount k' = xTickCount k"
proof -
  obtain c where c: "pxCurrentTCB k = Some c" using assms(1) by (auto simp: can_sbrk_def)
  define k0 where "k0 = (vTaskSuspendAll k)\<lparr>heap_end := heap_end k + incr\<rparr>"
  have f: "tcbs k0 = tcbs k" "pxCurrentTCB k0 = Some c" "xPendedTicks k0 = 0" "uxSchedulerSuspended k0 = 1"
    "uxCurrentNumberOfTasks k0 > 0" "xTickCount k0 = xTickCount k" "\<And>t. \<not> pending k0 t" "heap_end k0 = heap_end k + incr"
    using assms(1) c by (simp_all add: k0_def vTaskSuspendAll_def can_sbrk_def quiet_def pending_def)
  have i: "sched_inv k0" using assms(1)
    by (simp add: k0_def vTaskSuspendAll_def can_sbrk_def inv_defs lists_ok_def ready_ok_def delayed_ok_def)
  obtain y k' where r: "xTaskResumeAll k0 = Some (y, k')" "sched_inv k'" "quiet k'" "tcbs k' = tcbs k0"
    "pxCurrentTCB k' = Some c" "xTickCount k' = xTickCount k0" "kernel.more k' = kernel.more k0"
    "uxCurrentNumberOfTasks k' = uxCurrentNumberOfTasks k0"
    by (rule suspend_resume_quiet [OF i f(4,3,7,2,5)])
  have "heap_end (vTaskSuspendAll k) = heap_end k" by (simp add: vTaskSuspendAll_def)
  then have "sbrk incr k = Some (Some (heap_end k), k')"
    using r(1) assms(2) by (simp add: sbrk_def k0_def)
  with r f show thesis
    by (intro that [of k']) (simp_all add: sys_more [OF r(7)] can_sbrk_def)
qed

section \<open>Properties\<close>

text \<open>A run of calls that each ask for a number of bytes.\<close>

fun sbrk_all :: "nat list \<Rightarrow> 'z sys_kernel_scheme \<Rightarrow> (int option list \<times> 'z sys_kernel_scheme) option" where
  "sbrk_all [] k = Some ([], k)"
| "sbrk_all (n # ns) k = do { (r, k) \<leftarrow> sbrk (int n) k; (rs, k) \<leftarrow> sbrk_all ns k; Some (r # rs, k) }"

lemma sbrk_all_fits:
  "can_sbrk k \<Longrightarrow> heap_end k + int (sum_list ns) \<le> HEAP_SIZE \<Longrightarrow>
     \<exists>k'. sbrk_all ns k = Some (map (\<lambda>i. Some (heap_end k + int (sum_list (take i ns)))) [0..<length ns], k') \<and>
       can_sbrk k' \<and> heap_end k' = heap_end k + int (sum_list ns) \<and> tcbs k' = tcbs k"
proof (induction ns arbitrary: k)
  case (Cons n ns)
  obtain k1 where k1: "sbrk (int n) k = Some (Some (heap_end k), k1)" "heap_end k1 = heap_end k + int n" "can_sbrk k1"
    "tcbs k1 = tcbs k"
    by (rule sbrk_fits [OF Cons.prems(1), of "int n"]) (use Cons.prems(2) in auto)
  obtain k' where k': "sbrk_all ns k1 = Some (map (\<lambda>i. Some (heap_end k1 + int (sum_list (take i ns)))) [0..<length ns], k')"
    "can_sbrk k'" "heap_end k' = heap_end k1 + int (sum_list ns)" "tcbs k' = tcbs k1"
    using Cons.IH [OF k1(3)] Cons.prems(2) k1(2) by auto
  have "map (\<lambda>i. Some (heap_end k + int (sum_list (take i (n # ns))))) [0..<length (n # ns)] =
      Some (heap_end k) # map (\<lambda>i. Some (heap_end k1 + int (sum_list (take i ns)))) [0..<length ns]"
    by (simp add: map_upt_Suc k1(2) del: upt_Suc)
  with k1 k' show ?case by (simp del: upt_Suc)
qed simp

text \<open>
  Requests that fit the heap of 64 KB all succeed: each returns the end of the block before it, so the
  blocks lie one after the other and do not overlap, the break ends at their sum, and the scheduler
  runs again after every call with all tasks as they were.
\<close>

theorem sbrk_blocks_adjacent:
  assumes "can_sbrk k" "heap_end k + int (sum_list ns) \<le> HEAP_SIZE"
  shows "\<exists>k'. sbrk_all ns k = Some (map (\<lambda>i. Some (heap_end k + int (sum_list (take i ns)))) [0..<length ns], k') \<and>
    can_sbrk k' \<and> heap_end k' = heap_end k + int (sum_list ns) \<and> tcbs k' = tcbs k"
  by (rule sbrk_all_fits [OF assms])

text \<open>
  C39. A request that does not fit returns the error, leaves the break alone, and leaves the scheduler
  suspended: from then on ticks are only pended, no task is woken, and a context switch keeps the
  running task.
\<close>

fun ticks :: "nat \<Rightarrow> 'z kernel_scheme \<Rightarrow> 'z kernel_scheme option" where
  "ticks 0 k = Some k"
| "ticks (Suc n) k = do { (_, k) \<leftarrow> xTaskIncrementTick k; ticks n k }"

lemma ticks_suspended: "uxSchedulerSuspended k \<noteq> 0 \<Longrightarrow> ticks n k = Some (k\<lparr>xPendedTicks := xPendedTicks k + of_nat n\<rparr>)"
  by (induction n arbitrary: k) (simp_all add: xTaskIncrementTick_def algebra_simps)

theorem sbrk_nomem_suspends:
  assumes "can_sbrk k" "heap_end k + incr > HEAP_SIZE"
  shows "\<exists>k'. sbrk incr k = Some (None, k') \<and> errno k' = ENOMEM \<and> heap_end k' = heap_end k \<and> uxSchedulerSuspended k' = 1 \<and>
    (\<forall>n. \<exists>k''. ticks n k' = Some k'' \<and> xTickCount k'' = xTickCount k \<and> tcbs k'' = tcbs k \<and>
       vTaskSwitchContext k'' = Some (k''\<lparr>xYieldPending := True\<rparr>))"
proof -
  let ?k' = "(vTaskSuspendAll k)\<lparr>errno := ENOMEM\<rparr>"
  have s: "uxSchedulerSuspended ?k' = 1" using assms(1) by (simp add: can_sbrk_def quiet_def vTaskSuspendAll_def)
  have "sbrk incr k = Some (None, ?k')" using assms(2) by (simp add: sbrk_def vTaskSuspendAll_def)
  moreover have "ticks n ?k' = Some (?k'\<lparr>xPendedTicks := xPendedTicks ?k' + of_nat n\<rparr>)" for n
    by (rule ticks_suspended) (simp add: s)
  ultimately show ?thesis using s
    by (intro exI [of _ ?k']) (simp add: vTaskSwitchContext_def, simp add: vTaskSuspendAll_def)
qed

definition demo_sys :: "int \<Rightarrow> sys_kernel" where
  "demo_sys e = tty_kernel.extend (demo_tkernel False) \<lparr>heap_end = e, errno = 0\<rparr>"

lemma demo_sys_ok: "can_sbrk (demo_sys e)" "heap_end (demo_sys e) = e"
  using demo_tkernel_inv [of False] demo_tkernel_fields(1,2) [of False]
  by (simp_all add: can_sbrk_def demo_sys_def tty_kernel.defs inv_defs lists_ok_def ready_ok_def delayed_ok_def
      quiet_def pending_def)

theorem sbrk_blocks_adjacent_witness:
  "\<exists>k'. sbrk_all [16, 0, 100] (demo_sys 1000) = Some ([Some 1000, Some 1016, Some 1016], k') \<and> heap_end k' = 1116"
  using sbrk_blocks_adjacent [of "demo_sys 1000" "[16, 0, 100]"] by (auto simp: demo_sys_ok HEAP_SIZE_def upt_rec)

theorem sbrk_nomem_suspends_witness:
  "\<exists>k'. sbrk 1000 (demo_sys 65000) = Some (None, k') \<and> uxSchedulerSuspended k' = 1"
  using sbrk_nomem_suspends [of "demo_sys 65000" 1000] by (auto simp: demo_sys_ok HEAP_SIZE_def)

end
