(* ===== verification/Kernel_Notify.thy ===== *)
theory Kernel_Notify
  imports Scheduler_Ops
begin

text \<open>
  Direct-to-task notifications, the last part of \<open>FreeRTOS/tasks.c\<close>. The configuration has one notification
  per task, so every index is 0. A waiting call is two critical sections: the first may block the task,
  the second runs when the task runs again.
\<close>

section \<open>The operations\<close>

datatype eNotifyAction = eNoAction | eSetBits | eIncrement | eSetValueWithOverwrite | eSetValueWithoutOverwrite

definition configTASK_NOTIFICATION_ARRAY_ENTRIES :: UBaseType_t where
  "configTASK_NOTIFICATION_ARRAY_ENTRIES = 1"

text \<open>The \<open>switch\<close> on the action: the new value and the result of the call.\<close>

definition notify_value :: "eNotifyAction \<Rightarrow> u32 \<Rightarrow> notify_state \<Rightarrow> u32 \<Rightarrow> u32 \<times> bool" where
  "notify_value eAction ulValue original v =
     (case eAction of
        eSetBits \<Rightarrow> (v OR ulValue, True)
      | eIncrement \<Rightarrow> (v + 1, True)
      | eSetValueWithOverwrite \<Rightarrow> (ulValue, True)
      | eSetValueWithoutOverwrite \<Rightarrow> if original \<noteq> taskNOTIFICATION_RECEIVED then (ulValue, True) else (v, False)
      | eNoAction \<Rightarrow> (v, True))"

definition notified :: "eNotifyAction \<Rightarrow> u32 \<Rightarrow> tcb \<Rightarrow> tcb" where
  "notified eAction ulValue b = b\<lparr>ucNotifyState := taskNOTIFICATION_RECEIVED,
     ulNotifiedValue := fst (notify_value eAction ulValue (ucNotifyState b) (ulNotifiedValue b))\<rparr>"

text \<open>The result has the previous value as well, which the caller gets through a pointer.\<close>

definition xTaskGenericNotify ::
  "tid \<Rightarrow> UBaseType_t \<Rightarrow> u32 \<Rightarrow> eNotifyAction \<Rightarrow> 'z kernel_scheme \<Rightarrow> ((bool \<times> u32) \<times> 'z kernel_scheme) option" where
  "xTaskGenericNotify t uxIndexToNotify ulValue eAction k = do {
     configASSERT (uxIndexToNotify < configTASK_NOTIFICATION_ARRAY_ENTRIES);
     let previous = ulNotifiedValue (tcbs k t);
     let original = ucNotifyState (tcbs k t);
     let xReturn = snd (notify_value eAction ulValue original previous);
     let k = upd_tcb t (notified eAction ulValue) k;
     k \<leftarrow> (if original = taskWAITING_NOTIFICATION then do {
              k \<leftarrow> remove_state_item t k;
              k \<leftarrow> prvAddTaskToReadyList t k;
              configASSERT (event_list (tcbs k t) = None);
              c \<leftarrow> pxCurrentTCB k;
              Some (if prio k t > prio k c then portYIELD k else k)
            } else Some k);
     Some ((xReturn, previous), k)
   }"

definition wake_from_isr :: "tid \<Rightarrow> bool \<Rightarrow> 'z kernel_scheme \<Rightarrow> (bool \<times> 'z kernel_scheme) option" where
  "wake_from_isr t woken k = do {
     configASSERT (event_list (tcbs k t) = None);
     k \<leftarrow> (if uxSchedulerSuspended k = 0 then do {
              k \<leftarrow> remove_state_item t k;
              prvAddTaskToReadyList t k
            } else Some (insert_end_event PendingReadyList t k));
     c \<leftarrow> pxCurrentTCB k;
     Some (if prio k t > prio k c then (True, k\<lparr>xYieldPending := True\<rparr>) else (woken, k))
   }"

definition xTaskGenericNotifyFromISR ::
  "tid \<Rightarrow> UBaseType_t \<Rightarrow> u32 \<Rightarrow> eNotifyAction \<Rightarrow> bool \<Rightarrow> 'z kernel_scheme \<Rightarrow> ((bool \<times> u32) \<times> bool \<times> 'z kernel_scheme) option" where
  "xTaskGenericNotifyFromISR t uxIndexToNotify ulValue eAction woken k = do {
     configASSERT (uxIndexToNotify < configTASK_NOTIFICATION_ARRAY_ENTRIES);
     let previous = ulNotifiedValue (tcbs k t);
     let original = ucNotifyState (tcbs k t);
     let xReturn = snd (notify_value eAction ulValue original previous);
     let k = upd_tcb t (notified eAction ulValue) k;
     (woken, k) \<leftarrow> (if original = taskWAITING_NOTIFICATION then wake_from_isr t woken k else Some (woken, k));
     Some ((xReturn, previous), woken, k)
   }"

definition vTaskGenericNotifyGiveFromISR ::
  "tid \<Rightarrow> UBaseType_t \<Rightarrow> bool \<Rightarrow> 'z kernel_scheme \<Rightarrow> (bool \<times> 'z kernel_scheme) option" where
  "vTaskGenericNotifyGiveFromISR t uxIndexToNotify woken k = do {
     configASSERT (uxIndexToNotify < configTASK_NOTIFICATION_ARRAY_ENTRIES);
     let original = ucNotifyState (tcbs k t);
     let k = upd_tcb t (\<lambda>b. b\<lparr>ucNotifyState := taskNOTIFICATION_RECEIVED, ulNotifiedValue := ulNotifiedValue b + 1\<rparr>) k;
     (if original = taskWAITING_NOTIFICATION then wake_from_isr t woken k else Some (woken, k))
   }"

text \<open>
  \<open>ulTaskGenericNotifyTake\<close>: the section before the task may block (the boolean says whether it is blocked)
  and the section after.
\<close>

definition notify_take_enter :: "UBaseType_t \<Rightarrow> TickType_t \<Rightarrow> 'z kernel_scheme \<Rightarrow> (bool \<times> 'z kernel_scheme) option" where
  "notify_take_enter uxIndexToWait xTicksToWait k = do {
     configASSERT (uxIndexToWait < configTASK_NOTIFICATION_ARRAY_ENTRIES);
     c \<leftarrow> pxCurrentTCB k;
     if ulNotifiedValue (tcbs k c) = 0 then do {
       let k = upd_tcb c (\<lambda>b. b\<lparr>ucNotifyState := taskWAITING_NOTIFICATION\<rparr>) k;
       if xTicksToWait > 0 then do {
         k \<leftarrow> prvAddCurrentTaskToDelayedList xTicksToWait True k;
         Some (True, portYIELD k)
       } else Some (False, k)
     } else Some (False, k)
   }"

definition notify_take_exit :: "bool \<Rightarrow> 'z kernel_scheme \<Rightarrow> (u32 \<times> 'z kernel_scheme) option" where
  "notify_take_exit xClearCountOnExit k = do {
     c \<leftarrow> pxCurrentTCB k;
     let ulReturn = ulNotifiedValue (tcbs k c);
     Some (ulReturn, upd_tcb c (\<lambda>b. b\<lparr>
        ulNotifiedValue := (if ulReturn \<noteq> 0 then if xClearCountOnExit then 0 else ulReturn - 1 else ulReturn),
        ucNotifyState := taskNOT_WAITING_NOTIFICATION\<rparr>) k)
   }"

definition ulTaskGenericNotifyTake ::
  "UBaseType_t \<Rightarrow> bool \<Rightarrow> TickType_t \<Rightarrow> 'z kernel_scheme \<Rightarrow> (u32 option \<times> 'z kernel_scheme) option" where
  "ulTaskGenericNotifyTake uxIndexToWait xClearCountOnExit xTicksToWait k = do {
     (blocked, k) \<leftarrow> notify_take_enter uxIndexToWait xTicksToWait k;
     if blocked then Some (None, k)
     else do { (r, k) \<leftarrow> notify_take_exit xClearCountOnExit k; Some (Some r, k) }
   }"

definition notify_wait_enter :: "UBaseType_t \<Rightarrow> u32 \<Rightarrow> TickType_t \<Rightarrow> 'z kernel_scheme \<Rightarrow> (bool \<times> 'z kernel_scheme) option" where
  "notify_wait_enter uxIndexToWait ulBitsToClearOnEntry xTicksToWait k = do {
     configASSERT (uxIndexToWait < configTASK_NOTIFICATION_ARRAY_ENTRIES);
     c \<leftarrow> pxCurrentTCB k;
     if ucNotifyState (tcbs k c) \<noteq> taskNOTIFICATION_RECEIVED then do {
       let k = upd_tcb c (\<lambda>b. b\<lparr>ulNotifiedValue := ulNotifiedValue b AND NOT ulBitsToClearOnEntry,
                              ucNotifyState := taskWAITING_NOTIFICATION\<rparr>) k;
       if xTicksToWait > 0 then do {
         k \<leftarrow> prvAddCurrentTaskToDelayedList xTicksToWait True k;
         Some (True, portYIELD k)
       } else Some (False, k)
     } else Some (False, k)
   }"

text \<open>The result is the return value and the notification value.\<close>

definition notify_wait_exit :: "u32 \<Rightarrow> 'z kernel_scheme \<Rightarrow> ((bool \<times> u32) \<times> 'z kernel_scheme) option" where
  "notify_wait_exit ulBitsToClearOnExit k = do {
     c \<leftarrow> pxCurrentTCB k;
     let v = ulNotifiedValue (tcbs k c);
     let xReturn = (ucNotifyState (tcbs k c) = taskNOTIFICATION_RECEIVED);
     Some ((xReturn, v), upd_tcb c (\<lambda>b. b\<lparr>
        ulNotifiedValue := (if xReturn then v AND NOT ulBitsToClearOnExit else v),
        ucNotifyState := taskNOT_WAITING_NOTIFICATION\<rparr>) k)
   }"

definition xTaskGenericNotifyWait ::
  "UBaseType_t \<Rightarrow> u32 \<Rightarrow> u32 \<Rightarrow> TickType_t \<Rightarrow> 'z kernel_scheme \<Rightarrow> ((bool \<times> u32) option \<times> 'z kernel_scheme) option" where
  "xTaskGenericNotifyWait uxIndexToWait ulBitsToClearOnEntry ulBitsToClearOnExit xTicksToWait k = do {
     (blocked, k) \<leftarrow> notify_wait_enter uxIndexToWait ulBitsToClearOnEntry xTicksToWait k;
     if blocked then Some (None, k)
     else do { (r, k) \<leftarrow> notify_wait_exit ulBitsToClearOnExit k; Some (Some r, k) }
   }"

definition xTaskGenericNotifyStateClear ::
  "tid option \<Rightarrow> UBaseType_t \<Rightarrow> 'z kernel_scheme \<Rightarrow> (bool \<times> 'z kernel_scheme) option" where
  "xTaskGenericNotifyStateClear xTask uxIndexToClear k = do {
     configASSERT (uxIndexToClear < configTASK_NOTIFICATION_ARRAY_ENTRIES);
     t \<leftarrow> get_tcb xTask k;
     Some (if ucNotifyState (tcbs k t) = taskNOTIFICATION_RECEIVED
           then (True, upd_tcb t (\<lambda>b. b\<lparr>ucNotifyState := taskNOT_WAITING_NOTIFICATION\<rparr>) k)
           else (False, k))
   }"

definition ulTaskGenericNotifyValueClear ::
  "tid option \<Rightarrow> UBaseType_t \<Rightarrow> u32 \<Rightarrow> 'z kernel_scheme \<Rightarrow> (u32 \<times> 'z kernel_scheme) option" where
  "ulTaskGenericNotifyValueClear xTask uxIndexToClear ulBitsToClear k = do {
     t \<leftarrow> get_tcb xTask k;
     Some (ulNotifiedValue (tcbs k t),
           upd_tcb t (\<lambda>b. b\<lparr>ulNotifiedValue := ulNotifiedValue b AND NOT ulBitsToClear\<rparr>) k)
   }"

section \<open>Notifications and the scheduler\<close>

lemma notified_simps [simp]:
  "uxPriority (notified a v b) = uxPriority b" "state_list (notified a v b) = state_list b"
  "event_list (notified a v b) = event_list b" "state_value (notified a v b) = state_value b"
  "uxMutexesHeld (notified a v b) = uxMutexesHeld b" "uxBasePriority (notified a v b) = uxBasePriority b"
  "ucNotifyState (notified a v b) = taskNOTIFICATION_RECEIVED"
  "ulNotifiedValue (notified a v b) = fst (notify_value a v (ucNotifyState b) (ulNotifiedValue b))"
  by (simp_all add: notified_def)

lemma wake_tcb_notify [simp]:
  "ucNotifyState (wake_tcb b) = ucNotifyState b" "ulNotifiedValue (wake_tcb b) = ulNotifiedValue b"
  by (simp_all add: wake_tcb_def)

text \<open>Changes of a control block that the scheduler does not see.\<close>

definition keeps_sched :: "(tcb \<Rightarrow> tcb) \<Rightarrow> bool" where
  "keeps_sched f \<longleftrightarrow> (\<forall>b. uxPriority (f b) = uxPriority b \<and> uxBasePriority (f b) = uxBasePriority b \<and>
     state_list (f b) = state_list b \<and> event_list (f b) = event_list b \<and> state_value (f b) = state_value b)"

lemma keeps_schedI [simp]:
  "keeps_sched (\<lambda>b. b\<lparr>ucNotifyState := g b\<rparr>)" "keeps_sched (\<lambda>b. b\<lparr>ulNotifiedValue := h b\<rparr>)"
  "keeps_sched (\<lambda>b. b\<lparr>ulNotifiedValue := h b, ucNotifyState := g b\<rparr>)"
  "keeps_sched (\<lambda>b. b\<lparr>ucNotifyState := g b, ulNotifiedValue := h b\<rparr>)" "keeps_sched (notified a v)"
  by (simp_all add: keeps_sched_def notified_def)

lemma upd_tcb_fields [simp]:
  "pxCurrentTCB (upd_tcb t f k) = pxCurrentTCB k" "task_lists (upd_tcb t f k) = task_lists k"
  "tcbs (upd_tcb t f k) = (tcbs k)(t := f (tcbs k t))" "uxSchedulerSuspended (upd_tcb t f k) = uxSchedulerSuspended k"
  "xTickCount (upd_tcb t f k) = xTickCount k" "kernel.more (upd_tcb t f k) = kernel.more k"
  "pendsv (upd_tcb t f k) = pendsv k" "xYieldPending (upd_tcb t f k) = xYieldPending k"
  "uxCurrentNumberOfTasks (upd_tcb t f k) = uxCurrentNumberOfTasks k" "xPendedTicks (upd_tcb t f k) = xPendedTicks k"
  "pxDelayedTaskList (upd_tcb t f k) = pxDelayedTaskList k"
  "pxOverflowDelayedTaskList (upd_tcb t f k) = pxOverflowDelayedTaskList k"
  "xNumOfOverflows (upd_tcb t f k) = xNumOfOverflows k" "xSchedulerRunning (upd_tcb t f k) = xSchedulerRunning k"
  by (simp_all add: upd_tcb_def)

lemma sched_inv_keeps:
  assumes "keeps_sched f"
  shows "sched_inv (upd_tcb t f k) = sched_inv k"
proof -
  let ?k = "upd_tcb t f k"
  have f: "\<And>u. uxPriority (tcbs ?k u) = prio k u" "\<And>u. uxBasePriority (tcbs ?k u) = uxBasePriority (tcbs k u)"
    "\<And>u. state_list (tcbs ?k u) = state_list (tcbs k u)" "\<And>u. event_list (tcbs ?k u) = event_list (tcbs k u)"
    "\<And>u. state_value (tcbs ?k u) = state_value (tcbs k u)"
    using assms by (auto simp: keeps_sched_def)
  have g: "task_lists ?k = task_lists k" "uxTopReadyPriority ?k = uxTopReadyPriority k"
    by (auto simp: upd_tcb_def)
  show ?thesis
    unfolding sched_inv_def list_inv_def lists_ok_def ready_ok_def delayed_ok_def no_due_def waiters_ok_def f g
    by simp
qed

text \<open>Readying a blocked task that is on no event list.\<close>

lemma ready_blocked:
  assumes "sched_inv k" "state_list (tcbs k t) = Some l" "event_list (tcbs k t) = None"
  obtains k1 k' where "remove_state_item t k = Some k1" "prvAddTaskToReadyList t k1 = Some k'" "sched_inv k'"
    "tcbs k' = (tcbs k)(t := wake_tcb (tcbs k t))" "same_clock k k'" "kernel.more k' = kernel.more k"
    "\<And>l'. is_event_list l' \<Longrightarrow> task_lists k' l' = task_lists k l'"
proof -
  obtain k1 k2 where w: "remove_state_item t k = Some k1" "prvAddTaskToReadyList t k1 = Some k2"
    "list_inv k2" "same_clock k k2" "kernel.more k2 = kernel.more k"
    "tcbs k2 = (tcbs k)(t := (tcbs k t)\<lparr>state_list := Some (Ready (prio k t))\<rparr>)"
    "\<And>l'. l' \<noteq> l \<Longrightarrow> l' \<noteq> Ready (prio k t) \<Longrightarrow> task_lists k2 l' = task_lists k l'"
    by (rule to_ready [OF sched_inv_parts(1) [OF assms(1)] assms(2)], rule that)
  have "(tcbs k t)\<lparr>state_list := Some (Ready (prio k t))\<rparr> = wake_tcb (tcbs k t)"
    using assms(3) by (simp add: wake_tcb_def)
  then have t: "tcbs k2 = (tcbs k)(t := wake_tcb (tcbs k t))" using w(6) by simp
  have "\<not> is_event_list l" using lists_ok_state [OF sched_inv_parts(3) [OF assms(1)] assms(2)] .
  then have "task_lists k2 l' = task_lists k l'" if "is_event_list l'" for l' using w(7) that by fastforce
  then show thesis using that w(1,2,4,5) t sched_inv_wake [OF assms(1) w(3,4) t] by blast
qed

text \<open>A task that waits for a notification is blocked and on no event list.\<close>

definition notify_ok :: "tid \<Rightarrow> 'z kernel_scheme \<Rightarrow> bool" where
  "notify_ok t k \<longleftrightarrow> (ucNotifyState (tcbs k t) = taskWAITING_NOTIFICATION \<longrightarrow>
     state_list (tcbs k t) \<noteq> None \<and> event_list (tcbs k t) = None)"

definition after_notify :: "eNotifyAction \<Rightarrow> u32 \<Rightarrow> tcb \<Rightarrow> tcb" where
  "after_notify a v b = (if ucNotifyState b = taskWAITING_NOTIFICATION then wake_tcb (notified a v b) else notified a v b)"

lemma xTaskGenericNotify_spec:
  assumes "sched_inv k" "pxCurrentTCB k = Some c" "notify_ok t k"
  obtains k' where "xTaskGenericNotify t 0 v a k =
      Some ((snd (notify_value a v (ucNotifyState (tcbs k t)) (ulNotifiedValue (tcbs k t))), ulNotifiedValue (tcbs k t)), k')"
    "sched_inv k'" "tcbs k' = (tcbs k)(t := after_notify a v (tcbs k t))" "kernel.more k' = kernel.more k"
    "pxCurrentTCB k' = Some c" "uxSchedulerSuspended k' = uxSchedulerSuspended k" "xTickCount k' = xTickCount k"
    "pendsv k' \<longleftrightarrow> pendsv k \<or> ucNotifyState (tcbs k t) = taskWAITING_NOTIFICATION \<and> prio k c < prio k t"
    "\<And>l. is_event_list l \<Longrightarrow> task_lists k' l = task_lists k l"
    "uxCurrentNumberOfTasks k' = uxCurrentNumberOfTasks k" "xPendedTicks k' = xPendedTicks k"
proof -
  let ?k = "upd_tcb t (notified a v) k"
  have i: "sched_inv ?k" using assms(1) by (simp add: sched_inv_keeps)
  show thesis
  proof (cases "ucNotifyState (tcbs k t) = taskWAITING_NOTIFICATION")
    case False
    with i assms(2) show thesis
      by (intro that [of ?k]) (simp_all add: xTaskGenericNotify_def configASSERT_def Let_def after_notify_def
          configTASK_NOTIFICATION_ARRAY_ENTRIES_def)
  next
    case True
    then obtain l where l: "state_list (tcbs ?k t) = Some l" "event_list (tcbs ?k t) = None"
      using assms(3) by (auto simp: notify_ok_def notified_def)
    obtain k1 k' where w: "remove_state_item t ?k = Some k1" "prvAddTaskToReadyList t k1 = Some k'" "sched_inv k'"
      "tcbs k' = (tcbs ?k)(t := wake_tcb (tcbs ?k t))" "same_clock ?k k'" "kernel.more k' = kernel.more ?k"
      "\<And>l'. is_event_list l' \<Longrightarrow> task_lists k' l' = task_lists ?k l'"
      by (rule ready_blocked [OF i l], rule that)
    note clk = same_clockD [OF w(5)]
    let ?k' = "if prio k c < prio k t then portYIELD k' else k'"
    have p: "prio k' u = prio k u" for u by (simp add: w(4) notified_def)
    have "pendsv k' = pendsv k" "uxCurrentNumberOfTasks k' = uxCurrentNumberOfTasks k" "xPendedTicks k' = xPendedTicks k"
      "uxSchedulerSuspended k' = uxSchedulerSuspended k" "xTickCount k' = xTickCount k" "pxCurrentTCB k' = Some c"
      using w(5) assms(2) by (simp_all add: same_clock_def)
    with w p True show thesis
      by (intro that [of ?k'])
        (auto simp: xTaskGenericNotify_def configASSERT_def Let_def configTASK_NOTIFICATION_ARRAY_ENTRIES_def
          after_notify_def portYIELD_def)
  qed
qed

lemma xTaskGenericNotifyFromISR_spec:
  assumes "sched_inv k" "pxCurrentTCB k = Some c" "notify_ok t k" "quiet k"
  obtains r k' where "xTaskGenericNotifyFromISR t 0 v a w k =
      Some (r, w \<or> ucNotifyState (tcbs k t) = taskWAITING_NOTIFICATION \<and> prio k c < prio k t, k')"
    "sched_inv k'" "tcbs k' = (tcbs k)(t := after_notify a v (tcbs k t))" "kernel.more k' = kernel.more k"
    "pxCurrentTCB k' = Some c" "quiet k'" "uxCurrentNumberOfTasks k' = uxCurrentNumberOfTasks k" "xTickCount k' = xTickCount k"
proof -
  let ?k = "upd_tcb t (notified a v) k"
  have i: "sched_inv ?k" using assms(1) by (simp add: sched_inv_keeps)
  have q: "uxSchedulerSuspended k = 0" "xPendedTicks k = 0" "\<And>u. event_list (tcbs k u) \<noteq> Some PendingReadyList"
    using assms(4) by (auto simp: quiet_def pending_def)
  show thesis
  proof (cases "ucNotifyState (tcbs k t) = taskWAITING_NOTIFICATION")
    case False
    with i assms(2) q show thesis
      by (intro that [of _ ?k]) (simp_all add: xTaskGenericNotifyFromISR_def configASSERT_def Let_def after_notify_def
          configTASK_NOTIFICATION_ARRAY_ENTRIES_def quiet_def pending_def)
  next
    case True
    then obtain l where l: "state_list (tcbs ?k t) = Some l" "event_list (tcbs ?k t) = None"
      using assms(3) by (auto simp: notify_ok_def notified_def)
    obtain k1 k' where w: "remove_state_item t ?k = Some k1" "prvAddTaskToReadyList t k1 = Some k'" "sched_inv k'"
      "tcbs k' = (tcbs ?k)(t := wake_tcb (tcbs ?k t))" "same_clock ?k k'" "kernel.more k' = kernel.more ?k"
      "\<And>l'. is_event_list l' \<Longrightarrow> task_lists k' l' = task_lists ?k l'"
      by (rule ready_blocked [OF i l], rule that)
    let ?k' = "if prio k c < prio k t then k'\<lparr>xYieldPending := True\<rparr> else k'"
    have p: "prio k' u = prio k u" for u by (simp add: w(4) notified_def)
    have f: "uxCurrentNumberOfTasks k' = uxCurrentNumberOfTasks k" "xPendedTicks k' = xPendedTicks k"
      "uxSchedulerSuspended k' = uxSchedulerSuspended k" "xTickCount k' = xTickCount k" "pxCurrentTCB k' = Some c"
      using w(5) assms(2) by (simp_all add: same_clock_def)
    have "\<not> pending ?k' u" for u using q(3) l(2) by (simp add: pending_def w(4) wake_tcb_def)
    then have "quiet ?k'" using q f by (simp add: quiet_def)
    with w p f l(2) q(1) True show thesis
      by (intro that [of _ ?k'])
        (auto simp: xTaskGenericNotifyFromISR_def wake_from_isr_def configASSERT_def Let_def
          configTASK_NOTIFICATION_ARRAY_ENTRIES_def after_notify_def)
  qed
qed

text \<open>The running task blocks until it is notified or the time is over.\<close>

lemma block_for_notification:
  assumes "sched_inv k" "pxCurrentTCB k = Some c" "state_list (tcbs k c) = Some l" "n \<noteq> 0" "keeps_sched f"
  obtains k' where "prvAddCurrentTaskToDelayedList n True (upd_tcb c f k) = Some k'" "sched_inv k'"
    "tcbs k' = (tcbs k)(c := parked n True k (f (tcbs k c)))" "pxCurrentTCB k' = Some c" "kernel.more k' = kernel.more k"
    "xTickCount k' = xTickCount k" "uxSchedulerSuspended k' = uxSchedulerSuspended k"
    "pxDelayedTaskList k' = pxDelayedTaskList k" "pxOverflowDelayedTaskList k' = pxOverflowDelayedTaskList k"
    "xPendedTicks k' = xPendedTicks k" "uxCurrentNumberOfTasks k' = uxCurrentNumberOfTasks k"
proof -
  let ?k = "upd_tcb c f k"
  have i: "sched_inv ?k" using assms(1,5) by (simp add: sched_inv_keeps)
  have l: "state_list (tcbs ?k c) = Some l" "pxCurrentTCB ?k = Some c"
    using assms(2,3,5) by (simp_all add: keeps_sched_def)
  obtain k' where d: "prvAddCurrentTaskToDelayedList n True ?k = Some k'" "sched_inv k'"
    "tcbs k' = (tcbs ?k)(c := parked n True ?k (tcbs ?k c))"
    "same_clock ?k (k'\<lparr>xNextTaskUnblockTime := xNextTaskUnblockTime ?k\<rparr>)" "kernel.more k' = kernel.more ?k"
    by (rule delay_current [OF sched_inv_parts(1) [OF i] l(2,1) assms(4) sched_inv_parts(2) [OF i]
          sched_inv_parts(6) [OF i], of True]) blast+
  have "parked n True ?k b = parked n True k b" for b by (simp add: parked_def)
  with d assms(2) show thesis by (intro that [of k']) (simp_all add: same_clock_def)
qed

lemma sched_inv_current [simp]: "sched_inv (k\<lparr>pxCurrentTCB := x\<rparr>) = sched_inv k"
  by (simp add: inv_defs lists_ok_def ready_ok_def delayed_ok_def)

lemma parked_notify [simp]:
  "ucNotifyState (parked n b k x) = ucNotifyState x" "ulNotifiedValue (parked n b k x) = ulNotifiedValue x"
  "event_list (parked n b k x) = event_list x" "uxPriority (parked n b k x) = uxPriority x"
  "\<exists>l. state_list (parked n b k x) = Some l"
  by (auto simp: parked_def)

lemma notify_value_ok: "s \<noteq> taskNOTIFICATION_RECEIVED \<Longrightarrow> snd (notify_value a v s w)"
  by (cases a) (simp_all add: notify_value_def)

text \<open>The two orders of a wait and a notification.\<close>

lemma wait_then_notify:
  assumes "sched_inv k" "pxCurrentTCB k = Some c" "state_list (tcbs k c) = Some (Ready (prio k c))"
    "ucNotifyState (tcbs k c) = taskNOT_WAITING_NOTIFICATION" "n > 0" "d \<noteq> c"
  shows "\<exists>k1 k2 k3. xTaskGenericNotifyWait 0 0 x n k = Some (None, k1) \<and>
      (if n = portMAX_DELAY then state_list (tcbs k1 c) = Some SuspendedTaskList
       else blocked k1 c \<and> remaining k1 c = unat n) \<and>
      xTaskGenericNotify c 0 v a (k1\<lparr>pxCurrentTCB := Some d\<rparr>) = Some ((True, ulNotifiedValue (tcbs k c)), k2) \<and>
      sched_inv k2 \<and> state_list (tcbs k2 c) = Some (Ready (prio k c)) \<and>
      notify_wait_exit x (k2\<lparr>pxCurrentTCB := Some c\<rparr>) =
        Some ((True, fst (notify_value a v taskWAITING_NOTIFICATION (ulNotifiedValue (tcbs k c)))), k3) \<and>
      ucNotifyState (tcbs k3 c) = taskNOT_WAITING_NOTIFICATION"
proof -
  let ?f = "\<lambda>b :: tcb. b\<lparr>ulNotifiedValue := ulNotifiedValue b AND NOT 0, ucNotifyState := taskWAITING_NOTIFICATION\<rparr>"
  have ev: "event_list (tcbs k c) = None"
    using sched_inv_parts(6) [OF assms(1), of c] assms(3) by (cases "event_list (tcbs k c)") auto
  have "n \<noteq> 0" "keeps_sched ?f" using assms(5) by (simp_all add: word_gt_0)
  then obtain k0 where b: "prvAddCurrentTaskToDelayedList n True (upd_tcb c ?f k) = Some k0" "sched_inv k0"
    "tcbs k0 = (tcbs k)(c := parked n True k (?f (tcbs k c)))" "pxCurrentTCB k0 = Some c" "kernel.more k0 = kernel.more k"
    "xTickCount k0 = xTickCount k" "uxSchedulerSuspended k0 = uxSchedulerSuspended k"
    "pxDelayedTaskList k0 = pxDelayedTaskList k" "pxOverflowDelayedTaskList k0 = pxOverflowDelayedTaskList k"
    "xPendedTicks k0 = xPendedTicks k" "uxCurrentNumberOfTasks k0 = uxCurrentNumberOfTasks k"
    by (rule block_for_notification [OF assms(1-3)])
  define k1 where "k1 = portYIELD k0"
  have w: "xTaskGenericNotifyWait 0 0 x n k = Some (None, k1)"
    using assms(2,4,5) b(1)
    by (simp add: xTaskGenericNotifyWait_def notify_wait_enter_def configASSERT_def configTASK_NOTIFICATION_ARRAY_ENTRIES_def k1_def)
  have t1: "tcbs k1 c = parked n True k (?f (tcbs k c))" by (simp add: k1_def portYIELD_def b(3))
  have bl: "if n = portMAX_DELAY then state_list (tcbs k1 c) = Some SuspendedTaskList
       else blocked k1 c \<and> remaining k1 c = unat n"
    using delayed_lists_distinct [OF sched_inv_parts(4) [OF assms(1)]]
    by (auto simp: k1_def portYIELD_def b(3,6,8,9) parked_def blocked_def remaining_def)
  let ?k = "k1\<lparr>pxCurrentTCB := Some d\<rparr>"
  have p: "sched_inv ?k" "pxCurrentTCB ?k = Some d" "notify_ok c ?k"
    using b(2) ev t1 by (auto simp: k1_def notify_ok_def portYIELD_def b(3))
  obtain k2 where n: "xTaskGenericNotify c 0 v a ?k =
      Some ((snd (notify_value a v (ucNotifyState (tcbs ?k c)) (ulNotifiedValue (tcbs ?k c))), ulNotifiedValue (tcbs ?k c)), k2)"
    "sched_inv k2" "tcbs k2 = (tcbs ?k)(c := after_notify a v (tcbs ?k c))"
    by (rule xTaskGenericNotify_spec [OF p]) blast
  have c1: "ucNotifyState (tcbs ?k c) = taskWAITING_NOTIFICATION" "ulNotifiedValue (tcbs ?k c) = ulNotifiedValue (tcbs k c)"
    "prio ?k c = prio k c"
    by (simp_all add: t1)
  have "state_list (tcbs k2 c) = Some (Ready (prio k c))" "ucNotifyState (tcbs k2 c) = taskNOTIFICATION_RECEIVED"
    "ulNotifiedValue (tcbs k2 c) = fst (notify_value a v taskWAITING_NOTIFICATION (ulNotifiedValue (tcbs k c)))"
    using c1 by (simp_all add: n(3) after_notify_def)
  then show ?thesis
    using w bl n(1,2) c1 notify_value_ok [of taskWAITING_NOTIFICATION a v] by (auto simp: notify_wait_exit_def Let_def)
qed

lemma notify_then_wait:
  assumes "sched_inv k" "state_list (tcbs k c) = Some (Ready (prio k c))"
    "ucNotifyState (tcbs k c) = taskNOT_WAITING_NOTIFICATION"
  shows "\<exists>k1 k2. xTaskGenericNotify c 0 v a (k\<lparr>pxCurrentTCB := Some d\<rparr>) = Some ((True, ulNotifiedValue (tcbs k c)), k1) \<and>
      xTaskGenericNotifyWait 0 0 x n (k1\<lparr>pxCurrentTCB := Some c\<rparr>) =
        Some (Some (True, fst (notify_value a v taskNOT_WAITING_NOTIFICATION (ulNotifiedValue (tcbs k c)))), k2) \<and>
      sched_inv k2 \<and> state_list (tcbs k2 c) = Some (Ready (prio k c)) \<and> ucNotifyState (tcbs k2 c) = taskNOT_WAITING_NOTIFICATION"
proof -
  let ?k = "k\<lparr>pxCurrentTCB := Some d\<rparr>"
  have p: "sched_inv ?k" "pxCurrentTCB ?k = Some d" "notify_ok c ?k" using assms by (simp_all add: notify_ok_def)
  obtain k1 where n: "xTaskGenericNotify c 0 v a ?k =
      Some ((snd (notify_value a v (ucNotifyState (tcbs ?k c)) (ulNotifiedValue (tcbs ?k c))), ulNotifiedValue (tcbs ?k c)), k1)"
    "sched_inv k1" "tcbs k1 = (tcbs ?k)(c := after_notify a v (tcbs ?k c))"
    by (rule xTaskGenericNotify_spec [OF p]) blast
  have t1: "tcbs k1 c = notified a v (tcbs k c)" using assms(3) by (simp add: n(3) after_notify_def)
  let ?g = "\<lambda>b :: tcb. b\<lparr>ulNotifiedValue := ulNotifiedValue (tcbs k1 c) AND NOT x, ucNotifyState := taskNOT_WAITING_NOTIFICATION\<rparr>"
  have "xTaskGenericNotifyWait 0 0 x n (k1\<lparr>pxCurrentTCB := Some c\<rparr>) =
      Some (Some (True, ulNotifiedValue (tcbs k1 c)), upd_tcb c ?g (k1\<lparr>pxCurrentTCB := Some c\<rparr>))"
    by (simp add: xTaskGenericNotifyWait_def notify_wait_enter_def notify_wait_exit_def configASSERT_def
        configTASK_NOTIFICATION_ARRAY_ENTRIES_def t1 Let_def)
  moreover have "sched_inv (upd_tcb c ?g (k1\<lparr>pxCurrentTCB := Some c\<rparr>))" using n(2) by (simp add: sched_inv_keeps)
  ultimately show ?thesis
    using n(1) assms(2,3) notify_value_ok [of taskNOT_WAITING_NOTIFICATION a v] by (simp add: t1)
qed

section \<open>Properties\<close>

text \<open>
  C21. A notification is not lost, whichever of waiter and notifier comes first. If the task waits first it
  is blocked, for exactly the time it gave or without limit, and the notification of another task makes
  it ready; if the notification comes first the wait does not block. Both times the wait returns success
  and the value that the notification left.
\<close>

theorem notification_not_lost:
  assumes "sched_inv k" "pxCurrentTCB k = Some c" "state_list (tcbs k c) = Some (Ready (prio k c))"
    "ucNotifyState (tcbs k c) = taskNOT_WAITING_NOTIFICATION" "n > 0" "d \<noteq> c"
  shows "(\<exists>k1 k2 k3. xTaskGenericNotifyWait 0 0 x n k = Some (None, k1) \<and>
      (if n = portMAX_DELAY then state_list (tcbs k1 c) = Some SuspendedTaskList
       else blocked k1 c \<and> remaining k1 c = unat n) \<and>
      xTaskGenericNotify c 0 v a (k1\<lparr>pxCurrentTCB := Some d\<rparr>) = Some ((True, ulNotifiedValue (tcbs k c)), k2) \<and>
      sched_inv k2 \<and> state_list (tcbs k2 c) = Some (Ready (prio k c)) \<and>
      notify_wait_exit x (k2\<lparr>pxCurrentTCB := Some c\<rparr>) =
        Some ((True, fst (notify_value a v taskWAITING_NOTIFICATION (ulNotifiedValue (tcbs k c)))), k3) \<and>
      ucNotifyState (tcbs k3 c) = taskNOT_WAITING_NOTIFICATION) \<and>
    (\<exists>k1 k2. xTaskGenericNotify c 0 v a (k\<lparr>pxCurrentTCB := Some d\<rparr>) = Some ((True, ulNotifiedValue (tcbs k c)), k1) \<and>
      xTaskGenericNotifyWait 0 0 x n (k1\<lparr>pxCurrentTCB := Some c\<rparr>) =
        Some (Some (True, fst (notify_value a v taskNOT_WAITING_NOTIFICATION (ulNotifiedValue (tcbs k c)))), k2) \<and>
      sched_inv k2 \<and> state_list (tcbs k2 c) = Some (Ready (prio k c)) \<and> ucNotifyState (tcbs k2 c) = taskNOT_WAITING_NOTIFICATION)"
  using wait_then_notify [OF assms] notify_then_wait [OF assms(1,3,4)] by blast

theorem notification_not_lost_witness:
  "\<exists>k1 k2 k3. xTaskGenericNotifyWait 0 0 0 7 (demo_kernel 0 None) = Some (None, k1) \<and> remaining k1 1 = 7 \<and>
    xTaskGenericNotify 1 0 0x10 eSetBits (k1\<lparr>pxCurrentTCB := Some 0\<rparr>) = Some ((True, 0), k2) \<and>
    notify_wait_exit 0 (k2\<lparr>pxCurrentTCB := Some 1\<rparr>) = Some ((True, 0x10), k3)"
proof -
  let ?k = "demo_kernel 0 None"
  have "sched_inv ?k" "pxCurrentTCB ?k = Some 1" "state_list (tcbs ?k 1) = Some (Ready (prio ?k 1))"
    "ucNotifyState (tcbs ?k 1) = taskNOT_WAITING_NOTIFICATION" "(7 :: TickType_t) > 0" "(0 :: tid) \<noteq> 1"
    "ulNotifiedValue (tcbs ?k 1) = 0"
    by (simp_all add: demo_sched_inv demo_kernel_fields del: One_nat_def) (simp_all add: demo_defs)
  from notification_not_lost [OF this(1-6), where x = 0 and v = 16 and a = eSetBits] this(7) show ?thesis
    by (auto simp: portMAX_DELAY_def notify_value_def simp del: One_nat_def)
qed

end
