(* ===== verification/Stream_Buffer.thy ===== *)
theory Stream_Buffer
  imports Kernel_Notify Ring
begin

text \<open>
  Stream and message buffers, \<open>FreeRTOS/stream_buffer.c\<close>: a ring of bytes with one writer and one reader,
  which wake each other by task notifications. A blocking call is a sequence of steps between its
  program points, so that interrupts and other tasks can run in between.
\<close>

section \<open>State\<close>

record StreamBuffer_t =
  xTail :: u32
  xHead :: u32
  xLength :: u32
  xTriggerLevelBytes :: u32
  xTaskWaitingToReceive :: "tid option"
  xTaskWaitingToSend :: "tid option"
  pucBuffer :: "u8 list"
  ucFlags :: u8
  uxStreamBufferNumber :: UBaseType_t

record skernel = kernel +
  streams :: "nat \<Rightarrow> StreamBuffer_t"

definition upd_stream :: "nat \<Rightarrow> (StreamBuffer_t \<Rightarrow> StreamBuffer_t) \<Rightarrow> 'z skernel_scheme \<Rightarrow> 'z skernel_scheme" where
  "upd_stream s f k = k\<lparr>streams := (streams k)(s := f (streams k s))\<rparr>"

definition sbBYTES_TO_STORE_MESSAGE_LENGTH :: u32 where "sbBYTES_TO_STORE_MESSAGE_LENGTH = 4"
definition sbFLAGS_IS_MESSAGE_BUFFER :: u8 where "sbFLAGS_IS_MESSAGE_BUFFER = 1"

definition is_message_buffer :: "StreamBuffer_t \<Rightarrow> bool" where
  "is_message_buffer S \<longleftrightarrow> ucFlags S AND sbFLAGS_IS_MESSAGE_BUFFER \<noteq> 0"

section \<open>The ring of bytes\<close>

definition prvBytesInBuffer :: "StreamBuffer_t \<Rightarrow> u32" where
  "prvBytesInBuffer S = (let xCount = xLength S + xHead S - xTail S
     in if xCount \<ge> xLength S then xCount - xLength S else xCount)"

text \<open>The loop of this function runs once when no interrupt moves the tail meanwhile.\<close>

definition xStreamBufferSpacesAvailable :: "StreamBuffer_t \<Rightarrow> u32" where
  "xStreamBufferSpacesAvailable S = (let xSpace = xLength S + xTail S - xHead S - 1
     in if xSpace \<ge> xLength S then xSpace - xLength S else xSpace)"

definition xStreamBufferBytesAvailable :: "StreamBuffer_t \<Rightarrow> u32" where
  "xStreamBufferBytesAvailable S = prvBytesInBuffer S"

definition prvWriteBytesToBuffer :: "u8 list \<Rightarrow> u32 \<Rightarrow> u32 \<Rightarrow> StreamBuffer_t \<Rightarrow> (u32 \<times> StreamBuffer_t) option" where
  "prvWriteBytesToBuffer pucData xCount head S = do {
     configASSERT (xCount > 0);
     let xFirstLength = min (xLength S - head) xCount;
     configASSERT (head + xFirstLength \<le> xLength S);
     d \<leftarrow> read_at 0 (unat xFirstLength) pucData;
     b \<leftarrow> write_at (int (unat head)) d (pucBuffer S);
     b \<leftarrow> (if xCount > xFirstLength then do {
              configASSERT (xCount - xFirstLength \<le> xLength S);
              d \<leftarrow> read_at (int (unat xFirstLength)) (unat (xCount - xFirstLength)) pucData;
              write_at 0 d b
            } else Some b);
     let head = head + xCount;
     Some (if head \<ge> xLength S then head - xLength S else head, S\<lparr>pucBuffer := b\<rparr>)
   }"

definition prvReadBytesFromBuffer :: "u32 \<Rightarrow> u32 \<Rightarrow> StreamBuffer_t \<Rightarrow> (u8 list \<times> u32) option" where
  "prvReadBytesFromBuffer xCount tail S = do {
     configASSERT (xCount \<noteq> 0);
     let xFirstLength = min (xLength S - tail) xCount;
     configASSERT (xFirstLength \<le> xCount);
     configASSERT (tail + xFirstLength \<le> xLength S);
     d \<leftarrow> read_at (int (unat tail)) (unat xFirstLength) (pucBuffer S);
     d \<leftarrow> (if xCount > xFirstLength then do {
              d' \<leftarrow> read_at 0 (unat (xCount - xFirstLength)) (pucBuffer S);
              Some (d @ d')
            } else Some d);
     let tail = tail + xCount;
     Some (d, if tail \<ge> xLength S then tail - xLength S else tail)
   }"

definition prvWriteMessageToBuffer ::
  "u8 list \<Rightarrow> u32 \<Rightarrow> u32 \<Rightarrow> u32 \<Rightarrow> StreamBuffer_t \<Rightarrow> (u32 \<times> StreamBuffer_t) option" where
  "prvWriteMessageToBuffer pvTxData xDataLengthBytes xSpace xRequiredSpace S = do {
     (n, xNextHead, S) \<leftarrow>
       (if is_message_buffer S then
          (if xSpace \<ge> xRequiredSpace then do {
             (h, S) \<leftarrow> prvWriteBytesToBuffer (len_bytes xDataLengthBytes) sbBYTES_TO_STORE_MESSAGE_LENGTH (xHead S) S;
             Some (xDataLengthBytes, h, S)
           } else Some (0, xHead S, S))
        else Some (min xDataLengthBytes xSpace, xHead S, S));
     if n \<noteq> 0 then do {
       (h, S) \<leftarrow> prvWriteBytesToBuffer pvTxData n xNextHead S;
       Some (n, S\<lparr>xHead := h\<rparr>)
     } else Some (n, S)
   }"

text \<open>The result is the bytes stored at \<open>pvRxData\<close>; their number is what the function returns.\<close>

definition prvReadMessageFromBuffer :: "u32 \<Rightarrow> u32 \<Rightarrow> StreamBuffer_t \<Rightarrow> (u8 list \<times> StreamBuffer_t) option" where
  "prvReadMessageFromBuffer xBufferLengthBytes xBytesAvailable S = do {
     (xNextMessageLength, xNextTail, xBytesAvailable) \<leftarrow>
       (if is_message_buffer S then do {
          (b, t) \<leftarrow> prvReadBytesFromBuffer sbBYTES_TO_STORE_MESSAGE_LENGTH (xTail S) S;
          let n = bytes_len b;
          Some (if n > xBufferLengthBytes then 0 else n, t, xBytesAvailable - sbBYTES_TO_STORE_MESSAGE_LENGTH)
        } else Some (xBufferLengthBytes, xTail S, xBytesAvailable));
     let xCount = min xNextMessageLength xBytesAvailable;
     if xCount \<noteq> 0 then do {
       (d, t) \<leftarrow> prvReadBytesFromBuffer xCount xNextTail S;
       Some (d, S\<lparr>xTail := t\<rparr>)
     } else Some ([], S)
   }"

definition xStreamBufferNextMessageLengthBytes :: "StreamBuffer_t \<Rightarrow> u32 option" where
  "xStreamBufferNextMessageLengthBytes S =
     (if is_message_buffer S then
        let xBytesAvailable = prvBytesInBuffer S in
        if xBytesAvailable > sbBYTES_TO_STORE_MESSAGE_LENGTH then do {
          (b, _) \<leftarrow> prvReadBytesFromBuffer sbBYTES_TO_STORE_MESSAGE_LENGTH (xTail S) S;
          Some (bytes_len b)
        } else do { configASSERT (xBytesAvailable = 0); Some 0 }
      else Some 0)"

definition xStreamBufferIsEmpty :: "StreamBuffer_t \<Rightarrow> bool" where
  "xStreamBufferIsEmpty S \<longleftrightarrow> xHead S = xTail S"

definition message_length_bytes :: "StreamBuffer_t \<Rightarrow> u32" where
  "message_length_bytes S = (if is_message_buffer S then sbBYTES_TO_STORE_MESSAGE_LENGTH else 0)"

definition xStreamBufferIsFull :: "StreamBuffer_t \<Rightarrow> bool" where
  "xStreamBufferIsFull S \<longleftrightarrow> xStreamBufferSpacesAvailable S \<le> message_length_bytes S"

definition xStreamBufferSetTriggerLevel :: "u32 \<Rightarrow> StreamBuffer_t \<Rightarrow> bool \<times> StreamBuffer_t" where
  "xStreamBufferSetTriggerLevel xTriggerLevel S =
     (let n = (if xTriggerLevel = 0 then 1 else xTriggerLevel)
      in if n < xLength S then (True, S\<lparr>xTriggerLevelBytes := n\<rparr>) else (False, S))"

text \<open>The buffer memory keeps the pattern that the check of \<open>memset\<close> leaves in it.\<close>

definition prvInitialiseNewStreamBuffer :: "u8 list \<Rightarrow> u32 \<Rightarrow> u32 \<Rightarrow> u8 \<Rightarrow> StreamBuffer_t" where
  "prvInitialiseNewStreamBuffer buf xBufferSizeBytes trigger flags =
     \<lparr>xTail = 0, xHead = 0, xLength = xBufferSizeBytes, xTriggerLevelBytes = trigger,
      xTaskWaitingToReceive = None, xTaskWaitingToSend = None, pucBuffer = map (\<lambda>_. 0x55) buf, ucFlags = flags,
      uxStreamBufferNumber = 0\<rparr>"

definition sizeof_StreamBuffer_t :: u32 where "sizeof_StreamBuffer_t = 36"

text \<open>
  The allocator's answer is the argument \<open>pvPortMalloc\<close>: from the size it gives the memory of the control
  block's array, or \<open>None\<close>.
\<close>

definition xStreamBufferGenericCreate ::
  "(u32 \<Rightarrow> u8 list option) \<Rightarrow> u32 \<Rightarrow> u32 \<Rightarrow> bool \<Rightarrow> StreamBuffer_t option option" where
  "xStreamBufferGenericCreate pvPortMalloc xBufferSizeBytes trigger xIsMessageBuffer = do {
     configASSERT (if xIsMessageBuffer then xBufferSizeBytes > sbBYTES_TO_STORE_MESSAGE_LENGTH else xBufferSizeBytes > 0);
     configASSERT (trigger \<le> xBufferSizeBytes);
     let flags = (if xIsMessageBuffer then sbFLAGS_IS_MESSAGE_BUFFER else 0);
     let trigger = (if trigger = 0 then 1 else trigger);
     Some (if xBufferSizeBytes < xBufferSizeBytes + 1 + sizeof_StreamBuffer_t
           then (let n = xBufferSizeBytes + 1 in
                 case pvPortMalloc (n + sizeof_StreamBuffer_t) of
                   None \<Rightarrow> None | Some m \<Rightarrow> Some (prvInitialiseNewStreamBuffer m n trigger flags))
           else None)
   }"

definition xStreamBufferReset :: "StreamBuffer_t \<Rightarrow> bool \<times> StreamBuffer_t" where
  "xStreamBufferReset S =
     (if xTaskWaitingToReceive S = None \<and> xTaskWaitingToSend S = None
      then (True, (prvInitialiseNewStreamBuffer (pucBuffer S) (xLength S) (xTriggerLevelBytes S) (ucFlags S))
              \<lparr>uxStreamBufferNumber := uxStreamBufferNumber S\<rparr>)
      else (False, S))"

definition uxStreamBufferGetStreamBufferNumber :: "StreamBuffer_t \<Rightarrow> UBaseType_t" where
  "uxStreamBufferGetStreamBufferNumber S = uxStreamBufferNumber S"

definition vStreamBufferSetStreamBufferNumber :: "UBaseType_t \<Rightarrow> StreamBuffer_t \<Rightarrow> StreamBuffer_t" where
  "vStreamBufferSetStreamBufferNumber n S = S\<lparr>uxStreamBufferNumber := n\<rparr>"

definition ucStreamBufferGetStreamBufferType :: "StreamBuffer_t \<Rightarrow> u8" where
  "ucStreamBufferGetStreamBufferType S = ucFlags S AND sbFLAGS_IS_MESSAGE_BUFFER"

section \<open>Waking the other side\<close>

definition prvSEND_COMPLETED :: "nat \<Rightarrow> 'z skernel_scheme \<Rightarrow> 'z skernel_scheme option" where
  "prvSEND_COMPLETED s k = do {
     let k = vTaskSuspendAll k;
     k \<leftarrow> (case xTaskWaitingToReceive (streams k s) of
             None \<Rightarrow> Some k
           | Some t \<Rightarrow> do {
               (_, k) \<leftarrow> xTaskGenericNotify t 0 0 eNoAction k;
               Some (upd_stream s (\<lambda>S. S\<lparr>xTaskWaitingToReceive := None\<rparr>) k) });
     (_, k) \<leftarrow> xTaskResumeAll k;
     Some k
   }"

definition prvRECEIVE_COMPLETED :: "nat \<Rightarrow> 'z skernel_scheme \<Rightarrow> 'z skernel_scheme option" where
  "prvRECEIVE_COMPLETED s k = do {
     let k = vTaskSuspendAll k;
     k \<leftarrow> (case xTaskWaitingToSend (streams k s) of
             None \<Rightarrow> Some k
           | Some t \<Rightarrow> do {
               (_, k) \<leftarrow> xTaskGenericNotify t 0 0 eNoAction k;
               Some (upd_stream s (\<lambda>S. S\<lparr>xTaskWaitingToSend := None\<rparr>) k) });
     (_, k) \<leftarrow> xTaskResumeAll k;
     Some k
   }"

text \<open>The boolean result of the two functions below says whether a task was waiting.\<close>

definition xStreamBufferSendCompletedFromISR ::
  "nat \<Rightarrow> bool \<Rightarrow> 'z skernel_scheme \<Rightarrow> (bool \<times> bool \<times> 'z skernel_scheme) option" where
  "xStreamBufferSendCompletedFromISR s woken k =
     (case xTaskWaitingToReceive (streams k s) of
        None \<Rightarrow> Some (False, woken, k)
      | Some t \<Rightarrow> do {
          (_, woken, k) \<leftarrow> xTaskGenericNotifyFromISR t 0 0 eNoAction woken k;
          Some (True, woken, upd_stream s (\<lambda>S. S\<lparr>xTaskWaitingToReceive := None\<rparr>) k) })"

definition xStreamBufferReceiveCompletedFromISR ::
  "nat \<Rightarrow> bool \<Rightarrow> 'z skernel_scheme \<Rightarrow> (bool \<times> bool \<times> 'z skernel_scheme) option" where
  "xStreamBufferReceiveCompletedFromISR s woken k =
     (case xTaskWaitingToSend (streams k s) of
        None \<Rightarrow> Some (False, woken, k)
      | Some t \<Rightarrow> do {
          (_, woken, k) \<leftarrow> xTaskGenericNotifyFromISR t 0 0 eNoAction woken k;
          Some (True, woken, upd_stream s (\<lambda>S. S\<lparr>xTaskWaitingToSend := None\<rparr>) k) })"

section \<open>Sending\<close>

record send_locals =
  loc_space :: u32
  loc_required :: u32
  loc_ticks :: TickType_t
  loc_timeout :: TimeOut_t

text \<open>
  The program points of \<open>xStreamBufferSend\<close>: the critical section of its loop, the call that waits for a
  notification, the return from it, the write, and the return with the number of bytes.
\<close>

datatype send_point = SendLoop | SendWait | SendWake | SendWrite | SendDone u32

definition xStreamBufferSend ::
  "nat \<Rightarrow> u32 \<Rightarrow> TickType_t \<Rightarrow> 'z skernel_scheme \<Rightarrow> (send_point \<times> send_locals) option" where
  "xStreamBufferSend s xDataLengthBytes xTicksToWait k = do {
     let S = streams k s;
     let xMaxReportedSpace = xLength S - 1;
     (req, ticks) \<leftarrow>
       (if is_message_buffer S then do {
          let req = xDataLengthBytes + sbBYTES_TO_STORE_MESSAGE_LENGTH;
          configASSERT (req > xDataLengthBytes);
          Some (req, if req > xMaxReportedSpace then 0 else xTicksToWait)
        } else Some (min xDataLengthBytes xMaxReportedSpace, xTicksToWait));
     Some (if ticks \<noteq> 0 then SendLoop else SendWrite,
           \<lparr>loc_space = 0, loc_required = req, loc_ticks = ticks, loc_timeout = vTaskInternalSetTimeOutState k\<rparr>)
   }"

definition xStreamBufferSend_step ::
  "nat \<Rightarrow> u8 list \<Rightarrow> u32 \<Rightarrow> send_point \<times> send_locals \<Rightarrow> 'z skernel_scheme \<Rightarrow>
     ((send_point \<times> send_locals) \<times> 'z skernel_scheme) option" where
  "xStreamBufferSend_step s pvTxData xDataLengthBytes = (\<lambda>(p, l) k.
     (case p of
        SendLoop \<Rightarrow> do {
          let l = l\<lparr>loc_space := xStreamBufferSpacesAvailable (streams k s)\<rparr>;
          if loc_space l < loc_required l then do {
            (_, k) \<leftarrow> xTaskGenericNotifyStateClear None 0 k;
            configASSERT (xTaskWaitingToSend (streams k s) = None);
            Some ((SendWait, l), upd_stream s (\<lambda>S. S\<lparr>xTaskWaitingToSend := pxCurrentTCB k\<rparr>) k)
          } else Some ((SendWrite, l), k) }
      | SendWait \<Rightarrow> do {
          (_, k) \<leftarrow> notify_wait_enter 0 0 (loc_ticks l) k;
          Some ((SendWake, l), k) }
      | SendWake \<Rightarrow> do {
          (_, k) \<leftarrow> notify_wait_exit 0 k;
          let k = upd_stream s (\<lambda>S. S\<lparr>xTaskWaitingToSend := None\<rparr>) k;
          let (timed_out, t, n) = xTaskCheckForTimeOut (loc_timeout l) (loc_ticks l) k;
          Some ((if timed_out then SendWrite else SendLoop, l\<lparr>loc_timeout := t, loc_ticks := n\<rparr>), k) }
      | SendWrite \<Rightarrow> do {
          let xSpace = (if loc_space l = 0 then xStreamBufferSpacesAvailable (streams k s) else loc_space l);
          (n, S) \<leftarrow> prvWriteMessageToBuffer pvTxData xDataLengthBytes xSpace (loc_required l) (streams k s);
          let k = upd_stream s (\<lambda>_. S) k;
          k \<leftarrow> (if n > 0 \<and> prvBytesInBuffer S \<ge> xTriggerLevelBytes S then prvSEND_COMPLETED s k else Some k);
          Some ((SendDone n, l), k) }
      | SendDone n \<Rightarrow> Some ((SendDone n, l), k)))"

definition xStreamBufferSendFromISR ::
  "nat \<Rightarrow> u8 list \<Rightarrow> u32 \<Rightarrow> bool \<Rightarrow> 'z skernel_scheme \<Rightarrow> (u32 \<times> bool \<times> 'z skernel_scheme) option" where
  "xStreamBufferSendFromISR s pvTxData xDataLengthBytes woken k = do {
     let S = streams k s;
     let req = xDataLengthBytes + message_length_bytes S;
     (n, S) \<leftarrow> prvWriteMessageToBuffer pvTxData xDataLengthBytes (xStreamBufferSpacesAvailable S) req S;
     let k = upd_stream s (\<lambda>_. S) k;
     (woken, k) \<leftarrow> (if n > 0 \<and> prvBytesInBuffer S \<ge> xTriggerLevelBytes S
                   then do { (_, w, k) \<leftarrow> xStreamBufferSendCompletedFromISR s woken k; Some (w, k) }
                   else Some (woken, k));
     Some (n, woken, k)
   }"

section \<open>Receiving\<close>

datatype recv_point = RecvCheck | RecvWait | RecvWake | RecvRead | RecvDone "u8 list"

text \<open>The local variable that lives across the points is \<open>xBytesAvailable\<close>.\<close>

definition xStreamBufferReceive :: "TickType_t \<Rightarrow> recv_point" where
  "xStreamBufferReceive xTicksToWait = RecvCheck"

definition xStreamBufferReceive_step ::
  "nat \<Rightarrow> u32 \<Rightarrow> TickType_t \<Rightarrow> recv_point \<times> u32 \<Rightarrow> 'z skernel_scheme \<Rightarrow> ((recv_point \<times> u32) \<times> 'z skernel_scheme) option" where
  "xStreamBufferReceive_step s xBufferLengthBytes xTicksToWait = (\<lambda>(p, xBytesAvailable) k.
     (case p of
        RecvCheck \<Rightarrow> do {
          let n = prvBytesInBuffer (streams k s);
          if xTicksToWait \<noteq> 0 \<and> n \<le> message_length_bytes (streams k s) then do {
            (_, k) \<leftarrow> xTaskGenericNotifyStateClear None 0 k;
            configASSERT (xTaskWaitingToReceive (streams k s) = None);
            Some ((RecvWait, n), upd_stream s (\<lambda>S. S\<lparr>xTaskWaitingToReceive := pxCurrentTCB k\<rparr>) k)
          } else Some ((RecvRead, n), k) }
      | RecvWait \<Rightarrow> do {
          (_, k) \<leftarrow> notify_wait_enter 0 0 xTicksToWait k;
          Some ((RecvWake, xBytesAvailable), k) }
      | RecvWake \<Rightarrow> do {
          (_, k) \<leftarrow> notify_wait_exit 0 k;
          let k = upd_stream s (\<lambda>S. S\<lparr>xTaskWaitingToReceive := None\<rparr>) k;
          Some ((RecvRead, prvBytesInBuffer (streams k s)), k) }
      | RecvRead \<Rightarrow>
          (if xBytesAvailable > message_length_bytes (streams k s) then do {
             (d, S) \<leftarrow> prvReadMessageFromBuffer xBufferLengthBytes xBytesAvailable (streams k s);
             let k = upd_stream s (\<lambda>_. S) k;
             k \<leftarrow> (if d \<noteq> [] then prvRECEIVE_COMPLETED s k else Some k);
             Some ((RecvDone d, xBytesAvailable), k)
           } else Some ((RecvDone [], xBytesAvailable), k))
      | RecvDone d \<Rightarrow> Some ((RecvDone d, xBytesAvailable), k)))"

definition xStreamBufferReceiveFromISR ::
  "nat \<Rightarrow> u32 \<Rightarrow> bool \<Rightarrow> 'z skernel_scheme \<Rightarrow> (u8 list \<times> bool \<times> 'z skernel_scheme) option" where
  "xStreamBufferReceiveFromISR s xBufferLengthBytes woken k = do {
     let S = streams k s;
     let xBytesAvailable = prvBytesInBuffer S;
     if xBytesAvailable > message_length_bytes S then do {
       (d, S) \<leftarrow> prvReadMessageFromBuffer xBufferLengthBytes xBytesAvailable S;
       let k = upd_stream s (\<lambda>_. S) k;
       (woken, k) \<leftarrow> (if d \<noteq> []
                     then do { (_, w, k) \<leftarrow> xStreamBufferReceiveCompletedFromISR s woken k; Some (w, k) }
                     else Some (woken, k));
       Some (d, woken, k)
     } else Some ([], woken, k)
   }"

end
