(* ===== verification/Stream_Props.thy ===== *)
theory Stream_Props
  imports Stream_Buffer
begin

text \<open>
  Correctness of the stream and message buffers: the ring of bytes refines a list, a stream buffer hands
  on a prefix-preserving stream of bytes, a message buffer a sequence of whole messages, and a reader that
  waits is woken when the trigger level is reached.
\<close>

section \<open>Rings of bytes\<close>

lemma ring_append: "ring f len i (m + n) = ring f len i m @ ring f len (i + m) n"
  by (rule nth_equalityI) (auto simp: ring_nth nth_append ac_simps)

lemma ring_cong: "(\<And>j. j < n \<Longrightarrow> f ((i + j) mod len) = g ((i + j) mod len)) \<Longrightarrow> ring f len i n = ring g len i n"
  by (simp add: ring_def)

lemma take_ring: "m \<le> n \<Longrightarrow> take m (ring f len i n) = ring f len i m"
  by (simp add: ring_def take_map)

lemma drop_ring: "m \<le> n \<Longrightarrow> drop m (ring f len i n) = ring f len (i + m) (n - m)"
  by (rule nth_equalityI) (auto simp: ring_nth ac_simps)

text \<open>Where a position lies relative to the writing end.\<close>

lemma mod_once: "i < 2 * len \<Longrightarrow> i mod len = (if i < len then i else i - len :: nat)"
  by (auto simp: mod_if)

lemma write_wrapped_nth:
  fixes b d :: "'a list"
  assumes "length b = len" "h < len" "length d \<le> len"
  defines "f \<equiv> min (len - h) (length d)"
  defines "b1 \<equiv> take h b @ take f d @ drop (h + f) b"
  defines "b2 \<equiv> drop f d @ drop (length d - f) b1"
  shows "length b1 = len" "length b2 = len"
    "j < len \<Longrightarrow> b2 ! ((h + j) mod len) = (if j < length d then d ! j else b ! ((h + j) mod len))"
proof -
  have f: "f \<le> length d" "h + f \<le> len" using assms(2) by (auto simp: f_def)
  show l1: "length b1 = len" using assms(1,2) f by (simp add: b1_def)
  show l2: "length b2 = len" using l1 f assms(3) by (simp add: b2_def)
  assume j: "j < len"
  have n1: "b1 ! i = (if i < h then b ! i else if i < h + f then d ! (i - h) else b ! i)" if "i < len" for i
    using that assms(1,2) f by (auto simp: b1_def nth_append nth_take)
  have n2: "b2 ! i = (if i < length d - f then d ! (f + i) else b1 ! i)" if "i < len" for i
    using that l1 f by (auto simp: b2_def nth_append)
  consider (wrap) "length d - f > 0" "f = len - h" | (flat) "length d = f"
    unfolding f_def by linarith
  then show "b2 ! ((h + j) mod len) = (if j < length d then d ! j else b ! ((h + j) mod len))"
  proof cases
    case wrap
    show ?thesis
    proof (cases "h + j < len")
      case True
      moreover from this have "\<not> h + j < length d - f" "j < f" "j < length d" using wrap assms(2,3) by auto
      ultimately show ?thesis using j by (simp add: n1 n2)
    next
      case False
      then have "(h + j) mod len = h + j - len" using j assms(2) by (simp add: mod_once)
      moreover have "h + j - len < len" "h + j - len < h" using False j assms(2) by auto
      moreover have "f + (h + j - len) = j" using False wrap assms(2) by simp
      moreover have "h + j - len < length d - f \<longleftrightarrow> j < length d" using False wrap assms(2) by auto
      ultimately show ?thesis by (simp add: n1 n2)
    qed
  next
    case flat
    then show ?thesis using j assms(2,3) f(2) by (auto simp: mod_once n1 n2)
  qed
qed

lemma read_wrapped:
  fixes b :: "'a list"
  assumes "length b = len" "t < len" "n \<le> len"
  shows "take (min (len - t) n) (drop t b) @ take (n - min (len - t) n) b = ring (\<lambda>i. b ! i) len t n"
  using assms by (intro nth_equalityI) (auto simp: ring_nth nth_append mod_once ac_simps)

section \<open>The well-formed buffer and its contents\<close>

definition sb_inv :: "StreamBuffer_t \<Rightarrow> bool" where
  "sb_inv S \<longleftrightarrow> length (pucBuffer S) = unat (xLength S) \<and> xHead S < xLength S \<and> xTail S < xLength S \<and>
     unat (xLength S) < 2 ^ 31"

definition sb_len :: "StreamBuffer_t \<Rightarrow> nat" where "sb_len S = unat (xLength S)"

definition sb_contents :: "StreamBuffer_t \<Rightarrow> u8 list" where
  "sb_contents S = ring (\<lambda>i. pucBuffer S ! i) (unat (xLength S)) (unat (xTail S)) (unat (prvBytesInBuffer S))"

lemma sb_invD:
  assumes "sb_inv S"
  shows "length (pucBuffer S) = unat (xLength S)" "unat (xHead S) < unat (xLength S)" "unat (xTail S) < unat (xLength S)"
    "unat (xLength S) < 2 ^ 31"
  using assms by (simp_all add: sb_inv_def word_less_nat_alt)

lemma unat_add_small: "unat a + unat b < 2 ^ LENGTH('a::len) \<Longrightarrow> unat (a + b :: 'a word) = unat a + unat b"
  by (simp add: unat_add_lem)

lemma unat_diff_le: "unat b \<le> unat a \<Longrightarrow> unat (a - b) = unat a - unat (b :: 'a::len word)"
  by (simp add: unat_sub word_le_nat_alt)

lemma advance_wrap:
  fixes p n L :: u32
  assumes "unat p < unat L" "unat n \<le> unat L" "unat L < 2 ^ 31"
  shows "unat (if p + n \<ge> L then p + n - L else p + n) = (unat p + unat n) mod unat L"
proof -
  have s: "unat (p + n) = unat p + unat n" using assms by (intro unat_add_small) simp
  then show ?thesis using assms by (auto simp: word_le_nat_alt unat_diff_le mod_once)
qed

lemma distance_wrap:
  fixes h t L :: u32
  assumes "unat h < unat L" "unat t < unat L" "unat L < 2 ^ 31"
  shows "unat (let c = L + h - t in if c \<ge> L then c - L else c) = (if unat t \<le> unat h then unat h - unat t else unat L + unat h - unat t)"
proof -
  have s: "unat (L + h) = unat L + unat h" using assms by (intro unat_add_small) simp
  then have "unat (L + h - t) = unat L + unat h - unat t" using assms by (simp add: unat_diff_le)
  then show ?thesis using assms by (auto simp: Let_def word_le_nat_alt unat_diff_le)
qed

lemma bytes_in_buffer:
  assumes "sb_inv S"
  shows "unat (prvBytesInBuffer S) = (unat (xHead S) + (unat (xLength S) - unat (xTail S))) mod unat (xLength S)"
proof -
  note i = sb_invD [OF assms]
  have "unat (prvBytesInBuffer S) = (if unat (xTail S) \<le> unat (xHead S) then unat (xHead S) - unat (xTail S)
     else unat (xLength S) + unat (xHead S) - unat (xTail S))"
    unfolding prvBytesInBuffer_def by (rule distance_wrap [OF i(2-4)])
  then show ?thesis using i by (auto simp: mod_once)
qed

lemma spaces_available:
  assumes "sb_inv S"
  shows "unat (xStreamBufferSpacesAvailable S) = unat (xLength S) - 1 - unat (prvBytesInBuffer S)"
proof -
  note i = sb_invD [OF assms]
  define x where "x = xLength S + xTail S - xHead S"
  have "unat (xLength S + xTail S) = unat (xLength S) + unat (xTail S)" using i by (intro unat_add_small) simp
  then have x: "unat x = unat (xLength S) + unat (xTail S) - unat (xHead S)" using i by (simp add: x_def unat_diff_le)
  define y where "y = x - 1"
  have y: "unat y = unat x - 1" using x i unfolding y_def by (intro unat_pred) simp
  have "xStreamBufferSpacesAvailable S = (if y \<ge> xLength S then y - xLength S else y)"
    by (simp add: xStreamBufferSpacesAvailable_def Let_def x_def y_def)
  then show ?thesis using i x y by (auto simp: bytes_in_buffer [OF assms] word_le_nat_alt unat_diff_le mod_once)
qed

lemma contents_bounds:
  assumes "sb_inv S"
  shows "length (sb_contents S) = unat (prvBytesInBuffer S)" "length (sb_contents S) < unat (xLength S)"
    "unat (xStreamBufferSpacesAvailable S) = unat (xLength S) - 1 - length (sb_contents S)"
    "unat (xHead S) = (unat (xTail S) + length (sb_contents S)) mod unat (xLength S)"
  using sb_invD [OF assms] spaces_available [OF assms]
  by (auto simp: sb_contents_def bytes_in_buffer [OF assms] mod_once)

lemma read_at_ok: "off + n \<le> length s \<Longrightarrow> read_at (int off) n s = Some (take n (drop off s))"
  by (simp add: read_at_def)

lemma write_at_ok:
  "off + length xs \<le> length s \<Longrightarrow> write_at (int off) xs s = Some (take off s @ xs @ drop (off + length xs) s)"
  by (simp add: write_at_def)

lemma read_bytes:
  assumes "sb_inv S" "unat t < unat (xLength S)" "n \<noteq> 0" "unat n \<le> unat (xLength S)"
  shows "\<exists>t'. prvReadBytesFromBuffer n t S = Some (ring (\<lambda>i. pucBuffer S ! i) (unat (xLength S)) (unat t) (unat n), t') \<and>
    unat t' = (unat t + unat n) mod unat (xLength S)"
proof -
  note i = sb_invD [OF assms(1)]
  define f where "f = min (xLength S - t) n"
  have d: "unat (xLength S - t) = unat (xLength S) - unat t" using assms(2) by (simp add: unat_diff_le)
  then have f: "unat f = min (unat (xLength S) - unat t) (unat n)" by (simp add: f_def min_def word_le_nat_alt)
  have a: "unat (t + f) = unat t + unat f" using assms(2) f i(4) by (intro unat_add_small) simp
  have r: "unat (n - f) = unat n - unat f" using f by (simp add: unat_diff_le)
  have fl: "unat f \<le> unat n" "unat t + unat f \<le> unat (xLength S)" using f assms(2) by auto
  then have "read_at (int (unat t)) (unat f) (pucBuffer S) = Some (take (unat f) (drop (unat t) (pucBuffer S)))"
    by (intro read_at_ok) (simp add: i(1))
  moreover have "read_at 0 (unat (n - f)) (pucBuffer S) = Some (take (unat (n - f)) (pucBuffer S))"
    using read_at_ok [of 0 "unat (n - f)" "pucBuffer S"] assms(4) r i(1) by simp
  moreover have "f \<le> n" "t + f \<le> xLength S" unfolding word_le_nat_alt a using fl by linarith+
  moreover have "n > f \<longleftrightarrow> unat n > unat f" by (simp add: word_less_nat_alt)
  ultimately have "prvReadBytesFromBuffer n t S =
      Some (take (unat f) (drop (unat t) (pucBuffer S)) @ take (unat n - unat f) (pucBuffer S),
        if t + n \<ge> xLength S then t + n - xLength S else t + n)"
    using assms(3) r by (simp add: prvReadBytesFromBuffer_def f_def [symmetric] configASSERT_def Let_def)
  moreover have "take (unat f) (drop (unat t) (pucBuffer S)) @ take (unat n - unat f) (pucBuffer S) =
      ring (\<lambda>i. pucBuffer S ! i) (unat (xLength S)) (unat t) (unat n)"
    unfolding f by (rule read_wrapped [OF i(1) assms(2,4)])
  ultimately show ?thesis using advance_wrap [OF assms(2,4) i(4)] by simp
qed

lemma write_bytes:
  assumes "sb_inv S" "unat h < unat (xLength S)" "n \<noteq> 0" "unat n \<le> unat (xLength S)" "unat n \<le> length d"
  shows "\<exists>h' b. prvWriteBytesToBuffer d n h S = Some (h', S\<lparr>pucBuffer := b\<rparr>) \<and>
    unat h' = (unat h + unat n) mod unat (xLength S) \<and> length b = unat (xLength S) \<and>
    (\<forall>j < unat (xLength S). b ! ((unat h + j) mod unat (xLength S)) =
       (if j < unat n then d ! j else pucBuffer S ! ((unat h + j) mod unat (xLength S))))"
proof -
  note i = sb_invD [OF assms(1)]
  define f where "f = min (xLength S - h) n"
  have e: "unat (xLength S - h) = unat (xLength S) - unat h" using assms(2) by (simp add: unat_diff_le)
  then have f: "unat f = min (unat (xLength S) - unat h) (unat n)" by (simp add: f_def min_def word_le_nat_alt)
  have a: "unat (h + f) = unat h + unat f" using assms(2) f i(4) by (intro unat_add_small) simp
  have r: "unat (n - f) = unat n - unat f" using f by (simp add: unat_diff_le)
  define b1 where "b1 = take (unat h) (pucBuffer S) @ take (unat f) d @ drop (unat h + unat f) (pucBuffer S)"
  define b2 where "b2 = drop (unat f) (take (unat n) d) @ drop (unat n - unat f) b1"
  have fl: "unat f \<le> unat n" "unat h + unat f \<le> unat (xLength S)" using f assms(2) by auto
  have t: "take (unat f) (take (unat n) d) = take (unat f) d" "length (take (unat n) d) = unat n"
    using fl(1) assms(5) by simp_all
  note w = write_wrapped_nth [OF i(1) assms(2), of "take (unat n) d", unfolded t(2), OF assms(4), folded f,
      unfolded t(1), folded b1_def b2_def]
  have x: "f \<le> n" "h + f \<le> xLength S" "n - f \<le> xLength S"
    unfolding word_le_nat_alt a r using fl assms(4) by linarith+
  have "read_at 0 (unat f) d = Some (take (unat f) d)" using fl(1) assms(5) read_at_ok [of 0 "unat f" d] by simp
  moreover have "write_at (int (unat h)) (take (unat f) d) (pucBuffer S) = Some b1"
    using fl assms(5) i(1) write_at_ok [of "unat h" "take (unat f) d" "pucBuffer S"] by (simp add: b1_def)
  moreover have "read_at (int (unat f)) (unat n - unat f) d = Some (drop (unat f) (take (unat n) d))"
    using fl(1) assms(5) read_at_ok [of "unat f" "unat n - unat f" d] by (simp add: drop_take)
  moreover have "write_at 0 (drop (unat f) (take (unat n) d)) b1 = Some b2"
    using fl(1) assms(4,5) w(1) write_at_ok [of 0 "drop (unat f) (take (unat n) d)" b1] by (simp add: b2_def)
  moreover have "unat n = unat f \<Longrightarrow> b2 = b1" by (simp add: b2_def)
  moreover have "n > f \<longleftrightarrow> unat n > unat f" by (simp add: word_less_nat_alt)
  ultimately have "prvWriteBytesToBuffer d n h S =
      Some (if h + n \<ge> xLength S then h + n - xLength S else h + n, S\<lparr>pucBuffer := b2\<rparr>)"
    using assms(3) fl(1) x r by (auto simp: prvWriteBytesToBuffer_def f_def [symmetric] configASSERT_def Let_def word_gt_0)
  moreover have "\<forall>j < unat (xLength S). b2 ! ((unat h + j) mod unat (xLength S)) =
       (if j < unat n then d ! j else pucBuffer S ! ((unat h + j) mod unat (xLength S)))"
    using w(3) by simp
  ultimately show ?thesis using advance_wrap [OF assms(2,4) i(4)] w(2) by blast
qed

text \<open>Writing behind the first \<open>m\<close> bytes after the tail.\<close>

lemma write_ring:
  assumes "sb_inv S" "unat h = (unat (xTail S) + m) mod unat (xLength S)" "n \<noteq> 0" "m + unat n < unat (xLength S)"
    "unat n \<le> length d"
  shows "\<exists>h' b. prvWriteBytesToBuffer d n h S = Some (h', S\<lparr>pucBuffer := b\<rparr>) \<and>
    unat h' = (unat (xTail S) + (m + unat n)) mod unat (xLength S) \<and> length b = unat (xLength S) \<and>
    ring (\<lambda>i. b ! i) (unat (xLength S)) (unat (xTail S)) (m + unat n) =
      ring (\<lambda>i. pucBuffer S ! i) (unat (xLength S)) (unat (xTail S)) m @ take (unat n) d"
proof -
  let ?L = "unat (xLength S)" and ?t = "unat (xTail S)"
  have h: "unat h < ?L" "unat n \<le> ?L" using assms(2,4) by simp_all
  obtain h' b where w: "prvWriteBytesToBuffer d n h S = Some (h', S\<lparr>pucBuffer := b\<rparr>)"
    "unat h' = (unat h + unat n) mod ?L" "length b = ?L"
    "\<And>j. j < ?L \<Longrightarrow> b ! ((unat h + j) mod ?L) = (if j < unat n then d ! j else pucBuffer S ! ((unat h + j) mod ?L))"
    using write_bytes [OF assms(1) h(1) assms(3) h(2) assms(5)] by auto
  have w': "b ! ((?t + m + j) mod ?L) = (if j < unat n then d ! j else pucBuffer S ! ((?t + m + j) mod ?L))"
    if "j < ?L" for j using w(4) [OF that] by (simp add: assms(2) mod_simps)
  have old: "b ! ((?t + j) mod ?L) = pucBuffer S ! ((?t + j) mod ?L)" if "j < m" for j
  proof -
    have "(?t + m + (?L - m + j)) mod ?L = (?t + j) mod ?L"
    proof -
      have "?t + m + (?L - m + j) = ?t + j + ?L" using assms(4) by simp
      then show ?thesis by (simp only: mod_add_self2)
    qed
    moreover have "?L - m + j < ?L" "\<not> ?L - m + j < unat n" using that assms(4) by auto
    ultimately show ?thesis using w' [of "?L - m + j"] by simp
  qed
  have new: "ring (\<lambda>i. b ! i) ?L (?t + m) (unat n) = take (unat n) d"
    using assms(4,5) w' by (intro nth_equalityI) (auto simp: ring_nth)
  have "ring (\<lambda>i. b ! i) ?L ?t (m + unat n) = ring (\<lambda>i. pucBuffer S ! i) ?L ?t m @ take (unat n) d"
    by (simp add: ring_append new old cong: ring_cong)
  moreover have "unat h' = (?t + (m + unat n)) mod ?L" by (simp add: w(2) assms(2) mod_simps add.assoc)
  ultimately show ?thesis using w(1,3) by blast
qed

text \<open>The contents after the head or the tail moved.\<close>

lemma bytes_from_head:
  assumes "t < L" "m < L" "h = (t + m) mod (L :: nat)"
  shows "(h + (L - t)) mod L = m"
  using assms by (auto simp: mod_once)

lemma new_head:
  assumes "sb_inv S" "m < unat (xLength S)" "unat h = (unat (xTail S) + m) mod unat (xLength S)" "length b = unat (xLength S)"
  shows "sb_inv (S\<lparr>pucBuffer := b, xHead := h\<rparr>)"
    "sb_contents (S\<lparr>pucBuffer := b, xHead := h\<rparr>) = ring (\<lambda>i. b ! i) (unat (xLength S)) (unat (xTail S)) m"
proof -
  note i = sb_invD [OF assms(1)]
  show s: "sb_inv (S\<lparr>pucBuffer := b, xHead := h\<rparr>)" using assms i by (simp add: sb_inv_def word_less_nat_alt)
  show "sb_contents (S\<lparr>pucBuffer := b, xHead := h\<rparr>) = ring (\<lambda>i. b ! i) (unat (xLength S)) (unat (xTail S)) m"
    using bytes_in_buffer [OF s] bytes_from_head [OF i(3) assms(2,3)] by (simp add: sb_contents_def)
qed

lemma new_buffer:
  assumes "sb_inv S" "length b = unat (xLength S)"
    "ring (\<lambda>i. b ! i) (unat (xLength S)) (unat (xTail S)) (length (sb_contents S)) = sb_contents S"
  shows "sb_inv (S\<lparr>pucBuffer := b\<rparr>)" "sb_contents (S\<lparr>pucBuffer := b\<rparr>) = sb_contents S"
proof -
  note i = sb_invD [OF assms(1)] and c = contents_bounds [OF assms(1)]
  show s: "sb_inv (S\<lparr>pucBuffer := b\<rparr>)" using assms(2) i by (simp add: sb_inv_def word_less_nat_alt)
  show "sb_contents (S\<lparr>pucBuffer := b\<rparr>) = sb_contents S"
    using assms(3) c(1) bytes_in_buffer [OF assms(1)] bytes_in_buffer [OF s] by (simp add: sb_contents_def)
qed

lemma new_tail:
  assumes "sb_inv S" "m \<le> length (sb_contents S)" "unat t = (unat (xTail S) + m) mod unat (xLength S)"
  shows "sb_inv (S\<lparr>xTail := t\<rparr>)" "sb_contents (S\<lparr>xTail := t\<rparr>) = drop m (sb_contents S)"
proof -
  note i = sb_invD [OF assms(1)] and c = contents_bounds [OF assms(1)]
  show s: "sb_inv (S\<lparr>xTail := t\<rparr>)" using assms i by (simp add: sb_inv_def word_less_nat_alt)
  have "unat (xHead S) = (unat t + (length (sb_contents S) - m)) mod unat (xLength S)"
    unfolding assms(3) mod_add_left_eq using assms(2) c(4) by simp
  moreover have "unat t < unat (xLength S)" "length (sb_contents S) - m < unat (xLength S)" using assms(3) c(2) i(2) by simp_all
  ultimately have "unat (prvBytesInBuffer (S\<lparr>xTail := t\<rparr>)) = length (sb_contents S) - m"
    using bytes_in_buffer [OF s] bytes_from_head [of "unat t" "unat (xLength S)" "length (sb_contents S) - m"] by simp
  then show "sb_contents (S\<lparr>xTail := t\<rparr>) = drop m (sb_contents S)"
    using assms(2,3) c(1) by (simp add: sb_contents_def drop_ring ring_mod)
qed

section \<open>Streams and messages\<close>

text \<open>The operations on the ring change its bytes and positions only.\<close>

definition same_config :: "StreamBuffer_t \<Rightarrow> StreamBuffer_t \<Rightarrow> bool" where
  "same_config S S' \<longleftrightarrow> (\<exists>h t b. S' = S\<lparr>xHead := h, xTail := t, pucBuffer := b\<rparr>)"

lemma same_configD:
  assumes "same_config S S'"
  shows "xLength S' = xLength S" "xTriggerLevelBytes S' = xTriggerLevelBytes S" "ucFlags S' = ucFlags S"
    "xTaskWaitingToReceive S' = xTaskWaitingToReceive S" "xTaskWaitingToSend S' = xTaskWaitingToSend S"
    "is_message_buffer S' = is_message_buffer S" "message_length_bytes S' = message_length_bytes S"
  using assms by (auto simp: same_config_def is_message_buffer_def message_length_bytes_def)

lemma same_config_intros [intro!]:
  "same_config S S" "same_config S (S\<lparr>pucBuffer := b\<rparr>)" "same_config S (S\<lparr>pucBuffer := b, xHead := h\<rparr>)"
  "same_config S (S\<lparr>xTail := t\<rparr>)"
  unfolding same_config_def by (rule exI [of _ "xHead S"] exI [of _ h], rule exI [of _ "xTail S"] exI [of _ t],
    rule exI [of _ "pucBuffer S"] exI [of _ b], simp)+

lemma stream_write:
  assumes "sb_inv S" "\<not> is_message_buffer S" "unat sp \<le> unat (xStreamBufferSpacesAvailable S)" "unat n = length d"
  obtains S' where "prvWriteMessageToBuffer d n sp req S = Some (min n sp, S')" "sb_inv S'" "same_config S S'"
    "sb_contents S' = sb_contents S @ take (unat sp) d"
proof (cases "min n sp = 0")
  case True
  then have "n = 0 \<or> sp = 0" by (auto simp: min_def split: if_splits)
  then have "take (unat sp) d = []" using assms(4) by auto
  then show thesis using True assms(1,2) by (intro that [of S]) (auto simp: prvWriteMessageToBuffer_def)
next
  case False
  note c = contents_bounds [OF assms(1)]
  let ?m = "min n sp" and ?c = "length (sb_contents S)"
  have m: "unat ?m = min (length d) (unat sp)" using assms(4) by (simp add: min_def word_le_nat_alt)
  have l: "?c + unat ?m < unat (xLength S)" "unat ?m \<le> length d" using m assms(3) c(2,3) by auto
  obtain h b where w: "prvWriteBytesToBuffer d ?m (xHead S) S = Some (h, S\<lparr>pucBuffer := b\<rparr>)"
    "unat h = (unat (xTail S) + (?c + unat ?m)) mod unat (xLength S)" "length b = unat (xLength S)"
    "ring (\<lambda>i. b ! i) (unat (xLength S)) (unat (xTail S)) (?c + unat ?m) =
      ring (\<lambda>i. pucBuffer S ! i) (unat (xLength S)) (unat (xTail S)) ?c @ take (unat ?m) d"
    using write_ring [OF assms(1) c(4) False l] by blast
  have "take (unat ?m) d = take (unat sp) d" unfolding m by (simp add: min_def)
  then show thesis
    using w False assms(2) new_head [OF assms(1) l(1) w(2,3)] c(1)
    by (intro that [of "S\<lparr>pucBuffer := b, xHead := h\<rparr>"]) (auto simp: prvWriteMessageToBuffer_def sb_contents_def)
qed

lemma stream_read:
  assumes "sb_inv S" "\<not> is_message_buffer S" "unat av \<le> length (sb_contents S)"
  obtains S' where "prvReadMessageFromBuffer n av S = Some (take (unat (min n av)) (sb_contents S), S')" "sb_inv S'"
    "same_config S S'" "sb_contents S' = drop (unat (min n av)) (sb_contents S)"
proof (cases "min n av = 0")
  case True
  then show thesis using assms by (intro that [of S]) (auto simp: prvReadMessageFromBuffer_def)
next
  case False
  note c = contents_bounds [OF assms(1)] and i = sb_invD [OF assms(1)]
  let ?m = "min n av"
  have m: "unat ?m \<le> length (sb_contents S)" using assms(3) by (auto simp: min_def word_le_nat_alt)
  then obtain t where r: "prvReadBytesFromBuffer ?m (xTail S) S =
      Some (ring (\<lambda>i. pucBuffer S ! i) (unat (xLength S)) (unat (xTail S)) (unat ?m), t)"
    "unat t = (unat (xTail S) + unat ?m) mod unat (xLength S)"
    using read_bytes [OF assms(1) i(3) False] c(2) by auto
  have "ring (\<lambda>i. pucBuffer S ! i) (unat (xLength S)) (unat (xTail S)) (unat ?m) = take (unat ?m) (sb_contents S)"
    using m c(1) by (simp add: sb_contents_def take_ring)
  then show thesis
    using r False assms(2) new_tail [OF assms(1) m r(2)]
    by (intro that [of "S\<lparr>xTail := t\<rparr>"]) (auto simp: prvReadMessageFromBuffer_def Let_def)
qed

text \<open>The frame of a message: its length, then its bytes.\<close>

definition frame :: "u8 list \<Rightarrow> u8 list" where
  "frame m = len_bytes (of_nat (length m)) @ m"

lemma length_frame [simp]: "length (frame m) = 4 + length m"
  by (simp add: frame_def)

lemma four_bytes [simp]: "unat sbBYTES_TO_STORE_MESSAGE_LENGTH = 4" "sbBYTES_TO_STORE_MESSAGE_LENGTH \<noteq> 0"
  by (simp_all add: sbBYTES_TO_STORE_MESSAGE_LENGTH_def)

lemma message_write:
  assumes "sb_inv S" "is_message_buffer S" "unat sp \<le> unat (xStreamBufferSpacesAvailable S)" "unat n = length d" "d \<noteq> []"
    "unat req = 4 + length d" "4 + length d \<le> unat sp"
  obtains S' where "prvWriteMessageToBuffer d n sp req S = Some (n, S')" "sb_inv S'" "same_config S S'"
    "sb_contents S' = sb_contents S @ frame d"
proof -
  note c = contents_bounds [OF assms(1)]
  let ?c = "length (sb_contents S)" and ?b = "sbBYTES_TO_STORE_MESSAGE_LENGTH"
  have "of_nat (unat n) = n" by simp
  then have n: "n \<noteq> 0" "n = of_nat (length d)" using assms(4,5) by auto
  have l: "?c + unat ?b < unat (xLength S)" "unat ?b \<le> length (len_bytes n)" "?c + 4 + unat n < unat (xLength S)"
    using assms(3,4,7) c(2,3) by auto
  obtain h b where w: "prvWriteBytesToBuffer (len_bytes n) ?b (xHead S) S = Some (h, S\<lparr>pucBuffer := b\<rparr>)"
    "unat h = (unat (xTail S) + (?c + 4)) mod unat (xLength S)" "length b = unat (xLength S)"
    "ring (\<lambda>i. b ! i) (unat (xLength S)) (unat (xTail S)) (?c + 4) = sb_contents S @ len_bytes n"
    using write_ring [OF assms(1) c(4) _ l(1,2)] c(1) by (auto simp: sb_contents_def)
  let ?S = "S\<lparr>pucBuffer := b\<rparr>"
  have "ring (\<lambda>i. b ! i) (unat (xLength S)) (unat (xTail S)) ?c = sb_contents S"
    using take_ring [of ?c "?c + 4" "\<lambda>i. b ! i" "unat (xLength S)" "unat (xTail S)"] unfolding w(4) by simp
  then have i: "sb_inv ?S" using new_buffer [OF assms(1) w(3)] by simp
  obtain h' b' where w': "prvWriteBytesToBuffer d n h ?S = Some (h', ?S\<lparr>pucBuffer := b'\<rparr>)"
    "unat h' = (unat (xTail S) + (?c + 4 + unat n)) mod unat (xLength S)" "length b' = unat (xLength S)"
    "ring (\<lambda>i. b' ! i) (unat (xLength S)) (unat (xTail S)) (?c + 4 + unat n) = sb_contents S @ len_bytes n @ d"
    using write_ring [OF i, of h "?c + 4" n d] w(2,4) l(3) n(1) assms(4) by auto
  have "sp \<ge> req" using assms(6,7) by (simp add: word_le_nat_alt)
  then have "prvWriteMessageToBuffer d n sp req S = Some (n, S\<lparr>pucBuffer := b', xHead := h'\<rparr>)"
    using w(1) w'(1) n(1) assms(2) by (simp add: prvWriteMessageToBuffer_def)
  then show thesis
    using new_head [OF assms(1) l(3) w'(2,3)] w'(4) n(2) by (intro that [of "S\<lparr>pucBuffer := b', xHead := h'\<rparr>"]) (auto simp: frame_def)
qed

lemma message_no_room:
  assumes "is_message_buffer S" "unat req = 4 + length d" "unat sp < 4 + length d"
  shows "prvWriteMessageToBuffer d n sp req S = Some (0, S)"
  using assms by (simp add: prvWriteMessageToBuffer_def word_le_nat_alt)

lemma message_read:
  assumes "sb_inv S" "is_message_buffer S" "sb_contents S = frame m @ rest" "m \<noteq> []"
    "4 + length m \<le> unat av" "unat av \<le> length (sb_contents S)"
  obtains S' where "prvReadMessageFromBuffer n av S = Some (if length m \<le> unat n then m else [], S')" "sb_inv S'"
    "same_config S S'" "sb_contents S' = (if length m \<le> unat n then rest else sb_contents S)"
proof -
  note c = contents_bounds [OF assms(1)] and i = sb_invD [OF assms(1)]
  let ?b = "sbBYTES_TO_STORE_MESSAGE_LENGTH" and ?r = "ring (\<lambda>i. pucBuffer S ! i) (unat (xLength S))" and ?t = "unat (xTail S)"
  define k where "k = (of_nat (length m) :: u32)"
  have lm: "4 + length m < unat (xLength S)" using assms(3) c(2) by simp
  then have k: "unat k = length m" unfolding k_def using i(4) by (intro unat_of_nat_less) simp
  have f: "?r ?t n = take n (sb_contents S)" if "n \<le> length (sb_contents S)" for n
    using that c(1) by (simp add: sb_contents_def take_ring)
  obtain t where r: "prvReadBytesFromBuffer ?b (xTail S) S = Some (len_bytes k, t)" "unat t = (?t + 4) mod unat (xLength S)"
    using read_bytes [OF assms(1) i(3), of ?b] lm f [of 4] assms(3) by (auto simp: frame_def k_def)
  show thesis
  proof (cases "length m \<le> unat n")
    case False
    then have "k > n" using k by (simp add: word_less_nat_alt)
    then show thesis using r assms(1,2) False
      by (intro that [of S]) (auto simp: prvReadMessageFromBuffer_def bytes_len_inverse Let_def min_def)
  next
    case True
    have "unat (av - ?b) = unat av - 4" using assms(5) by (subst unat_diff_le) auto
    then have "k \<le> av - ?b" using k assms(5) unfolding word_le_nat_alt by linarith
    then have mk: "min k (av - ?b) = k" by simp
    have "k \<noteq> 0" using k assms(4) by auto
    moreover have "unat k \<le> unat (xLength S)" "unat t < unat (xLength S)" using k lm r(2) by simp_all
    ultimately obtain t' where r': "prvReadBytesFromBuffer k t S = Some (?r (?t + 4) (length m), t')"
      "unat t' = (?t + (4 + length m)) mod unat (xLength S)"
      using read_bytes [OF assms(1), of t k] by (auto simp: k r(2) ring_mod mod_simps ac_simps)
    have "?r (?t + 4) (length m) = m"
      using drop_ring [of 4 "4 + length m" "\<lambda>i. pucBuffer S ! i" "unat (xLength S)" ?t] f [of "4 + length m"] assms(3)
      by (simp add: frame_def)
    moreover have "\<not> k > n" using k True by (simp add: word_less_nat_alt)
    ultimately have "prvReadMessageFromBuffer n av S = Some (m, S\<lparr>xTail := t'\<rparr>)"
      using r(1) r'(1) mk \<open>k \<noteq> 0\<close> assms(2) by (simp add: prvReadMessageFromBuffer_def bytes_len_inverse Let_def)
    then show thesis using True new_tail [OF assms(1) _ r'(2)] assms(3)
      by (intro that [of "S\<lparr>xTail := t'\<rparr>"]) (auto simp: frame_def)
  qed
qed

section \<open>Sequences of calls\<close>

text \<open>
  Calls of the interrupt interface, in any order: the result lists what each send stored and each receive
  returned.
\<close>

datatype sb_op = SbSend "u8 list" | SbReceive u32

fun sb_run :: "nat \<Rightarrow> sb_op list \<Rightarrow> 'z skernel_scheme \<Rightarrow> (u8 list list \<times> u8 list list \<times> 'z skernel_scheme) option" where
  "sb_run s [] k = Some ([], [], k)"
| "sb_run s (SbSend d # ops) k = do {
     (n, _, k) \<leftarrow> xStreamBufferSendFromISR s d (of_nat (length d)) False k;
     (acc, rec, k) \<leftarrow> sb_run s ops k;
     Some (take (unat n) d # acc, rec, k) }"
| "sb_run s (SbReceive n # ops) k = do {
     (d, _, k) \<leftarrow> xStreamBufferReceiveFromISR s n False k;
     (acc, rec, k) \<leftarrow> sb_run s ops k;
     Some (acc, d # rec, k) }"

definition fits :: "sb_op \<Rightarrow> bool" where
  "fits x = (case x of SbSend d \<Rightarrow> length d + 4 < 2 ^ 32 | SbReceive n \<Rightarrow> True)"

definition no_waiters :: "StreamBuffer_t \<Rightarrow> bool" where
  "no_waiters S \<longleftrightarrow> xTaskWaitingToReceive S = None \<and> xTaskWaitingToSend S = None"

lemma stream_upd [simp]: "streams (upd_stream s f k) = (streams k)(s := f (streams k s))"
  by (simp add: upd_stream_def)

lemma send_isr_quiet:
  assumes "prvWriteMessageToBuffer d n (xStreamBufferSpacesAvailable (streams k s)) (n + message_length_bytes (streams k s)) (streams k s) = Some (m, S)"
    "no_waiters (streams k s)" "same_config (streams k s) S"
  shows "xStreamBufferSendFromISR s d n False k = Some (m, False, upd_stream s (\<lambda>_. S) k)"
  using assms same_configD(4) [OF assms(3)]
  by (simp add: xStreamBufferSendFromISR_def xStreamBufferSendCompletedFromISR_def no_waiters_def Let_def)

lemma receive_isr_quiet:
  assumes "prvBytesInBuffer (streams k s) > message_length_bytes (streams k s)"
    "prvReadMessageFromBuffer n (prvBytesInBuffer (streams k s)) (streams k s) = Some (d, S)"
    "no_waiters (streams k s)" "same_config (streams k s) S"
  shows "xStreamBufferReceiveFromISR s n False k = Some (d, False, upd_stream s (\<lambda>_. S) k)"
  using assms same_configD(5) [OF assms(4)]
  by (simp add: xStreamBufferReceiveFromISR_def xStreamBufferReceiveCompletedFromISR_def no_waiters_def Let_def)

lemma receive_isr_empty:
  "\<not> prvBytesInBuffer (streams k s) > message_length_bytes (streams k s) \<Longrightarrow> xStreamBufferReceiveFromISR s n w k = Some ([], w, k)"
  by (simp add: xStreamBufferReceiveFromISR_def Let_def)

lemma no_waiters_config: "same_config S S' \<Longrightarrow> no_waiters S \<Longrightarrow> no_waiters S'"
  by (simp add: no_waiters_def same_configD)

text \<open>One call on a stream buffer.\<close>

definition stream_ready :: "StreamBuffer_t \<Rightarrow> bool" where
  "stream_ready S \<longleftrightarrow> sb_inv S \<and> \<not> is_message_buffer S \<and> no_waiters S"

lemma stream_send_isr:
  assumes "stream_ready (streams k s)" "length d < 2 ^ 32"
  obtains n k' where "xStreamBufferSendFromISR s d (of_nat (length d)) False k = Some (n, False, k')"
    "stream_ready (streams k' s)" "sb_contents (streams k' s) = sb_contents (streams k s) @ take (unat n) d"
    "unat n = min (length d) (unat (xStreamBufferSpacesAvailable (streams k s)))"
proof -
  let ?S = "streams k s" and ?n = "of_nat (length d) :: u32"
  have a: "sb_inv ?S" "\<not> is_message_buffer ?S" "no_waiters ?S" using assms(1) by (auto simp: stream_ready_def)
  have n: "unat ?n = length d" using assms(2) by (intro unat_of_nat_less) simp
  obtain S' where w: "prvWriteMessageToBuffer d ?n (xStreamBufferSpacesAvailable ?S) (?n + message_length_bytes ?S) ?S =
      Some (min ?n (xStreamBufferSpacesAvailable ?S), S')" "sb_inv S'" "same_config ?S S'"
    "sb_contents S' = sb_contents ?S @ take (unat (xStreamBufferSpacesAvailable ?S)) d"
    by (rule stream_write [OF a(1,2) order_refl n])
  have m: "unat (min ?n (xStreamBufferSpacesAvailable ?S)) = min (length d) (unat (xStreamBufferSpacesAvailable ?S))"
    by (auto simp: min_def word_le_nat_alt n)
  have "take (unat (xStreamBufferSpacesAvailable ?S)) d = take (unat (min ?n (xStreamBufferSpacesAvailable ?S))) d"
    unfolding m by (simp add: min_def)
  then show thesis
    using that [OF send_isr_quiet [OF w(1) a(3) w(3)]] w(2,4) m a(2) no_waiters_config [OF w(3) a(3)] same_configD(6) [OF w(3)]
    by (simp add: stream_ready_def)
qed

lemma stream_receive_isr:
  assumes "stream_ready (streams k s)"
  obtains d k' where "xStreamBufferReceiveFromISR s n False k = Some (d, False, k')"
    "stream_ready (streams k' s)" "sb_contents (streams k s) = d @ sb_contents (streams k' s)"
    "length d = min (unat n) (length (sb_contents (streams k s)))"
proof (cases "prvBytesInBuffer (streams k s) = 0")
  case True
  have "sb_inv (streams k s)" "\<not> is_message_buffer (streams k s)" using assms by (auto simp: stream_ready_def)
  then show thesis using receive_isr_empty [of k s n False] contents_bounds(1) True assms
    by (intro that [of "[]" k]) (auto simp: message_length_bytes_def)
next
  case False
  let ?S = "streams k s"
  have a: "sb_inv ?S" "\<not> is_message_buffer ?S" "no_waiters ?S" using assms by (auto simp: stream_ready_def)
  have b: "unat (prvBytesInBuffer ?S) = length (sb_contents ?S)" using contents_bounds(1) [OF a(1)] by simp
  let ?m = "unat (min n (prvBytesInBuffer ?S))"
  obtain S' where r: "prvReadMessageFromBuffer n (prvBytesInBuffer ?S) ?S = Some (take ?m (sb_contents ?S), S')" "sb_inv S'"
    "same_config ?S S'" "sb_contents S' = drop ?m (sb_contents ?S)"
    using stream_read [OF a(1,2)] b by (metis order_refl)
  have "prvBytesInBuffer ?S > message_length_bytes ?S" using False a(2) by (simp add: message_length_bytes_def word_gt_0)
  moreover have "?m = min (unat n) (length (sb_contents ?S))" by (auto simp: min_def word_le_nat_alt b)
  ultimately show thesis
    using that [OF receive_isr_quiet [OF _ r(1) a(3) r(3)]] r(2,4) a(2) no_waiters_config [OF r(3) a(3)] same_configD(6) [OF r(3)]
    by (simp add: stream_ready_def)
qed

text \<open>One call on a message buffer.\<close>

definition message_ready :: "u8 list list \<Rightarrow> StreamBuffer_t \<Rightarrow> bool" where
  "message_ready ms S \<longleftrightarrow> sb_inv S \<and> is_message_buffer S \<and> no_waiters S \<and> [] \<notin> set ms \<and> sb_contents S = concat (map frame ms)"

lemma message_send_isr:
  assumes "message_ready ms (streams k s)" "length d + 4 < 2 ^ 32" "d \<noteq> []"
  obtains n k' where "xStreamBufferSendFromISR s d (of_nat (length d)) False k = Some (n, False, k')"
    "unat n = 0 \<and> streams k' s = streams k s \<and> unat (xStreamBufferSpacesAvailable (streams k s)) < 4 + length d \<or>
     unat n = length d \<and> message_ready (ms @ [d]) (streams k' s)"
proof -
  let ?S = "streams k s" and ?n = "of_nat (length d) :: u32" and ?sp = "xStreamBufferSpacesAvailable (streams k s)"
  have a: "sb_inv ?S" "is_message_buffer ?S" "no_waiters ?S" "[] \<notin> set ms" "sb_contents ?S = concat (map frame ms)"
    using assms(1) by (auto simp: message_ready_def)
  have n: "unat ?n = length d" using assms(2) by (intro unat_of_nat_less) simp
  have req: "unat (?n + message_length_bytes ?S) = 4 + length d"
    using assms(2) a(2) n by (subst unat_add_small) (simp_all add: message_length_bytes_def)
  show thesis
  proof (cases "4 + length d \<le> unat ?sp")
    case True
    obtain S' where w: "prvWriteMessageToBuffer d ?n ?sp (?n + message_length_bytes ?S) ?S = Some (?n, S')" "sb_inv S'"
      "same_config ?S S'" "sb_contents S' = sb_contents ?S @ frame d"
      by (rule message_write [OF a(1,2) order_refl n assms(3) req True])
    then show thesis
      using that [OF send_isr_quiet [OF w(1) a(3) w(3)]] n a assms(3) no_waiters_config [OF w(3) a(3)] same_configD(6) [OF w(3)]
      by (simp add: message_ready_def)
  next
    case False
    then have "prvWriteMessageToBuffer d ?n ?sp (?n + message_length_bytes ?S) ?S = Some (0, ?S)"
      by (intro message_no_room [OF a(2) req]) simp
    then show thesis using that [OF send_isr_quiet [OF _ a(3)]] False by auto
  qed
qed

lemma message_receive_isr:
  assumes "message_ready ms (streams k s)"
  obtains d k' where "xStreamBufferReceiveFromISR s n False k = Some (d, False, k')"
    "(case ms of [] \<Rightarrow> d = [] \<and> k' = k
      | m # ms' \<Rightarrow> if length m \<le> unat n then d = m \<and> message_ready ms' (streams k' s)
                    else d = [] \<and> message_ready ms (streams k' s))"
proof (cases ms)
  case Nil
  have "sb_contents (streams k s) = []" "sb_inv (streams k s)" using assms Nil by (auto simp: message_ready_def)
  then have "prvBytesInBuffer (streams k s) = 0" using contents_bounds(1) [of "streams k s"] by (simp add: unat_eq_zero)
  then show thesis using receive_isr_empty [of k s n False] Nil by (intro that [of "[]" k]) auto
next
  case (Cons m ms')
  let ?S = "streams k s"
  have a: "sb_inv ?S" "is_message_buffer ?S" "no_waiters ?S" "m \<noteq> []" "sb_contents ?S = frame m @ concat (map frame ms')"
    using assms Cons by (auto simp: message_ready_def)
  have b: "unat (prvBytesInBuffer ?S) = length (sb_contents ?S)" using contents_bounds(1) [OF a(1)] by simp
  have l: "4 + length m \<le> unat (prvBytesInBuffer ?S)" unfolding b a(5) by simp
  obtain S' where r: "prvReadMessageFromBuffer n (prvBytesInBuffer ?S) ?S = Some (if length m \<le> unat n then m else [], S')" "sb_inv S'"
    "same_config ?S S'" "sb_contents S' = (if length m \<le> unat n then concat (map frame ms') else sb_contents ?S)"
    by (rule message_read [OF a(1,2,5,4) l eq_refl [OF b]])
  have "prvBytesInBuffer ?S > message_length_bytes ?S"
    using l a(2,4) by (cases m) (simp_all add: message_length_bytes_def word_less_nat_alt)
  then show thesis
    using that [OF receive_isr_quiet [OF _ r(1) a(3) r(3)]] r(2,4) a assms Cons no_waiters_config [OF r(3) a(3)] same_configD(6) [OF r(3)]
    by (auto simp: message_ready_def)
qed

section \<open>Waking a reader\<close>

lemma upd_stream_fields [simp]:
  "tcbs (upd_stream s f k) = tcbs k" "pxCurrentTCB (upd_stream s f k) = pxCurrentTCB k"
  "uxCurrentNumberOfTasks (upd_stream s f k) = uxCurrentNumberOfTasks k" "sched_inv (upd_stream s f k) = sched_inv k"
  "quiet (upd_stream s f k) = quiet k" "xTickCount (upd_stream s f k) = xTickCount k"
  "uxSchedulerSuspended (upd_stream s f k) = uxSchedulerSuspended k" "xPendedTicks (upd_stream s f k) = xPendedTicks k"
  "pxDelayedTaskList (upd_stream s f k) = pxDelayedTaskList k"
  "pxOverflowDelayedTaskList (upd_stream s f k) = pxOverflowDelayedTaskList k"
  by (simp_all add: upd_stream_def inv_defs lists_ok_def ready_ok_def delayed_ok_def quiet_def pending_def)

lemma streams_more: "kernel.more k' = kernel.more k \<Longrightarrow> streams k' = streams k"
  by (cases k; cases k'; simp)

lemma prio_upd_stream [simp]: "prio (upd_stream s f k) t = prio k t"
  by simp

lemma receive_completed_quiet:
  assumes "can_run c k" "xTaskWaitingToSend (streams k s) = None"
  obtains k' where "prvRECEIVE_COMPLETED s k = Some k'" "can_run c k'" "streams k' = streams k" "tcbs k' = tcbs k"
proof -
  let ?k = "vTaskSuspendAll k"
  have f: "sched_inv ?k" "uxSchedulerSuspended ?k = 1" "xPendedTicks ?k = 0" "\<And>t. \<not> pending ?k t" "pxCurrentTCB ?k = Some c"
    "uxCurrentNumberOfTasks ?k > 0" "streams ?k = streams k" "tcbs ?k = tcbs k"
    using assms(1) by (simp_all add: can_run_def vTaskSuspendAll_def quiet_def pending_def)
  obtain y k' where r: "xTaskResumeAll ?k = Some (y, k')" "sched_inv k'" "quiet k'" "tcbs k' = tcbs ?k"
    "pxCurrentTCB k' = Some c" "kernel.more k' = kernel.more ?k" "uxCurrentNumberOfTasks k' = uxCurrentNumberOfTasks ?k"
    by (rule suspend_resume_quiet [OF f(1-6)])
  then show thesis using assms(2) f streams_more [OF r(6)]
    by (intro that [of k']) (simp_all add: prvRECEIVE_COMPLETED_def can_run_def)
qed

text \<open>A send from an interrupt that reaches the trigger level of a buffer with a registered reader.\<close>

lemma stream_send_isr_wakes:
  assumes "can_run u k" "sb_inv (streams k s)" "\<not> is_message_buffer (streams k s)"
    "xTaskWaitingToReceive (streams k s) = Some c" "xTaskWaitingToSend (streams k s) = None" "notify_ok c k"
    "data \<noteq> []" "length data \<le> unat (xStreamBufferSpacesAvailable (streams k s))"
    "unat (xTriggerLevelBytes (streams k s)) \<le> length data"
  obtains k' where "xStreamBufferSendFromISR s data (of_nat (length data)) False k =
      Some (of_nat (length data), ucNotifyState (tcbs k c) = taskWAITING_NOTIFICATION \<and> prio k u < prio k c, k')"
    "can_run u k'" "stream_ready (streams k' s)" "sb_contents (streams k' s) = sb_contents (streams k s) @ data"
    "tcbs k' = (tcbs k)(c := after_notify eNoAction 0 (tcbs k c))"
proof -
  let ?S = "streams k s" and ?n = "of_nat (length data) :: u32" and ?sp = "xStreamBufferSpacesAvailable (streams k s)"
  have "length data < 2 ^ 32" using assms(8) contents_bounds(3) [OF assms(2)] sb_invD(4) [OF assms(2)] by simp
  then have n: "unat ?n = length data" by (intro unat_of_nat_less) simp
  then have mn: "min ?n ?sp = ?n" using assms(8) by (simp add: min_def word_le_nat_alt)
  obtain S' where w: "prvWriteMessageToBuffer data ?n ?sp (?n + message_length_bytes ?S) ?S = Some (min ?n ?sp, S')" "sb_inv S'"
    "same_config ?S S'" "sb_contents S' = sb_contents ?S @ take (unat ?sp) data"
    by (rule stream_write [OF assms(2,3) order_refl n])
  note cf = same_configD [OF w(3)]
  have c': "sb_contents S' = sb_contents ?S @ data" using w(4) assms(8) by simp
  have "?n > 0" using assms(7) n by (metis length_greater_0_conv unat_0 word_less_nat_alt)
  moreover have "prvBytesInBuffer S' \<ge> xTriggerLevelBytes S'"
    unfolding word_le_nat_alt contents_bounds(1) [OF w(2), symmetric] c' cf(2) using assms(9) by simp
  moreover let ?k = "upd_stream s (\<lambda>_. S') k"
  have p: "sched_inv ?k" "pxCurrentTCB ?k = Some u" "notify_ok c ?k" "quiet ?k"
    using assms(1,6) by (simp_all add: can_run_def notify_ok_def)
  obtain r k1 where i: "xTaskGenericNotifyFromISR c 0 0 eNoAction False ?k =
      Some (r, False \<or> ucNotifyState (tcbs ?k c) = taskWAITING_NOTIFICATION \<and> prio ?k u < prio ?k c, k1)"
    "sched_inv k1" "tcbs k1 = (tcbs ?k)(c := after_notify eNoAction 0 (tcbs ?k c))" "kernel.more k1 = kernel.more ?k"
    "pxCurrentTCB k1 = Some u" "quiet k1" "uxCurrentNumberOfTasks k1 = uxCurrentNumberOfTasks ?k"
    by (rule xTaskGenericNotifyFromISR_spec [OF p])
  have s1: "streams k1 s = S'" using streams_more [OF i(4)] by simp
  let ?k' = "upd_stream s (\<lambda>S. S\<lparr>xTaskWaitingToReceive := None\<rparr>) k1"
  have b: "prvBytesInBuffer (S'\<lparr>xTaskWaitingToReceive := None\<rparr>) = prvBytesInBuffer S'" by (simp add: prvBytesInBuffer_def Let_def)
  have "stream_ready (streams ?k' s)" "sb_contents (streams ?k' s) = sb_contents S'"
    using w(2) assms(3,5) cf by (simp_all add: s1 stream_ready_def sb_inv_def no_waiters_def is_message_buffer_def sb_contents_def b)
  ultimately show thesis
    using w(1) mn i c' cf(4) assms(1,4)
    by (intro that [of ?k']) (simp_all add: xStreamBufferSendFromISR_def xStreamBufferSendCompletedFromISR_def Let_def can_run_def)
qed

text \<open>The three parts of a receive: the check of an empty buffer, the wait, and the read.\<close>

lemma upd_tcb_streams [simp]: "streams (upd_tcb t f k) = streams k"
  by (rule streams_more) simp

lemma can_run_stream [simp]: "can_run c (upd_stream s f k) = can_run c k"
  by (simp add: can_run_def)

lemma can_run_keeps: "keeps_sched f \<Longrightarrow> can_run c (upd_tcb t f k) = can_run c k"
  by (auto simp: can_run_def sched_inv_keeps quiet_def pending_def keeps_sched_def)

lemma recv_check_empty:
  assumes "can_run c k" "stream_ready (streams k s)" "sb_contents (streams k s) = []" "ticks \<noteq> 0"
    "ucNotifyState (tcbs k c) \<noteq> taskWAITING_NOTIFICATION"
  obtains f where "keeps_sched f" "ucNotifyState (f (tcbs k c)) = taskNOT_WAITING_NOTIFICATION"
    "xStreamBufferReceive_step s n ticks (RecvCheck, b) k =
       Some ((RecvWait, 0), upd_stream s (\<lambda>S. S\<lparr>xTaskWaitingToReceive := Some c\<rparr>) (upd_tcb c f k))"
proof -
  let ?f = "\<lambda>b :: tcb. b\<lparr>ucNotifyState := taskNOT_WAITING_NOTIFICATION\<rparr>"
  have "prvBytesInBuffer (streams k s) = 0" "message_length_bytes (streams k s) = 0" "pxCurrentTCB k = Some c"
    "xTaskWaitingToReceive (streams k s) = None"
    using assms(1-3) contents_bounds(1) [of "streams k s"]
    by (auto simp: stream_ready_def message_length_bytes_def can_run_def no_waiters_def unat_eq_zero)
  moreover have "\<exists>r. xTaskGenericNotifyStateClear None 0 k = Some (r, upd_tcb c ?f k)"
  proof (cases "ucNotifyState (tcbs k c) = taskNOTIFICATION_RECEIVED")
    case True
    with calculation(3) show ?thesis
      by (auto simp: xTaskGenericNotifyStateClear_def get_tcb_def configASSERT_def configTASK_NOTIFICATION_ARRAY_ENTRIES_def)
  next
    case False
    then have "ucNotifyState (tcbs k c) = taskNOT_WAITING_NOTIFICATION"
      using assms(5) by (cases "ucNotifyState (tcbs k c)") auto
    then have "?f (tcbs k c) = tcbs k c" by (cases "tcbs k c") simp
    then have "upd_tcb c ?f k = k" by (simp add: upd_tcb_def)
    with False calculation(3) show ?thesis
      by (auto simp: xTaskGenericNotifyStateClear_def get_tcb_def configASSERT_def configTASK_NOTIFICATION_ARRAY_ENTRIES_def)
  qed
  ultimately show thesis using assms(4)
    by (intro that [of ?f]) (auto simp: xStreamBufferReceive_step_def Let_def configASSERT_def)
qed

lemma recv_finish:
  assumes "can_run c k" "stream_ready (streams k s)" "sb_contents (streams k s) = data" "data \<noteq> []"
  shows "\<exists>k1 k2. xStreamBufferReceive_step s n ticks (RecvWake, b) k = Some ((RecvRead, of_nat (length data)), k1) \<and>
    xStreamBufferReceive_step s n ticks (RecvRead, of_nat (length data)) k1 =
      Some ((RecvDone (take (unat n) data), of_nat (length data)), k2) \<and>
    can_run c k2 \<and> stream_ready (streams k2 s) \<and> sb_contents (streams k2 s) = drop (unat n) data"
proof -
  let ?S = "streams k s" and ?n = "of_nat (length data) :: u32"
  have a: "sb_inv ?S" "\<not> is_message_buffer ?S" "no_waiters ?S" using assms(2) by (auto simp: stream_ready_def)
  define f where "f = (\<lambda>b :: tcb. b\<lparr>ulNotifiedValue := (if ucNotifyState (tcbs k c) = taskNOTIFICATION_RECEIVED
    then ulNotifiedValue (tcbs k c) AND NOT 0 else ulNotifiedValue (tcbs k c)), ucNotifyState := taskNOT_WAITING_NOTIFICATION\<rparr>)"
  obtain r where f: "keeps_sched f" "notify_wait_exit 0 k = Some (r, upd_tcb c f k)"
    using assms(1) by (simp add: notify_wait_exit_def can_run_def Let_def f_def)
  have b: "unat (prvBytesInBuffer ?S) = length data" using contents_bounds(1) [OF a(1)] assms(3) by simp
  moreover have "of_nat (unat (prvBytesInBuffer ?S)) = prvBytesInBuffer ?S" by simp
  ultimately have bn: "prvBytesInBuffer ?S = ?n" by simp
  define k1 where "k1 = upd_stream s (\<lambda>S. S\<lparr>xTaskWaitingToReceive := None\<rparr>) (upd_tcb c f k)"
  have s1: "streams k1 s = ?S" using a(3) by (simp add: k1_def no_waiters_def)
  have c1: "can_run c k1" using assms(1) f(1) by (simp add: k1_def can_run_keeps)
  have w: "xStreamBufferReceive_step s n ticks (RecvWake, b) k = Some ((RecvRead, ?n), k1)"
    using f(2) s1 bn by (simp add: xStreamBufferReceive_step_def k1_def Let_def)
  have m: "unat (min n ?n) = min (unat n) (length data)" using b bn by (auto simp: min_def word_le_nat_alt)
  obtain S' where r: "prvReadMessageFromBuffer n ?n ?S = Some (take (unat (min n ?n)) (sb_contents ?S), S')" "sb_inv S'"
    "same_config ?S S'" "sb_contents S' = drop (unat (min n ?n)) (sb_contents ?S)"
    using stream_read [OF a(1,2), of ?n] b bn assms(3) by (metis order_refl)
  have td: "take (unat (min n ?n)) data = take (unat n) data" "drop (unat (min n ?n)) data = drop (unat n) data"
    unfolding m by (simp_all add: min_def)
  let ?k = "upd_stream s (\<lambda>_. S') k1"
  have sr: "stream_ready S'" using r(2) a(2) same_configD(6) [OF r(3)] no_waiters_config [OF r(3) a(3)] by (simp add: stream_ready_def)
  have "can_run c ?k" "xTaskWaitingToSend (streams ?k s) = None"
    using c1 sr by (simp_all add: can_run_def stream_ready_def no_waiters_def)
  then obtain k2 where rc: "prvRECEIVE_COMPLETED s ?k = Some k2" "can_run c k2" "streams k2 = streams ?k"
    by (rule receive_completed_quiet)
  have pos: "?n > message_length_bytes (streams k1 s)"
    using a(2) b bn assms(4) by (simp add: s1 message_length_bytes_def word_less_nat_alt)
  show ?thesis
  proof (cases "take (unat n) data = []")
    case True
    then have "xStreamBufferReceive_step s n ticks (RecvRead, ?n) k1 = Some ((RecvDone (take (unat n) data), ?n), ?k)"
      using r(1) td(1) pos assms(3) by (simp add: xStreamBufferReceive_step_def s1)
    then show ?thesis using w sr r(4) td(2) assms(3) \<open>can_run c ?k\<close> by auto
  next
    case False
    then have "xStreamBufferReceive_step s n ticks (RecvRead, ?n) k1 = Some ((RecvDone (take (unat n) data), ?n), k2)"
      using r(1) td(1) pos assms(3) rc(1) by (simp add: xStreamBufferReceive_step_def s1)
    then show ?thesis using w sr r(4) td(2) assms(3) rc(2,3) by auto
  qed
qed

lemma recv_wait_blocks:
  assumes "can_run c k" "state_list (tcbs k c) = Some (Ready (prio k c))" "n \<noteq> 0"
    "ucNotifyState (tcbs k c) \<noteq> taskNOTIFICATION_RECEIVED"
  obtains k' where "xStreamBufferReceive_step s len n (RecvWait, b) k = Some ((RecvWake, b), k')"
    "can_run c k'" "streams k' = streams k" "notify_ok c k'" "ucNotifyState (tcbs k' c) = taskWAITING_NOTIFICATION"
    "\<And>t. prio k' t = prio k t"
    "if n = portMAX_DELAY then state_list (tcbs k' c) = Some SuspendedTaskList else blocked k' c \<and> remaining k' c = unat n"
proof -
  let ?f = "\<lambda>b :: tcb. b\<lparr>ulNotifiedValue := ulNotifiedValue b AND NOT 0, ucNotifyState := taskWAITING_NOTIFICATION\<rparr>"
  have r: "sched_inv k" "quiet k" "pxCurrentTCB k = Some c" "uxCurrentNumberOfTasks k > 0" using assms(1) by (auto simp: can_run_def)
  have ev: "event_list (tcbs k c) = None"
    using sched_inv_parts(6) [OF r(1), of c] assms(2) by (cases "event_list (tcbs k c)") auto
  obtain k0 where b: "prvAddCurrentTaskToDelayedList n True (upd_tcb c ?f k) = Some k0" "sched_inv k0"
    "tcbs k0 = (tcbs k)(c := parked n True k (?f (tcbs k c)))" "pxCurrentTCB k0 = Some c" "kernel.more k0 = kernel.more k"
    "xTickCount k0 = xTickCount k" "uxSchedulerSuspended k0 = uxSchedulerSuspended k"
    "pxDelayedTaskList k0 = pxDelayedTaskList k" "pxOverflowDelayedTaskList k0 = pxOverflowDelayedTaskList k"
    "xPendedTicks k0 = xPendedTicks k" "uxCurrentNumberOfTasks k0 = uxCurrentNumberOfTasks k"
    using block_for_notification [OF r(1,3) assms(2,3), of ?f] by auto
  let ?k = "portYIELD k0"
  have t: "tcbs ?k = (tcbs k)(c := parked n True k (?f (tcbs k c)))" by (simp add: portYIELD_def b(3))
  have "xStreamBufferReceive_step s len n (RecvWait, x) k = Some ((RecvWake, x), ?k)" for x
    using r(3) assms(3,4) b(1) by (simp add: xStreamBufferReceive_step_def notify_wait_enter_def configASSERT_def
        configTASK_NOTIFICATION_ARRAY_ENTRIES_def word_gt_0)
  moreover have "can_run c ?k"
    using r b(2,4,7,10,11) ev by (simp add: can_run_def portYIELD_def quiet_def pending_def b(3))
  moreover have "streams ?k = streams k" using streams_more [OF b(5)] by (simp add: portYIELD_def)
  moreover have "notify_ok c ?k" "ucNotifyState (tcbs ?k c) = taskWAITING_NOTIFICATION" "\<And>t. prio ?k t = prio k t"
    using ev by (auto simp: t notify_ok_def)
  moreover have "if n = portMAX_DELAY then state_list (tcbs ?k c) = Some SuspendedTaskList else blocked ?k c \<and> remaining ?k c = unat n"
    using delayed_lists_distinct [OF sched_inv_parts(4) [OF r(1)]]
    by (auto simp: portYIELD_def b(3,6,8,9) parked_def blocked_def remaining_def)
  ultimately show thesis using that by blast
qed

section \<open>Properties\<close>

text \<open>
  C33. A stream buffer loses, duplicates and reorders no byte: over any sequence of sends and receives, what
  it held followed by what the sends stored is what the receives returned followed by what it holds.
\<close>

theorem stream_buffer_no_loss:
  assumes "stream_ready (streams k s)" "list_all fits ops"
  shows "\<exists>acc rec k'. sb_run s ops k = Some (acc, rec, k') \<and> stream_ready (streams k' s) \<and>
    sb_contents (streams k s) @ concat acc = concat rec @ sb_contents (streams k' s)"
  using assms
proof (induction ops arbitrary: k)
  case (Cons x ops)
  show ?case
  proof (cases x)
    case (SbSend d)
    then have "length d < 2 ^ 32" using Cons(3) by (simp add: fits_def)
    then obtain n k1 where k1: "xStreamBufferSendFromISR s d (of_nat (length d)) False k = Some (n, False, k1)"
      "stream_ready (streams k1 s)" "sb_contents (streams k1 s) = sb_contents (streams k s) @ take (unat n) d"
      by (rule stream_send_isr [OF Cons(2)])
    obtain acc rec k' where "sb_run s ops k1 = Some (acc, rec, k')" "stream_ready (streams k' s)"
      "sb_contents (streams k1 s) @ concat acc = concat rec @ sb_contents (streams k' s)"
      using Cons(1) [OF k1(2)] Cons(3) by auto
    moreover from this have "sb_run s (x # ops) k = Some (take (unat n) d # acc, rec, k')" using k1(1) SbSend by simp
    ultimately show ?thesis using k1(1,3) SbSend by auto
  next
    case (SbReceive n)
    obtain d k1 where k1: "xStreamBufferReceiveFromISR s n False k = Some (d, False, k1)"
      "stream_ready (streams k1 s)" "sb_contents (streams k s) = d @ sb_contents (streams k1 s)"
      by (rule stream_receive_isr [OF Cons(2)])
    obtain acc rec k' where "sb_run s ops k1 = Some (acc, rec, k')" "stream_ready (streams k' s)"
      "sb_contents (streams k1 s) @ concat acc = concat rec @ sb_contents (streams k' s)"
      using Cons(1) [OF k1(2)] Cons(3) by auto
    moreover from this have "sb_run s (x # ops) k = Some (acc, d # rec, k')" using k1(1) SbReceive by simp
    ultimately show ?thesis using k1(1,3) SbReceive by auto
  qed
qed auto

text \<open>
  C34. A message buffer keeps messages whole: over any sequence of sends of non-empty messages and receives,
  the messages it held followed by those it accepted are the messages received followed by those it holds;
  a send stores all of a message or nothing, and a receive into a buffer that is too short leaves the
  message in place.
\<close>

theorem message_buffer_whole_messages:
  assumes "message_ready ms (streams k s)" "list_all fits ops" "SbSend [] \<notin> set ops"
  shows "\<exists>acc rec k' ms'. sb_run s ops k = Some (acc, rec, k') \<and> message_ready ms' (streams k' s) \<and>
    ms @ filter (\<lambda>m. m \<noteq> []) acc = filter (\<lambda>m. m \<noteq> []) rec @ ms' \<and>
    set acc \<subseteq> insert [] {d. SbSend d \<in> set ops}"
  using assms
proof (induction ops arbitrary: k ms)
  case (Cons x ops)
  show ?case
  proof (cases x)
    case (SbSend d)
    then have "length d + 4 < 2 ^ 32" "d \<noteq> []" using Cons(3,4) by (auto simp: fits_def)
    then obtain n k1 where k1: "xStreamBufferSendFromISR s d (of_nat (length d)) False k = Some (n, False, k1)"
      "unat n = 0 \<and> streams k1 s = streams k s \<and> unat (xStreamBufferSpacesAvailable (streams k s)) < 4 + length d \<or>
       unat n = length d \<and> message_ready (ms @ [d]) (streams k1 s)"
      by (rule message_send_isr [OF Cons(2)])
    obtain ms1 where m: "message_ready ms1 (streams k1 s)" "ms1 = ms @ filter (\<lambda>m. m \<noteq> []) [take (unat n) d]"
      "take (unat n) d \<in> {[], d}"
    proof (cases "unat n = 0")
      case True
      then show thesis using that [of ms] k1(2) Cons(2) \<open>d \<noteq> []\<close> by simp
    next
      case False
      then show thesis using that [of "ms @ [d]"] k1(2) \<open>d \<noteq> []\<close> by simp
    qed
    obtain acc rec k' ms' where "sb_run s ops k1 = Some (acc, rec, k')" "message_ready ms' (streams k' s)"
      "ms1 @ filter (\<lambda>m. m \<noteq> []) acc = filter (\<lambda>m. m \<noteq> []) rec @ ms'" "set acc \<subseteq> insert [] {d. SbSend d \<in> set ops}"
      using Cons(1) [OF m(1)] Cons(3,4) by auto
    moreover from this have "sb_run s (x # ops) k = Some (take (unat n) d # acc, rec, k')" using k1(1) SbSend by simp
    ultimately show ?thesis using k1(1) m(2,3) SbSend by auto
  next
    case (SbReceive n)
    obtain d k1 where k1: "xStreamBufferReceiveFromISR s n False k = Some (d, False, k1)"
      "(case ms of [] \<Rightarrow> d = [] \<and> k1 = k
        | m # ms' \<Rightarrow> if length m \<le> unat n then d = m \<and> message_ready ms' (streams k1 s)
                      else d = [] \<and> message_ready ms (streams k1 s))"
      by (rule message_receive_isr [OF Cons(2)])
    moreover have "[] \<notin> set ms" using Cons(2) by (simp add: message_ready_def)
    ultimately obtain ms1 where m: "message_ready ms1 (streams k1 s)" "ms = filter (\<lambda>m. m \<noteq> []) [d] @ ms1"
      using Cons(2) by (cases ms) (auto split: if_splits)
    obtain acc rec k' ms' where "sb_run s ops k1 = Some (acc, rec, k')" "message_ready ms' (streams k' s)"
      "ms1 @ filter (\<lambda>m. m \<noteq> []) acc = filter (\<lambda>m. m \<noteq> []) rec @ ms'" "set acc \<subseteq> insert [] {d. SbSend d \<in> set ops}"
      using Cons(1) [OF m(1)] Cons(3,4) by auto
    moreover from this have "sb_run s (x # ops) k = Some (acc, d # rec, k')" using k1(1) SbReceive by simp
    ultimately show ?thesis using k1(1) m(2) SbReceive by auto
  qed
qed auto

text \<open>
  C32. A reader of an empty stream buffer blocks for the time it gave and is not forgotten: an interrupt that
  sends enough bytes to reach the trigger level makes it ready, asks for a switch exactly when the reader
  outranks the running task, and the reader then returns these bytes. When the interrupt comes after the
  reader has found the buffer empty and before it waits, the wait does not block and the bytes are returned
  all the same.
\<close>

theorem stream_reader_woken:
  assumes "can_run c k" "state_list (tcbs k c) = Some (Ready (prio k c))" "ucNotifyState (tcbs k c) \<noteq> taskWAITING_NOTIFICATION"
    "stream_ready (streams k s)" "sb_contents (streams k s) = []" "ticks \<noteq> 0" "data \<noteq> []"
    "length data \<le> unat (xStreamBufferSpacesAvailable (streams k s))" "unat (xTriggerLevelBytes (streams k s)) \<le> length data"
  shows "\<exists>k1. xStreamBufferReceive_step s n ticks (xStreamBufferReceive ticks, 0) k = Some ((RecvWait, 0), k1) \<and>
    (\<exists>k2 k3 k4 k5. xStreamBufferReceive_step s n ticks (RecvWait, 0) k1 = Some ((RecvWake, 0), k2) \<and>
       (if ticks = portMAX_DELAY then state_list (tcbs k2 c) = Some SuspendedTaskList
        else blocked k2 c \<and> remaining k2 c = unat ticks) \<and>
       xStreamBufferSendFromISR s data (of_nat (length data)) False (k2\<lparr>pxCurrentTCB := Some d\<rparr>) =
         Some (of_nat (length data), prio k d < prio k c, k3) \<and>
       state_list (tcbs k3 c) = Some (Ready (prio k c)) \<and>
       xStreamBufferReceive_step s n ticks (RecvWake, 0) (k3\<lparr>pxCurrentTCB := Some c\<rparr>) = Some ((RecvRead, of_nat (length data)), k4) \<and>
       xStreamBufferReceive_step s n ticks (RecvRead, of_nat (length data)) k4 =
         Some ((RecvDone (take (unat n) data), of_nat (length data)), k5) \<and> sb_contents (streams k5 s) = drop (unat n) data) \<and>
    (\<exists>k2 k3 k4. xStreamBufferSendFromISR s data (of_nat (length data)) False k1 = Some (of_nat (length data), False, k2) \<and>
       xStreamBufferReceive_step s n ticks (RecvWait, 0) k2 = Some ((RecvWake, 0), k2) \<and>
       xStreamBufferReceive_step s n ticks (RecvWake, 0) k2 = Some ((RecvRead, of_nat (length data)), k3) \<and>
       xStreamBufferReceive_step s n ticks (RecvRead, of_nat (length data)) k3 =
         Some ((RecvDone (take (unat n) data), of_nat (length data)), k4) \<and> sb_contents (streams k4 s) = drop (unat n) data)"
proof -
  let ?S = "streams k s" and ?len = "of_nat (length data) :: u32"
  let ?W = "\<lambda>S. S\<lparr>xTaskWaitingToReceive := Some c\<rparr>"
  obtain f where f: "keeps_sched f" "ucNotifyState (f (tcbs k c)) = taskNOT_WAITING_NOTIFICATION"
    "xStreamBufferReceive_step s n ticks (RecvCheck, 0) k = Some ((RecvWait, 0), upd_stream s ?W (upd_tcb c f k))"
    by (rule recv_check_empty [OF assms(1,4-6,3)])
  define k1 where "k1 = upd_stream s ?W (upd_tcb c f k)"
  have k1: "can_run c k1" "\<And>t. prio k1 t = prio k t" "state_list (tcbs k1 c) = Some (Ready (prio k1 c))"
    "ucNotifyState (tcbs k1 c) = taskNOT_WAITING_NOTIFICATION"
    using assms(1,2) f(1,2) by (auto simp: k1_def can_run_keeps keeps_sched_def)
  have p: "prvBytesInBuffer (?W ?S) = prvBytesInBuffer ?S" "xStreamBufferSpacesAvailable (?W ?S) = xStreamBufferSpacesAvailable ?S"
    by (simp_all add: prvBytesInBuffer_def xStreamBufferSpacesAvailable_def Let_def)
  have s1: "streams k1 s = ?W ?S" by (simp add: k1_def)
  have q: "sb_inv (?W ?S)" "\<not> is_message_buffer (?W ?S)" "xTaskWaitingToReceive (?W ?S) = Some c" "xTaskWaitingToSend (?W ?S) = None"
    "length data \<le> unat (xStreamBufferSpacesAvailable (?W ?S))" "unat (xTriggerLevelBytes (?W ?S)) \<le> length data"
    "sb_contents (?W ?S) = []"
    using assms(4,5,8,9) unfolding p by (simp_all add: stream_ready_def sb_inv_def is_message_buffer_def no_waiters_def sb_contents_def p)
  obtain k2 where k2: "xStreamBufferReceive_step s n ticks (RecvWait, 0) k1 = Some ((RecvWake, 0), k2)"
    "can_run c k2" "streams k2 = streams k1" "notify_ok c k2" "ucNotifyState (tcbs k2 c) = taskWAITING_NOTIFICATION"
    "\<And>t. prio k2 t = prio k1 t"
    "if ticks = portMAX_DELAY then state_list (tcbs k2 c) = Some SuspendedTaskList else blocked k2 c \<and> remaining k2 c = unat ticks"
    by (rule recv_wait_blocks [OF k1(1,3) assms(6)], use k1(4) in simp, rule that)
  let ?k2 = "k2\<lparr>pxCurrentTCB := Some d\<rparr>"
  have e: "can_run d ?k2" "streams ?k2 s = ?W ?S" "notify_ok c ?k2"
    using k2(2,4) s1 k2(3) by (simp_all add: can_run_def notify_ok_def quiet_def pending_def)
  obtain k3 where k3: "xStreamBufferSendFromISR s data ?len False ?k2 =
      Some (?len, ucNotifyState (tcbs ?k2 c) = taskWAITING_NOTIFICATION \<and> prio ?k2 d < prio ?k2 c, k3)"
    "can_run d k3" "stream_ready (streams k3 s)" "sb_contents (streams k3 s) = sb_contents (streams ?k2 s) @ data"
    "tcbs k3 = (tcbs ?k2)(c := after_notify eNoAction 0 (tcbs ?k2 c))"
    by (rule stream_send_isr_wakes [OF e(1) q(1-4) [folded e(2)] e(3) assms(7) q(5,6) [folded e(2)]])
  let ?k3 = "k3\<lparr>pxCurrentTCB := Some c\<rparr>"
  have "can_run c ?k3" "stream_ready (streams ?k3 s)" "sb_contents (streams ?k3 s) = data"
    using k3(2-4) q(7) e(2) by (simp_all add: can_run_def quiet_def pending_def)
  note fin = recv_finish [OF this assms(7), of n ticks 0]
  have o3: "state_list (tcbs k3 c) = Some (Ready (prio k c))" "prio k2 t = prio k t" for t
    using k2(5,6) k1(2) by (simp_all add: k3(5) after_notify_def)
  have ok1: "notify_ok c k1" using k1(4) by (simp add: notify_ok_def)
  obtain k2' where k2': "xStreamBufferSendFromISR s data ?len False k1 =
      Some (?len, ucNotifyState (tcbs k1 c) = taskWAITING_NOTIFICATION \<and> prio k1 c < prio k1 c, k2')"
    "can_run c k2'" "stream_ready (streams k2' s)" "sb_contents (streams k2' s) = sb_contents (streams k1 s) @ data"
    "tcbs k2' = (tcbs k1)(c := after_notify eNoAction 0 (tcbs k1 c))"
    by (rule stream_send_isr_wakes [OF k1(1) q(1-4) [folded s1] ok1 assms(7) q(5,6) [folded s1]])
  have nw: "xStreamBufferReceive_step s n ticks (RecvWait, 0) k2' = Some ((RecvWake, 0), k2')"
    using k2'(2,5) k1(4) by (simp add: xStreamBufferReceive_step_def notify_wait_enter_def configASSERT_def can_run_def
        configTASK_NOTIFICATION_ARRAY_ENTRIES_def after_notify_def)
  have "sb_contents (streams k2' s) = data" using k2'(4) q(7) s1 by simp
  note fin' = recv_finish [OF k2'(2,3) this assms(7), of n ticks 0]
  show ?thesis
    using f(3) [folded k1_def] k2(1,7) k3(1) o3 k2(5) fin k2'(1) k1(4) nw fin'
    by (auto simp: xStreamBufferReceive_def)
qed

section \<open>Concrete buffers\<close>

definition demo_skernel :: "u8 \<Rightarrow> skernel" where
  "demo_skernel flags = kernel.extend (demo_kernel 0 None)
     \<lparr>streams = (\<lambda>_. prvInitialiseNewStreamBuffer (replicate 9 0) 9 2 flags)\<rparr>"

lemma demo_streams: "streams (demo_skernel flags) s = prvInitialiseNewStreamBuffer (replicate 9 0) 9 2 flags"
  by (simp add: demo_skernel_def kernel.defs)

lemma demo_stream_empty:
  "sb_inv (prvInitialiseNewStreamBuffer (replicate 9 0) 9 2 flags)" "no_waiters (prvInitialiseNewStreamBuffer b n t flags)"
  "sb_contents (prvInitialiseNewStreamBuffer b n t flags) = []"
  "xStreamBufferSpacesAvailable (prvInitialiseNewStreamBuffer b 9 t flags) = 8"
  by (simp_all add: prvInitialiseNewStreamBuffer_def sb_inv_def no_waiters_def sb_contents_def prvBytesInBuffer_def
      xStreamBufferSpacesAvailable_def)

lemma demo_stream_ready: "stream_ready (streams (demo_skernel 0) s)" "sb_contents (streams (demo_skernel 0) s) = []"
  by (simp_all add: demo_streams stream_ready_def demo_stream_empty)
    (simp add: is_message_buffer_def prvInitialiseNewStreamBuffer_def)

lemma demo_message_ready: "message_ready [] (streams (demo_skernel 1) s)"
  by (simp add: demo_streams message_ready_def demo_stream_empty)
    (simp add: is_message_buffer_def prvInitialiseNewStreamBuffer_def sbFLAGS_IS_MESSAGE_BUFFER_def)

lemma demo_can_run: "can_run 1 (demo_skernel flags)"
  using demo_sched_inv [of None 0] demo_quiet
  by (simp add: can_run_def demo_skernel_def demo_kernel_fields del: One_nat_def)

theorem stream_buffer_no_loss_witness:
  "\<exists>acc rec k'. sb_run 0 [SbSend [1, 2, 3], SbReceive 2, SbSend [4, 5, 6, 7, 8, 9, 10, 11], SbReceive 9] (demo_skernel 0) = Some (acc, rec, k') \<and>
    concat acc = concat rec @ sb_contents (streams k' 0)"
  using stream_buffer_no_loss [OF demo_stream_ready(1) [of 0],
      of "[SbSend [1, 2, 3], SbReceive 2, SbSend [4, 5, 6, 7, 8, 9, 10, 11], SbReceive 9]"] demo_stream_ready(2) [of 0]
  by (auto simp: fits_def simp del: sb_run.simps)

theorem message_buffer_whole_messages_witness:
  "\<exists>acc rec k' ms'. sb_run 0 [SbSend [1, 2, 3], SbSend [4, 5], SbReceive 2, SbReceive 9] (demo_skernel 1) = Some (acc, rec, k') \<and>
    filter (\<lambda>m. m \<noteq> []) acc = filter (\<lambda>m. m \<noteq> []) rec @ ms' \<and> set acc \<subseteq> {[], [1, 2, 3], [4, 5]}"
proof -
  let ?ops = "[SbSend [1, 2, 3], SbSend [4, 5], SbReceive 2, SbReceive 9]"
  have "insert [] {d. SbSend d \<in> set ?ops} = {[], [1, 2, 3], [4, 5]}" by auto
  with message_buffer_whole_messages [OF demo_message_ready [of 0], of ?ops] show ?thesis
    by (auto simp: fits_def simp del: sb_run.simps)
qed

theorem stream_reader_woken_witness:
  "\<exists>k1 k2 k3 k4 k5. xStreamBufferReceive_step 0 2 7 (RecvCheck, 0) (demo_skernel 0) = Some ((RecvWait, 0), k1) \<and>
    xStreamBufferReceive_step 0 2 7 (RecvWait, 0) k1 = Some ((RecvWake, 0), k2) \<and> remaining k2 1 = 7 \<and>
    xStreamBufferSendFromISR 0 [1, 2, 3] 3 False (k2\<lparr>pxCurrentTCB := Some 0\<rparr>) = Some (3, True, k3) \<and>
    xStreamBufferReceive_step 0 2 7 (RecvWake, 0) (k3\<lparr>pxCurrentTCB := Some 1\<rparr>) = Some ((RecvRead, 3), k4) \<and>
    xStreamBufferReceive_step 0 2 7 (RecvRead, 3) k4 = Some ((RecvDone [1, 2], 3), k5)"
proof -
  let ?k = "demo_skernel 0"
  have "state_list (tcbs ?k 1) = Some (Ready (prio ?k 1))" "ucNotifyState (tcbs ?k 1) \<noteq> taskWAITING_NOTIFICATION"
    "prio ?k 0 < prio ?k 1"
    by (simp_all add: demo_skernel_def demo_kernel_fields del: One_nat_def) (simp add: demo_defs)
  moreover have "length [1, 2, 3 :: u8] \<le> unat (xStreamBufferSpacesAvailable (streams ?k 0))"
    "unat (xTriggerLevelBytes (streams ?k 0)) \<le> length [1, 2, 3 :: u8]"
    by (simp_all add: demo_streams demo_stream_empty) (simp add: prvInitialiseNewStreamBuffer_def)
  ultimately show ?thesis
    using stream_reader_woken [OF demo_can_run [of 0] _ _ demo_stream_ready, of 7 "[1, 2, 3]" 0 2 0]
    by (simp add: xStreamBufferReceive_def portMAX_DELAY_def del: One_nat_def) blast
qed

end
