(* ===== verification/Kernel_Heap.thy ===== *)
theory Kernel_Heap
  imports Scheduler_Ops
begin

text \<open>
  The kernel's allocator, \<open>FreeRTOS/portable/MemMang/heap_4.c\<close>: first fit over a list of free blocks in the
  order of their addresses, with neighbours merged when a block is freed. Pointers are 32-bit addresses,
  0 is \<open>NULL\<close>. The headers of the blocks lie in a store indexed by address; the addresses of the array
  \<open>ucHeap\<close> and of the variable \<open>xStart\<close>, which the linker chooses, are part of the state.
\<close>

section \<open>State\<close>

record BlockLink_t =
  pxNextFreeBlock :: u32
  xBlockSize :: u32

record heap4 =
  links :: "u32 \<Rightarrow> BlockLink_t"
  ucHeap :: u32
  addr_xStart :: u32
  pxEnd :: u32
  xFreeBytesRemaining :: u32
  xMinimumEverFreeBytesRemaining :: u32
  xNumberOfSuccessfulAllocations :: u32
  xNumberOfSuccessfulFrees :: u32

record hkernel = kernel +
  heap :: heap4

definition NULL :: u32 where "NULL = 0"
definition configTOTAL_HEAP_SIZE :: u32 where "configTOTAL_HEAP_SIZE = 15360"
definition portBYTE_ALIGNMENT :: u32 where "portBYTE_ALIGNMENT = 8"
definition portBYTE_ALIGNMENT_MASK :: u32 where "portBYTE_ALIGNMENT_MASK = 7"
definition sizeof_BlockLink_t :: u32 where "sizeof_BlockLink_t = 8"

definition xHeapStructSize :: u32 where
  "xHeapStructSize = (sizeof_BlockLink_t + (portBYTE_ALIGNMENT - 1)) AND NOT portBYTE_ALIGNMENT_MASK"

definition heapMINIMUM_BLOCK_SIZE :: u32 where
  "heapMINIMUM_BLOCK_SIZE = push_bit 1 xHeapStructSize"

definition heapSIZE_MAX :: u32 where "heapSIZE_MAX = NOT 0"

definition heapMULTIPLY_WILL_OVERFLOW :: "u32 \<Rightarrow> u32 \<Rightarrow> bool" where
  "heapMULTIPLY_WILL_OVERFLOW a b \<longleftrightarrow> a > 0 \<and> b > heapSIZE_MAX div a"

definition heapADD_WILL_OVERFLOW :: "u32 \<Rightarrow> u32 \<Rightarrow> bool" where
  "heapADD_WILL_OVERFLOW a b \<longleftrightarrow> a > heapSIZE_MAX - b"

definition heapBLOCK_ALLOCATED_BITMASK :: u32 where
  "heapBLOCK_ALLOCATED_BITMASK = push_bit 31 1"

definition heapBLOCK_SIZE_IS_VALID :: "u32 \<Rightarrow> bool" where
  "heapBLOCK_SIZE_IS_VALID n \<longleftrightarrow> n AND heapBLOCK_ALLOCATED_BITMASK = 0"

definition upd_link :: "u32 \<Rightarrow> (BlockLink_t \<Rightarrow> BlockLink_t) \<Rightarrow> heap4 \<Rightarrow> heap4" where
  "upd_link p f h = h\<lparr>links := (links h)(p := f (links h p))\<rparr>"

definition nextf :: "heap4 \<Rightarrow> u32 \<Rightarrow> u32" where "nextf h p = pxNextFreeBlock (links h p)"
definition bsize :: "heap4 \<Rightarrow> u32 \<Rightarrow> u32" where "bsize h p = xBlockSize (links h p)"

definition heapBLOCK_IS_ALLOCATED :: "u32 \<Rightarrow> heap4 \<Rightarrow> bool" where
  "heapBLOCK_IS_ALLOCATED p h \<longleftrightarrow> bsize h p AND heapBLOCK_ALLOCATED_BITMASK \<noteq> 0"

definition heapALLOCATE_BLOCK :: "u32 \<Rightarrow> heap4 \<Rightarrow> heap4" where
  "heapALLOCATE_BLOCK p = upd_link p (\<lambda>b. b\<lparr>xBlockSize := xBlockSize b OR heapBLOCK_ALLOCATED_BITMASK\<rparr>)"

definition heapFREE_BLOCK :: "u32 \<Rightarrow> heap4 \<Rightarrow> heap4" where
  "heapFREE_BLOCK p = upd_link p (\<lambda>b. b\<lparr>xBlockSize := xBlockSize b AND NOT heapBLOCK_ALLOCATED_BITMASK\<rparr>)"

section \<open>Initialisation and the free list\<close>

definition prvHeapInit :: "heap4 \<Rightarrow> heap4" where
  "prvHeapInit h =
     (let uxAddress = ucHeap h;
          (uxAddress, xTotalHeapSize) =
            (if uxAddress AND portBYTE_ALIGNMENT_MASK \<noteq> 0
             then (let a = (uxAddress + (portBYTE_ALIGNMENT - 1)) AND NOT portBYTE_ALIGNMENT_MASK
                   in (a, configTOTAL_HEAP_SIZE - (a - ucHeap h)))
             else (uxAddress, configTOTAL_HEAP_SIZE));
          pucAlignedHeap = uxAddress;
          h = upd_link (addr_xStart h) (\<lambda>_. \<lparr>pxNextFreeBlock = pucAlignedHeap, xBlockSize = 0\<rparr>) h;
          uxAddress = (pucAlignedHeap + xTotalHeapSize - xHeapStructSize) AND NOT portBYTE_ALIGNMENT_MASK;
          h = upd_link uxAddress (\<lambda>_. \<lparr>pxNextFreeBlock = NULL, xBlockSize = 0\<rparr>) (h\<lparr>pxEnd := uxAddress\<rparr>);
          h = upd_link pucAlignedHeap
                (\<lambda>_. \<lparr>pxNextFreeBlock = uxAddress, xBlockSize = uxAddress - pucAlignedHeap\<rparr>) h
      in h\<lparr>xMinimumEverFreeBytesRemaining := bsize h pucAlignedHeap, xFreeBytesRemaining := bsize h pucAlignedHeap\<rparr>)"

text \<open>The two loops over the free list.\<close>

partial_function (option) insert_search :: "u32 \<Rightarrow> u32 \<Rightarrow> heap4 \<Rightarrow> u32 option" where
  "insert_search pxBlockToInsert pxIterator h =
     (if nextf h pxIterator < pxBlockToInsert then insert_search pxBlockToInsert (nextf h pxIterator) h
      else Some pxIterator)"

partial_function (option) fit_search :: "u32 \<Rightarrow> u32 \<Rightarrow> u32 \<Rightarrow> heap4 \<Rightarrow> (u32 \<times> u32) option" where
  "fit_search xWantedSize pxPreviousBlock pxBlock h =
     (if bsize h pxBlock < xWantedSize \<and> nextf h pxBlock \<noteq> NULL
      then fit_search xWantedSize pxBlock (nextf h pxBlock) h else Some (pxPreviousBlock, pxBlock))"

definition prvInsertBlockIntoFreeList :: "u32 \<Rightarrow> heap4 \<Rightarrow> heap4 option" where
  "prvInsertBlockIntoFreeList pxBlockToInsert h = do {
     pxIterator \<leftarrow> insert_search pxBlockToInsert (addr_xStart h) h;
     let (pxBlockToInsert, h) =
       (if pxIterator + bsize h pxIterator = pxBlockToInsert
        then (pxIterator, upd_link pxIterator (\<lambda>b. b\<lparr>xBlockSize := xBlockSize b + bsize h pxBlockToInsert\<rparr>) h)
        else (pxBlockToInsert, h));
     let n = nextf h pxIterator;
     let h =
       (if pxBlockToInsert + bsize h pxBlockToInsert = n
        then (if n \<noteq> pxEnd h
              then upd_link pxBlockToInsert
                     (\<lambda>b. b\<lparr>xBlockSize := xBlockSize b + bsize h n, pxNextFreeBlock := nextf h n\<rparr>) h
              else upd_link pxBlockToInsert (\<lambda>b. b\<lparr>pxNextFreeBlock := pxEnd h\<rparr>) h)
        else upd_link pxBlockToInsert (\<lambda>b. b\<lparr>pxNextFreeBlock := n\<rparr>) h);
     Some (if pxIterator \<noteq> pxBlockToInsert
           then upd_link pxIterator (\<lambda>b. b\<lparr>pxNextFreeBlock := pxBlockToInsert\<rparr>) h else h)
   }"

section \<open>Allocation\<close>

text \<open>The size of the block for a request, 0 when there is none.\<close>

definition wanted_size :: "u32 \<Rightarrow> u32" where
  "wanted_size xWantedSize =
     (if xWantedSize > 0
      then (let xAdditionalRequiredSize = xHeapStructSize + portBYTE_ALIGNMENT - (xWantedSize AND portBYTE_ALIGNMENT_MASK)
            in if \<not> heapADD_WILL_OVERFLOW xWantedSize xAdditionalRequiredSize
               then xWantedSize + xAdditionalRequiredSize else 0)
      else xWantedSize)"

text \<open>The block \<open>pxBlock\<close> is split when it is larger than needed.\<close>

definition split_block :: "u32 \<Rightarrow> u32 \<Rightarrow> heap4 \<Rightarrow> heap4 option" where
  "split_block xWantedSize pxBlock h =
     (if bsize h pxBlock - xWantedSize > heapMINIMUM_BLOCK_SIZE then do {
        let pxNewBlockLink = pxBlock + xWantedSize;
        configASSERT (pxNewBlockLink AND portBYTE_ALIGNMENT_MASK = 0);
        let h = upd_link pxNewBlockLink (\<lambda>b. b\<lparr>xBlockSize := bsize h pxBlock - xWantedSize\<rparr>) h;
        let h = upd_link pxBlock (\<lambda>b. b\<lparr>xBlockSize := xWantedSize\<rparr>) h;
        prvInsertBlockIntoFreeList pxNewBlockLink h
      } else Some h)"

text \<open>The counters and the header of a block that is handed out.\<close>

definition finish_take :: "u32 \<Rightarrow> heap4 \<Rightarrow> heap4" where
  "finish_take pxBlock h =
     (let h = h\<lparr>xFreeBytesRemaining := xFreeBytesRemaining h - bsize h pxBlock\<rparr>;
          h = h\<lparr>xMinimumEverFreeBytesRemaining :=
                (if xFreeBytesRemaining h < xMinimumEverFreeBytesRemaining h
                 then xFreeBytesRemaining h else xMinimumEverFreeBytesRemaining h)\<rparr>;
          h = heapALLOCATE_BLOCK pxBlock h;
          h = upd_link pxBlock (\<lambda>b. b\<lparr>pxNextFreeBlock := NULL\<rparr>) h
      in h\<lparr>xNumberOfSuccessfulAllocations := xNumberOfSuccessfulAllocations h + 1\<rparr>)"

text \<open>The block \<open>pxBlock\<close> after \<open>pxPreviousBlock\<close> in the free list is taken.\<close>

definition take_block :: "u32 \<Rightarrow> u32 \<Rightarrow> u32 \<Rightarrow> heap4 \<Rightarrow> (u32 \<times> heap4) option" where
  "take_block xWantedSize pxPreviousBlock pxBlock h = do {
     let pvReturn = nextf h pxPreviousBlock + xHeapStructSize;
     let h = upd_link pxPreviousBlock (\<lambda>b. b\<lparr>pxNextFreeBlock := nextf h pxBlock\<rparr>) h;
     h \<leftarrow> split_block xWantedSize pxBlock h;
     Some (pvReturn, finish_take pxBlock h)
   }"

definition malloc_section :: "u32 \<Rightarrow> heap4 \<Rightarrow> (u32 \<times> heap4) option" where
  "malloc_section xWantedSize h = do {
     let h = (if pxEnd h = NULL then prvHeapInit h else h);
     let xWantedSize = wanted_size xWantedSize;
     if heapBLOCK_SIZE_IS_VALID xWantedSize \<and> xWantedSize > 0 \<and> xWantedSize \<le> xFreeBytesRemaining h
     then do {
       (pxPreviousBlock, pxBlock) \<leftarrow> fit_search xWantedSize (addr_xStart h) (nextf h (addr_xStart h)) h;
       if pxBlock \<noteq> pxEnd h then take_block xWantedSize pxPreviousBlock pxBlock h else Some (NULL, h)
     } else Some (NULL, h)
   }"

definition pvPortMalloc :: "u32 \<Rightarrow> 'z hkernel_scheme \<Rightarrow> (u32 \<times> 'z hkernel_scheme) option" where
  "pvPortMalloc xWantedSize k = do {
     let k = vTaskSuspendAll k;
     (pvReturn, h) \<leftarrow> malloc_section xWantedSize (heap k);
     (_, k) \<leftarrow> xTaskResumeAll (k\<lparr>heap := h\<rparr>);
     configASSERT (pvReturn AND portBYTE_ALIGNMENT_MASK = 0);
     Some (pvReturn, k)
   }"

text \<open>The bytes that \<open>pvPortCalloc\<close> clears are not part of the state; the boolean says that they are cleared.\<close>

definition pvPortCalloc :: "u32 \<Rightarrow> u32 \<Rightarrow> 'z hkernel_scheme \<Rightarrow> ((u32 \<times> bool) \<times> 'z hkernel_scheme) option" where
  "pvPortCalloc xNum xSize k =
     (if \<not> heapMULTIPLY_WILL_OVERFLOW xNum xSize
      then do { (pv, k) \<leftarrow> pvPortMalloc (xNum * xSize) k; Some ((pv, pv \<noteq> NULL), k) }
      else Some ((NULL, False), k))"

section \<open>Release\<close>

definition free_section :: "u32 \<Rightarrow> heap4 \<Rightarrow> heap4 option" where
  "free_section pxLink h = do {
     let h = h\<lparr>xFreeBytesRemaining := xFreeBytesRemaining h + bsize h pxLink\<rparr>;
     h \<leftarrow> prvInsertBlockIntoFreeList pxLink h;
     Some (h\<lparr>xNumberOfSuccessfulFrees := xNumberOfSuccessfulFrees h + 1\<rparr>)
   }"

definition vPortFree :: "u32 \<Rightarrow> 'z hkernel_scheme \<Rightarrow> 'z hkernel_scheme option" where
  "vPortFree pv k =
     (if pv \<noteq> NULL then do {
        let pxLink = pv - xHeapStructSize;
        configASSERT (heapBLOCK_IS_ALLOCATED pxLink (heap k));
        configASSERT (nextf (heap k) pxLink = NULL);
        let k = k\<lparr>heap := heapFREE_BLOCK pxLink (heap k)\<rparr>;
        let k = vTaskSuspendAll k;
        h \<leftarrow> free_section pxLink (heap k);
        (_, k) \<leftarrow> xTaskResumeAll (k\<lparr>heap := h\<rparr>);
        Some k
      } else Some k)"

section \<open>Statistics\<close>

definition xPortGetFreeHeapSize :: "heap4 \<Rightarrow> u32" where
  "xPortGetFreeHeapSize h = xFreeBytesRemaining h"

definition xPortGetMinimumEverFreeHeapSize :: "heap4 \<Rightarrow> u32" where
  "xPortGetMinimumEverFreeHeapSize h = xMinimumEverFreeBytesRemaining h"

record HeapStats_t =
  xAvailableHeapSpaceInBytes :: u32
  xSizeOfLargestFreeBlockInBytes :: u32
  xSizeOfSmallestFreeBlockInBytes :: u32
  xNumberOfFreeBlocks :: u32
  stat_MinimumEverFreeBytesRemaining :: u32
  stat_NumberOfSuccessfulAllocations :: u32
  stat_NumberOfSuccessfulFrees :: u32

partial_function (option) stats_walk :: "u32 \<Rightarrow> u32 \<Rightarrow> u32 \<Rightarrow> u32 \<Rightarrow> heap4 \<Rightarrow> (u32 \<times> u32 \<times> u32) option" where
  "stats_walk xBlocks xMaxSize xMinSize pxBlock h =
     (if pxBlock \<noteq> pxEnd h
      then stats_walk (xBlocks + 1) (if bsize h pxBlock > xMaxSize then bsize h pxBlock else xMaxSize)
             (if bsize h pxBlock < xMinSize then bsize h pxBlock else xMinSize) (nextf h pxBlock) h
      else Some (xBlocks, xMaxSize, xMinSize))"

definition vPortGetHeapStats :: "'z hkernel_scheme \<Rightarrow> (HeapStats_t \<times> 'z hkernel_scheme) option" where
  "vPortGetHeapStats k = do {
     let k = vTaskSuspendAll k;
     let pxBlock = nextf (heap k) (addr_xStart (heap k));
     (xBlocks, xMaxSize, xMinSize) \<leftarrow>
       (if pxBlock \<noteq> NULL then stats_walk 0 0 portMAX_DELAY pxBlock (heap k) else Some (0, 0, portMAX_DELAY));
     (_, k) \<leftarrow> xTaskResumeAll k;
     let h = heap k;
     Some (\<lparr>xAvailableHeapSpaceInBytes = xFreeBytesRemaining h, xSizeOfLargestFreeBlockInBytes = xMaxSize,
        xSizeOfSmallestFreeBlockInBytes = xMinSize, xNumberOfFreeBlocks = xBlocks,
        stat_MinimumEverFreeBytesRemaining = xMinimumEverFreeBytesRemaining h,
        stat_NumberOfSuccessfulAllocations = xNumberOfSuccessfulAllocations h,
        stat_NumberOfSuccessfulFrees = xNumberOfSuccessfulFrees h\<rparr>, k)
   }"

end
