(* ===== verification/Heap_Props.thy ===== *)
theory Heap_Props
  imports Kernel_Heap
begin

text \<open>
  Correctness of the allocator: the headers in memory represent a list of blocks that tile the heap, a
  request takes the first free block that is large enough, blocks handed out are aligned and disjoint, and
  a freed block is merged with its free neighbours.
\<close>

section \<open>The blocks of the heap\<close>

text \<open>A block: its address, its size with the header, and whether it is handed out.\<close>

type_synonym block = "u32 \<times> u32 \<times> bool"

definition used :: "block \<Rightarrow> bool" where "used x = snd (snd x)"
definition blk_size :: "block \<Rightarrow> u32" where "blk_size x = fst (snd x)"
definition frees :: "block list \<Rightarrow> u32 list" where "frees bs = map fst (filter (\<lambda>x. \<not> used x) bs)"

lemma block_sel [simp]: "used (a, s, u) = u" "blk_size (a, s, u) = s"
  by (simp_all add: used_def blk_size_def)

lemma frees_simps [simp]:
  "frees [] = []" "frees ((a, s, u) # bs) = (if u then frees bs else a # frees bs)" "frees (us @ vs) = frees us @ frees vs"
  by (simp_all add: frees_def)

text \<open>The blocks lie one after the other from \<open>a\<close> to \<open>e\<close>.\<close>

fun tiles :: "u32 \<Rightarrow> block list \<Rightarrow> u32 \<Rightarrow> bool" where
  "tiles a [] e \<longleftrightarrow> a = e"
| "tiles a ((b, s, u) # bs) e \<longleftrightarrow> b = a \<and> a < a + s \<and> 16 \<le> s \<and> s AND 7 = 0 \<and> tiles (a + s) bs e"

lemma tiles_append: "tiles a (us @ vs) e \<longleftrightarrow> (\<exists>m. tiles a us m \<and> tiles m vs e)"
  by (induction us arbitrary: a) auto

lemma tiles_le: "tiles a bs e \<Longrightarrow> a \<le> e"
  by (induction a bs e rule: tiles.induct) auto

lemma tiles_in: "tiles a bs e \<Longrightarrow> (b, s, u) \<in> set bs \<Longrightarrow> a \<le> b \<and> b < b + s \<and> b + s \<le> e \<and> 16 \<le> s \<and> s AND 7 = 0"
proof (induction a bs e rule: tiles.induct)
  case (2 a b s u bs e)
  then show ?case using tiles_le [of "a + s" bs e] by auto
qed auto

lemma tiles_unique:
  "tiles a (us @ (b, s, u) # vs) e \<Longrightarrow> c \<in> fst ` set us \<Longrightarrow> c < b"
  "tiles a (us @ (b, s, u) # vs) e \<Longrightarrow> c \<in> fst ` set vs \<Longrightarrow> b + s \<le> c"
  "tiles a (us @ (b, s, u) # vs) e \<Longrightarrow> b < b + s \<and> b + s \<le> e"
  by (auto simp: tiles_append dest: tiles_in tiles_le)

lemma frees_subset: "set (frees bs) \<subseteq> fst ` set bs"
  by (auto simp: frees_def)

lemma key_neq: "x \<notin> fst ` set bs \<Longrightarrow> (c, t, v) \<in> set bs \<Longrightarrow> c \<noteq> x"
  by force

lemma distinct_frees: "distinct (map fst bs) \<Longrightarrow> distinct (frees bs)"
  by (simp add: frees_def distinct_map_filter)

text \<open>The free list: from \<open>p\<close> over \<open>fs\<close> to the end marker.\<close>

fun path :: "heap4 \<Rightarrow> u32 \<Rightarrow> u32 list \<Rightarrow> u32 \<Rightarrow> bool" where
  "path h p [] e \<longleftrightarrow> nextf h p = e"
| "path h p (f # fs) e \<longleftrightarrow> nextf h p = f \<and> path h f fs e"

lemma path_append: "path h p (fs @ g # gs) e \<longleftrightarrow> path h p fs g \<and> path h g gs e"
  by (induction fs arbitrary: p) auto

lemma path_split: "path h p (fs @ gs) e \<Longrightarrow> path h p fs (hd (gs @ [e]))"
  by (induction fs arbitrary: p) (cases gs; auto)+

lemma path_last: "path h p fs e \<Longrightarrow> nextf h (last (p # fs)) = e"
  by (induction fs arbitrary: p) auto

lemma path_cong: "(\<And>q. q \<in> set (p # fs) \<Longrightarrow> nextf h' q = nextf h q) \<Longrightarrow> path h' p fs e = path h p fs e"
  by (induction fs arbitrary: p) auto

lemma insert_search_path:
  "path h p (fs @ gs) e \<Longrightarrow> \<forall>f\<in>set fs. f < b \<Longrightarrow> \<not> hd (gs @ [e]) < b \<Longrightarrow> insert_search b p h = Some (last (p # fs))"
proof (induction fs arbitrary: p)
  case Nil
  then have "\<not> nextf h p < b" using path_split [of h p "[]" gs e] by simp
  then show ?case by (subst insert_search.simps) simp
next
  case (Cons f fs)
  then show ?case by (subst insert_search.simps) simp
qed

lemma link_fold: "pxNextFreeBlock (links h p) = nextf h p" "xBlockSize (links h p) = bsize h p"
  by (simp_all add: nextf_def bsize_def)

lemma link_upd [simp]:
  "nextf (upd_link p f h) q = (if q = p then pxNextFreeBlock (f (links h p)) else nextf h q)"
  "bsize (upd_link p f h) q = (if q = p then xBlockSize (f (links h p)) else bsize h q)"
  "pxEnd (upd_link p f h) = pxEnd h" "addr_xStart (upd_link p f h) = addr_xStart h" "ucHeap (upd_link p f h) = ucHeap h"
  "xFreeBytesRemaining (upd_link p f h) = xFreeBytesRemaining h"
  "xMinimumEverFreeBytesRemaining (upd_link p f h) = xMinimumEverFreeBytesRemaining h"
  "xNumberOfSuccessfulAllocations (upd_link p f h) = xNumberOfSuccessfulAllocations h"
  "xNumberOfSuccessfulFrees (upd_link p f h) = xNumberOfSuccessfulFrees h"
  by (simp_all add: upd_link_def nextf_def bsize_def)

section \<open>Putting a block into the free list\<close>

text \<open>The free neighbours of a block that becomes free are merged with it.\<close>

definition absorb_prev :: "block list \<Rightarrow> u32 \<Rightarrow> u32 \<Rightarrow> block list \<times> u32 \<times> u32" where
  "absorb_prev us b s = (if us \<noteq> [] \<and> \<not> used (last us)
     then (butlast us, fst (last us), blk_size (last us) + s) else (us, b, s))"

fun absorb_next :: "u32 \<Rightarrow> block list \<Rightarrow> u32 \<times> block list" where
  "absorb_next s ((n, sn, False) # vs) = (s + sn, vs)"
| "absorb_next s vs = (s, vs)"

definition release :: "block list \<Rightarrow> u32 \<Rightarrow> u32 \<Rightarrow> block list \<Rightarrow> block list" where
  "release us b s vs = (case absorb_prev us b s of (us', m, s') \<Rightarrow> case absorb_next s' vs of (s'', vs') \<Rightarrow>
     us' @ (m, s'', False) # vs')"

text \<open>A block \<open>b\<close> between \<open>us\<close> and \<open>vs\<close> that is not in the free list.\<close>

definition gap :: "heap4 \<Rightarrow> block list \<Rightarrow> u32 \<Rightarrow> u32 \<Rightarrow> block list \<Rightarrow> bool" where
  "gap h us b s vs \<longleftrightarrow> (\<exists>a. tiles a (us @ (b, s, True) # vs) (pxEnd h)) \<and>
     path h (addr_xStart h) (frees us @ frees vs) (pxEnd h) \<and>
     (\<forall>(a, s, u) \<in> set (us @ vs). \<not> u \<longrightarrow> bsize h a = s) \<and> bsize h b = s \<and> bsize h (addr_xStart h) = 0 \<and>
     addr_xStart h \<notin> insert (pxEnd h) (fst ` set (us @ (b, s, True) # vs))"

lemma last_free_before:
  assumes "tiles a (us @ (b, s, u) # vs) e" "us = [] \<or> used (last us)" "frees us \<noteq> []"
    "\<forall>(a, s, u) \<in> set us. \<not> u \<longrightarrow> bsize h a = s"
  shows "last (frees us) + bsize h (last (frees us)) \<noteq> b"
proof -
  define l where "l = last (frees us)"
  have "l \<in> set (frees us)" using assms(3) by (simp add: l_def)
  then obtain si where "(l, si, False) \<in> set us" by (auto simp: frees_def used_def)
  then obtain u1 u2 where us: "us = u1 @ (l, si, False) # u2" by (meson split_list)
  have "u2 \<noteq> []" using us assms(2) by auto
  then obtain c sc uc u3 where u2: "u2 = (c, sc, uc) # u3" by (cases u2) auto
  have "tiles a (u1 @ (l, si, False) # (c, sc, uc) # u3 @ (b, s, u) # vs) e" using assms(1) us u2 by simp
  then have "l + si = c" "c < b" by (auto simp: tiles_append dest: tiles_in tiles_le)
  moreover have "bsize h l = si" using assms(4) us by auto
  ultimately show ?thesis by (auto simp: l_def)
qed

lemma next_free_after:
  assumes "tiles a (us @ (b, s, u) # vs) e" "\<not> (\<exists>n sn vs'. vs = (n, sn, False) # vs')" "b + s = hd (frees vs @ [e])"
  shows "hd (frees vs @ [e]) = e"
proof (cases vs)
  case (Cons v vs')
  then obtain c sc where v: "vs = (c, sc, True) # vs'" using assms(2) by (cases v) auto
  then have t: "c = b + s" "c < c + sc" "tiles (c + sc) vs' e" using assms(1) by (auto simp: tiles_append)
  have "hd (frees vs' @ [e]) \<in> insert e (fst ` set vs')" using frees_subset [of vs'] by (cases "frees vs'") auto
  then consider "hd (frees vs' @ [e]) = e" | sx ux where "(hd (frees vs' @ [e]), sx, ux) \<in> set vs'" by auto
  then have "c + sc \<le> hd (frees vs' @ [e])" by cases (use tiles_in [OF t(3)] tiles_le [OF t(3)] in metis)+
  moreover have "hd (frees vs' @ [e]) = c" using assms(3) v t(1) by simp
  ultimately show ?thesis using t(2) by (metis leD)
qed simp

lemma insert_effect:
  assumes "gap h us b s vs" "absorb_prev us b s = (us', m, s')" "absorb_next s' vs = (s'', vs')"
  defines "i \<equiv> last (addr_xStart h # frees us)"
  defines "n \<equiv> hd (frees vs' @ [pxEnd h])"
  obtains h' where "prvInsertBlockIntoFreeList b h = Some h'" "h' = h\<lparr>links := links h'\<rparr>"
    "bsize h' = (bsize h)(m := s'')" "nextf h' = (if i = m then (nextf h)(m := n) else (nextf h)(m := n, i := m))"
proof -
  let ?e = "pxEnd h" and ?N = "hd (frees vs @ [pxEnd h])"
  obtain a where g: "tiles a (us @ (b, s, True) # vs) ?e" "path h (addr_xStart h) (frees us @ frees vs) ?e"
    "\<forall>(a, s, u) \<in> set (us @ vs). \<not> u \<longrightarrow> bsize h a = s" "bsize h b = s" "bsize h (addr_xStart h) = 0"
    "addr_xStart h \<notin> insert ?e (fst ` set (us @ (b, s, True) # vs))"
    using assms(1) by (auto simp: gap_def)
  note tu = tiles_unique [OF g(1)]
  have N: "?N \<in> insert ?e (fst ` set vs)" using frees_subset [of vs] by (cases "frees vs") auto
  then have bN: "b < ?N" using tu(2,3) by fastforce
  have "\<forall>f\<in>set (frees us). f < b" using tu(1) frees_subset [of us] by blast
  then have search: "insert_search b (addr_xStart h) h = Some i"
    using insert_search_path [OF g(2), of b] bN by (simp add: i_def)
  have ni: "nextf h i = ?N" using path_last [OF path_split [OF g(2)]] by (simp add: i_def)
  have prev: "if i + bsize h i = b then m = i \<and> s' = bsize h i + s else m = b \<and> s' = s \<and> i \<noteq> b"
  proof (cases "us \<noteq> [] \<and> \<not> used (last us)")
    case True
    then obtain u0 q sq where us: "us = u0 @ [(q, sq, False)]" by (cases us rule: rev_cases) (auto simp: used_def)
    then have "i = q" "bsize h q = sq" "q + sq = b" using g(1,3) by (auto simp: i_def tiles_append)
    then show ?thesis using assms(2) us by (simp add: absorb_prev_def)
  next
    case False
    then have "i + bsize h i \<noteq> b"
    proof (cases "frees us = []")
      case True
      then show ?thesis using g(5,6) by (simp add: i_def)
    next
      case f: False
      then show ?thesis using last_free_before [OF g(1) _ f, of h] False g(3) by (auto simp: i_def)
    qed
    moreover have "i \<noteq> b" using g(6) \<open>\<forall>f\<in>set (frees us). f < b\<close> last_in_set [of "frees us"] by (auto simp: i_def)
    ultimately show ?thesis using assms(2) False by (auto simp: absorb_prev_def)
  qed
  have ms: "m + s' = b + s" using prev by (auto split: if_splits simp: ac_simps)
  have "i = addr_xStart h \<or> i < b"
    using \<open>\<forall>f\<in>set (frees us). f < b\<close> last_in_set [of "frees us"] by (simp add: i_def)
  moreover have "?N \<noteq> addr_xStart h" using g(6) N by force
  ultimately have ne: "?N \<noteq> i" "?N \<noteq> b" using bN by auto
  have nx: "if m + s' = ?N \<and> ?N \<noteq> ?e then s'' = s' + bsize h ?N \<and> n = nextf h ?N \<and> ?N \<noteq> m else s'' = s' \<and> n = ?N"
  proof (cases "\<exists>c sc v1. vs = (c, sc, False) # v1")
    case True
    then obtain c sc v1 where v: "vs = (c, sc, False) # v1" by auto
    then have c: "c = b + s" "c < c + sc" "c + sc \<le> ?e" "bsize h c = sc"
      using g(1,3) tiles_le [of "c + sc" v1 ?e] by (auto simp: tiles_append)
    moreover have "nextf h c = hd (frees v1 @ [?e])"
      using path_split [of h c "[]" "frees v1" ?e] g(2) v by (simp add: path_append)
    moreover have "m \<noteq> c" using prev ne v by (auto split: if_splits)
    ultimately show ?thesis using assms(3) v ms by (auto simp: n_def)
  next
    case False
    then have "s'' = s' \<and> vs' = vs" using assms(3) by (cases "(s', vs)" rule: absorb_next.cases) auto
    then show ?thesis using next_free_after [OF g(1) False] ms by (auto simp: n_def)
  qed
  show thesis
  proof (cases "i + bsize h i = b")
    case True
    let ?h1 = "upd_link i (\<lambda>x. x\<lparr>xBlockSize := xBlockSize x + s\<rparr>) h"
    show thesis
    proof (cases "m + s' = ?N \<and> ?N \<noteq> ?e")
      case t: True
      let ?h2 = "upd_link i (\<lambda>x. x\<lparr>xBlockSize := xBlockSize x + bsize ?h1 ?N, pxNextFreeBlock := nextf ?h1 ?N\<rparr>) ?h1"
      have "prvInsertBlockIntoFreeList b h = Some ?h2"
        using search True prev t ni ne g(4) by (simp add: prvInsertBlockIntoFreeList_def Let_def link_fold)
      then show thesis using True prev nx t ne
        by (intro that [of ?h2]) (auto simp: upd_link_def nextf_def bsize_def fun_eq_iff)
    next
      case t: False
      let ?h2 = "upd_link i (\<lambda>x. x\<lparr>pxNextFreeBlock := ?N\<rparr>) ?h1"
      have "prvInsertBlockIntoFreeList b h = Some ?h2"
        using search True prev t ni ne g(4) by (auto simp: prvInsertBlockIntoFreeList_def Let_def link_fold)
      then show thesis using True prev nx t ne
        by (intro that [of ?h2]) (auto simp: upd_link_def nextf_def bsize_def fun_eq_iff)
    qed
  next
    case False
    show thesis
    proof (cases "m + s' = ?N \<and> ?N \<noteq> ?e")
      case t: True
      let ?h2 = "upd_link i (\<lambda>x. x\<lparr>pxNextFreeBlock := b\<rparr>)
        (upd_link b (\<lambda>x. x\<lparr>xBlockSize := xBlockSize x + bsize h ?N, pxNextFreeBlock := nextf h ?N\<rparr>) h)"
      have "prvInsertBlockIntoFreeList b h = Some ?h2"
        using search False prev t ni ne g(4) by (simp add: prvInsertBlockIntoFreeList_def Let_def)
      then show thesis using False prev nx t ne g(4)
        by (intro that [of ?h2]) (auto simp: upd_link_def nextf_def bsize_def fun_eq_iff)
    next
      case t: False
      let ?h2 = "upd_link i (\<lambda>x. x\<lparr>pxNextFreeBlock := b\<rparr>) (upd_link b (\<lambda>x. x\<lparr>pxNextFreeBlock := ?N\<rparr>) h)"
      have "prvInsertBlockIntoFreeList b h = Some ?h2"
        using search False prev t ni ne g(4) by (auto simp: prvInsertBlockIntoFreeList_def Let_def)
      then show thesis using False prev nx t ne g(4)
        by (intro that [of ?h2]) (auto simp: upd_link_def nextf_def bsize_def fun_eq_iff)
    qed
  qed
qed

text \<open>The result represents the merged blocks.\<close>

lemma unat_no_wrap: "a \<le> a + s \<Longrightarrow> unat (a + s) = unat a + unat (s :: u32)"
  by (simp add: unat_plus_simple)

lemma merge_sizes:
  fixes a s t :: u32
  assumes "a < a + s" "a + s < a + s + t" "16 \<le> s"
  shows "a < a + (s + t)" "16 \<le> s + t" "unat (s + t) = unat s + unat t"
proof -
  have u: "unat (a + s + t) = unat a + unat s + unat t" using assms by (simp add: unat_no_wrap)
  moreover have "unat (a + s + t) < 2 ^ LENGTH(32)" by (rule unsigned_less)
  ultimately have "unat s + unat t < 2 ^ LENGTH(32)" by linarith
  then show st: "unat (s + t) = unat s + unat t" using unat_add_lem by blast
  show "a < a + (s + t)" using assms(1,2) by (simp add: add.assoc)
  show "16 \<le> s + t" using assms(3) st unfolding word_le_nat_alt by simp
qed

lemma tiles_merge: "tiles a (us @ (b, s, u) # (c, t, v) # vs) e \<Longrightarrow> tiles a (us @ (b, s + t, w) # vs) e"
  by (auto simp: tiles_append aligned_add add.assoc merge_sizes intro: order.strict_trans)

lemma tiles_flag: "tiles a (us @ (b, s, u) # vs) e \<Longrightarrow> tiles a (us @ (b, s, v) # vs) e"
  by (auto simp: tiles_append)

lemma tiles_aligned: "tiles a bs e \<Longrightarrow> a AND 7 = 0 \<Longrightarrow> (b, s, u) \<in> set bs \<Longrightarrow> b AND 7 = 0"
  by (induction a bs e rule: tiles.induct) (auto simp: aligned_add)

lemma tiles_distinct: "tiles a bs e \<Longrightarrow> distinct (map fst bs)"
proof (induction a bs e rule: tiles.induct)
  case (2 a b s u bs e)
  then have "\<forall>(c, t, v) \<in> set bs. a + s \<le> c" using tiles_in by fastforce
  with 2 show ?case by (auto simp: image_iff)
qed simp

definition free_bytes :: "block list \<Rightarrow> nat" where
  "free_bytes bs = sum_list (map (\<lambda>x. unat (blk_size x)) (filter (\<lambda>x. \<not> used x) bs))"

lemma free_bytes_simps [simp]:
  "free_bytes [] = 0" "free_bytes ((a, s, u) # bs) = (if u then 0 else unat s) + free_bytes bs"
  "free_bytes (us @ vs) = free_bytes us + free_bytes vs"
  by (simp_all add: free_bytes_def)

abbreviation apart :: "block list \<Rightarrow> bool" where "apart \<equiv> successively (\<lambda>x y. used x \<or> used y)"

text \<open>The two merges, as a case distinction.\<close>

lemma release_cases [consumes 2, case_names neither before after both]:
  assumes "absorb_prev us b s = (us', m, s')" "absorb_next s' vs = (s'', vs')"
  obtains (neither) "us' = us" "m = b" "s'' = s" "vs' = vs" "us = [] \<or> used (last us)" "vs = [] \<or> used (hd vs)"
  | (before) sp where "us = us' @ [(m, sp, False)]" "s'' = sp + s" "vs' = vs" "vs = [] \<or> used (hd vs)"
  | (after) n sn where "us' = us" "m = b" "s'' = s + sn" "vs = (n, sn, False) # vs'" "us = [] \<or> used (last us)"
  | (both) sp n sn where "us = us' @ [(m, sp, False)]" "s'' = sp + s + sn" "vs = (n, sn, False) # vs'"
proof -
  have next_: "(\<exists>n sn. vs = (n, sn, False) # vs' \<and> s'' = s' + sn) \<or> vs' = vs \<and> s'' = s' \<and> (vs = [] \<or> used (hd vs))"
    using assms(2) by (cases "(s', vs)" rule: absorb_next.cases) auto
  show thesis
  proof (cases "us \<noteq> [] \<and> \<not> used (last us)")
    case True
    then obtain u0 q sq where "us = u0 @ [(q, sq, False)]" by (cases us rule: rev_cases) (auto simp: used_def)
    then have "us = us' @ [(m, sq, False)]" "s' = sq + s" using assms(1) by (auto simp: absorb_prev_def)
    then show thesis using next_ before both by blast
  next
    case False
    then have "us' = us" "m = b" "s' = s" "us = [] \<or> used (last us)" using assms(1) by (auto simp: absorb_prev_def)
    then show thesis using next_ neither after by blast
  qed
qed

lemma release_layout:
  assumes "tiles a (us @ (b, s, True) # vs) e" "apart us" "apart vs"
  shows "tiles a (release us b s vs) e" "apart (release us b s vs)"
    "free_bytes (release us b s vs) = free_bytes us + unat s + free_bytes vs"
    "filter used (release us b s vs) = filter used us @ filter used vs"
proof -
  obtain us' m s' where p: "absorb_prev us b s = (us', m, s')" by (cases "absorb_prev us b s")
  obtain s'' vs' where n: "absorb_next s' vs = (s'', vs')" by (cases "absorb_next s' vs")
  have r: "release us b s vs = us' @ (m, s'', False) # vs'" by (simp add: release_def p n)
  have "tiles a (us' @ (m, s'', False) # vs') e \<and> apart (us' @ (m, s'', False) # vs') \<and>
    free_bytes (us' @ (m, s'', False) # vs') = free_bytes us + unat s + free_bytes vs \<and>
    filter used (us' @ (m, s'', False) # vs') = filter used us @ filter used vs"
    using p n
  proof (cases rule: release_cases)
    case neither
    then show ?thesis using assms tiles_flag [of a us b s True vs e False]
      by (auto simp: successively_append_iff successively_Cons)
  next
    case (before sp)
    have t: "tiles a (us' @ (m, sp, False) # (b, s, True) # vs) e" using assms(1) before by simp
    then have "unat (sp + s) = unat sp + unat s" using merge_sizes(3) by (auto simp: tiles_append)
    then show ?thesis using before assms(2,3) tiles_merge [OF t, of False]
      by (auto simp: successively_append_iff successively_Cons)
  next
    case (after n sn)
    have t: "tiles a (us @ (b, s, True) # (n, sn, False) # vs') e" using assms(1) after by simp
    then have "unat (s + sn) = unat s + unat sn" using merge_sizes(3) by (auto simp: tiles_append)
    then show ?thesis using after assms(2,3) tiles_merge [OF t, of False]
      by (auto simp: successively_append_iff successively_Cons)
  next
    case (both sp n sn)
    have t: "tiles a (us' @ (m, sp, False) # (b, s, True) # (n, sn, False) # vs') e" using assms(1) both by simp
    then have t2: "tiles a (us' @ (m, sp + s, False) # (n, sn, False) # vs') e" by (rule tiles_merge)
    have "unat (sp + s) = unat sp + unat s" using t merge_sizes(3) by (auto simp: tiles_append)
    moreover have "unat (sp + s + sn) = unat (sp + s) + unat sn" using t2 merge_sizes(3) by (auto simp: tiles_append)
    ultimately show ?thesis using both assms(2,3) tiles_merge [OF t2, of False]
      by (auto simp: successively_append_iff successively_Cons)
  qed
  then show "tiles a (release us b s vs) e" "apart (release us b s vs)"
    "free_bytes (release us b s vs) = free_bytes us + unat s + free_bytes vs"
    "filter used (release us b s vs) = filter used us @ filter used vs"
    by (simp_all add: r)
qed

lemma path_from:
  "path h q (gs @ fs) e \<Longrightarrow> nextf h' p = hd (fs @ [e]) \<Longrightarrow> \<forall>x\<in>set fs. nextf h' x = nextf h x \<Longrightarrow> path h' p fs e"
proof (induction gs arbitrary: q)
  case Nil
  then show ?case using path_cong [of "hd fs" "tl fs" h' h e] by (cases fs) auto
qed auto

lemma path_retarget:
  "path h p fs e \<Longrightarrow> nextf h' (last (p # fs)) = m \<Longrightarrow> \<forall>x\<in>set (butlast (p # fs)). nextf h' x = nextf h x \<Longrightarrow> path h' p fs m"
  by (induction fs arbitrary: p) (auto split: if_splits)

lemma release_path:
  assumes "gap h us b s vs" "absorb_prev us b s = (us', m, s')" "absorb_next s' vs = (s'', vs')"
    "nextf h' = (if last (addr_xStart h # frees us) = m then (nextf h)(m := hd (frees vs' @ [pxEnd h]))
       else (nextf h)(m := hd (frees vs' @ [pxEnd h]), last (addr_xStart h # frees us) := m))"
  shows "path h' (addr_xStart h) (frees us' @ m # frees vs') (pxEnd h)"
proof -
  let ?x = "addr_xStart h" and ?e = "pxEnd h"
  obtain a where g: "tiles a (us @ (b, s, True) # vs) ?e" "path h ?x (frees us @ frees vs) ?e"
    "?x \<notin> insert ?e (fst ` set (us @ (b, s, True) # vs))"
    using assms(1) by (auto simp: gap_def)
  have "distinct (map fst (us @ (b, s, True) # vs))" using tiles_distinct [OF g(1)] .
  moreover have "distinct (map fst (filter P zs))" if "distinct (map fst zs)" for P and zs :: "block list"
    using that by (simp add: distinct_map_filter)
  ultimately have d: "distinct (frees us)" "distinct (frees vs)" "set (frees us) \<inter> set (frees vs) = {}"
    "b \<notin> set (frees us)" "b \<notin> set (frees vs)" "?x \<notin> set (frees us)" "?x \<notin> set (frees vs)" "?x \<noteq> b"
    using g(3) frees_subset [of us] frees_subset [of vs] by (auto simp: frees_def)
  let ?i = "last (?x # frees us)"
  have "distinct (?x # frees us)" using d by simp
  then have i: "?i \<noteq> b" "?i \<notin> set (frees vs)" "?i \<notin> set (butlast (?x # frees us))" "b \<notin> set (butlast (?x # frees us))"
    using d by (cases "frees us" rule: rev_cases; auto)+
  have nx: "nextf h' m = hd (frees vs' @ [?e])" "?i \<noteq> m \<Longrightarrow> nextf h' ?i = m"
    "\<And>q. q \<noteq> m \<Longrightarrow> q \<noteq> ?i \<Longrightarrow> nextf h' q = nextf h q"
    unfolding assms(4) by auto
  have "path h' ?x (frees us') m \<and> path h' m (frees vs') ?e" using assms(2,3)
  proof (cases rule: release_cases)
    case neither
    have "path h' ?x (frees us) m"
      by (rule path_retarget [OF path_split [OF g(2)]]) (use nx i neither(2) in metis)+
    moreover have "path h' m (frees vs) ?e"
      by (rule path_from [OF g(2)]) (use nx i d(5) neither(2,4) in metis)+
    ultimately show ?thesis using neither by simp
  next
    case (after n sn)
    have "path h' ?x (frees us) m"
      by (rule path_retarget [OF path_split [OF g(2)]]) (use nx i after(2) in metis)+
    moreover have "\<forall>x\<in>set (frees vs'). nextf h' x = nextf h x" by (intro ballI nx(3)) (use i(2) d(5) after in auto)
    then have "path h' m (frees vs') ?e"
      using path_from [of h ?x "frees us @ [n]" "frees vs'" ?e h' m] g(2) nx(1) after(4) by auto
    ultimately show ?thesis using after by simp
  next
    case (before sp)
    have "path h ?x (frees us') m" using g(2) before by (simp add: path_append)
    moreover have "path h' ?x (frees us') m = path h ?x (frees us') m"
      by (intro path_cong nx(3)) (use before d in auto)
    moreover have "\<forall>x\<in>set (frees vs'). nextf h' x = nextf h x" by (intro ballI nx(3)) (use i(2) d before in auto)
    then have "path h' m (frees vs) ?e" using path_from [OF g(2), of h' m] nx(1) before(3) by simp
    ultimately show ?thesis using before by simp
  next
    case (both sp n sn)
    have "path h ?x (frees us') m" using g(2) both by (simp add: path_append)
    moreover have "path h' ?x (frees us') m = path h ?x (frees us') m"
      by (intro path_cong nx(3)) (use both d in auto)
    moreover have "\<forall>x\<in>set (frees vs'). nextf h' x = nextf h x" by (intro ballI nx(3)) (use i(2) d both in auto)
    then have "path h' m (frees vs') ?e"
      using path_from [of h ?x "frees us @ [n]" "frees vs'" ?e h' m] g(2) nx(1) both(3) by simp
    ultimately show ?thesis by simp
  qed
  then show ?thesis by (simp add: path_append)
qed

section \<open>The representation of a list of blocks\<close>

text \<open>Where the linker puts the array and the variable: anywhere, without overlap.\<close>

definition placed :: "heap4 \<Rightarrow> bool" where
  "placed h \<longleftrightarrow> ucHeap h \<noteq> 0 \<and> unat (ucHeap h) + 15360 < 2 ^ 32 \<and>
     (unat (addr_xStart h) + 8 \<le> unat (ucHeap h) \<or> unat (ucHeap h) + 15360 \<le> unat (addr_xStart h))"

definition hdr_ok :: "heap4 \<Rightarrow> block \<Rightarrow> bool" where
  "hdr_ok h x = (case x of (a, s, u) \<Rightarrow>
     if u then bsize h a = s OR heapBLOCK_ALLOCATED_BITMASK \<and> nextf h a = NULL else bsize h a = s)"

definition heap_base :: "heap4 \<Rightarrow> u32" where
  "heap_base h = (ucHeap h + 7) AND NOT 7"

definition heap_rep :: "heap4 \<Rightarrow> block list \<Rightarrow> bool" where
  "heap_rep h bs \<longleftrightarrow> placed h \<and> tiles (heap_base h) bs (pxEnd h) \<and> unat (pxEnd h) + 8 \<le> unat (ucHeap h) + 15360 \<and>
     path h (addr_xStart h) (frees bs) (pxEnd h) \<and> list_all (hdr_ok h) bs \<and> bsize h (addr_xStart h) = 0 \<and>
     bsize h (pxEnd h) = 0 \<and> nextf h (pxEnd h) = NULL \<and> apart bs \<and> unat (xFreeBytesRemaining h) = free_bytes bs"

lemma base_bounds:
  assumes "placed h"
  shows "ucHeap h \<le> heap_base h" "unat (heap_base h) < unat (ucHeap h) + 8" "heap_base h AND 7 = 0" "heap_base h \<noteq> 0"
    "unat (heap_base h) = (unat (ucHeap h) + 7) div 8 * 8"
proof -
  have a: "unat (ucHeap h + 7) = unat (ucHeap h) + 7" using assms by (simp add: placed_def unat_word_ariths)
  then show b: "unat (heap_base h) = (unat (ucHeap h) + 7) div 8 * 8"
    unfolding heap_base_def align_down by (simp add: minus_mod_eq_div_mult)
  show "heap_base h AND 7 = 0" by (simp add: aligned_iff b)
  show le: "ucHeap h \<le> heap_base h" "unat (heap_base h) < unat (ucHeap h) + 8"
    unfolding word_le_nat_alt b by linarith+
  show "heap_base h \<noteq> 0" using assms le(1) by (auto simp: placed_def)
qed

text \<open>Positions inside the array, and sizes below the top bit.\<close>

lemma tiles_inside:
  assumes "placed h" "tiles (heap_base h) bs (pxEnd h)" "unat (pxEnd h) + 8 \<le> unat (ucHeap h) + 15360" "(a, s, u) \<in> set bs"
  shows "unat (ucHeap h) \<le> unat a" "unat a + unat s \<le> unat (pxEnd h)" "unat s < 2 ^ 31" "a \<noteq> addr_xStart h" "a \<noteq> 0"
    "pxEnd h \<noteq> addr_xStart h" "a < pxEnd h"
proof -
  note i = tiles_in [OF assms(2,4)] and b = base_bounds [OF assms(1)]
  have s: "unat (a + s) = unat a + unat s" using i by (intro unat_no_wrap) (blast intro: less_imp_le)
  show ua: "unat (ucHeap h) \<le> unat a" using i b(1) unfolding word_le_nat_alt by linarith
  show as: "unat a + unat s \<le> unat (pxEnd h)" using i s unfolding word_le_nat_alt by simp
  show "unat s < 2 ^ 31" using ua as assms(3) by simp
  show "a \<noteq> addr_xStart h" using ua as assms(1,3) by (auto simp: placed_def)
  show "a \<noteq> 0" using ua assms(1) by (auto simp: placed_def unat_eq_zero)
  show "pxEnd h \<noteq> addr_xStart h" using ua as assms(1,3) by (auto simp: placed_def)
  show "a < pxEnd h" using i by auto
qed

lemma xStart_outside:
  assumes "placed h" "tiles (heap_base h) bs (pxEnd h)" "unat (pxEnd h) + 8 \<le> unat (ucHeap h) + 15360" "bs \<noteq> []"
  shows "addr_xStart h \<notin> insert (pxEnd h) (fst ` set bs)"
proof -
  have "addr_xStart h \<noteq> c" if "c \<in> fst ` set bs" for c
  proof -
    from that obtain y where "y \<in> set bs" "c = fst y" by blast
    then show ?thesis using tiles_inside(4) [OF assms(1-3), of "fst y" "fst (snd y)" "snd (snd y)"] by simp
  qed
  moreover have "addr_xStart h \<noteq> pxEnd h"
    using assms(4) tiles_inside(6) [OF assms(1-3), of "fst (hd bs)" "fst (snd (hd bs))" "snd (snd (hd bs))"] by (cases bs) auto
  ultimately show ?thesis by blast
qed

lemma bit_mask: "bit heapBLOCK_ALLOCATED_BITMASK n \<longleftrightarrow> n = 31"
  unfolding heapBLOCK_ALLOCATED_BITMASK_def bit_push_bit_iff bit_1_iff by (auto simp: bit_1_iff)

lemma small_size:
  fixes s :: u32
  assumes "unat s < 2 ^ 31"
  shows "s AND heapBLOCK_ALLOCATED_BITMASK = 0" "(s OR heapBLOCK_ALLOCATED_BITMASK) AND NOT heapBLOCK_ALLOCATED_BITMASK = s"
    "(s OR heapBLOCK_ALLOCATED_BITMASK) AND heapBLOCK_ALLOCATED_BITMASK \<noteq> 0"
proof -
  have "take_bit 31 s = s" using assms
    by (metis take_bit_nat_eq_self unsigned_take_bit_eq unsigned_word_eqI)
  then have b: "\<not> bit s 31" by (metis bit_take_bit_iff less_irrefl)
  show z: "s AND heapBLOCK_ALLOCATED_BITMASK = 0" using b
    by (intro bit_word_eqI) (auto simp: bit_mask bit_simps)
  show "(s OR heapBLOCK_ALLOCATED_BITMASK) AND NOT heapBLOCK_ALLOCATED_BITMASK = s" using b
    by (intro bit_word_eqI) (auto simp: bit_mask bit_simps)
  have "bit ((s OR heapBLOCK_ALLOCATED_BITMASK) AND heapBLOCK_ALLOCATED_BITMASK) 31"
    by (simp add: bit_mask bit_simps)
  then show "(s OR heapBLOCK_ALLOCATED_BITMASK) AND heapBLOCK_ALLOCATED_BITMASK \<noteq> 0" by auto
qed

text \<open>
  Inserting a block that is not in the free list. The headers of the used blocks need not be set yet; they
  are not touched.
\<close>

lemma insert_rep:
  assumes "gap h us b s vs" "apart us" "apart vs" "b \<noteq> pxEnd h"
  obtains h' where "prvInsertBlockIntoFreeList b h = Some h'" "h' = h\<lparr>links := links h'\<rparr>"
    "path h' (addr_xStart h) (frees (release us b s vs)) (pxEnd h)"
    "\<And>c t. (c, t, False) \<in> set (release us b s vs) \<Longrightarrow> bsize h' c = t"
    "\<And>c t. (c, t, True) \<in> set (us @ vs) \<Longrightarrow> bsize h' c = bsize h c \<and> nextf h' c = nextf h c"
    "bsize h' (addr_xStart h) = 0" "bsize h' (pxEnd h) = bsize h (pxEnd h)" "nextf h' (pxEnd h) = nextf h (pxEnd h)"
proof -
  obtain us' m s' where p: "absorb_prev us b s = (us', m, s')" by (cases "absorb_prev us b s")
  obtain s'' vs' where n: "absorb_next s' vs = (s'', vs')" by (cases "absorb_next s' vs")
  have r: "release us b s vs = us' @ (m, s'', False) # vs'" by (simp add: release_def p n)
  let ?i = "last (addr_xStart h # frees us)"
  obtain h' where h': "prvInsertBlockIntoFreeList b h = Some h'" "h' = h\<lparr>links := links h'\<rparr>" "bsize h' = (bsize h)(m := s'')"
    "nextf h' = (if ?i = m then (nextf h)(m := hd (frees vs' @ [pxEnd h])) else (nextf h)(m := hd (frees vs' @ [pxEnd h]), ?i := m))"
    by (rule insert_effect [OF assms(1) p n])
  obtain a where g: "tiles a (us @ (b, s, True) # vs) (pxEnd h)" "\<forall>(a, s, u) \<in> set (us @ vs). \<not> u \<longrightarrow> bsize h a = s"
    "bsize h (addr_xStart h) = 0" "addr_xStart h \<notin> insert (pxEnd h) (fst ` set (us @ (b, s, True) # vs))"
    using assms(1) by (auto simp: gap_def)
  have d: "distinct (map fst (us @ (b, s, True) # vs))" by (rule tiles_distinct [OF g(1)])
  have sub: "set us' \<subseteq> set us" "set vs' \<subseteq> set vs" "m = b \<or> (\<exists>sp. (m, sp, False) \<in> set us)"
  proof -
    have "set us' \<subseteq> set us \<and> set vs' \<subseteq> set vs \<and> (m = b \<or> (\<exists>sp. us = us' @ [(m, sp, False)]))"
      using p n by (cases rule: release_cases) auto
    then show "set us' \<subseteq> set us" "set vs' \<subseteq> set vs" "m = b \<or> (\<exists>sp. (m, sp, False) \<in> set us)" by auto
  qed
  have lt: "c < pxEnd h" if "(c, t, v) \<in> set (us @ (b, s, True) # vs)" for c t v
    using tiles_in [OF g(1) that] by auto
  have mx: "m \<noteq> addr_xStart h" "m \<noteq> pxEnd h"
  proof -
    have "m \<in> fst ` set (us @ (b, s, True) # vs)" using sub(3) by force
    then show "m \<noteq> addr_xStart h" using g(4) by blast
    show "m \<noteq> pxEnd h" using sub(3)
    proof
      assume "\<exists>sp. (m, sp, False) \<in> set us"
      then obtain sp where "(m, sp, False) \<in> set (us @ (b, s, True) # vs)" by auto
      then show ?thesis using lt by blast
    qed (use assms(4) in simp)
  qed
  have ie: "?i \<noteq> pxEnd h" "?i = addr_xStart h \<or> (\<exists>t. (?i, t, False) \<in> set us)"
  proof -
    show "?i = addr_xStart h \<or> (\<exists>t. (?i, t, False) \<in> set us)"
      using last_in_set [of "frees us"] by (auto simp: frees_def used_def)
    then show "?i \<noteq> pxEnd h"
    proof
      assume "\<exists>t. (?i, t, False) \<in> set us"
      then obtain t where "(?i, t, False) \<in> set (us @ (b, s, True) # vs)" by auto
      from lt [OF this] show ?thesis by auto
    qed (use g(4) in auto)
  qed
  have fr: "path h' (addr_xStart h) (frees (release us b s vs)) (pxEnd h)"
    using release_path [OF assms(1) p n h'(4)] by (simp add: r)
  have sz: "bsize h' c = t" if "(c, t, False) \<in> set (release us b s vs)" for c t
  proof (cases "c = m")
    case True
    have dr: "distinct (map fst (release us b s vs))" by (rule tiles_distinct [OF release_layout(1) [OF g(1) assms(2,3)]])
    have "(m, s'', False) \<in> set (release us b s vs)" by (simp add: r)
    from eq_key_imp_eq_value [OF dr this, of "(t, False)"] that True have "t = s''" by simp
    then show ?thesis using True h'(3) by simp
  next
    case False
    then have "(c, t, False) \<in> set (us @ vs)" using that sub by (auto simp: r)
    from bspec [OF g(2) this] show ?thesis using False h'(3) by simp
  qed
  have us: "bsize h' c = bsize h c \<and> nextf h' c = nextf h c" if "(c, t, True) \<in> set (us @ vs)" for c t
  proof -
    have "c \<in> fst ` set (us @ vs)" using that by (rule image_eqI [rotated]) simp
    moreover have "b \<notin> fst ` set (us @ vs)" "addr_xStart h \<notin> fst ` set (us @ vs)" using d g(4) by auto
    ultimately have "c \<noteq> b" "c \<noteq> addr_xStart h" by metis+
    moreover have "(c, t', False) \<notin> set us" for t'
      using eq_key_imp_eq_value [OF d, of c "(t, True)" "(t', False)"] that by auto
    ultimately have "c \<noteq> m" "c \<noteq> ?i" using sub(3) ie(2) by metis+
    then show ?thesis using h'(3,4) by simp
  qed
  have e: "bsize h' (addr_xStart h) = 0" "bsize h' (pxEnd h) = bsize h (pxEnd h)" "nextf h' (pxEnd h) = nextf h (pxEnd h)"
    using mx g(3) ie(1) unfolding h'(3,4) by (simp_all add: fun_upd_def)
  show thesis by (rule that) (fact h'(1) h'(2) fr sz us e)+
qed

section \<open>Taking a block\<close>

lemma fit_search_path:
  "path h p fs g \<Longrightarrow> \<forall>f\<in>set fs. bsize h f < w \<and> nextf h f \<noteq> NULL \<Longrightarrow> \<not> (bsize h g < w \<and> nextf h g \<noteq> NULL) \<Longrightarrow>
     fit_search w p (nextf h p) h = Some (last (p # fs), g)"
proof (induction fs arbitrary: p)
  case Nil
  then show ?case by (subst fit_search.simps) auto
next
  case (Cons f fs)
  then show ?case by (subst fit_search.simps) auto
qed

lemma path_remove:
  assumes "path h p (fs @ a # gs) e" "distinct (p # fs @ a # gs)" "nextf h' = (nextf h)(last (p # fs) := nextf h a)"
  shows "path h' p (fs @ gs) e"
  using assms
proof (induction fs arbitrary: p)
  case Nil
  then have "nextf h a = hd (gs @ [e])" by (cases gs) auto
  then show ?case using Nil path_from [of h p "[a]" gs e h' p] by auto
next
  case (Cons f fs)
  then show ?case by auto
qed

text \<open>The block that is handed out, and the rest of it when it is split.\<close>

definition cut :: "u32 \<Rightarrow> u32 \<Rightarrow> u32 \<Rightarrow> block list" where
  "cut a s w = (if s - w > 16 then [(a, w, True), (a + w, s - w, False)] else [(a, s, True)])"

lemma sizes_16 [simp]: "xHeapStructSize = 8" "heapMINIMUM_BLOCK_SIZE = 16"
  by (simp_all add: xHeapStructSize_def heapMINIMUM_BLOCK_SIZE_def sizeof_BlockLink_t_def portBYTE_ALIGNMENT_def
      portBYTE_ALIGNMENT_MASK_def)

lemma cut_tiles:
  assumes "tiles a (us @ (b, s, False) # vs) e" "16 \<le> w" "w \<le> s" "w AND 7 = 0"
  shows "tiles a (us @ cut b s w @ vs) e"
proof (cases "s - w > 16")
  case False
  then show ?thesis using tiles_flag [OF assms(1), of True] by (simp add: cut_def)
next
  case True
  have t: "b < b + s" "s AND 7 = 0" using assms(1) by (auto simp: tiles_append)
  have d: "unat (s - w) = unat s - unat w" using assms(3) by (simp add: unat_sub)
  then have al: "(s - w) AND 7 = 0" using t(2) assms(4) by (simp add: aligned_iff dvd_diff_nat)
  have bs: "unat (b + s) = unat b + unat s" using t(1) by (intro unat_no_wrap) simp
  have ws: "unat w \<le> unat s" "unat w \<ge> 16" using assms(2,3) by (simp_all add: word_le_nat_alt)
  have "unat b + unat w < 2 ^ LENGTH(32)" using bs ws(1) unsigned_less [of "b + s"] by (metis add_le_cancel_left le_less_trans unsigned_less)
  then have bw: "unat (b + w) = unat b + unat w" using unat_add_lem by blast
  have "b + w + (s - w) = b + s" by simp
  moreover have "b < b + w" "b + w < b + s" using bs bw ws d True unfolding word_less_nat_alt by simp_all
  ultimately show ?thesis using assms al True by (auto simp: cut_def tiles_append)
qed

text \<open>The parts of the representation invariant for a list that is split at a free block.\<close>

lemma rep_split:
  assumes "heap_rep h (us @ (a, s, u) # vs)"
  shows "placed h" "tiles (heap_base h) (us @ (a, s, u) # vs) (pxEnd h)" "unat (pxEnd h) + 8 \<le> unat (ucHeap h) + 15360"
    "path h (addr_xStart h) (frees us @ frees ((a, s, u) # vs)) (pxEnd h)"
    "\<And>c t. (c, t, False) \<in> set (us @ vs) \<Longrightarrow> bsize h c = t"
    "\<And>c t. (c, t, True) \<in> set (us @ vs) \<Longrightarrow> bsize h c = t OR heapBLOCK_ALLOCATED_BITMASK \<and> nextf h c = NULL"
    "bsize h (addr_xStart h) = 0" "bsize h (pxEnd h) = 0" "nextf h (pxEnd h) = NULL"
    "apart us" "apart vs" "unat (xFreeBytesRemaining h) = free_bytes us + (if u then 0 else unat s) + free_bytes vs"
    "distinct (map fst (us @ (a, s, u) # vs))"
    "addr_xStart h \<notin> insert (pxEnd h) (fst ` set (us @ (a, s, u) # vs))" "a < pxEnd h" "hdr_ok h (a, s, u)"
    "u \<or> us = [] \<or> used (last us)" "u \<or> vs = [] \<or> used (hd vs)"
proof -
  show r: "placed h" "tiles (heap_base h) (us @ (a, s, u) # vs) (pxEnd h)" "unat (pxEnd h) + 8 \<le> unat (ucHeap h) + 15360"
    "path h (addr_xStart h) (frees us @ frees ((a, s, u) # vs)) (pxEnd h)"
    "bsize h (addr_xStart h) = 0" "bsize h (pxEnd h) = 0" "nextf h (pxEnd h) = NULL" "apart us"
    "unat (xFreeBytesRemaining h) = free_bytes us + (if u then 0 else unat s) + free_bytes vs" "hdr_ok h (a, s, u)"
    using assms by (simp_all add: heap_rep_def successively_append_iff successively_Cons)
  show "u \<or> us = [] \<or> used (last us)" "u \<or> vs = [] \<or> used (hd vs)"
    using assms by (auto simp: heap_rep_def successively_append_iff successively_Cons)
  show "apart vs" using assms by (cases vs) (simp_all add: heap_rep_def successively_append_iff successively_Cons)
  have l: "list_all (hdr_ok h) (us @ vs)" using assms by (auto simp: heap_rep_def)
  then show "bsize h c = t" if "(c, t, False) \<in> set (us @ vs)" for c t
    using that bspec [of "set (us @ vs)" "hdr_ok h" "(c, t, False)"] by (simp add: list_all_iff hdr_ok_def)
  show "bsize h c = t OR heapBLOCK_ALLOCATED_BITMASK \<and> nextf h c = NULL" if "(c, t, True) \<in> set (us @ vs)" for c t
    using that l bspec [of "set (us @ vs)" "hdr_ok h" "(c, t, True)"] by (simp add: list_all_iff hdr_ok_def)
  show "distinct (map fst (us @ (a, s, u) # vs))" by (rule tiles_distinct [OF r(2)])
  note ti = tiles_inside [OF r(1-3)]
  show "addr_xStart h \<notin> insert (pxEnd h) (fst ` set (us @ (a, s, u) # vs))" by (rule xStart_outside [OF r(1-3)]) simp
  show "a < pxEnd h" using ti(7) [of a s u] by simp
qed

lemma unlink_block:
  assumes "heap_rep h (us @ (a, s, False) # vs)"
  defines "i \<equiv> last (addr_xStart h # frees us)"
  defines "h1 \<equiv> upd_link i (\<lambda>b. b\<lparr>pxNextFreeBlock := nextf h a\<rparr>) h"
  shows "path h1 (addr_xStart h) (frees us @ frees vs) (pxEnd h)" "nextf h i = a"
    "bsize h1 = bsize h" "nextf h1 = (nextf h)(i := nextf h a)" "i \<noteq> a" "i \<noteq> pxEnd h" "i \<notin> set (frees vs)"
    "i = addr_xStart h \<or> (\<exists>t. (i, t, False) \<in> set us)"
proof -
  note r = rep_split [OF assms(1)]
  let ?x = "addr_xStart h"
  show f: "bsize h1 = bsize h" "nextf h1 = (nextf h)(i := nextf h a)"
    by (auto simp: h1_def fun_eq_iff link_fold)
  have df: "distinct (frees (us @ (a, s, False) # vs))" using r(13) by (rule distinct_frees)
  have "?x \<notin> set (frees (us @ (a, s, False) # vs))" using r(14) frees_subset by blast
  then have d: "distinct (?x # frees us @ a # frees vs)" using df by simp
  have p: "path h ?x (frees us @ a # frees vs) (pxEnd h)" using r(4) by simp
  show "path h1 ?x (frees us @ frees vs) (pxEnd h)" using path_remove [OF p d] f(2) by (simp add: i_def)
  show "nextf h i = a" using path_last [of h ?x "frees us" a] p by (simp add: i_def path_append)
  show i: "i = ?x \<or> (\<exists>t. (i, t, False) \<in> set us)"
    using last_in_set [of "frees us"] by (auto simp: i_def frees_def used_def)
  show "i \<noteq> a" "i \<notin> set (frees vs)" using d by (cases "frees us" rule: rev_cases; auto simp: i_def)+
  show "i \<noteq> pxEnd h" using i r(14) tiles_inside(7) [OF r(1-3), of i _ False] by auto
qed

lemma finish_take_fields:
  "nextf (finish_take a h) = (nextf h)(a := NULL)" "bsize (finish_take a h) = (bsize h)(a := bsize h a OR heapBLOCK_ALLOCATED_BITMASK)"
  "addr_xStart (finish_take a h) = addr_xStart h" "ucHeap (finish_take a h) = ucHeap h" "pxEnd (finish_take a h) = pxEnd h"
  "xFreeBytesRemaining (finish_take a h) = xFreeBytesRemaining h - bsize h a"
  by (auto simp: finish_take_def Let_def nextf_def bsize_def upd_link_def heapALLOCATE_BLOCK_def)

lemma heap_base_cong: "ucHeap h' = ucHeap h \<Longrightarrow> heap_base h' = heap_base h"
  by (simp add: heap_base_def)

lemma placed_cong: "ucHeap h' = ucHeap h \<Longrightarrow> addr_xStart h' = addr_xStart h \<Longrightarrow> placed h' = placed h"
  by (simp add: placed_def)

text \<open>The last step: everything is in place but the header of the block that is handed out.\<close>

lemma finish_take_rep:
  assumes "heap_rep h0 (us @ (a, s0, False) # vs0)"
    and h: "ucHeap h = ucHeap h0" "addr_xStart h = addr_xStart h0" "pxEnd h = pxEnd h0" "xFreeBytesRemaining h = xFreeBytesRemaining h0"
    and t: "tiles (heap_base h) (us @ (a, s, True) # vs) (pxEnd h)" "apart (us @ (a, s, True) # vs)"
    and p: "path h (addr_xStart h) (frees us @ frees vs) (pxEnd h)" "bsize h a = s"
    and hd: "\<And>c t. (c, t, False) \<in> set (us @ vs) \<Longrightarrow> bsize h c = t"
      "\<And>c t. (c, t, True) \<in> set (us @ vs) \<Longrightarrow> bsize h c = t OR heapBLOCK_ALLOCATED_BITMASK \<and> nextf h c = NULL"
    and e: "bsize h (addr_xStart h) = 0" "bsize h (pxEnd h) = 0" "nextf h (pxEnd h) = NULL"
    and f: "free_bytes us + unat s0 + free_bytes vs0 = free_bytes us + unat s + free_bytes vs"
  shows "heap_rep (finish_take a h) (us @ (a, s, True) # vs)"
proof -
  note r = rep_split [OF assms(1)]
  have ax: "a \<noteq> addr_xStart h" "a \<noteq> pxEnd h" using r(14,15) h(2,3) by auto
  have dist: "distinct (map fst (us @ (a, s, True) # vs))" by (rule tiles_distinct [OF t(1)])
  then have na: "a \<notin> fst ` set (us @ vs)" by auto
  have uf: "unat (xFreeBytesRemaining h) = free_bytes us + unat s + free_bytes vs" using r(12) f h(4) by simp
  have "unat (xFreeBytesRemaining h - s) = free_bytes us + free_bytes vs"
    using uf by (simp add: unat_sub word_le_nat_alt)
  moreover have "path (finish_take a h) (addr_xStart h) (frees us @ frees vs) (pxEnd h)"
  proof -
    have "a \<notin> set (addr_xStart h # frees us @ frees vs)"
      using ax(1) na frees_subset [of us] frees_subset [of vs] by auto
    then have "path (finish_take a h) (addr_xStart h) (frees us @ frees vs) (pxEnd h) = path h (addr_xStart h) (frees us @ frees vs) (pxEnd h)"
      by (intro path_cong) (auto simp: finish_take_fields)
    then show ?thesis using p(1) by simp
  qed
  moreover have "list_all (hdr_ok (finish_take a h)) (us @ (a, s, True) # vs)"
  proof -
    have "hdr_ok (finish_take a h) (c, t, u)" if "(c, t, u) \<in> set (us @ vs)" for c t u
    proof -
      have "c \<noteq> a" using na that by (metis fst_conv image_eqI)
      then show ?thesis using hd that by (cases u) (simp_all add: hdr_ok_def finish_take_fields)
    qed
    moreover have "hdr_ok (finish_take a h) (a, s, True)" using p(2) by (simp add: hdr_ok_def finish_take_fields)
    ultimately show ?thesis by (auto simp: list_all_iff)
  qed
  moreover have "placed (finish_take a h)" using r(1) placed_cong [of "finish_take a h" h0] h(1,2) by (simp add: finish_take_fields)
  ultimately show ?thesis
    using t r(3) e ax h p(2) heap_base_cong [of "finish_take a h" h]
    by (simp add: heap_rep_def finish_take_fields)
qed

text \<open>Splitting, for a block that has left the free list.\<close>

lemma split_rep:
  assumes "tiles a0 (us @ cut a s w @ vs) (pxEnd h)" "s - w > 16" "w \<noteq> 0" "a AND 7 = 0" "w AND 7 = 0"
    and u: "bsize h a = s" "path h (addr_xStart h) (frees us @ frees vs) (pxEnd h)"
      "\<And>c t. (c, t, False) \<in> set (us @ vs) \<Longrightarrow> bsize h c = t" "bsize h (addr_xStart h) = 0"
      "addr_xStart h \<notin> insert (pxEnd h) (fst ` set (us @ cut a s w @ vs))"
    and ap: "apart us" "apart vs" "vs = [] \<or> used (hd vs)"
  obtains h' where "split_block w a h = Some h'" "h' = h\<lparr>links := links h'\<rparr>"
    "path h' (addr_xStart h) (frees (us @ cut a s w @ vs)) (pxEnd h)"
    "\<And>c t. (c, t, False) \<in> set (us @ cut a s w @ vs) \<Longrightarrow> bsize h' c = t"
    "\<And>c t. (c, t, True) \<in> set (us @ vs) \<Longrightarrow> bsize h' c = bsize h c \<and> nextf h' c = nextf h c" "bsize h' a = w"
    "bsize h' (addr_xStart h) = 0" "bsize h' (pxEnd h) = bsize h (pxEnd h)" "nextf h' (pxEnd h) = nextf h (pxEnd h)"
proof -
  let ?n = "a + w" and ?us = "us @ [(a, w, True)]"
  let ?h = "upd_link a (\<lambda>b. b\<lparr>xBlockSize := w\<rparr>) (upd_link ?n (\<lambda>b. b\<lparr>xBlockSize := s - w\<rparr>) h)"
  have c: "cut a s w = [(a, w, True), (?n, s - w, False)]" using assms(2) by (simp add: cut_def)
  have t: "tiles a0 (?us @ (?n, s - w, True) # vs) (pxEnd h)" using tiles_flag [of a0 ?us ?n "s - w" False vs "pxEnd h" True] assms(1) c by simp
  have d: "distinct (map fst (?us @ (?n, s - w, True) # vs))" by (rule tiles_distinct [OF t])
  have lt: "?n \<noteq> pxEnd h" "a \<noteq> pxEnd h" using tiles_in [OF t, of ?n "s - w" True] tiles_in [OF t, of a w True] by auto
  have f: "nextf ?h = nextf h" "bsize ?h = (bsize h)(?n := s - w, a := w)" by (auto simp: fun_eq_iff link_fold)
  have nin: "c \<noteq> a" "c \<noteq> ?n" if "(c, t, v) \<in> set (us @ vs)" for c t v
  proof -
    have "c \<in> fst ` set (us @ vs)" using that by (rule image_eqI [rotated]) simp
    moreover have "a \<notin> fst ` set (us @ vs)" "?n \<notin> fst ` set (us @ vs)" using d by auto
    ultimately show "c \<noteq> a" "c \<noteq> ?n" by metis+
  qed
  have x: "addr_xStart h \<notin> insert (pxEnd h) (fst ` set (?us @ (?n, s - w, True) # vs))" using u(5) c by simp
  have sz: "bsize ?h c = t" if "(c, t, False) \<in> set (us @ vs)" for c t using u(3) [OF that] nin [OF that] by (simp add: f(2))
  have g: "gap ?h ?us ?n (s - w) vs"
    unfolding gap_def
  proof (intro conjI)
    show "\<exists>a. tiles a (?us @ (?n, s - w, True) # vs) (pxEnd ?h)" unfolding link_upd(3) using t by (rule exI)
    show "path ?h (addr_xStart ?h) (frees ?us @ frees vs) (pxEnd ?h)"
      using u(2) path_cong [of "addr_xStart h" "frees us @ frees vs" ?h h "pxEnd h"] by (simp add: f(1))
    show "\<forall>(c, t, v)\<in>set (?us @ vs). \<not> v \<longrightarrow> bsize ?h c = t"
    proof clarify
      fix c t v
      assume "(c, t, v) \<in> set (?us @ vs)" "\<not> v"
      then have "(c, t, False) \<in> set (us @ vs)" by auto
      then show "bsize ?h c = t" by (rule sz)
    qed
    show "bsize ?h ?n = s - w" using d by (simp add: f(2))
    show "bsize ?h (addr_xStart ?h) = 0" using u(4) x by (auto simp: f(2))
    show "addr_xStart ?h \<notin> insert (pxEnd ?h) (fst ` set (?us @ (?n, s - w, True) # vs))" using x by simp
  qed
  have apu: "apart ?us" using ap(1) by (auto simp: successively_append_iff)
  have ne: "?n \<noteq> pxEnd ?h" using lt by simp
  obtain h' where h': "prvInsertBlockIntoFreeList ?n ?h = Some h'" "h' = ?h\<lparr>links := links h'\<rparr>"
    "path h' (addr_xStart ?h) (frees (release ?us ?n (s - w) vs)) (pxEnd ?h)"
    "\<And>c t. (c, t, False) \<in> set (release ?us ?n (s - w) vs) \<Longrightarrow> bsize h' c = t"
    "\<And>c t. (c, t, True) \<in> set (?us @ vs) \<Longrightarrow> bsize h' c = bsize ?h c \<and> nextf h' c = nextf ?h c"
    "bsize h' (addr_xStart ?h) = 0" "bsize h' (pxEnd ?h) = bsize ?h (pxEnd ?h)" "nextf h' (pxEnd ?h) = nextf ?h (pxEnd ?h)"
    by (rule insert_rep [OF g apu ap(2) ne], rule that)
  have "absorb_next (s - w) vs = (s - w, vs)" using ap(3) by (cases "(s - w, vs)" rule: absorb_next.cases) auto
  then have rel: "release ?us ?n (s - w) vs = us @ cut a s w @ vs" by (simp add: release_def absorb_prev_def c)
  have "?n AND 7 = 0" using assms(4,5) by (rule aligned_add)
  then have q1: "split_block w a h = Some h'"
    using h'(1) assms(2) u(1) by (simp add: split_block_def configASSERT_def portBYTE_ALIGNMENT_MASK_def)
  have q2: "h' = h\<lparr>links := links h'\<rparr>" by (subst h'(2)) (simp add: upd_link_def)
  have q3: "path h' (addr_xStart h) (frees (us @ cut a s w @ vs)) (pxEnd h)" using h'(3) unfolding rel link_upd .
  have q4: "bsize h' c = t" if "(c, t, False) \<in> set (us @ cut a s w @ vs)" for c t using h'(4) that unfolding rel .
  have q5: "bsize h' c = bsize h c \<and> nextf h' c = nextf h c" if "(c, t, True) \<in> set (us @ vs)" for c t
  proof -
    have "(c, t, True) \<in> set (?us @ vs)" using that by auto
    from h'(5) [OF this] nin [OF that] show ?thesis by (simp add: f)
  qed
  have q6: "bsize h' a = w" using h'(5) [of a w] by (simp add: f)
  have q7: "bsize h' (addr_xStart h) = 0" "bsize h' (pxEnd h) = bsize h (pxEnd h)" "nextf h' (pxEnd h) = nextf h (pxEnd h)"
    using h'(6-8) lt unfolding f link_upd by simp_all
  show thesis by (rule that) (fact q1 q2 q3 q4 q5 q6 q7)+
qed

lemma apart_cut:
  "apart (us @ (a, s, False) # vs) \<Longrightarrow> apart (us @ cut a s w @ vs)"
  by (auto simp: cut_def successively_append_iff successively_Cons)

lemma take_rep:
  assumes "heap_rep h (us @ (a, s, False) # vs)" "16 \<le> w" "w \<le> s" "w AND 7 = 0"
  obtains h' where "take_block w (last (addr_xStart h # frees us)) a h = Some (a + 8, h')" "heap_rep h' (us @ cut a s w @ vs)"
    "ucHeap h' = ucHeap h" "addr_xStart h' = addr_xStart h"
proof -
  let ?i = "last (addr_xStart h # frees us)"
  define h1 where "h1 = upd_link ?i (\<lambda>b. b\<lparr>pxNextFreeBlock := nextf h a\<rparr>) h"
  note r = rep_split [OF assms(1)] and ul = unlink_block [OF assms(1), folded h1_def]
  have f1: "ucHeap h1 = ucHeap h" "addr_xStart h1 = addr_xStart h" "pxEnd h1 = pxEnd h" "xFreeBytesRemaining h1 = xFreeBytesRemaining h"
    by (simp_all add: h1_def)
  have tc: "tiles (heap_base h) (us @ cut a s w @ vs) (pxEnd h)" by (rule cut_tiles [OF r(2) assms(2-4)])
  have ap: "apart (us @ cut a s w @ vs)" using assms(1) by (intro apart_cut) (simp add: heap_rep_def)
  have sa: "bsize h a = s" using r(16) by (simp add: hdr_ok_def)
  have u1: "bsize h1 c = t" if "(c, t, False) \<in> set (us @ vs)" for c t using r(5) [OF that] ul(3) by simp
  have u2: "bsize h1 c = t OR heapBLOCK_ALLOCATED_BITMASK \<and> nextf h1 c = NULL" if "(c, t, True) \<in> set (us @ vs)" for c t
  proof -
    have "addr_xStart h \<notin> fst ` set (us @ vs)" using r(14) by simp
    then have "c \<noteq> addr_xStart h" using that by (rule key_neq)
    moreover have "(c, t', False) \<notin> set us" for t'
      using eq_key_imp_eq_value [OF r(13), of c "(t, True)" "(t', False)"] that by auto
    ultimately have "c \<noteq> ?i" using ul(8) by metis
    then show ?thesis using r(6) [OF that] by (simp add: ul(3,4))
  qed
  have e1: "bsize h1 (addr_xStart h) = 0" "bsize h1 (pxEnd h) = 0" "nextf h1 (pxEnd h) = NULL" using r(7-9) ul(3,4,6) by simp_all
  have al: "a AND 7 = 0" using tiles_aligned [OF r(2) base_bounds(3) [OF r(1)], of a s False] by simp
  have tk: "take_block w ?i a h = Some (a + 8, finish_take a h2)" if "split_block w a h1 = Some h2" for h2
    using that ul(2) by (simp add: take_block_def h1_def)
  show thesis
  proof (cases "s - w > 16")
    case False
    then have c: "cut a s w = [(a, s, True)]" by (simp add: cut_def)
    have "split_block w a h1 = Some h1" using False sa ul(3) by (simp add: split_block_def)
    moreover have "heap_rep (finish_take a h1) (us @ (a, s, True) # vs)"
      by (rule finish_take_rep [OF assms(1) f1]) (use tc ap c ul(1,3) sa u1 u2 e1 f1 heap_base_cong [of h1 h] in simp_all)
    ultimately show thesis using that [OF tk] c f1 by (simp add: finish_take_fields)
  next
    case True
    then have c: "cut a s w = [(a, w, True), (a + w, s - w, False)]" by (simp add: cut_def)
    have s1: "tiles (heap_base h) (us @ cut a s w @ vs) (pxEnd h1)" "bsize h1 a = s"
      "path h1 (addr_xStart h1) (frees us @ frees vs) (pxEnd h1)" "bsize h1 (addr_xStart h1) = 0"
      using tc f1(3) sa ul(1,3) f1(2) e1(1) by simp_all
    have "w \<noteq> 0" using assms(2) by auto
    have x: "addr_xStart h1 \<notin> insert (pxEnd h1) (fst ` set (us @ cut a s w @ vs))"
      using xStart_outside [OF r(1) tc r(3)] c f1(2,3) by simp
    have v: "vs = [] \<or> used (hd vs)" using r(18) by simp
    obtain h2 where h2: "split_block w a h1 = Some h2" "h2 = h1\<lparr>links := links h2\<rparr>"
      "path h2 (addr_xStart h1) (frees (us @ cut a s w @ vs)) (pxEnd h1)"
      "\<And>c t. (c, t, False) \<in> set (us @ cut a s w @ vs) \<Longrightarrow> bsize h2 c = t"
      "\<And>c t. (c, t, True) \<in> set (us @ vs) \<Longrightarrow> bsize h2 c = bsize h1 c \<and> nextf h2 c = nextf h1 c" "bsize h2 a = w"
      "bsize h2 (addr_xStart h1) = 0" "bsize h2 (pxEnd h1) = bsize h1 (pxEnd h1)" "nextf h2 (pxEnd h1) = nextf h1 (pxEnd h1)"
      by (rule split_rep [OF s1(1) True \<open>w \<noteq> 0\<close> al assms(4) s1(2,3) u1 s1(4) x r(10,11) v], assumption, rule that)
    have f2: "ucHeap h2 = ucHeap h" "addr_xStart h2 = addr_xStart h" "pxEnd h2 = pxEnd h" "xFreeBytesRemaining h2 = xFreeBytesRemaining h"
      by (subst h2(2), simp add: f1)+
    have ws: "unat (s - w) = unat s - unat w" "unat w \<le> unat s" using assms(3) by (simp_all add: unat_sub word_le_nat_alt)
    have "heap_rep (finish_take a h2) (us @ (a, w, True) # (a + w, s - w, False) # vs)"
    proof (rule finish_take_rep [OF assms(1) f2])
      show "bsize h2 c = t OR heapBLOCK_ALLOCATED_BITMASK \<and> nextf h2 c = NULL"
        if "(c, t, True) \<in> set (us @ (a + w, s - w, False) # vs)" for c t
        using that h2(5) [of c t] u2 [of c t] by simp
      show "bsize h2 c = t" if "(c, t, False) \<in> set (us @ (a + w, s - w, False) # vs)" for c t
        using that h2(4) [of c t] c by auto
    qed (use tc ap c h2(3,6-9) f1 f2 e1 ws heap_base_cong [OF f2(1)] in simp_all)
    then show thesis using that [OF tk [OF h2(1)]] c f2 by (simp add: finish_take_fields)
  qed
qed

section \<open>Allocation\<close>

lemma mask_ok: "heapBLOCK_SIZE_IS_VALID w \<longleftrightarrow> unat w < 2 ^ 31"
proof -
  have "w AND heapBLOCK_ALLOCATED_BITMASK = 0 \<longleftrightarrow> \<not> bit w 31"
  proof
    assume "w AND heapBLOCK_ALLOCATED_BITMASK = 0"
    then have "\<not> bit (w AND heapBLOCK_ALLOCATED_BITMASK) 31" by simp
    then show "\<not> bit w 31" by (simp add: bit_and_iff bit_mask)
  next
    assume "\<not> bit w 31"
    then show "w AND heapBLOCK_ALLOCATED_BITMASK = 0" by (intro bit_word_eqI) (auto simp: bit_and_iff bit_mask)
  qed
  also have "bit w 31 \<longleftrightarrow> bit (unat w) 31" by (simp add: bit_unsigned_iff)
  also have "\<dots> \<longleftrightarrow> odd (unat w div 2 ^ 31)" by (rule bit_iff_odd)
  also have "(\<not> \<dots>) \<longleftrightarrow> unat w < 2 ^ 31"
  proof -
    have "unat w < 2 ^ LENGTH(32)" by (rule unsigned_less)
    then consider "unat w div 2 ^ 31 = 0" | "unat w div 2 ^ 31 = 1" by fastforce
    then show ?thesis by cases auto
  qed
  finally show ?thesis by (simp add: heapBLOCK_SIZE_IS_VALID_def)
qed

lemma wanted_size_cases:
  assumes "n > 0"
  shows "wanted_size n = 0 \<or> unat (wanted_size n) = unat n + (16 - unat n mod 8)" "wanted_size n AND 7 = 0"
    "wanted_size n = 0 \<or> 16 \<le> wanted_size n"
proof -
  define x where "x = 16 - (n AND 7)"
  have m: "unat (n AND 7) = unat n mod 8" by (rule unat_and_7)
  have x: "unat x = 16 - unat n mod 8"
    unfolding x_def by (subst unat_sub) (simp_all add: word_le_nat_alt m)
  have w: "wanted_size n = (if n > heapSIZE_MAX - x then 0 else n + x)"
    using assms by (simp add: wanted_size_def x_def heapADD_WILL_OVERFLOW_def portBYTE_ALIGNMENT_def portBYTE_ALIGNMENT_MASK_def Let_def)
  have mx: "unat heapSIZE_MAX = 2 ^ 32 - 1" by (simp add: heapSIZE_MAX_def unsigned_minus_1_eq_mask mask_eq_exp_minus_1)
  have "unat x \<le> unat heapSIZE_MAX" unfolding mx x by simp
  then have "unat (heapSIZE_MAX - x) = 2 ^ 32 - 1 - unat x" by (simp add: unat_sub word_le_nat_alt mx)
  then have a: "unat (n + x) = unat n + unat x" if "\<not> n > heapSIZE_MAX - x"
    using that by (subst unat_add_lem [symmetric]) (simp add: word_less_nat_alt x)
  show c: "wanted_size n = 0 \<or> unat (wanted_size n) = unat n + (16 - unat n mod 8)" using a x by (simp add: w)
  have "8 dvd unat n + (16 - unat n mod 8)" by presburger
  then show "wanted_size n AND 7 = 0" using c by (auto simp: aligned_iff)
  show "wanted_size n = 0 \<or> 16 \<le> wanted_size n" using c
  proof
    assume "unat (wanted_size n) = unat n + (16 - unat n mod 8)"
    moreover have "16 \<le> unat n + (16 - unat n mod 8)" by presburger
    ultimately show ?thesis by (simp add: word_le_nat_alt)
  qed simp
qed

text \<open>The first free block that is large enough is taken.\<close>

lemma path_next:
  assumes "path h p fs e" "0 \<notin> set fs" "e \<noteq> 0" "f \<in> set fs"
  shows "nextf h f \<noteq> NULL"
proof -
  from assms(4) obtain us vs where fs: "fs = us @ f # vs" by (meson split_list)
  then have "path h f vs e" using assms(1) by (simp add: path_append)
  then have "nextf h f \<in> set (vs @ [e])" by (cases vs) auto
  then show ?thesis using assms(2,3) fs by (auto simp: NULL_def)
qed

lemma frees_in: "f \<in> set (frees bs) \<longleftrightarrow> (\<exists>t. (f, t, False) \<in> set bs)"
  by (auto simp: frees_def used_def) force

lemma rep_nonzero:
  assumes "heap_rep h bs" "bs \<noteq> []"
  shows "pxEnd h \<noteq> 0" "0 \<notin> set (frees bs)"
proof -
  have r: "placed h" "tiles (heap_base h) bs (pxEnd h)" "unat (pxEnd h) + 8 \<le> unat (ucHeap h) + 15360"
    using assms(1) by (auto simp: heap_rep_def)
  obtain a s u bs' where "bs = (a, s, u) # bs'" using assms(2) by (cases bs) auto
  then have "a < pxEnd h" using tiles_inside(7) [OF r, of a s u] by simp
  then show "pxEnd h \<noteq> 0" by auto
  show "0 \<notin> set (frees bs)" using tiles_inside(5) [OF r] by (auto simp: frees_in)
qed

lemma free_bytes_ge: "(a, s, False) \<in> set bs \<Longrightarrow> unat s \<le> free_bytes bs"
  by (auto simp: free_bytes_def used_def blk_size_def intro!: member_le_sum_list rev_image_eqI)

text \<open>The heap of the first call is initialised.\<close>

definition ready_heap :: "heap4 \<Rightarrow> heap4" where
  "ready_heap h = (if pxEnd h = NULL then prvHeapInit h else h)"

lemma malloc_section_fits:
  assumes "heap_rep (ready_heap h) (us @ (a, s, False) # vs)" "n > 0" "wanted_size n \<noteq> 0"
    "wanted_size n \<le> s" "\<And>c t. (c, t, False) \<in> set us \<Longrightarrow> t < wanted_size n"
  obtains h' where "malloc_section n h = Some (a + 8, h')" "heap_rep h' (us @ cut a s (wanted_size n) @ vs)"
    "ucHeap h' = ucHeap (ready_heap h)" "addr_xStart h' = addr_xStart (ready_heap h)"
proof -
  define h0 where "h0 = ready_heap h"
  let ?w = "wanted_size n" and ?x = "addr_xStart h0"
  note r0 = assms(1) [folded h0_def]
  note r = rep_split [OF r0] and z = rep_nonzero [OF r0] and w = wanted_size_cases [OF assms(2)]
  have p: "path h0 ?x (frees us) a" using r(4) by (simp add: path_append)
  have "bsize h0 f < ?w \<and> nextf h0 f \<noteq> NULL" if "f \<in> set (frees us)" for f
  proof -
    obtain t where "(f, t, False) \<in> set us" using \<open>f \<in> set (frees us)\<close> by (auto simp: frees_in)
    then have "bsize h0 f = t" "t < ?w" using r(5) assms(5) by auto
    moreover have "nextf h0 f \<noteq> NULL"
      using path_next [OF r(4), of f] z that by simp
    ultimately show ?thesis by simp
  qed
  moreover have sa: "bsize h0 a = s" using r(16) by (simp add: hdr_ok_def)
  ultimately have srch: "fit_search ?w ?x (nextf h0 ?x) h0 = Some (last (?x # frees us), a)"
    using assms(4) by (intro fit_search_path [OF p]) auto
  have us: "unat s < 2 ^ 31" using tiles_inside(3) [OF r(1-3), of a s False] by simp
  have v: "heapBLOCK_SIZE_IS_VALID ?w" using us assms(4) by (simp add: mask_ok word_le_nat_alt)
  have le: "?w \<le> xFreeBytesRemaining h0" using r(12) assms(4) by (simp add: word_le_nat_alt)
  obtain h' where h': "take_block ?w (last (?x # frees us)) a h0 = Some (a + 8, h')" "heap_rep h' (us @ cut a s ?w @ vs)"
    "ucHeap h' = ucHeap h0" "addr_xStart h' = addr_xStart h0"
    using take_rep [OF r0 _ assms(4) w(2)] w(3) assms(3) by metis
  have "malloc_section n h = Some (a + 8, h')"
    using srch v le h'(1) assms(3) r(15)
    by (auto simp: malloc_section_def ready_heap_def [symmetric] h0_def [symmetric] word_gt_0)
  then show thesis using that h'(2-4) by (simp add: h0_def)
qed

lemma malloc_section_none:
  assumes "heap_rep (ready_heap h) bs" "bs \<noteq> []" "n = 0 \<or> wanted_size n = 0 \<or> (\<forall>c t. (c, t, False) \<in> set bs \<longrightarrow> t < wanted_size n)"
  shows "malloc_section n h = Some (NULL, ready_heap h)"
proof (cases "heapBLOCK_SIZE_IS_VALID (wanted_size n) \<and> wanted_size n > 0 \<and> wanted_size n \<le> xFreeBytesRemaining (ready_heap h)")
  case False
  then show ?thesis by (auto simp: malloc_section_def ready_heap_def [symmetric])
next
  case True
  define h0 where "h0 = ready_heap h"
  note r0 = assms(1) [folded h0_def]
  note z = rep_nonzero [OF r0 assms(2)]
  have "\<forall>c t. (c, t, False) \<in> set bs \<longrightarrow> t < wanted_size n" using assms(3) True by (auto simp: wanted_size_def)
  moreover have r: "path h0 (addr_xStart h0) (frees bs) (pxEnd h0)" "list_all (hdr_ok h0) bs" "nextf h0 (pxEnd h0) = NULL"
    using r0 by (auto simp: heap_rep_def)
  moreover have "bsize h0 f = t" if "(f, t, False) \<in> set bs" for f t
    using that r(2) bspec [of "set bs" "hdr_ok h0" "(f, t, False)"] by (simp add: list_all_iff hdr_ok_def)
  ultimately have "\<forall>f\<in>set (frees bs). bsize h0 f < wanted_size n \<and> nextf h0 f \<noteq> NULL"
    using path_next [OF r(1) z(2,1)] by (metis frees_in)
  then have "fit_search (wanted_size n) (addr_xStart h0) (nextf h0 (addr_xStart h0)) h0 = Some (last (addr_xStart h0 # frees bs), pxEnd h0)"
    using fit_search_path [OF r(1)] r(3) by simp
  then show ?thesis using True by (simp add: malloc_section_def ready_heap_def [symmetric] h0_def [symmetric])
qed

section \<open>Initialisation\<close>

lemma heap_init_rep:
  assumes "placed h"
  shows "heap_rep (prvHeapInit h) [(heap_base h, pxEnd (prvHeapInit h) - heap_base h, False)]"
    "ucHeap (prvHeapInit h) = ucHeap h" "addr_xStart (prvHeapInit h) = addr_xStart h"
proof -
  let ?b = "heap_base h"
  define e where "e = (ucHeap h + 15352) AND NOT 7"
  note b = base_bounds [OF assms]
  have p: "unat (ucHeap h) + 15360 < 2 ^ 32" "ucHeap h \<noteq> 0" using assms by (auto simp: placed_def)
  have al: "?b = ucHeap h" if "ucHeap h AND 7 = 0"
  proof -
    have "8 dvd unat (ucHeap h)" using that by (simp add: aligned_iff)
    then have "(unat (ucHeap h) + 7) div 8 * 8 = unat (ucHeap h)" by presburger
    then show ?thesis using b(5) by (simp add: word_unat_eq_iff)
  qed
  define H where "H = (let h = upd_link (addr_xStart h) (\<lambda>_. \<lparr>pxNextFreeBlock = ?b, xBlockSize = 0\<rparr>) h;
      h = upd_link e (\<lambda>_. \<lparr>pxNextFreeBlock = NULL, xBlockSize = 0\<rparr>) (h\<lparr>pxEnd := e\<rparr>);
      h = upd_link ?b (\<lambda>_. \<lparr>pxNextFreeBlock = e, xBlockSize = e - ?b\<rparr>) h
    in h\<lparr>xMinimumEverFreeBytesRemaining := e - ?b, xFreeBytesRemaining := e - ?b\<rparr>)"
  have H: "prvHeapInit h = H"
  proof (cases "ucHeap h AND 7 = 0")
    case True
    then show ?thesis using al
      by (simp add: H_def prvHeapInit_def e_def portBYTE_ALIGNMENT_MASK_def configTOTAL_HEAP_SIZE_def Let_def add_diff_eq [symmetric])
  next
    case False
    then show ?thesis
      by (simp add: H_def prvHeapInit_def e_def portBYTE_ALIGNMENT_MASK_def portBYTE_ALIGNMENT_def configTOTAL_HEAP_SIZE_def Let_def heap_base_def algebra_simps)
  qed
  have a: "unat (ucHeap h + 15352) = unat (ucHeap h) + 15352" using p by (simp add: unat_word_ariths)
  have ue: "unat e = unat (ucHeap h) + 15352 - (unat (ucHeap h) + 15352) mod 8" unfolding e_def align_down a by simp
  have d: "unat (e - ?b) = unat e - unat ?b" using ue b(2) by (simp add: unat_sub word_le_nat_alt)
  have ae: "8 dvd unat e" unfolding ue by (simp add: dvd_minus_mod)
  have s16: "16 \<le> e - ?b" "unat ?b < unat e" "unat e + 8 \<le> unat (ucHeap h) + 15360"
    using ue b(2) d unfolding word_le_nat_alt by (simp, linarith, linarith)
  have s7: "(e - ?b) AND 7 = 0" using ae b(3) by (simp add: aligned_iff d dvd_diff_nat)
  have ne: "?b \<noteq> e" "addr_xStart h \<noteq> ?b" "addr_xStart h \<noteq> e"
    using s16(2,3) assms b(1) by (auto simp: placed_def word_le_nat_alt)
  have f: "pxEnd H = e" "ucHeap H = ucHeap h" "addr_xStart H = addr_xStart h" "xFreeBytesRemaining H = e - ?b"
    by (simp_all add: H_def Let_def)
  have l: "nextf H ?b = e" "bsize H ?b = e - ?b" "nextf H e = NULL" "bsize H e = 0"
    "nextf H (addr_xStart h) = ?b" "bsize H (addr_xStart h) = 0"
    using ne by (simp_all add: H_def Let_def nextf_def bsize_def upd_link_def)
  have t: "tiles ?b [(?b, e - ?b, False)] e" using s16(1,2) s7 by (simp add: word_less_nat_alt)
  have "heap_rep H [(?b, e - ?b, False)]"
    unfolding heap_rep_def f heap_base_cong [OF f(2)]
    using l t s16(3) assms placed_cong [OF f(2,3)] by (simp add: hdr_ok_def)
  then show "heap_rep (prvHeapInit h) [(heap_base h, pxEnd (prvHeapInit h) - heap_base h, False)]" by (simp only: H f(1))
  show "ucHeap (prvHeapInit h) = ucHeap h" "addr_xStart (prvHeapInit h) = addr_xStart h" by (simp_all only: H f)
qed

section \<open>Release\<close>

lemma tiles_total: "tiles a bs e \<Longrightarrow> free_bytes bs \<le> unat e - unat a"
proof (induction a bs e rule: tiles.induct)
  case (2 a b s u bs e)
  then have "unat (a + s) = unat a + unat s" by (intro unat_no_wrap less_imp_le) simp
  moreover have "unat (a + s) \<le> unat e" using tiles_le [of "a + s" bs e] 2 by (simp add: word_le_nat_alt)
  ultimately show ?case using 2 by auto
qed simp

lemma free_section_rep:
  assumes "heap_rep h (us @ (a, s, True) # vs)"
  obtains h' where "free_section a (heapFREE_BLOCK a h) = Some h'" "heap_rep h' (release us a s vs)"
    "ucHeap h' = ucHeap h" "addr_xStart h' = addr_xStart h"
proof -
  note r = rep_split [OF assms]
  let ?f = "xFreeBytesRemaining h + s"
  define h1 where "h1 = (heapFREE_BLOCK a h)\<lparr>xFreeBytesRemaining := ?f\<rparr>"
  have sa: "bsize h a = s OR heapBLOCK_ALLOCATED_BITMASK" using r(16) by (simp add: hdr_ok_def)
  have us: "unat s < 2 ^ 31" using tiles_inside(3) [OF r(1-3), of a s True] by simp
  have f: "bsize h1 = (bsize h)(a := s)" "nextf h1 = nextf h" "pxEnd h1 = pxEnd h" "addr_xStart h1 = addr_xStart h" "ucHeap h1 = ucHeap h"
    "xFreeBytesRemaining h1 = ?f"
    using small_size(2) [OF us] sa
    by (auto simp: h1_def heapFREE_BLOCK_def upd_link_def bsize_def nextf_def fun_eq_iff)
  have na: "a \<notin> fst ` set (us @ vs)" using r(13) by auto
  have sz: "bsize h1 c = t" if "(c, t, False) \<in> set (us @ vs)" for c t
    using r(5) [OF that] key_neq [OF na that] by (simp add: f)
  have ax: "a \<noteq> addr_xStart h" "a \<noteq> pxEnd h" using r(14,15) by auto
  have g: "gap h1 us a s vs"
    unfolding gap_def f(3,4)
  proof (intro conjI)
    show "\<exists>c. tiles c (us @ (a, s, True) # vs) (pxEnd h)" using r(2) by (rule exI)
    show "path h1 (addr_xStart h) (frees us @ frees vs) (pxEnd h)"
      using r(4) path_cong [of "addr_xStart h" "frees us @ frees vs" h1 h "pxEnd h"] f(2) by simp
    show "\<forall>(c, t, v)\<in>set (us @ vs). \<not> v \<longrightarrow> bsize h1 c = t"
    proof clarify
      fix c t v
      assume "(c, t, v) \<in> set (us @ vs)" "\<not> v"
      then show "bsize h1 c = t" by (intro sz) simp
    qed
    show "bsize h1 a = s" "bsize h1 (addr_xStart h) = 0" using f(1) ax r(7) by simp_all
  qed (rule r(14))
  obtain h2 where h2: "prvInsertBlockIntoFreeList a h1 = Some h2" "h2 = h1\<lparr>links := links h2\<rparr>"
    "path h2 (addr_xStart h1) (frees (release us a s vs)) (pxEnd h1)"
    "\<And>c t. (c, t, False) \<in> set (release us a s vs) \<Longrightarrow> bsize h2 c = t"
    "\<And>c t. (c, t, True) \<in> set (us @ vs) \<Longrightarrow> bsize h2 c = bsize h1 c \<and> nextf h2 c = nextf h1 c"
    "bsize h2 (addr_xStart h1) = 0" "bsize h2 (pxEnd h1) = bsize h1 (pxEnd h1)" "nextf h2 (pxEnd h1) = nextf h1 (pxEnd h1)"
    by (rule insert_rep [OF g r(10,11) _], use f(3) ax(2) in simp, rule that)
  let ?h = "h2\<lparr>xNumberOfSuccessfulFrees := xNumberOfSuccessfulFrees h2 + 1\<rparr>"
  have f2: "pxEnd h2 = pxEnd h" "addr_xStart h2 = addr_xStart h" "ucHeap h2 = ucHeap h" "xFreeBytesRemaining h2 = ?f"
    by (subst h2(2), simp add: f)+
  note rl = release_layout [OF r(2,10,11)]
  have "free_bytes (release us a s vs) \<le> unat (pxEnd h)" using tiles_total [OF rl(1)] by simp
  then have "unat (xFreeBytesRemaining h) + unat s < 2 ^ LENGTH(32)"
    using rl(3) r(12) unsigned_less [of "pxEnd h"] by (metis add.assoc add.commute add_0 le_less_trans unsigned_less)
  then have "unat ?f = unat (xFreeBytesRemaining h) + unat s" by (simp only: unat_add_lem)
  then have uf: "unat ?f = free_bytes (release us a s vs)" using rl(3) r(12) by simp
  have hd: "hdr_ok h2 (c, t, v)" if "(c, t, v) \<in> set (release us a s vs)" for c t v
  proof (cases v)
    case True
    then have "(c, t, True) \<in> set (filter used (release us a s vs))" using that by simp
    then have u: "(c, t, True) \<in> set (us @ vs)" unfolding rl(4) by auto
    then show ?thesis using h2(5) [OF u] r(6) [OF u] key_neq [OF na u] True by (simp add: hdr_ok_def f)
  next
    case False
    then show ?thesis using h2(4) [of c t] that by (simp add: hdr_ok_def)
  qed
  have cg: "nextf ?h = nextf h2" "bsize ?h = bsize h2" "hdr_ok ?h = hdr_ok h2"
    by (auto simp: nextf_def bsize_def hdr_ok_def fun_eq_iff)
  have "path ?h p fs e = path h2 p fs e" for p fs e by (rule path_cong) (simp add: cg)
  then have "heap_rep ?h (release us a s vs)"
    using rl(1,2) h2(3,6-8) f f2 r(1,3,8,9) hd uf ax placed_cong [of ?h h] heap_base_cong [of ?h h]
    by (auto simp: heap_rep_def cg list_all_iff)
  moreover have "free_section a (heapFREE_BLOCK a h) = Some ?h"
  proof -
    have "bsize (heapFREE_BLOCK a h) a = s" "xFreeBytesRemaining (heapFREE_BLOCK a h) = xFreeBytesRemaining h"
      using small_size(2) [OF us] sa by (simp_all add: heapFREE_BLOCK_def link_fold)
    then show ?thesis using h2(1) by (simp add: free_section_def h1_def)
  qed
  ultimately show thesis using that f2 by simp
qed

section \<open>The life of the heap\<close>

text \<open>
  The heap and the pointers that are handed out. Between the calls the application may change the memory of
  the blocks it owns: everything behind the header, so that what lies there may look like a header.
\<close>

definition payload :: "heap4 \<Rightarrow> u32 \<Rightarrow> nat" where
  "payload h p = unat (bsize h (p - 8) AND NOT heapBLOCK_ALLOCATED_BITMASK) - 8"

inductive heap_run :: "heap4 \<Rightarrow> heap4 \<Rightarrow> u32 set \<Rightarrow> bool" for h0 where
  run_start: "heap_run h0 h0 {}"
| run_malloc: "heap_run h0 h live \<Longrightarrow> malloc_section n h = Some (p, h') \<Longrightarrow> heap_run h0 h' (if p = NULL then live else insert p live)"
| run_free: "heap_run h0 h live \<Longrightarrow> p \<in> live \<Longrightarrow> free_section (p - 8) (heapFREE_BLOCK (p - 8) h) = Some h' \<Longrightarrow>
    heap_run h0 h' (live - {p})"
| run_write: "heap_run h0 h live \<Longrightarrow> p \<in> live \<Longrightarrow>
    (\<And>c. \<not> (unat p - 8 < unat c \<and> unat c < unat p + payload h p) \<Longrightarrow> f c = links h c) \<Longrightarrow> heap_run h0 (h\<lparr>links := f\<rparr>) live"

definition live_blocks :: "block list \<Rightarrow> u32 set" where
  "live_blocks bs = {a + 8 |a s. (a, s, True) \<in> set bs}"

definition heap_inv :: "heap4 \<Rightarrow> u32 set \<Rightarrow> block list \<Rightarrow> bool" where
  "heap_inv h live bs \<longleftrightarrow> bs \<noteq> [] \<and> heap_rep (ready_heap h) bs \<and> live = live_blocks bs \<and> (live = {} \<or> ready_heap h = h)"

lemma ready_heap_rep: "heap_rep h bs \<Longrightarrow> bs \<noteq> [] \<Longrightarrow> ready_heap h = h"
  using rep_nonzero(1) by (auto simp: ready_heap_def NULL_def)

lemma first_fit:
  fixes bs :: "block list" and w :: u32
  obtains us a s vs where "bs = us @ (a, s, False) # vs" "w \<le> s" "\<And>c t. (c, t, False) \<in> set us \<Longrightarrow> t < w"
  | "\<forall>c t. (c, t, False) \<in> set bs \<longrightarrow> t < w"
proof (cases "\<exists>x\<in>set bs. \<not> used x \<and> w \<le> blk_size x")
  case True
  then obtain us x vs where "bs = us @ x # vs" "\<not> used x \<and> w \<le> blk_size x" "\<forall>y\<in>set us. \<not> (\<not> used y \<and> w \<le> blk_size y)"
    using split_list_first_prop [of bs "\<lambda>x. \<not> used x \<and> w \<le> blk_size x"] by blast
  moreover obtain a t u where "x = (a, t, u)" by (cases x)
  ultimately have x: "bs = us @ (a, t, False) # vs" "w \<le> t" "\<forall>y\<in>set us. used y \<or> blk_size y < w" by (auto simp: not_le)
  have "v < w" if "(c, v, False) \<in> set us" for c v using bspec [OF x(3) that] by simp
  then show thesis by (rule that(1) [OF x(1,2)])
next
  case False
  then have f: "\<forall>x\<in>set bs. used x \<or> blk_size x < w" by (auto simp: not_le)
  have "v < w" if "(c, v, False) \<in> set bs" for c v using bspec [OF f that] by simp
  then show thesis using that(2) by blast
qed

lemma live_cut:
  assumes "16 \<le> w" "w \<le> s"
  shows "live_blocks (us @ cut a s w @ vs) = insert (a + 8) (live_blocks (us @ (a, s, False) # vs))"
  by (auto simp: live_blocks_def cut_def)

lemma live_release:
  assumes "tiles b (us @ (a, s, True) # vs) e" "apart us" "apart vs"
  shows "live_blocks (release us a s vs) = live_blocks (us @ (a, s, True) # vs) - {a + 8}"
proof -
  have used: "(c, t, True) \<in> set xs \<longleftrightarrow> (c, t, True) \<in> set (filter used xs)" for c t xs by simp
  have "(c, t, True) \<in> set (release us a s vs) \<longleftrightarrow> (c, t, True) \<in> set (us @ vs)" for c t
    unfolding used [of c t "release us a s vs"] release_layout(4) [OF assms] by auto
  moreover have "a \<notin> fst ` set (us @ vs)" using tiles_distinct [OF assms(1)] by auto
  then have "(a, t, v) \<notin> set us" "(a, t, v) \<notin> set vs" for t v using key_neq [of a "us @ vs" a t v] by auto
  ultimately show ?thesis by (auto simp: live_blocks_def)
qed

lemma heap_inv_start: "pxEnd h = NULL \<Longrightarrow> placed h \<Longrightarrow> heap_inv h {} [(heap_base h, pxEnd (prvHeapInit h) - heap_base h, False)]"
  using heap_init_rep(1) by (simp add: heap_inv_def ready_heap_def live_blocks_def)

lemma heap_inv_malloc:
  assumes "heap_inv h live bs"
  obtains p h' bs' where "malloc_section n h = Some (p, h')" "heap_inv h' (if p = NULL then live else insert p live) bs'"
    "p = NULL \<or> p \<notin> live \<and> (\<exists>a s. p = a + 8 \<and> (a, s, True) \<in> set bs' \<and> unat n + 8 \<le> unat s)"
    "ready_heap h' = h'" "ucHeap h' = ucHeap (ready_heap h)"
proof -
  have r: "heap_rep (ready_heap h) bs" "bs \<noteq> []" "live = live_blocks bs" using assms by (auto simp: heap_inv_def)
  show thesis
  proof (cases "n = 0 \<or> wanted_size n = 0 \<or> (\<forall>c t. (c, t, False) \<in> set bs \<longrightarrow> t < wanted_size n)")
    case True
    then have "malloc_section n h = Some (NULL, ready_heap h)" by (rule malloc_section_none [OF r(1,2)])
    moreover have "heap_inv (ready_heap h) live bs" using r ready_heap_rep [OF r(1,2)] by (simp add: heap_inv_def)
    ultimately show thesis using that [of NULL "ready_heap h" bs] ready_heap_rep [OF r(1,2)] by simp
  next
    case False
    then have n: "n > 0" "wanted_size n \<noteq> 0" by (auto simp: word_gt_0)
    obtain us a s vs where bs: "bs = us @ (a, s, False) # vs" "wanted_size n \<le> s" "\<And>c t. (c, t, False) \<in> set us \<Longrightarrow> t < wanted_size n"
      by (rule first_fit [of bs "wanted_size n"]) (use False in blast)+
    obtain h' where h': "malloc_section n h = Some (a + 8, h')" "heap_rep h' (us @ cut a s (wanted_size n) @ vs)"
      "ucHeap h' = ucHeap (ready_heap h)"
      by (rule malloc_section_fits [OF r(1) [unfolded bs(1)] n bs(2,3)])
    let ?bs = "us @ cut a s (wanted_size n) @ vs"
    have w: "16 \<le> wanted_size n" "unat n + 8 \<le> unat (wanted_size n)"
      using wanted_size_cases(1,3) [OF n(1)] n(2) mod_less_divisor [of 8 "unat n"] by auto
    have ne: "?bs \<noteq> []" by (simp add: cut_def)
    have inv: "heap_inv h' (insert (a + 8) live) ?bs"
      using h'(2) ne ready_heap_rep [OF h'(2) ne] r(3) live_cut [OF w(1) bs(2)] bs(1) by (simp add: heap_inv_def)
    note t = rep_split [OF r(1) [unfolded bs(1)]]
    have "a + 8 \<noteq> NULL"
    proof -
      have "a < a + s" "16 \<le> s" using tiles_in [OF t(2), of a s False] by auto
      then have "unat (a + s) = unat a + unat s" "16 \<le> unat s" by (auto intro: unat_no_wrap less_imp_le simp: word_le_nat_alt)
      moreover have "unat (a + s) < 2 ^ LENGTH(32)" by (rule unsigned_less)
      ultimately have "unat (a + 8) = unat a + 8" by (simp add: unat_word_ariths)
      then show ?thesis by (auto simp: NULL_def)
    qed
    moreover have "a + 8 \<notin> live"
    proof -
      have "a \<notin> fst ` set (us @ vs)" using t(13) by auto
      then have "(a, t, True) \<notin> set (us @ (a, s, False) # vs)" for t using key_neq [of a "us @ vs" a t True] by auto
      then show ?thesis by (auto simp: r(3) bs(1) live_blocks_def)
    qed
    moreover have "\<exists>t. (a, t, True) \<in> set ?bs \<and> unat n + 8 \<le> unat t"
      using w(2) bs(2) by (auto simp: cut_def word_le_nat_alt)
    ultimately show thesis using that [OF h'(1), of ?bs] inv ready_heap_rep [OF h'(2) ne] h'(3) by auto
  qed
qed

lemma live_block:
  assumes "heap_inv h live bs" "p \<in> live"
  obtains us a s vs where "p = a + 8" "bs = us @ (a, s, True) # vs" "heap_rep h (us @ (a, s, True) # vs)"
proof -
  obtain a s where "p = a + 8" "(a, s, True) \<in> set bs" using assms by (auto simp: heap_inv_def live_blocks_def)
  then obtain us vs where "bs = us @ (a, s, True) # vs" by (meson split_list)
  moreover have "ready_heap h = h" "heap_rep (ready_heap h) bs" using assms by (auto simp: heap_inv_def)
  ultimately show thesis using that \<open>p = a + 8\<close> by simp
qed

lemma heap_inv_free:
  assumes "heap_inv h live bs" "p \<in> live"
  obtains h' bs' where "free_section (p - 8) (heapFREE_BLOCK (p - 8) h) = Some h'" "heap_inv h' (live - {p}) bs'"
    "heapBLOCK_IS_ALLOCATED (p - 8) h" "nextf h (p - 8) = NULL" "ready_heap h' = h'" "ucHeap h' = ucHeap (ready_heap h)"
proof -
  obtain us a s vs where b: "p = a + 8" "bs = us @ (a, s, True) # vs" "heap_rep h (us @ (a, s, True) # vs)"
    by (rule live_block [OF assms])
  note r = rep_split [OF b(3)]
  obtain h' where h': "free_section a (heapFREE_BLOCK a h) = Some h'" "heap_rep h' (release us a s vs)" "ucHeap h' = ucHeap h"
    by (rule free_section_rep [OF b(3)])
  have ne: "release us a s vs \<noteq> []" by (simp add: release_def split: prod.splits)
  have "live = live_blocks bs" using assms(1) by (simp add: heap_inv_def)
  then have "heap_inv h' (live - {p}) (release us a s vs)"
    using h'(2) ne ready_heap_rep [OF h'(2) ne] live_release [OF r(2,10,11)] b(1,2) by (simp add: heap_inv_def)
  moreover have "unat s < 2 ^ 31" using tiles_inside(3) [OF r(1-3), of a s True] by simp
  then have "heapBLOCK_IS_ALLOCATED a h" "nextf h a = NULL"
    using r(16) small_size(3) by (simp_all add: hdr_ok_def heapBLOCK_IS_ALLOCATED_def)
  moreover have "ready_heap h = h" using b(3) by (rule ready_heap_rep) simp
  ultimately show thesis using h'(1,3) that b(1) ready_heap_rep [OF h'(2) ne] by simp
qed

lemma heap_rep_links:
  assumes "heap_rep h bs" "\<And>c. c \<in> insert (addr_xStart h) (insert (pxEnd h) (fst ` set bs)) \<Longrightarrow> f c = links h c"
  shows "heap_rep (h\<lparr>links := f\<rparr>) bs"
proof -
  let ?h = "h\<lparr>links := f\<rparr>"
  have n: "nextf ?h c = nextf h c" "bsize ?h c = bsize h c" if "c \<in> insert (addr_xStart h) (insert (pxEnd h) (fst ` set bs))" for c
    using assms(2) [OF that] by (simp_all add: nextf_def bsize_def)
  have "path ?h (addr_xStart h) (frees bs) (pxEnd h) = path h (addr_xStart h) (frees bs) (pxEnd h)"
    using frees_subset [of bs] by (intro path_cong n) auto
  moreover have "list_all (hdr_ok ?h) bs = list_all (hdr_ok h) bs"
  proof (intro list.pred_cong refl)
    fix x assume "x \<in> set bs"
    then have "fst x \<in> insert (addr_xStart h) (insert (pxEnd h) (fst ` set bs))" by simp
    from n [OF this] show "hdr_ok ?h x = hdr_ok h x" by (cases x) (simp add: hdr_ok_def)
  qed
  ultimately show ?thesis
    using assms(1) n placed_cong [of ?h h] heap_base_cong [of ?h h] by (simp add: heap_rep_def)
qed

text \<open>Size and place of a block that is handed out.\<close>

lemma live_payload:
  assumes "heap_rep h (us @ (a, s, True) # vs)"
  shows "unat (a + 8) = unat a + 8" "payload h (a + 8) = unat s - 8" "16 \<le> unat s" "unat (a + s) = unat a + unat s"
proof -
  note r = rep_split [OF assms]
  have t: "a < a + s" "16 \<le> s" using tiles_in [OF r(2), of a s True] by auto
  then show u: "unat (a + s) = unat a + unat s" "16 \<le> unat s" by (auto intro: unat_no_wrap less_imp_le simp: word_le_nat_alt)
  moreover have "unat (a + s) < 2 ^ LENGTH(32)" by (rule unsigned_less)
  ultimately show "unat (a + 8) = unat a + 8" by (simp add: unat_word_ariths)
  have "unat s < 2 ^ 31" using tiles_inside(3) [OF r(1-3), of a s True] by simp
  then show "payload h (a + 8) = unat s - 8"
    using r(16) small_size(2) by (simp add: hdr_ok_def payload_def)
qed

lemma heap_inv_write:
  assumes "heap_inv h live bs" "p \<in> live"
    "\<And>c. \<not> (unat p - 8 < unat c \<and> unat c < unat p + payload h p) \<Longrightarrow> f c = links h c"
  shows "heap_inv (h\<lparr>links := f\<rparr>) live bs"
proof -
  obtain us a s vs where b: "p = a + 8" "bs = us @ (a, s, True) # vs" "heap_rep h (us @ (a, s, True) # vs)"
    by (rule live_block [OF assms(1,2)])
  note r = rep_split [OF b(3)] and l = live_payload [OF b(3)] and tu = tiles_unique [OF r(2)]
  have out: "f c = links h c" if "\<not> (unat a < unat c \<and> unat c < unat a + unat s)" for c
    using assms(3) [of c] that l(1-3) b(1) by auto
  have ti: "unat (ucHeap h) \<le> unat a" "unat a + unat s \<le> unat (pxEnd h)" using tiles_inside(1,2) [OF r(1-3), of a s True] by auto
  have "f c = links h c" if "c \<in> insert (addr_xStart h) (insert (pxEnd h) (fst ` set bs))" for c
  proof (rule out)
    have "c \<in> {addr_xStart h, pxEnd h, a} \<union> fst ` set us \<union> fst ` set vs" using that b(2) by (simp add: image_Un)
    then consider "c = addr_xStart h" | "c = pxEnd h" | "c = a" | "c \<in> fst ` set us" | "c \<in> fst ` set vs" by blast
    then show "\<not> (unat a < unat c \<and> unat c < unat a + unat s)"
    proof cases
      case 1
      then show ?thesis using r(1,3) ti by (auto simp: placed_def)
    next
      case 2
      then show ?thesis using ti by simp
    next
      case 4
      then have "c < a" by (rule tu(1))
      then show ?thesis by (simp add: word_less_nat_alt)
    next
      case 5
      then have "a + s \<le> c" by (rule tu(2))
      then show ?thesis using l(4) by (simp add: word_le_nat_alt)
    qed simp
  qed
  then have "heap_rep (h\<lparr>links := f\<rparr>) bs" using heap_rep_links [of h bs f] b(2,3) by simp
  then show ?thesis using assms(1) ready_heap_rep [of "h\<lparr>links := f\<rparr>" bs] by (auto simp: heap_inv_def)
qed

lemma heap_run_inv:
  assumes "heap_run h0 h live" "pxEnd h0 = NULL" "placed h0"
  shows "\<exists>bs. heap_inv h live bs \<and> ucHeap (ready_heap h) = ucHeap h0"
  using assms(1)
proof (induction rule: heap_run.induct)
  case run_start
  then show ?case using heap_inv_start [OF assms(2,3)] heap_init_rep(2) [OF assms(3)] assms(2) by (auto simp: ready_heap_def)
next
  case (run_malloc h live n p h')
  then obtain bs where bs: "heap_inv h live bs" "ucHeap (ready_heap h) = ucHeap h0" by auto
  show ?case by (rule heap_inv_malloc [OF bs(1), of n]) (use run_malloc(2) bs(2) in auto)
next
  case (run_free h live p h')
  then obtain bs where bs: "heap_inv h live bs" "ucHeap (ready_heap h) = ucHeap h0" by auto
  show ?case by (rule heap_inv_free [OF bs(1) run_free(2)]) (use run_free(3) bs(2) in auto)
next
  case (run_write h live p f)
  then obtain bs where bs: "heap_inv h live bs" "ucHeap (ready_heap h) = ucHeap h0" by auto
  then have "heap_inv (h\<lparr>links := f\<rparr>) live bs" using heap_inv_write [OF bs(1) run_write(2,3)] by simp
  moreover have "ready_heap h = h" "ready_heap (h\<lparr>links := f\<rparr>) = h\<lparr>links := f\<rparr>"
    using run_write(2) bs(1) calculation by (auto simp: heap_inv_def)
  ultimately show ?case using bs(2) by auto
qed

text \<open>Calls with the scheduler suspended.\<close>

lemma heap_more: "kernel.more k' = kernel.more k \<Longrightarrow> heap k' = heap k"
  by (cases k; cases k'; simp)

lemma resume_with_heap:
  assumes "can_run c k"
  obtains y k' where "xTaskResumeAll ((vTaskSuspendAll k)\<lparr>heap := h\<rparr>) = Some (y, k')" "can_run c k'" "heap k' = h" "tcbs k' = tcbs k"
proof -
  let ?k = "(vTaskSuspendAll k)\<lparr>heap := h\<rparr>"
  have i: "sched_inv ?k" using assms
    by (simp add: can_run_def vTaskSuspendAll_def inv_defs lists_ok_def ready_ok_def delayed_ok_def)
  have f: "uxSchedulerSuspended ?k = 1" "xPendedTicks ?k = 0" "\<And>t. \<not> pending ?k t" "pxCurrentTCB ?k = Some c"
    "uxCurrentNumberOfTasks ?k > 0" "heap ?k = h" "tcbs ?k = tcbs k"
    using assms by (simp_all add: can_run_def vTaskSuspendAll_def quiet_def pending_def)
  obtain y k' where r: "xTaskResumeAll ?k = Some (y, k')" "sched_inv k'" "quiet k'" "tcbs k' = tcbs ?k"
    "pxCurrentTCB k' = Some c" "kernel.more k' = kernel.more ?k" "uxCurrentNumberOfTasks k' = uxCurrentNumberOfTasks ?k"
    by (rule suspend_resume_quiet [OF i f(1-5)])
  then show thesis using that [OF r(1)] f heap_more [OF r(6)] by (simp add: can_run_def)
qed

lemma heap_suspended [simp]: "heap (vTaskSuspendAll k) = heap k"
  by (simp add: vTaskSuspendAll_def)

text \<open>The two outcomes of an allocation.\<close>

lemma pvPortMalloc_fits:
  assumes "can_run c k" "heap_rep (ready_heap (heap k)) (us @ (a, s, False) # vs)" "n > 0" "wanted_size n \<noteq> 0"
    "wanted_size n \<le> s" "\<And>c t. (c, t, False) \<in> set us \<Longrightarrow> t < wanted_size n"
  obtains k' where "pvPortMalloc n k = Some (a + 8, k')" "can_run c k'" "tcbs k' = tcbs k"
    "heap_rep (heap k') (us @ cut a s (wanted_size n) @ vs)"
proof -
  obtain h' where h': "malloc_section n (heap k) = Some (a + 8, h')" "heap_rep h' (us @ cut a s (wanted_size n) @ vs)"
    by (rule malloc_section_fits [OF assms(2-6)])
  obtain y k' where k': "xTaskResumeAll ((vTaskSuspendAll k)\<lparr>heap := h'\<rparr>) = Some (y, k')" "can_run c k'" "heap k' = h'" "tcbs k' = tcbs k"
    by (rule resume_with_heap [OF assms(1)])
  note r = rep_split [OF assms(2)]
  have "(a + 8) AND 7 = 0" using tiles_aligned [OF r(2) base_bounds(3) [OF r(1)], of a s False] aligned_add [of a 8] by simp
  then have "pvPortMalloc n k = Some (a + 8, k')"
    using h'(1) k'(1) by (simp add: pvPortMalloc_def configASSERT_def portBYTE_ALIGNMENT_MASK_def)
  then show thesis using that h'(2) k' by simp
qed

lemma pvPortMalloc_none:
  assumes "can_run c k" "heap_rep (ready_heap (heap k)) bs" "bs \<noteq> []"
    "n = 0 \<or> wanted_size n = 0 \<or> (\<forall>c t. (c, t, False) \<in> set bs \<longrightarrow> t < wanted_size n)"
  obtains k' where "pvPortMalloc n k = Some (NULL, k')" "can_run c k'" "tcbs k' = tcbs k" "heap_rep (heap k') bs"
proof -
  have m: "malloc_section n (heap k) = Some (NULL, ready_heap (heap k))" by (rule malloc_section_none [OF assms(2-4)])
  obtain y k' where k': "xTaskResumeAll ((vTaskSuspendAll k)\<lparr>heap := ready_heap (heap k)\<rparr>) = Some (y, k')" "can_run c k'"
    "heap k' = ready_heap (heap k)" "tcbs k' = tcbs k"
    by (rule resume_with_heap [OF assms(1)])
  have "pvPortMalloc n k = Some (NULL, k')"
    using m k'(1) by (simp add: pvPortMalloc_def configASSERT_def NULL_def)
  then show thesis using that k' assms(2) by simp
qed

text \<open>Freeing a block, with the scheduler suspended.\<close>

lemma vPortFree_rep:
  assumes "can_run c k" "heap_rep (heap k) (us @ (a, s, True) # vs)"
  obtains k' where "vPortFree (a + 8) k = Some k'" "can_run c k'" "tcbs k' = tcbs k" "heap_rep (heap k') (release us a s vs)"
proof -
  note r = rep_split [OF assms(2)] and l = live_payload [OF assms(2)]
  obtain h' where h': "free_section a (heapFREE_BLOCK a (heap k)) = Some h'" "heap_rep h' (release us a s vs)"
    by (rule free_section_rep [OF assms(2)])
  let ?k = "k\<lparr>heap := heapFREE_BLOCK a (heap k)\<rparr>"
  have "can_run c ?k" using assms(1)
    by (simp add: can_run_def quiet_def pending_def inv_defs lists_ok_def ready_ok_def delayed_ok_def)
  then obtain y k' where k': "xTaskResumeAll ((vTaskSuspendAll ?k)\<lparr>heap := h'\<rparr>) = Some (y, k')" "can_run c k'" "heap k' = h'" "tcbs k' = tcbs ?k"
    by (rule resume_with_heap)
  have "unat s < 2 ^ 31" using tiles_inside(3) [OF r(1-3), of a s True] by simp
  then have "heapBLOCK_IS_ALLOCATED a (heap k)" "nextf (heap k) a = NULL"
    using r(16) small_size(3) by (simp_all add: hdr_ok_def heapBLOCK_IS_ALLOCATED_def)
  moreover have "a + 8 \<noteq> NULL" using l(1) by (auto simp: NULL_def)
  ultimately have "vPortFree (a + 8) k = Some k'" using h'(1) k'(1) by (simp add: vPortFree_def configASSERT_def)
  then show thesis using that k' h'(2) by simp
qed

lemma release_cut:
  assumes "us = [] \<or> used (last us)" "vs = [] \<or> used (hd vs)"
  shows "cut a s w = (a, t, True) # xs \<Longrightarrow> release us a t (xs @ vs) = us @ (a, s, False) # vs"
proof -
  assume c: "cut a s w = (a, t, True) # xs"
  have "absorb_prev us a t = (us, a, t)" using assms(1) by (auto simp: absorb_prev_def)
  moreover have "absorb_next s vs = (s, vs)" using assms(2) by (cases "(s, vs)" rule: absorb_next.cases) auto
  ultimately show ?thesis using c by (auto simp: release_def cut_def split: if_splits)
qed

section \<open>Properties\<close>

text \<open>
  C9. The heap is safe over its whole life, whatever the calls and whatever the application writes into the
  blocks it owns. Every block handed out lies in the array, is aligned to 8 bytes and is disjoint from every
  other; an allocation always returns, with a new block of at least the wanted size or with \<open>NULL\<close>; freeing
  a block passes the assertions and succeeds.
\<close>

theorem heap_run_safe:
  assumes "heap_run h0 h live" "pxEnd h0 = NULL" "placed h0"
  shows "(\<forall>p\<in>live. p AND 7 = 0 \<and> unat (ucHeap h0) + 8 \<le> unat p \<and> unat p + payload h p \<le> unat (ucHeap h0) + 15360) \<and>
    (\<forall>p\<in>live. \<forall>q\<in>live. p < q \<longrightarrow> unat p + payload h p \<le> unat q - 8) \<and>
    (\<forall>n. \<exists>p h'. malloc_section n h = Some (p, h') \<and> (p = NULL \<or> p \<notin> live \<and> unat n \<le> payload h' p)) \<and>
    (\<forall>p\<in>live. heapBLOCK_IS_ALLOCATED (p - 8) h \<and> nextf h (p - 8) = NULL \<and>
       (\<exists>h'. free_section (p - 8) (heapFREE_BLOCK (p - 8) h) = Some h'))"
proof -
  obtain bs where bs: "heap_inv h live bs" "ucHeap (ready_heap h) = ucHeap h0" using heap_run_inv [OF assms] by blast
  have ran: "p AND 7 = 0 \<and> unat (ucHeap h0) + 8 \<le> unat p \<and> unat p + payload h p \<le> unat (ucHeap h0) + 15360"
    if pl: "p \<in> live" for p
  proof -
    obtain us a s vs where b: "p = a + 8" "bs = us @ (a, s, True) # vs" "heap_rep h (us @ (a, s, True) # vs)"
      by (rule live_block [OF bs(1) pl])
    note r = rep_split [OF b(3)] and l = live_payload [OF b(3)]
    have "ready_heap h = h" using b(3) by (rule ready_heap_rep) simp
    moreover have "p AND 7 = 0"
      using tiles_aligned [OF r(2) base_bounds(3) [OF r(1)], of a s True] aligned_add [of a 8] b(1) by simp
    ultimately show ?thesis using tiles_inside(1,2) [OF r(1-3), of a s True] l b(1) r(3) bs(2) by simp
  qed
  have dis: "unat p + payload h p \<le> unat q - 8" if pq: "p \<in> live" "q \<in> live" "p < q" for p q
  proof -
    obtain us a s vs where b: "p = a + 8" "bs = us @ (a, s, True) # vs" "heap_rep h (us @ (a, s, True) # vs)"
      by (rule live_block [OF bs(1) pq(1)])
    obtain us' a' s' vs' where b': "q = a' + 8" "bs = us' @ (a', s', True) # vs'" "heap_rep h (us' @ (a', s', True) # vs')"
      by (rule live_block [OF bs(1) pq(2)])
    note r = rep_split [OF b(3)] and l = live_payload [OF b(3)] and l' = live_payload [OF b'(3)] and tu = tiles_unique [OF r(2)]
    have lt: "unat a < unat a'" using pq(3) l(1) l'(1) b(1) b'(1) by (simp add: word_less_nat_alt)
    have "(a', s', True) \<in> set bs" using b'(2) by simp
    then have "a' \<in> fst ` set us \<or> a' = a \<or> a' \<in> fst ` set vs" using b(2) by force
    then have "a + s \<le> a'"
    proof (elim disjE)
      assume "a' \<in> fst ` set us"
      then have "a' < a" by (rule tu(1))
      then show ?thesis using lt by (simp add: word_less_nat_alt)
    qed (use tu(2) lt in auto)
    then show ?thesis using l l' b(1) b'(1) by (simp add: word_le_nat_alt)
  qed
  have mal: "\<exists>p h'. malloc_section n h = Some (p, h') \<and> (p = NULL \<or> p \<notin> live \<and> unat n \<le> payload h' p)" for n
  proof -
    obtain p h' bs' where m: "malloc_section n h = Some (p, h')" "heap_inv h' (if p = NULL then live else insert p live) bs'"
      "p = NULL \<or> p \<notin> live \<and> (\<exists>a s. p = a + 8 \<and> (a, s, True) \<in> set bs' \<and> unat n + 8 \<le> unat s)" "ready_heap h' = h'"
      by (rule heap_inv_malloc [OF bs(1), of n])
    have "unat n \<le> payload h' p" if "p \<noteq> NULL"
    proof -
      obtain a s where a: "p = a + 8" "(a, s, True) \<in> set bs'" "unat n + 8 \<le> unat s" using m(3) \<open>p \<noteq> NULL\<close> by auto
      then obtain us vs where "bs' = us @ (a, s, True) # vs" by (meson split_list)
      then have "heap_rep h' (us @ (a, s, True) # vs)" using m(2,4) by (simp add: heap_inv_def)
      from live_payload(2) [OF this] a show ?thesis by simp
    qed
    then show ?thesis using m(1,3) by auto
  qed
  have fre: "heapBLOCK_IS_ALLOCATED (p - 8) h \<and> nextf h (p - 8) = NULL \<and>
       (\<exists>h'. free_section (p - 8) (heapFREE_BLOCK (p - 8) h) = Some h')" if "p \<in> live" for p
    by (rule heap_inv_free [OF bs(1) that]) blast
  show ?thesis using ran dis mal fre by blast
qed

text \<open>
  Nothing stays fragmented: when everything has been freed, after any history of calls, the heap is one
  free block again, all of the array but the alignment and the end marker, and the counter says so.
\<close>

theorem heap_all_freed:
  assumes "heap_run h0 h {}" "pxEnd h0 = NULL" "placed h0"
  shows "heap_rep (ready_heap h) [(heap_base h0, pxEnd (ready_heap h) - heap_base h0, False)] \<and>
    xFreeBytesRemaining (ready_heap h) = pxEnd (ready_heap h) - heap_base h0"
proof -
  obtain bs where bs: "heap_inv h {} bs" "ucHeap (ready_heap h) = ucHeap h0" using heap_run_inv [OF assms] by blast
  have r: "heap_rep (ready_heap h) bs" "bs \<noteq> []" "live_blocks bs = {}" using bs(1) by (auto simp: heap_inv_def)
  have nu: "\<not> used x" if "x \<in> set bs" for x using r(3) that by (cases x) (auto simp: live_blocks_def)
  have "apart bs" using r(1) by (simp add: heap_rep_def)
  then obtain x where x: "bs = [x]" using r(2) nu by (cases bs rule: remdups_adj.cases) auto
  then obtain a s where a: "bs = [(a, s, False)]" using nu by (cases x) auto
  have t: "tiles (heap_base h0) bs (pxEnd (ready_heap h))" "unat (xFreeBytesRemaining (ready_heap h)) = free_bytes bs"
    using r(1) heap_base_cong [OF bs(2)] by (simp_all add: heap_rep_def)
  then have "a = heap_base h0" "heap_base h0 + s = pxEnd (ready_heap h)" using a by auto
  moreover from this(2) have "s = pxEnd (ready_heap h) - heap_base h0" by (metis add_diff_cancel_left')
  moreover have "xFreeBytesRemaining (ready_heap h) = s" using t(2) a by (simp add: word_unat_eq_iff)
  ultimately show ?thesis using r(1) a by simp
qed

text \<open>
  An allocation takes the first free block, in the order of the addresses, that is large enough for the
  request, its header and the alignment, splits it when more than 16 bytes remain, and returns the address
  behind the header; when there is none it returns \<open>NULL\<close> and the heap stays as it is. The scheduler runs
  again afterwards.
\<close>

theorem pvPortMalloc_first_fit:
  assumes "can_run c k" "heap_rep (ready_heap (heap k)) bs" "bs \<noteq> []" "n > 0" "wanted_size n \<noteq> 0"
  shows "(\<forall>us a s vs. bs = us @ (a, s, False) # vs \<and> wanted_size n \<le> s \<and> (\<forall>c t. (c, t, False) \<in> set us \<longrightarrow> t < wanted_size n) \<longrightarrow>
      (\<exists>k'. pvPortMalloc n k = Some (a + 8, k') \<and> can_run c k' \<and> tcbs k' = tcbs k \<and>
         heap_rep (heap k') (us @ cut a s (wanted_size n) @ vs))) \<and>
    ((\<forall>c t. (c, t, False) \<in> set bs \<longrightarrow> t < wanted_size n) \<longrightarrow>
      (\<exists>k'. pvPortMalloc n k = Some (NULL, k') \<and> can_run c k' \<and> tcbs k' = tcbs k \<and> heap_rep (heap k') bs))"
proof (intro conjI allI impI, elim conjE)
  fix us a s vs
  assume b: "bs = us @ (a, s, False) # vs" "wanted_size n \<le> s" "\<forall>c t. (c, t, False) \<in> set us \<longrightarrow> t < wanted_size n"
  show "\<exists>k'. pvPortMalloc n k = Some (a + 8, k') \<and> can_run c k' \<and> tcbs k' = tcbs k \<and>
      heap_rep (heap k') (us @ cut a s (wanted_size n) @ vs)"
    by (rule pvPortMalloc_fits [OF assms(1) assms(2) [unfolded b(1)] assms(4,5) b(2)]) (use b(3) in blast)+
next
  assume "\<forall>c t. (c, t, False) \<in> set bs \<longrightarrow> t < wanted_size n"
  then show "\<exists>k'. pvPortMalloc n k = Some (NULL, k') \<and> can_run c k' \<and> tcbs k' = tcbs k \<and> heap_rep (heap k') bs"
    using pvPortMalloc_none [OF assms(1-3), of n] by blast
qed

text \<open>
  C10. Freeing merges: the freed block and the free blocks before and behind it become one, so that no two free
  blocks are neighbours. In particular, freeing what was just allocated brings the heap back to the blocks it
  had before the allocation.
\<close>

theorem vPortFree_merges:
  assumes "can_run c k"
  shows "(\<forall>us a s vs. heap_rep (heap k) (us @ (a, s, True) # vs) \<longrightarrow>
      (\<exists>k'. vPortFree (a + 8) k = Some k' \<and> can_run c k' \<and> tcbs k' = tcbs k \<and> heap_rep (heap k') (release us a s vs))) \<and>
    (\<forall>bs n p k'. bs \<noteq> [] \<and> heap_rep (ready_heap (heap k)) bs \<and> pvPortMalloc n k = Some (p, k') \<longrightarrow>
      (\<exists>k''. vPortFree p k' = Some k'' \<and> can_run c k'' \<and> heap_rep (heap k'') bs))"
proof (intro conjI allI impI, goal_cases)
  case (1 us a s vs)
  show ?case by (rule vPortFree_rep [OF assms 1]) blast
next
  case (2 bs n p k')
  then have b: "bs \<noteq> []" "heap_rep (ready_heap (heap k)) bs" "pvPortMalloc n k = Some (p, k')" by auto
  show ?case
  proof (cases "n = 0 \<or> wanted_size n = 0 \<or> (\<forall>c t. (c, t, False) \<in> set bs \<longrightarrow> t < wanted_size n)")
    case True
    then obtain k1 where "pvPortMalloc n k = Some (NULL, k1)" "can_run c k1" "heap_rep (heap k1) bs"
      by (rule pvPortMalloc_none [OF assms b(2,1)])
    then show ?thesis using b(3) by (simp add: vPortFree_def)
  next
    case False
    then have n: "n > 0" "wanted_size n \<noteq> 0" by (auto simp: word_gt_0)
    obtain us a s vs where bs: "bs = us @ (a, s, False) # vs" "wanted_size n \<le> s" "\<And>c t. (c, t, False) \<in> set us \<Longrightarrow> t < wanted_size n"
      by (rule first_fit [of bs "wanted_size n"]) (use False in blast)+
    obtain k1 where k1: "pvPortMalloc n k = Some (a + 8, k1)" "can_run c k1" "heap_rep (heap k1) (us @ cut a s (wanted_size n) @ vs)"
      by (rule pvPortMalloc_fits [OF assms b(2) [unfolded bs(1)] n bs(2,3)])
    obtain t xs where x: "cut a s (wanted_size n) = (a, t, True) # xs"
      by (cases "16 < s - wanted_size n") (auto simp: cut_def)
    obtain k2 where "vPortFree (a + 8) k1 = Some k2" "can_run c k2" "heap_rep (heap k2) (release us a t (xs @ vs))"
      using vPortFree_rep [OF k1(2), of us a t "xs @ vs"] k1(3) x by auto
    moreover have "release us a t (xs @ vs) = bs"
      using release_cut [OF _ _ x, of us vs] rep_split(17,18) [OF b(2) [unfolded bs(1)]] bs(1) by simp
    ultimately show ?thesis using b(3) k1(1) by auto
  qed
qed

section \<open>A concrete heap\<close>

definition demo_heap :: heap4 where
  "demo_heap = \<lparr>links = (\<lambda>_. \<lparr>pxNextFreeBlock = 0, xBlockSize = 0\<rparr>), ucHeap = 0x20000104, addr_xStart = 0x20010000, pxEnd = 0,
     xFreeBytesRemaining = 0, xMinimumEverFreeBytesRemaining = 0, xNumberOfSuccessfulAllocations = 0,
     xNumberOfSuccessfulFrees = 0\<rparr>"

definition demo_hkernel :: hkernel where
  "demo_hkernel = kernel.extend (demo_kernel 0 None) \<lparr>heap = demo_heap\<rparr>"

lemma demo_placed: "placed demo_heap" "pxEnd demo_heap = NULL" "heap_base demo_heap = 0x20000108"
  by (simp_all add: placed_def demo_heap_def heap_base_def NULL_def)

lemma demo_end: "pxEnd (prvHeapInit demo_heap) = 0x20003cf8"
  by (simp add: prvHeapInit_def demo_heap_def Let_def portBYTE_ALIGNMENT_def portBYTE_ALIGNMENT_MASK_def configTOTAL_HEAP_SIZE_def)

lemma demo_heap_rep: "heap_rep (ready_heap demo_heap) [(0x20000108, 0x3bf0, False)]"
  using heap_init_rep(1) [OF demo_placed(1)] demo_placed(2) by (simp add: ready_heap_def demo_placed(3) demo_end)

lemma demo_wanted: "wanted_size 100 = 112"
  by (simp add: wanted_size_def heapADD_WILL_OVERFLOW_def heapSIZE_MAX_def portBYTE_ALIGNMENT_def portBYTE_ALIGNMENT_MASK_def)

lemma demo_heap_run: "can_run 1 demo_hkernel" "heap demo_hkernel = demo_heap"
  using demo_sched_inv [of None 0] demo_quiet
  by (simp_all add: can_run_def demo_hkernel_def demo_kernel_fields del: One_nat_def) (simp add: kernel.defs)

lemma demo_malloc: "\<exists>h'. malloc_section 100 demo_heap = Some (0x20000110, h')"
  by (rule malloc_section_fits [of demo_heap "[]" "0x20000108" "0x3bf0" "[]" 100])
    (use demo_heap_rep in \<open>auto simp: demo_wanted\<close>)

theorem heap_run_safe_witness:
  "\<exists>h'. malloc_section 100 demo_heap = Some (0x20000110, h') \<and> 0x20000110 + payload h' 0x20000110 \<le> 0x20000104 + 15360 \<and>
    heapBLOCK_IS_ALLOCATED 0x20000108 h'"
proof -
  obtain h' where h': "malloc_section 100 demo_heap = Some (0x20000110, h')" using demo_malloc by blast
  have "heap_run demo_heap h' (if (0x20000110 :: u32) = NULL then {} else insert 0x20000110 {})"
    by (rule heap_run.run_malloc [OF heap_run.run_start h'])
  then have "heap_run demo_heap h' {0x20000110}" by (simp add: NULL_def)
  from heap_run_safe [OF this demo_placed(2,1)] h' show ?thesis by (auto simp: demo_heap_def)
qed

theorem heap_all_freed_witness:
  "heap_rep (ready_heap demo_heap) [(0x20000108, 0x3bf0, False)] \<and> xFreeBytesRemaining (ready_heap demo_heap) = 0x3bf0"
proof -
  have "pxEnd (ready_heap demo_heap) = 0x20003cf8" using demo_placed(2) by (simp add: ready_heap_def demo_end)
  then show ?thesis using heap_all_freed [OF heap_run.run_start demo_placed(2,1)] demo_placed(3) by simp
qed

theorem pvPortMalloc_first_fit_witness:
  "\<exists>k'. pvPortMalloc 100 demo_hkernel = Some (0x20000110, k') \<and>
    heap_rep (heap k') [(0x20000108, 112, True), (0x20000178, 0x3b80, False)]"
proof -
  have r: "heap_rep (ready_heap (heap demo_hkernel)) [(0x20000108, 0x3bf0, False)]" using demo_heap_rep demo_heap_run(2) by simp
  show ?thesis
    using pvPortMalloc_first_fit [OF demo_heap_run(1) r, of 100] by (auto simp: demo_wanted cut_def dest!: spec [of _ "[]"])
qed

theorem vPortFree_merges_witness:
  "\<exists>p k' k''. pvPortMalloc 100 demo_hkernel = Some (p, k') \<and> vPortFree p k' = Some k'' \<and>
    heap_rep (heap k'') [(0x20000108, 0x3bf0, False)]"
proof -
  have r: "heap_rep (ready_heap (heap demo_hkernel)) [(0x20000108, 0x3bf0, False)]" using demo_heap_rep demo_heap_run(2) by simp
  obtain k' where k': "pvPortMalloc 100 demo_hkernel = Some (0x20000108 + 8, k')"
    by (rule pvPortMalloc_fits [OF demo_heap_run(1), of "[]" "0x20000108" "0x3bf0" "[]" 100]) (use r in \<open>auto simp: demo_wanted\<close>)
  then show ?thesis using vPortFree_merges [OF demo_heap_run(1)] r by blast
qed

end
