(* ===== verification/Event_Groups.thy ===== *)
theory Event_Groups
  imports Queue_Props Kernel_Notify
begin

text \<open>
  Event groups, \<open>FreeRTOS/event_groups.c\<close>: 24 flags on which tasks wait for any or all of a set. The tasks
  that wait for flags of group \<open>e\<close> are the task list \<open>WaitingForBits e\<close>; what a task waits for, and later
  the flags that ended its wait, are the value of its event list item.

  A call that may block is two parts: \<open>..._enter\<close> runs up to the point where the task blocks or returns, \<open>..._exit\<close>
  when the task runs again. The value that \<open>xEventGroupSetBits\<close> returns is read after the scheduler has been
  resumed, when tasks of higher priority may have run, so that reading it is a part of its own.
\<close>

section \<open>State\<close>

record EventGroup_t =
  uxEventBits :: u32
  uxEventGroupNumber :: UBaseType_t

record ekernel = qkernel +
  event_groups :: "nat \<Rightarrow> EventGroup_t"

definition eventCLEAR_EVENTS_ON_EXIT_BIT :: u32 where "eventCLEAR_EVENTS_ON_EXIT_BIT = 0x01000000"
definition eventUNBLOCKED_DUE_TO_BIT_SET :: u32 where "eventUNBLOCKED_DUE_TO_BIT_SET = 0x02000000"
definition eventWAIT_FOR_ALL_BITS :: u32 where "eventWAIT_FOR_ALL_BITS = 0x04000000"
definition eventEVENT_BITS_CONTROL_BYTES :: u32 where "eventEVENT_BITS_CONTROL_BYTES = 0xff000000"

definition upd_group :: "nat \<Rightarrow> (EventGroup_t \<Rightarrow> EventGroup_t) \<Rightarrow> 'z ekernel_scheme \<Rightarrow> 'z ekernel_scheme" where
  "upd_group e f k = k\<lparr>event_groups := (event_groups k)(e := f (event_groups k e))\<rparr>"

definition set_group_bits :: "nat \<Rightarrow> u32 \<Rightarrow> 'z ekernel_scheme \<Rightarrow> 'z ekernel_scheme" where
  "set_group_bits e v = upd_group e (\<lambda>g. g\<lparr>uxEventBits := v\<rparr>)"

abbreviation ebits :: "'z ekernel_scheme \<Rightarrow> nat \<Rightarrow> u32" where
  "ebits k e \<equiv> uxEventBits (event_groups k e)"

section \<open>Operations\<close>

text \<open>\<open>alloc\<close> is what \<open>pvPortMalloc\<close> returned: a fresh handle, or \<open>None\<close>.\<close>

definition xEventGroupCreate :: "nat option \<Rightarrow> 'z ekernel_scheme \<Rightarrow> nat option \<times> 'z ekernel_scheme" where
  "xEventGroupCreate alloc k =
     (case alloc of
        None \<Rightarrow> (None, k)
      | Some e \<Rightarrow> (Some e, upd_list (WaitingForBits e) (\<lambda>_. kl_empty) (set_group_bits e 0 k)))"

definition prvTestWaitCondition :: "u32 \<Rightarrow> u32 \<Rightarrow> bool \<Rightarrow> bool" where
  "prvTestWaitCondition uxCurrentEventBits uxBitsToWaitFor xWaitForAllBits \<longleftrightarrow>
     (if \<not> xWaitForAllBits then uxCurrentEventBits AND uxBitsToWaitFor \<noteq> 0
      else uxCurrentEventBits AND uxBitsToWaitFor = uxBitsToWaitFor)"

definition xEventGroupClearBits :: "nat \<Rightarrow> u32 \<Rightarrow> 'z ekernel_scheme \<Rightarrow> (u32 \<times> 'z ekernel_scheme) option" where
  "xEventGroupClearBits e uxBitsToClear k = do {
     configASSERT (uxBitsToClear AND eventEVENT_BITS_CONTROL_BYTES = 0);
     Some (ebits k e, set_group_bits e (ebits k e AND NOT uxBitsToClear) k)
   }"

definition xEventGroupGetBitsFromISR :: "nat \<Rightarrow> 'z ekernel_scheme \<Rightarrow> u32" where
  "xEventGroupGetBitsFromISR e k = ebits k e"

text \<open>\<open>listGET_NEXT\<close> of the item of a task: the next task, \<open>None\<close> at the end marker.\<close>

definition list_next :: "'a \<Rightarrow> 'a list \<Rightarrow> 'a option" where
  "list_next x xs = (case dropWhile (\<lambda>y. y \<noteq> x) xs of _ # y # _ \<Rightarrow> Some y | _ \<Rightarrow> None)"

text \<open>The test of the loop of \<open>xEventGroupSetBits\<close> on the value of an item.\<close>

definition item_matches :: "u32 \<Rightarrow> u32 \<Rightarrow> bool" where
  "item_matches bits v =
     (let uxControlBits = v AND eventEVENT_BITS_CONTROL_BYTES;
          uxBitsWaitedFor = v AND NOT eventEVENT_BITS_CONTROL_BYTES
      in if uxControlBits AND eventWAIT_FOR_ALL_BITS = 0 then uxBitsWaitedFor AND bits \<noteq> 0
         else uxBitsWaitedFor AND bits = uxBitsWaitedFor)"

definition item_clears :: "u32 \<Rightarrow> u32" where
  "item_clears v =
     (if (v AND eventEVENT_BITS_CONTROL_BYTES) AND eventCLEAR_EVENTS_ON_EXIT_BIT \<noteq> 0
      then v AND NOT eventEVENT_BITS_CONTROL_BYTES else 0)"

partial_function (option) set_bits_loop ::
  "nat \<Rightarrow> tid option \<Rightarrow> u32 \<Rightarrow> 'z ekernel_scheme \<Rightarrow> (u32 \<times> 'z ekernel_scheme) option" where
  "set_bits_loop e pxListItem uxBitsToClear k =
     (case pxListItem of
        None \<Rightarrow> Some (uxBitsToClear, k)
      | Some t \<Rightarrow>
          (let pxNext = list_next t (members k (WaitingForBits e)); v = event_value (tcbs k t)
           in if item_matches (ebits k e) v then do {
                k \<leftarrow> vTaskRemoveFromUnorderedEventList t (ebits k e OR eventUNBLOCKED_DUE_TO_BIT_SET) k;
                set_bits_loop e pxNext (uxBitsToClear OR item_clears v) k
              } else set_bits_loop e pxNext uxBitsToClear k))"

definition xEventGroupSetBits :: "nat \<Rightarrow> u32 \<Rightarrow> 'z ekernel_scheme \<Rightarrow> 'z ekernel_scheme option" where
  "xEventGroupSetBits e uxBitsToSet k = do {
     configASSERT (uxBitsToSet AND eventEVENT_BITS_CONTROL_BYTES = 0);
     let k = vTaskSuspendAll k;
     let pxListItem = head_owner (WaitingForBits e) k;
     let k = set_group_bits e (ebits k e OR uxBitsToSet) k;
     (uxBitsToClear, k) \<leftarrow> set_bits_loop e pxListItem 0 k;
     let k = set_group_bits e (ebits k e AND NOT uxBitsToClear) k;
     (_, k) \<leftarrow> xTaskResumeAll k;
     Some k
   }"

definition xEventGroupSetBits_return :: "nat \<Rightarrow> 'z ekernel_scheme \<Rightarrow> u32" where
  "xEventGroupSetBits_return e k = ebits k e"

text \<open>The first part of a waiting call ends with a value or with the task blocked (\<open>None\<close>).\<close>

definition xEventGroupWaitBits_enter ::
  "nat \<Rightarrow> u32 \<Rightarrow> bool \<Rightarrow> bool \<Rightarrow> TickType_t \<Rightarrow> 'z ekernel_scheme \<Rightarrow> (u32 option \<times> 'z ekernel_scheme) option" where
  "xEventGroupWaitBits_enter e uxBitsToWaitFor xClearOnExit xWaitForAllBits xTicks k = do {
     configASSERT (uxBitsToWaitFor AND eventEVENT_BITS_CONTROL_BYTES = 0);
     configASSERT (uxBitsToWaitFor \<noteq> 0);
     configASSERT (may_wait xTicks k);
     let k = vTaskSuspendAll k;
     let uxCurrentEventBits = ebits k e;
     (uxReturn, xTicks, k) \<leftarrow>
       (if prvTestWaitCondition uxCurrentEventBits uxBitsToWaitFor xWaitForAllBits
        then Some (uxCurrentEventBits, 0,
               if xClearOnExit then set_group_bits e (ebits k e AND NOT uxBitsToWaitFor) k else k)
        else if xTicks = 0 then Some (uxCurrentEventBits, xTicks, k)
        else do {
          let uxControlBits = (if xClearOnExit then eventCLEAR_EVENTS_ON_EXIT_BIT else 0) OR
                              (if xWaitForAllBits then eventWAIT_FOR_ALL_BITS else 0);
          k \<leftarrow> vTaskPlaceOnUnorderedEventList (WaitingForBits e) (uxBitsToWaitFor OR uxControlBits) xTicks k;
          Some (0, xTicks, k)
        });
     (xAlreadyYielded, k) \<leftarrow> xTaskResumeAll k;
     Some (if xTicks \<noteq> 0 then (None, if xAlreadyYielded then k else portYIELD k) else (Some uxReturn, k))
   }"

definition xEventGroupWaitBits_exit ::
  "nat \<Rightarrow> u32 \<Rightarrow> bool \<Rightarrow> bool \<Rightarrow> 'z ekernel_scheme \<Rightarrow> (u32 \<times> 'z ekernel_scheme) option" where
  "xEventGroupWaitBits_exit e uxBitsToWaitFor xClearOnExit xWaitForAllBits k = do {
     (uxReturn, k) \<leftarrow> uxTaskResetEventItemValue k;
     let (uxReturn, k) =
       (if uxReturn AND eventUNBLOCKED_DUE_TO_BIT_SET = 0
        then (ebits k e,
              if prvTestWaitCondition (ebits k e) uxBitsToWaitFor xWaitForAllBits \<and> xClearOnExit
              then set_group_bits e (ebits k e AND NOT uxBitsToWaitFor) k else k)
        else (uxReturn, k));
     Some (uxReturn AND NOT eventEVENT_BITS_CONTROL_BYTES, k)
   }"

definition xEventGroupSync_enter ::
  "nat \<Rightarrow> u32 \<Rightarrow> u32 \<Rightarrow> TickType_t \<Rightarrow> 'z ekernel_scheme \<Rightarrow> (u32 option \<times> 'z ekernel_scheme) option" where
  "xEventGroupSync_enter e uxBitsToSet uxBitsToWaitFor xTicks k = do {
     configASSERT (uxBitsToWaitFor AND eventEVENT_BITS_CONTROL_BYTES = 0);
     configASSERT (uxBitsToWaitFor \<noteq> 0);
     configASSERT (may_wait xTicks k);
     let k = vTaskSuspendAll k;
     let uxOriginalBitValue = ebits k e;
     k \<leftarrow> xEventGroupSetBits e uxBitsToSet k;
     (uxReturn, xTicks, k) \<leftarrow>
       (if (uxOriginalBitValue OR uxBitsToSet) AND uxBitsToWaitFor = uxBitsToWaitFor
        then Some (uxOriginalBitValue OR uxBitsToSet, 0,
               set_group_bits e (ebits k e AND NOT uxBitsToWaitFor) k)
        else if xTicks \<noteq> 0 then do {
          k \<leftarrow> vTaskPlaceOnUnorderedEventList (WaitingForBits e)
                 ((uxBitsToWaitFor OR eventCLEAR_EVENTS_ON_EXIT_BIT) OR eventWAIT_FOR_ALL_BITS) xTicks k;
          Some (0, xTicks, k)
        } else Some (ebits k e, xTicks, k));
     (xAlreadyYielded, k) \<leftarrow> xTaskResumeAll k;
     Some (if xTicks \<noteq> 0 then (None, if xAlreadyYielded then k else portYIELD k) else (Some uxReturn, k))
   }"

definition xEventGroupSync_exit :: "nat \<Rightarrow> u32 \<Rightarrow> 'z ekernel_scheme \<Rightarrow> (u32 \<times> 'z ekernel_scheme) option" where
  "xEventGroupSync_exit e uxBitsToWaitFor k = do {
     (uxReturn, k) \<leftarrow> uxTaskResetEventItemValue k;
     let (uxReturn, k) =
       (if uxReturn AND eventUNBLOCKED_DUE_TO_BIT_SET = 0
        then (ebits k e,
              if ebits k e AND uxBitsToWaitFor = uxBitsToWaitFor
              then set_group_bits e (ebits k e AND NOT uxBitsToWaitFor) k else k)
        else (uxReturn, k));
     Some (uxReturn AND NOT eventEVENT_BITS_CONTROL_BYTES, k)
   }"

text \<open>\<open>vEventGroupDelete\<close> up to the release of the memory of the group.\<close>

partial_function (option) delete_loop :: "nat \<Rightarrow> 'z ekernel_scheme \<Rightarrow> 'z ekernel_scheme option" where
  "delete_loop e k =
     (case members k (WaitingForBits e) of
        [] \<Rightarrow> Some k
      | t # _ \<Rightarrow> do {
          k \<leftarrow> vTaskRemoveFromUnorderedEventList t eventUNBLOCKED_DUE_TO_BIT_SET k;
          delete_loop e k
        })"

definition vEventGroupDelete :: "nat \<Rightarrow> 'z ekernel_scheme \<Rightarrow> 'z ekernel_scheme option" where
  "vEventGroupDelete e k = do {
     k \<leftarrow> delete_loop e (vTaskSuspendAll k);
     (_, k) \<leftarrow> xTaskResumeAll k;
     Some k
   }"

definition vEventGroupSetBitsCallback :: "nat \<Rightarrow> u32 \<Rightarrow> 'z ekernel_scheme \<Rightarrow> 'z ekernel_scheme option" where
  "vEventGroupSetBitsCallback pvEventGroup ulBitsToSet k = xEventGroupSetBits pvEventGroup ulBitsToSet k"

definition vEventGroupClearBitsCallback :: "nat \<Rightarrow> u32 \<Rightarrow> 'z ekernel_scheme \<Rightarrow> 'z ekernel_scheme option" where
  "vEventGroupClearBitsCallback pvEventGroup ulBitsToClear k =
     map_option snd (xEventGroupClearBits pvEventGroup ulBitsToClear k)"

definition uxEventGroupGetNumber :: "nat option \<Rightarrow> 'z ekernel_scheme \<Rightarrow> UBaseType_t" where
  "uxEventGroupGetNumber xEventGroup k =
     (case xEventGroup of None \<Rightarrow> 0 | Some e \<Rightarrow> uxEventGroupNumber (event_groups k e))"

definition vEventGroupSetNumber :: "nat \<Rightarrow> UBaseType_t \<Rightarrow> 'z ekernel_scheme \<Rightarrow> 'z ekernel_scheme" where
  "vEventGroupSetNumber e n = upd_group e (\<lambda>g. g\<lparr>uxEventGroupNumber := n\<rparr>)"


section \<open>Flags inside the kernel\<close>

lemma upd_group_base [simp]:
  "tcbs (upd_group e f k) = tcbs k" "task_lists (upd_group e f k) = task_lists k"
  "pxCurrentTCB (upd_group e f k) = pxCurrentTCB k" "xTickCount (upd_group e f k) = xTickCount k"
  "uxSchedulerSuspended (upd_group e f k) = uxSchedulerSuspended k"
  "uxCurrentNumberOfTasks (upd_group e f k) = uxCurrentNumberOfTasks k"
  "xPendedTicks (upd_group e f k) = xPendedTicks k" "xYieldPending (upd_group e f k) = xYieldPending k"
  "xSchedulerRunning (upd_group e f k) = xSchedulerRunning k" "pendsv (upd_group e f k) = pendsv k"
  "pxDelayedTaskList (upd_group e f k) = pxDelayedTaskList k"
  "pxOverflowDelayedTaskList (upd_group e f k) = pxOverflowDelayedTaskList k"
  "xNextTaskUnblockTime (upd_group e f k) = xNextTaskUnblockTime k" "xNumOfOverflows (upd_group e f k) = xNumOfOverflows k"
  "event_groups (upd_group e f k) = (event_groups k)(e := f (event_groups k e))"
  by (simp_all add: upd_group_def)

lemma sched_inv_upd_group [simp]: "sched_inv (upd_group e f k) = sched_inv k" "quiet (upd_group e f k) = quiet k"
  "pending (upd_group e f k) t = pending k t"
  by (simp_all add: upd_group_def inv_defs lists_ok_def ready_ok_def delayed_ok_def quiet_def pending_def)

lemma same_clock_upd_group [simp]: "same_clock k (upd_group e f k')= same_clock k k'"
  "same_clock (upd_group e f k) k' = same_clock k k'"
  by (simp_all add: same_clock_def upd_group_def)

lemma groups_more: "kernel.more k' = kernel.more k \<Longrightarrow> event_groups k' = event_groups k"
  by (cases k; cases k'; simp)

lemma is_event_WaitingForBits [simp]: "event_list_of (WaitingForBits e)"
  by (simp add: event_list_of_def)

section \<open>Waking the tasks whose flags are set\<close>

definition flagged :: "u32 \<Rightarrow> tcb \<Rightarrow> tcb" where
  "flagged v b = wake_tcb (b\<lparr>event_value := v OR taskEVENT_LIST_ITEM_VALUE_IN_USE\<rparr>)"

lemma flagged_fields [simp]:
  "uxPriority (flagged v b) = uxPriority b" "state_list (flagged v b) = Some (Ready (uxPriority b))"
  "event_list (flagged v b) = None" "event_value (flagged v b) = v OR taskEVENT_LIST_ITEM_VALUE_IN_USE"
  by (simp_all add: flagged_def)

lemma unordered_wake:
  assumes "sched_inv k" "uxSchedulerSuspended k \<noteq> 0" "pxCurrentTCB k = Some c" "event_list (tcbs k t) = Some E"
  obtains k' where "vTaskRemoveFromUnorderedEventList t v k = Some k'" "sched_inv k'"
    "tcbs k' = (tcbs k)(t := flagged v (tcbs k t))" "kernel.more k' = kernel.more k"
    "same_clock k (k'\<lparr>xYieldPending := xYieldPending k\<rparr>)"
    "xYieldPending k' \<longleftrightarrow> xYieldPending k \<or> prio k c < prio k t"
    "members k' E = remove1 t (members k E)"
    "\<And>l'. is_event_list l' \<Longrightarrow> l' \<noteq> E \<Longrightarrow> task_lists k' l' = task_lists k l'"
proof -
  let ?b = "\<lambda>b. b\<lparr>event_value := v OR taskEVENT_LIST_ITEM_VALUE_IN_USE\<rparr>"
  let ?k0 = "upd_tcb t ?b k"
  have i0: "sched_inv ?k0" using assms(1) by (simp add: sched_inv_keeps keeps_sched_def)
  have f0: "same_clock k ?k0" "kernel.more ?k0 = kernel.more k" "task_lists ?k0 = task_lists k"
    "tcbs ?k0 = (tcbs k)(t := ?b (tcbs k t))" by (simp_all add: same_clock_def upd_tcb_def)
  have ev: "event_list (tcbs ?k0 t) = Some E" using assms(4) by (simp add: f0(4))
  obtain l where st: "state_list (tcbs ?k0 t) = Some l" "l \<in> {Delayed1, Delayed2, SuspendedTaskList}"
    by (rule waiter_state [OF i0 ev])
  obtain k1 k2 k3 where w: "remove_event_item t ?k0 = Some k1" "remove_state_item t k1 = Some k2"
    "prvAddTaskToReadyList t k2 = Some k3" "list_inv k3" "same_clock ?k0 k3"
    "kernel.more k3 = kernel.more ?k0" "tcbs k3 = (tcbs ?k0)(t := wake_tcb (tcbs ?k0 t))"
    "members k3 E = remove1 t (members ?k0 E)"
    "\<And>l'. l' \<noteq> l \<Longrightarrow> l' \<noteq> Ready (prio ?k0 t) \<Longrightarrow> l' \<noteq> E \<Longrightarrow> task_lists k3 l' = task_lists ?k0 l'"
    by (rule wake_waiter [OF sched_inv_parts(1) [OF i0] st(1) ev], rule that)
  have t3: "tcbs k3 = (tcbs k)(t := flagged v (tcbs k t))" by (simp add: w(7) f0(4) flagged_def)
  have i3: "sched_inv k3" by (rule sched_inv_wake [OF i0 w(4,5,7)])
  have clk: "same_clock k k3" by (rule same_clock_trans [OF f0(1) w(5)])
  have c3: "pxCurrentTCB k3 = Some c" using assms(3) same_clockD(1) [OF clk] by simp
  let ?k' = "if prio k3 t > prio k3 c then k3\<lparr>xYieldPending := True\<rparr> else k3"
  have "task_lists k3 l' = task_lists k l'" if "is_event_list l'" "l' \<noteq> E" for l'
  proof -
    have "l' \<noteq> l" "l' \<noteq> Ready (prio ?k0 t)" using that(1) st(2) by auto
    then show ?thesis using w(9) [of l'] that(2) f0(3) by simp
  qed
  moreover have "vTaskRemoveFromUnorderedEventList t v k = Some ?k'"
    using w(1-3) c3 assms(2) by (simp add: vTaskRemoveFromUnorderedEventList_def configASSERT_def)
  moreover have "prio k3 u = prio k u" for u by (simp add: t3)
  ultimately show thesis
    using i3 t3 clk w(6,8) f0(2,3) by (intro that [of ?k']) (auto simp: same_clock_def)
qed

text \<open>What the values of the items of the woken tasks clear.\<close>

definition cleared_by :: "u32 list \<Rightarrow> u32" where
  "cleared_by vs = foldr (\<lambda>v b. item_clears v OR b) vs 0"

lemma list_next_mid: "t \<notin> set us \<Longrightarrow> list_next t (us @ t # vs) = (case vs of [] \<Rightarrow> None | y # _ \<Rightarrow> Some y)"
  by (simp add: list_next_def dropWhile_neq_first split: list.split)

abbreviation hits :: "u32 \<Rightarrow> 'z kernel_scheme \<Rightarrow> tid \<Rightarrow> bool" where
  "hits B k t \<equiv> item_matches B (event_value (tcbs k t))"

definition first_of :: "'a list \<Rightarrow> 'a option" where
  "first_of xs = (case xs of [] \<Rightarrow> None | x # _ \<Rightarrow> Some x)"

lemma set_bits_loop_spec:
  assumes "sched_inv k" "uxSchedulerSuspended k \<noteq> 0" "pxCurrentTCB k = Some c" "members k (WaitingForBits e) = ps @ ws"
    "ebits k e = B"
  shows "\<exists>k'. set_bits_loop e (first_of ws) cl k =
      Some (cl OR cleared_by (map (\<lambda>t. event_value (tcbs k t)) (filter (hits B k) ws)), k') \<and> sched_inv k' \<and>
    same_clock k (k'\<lparr>xYieldPending := xYieldPending k\<rparr>) \<and> kernel.more k' = kernel.more k \<and>
    tcbs k' = (\<lambda>t. if t \<in> set ws \<and> hits B k t
       then flagged (B OR eventUNBLOCKED_DUE_TO_BIT_SET) (tcbs k t) else tcbs k t) \<and>
    members k' (WaitingForBits e) = ps @ filter (\<lambda>t. \<not> hits B k t) ws \<and>
    (xYieldPending k' \<longleftrightarrow> xYieldPending k \<or> (\<exists>t\<in>set ws. hits B k t \<and> prio k c < prio k t)) \<and>
    (\<forall>l'. is_event_list l' \<longrightarrow> l' \<noteq> WaitingForBits e \<longrightarrow> task_lists k' l' = task_lists k l')"
  using assms
proof (induction ws arbitrary: ps cl k)
  case Nil
  then show ?case by (subst set_bits_loop.simps) (simp add: first_of_def cleared_by_def same_clock_def)
next
  case (Cons t ws)
  let ?E = "WaitingForBits e" and ?v = "event_value (tcbs k t)"
  have ok: "lists_ok k" using Cons(2) by (rule sched_inv_parts)
  then have "distinct (members k ?E)" by (auto simp: lists_ok_def kl_wf_def)
  then have d: "t \<notin> set ps" "t \<notin> set ws" using Cons(5) by auto
  have nx: "list_next t (members k ?E) = first_of ws" using d by (simp add: Cons(5) list_next_mid first_of_def)
  have ev: "event_list (tcbs k t) = Some ?E" using event_member [OF ok, of ?E t] Cons(5) by simp
  show ?case
  proof (cases "item_matches B ?v")
    case False
    from Cons.IH [OF Cons(2-4) _ Cons(6), of "ps @ [t]" cl] Cons(5) obtain k' where k':
      "set_bits_loop e (first_of ws) cl k = Some (cl OR cleared_by (map (\<lambda>t. event_value (tcbs k t)) (filter (hits B k) ws)), k')"
      "sched_inv k'" "same_clock k (k'\<lparr>xYieldPending := xYieldPending k\<rparr>)" "kernel.more k' = kernel.more k"
      "tcbs k' = (\<lambda>t. if t \<in> set ws \<and> hits B k t then flagged (B OR eventUNBLOCKED_DUE_TO_BIT_SET) (tcbs k t) else tcbs k t)"
      "members k' ?E = (ps @ [t]) @ filter (\<lambda>t. \<not> hits B k t) ws"
      "xYieldPending k' \<longleftrightarrow> xYieldPending k \<or> (\<exists>t\<in>set ws. hits B k t \<and> prio k c < prio k t)"
      "\<forall>l'. is_event_list l' \<longrightarrow> l' \<noteq> ?E \<longrightarrow> task_lists k' l' = task_lists k l'" by auto
    have "set_bits_loop e (first_of (t # ws)) cl k = set_bits_loop e (first_of ws) cl k"
      using False Cons(6) nx by (subst set_bits_loop.simps) (simp add: first_of_def Let_def)
    with k' False d show ?thesis by (auto simp: fun_eq_iff)
  next
    case True
    obtain k1 where w: "vTaskRemoveFromUnorderedEventList t (B OR eventUNBLOCKED_DUE_TO_BIT_SET) k = Some k1" "sched_inv k1"
      "tcbs k1 = (tcbs k)(t := flagged (B OR eventUNBLOCKED_DUE_TO_BIT_SET) (tcbs k t))" "kernel.more k1 = kernel.more k"
      "same_clock k (k1\<lparr>xYieldPending := xYieldPending k\<rparr>)" "xYieldPending k1 \<longleftrightarrow> xYieldPending k \<or> prio k c < prio k t"
      "members k1 ?E = remove1 t (members k ?E)"
      "\<And>l'. is_event_list l' \<Longrightarrow> l' \<noteq> ?E \<Longrightarrow> task_lists k1 l' = task_lists k l'"
      by (rule unordered_wake [OF Cons(2-4) ev], rule that)
    have m1: "members k1 ?E = ps @ ws" using w(7) Cons(5) d by (simp add: remove1_append)
    have f1: "uxSchedulerSuspended k1 \<noteq> 0" "pxCurrentTCB k1 = Some c" "ebits k1 e = B"
      using Cons(3,4,6) w(5) groups_more [OF w(4)] by (simp_all add: same_clock_def)
    have same: "tcbs k1 u = tcbs k u" if "u \<in> set ws" for u using that d by (auto simp: w(3))
    have h1: "filter (hits B k1) ws = filter (hits B k) ws" "filter (\<lambda>t. \<not> hits B k1 t) ws = filter (\<lambda>t. \<not> hits B k t) ws"
      by (auto intro!: filter_cong simp: same)
    have v1: "map (\<lambda>t. event_value (tcbs k1 t)) (filter (hits B k) ws) = map (\<lambda>t. event_value (tcbs k t)) (filter (hits B k) ws)"
      by (auto simp: same)
    have y1: "(\<exists>u\<in>set ws. hits B k1 u \<and> prio k1 c < prio k1 u) \<longleftrightarrow> (\<exists>u\<in>set ws. hits B k u \<and> prio k c < prio k u)"
      by (intro bex_cong refl) (simp_all add: same, simp add: w(3))
    from Cons.IH [OF w(2) f1(1,2) m1 f1(3), of "cl OR item_clears ?v", unfolded h1 v1 y1] obtain k' where k':
      "set_bits_loop e (first_of ws) (cl OR item_clears ?v) k1 =
        Some ((cl OR item_clears ?v) OR cleared_by (map (\<lambda>t. event_value (tcbs k t)) (filter (hits B k) ws)), k')"
      "sched_inv k'" "same_clock k1 (k'\<lparr>xYieldPending := xYieldPending k1\<rparr>)" "kernel.more k' = kernel.more k1"
      "tcbs k' = (\<lambda>t. if t \<in> set ws \<and> hits B k1 t then flagged (B OR eventUNBLOCKED_DUE_TO_BIT_SET) (tcbs k1 t) else tcbs k1 t)"
      "members k' ?E = ps @ filter (\<lambda>t. \<not> hits B k t) ws"
      "xYieldPending k' \<longleftrightarrow> xYieldPending k1 \<or> (\<exists>t\<in>set ws. hits B k t \<and> prio k c < prio k t)"
      "\<forall>l'. is_event_list l' \<longrightarrow> l' \<noteq> ?E \<longrightarrow> task_lists k' l' = task_lists k1 l'" by auto
    have "set_bits_loop e (first_of (t # ws)) cl k =
      Some (cl OR cleared_by (map (\<lambda>t. event_value (tcbs k t)) (filter (hits B k) (t # ws))), k')"
      using True Cons(6) nx w(1) k'(1)
      by (subst set_bits_loop.simps) (simp add: first_of_def Let_def cleared_by_def or.assoc)
    moreover have "tcbs k' = (\<lambda>u. if u \<in> set (t # ws) \<and> hits B k u
        then flagged (B OR eventUNBLOCKED_DUE_TO_BIT_SET) (tcbs k u) else tcbs k u)"
      unfolding k'(5) using True d by (auto simp: same w(3) fun_eq_iff)
    ultimately show ?thesis
      using k'(2,3,4,6,7,8) w(4,5,6,8) True by (auto simp: same_clock_def)
  qed
qed

section \<open>Setting flags\<close>

text \<open>
  What setting flags means: every task that waits for flags that are now set is readied with the flags
  in the value of its item, and the flags that these tasks asked to be cleared are cleared at the end.
\<close>

definition set_wakes :: "nat \<Rightarrow> u32 \<Rightarrow> 'z ekernel_scheme \<Rightarrow> tid \<Rightarrow> bool" where
  "set_wakes e s k t \<longleftrightarrow> event_list (tcbs k t) = Some (WaitingForBits e) \<and> hits (ebits k e OR s) k t"

definition after_set :: "nat \<Rightarrow> u32 \<Rightarrow> 'z ekernel_scheme \<Rightarrow> tid \<Rightarrow> tcb" where
  "after_set e s k t =
     (if set_wakes e s k t then flagged ((ebits k e OR s) OR eventUNBLOCKED_DUE_TO_BIT_SET) (tcbs k t) else tcbs k t)"

definition new_bits :: "nat \<Rightarrow> u32 \<Rightarrow> 'z ekernel_scheme \<Rightarrow> u32" where
  "new_bits e s k = (ebits k e OR s) AND NOT
     (cleared_by (map (\<lambda>t. event_value (tcbs k t)) (filter (set_wakes e s k) (members k (WaitingForBits e)))))"

definition group_frame :: "'z ekernel_scheme \<Rightarrow> 'z ekernel_scheme \<Rightarrow> bool" where
  "group_frame k k' \<longleftrightarrow> queues k' = queues k \<and> xQueueRegistry k' = xQueueRegistry k \<and> ekernel.more k' = ekernel.more k"

lemma group_frame_refl [simp]: "group_frame k k" by (simp add: group_frame_def)

lemma group_frame_trans: "group_frame a b \<Longrightarrow> group_frame b c \<Longrightarrow> group_frame a c" by (simp add: group_frame_def)

lemma group_frame_more: "kernel.more k' = kernel.more k \<Longrightarrow> group_frame k k'"
  by (cases k; cases k'; simp add: group_frame_def)

lemma group_frame_upd [simp]: "group_frame k (upd_group e f k') = group_frame k k'"
  "group_frame (upd_group e f k) k' = group_frame k k'"
  by (simp_all add: group_frame_def upd_group_def)

definition set_bits_body :: "nat \<Rightarrow> u32 \<Rightarrow> 'z ekernel_scheme \<Rightarrow> 'z ekernel_scheme option" where
  "set_bits_body e s k = do {
     (cl, k) \<leftarrow> set_bits_loop e (head_owner (WaitingForBits e) k) 0 (set_group_bits e (ebits k e OR s) k);
     Some (set_group_bits e (ebits k e AND NOT cl) k)
   }"

lemma xEventGroupSetBits_body:
  "s AND eventEVENT_BITS_CONTROL_BYTES = 0 \<Longrightarrow> xEventGroupSetBits e s k =
    do { k \<leftarrow> set_bits_body e s (vTaskSuspendAll k); (_, k) \<leftarrow> xTaskResumeAll k; Some k }"
  by (simp add: xEventGroupSetBits_def set_bits_body_def configASSERT_def Let_def case_prod_unfold)

lemma set_bits_body_spec:
  assumes "sched_inv k" "uxSchedulerSuspended k \<noteq> 0" "pxCurrentTCB k = Some c"
  obtains k' where "set_bits_body e s k = Some k'" "sched_inv k'"
    "same_clock k (k'\<lparr>xYieldPending := xYieldPending k\<rparr>)" "tcbs k' = after_set e s k" "group_frame k k'"
    "event_groups k' = (event_groups k)(e := (event_groups k e)\<lparr>uxEventBits := new_bits e s k\<rparr>)"
    "xYieldPending k' \<longleftrightarrow> xYieldPending k \<or> (\<exists>t. set_wakes e s k t \<and> prio k c < prio k t)"
proof -
  let ?E = "WaitingForBits e" and ?B = "ebits k e OR s"
  let ?k0 = "set_group_bits e ?B k" and ?ws = "members k ?E"
  have k0: "sched_inv ?k0" "uxSchedulerSuspended ?k0 \<noteq> 0" "pxCurrentTCB ?k0 = Some c" "members ?k0 ?E = [] @ ?ws"
    "ebits ?k0 e = ?B" "tcbs ?k0 = tcbs k"
    using assms by (simp_all add: set_group_bits_def)
  have w: "set_wakes e s k t \<longleftrightarrow> t \<in> set ?ws \<and> hits ?B k t" for t
    using event_member [OF sched_inv_parts(3) [OF assms(1)], of ?E t] by (auto simp: set_wakes_def)
  have fw: "filter (hits ?B k) ?ws = filter (set_wakes e s k) ?ws" by (rule filter_cong) (simp_all add: w)
  from set_bits_loop_spec [OF k0(1-5), of 0, unfolded k0(6) fw] obtain k1 where l:
    "set_bits_loop e (first_of ?ws) 0 ?k0 = Some (cleared_by (map (\<lambda>t. event_value (tcbs k t)) (filter (set_wakes e s k) ?ws)), k1)"
    "sched_inv k1" "same_clock ?k0 (k1\<lparr>xYieldPending := xYieldPending ?k0\<rparr>)" "kernel.more k1 = kernel.more ?k0"
    "tcbs k1 = (\<lambda>t. if t \<in> set ?ws \<and> hits ?B k t then flagged (?B OR eventUNBLOCKED_DUE_TO_BIT_SET) (tcbs k t) else tcbs k t)"
    "xYieldPending k1 \<longleftrightarrow> xYieldPending ?k0 \<or> (\<exists>t\<in>set ?ws. hits ?B k t \<and> prio k c < prio k t)"
    by auto
  have h: "head_owner ?E k = first_of ?ws" by (simp add: head_owner_def first_of_def)
  let ?k' = "set_group_bits e (ebits k1 e AND NOT (cleared_by (map (\<lambda>t. event_value (tcbs k t)) (filter (set_wakes e s k) ?ws)))) k1"
  have "tcbs k1 = after_set e s k" by (auto simp: l(5) after_set_def w fun_eq_iff)
  moreover have "event_groups k1 = event_groups ?k0" by (rule groups_more [OF l(4)])
  moreover have "group_frame ?k0 k1" by (rule group_frame_more [OF l(4)])
  ultimately show thesis
    using l(1,2,3,6) h w
    by (intro that [of ?k']) (auto simp: set_bits_body_def set_group_bits_def new_bits_def same_clock_def)
qed

lemma can_run_parts:
  assumes "can_run c k"
  shows "sched_inv k" "quiet k" "pxCurrentTCB k = Some c" "uxCurrentNumberOfTasks k > 0" "uxSchedulerSuspended k = 0"
    "xPendedTicks k = 0" "\<not> pending k t"
  using assms by (auto simp: can_run_def quiet_def)

lemma suspended_fields [simp]:
  "tcbs (vTaskSuspendAll k) = tcbs k" "task_lists (vTaskSuspendAll k) = task_lists k" "sched_inv (vTaskSuspendAll k) = sched_inv k"
  "pxCurrentTCB (vTaskSuspendAll k) = pxCurrentTCB k" "event_groups (vTaskSuspendAll e) = event_groups e"
  "uxSchedulerSuspended (vTaskSuspendAll k) = uxSchedulerSuspended k + 1" "xTickCount (vTaskSuspendAll k) = xTickCount k"
  "xPendedTicks (vTaskSuspendAll k) = xPendedTicks k" "uxCurrentNumberOfTasks (vTaskSuspendAll k) = uxCurrentNumberOfTasks k"
  "xYieldPending (vTaskSuspendAll k) = xYieldPending k" "xSchedulerRunning (vTaskSuspendAll k) = xSchedulerRunning k"
  "pxDelayedTaskList (vTaskSuspendAll k) = pxDelayedTaskList k"
  "pxOverflowDelayedTaskList (vTaskSuspendAll k) = pxOverflowDelayedTaskList k"
  by (simp_all add: vTaskSuspendAll_def)

lemma suspended_woken [simp]: "set_wakes e s (vTaskSuspendAll k) = set_wakes e s k"
  by (simp add: set_wakes_def fun_eq_iff)

lemma suspended_group [simp]:
  "after_set e s (vTaskSuspendAll k) = after_set e s k" "new_bits e s (vTaskSuspendAll k) = new_bits e s k"
  "group_frame (vTaskSuspendAll k) k' = group_frame k k'"
  by (simp_all add: after_set_def new_bits_def fun_eq_iff) (simp add: group_frame_def vTaskSuspendAll_def)

lemma not_pending_after_set: "\<not> pending k t \<Longrightarrow> tcbs k' = after_set e s k \<Longrightarrow> \<not> pending k' t"
  by (simp add: pending_def after_set_def)

lemma xEventGroupSetBits_spec:
  assumes "can_run c k" "s AND eventEVENT_BITS_CONTROL_BYTES = 0"
  obtains k' where "xEventGroupSetBits e s k = Some k'" "can_run c k'" "tcbs k' = after_set e s k" "group_frame k k'"
    "event_groups k' = (event_groups k)(e := (event_groups k e)\<lparr>uxEventBits := new_bits e s k\<rparr>)"
    "xTickCount k' = xTickCount k" "xSchedulerRunning k' = xSchedulerRunning k"
    "(\<exists>t. set_wakes e s k t \<and> prio k c < prio k t) \<longrightarrow> pendsv k'"
proof -
  note r = can_run_parts [OF assms(1)]
  let ?k0 = "vTaskSuspendAll k"
  have k0: "sched_inv ?k0" "uxSchedulerSuspended ?k0 \<noteq> 0" "pxCurrentTCB ?k0 = Some c" using r by simp_all
  obtain k1 where b: "set_bits_body e s ?k0 = Some k1" "sched_inv k1"
    "same_clock ?k0 (k1\<lparr>xYieldPending := xYieldPending ?k0\<rparr>)" "tcbs k1 = after_set e s ?k0" "group_frame ?k0 k1"
    "event_groups k1 = (event_groups ?k0)(e := (event_groups ?k0 e)\<lparr>uxEventBits := new_bits e s ?k0\<rparr>)"
    "xYieldPending k1 \<longleftrightarrow> xYieldPending ?k0 \<or> (\<exists>t. set_wakes e s ?k0 t \<and> prio ?k0 c < prio ?k0 t)"
    by (rule set_bits_body_spec [OF k0])
  have f1: "uxSchedulerSuspended k1 = 1" "xPendedTicks k1 = 0" "pxCurrentTCB k1 = Some c" "uxCurrentNumberOfTasks k1 > 0"
    "xTickCount k1 = xTickCount k" "xSchedulerRunning k1 = xSchedulerRunning k"
    using b(3) r by (simp_all add: same_clock_def)
  have np: "\<not> pending k1 t" for t using not_pending_after_set [OF r(7)] b(4) by simp
  obtain y k' where q: "xTaskResumeAll k1 = Some (y, k')" "sched_inv k'" "quiet k'" "tcbs k' = tcbs k1"
    "pxCurrentTCB k' = Some c" "xTickCount k' = xTickCount k1" "kernel.more k' = kernel.more k1"
    "uxCurrentNumberOfTasks k' = uxCurrentNumberOfTasks k1" "xSchedulerRunning k' = xSchedulerRunning k1"
    "y \<longrightarrow> pendsv k'" "xYieldPending k1 \<longrightarrow> y"
    by (rule resume_quiet [OF b(2) f1(1,2) np f1(3,4)])
  have "xEventGroupSetBits e s k = Some k'" by (simp add: xEventGroupSetBits_body [OF assms(2)] b(1) q(1))
  moreover have "group_frame k k'" using group_frame_trans [OF b(5) group_frame_more [OF q(7)]] by simp
  ultimately show thesis
    using q f1 b(4,6,7) groups_more [OF q(7)] by (intro that [of k']) (auto simp: can_run_def)
qed

section \<open>The value of an item\<close>

lemmas event_consts = eventCLEAR_EVENTS_ON_EXIT_BIT_def eventUNBLOCKED_DUE_TO_BIT_SET_def eventWAIT_FOR_ALL_BITS_def
  eventEVENT_BITS_CONTROL_BYTES_def taskEVENT_LIST_ITEM_VALUE_IN_USE_def

definition wait_value :: "u32 \<Rightarrow> bool \<Rightarrow> bool \<Rightarrow> u32" where
  "wait_value w clr all = (w OR ((if clr then eventCLEAR_EVENTS_ON_EXIT_BIT else 0) OR
     (if all then eventWAIT_FOR_ALL_BITS else 0))) OR taskEVENT_LIST_ITEM_VALUE_IN_USE"

definition flags_only :: "u32 \<Rightarrow> bool" where
  "flags_only w \<longleftrightarrow> w AND eventEVENT_BITS_CONTROL_BYTES = 0"

lemma flags_only_bits:
  assumes "flags_only w"
  shows "w AND NOT eventEVENT_BITS_CONTROL_BYTES = w"
proof (rule bit_word_eqI)
  fix n
  have "\<not> bit (w AND eventEVENT_BITS_CONTROL_BYTES) n" using assms by (simp add: flags_only_def)
  moreover assume "n < LENGTH(32)"
  ultimately show "bit (w AND NOT eventEVENT_BITS_CONTROL_BYTES) n = bit w n" by (auto simp: bit_simps)
qed

lemma control_split:
  assumes "flags_only w" "m AND eventEVENT_BITS_CONTROL_BYTES = m" "m AND NOT eventEVENT_BITS_CONTROL_BYTES = 0"
  shows "(w OR m) AND eventEVENT_BITS_CONTROL_BYTES = m" "(w OR m) AND NOT eventEVENT_BITS_CONTROL_BYTES = w"
  using assms flags_only_bits [OF assms(1)] by (simp_all add: bit.conj_disj_distrib2 flags_only_def)

lemma wait_value_parts:
  assumes "flags_only w"
  shows "item_matches B (wait_value w clr all) = prvTestWaitCondition B w all"
    "item_clears (wait_value w clr all) = (if clr then w else 0)"
proof -
  define m where "m = ((if clr then eventCLEAR_EVENTS_ON_EXIT_BIT else 0) OR (if all then eventWAIT_FOR_ALL_BITS else 0)) OR
    taskEVENT_LIST_ITEM_VALUE_IN_USE"
  have w: "wait_value w clr all = w OR m" by (simp add: wait_value_def m_def or.assoc)
  have m: "m AND eventEVENT_BITS_CONTROL_BYTES = m" "m AND NOT eventEVENT_BITS_CONTROL_BYTES = 0"
    "m AND eventWAIT_FOR_ALL_BITS = (if all then eventWAIT_FOR_ALL_BITS else 0)"
    "m AND eventCLEAR_EVENTS_ON_EXIT_BIT = (if clr then eventCLEAR_EVENTS_ON_EXIT_BIT else 0)"
    by (simp_all add: event_consts m_def)
  have "eventWAIT_FOR_ALL_BITS \<noteq> 0" "eventCLEAR_EVENTS_ON_EXIT_BIT \<noteq> 0" by (simp_all add: event_consts)
  then show "item_matches B (wait_value w clr all) = prvTestWaitCondition B w all"
    "item_clears (wait_value w clr all) = (if clr then w else 0)"
    by (simp_all add: item_matches_def item_clears_def prvTestWaitCondition_def Let_def w m control_split [OF assms m(1,2)]
        and.commute [of B w])
qed

definition wake_value :: "u32 \<Rightarrow> u32" where
  "wake_value B = (B OR eventUNBLOCKED_DUE_TO_BIT_SET) OR taskEVENT_LIST_ITEM_VALUE_IN_USE"

lemma wake_value_parts:
  assumes "flags_only B"
  shows "wake_value B AND eventUNBLOCKED_DUE_TO_BIT_SET \<noteq> 0" "wake_value B AND NOT eventEVENT_BITS_CONTROL_BYTES = B"
proof -
  let ?m = "eventUNBLOCKED_DUE_TO_BIT_SET OR taskEVENT_LIST_ITEM_VALUE_IN_USE"
  have w: "wake_value B = B OR ?m" by (simp add: wake_value_def or.assoc)
  have "?m AND eventEVENT_BITS_CONTROL_BYTES = ?m" "?m AND NOT eventEVENT_BITS_CONTROL_BYTES = 0" by (simp_all add: event_consts)
  from control_split [OF assms this] show "wake_value B AND NOT eventEVENT_BITS_CONTROL_BYTES = B" by (simp add: w)
  have "bit (wake_value B AND eventUNBLOCKED_DUE_TO_BIT_SET) 25"
    by (simp add: wake_value_def event_consts bit_simps)
  then show "wake_value B AND eventUNBLOCKED_DUE_TO_BIT_SET \<noteq> 0" by fastforce
qed

lemma cleared_by_covers: "v \<in> set vs \<Longrightarrow> item_clears v AND NOT (cleared_by vs) = 0"
proof (induction vs)
  case (Cons u vs)
  show ?case
  proof (rule bit_word_eqI)
    fix n
    have "u = v \<or> \<not> bit (item_clears v AND NOT (cleared_by vs)) n" using Cons by auto
    moreover assume "n < LENGTH(32)"
    ultimately show "bit (item_clears v AND NOT (cleared_by (u # vs))) n = bit 0 n"
      by (auto simp: cleared_by_def bit_simps)
  qed
qed simp

lemma flags_only_simps:
  "flags_only a \<Longrightarrow> flags_only b \<Longrightarrow> flags_only (a OR b)" "flags_only a \<Longrightarrow> flags_only (a AND b)"
  by (simp_all add: flags_only_def bit.conj_disj_distrib2 and.assoc) (metis and.left_commute bit.conj_zero_right)

section \<open>Waiting for flags\<close>

lemma place_unordered:
  assumes "sched_inv k" "uxSchedulerSuspended k \<noteq> 0" "pxCurrentTCB k = Some c" "state_list (tcbs k c) = Some l"
    "event_list (tcbs k c) = None" "n \<noteq> 0"
  obtains k' where "vTaskPlaceOnUnorderedEventList (WaitingForBits e) v n k = Some k'" "sched_inv k'"
    "tcbs k' = (tcbs k)(c := parked n True k ((tcbs k c)\<lparr>event_value := v OR taskEVENT_LIST_ITEM_VALUE_IN_USE,
       event_list := Some (WaitingForBits e)\<rparr>))"
    "kernel.more k' = kernel.more k" "same_clock k (k'\<lparr>xNextTaskUnblockTime := xNextTaskUnblockTime k\<rparr>)"
proof -
  let ?E = "WaitingForBits e" and ?v = "\<lambda>b. b\<lparr>event_value := v OR taskEVENT_LIST_ITEM_VALUE_IN_USE\<rparr>"
  let ?k0 = "upd_tcb c ?v k"
  let ?k1 = "insert_end_event ?E c ?k0"
  have i0: "sched_inv ?k0" using assms(1) by (simp add: sched_inv_keeps keeps_sched_def)
  have li: "list_inv ?k1"
    by (rule list_inv_insert_event(2) [OF sched_inv_parts(1) [OF i0]]) (simp_all add: assms(5))
  have f: "same_clock k ?k1" "kernel.more ?k1 = kernel.more k"
    "tcbs ?k1 = (tcbs k)(c := (tcbs k c)\<lparr>event_value := v OR taskEVENT_LIST_ITEM_VALUE_IN_USE, event_list := Some ?E\<rparr>)"
    by (simp_all add: insert_end_event_def upd_defs same_clock_def)
  obtain k' where p: "prvAddCurrentTaskToDelayedList n True ?k1 = Some k'" "sched_inv k'"
    "tcbs k' = (tcbs k)(c := parked n True k
       ((tcbs k c)\<lparr>event_value := v OR taskEVENT_LIST_ITEM_VALUE_IN_USE, event_list := Some ?E\<rparr>))"
    "kernel.more k' = kernel.more k" "same_clock k (k'\<lparr>xNextTaskUnblockTime := xNextTaskUnblockTime k\<rparr>)"
    "\<And>l'. is_event_list l' \<Longrightarrow> task_lists k' l' = task_lists ?k1 l'"
    by (rule park_waiter [OF assms(1) li assms(3,4,6) f]) (auto intro: that)
  have "vTaskPlaceOnUnorderedEventList ?E v n k = Some k'"
    using assms(2,3) p(1) by (simp add: vTaskPlaceOnUnorderedEventList_def configASSERT_def)
  then show thesis by (rule that [OF _ p(2-5)])
qed

lemma parked_suspended [simp]: "parked n b (vTaskSuspendAll k) = parked n b k"
  by (simp add: parked_def fun_eq_iff)

lemma not_suspended_may_wait: "uxSchedulerSuspended k = 0 \<Longrightarrow> may_wait n k"
  by (simp add: may_wait_def xTaskGetSchedulerState_def)

text \<open>What \<open>vTaskPlaceOnUnorderedEventList\<close> and resuming the scheduler make of the calling task.\<close>

definition waiting_tcb :: "nat \<Rightarrow> u32 \<Rightarrow> TickType_t \<Rightarrow> 'z kernel_scheme \<Rightarrow> tcb \<Rightarrow> tcb" where
  "waiting_tcb e v n k b = parked n True k (b\<lparr>event_value := v, event_list := Some (WaitingForBits e)\<rparr>)"

lemma waiting_tcb_fields [simp]:
  "event_value (waiting_tcb e v n k b) = v" "event_list (waiting_tcb e v n k b) = Some (WaitingForBits e)"
  "uxPriority (waiting_tcb e v n k b) = uxPriority b"
  by (simp_all add: waiting_tcb_def parked_def)

lemma wait_and_resume:
  assumes "sched_inv k" "uxSchedulerSuspended k = 1" "xPendedTicks k = 0" "\<And>t. \<not> pending k t" "pxCurrentTCB k = Some c"
    "uxCurrentNumberOfTasks k > 0" "state_list (tcbs k c) = Some l" "event_list (tcbs k c) = None" "n \<noteq> 0"
  obtains k1 y k' where "vTaskPlaceOnUnorderedEventList (WaitingForBits e) v n k = Some k1" "xTaskResumeAll k1 = Some (y, k')"
    "can_run c k'" "tcbs k' = (tcbs k)(c := waiting_tcb e (v OR taskEVENT_LIST_ITEM_VALUE_IN_USE) n k (tcbs k c))"
    "event_groups k' = event_groups k" "group_frame k k'" "xTickCount k' = xTickCount k"
    "xSchedulerRunning k' = xSchedulerRunning k" "y \<longrightarrow> pendsv k'"
proof -
  have s0: "uxSchedulerSuspended k \<noteq> 0" using assms(2) by simp
  obtain k1 where p: "vTaskPlaceOnUnorderedEventList (WaitingForBits e) v n k = Some k1" "sched_inv k1"
    "tcbs k1 = (tcbs k)(c := parked n True k ((tcbs k c)\<lparr>event_value := v OR taskEVENT_LIST_ITEM_VALUE_IN_USE,
       event_list := Some (WaitingForBits e)\<rparr>))"
    "kernel.more k1 = kernel.more k" "same_clock k (k1\<lparr>xNextTaskUnblockTime := xNextTaskUnblockTime k\<rparr>)"
    by (rule place_unordered [OF assms(1) s0 assms(5,7,8,9)])
  have f1: "uxSchedulerSuspended k1 = 1" "xPendedTicks k1 = 0" "pxCurrentTCB k1 = Some c" "uxCurrentNumberOfTasks k1 > 0"
    "xTickCount k1 = xTickCount k" "xSchedulerRunning k1 = xSchedulerRunning k"
    using p(5) assms by (simp_all add: same_clock_def)
  have np: "\<not> pending k1 t" for t using assms(4) [of t] by (auto simp: pending_def p(3) parked_def)
  obtain y k' where q: "xTaskResumeAll k1 = Some (y, k')" "sched_inv k'" "quiet k'" "tcbs k' = tcbs k1"
    "pxCurrentTCB k' = Some c" "xTickCount k' = xTickCount k1" "kernel.more k' = kernel.more k1"
    "uxCurrentNumberOfTasks k' = uxCurrentNumberOfTasks k1" "xSchedulerRunning k' = xSchedulerRunning k1"
    "y \<longrightarrow> pendsv k'" "xYieldPending k1 \<longrightarrow> y"
    by (rule resume_quiet [OF p(2) f1(1,2) np f1(3,4)])
  show thesis
    using that [OF p(1) q(1)] q f1 p(3) groups_more [OF q(7)] groups_more [OF p(4)]
      group_frame_trans [OF group_frame_more [OF p(4)] group_frame_more [OF q(7)]]
    by (simp add: can_run_def waiting_tcb_def)
qed

lemma can_run_yield [simp]: "can_run c (portYIELD k) = can_run c k"
  by (simp add: can_run_def portYIELD_def quiet_def pending_def)

lemma yield_fields [simp]:
  "tcbs (portYIELD k) = tcbs k" "event_groups (portYIELD g) = event_groups g" "xTickCount (portYIELD k) = xTickCount k"
  "xSchedulerRunning (portYIELD k) = xSchedulerRunning k" "pendsv (portYIELD k)" "group_frame a (portYIELD g) = group_frame a g"
  by (simp_all add: portYIELD_def group_frame_def)

lemma wait_bits_blocks:
  assumes "can_run c k" "state_list (tcbs k c) = Some l" "event_list (tcbs k c) = None" "flags_only w" "w \<noteq> 0" "n \<noteq> 0"
    "\<not> prvTestWaitCondition (ebits k e) w all"
  obtains k' where "xEventGroupWaitBits_enter e w clr all n k = Some (None, k')" "can_run c k'"
    "tcbs k' = (tcbs k)(c := waiting_tcb e (wait_value w clr all) n k (tcbs k c))" "event_groups k' = event_groups k"
    "group_frame k k'" "xTickCount k' = xTickCount k" "pendsv k'"
proof -
  note r = can_run_parts [OF assms(1)]
  let ?k0 = "vTaskSuspendAll k"
  let ?v = "w OR ((if clr then eventCLEAR_EVENTS_ON_EXIT_BIT else 0) OR (if all then eventWAIT_FOR_ALL_BITS else 0))"
  have f: "sched_inv ?k0" "uxSchedulerSuspended ?k0 = 1" "xPendedTicks ?k0 = 0" "pxCurrentTCB ?k0 = Some c"
    "uxCurrentNumberOfTasks ?k0 > 0" "state_list (tcbs ?k0 c) = Some l" "event_list (tcbs ?k0 c) = None"
    using r assms(2,3) by simp_all
  have np: "\<not> pending ?k0 t" for t using r(7) by (simp add: pending_def)
  obtain k1 y k' where p: "vTaskPlaceOnUnorderedEventList (WaitingForBits e) ?v n ?k0 = Some k1" "xTaskResumeAll k1 = Some (y, k')"
    "can_run c k'" "tcbs k' = (tcbs ?k0)(c := waiting_tcb e (?v OR taskEVENT_LIST_ITEM_VALUE_IN_USE) n ?k0 (tcbs ?k0 c))"
    "event_groups k' = event_groups ?k0" "group_frame ?k0 k'" "xTickCount k' = xTickCount ?k0"
    "xSchedulerRunning k' = xSchedulerRunning ?k0" "y \<longrightarrow> pendsv k'"
    by (rule wait_and_resume [OF f(1-3) np f(4-7) assms(6)])
  have "xEventGroupWaitBits_enter e w clr all n k = Some (None, if y then k' else portYIELD k')"
    using assms(4-7) r(5) p(1,2)
    by (simp add: xEventGroupWaitBits_enter_def configASSERT_def not_suspended_may_wait flags_only_def Let_def)
  then show thesis
    using p by (intro that [of "if y then k' else portYIELD k'"]) (simp_all add: waiting_tcb_def wait_value_def)
qed

lemma wait_bits_now:
  assumes "can_run c k" "flags_only w" "w \<noteq> 0" "prvTestWaitCondition (ebits k e) w all \<or> n = 0"
  obtains k' where "xEventGroupWaitBits_enter e w clr all n k = Some (Some (ebits k e), k')" "can_run c k'" "tcbs k' = tcbs k"
    "event_groups k' = (event_groups k)(e := (event_groups k e)\<lparr>uxEventBits :=
       (if prvTestWaitCondition (ebits k e) w all \<and> clr then ebits k e AND NOT w else ebits k e)\<rparr>)"
    "group_frame k k'"
proof -
  note r = can_run_parts [OF assms(1)]
  let ?k0 = "vTaskSuspendAll k"
  define k1 where "k1 = (if prvTestWaitCondition (ebits k e) w all \<and> clr then set_group_bits e (ebits k e AND NOT w) ?k0 else ?k0)"
  have f: "sched_inv k1" "uxSchedulerSuspended k1 = 1" "xPendedTicks k1 = 0" "pxCurrentTCB k1 = Some c"
    "uxCurrentNumberOfTasks k1 > 0" "tcbs k1 = tcbs k"
    using r by (simp_all add: k1_def set_group_bits_def)
  have np: "\<not> pending k1 t" for t using r(7) by (simp add: pending_def f(6))
  obtain y k' where q: "xTaskResumeAll k1 = Some (y, k')" "sched_inv k'" "quiet k'" "tcbs k' = tcbs k1"
    "pxCurrentTCB k' = Some c" "xTickCount k' = xTickCount k1" "kernel.more k' = kernel.more k1"
    "uxCurrentNumberOfTasks k' = uxCurrentNumberOfTasks k1" "xSchedulerRunning k' = xSchedulerRunning k1"
    "y \<longrightarrow> pendsv k'" "xYieldPending k1 \<longrightarrow> y"
    by (rule resume_quiet [OF f(1-3) np f(4,5)])
  have "xEventGroupWaitBits_enter e w clr all n k = Some (Some (ebits k e), k')"
    using assms(2-4) r(5) q(1)
    by (auto simp: xEventGroupWaitBits_enter_def configASSERT_def not_suspended_may_wait flags_only_def Let_def k1_def)
  moreover have "event_groups k' = event_groups k1" by (rule groups_more [OF q(7)])
  moreover have "group_frame k1 k'" by (rule group_frame_more [OF q(7)])
  ultimately show thesis
    using q f by (intro that [of k']) (auto simp: can_run_def k1_def set_group_bits_def split: if_splits)
qed

lemma wait_bits_exit:
  assumes "pxCurrentTCB k = Some c" "event_value (tcbs k c) = wake_value B" "flags_only B"
  shows "xEventGroupWaitBits_exit e w clr all k = Some (B, upd_tcb c (\<lambda>b. b\<lparr>event_value := configMAX_PRIORITIES - uxPriority b\<rparr>) k)"
    "xEventGroupSync_exit e w k = Some (B, upd_tcb c (\<lambda>b. b\<lparr>event_value := configMAX_PRIORITIES - uxPriority b\<rparr>) k)"
  using assms(1,2) wake_value_parts [OF assms(3)]
  by (simp_all add: xEventGroupWaitBits_exit_def xEventGroupSync_exit_def uxTaskResetEventItemValue_def)

text \<open>The same kernel with another running task.\<close>

lemma groups_upd_tcb [simp]: "event_groups (upd_tcb t f k) = event_groups k"
  by (simp add: upd_tcb_def)

lemma run_fields [simp]: "tcbs (k\<lparr>pxCurrentTCB := x\<rparr>) = tcbs k" "event_groups (g\<lparr>pxCurrentTCB := x\<rparr>) = event_groups g"
  "sched_inv (k\<lparr>pxCurrentTCB := x\<rparr>) = sched_inv k" "quiet (k\<lparr>pxCurrentTCB := x\<rparr>) = quiet k"
  by (simp_all add: inv_defs lists_ok_def ready_ok_def delayed_ok_def quiet_def pending_def)

lemma can_run_other: "can_run c k \<Longrightarrow> can_run d (k\<lparr>pxCurrentTCB := Some d\<rparr>)"
  by (simp add: can_run_def)

lemma woken_bits_cleared:
  assumes "sched_inv k" "set_wakes e s k t" "item_clears (event_value (tcbs k t)) = w"
  shows "new_bits e s k AND w = 0"
proof -
  let ?cl = "cleared_by (map (\<lambda>t. event_value (tcbs k t)) (filter (set_wakes e s k) (members k (WaitingForBits e))))"
  have "t \<in> set (members k (WaitingForBits e))"
    using assms(2) event_member [OF sched_inv_parts(3) [OF assms(1)], of "WaitingForBits e" t] by (simp add: set_wakes_def)
  then have "item_clears (event_value (tcbs k t)) AND NOT ?cl = 0" using assms(2) by (intro cleared_by_covers) simp
  then have "w AND NOT ?cl = 0" by (simp add: assms(3))
  moreover have "new_bits e s k AND w = (ebits k e OR s) AND (w AND NOT ?cl)" unfolding new_bits_def by (simp only: and.assoc and.commute and.left_commute)
  ultimately show ?thesis by simp
qed

lemma wait_then_set:
  assumes "can_run c k" "state_list (tcbs k c) = Some l" "event_list (tcbs k c) = None" "flags_only (ebits k e)"
    "flags_only w" "w \<noteq> 0" "n \<noteq> 0" "flags_only s" "\<not> prvTestWaitCondition (ebits k e) w all" "prvTestWaitCondition (ebits k e OR s) w all"
    "d \<noteq> c"
  obtains k1 k2 k3 where "xEventGroupWaitBits_enter e w clr all n k = Some (None, k1)"
    "tcbs k1 = (tcbs k)(c := waiting_tcb e (wait_value w clr all) n k (tcbs k c))" "xTickCount k1 = xTickCount k"
    "xEventGroupSetBits e s (k1\<lparr>pxCurrentTCB := Some d\<rparr>) = Some k2" "can_run d k2"
    "state_list (tcbs k2 c) = Some (Ready (prio k c))" "event_list (tcbs k2 c) = None"
    "prio k d < prio k c \<longrightarrow> pendsv k2" "clr \<longrightarrow> ebits k2 e AND w = 0"
    "xEventGroupWaitBits_exit e w clr all (k2\<lparr>pxCurrentTCB := Some c\<rparr>) = Some (ebits k e OR s, k3)"
    "event_groups k3 = event_groups k2"
    "tcbs k3 = (tcbs k2)(c := (tcbs k2 c)\<lparr>event_value := configMAX_PRIORITIES - prio k c\<rparr>)"
proof -
  obtain k1 where b: "xEventGroupWaitBits_enter e w clr all n k = Some (None, k1)" "can_run c k1"
    "tcbs k1 = (tcbs k)(c := waiting_tcb e (wait_value w clr all) n k (tcbs k c))" "event_groups k1 = event_groups k"
    "group_frame k k1" "xTickCount k1 = xTickCount k" "pendsv k1"
    by (rule wait_bits_blocks [OF assms(1-3,5-7,9)])
  let ?k1 = "k1\<lparr>pxCurrentTCB := Some d\<rparr>" and ?B = "ebits k e OR s"
  have c1: "can_run d ?k1" using b(2) by (rule can_run_other)
  have wk: "set_wakes e s ?k1 c"
    using assms(10) by (simp add: set_wakes_def b(3,4) wait_value_parts(1) [OF assms(5)])
  have sb: "s AND eventEVENT_BITS_CONTROL_BYTES = 0" using assms(8) by (simp add: flags_only_def)
  obtain k2 where q: "xEventGroupSetBits e s ?k1 = Some k2" "can_run d k2" "tcbs k2 = after_set e s ?k1" "group_frame ?k1 k2"
    "event_groups k2 = (event_groups ?k1)(e := (event_groups ?k1 e)\<lparr>uxEventBits := new_bits e s ?k1\<rparr>)"
    "xTickCount k2 = xTickCount ?k1" "xSchedulerRunning k2 = xSchedulerRunning ?k1"
    "(\<exists>t. set_wakes e s ?k1 t \<and> prio ?k1 d < prio ?k1 t) \<longrightarrow> pendsv k2"
    by (rule xEventGroupSetBits_spec [OF c1 sb])
  have t2: "tcbs k2 c = flagged (?B OR eventUNBLOCKED_DUE_TO_BIT_SET) (tcbs k1 c)"
    using wk b(4) by (simp add: q(3) after_set_def)
  have p1: "prio ?k1 t = prio k t" for t by (simp add: b(3))
  have ev: "event_value (tcbs (k2\<lparr>pxCurrentTCB := Some c\<rparr>) c) = wake_value ?B" by (simp add: t2 wake_value_def)
  have fl: "flags_only ?B" by (rule flags_only_simps(1) [OF assms(4,8)])
  have "ebits k2 e AND w = 0" if clr
    using woken_bits_cleared [OF can_run_parts(1) [OF c1] wk, of w] that
    by (simp add: q(5) b(3) wait_value_parts(2) [OF assms(5)])
  moreover have "prio k d < prio k c \<longrightarrow> pendsv k2" using q(8) wk p1 by auto
  moreover have "prio k2 c = prio k c" by (simp add: t2 b(3))
  ultimately show thesis
    using that [OF b(1,3,6) q(1,2)] t2 wait_bits_exit(1) [OF _ ev fl] by (simp add: b(3))
qed

lemma wait_value_not_woken: "flags_only w \<Longrightarrow> wait_value w clr all AND eventUNBLOCKED_DUE_TO_BIT_SET = 0"
proof -
  assume w: "flags_only w"
  have "w AND eventUNBLOCKED_DUE_TO_BIT_SET = (w AND NOT eventEVENT_BITS_CONTROL_BYTES) AND eventUNBLOCKED_DUE_TO_BIT_SET"
    by (simp only: flags_only_bits [OF w])
  then have "w AND eventUNBLOCKED_DUE_TO_BIT_SET = 0" by (simp add: and.assoc event_consts)
  then show ?thesis by (simp add: wait_value_def bit.conj_disj_distrib2) (simp add: event_consts)
qed

text \<open>A wait that ends without the flags returns the flags of that moment.\<close>

lemma wait_bits_timeout:
  assumes "pxCurrentTCB k = Some c" "event_value (tcbs k c) = wait_value w clr all" "flags_only w" "flags_only (ebits k e)"
    "\<not> prvTestWaitCondition (ebits k e) w all"
  obtains k' where "xEventGroupWaitBits_exit e w clr all k = Some (ebits k e, k')" "event_groups k' = event_groups k"
  using assms(1,2,5) wait_value_not_woken [OF assms(3)] flags_only_bits [OF assms(4)]
  by (simp add: xEventGroupWaitBits_exit_def uxTaskResetEventItemValue_def)

lemma bit_cleared_by: "bit (cleared_by vs) i \<longleftrightarrow> (\<exists>v\<in>set vs. bit (item_clears v) i)"
  by (induction vs) (auto simp: cleared_by_def bit_simps)

lemma bit_new_bits:
  assumes "sched_inv k" "i < 32"
  shows "bit (new_bits e s k) i \<longleftrightarrow>
    bit (ebits k e OR s) i \<and> \<not> (\<exists>t. set_wakes e s k t \<and> bit (item_clears (event_value (tcbs k t))) i)"
proof -
  have "set_wakes e s k t \<Longrightarrow> t \<in> set (members k (WaitingForBits e))" for t
    using event_member [OF sched_inv_parts(3) [OF assms(1)], of "WaitingForBits e" t] by (simp add: set_wakes_def)
  then show ?thesis using assms(2) by (auto simp: new_bits_def bit_simps bit_cleared_by)
qed

lemma waiters_after_set:
  assumes "sched_inv k" "sched_inv k'" "tcbs k' = after_set e s k"
  shows "set (members k' (WaitingForBits e)) = {t \<in> set (members k (WaitingForBits e)). \<not> set_wakes e s k t}"
  using event_member [OF sched_inv_parts(3) [OF assms(1)], of "WaitingForBits e"]
    event_member [OF sched_inv_parts(3) [OF assms(2)], of "WaitingForBits e"]
  by (auto simp: assms(3) after_set_def split: if_splits)

section \<open>Rendezvous\<close>

lemma nested_set:
  assumes "sched_inv k" "uxSchedulerSuspended k = 1" "pxCurrentTCB k = Some c" "flags_only s"
  obtains k' where "xEventGroupSetBits e s k = Some k'" "sched_inv k'"
    "same_clock k (k'\<lparr>xYieldPending := xYieldPending k\<rparr>)" "tcbs k' = after_set e s k" "group_frame k k'"
    "event_groups k' = (event_groups k)(e := (event_groups k e)\<lparr>uxEventBits := new_bits e s k\<rparr>)"
    "(\<exists>t. set_wakes e s k t \<and> prio k c < prio k t) \<longrightarrow> xYieldPending k'"
proof -
  let ?k0 = "vTaskSuspendAll k"
  have k0: "sched_inv ?k0" "uxSchedulerSuspended ?k0 \<noteq> 0" "pxCurrentTCB ?k0 = Some c" using assms by simp_all
  obtain k1 where b: "set_bits_body e s ?k0 = Some k1" "sched_inv k1"
    "same_clock ?k0 (k1\<lparr>xYieldPending := xYieldPending ?k0\<rparr>)" "tcbs k1 = after_set e s ?k0" "group_frame ?k0 k1"
    "event_groups k1 = (event_groups ?k0)(e := (event_groups ?k0 e)\<lparr>uxEventBits := new_bits e s ?k0\<rparr>)"
    "xYieldPending k1 \<longleftrightarrow> xYieldPending ?k0 \<or> (\<exists>t. set_wakes e s ?k0 t \<and> prio ?k0 c < prio ?k0 t)"
    by (rule set_bits_body_spec [OF k0])
  let ?k' = "k1\<lparr>uxSchedulerSuspended := 1\<rparr>"
  have "uxSchedulerSuspended k1 = 2" using b(3) assms(2) by (simp add: same_clock_def)
  then have "xTaskResumeAll k1 = Some (False, ?k')" by (simp add: xTaskResumeAll_def configASSERT_def Let_def)
  then have "xEventGroupSetBits e s k = Some ?k'"
    using assms(4) b(1) by (simp add: xEventGroupSetBits_body flags_only_def)
  then show thesis
  proof (rule that)
    show "same_clock k (?k'\<lparr>xYieldPending := xYieldPending k\<rparr>)" using b(3) assms(2) by (simp add: same_clock_def vTaskSuspendAll_def)
    show "group_frame k ?k'" using b(5) by (simp add: group_frame_def vTaskSuspendAll_def)
  qed (use b in simp_all)
qed

definition sync_group :: "nat \<Rightarrow> u32 \<Rightarrow> 'z ekernel_scheme \<Rightarrow> bool" where
  "sync_group e W k \<longleftrightarrow> flags_only (ebits k e) \<and>
     (\<forall>t. event_list (tcbs k t) = Some (WaitingForBits e) \<longrightarrow> event_value (tcbs k t) = wait_value W True True)"

lemma sync_woken:
  assumes "sync_group e W k" "flags_only W"
  shows "set_wakes e s k t \<longleftrightarrow> event_list (tcbs k t) = Some (WaitingForBits e) \<and> (ebits k e OR s) AND W = W"
  using assms(1) wait_value_parts(1) [OF assms(2), of "ebits k e OR s" True True]
  by (auto simp: set_wakes_def sync_group_def prvTestWaitCondition_def)

lemma sync_blocks:
  assumes "can_run c k" "state_list (tcbs k c) = Some l" "event_list (tcbs k c) = None" "sync_group e W k" "flags_only W" "W \<noteq> 0"
    "flags_only s" "(ebits k e OR s) AND W \<noteq> W" "n \<noteq> 0"
  obtains k' where "xEventGroupSync_enter e s W n k = Some (None, k')" "can_run c k'" "pendsv k'"
    "tcbs k' = (tcbs k)(c := waiting_tcb e (wait_value W True True) n k (tcbs k c))" "ebits k' e = ebits k e OR s"
    "xTickCount k' = xTickCount k"
proof -
  note r = can_run_parts [OF assms(1)]
  let ?k0 = "vTaskSuspendAll k"
  let ?v = "(W OR eventCLEAR_EVENTS_ON_EXIT_BIT) OR eventWAIT_FOR_ALL_BITS"
  have k0: "sched_inv ?k0" "uxSchedulerSuspended ?k0 = 1" "pxCurrentTCB ?k0 = Some c" using r by simp_all
  obtain k1 where q: "xEventGroupSetBits e s ?k0 = Some k1" "sched_inv k1"
    "same_clock ?k0 (k1\<lparr>xYieldPending := xYieldPending ?k0\<rparr>)" "tcbs k1 = after_set e s ?k0" "group_frame ?k0 k1"
    "event_groups k1 = (event_groups ?k0)(e := (event_groups ?k0 e)\<lparr>uxEventBits := new_bits e s ?k0\<rparr>)"
    "(\<exists>t. set_wakes e s ?k0 t \<and> prio ?k0 c < prio ?k0 t) \<longrightarrow> xYieldPending k1"
    by (rule nested_set [OF k0 assms(7)])
  have nw: "\<not> set_wakes e s k t" for t using sync_woken [OF assms(4,5)] assms(8) by simp
  then have t1: "tcbs k1 = tcbs k" and b1: "ebits k1 e = ebits k e OR s"
    using q(4,6) by (simp_all add: after_set_def new_bits_def fun_eq_iff cleared_by_def)
  have f1: "uxSchedulerSuspended k1 = 1" "xPendedTicks k1 = 0" "pxCurrentTCB k1 = Some c" "uxCurrentNumberOfTasks k1 > 0"
    "state_list (tcbs k1 c) = Some l" "event_list (tcbs k1 c) = None" "xTickCount k1 = xTickCount k"
    "pxDelayedTaskList k1 = pxDelayedTaskList k" "pxOverflowDelayedTaskList k1 = pxOverflowDelayedTaskList k"
    using q(3) r assms(2,3) by (simp_all add: same_clock_def t1)
  have np: "\<not> pending k1 t" for t using r(7) by (simp add: pending_def t1)
  obtain k2 y k' where p: "vTaskPlaceOnUnorderedEventList (WaitingForBits e) ?v n k1 = Some k2" "xTaskResumeAll k2 = Some (y, k')"
    "can_run c k'" "tcbs k' = (tcbs k1)(c := waiting_tcb e (?v OR taskEVENT_LIST_ITEM_VALUE_IN_USE) n k1 (tcbs k1 c))"
    "event_groups k' = event_groups k1" "group_frame k1 k'" "xTickCount k' = xTickCount k1"
    "xSchedulerRunning k' = xSchedulerRunning k1" "y \<longrightarrow> pendsv k'"
    by (rule wait_and_resume [OF q(2) f1(1,2) np f1(3-6) assms(9)])
  have "xEventGroupSync_enter e s W n k = Some (None, if y then k' else portYIELD k')"
    using assms(5,6,8,9) r(5) q(1) p(1,2)
    by (simp add: xEventGroupSync_enter_def configASSERT_def not_suspended_may_wait flags_only_def Let_def)
  moreover have "waiting_tcb e v n k1 = waiting_tcb e v n k" for v by (simp add: waiting_tcb_def parked_def fun_eq_iff f1)
  ultimately show thesis
    using p b1 t1 f1 by (intro that [of "if y then k' else portYIELD k'"]) (simp_all add: wait_value_def or.assoc)
qed

lemma sync_completes:
  assumes "can_run c k" "event_list (tcbs k c) = None" "sync_group e W k" "flags_only W" "W \<noteq> 0"
    "flags_only s" "(ebits k e OR s) AND W = W"
  obtains k' where "xEventGroupSync_enter e s W n k = Some (Some (ebits k e OR s), k')" "can_run c k'"
    "tcbs k' = after_set e s k" "ebits k' e = (ebits k e OR s) AND NOT W"
    "(\<exists>t. set_wakes e s k t \<and> prio k c < prio k t) \<longrightarrow> pendsv k'"
proof -
  note r = can_run_parts [OF assms(1)]
  let ?k0 = "vTaskSuspendAll k"
  have k0: "sched_inv ?k0" "uxSchedulerSuspended ?k0 = 1" "pxCurrentTCB ?k0 = Some c" using r by simp_all
  obtain k1 where q: "xEventGroupSetBits e s ?k0 = Some k1" "sched_inv k1"
    "same_clock ?k0 (k1\<lparr>xYieldPending := xYieldPending ?k0\<rparr>)" "tcbs k1 = after_set e s ?k0" "group_frame ?k0 k1"
    "event_groups k1 = (event_groups ?k0)(e := (event_groups ?k0 e)\<lparr>uxEventBits := new_bits e s ?k0\<rparr>)"
    "(\<exists>t. set_wakes e s ?k0 t \<and> prio ?k0 c < prio ?k0 t) \<longrightarrow> xYieldPending k1"
    by (rule nested_set [OF k0 assms(6)])
  let ?k1 = "set_group_bits e (ebits k1 e AND NOT W) k1"
  have f1: "sched_inv ?k1" "uxSchedulerSuspended ?k1 = 1" "xPendedTicks ?k1 = 0" "pxCurrentTCB ?k1 = Some c"
    "uxCurrentNumberOfTasks ?k1 > 0" "tcbs ?k1 = after_set e s k" "xYieldPending ?k1 = xYieldPending k1"
    using q(2,3,4) r by (simp_all add: same_clock_def set_group_bits_def)
  have np: "\<not> pending ?k1 t" for t by (rule not_pending_after_set [OF r(7) f1(6)])
  obtain y k' where z: "xTaskResumeAll ?k1 = Some (y, k')" "sched_inv k'" "quiet k'" "tcbs k' = tcbs ?k1"
    "pxCurrentTCB k' = Some c" "xTickCount k' = xTickCount ?k1" "kernel.more k' = kernel.more ?k1"
    "uxCurrentNumberOfTasks k' = uxCurrentNumberOfTasks ?k1" "xSchedulerRunning k' = xSchedulerRunning ?k1"
    "y \<longrightarrow> pendsv k'" "xYieldPending ?k1 \<longrightarrow> y"
    by (rule resume_quiet [OF f1(1-3) np f1(4,5)])
  have "xEventGroupSync_enter e s W n k = Some (Some (ebits k e OR s), k')"
    using assms(4,5,7) r(5) q(1) z(1)
    by (simp add: xEventGroupSync_enter_def configASSERT_def not_suspended_may_wait flags_only_def Let_def)
  moreover have "new_bits e s k AND NOT W = (ebits k e OR s) AND NOT W"
  proof (rule bit_word_eqI)
    fix i :: nat
    assume i: "i < LENGTH(32)"
    have "bit (item_clears (event_value (tcbs k t))) i \<longrightarrow> bit W i" if "set_wakes e s k t" for t
      using that assms(3) wait_value_parts(2) [OF assms(4), of True True] by (simp add: set_wakes_def sync_group_def)
    then show "bit (new_bits e s k AND NOT W) i = bit ((ebits k e OR s) AND NOT W) i"
      using i bit_new_bits [OF r(1), of i] by (auto simp: bit_simps)
  qed
  ultimately show thesis
    using z f1 q(6,7) groups_more [OF z(7)]
    by (intro that [of k']) (auto simp: can_run_def set_group_bits_def)
qed

section \<open>Deleting a group\<close>

lemma delete_loop_spec:
  assumes "sched_inv k" "uxSchedulerSuspended k \<noteq> 0" "pxCurrentTCB k = Some c"
  shows "\<exists>k'. delete_loop e k = Some k' \<and> sched_inv k' \<and> same_clock k (k'\<lparr>xYieldPending := xYieldPending k\<rparr>) \<and>
    kernel.more k' = kernel.more k \<and> members k' (WaitingForBits e) = [] \<and>
    tcbs k' = (\<lambda>t. if event_list (tcbs k t) = Some (WaitingForBits e)
       then flagged eventUNBLOCKED_DUE_TO_BIT_SET (tcbs k t) else tcbs k t)"
  using assms
proof (induction "length (members k (WaitingForBits e))" arbitrary: k)
  case 0
  then have m: "members k (WaitingForBits e) = []" by simp
  then have "event_list (tcbs k t) \<noteq> Some (WaitingForBits e)" for t
    using event_member [OF sched_inv_parts(3) [OF 0(2)], of "WaitingForBits e" t] by simp
  with m 0(2) show ?case by (subst delete_loop.simps) (simp add: same_clock_def)
next
  case (Suc m)
  let ?E = "WaitingForBits e"
  obtain t ts where ts: "members k ?E = t # ts" using Suc(2) by (cases "members k ?E") auto
  have ev: "event_list (tcbs k t) = Some ?E" using event_member [OF sched_inv_parts(3) [OF Suc(3)], of ?E t] ts by simp
  obtain k1 where w: "vTaskRemoveFromUnorderedEventList t eventUNBLOCKED_DUE_TO_BIT_SET k = Some k1" "sched_inv k1"
    "tcbs k1 = (tcbs k)(t := flagged eventUNBLOCKED_DUE_TO_BIT_SET (tcbs k t))" "kernel.more k1 = kernel.more k"
    "same_clock k (k1\<lparr>xYieldPending := xYieldPending k\<rparr>)" "xYieldPending k1 \<longleftrightarrow> xYieldPending k \<or> prio k c < prio k t"
    "members k1 ?E = remove1 t (members k ?E)"
    "\<And>l'. is_event_list l' \<Longrightarrow> l' \<noteq> ?E \<Longrightarrow> task_lists k1 l' = task_lists k l'"
    by (rule unordered_wake [OF Suc(3-5) ev], rule that)
  have "m = length (members k1 ?E)" "uxSchedulerSuspended k1 \<noteq> 0" "pxCurrentTCB k1 = Some c"
    using Suc(2,4,5) w(5,7) ts by (simp_all add: same_clock_def)
  from Suc(1) [OF this(1) w(2) this(2,3)] obtain k' where k': "delete_loop e k1 = Some k'" "sched_inv k'"
    "same_clock k1 (k'\<lparr>xYieldPending := xYieldPending k1\<rparr>)" "kernel.more k' = kernel.more k1" "members k' ?E = []"
    "tcbs k' = (\<lambda>t. if event_list (tcbs k1 t) = Some ?E then flagged eventUNBLOCKED_DUE_TO_BIT_SET (tcbs k1 t) else tcbs k1 t)"
    by blast
  have "delete_loop e k = Some k'" using w(1) k'(1) by (subst delete_loop.simps) (simp add: ts)
  moreover have "tcbs k' = (\<lambda>t. if event_list (tcbs k t) = Some ?E then flagged eventUNBLOCKED_DUE_TO_BIT_SET (tcbs k t) else tcbs k t)"
    unfolding k'(6) using ev by (auto simp: w(3) fun_eq_iff)
  ultimately show ?case using k'(2-5) w(4,5) by (auto simp: same_clock_def)
qed

section \<open>Properties\<close>

text \<open>
  C22. Setting flags, which the code does in one walk along the list of waiting tasks from which it unlinks
  tasks as it goes, has the effect of the definition without a walk. Exactly the tasks whose condition the
  old and the new flags satisfy become ready, each with these flags in the value of its item; every other task is left
  as it was and goes on waiting. A flag is set afterwards when it was set or is new and none of the woken
  tasks asked to clear it. A context switch is pending when a woken task has a higher priority than the caller.
\<close>

theorem xEventGroupSetBits_wakes:
  assumes "can_run c k" "s AND eventEVENT_BITS_CONTROL_BYTES = 0"
  shows "\<exists>k'. xEventGroupSetBits e s k = Some k' \<and> can_run c k' \<and>
    (\<forall>t. tcbs k' t = (if set_wakes e s k t
       then (tcbs k t)\<lparr>event_value := wake_value (ebits k e OR s), event_list := None, state_list := Some (Ready (prio k t))\<rparr>
       else tcbs k t)) \<and>
    set (members k' (WaitingForBits e)) = {t \<in> set (members k (WaitingForBits e)). \<not> set_wakes e s k t} \<and>
    (\<forall>i<32. bit (ebits k' e) i \<longleftrightarrow>
      bit (ebits k e OR s) i \<and> \<not> (\<exists>t. set_wakes e s k t \<and> bit (item_clears (event_value (tcbs k t))) i)) \<and>
    (\<forall>g. g \<noteq> e \<longrightarrow> event_groups k' g = event_groups k g) \<and>
    ((\<exists>t. set_wakes e s k t \<and> prio k c < prio k t) \<longrightarrow> pendsv k')"
proof -
  obtain k' where q: "xEventGroupSetBits e s k = Some k'" "can_run c k'" "tcbs k' = after_set e s k" "group_frame k k'"
    "event_groups k' = (event_groups k)(e := (event_groups k e)\<lparr>uxEventBits := new_bits e s k\<rparr>)"
    "xTickCount k' = xTickCount k" "xSchedulerRunning k' = xSchedulerRunning k"
    "(\<exists>t. set_wakes e s k t \<and> prio k c < prio k t) \<longrightarrow> pendsv k'"
    by (rule xEventGroupSetBits_spec [OF assms])
  note i = can_run_parts(1) [OF assms(1)] can_run_parts(1) [OF q(2)]
  have "tcbs k' t = (if set_wakes e s k t
       then (tcbs k t)\<lparr>event_value := wake_value (ebits k e OR s), event_list := None, state_list := Some (Ready (prio k t))\<rparr>
       else tcbs k t)" for t
    by (simp add: q(3) after_set_def flagged_def wake_tcb_def wake_value_def)
  then show ?thesis
    using q(1,2,5,8) waiters_after_set [OF i q(3)] bit_new_bits [OF i(1)] by auto
qed

text \<open>
  C23. Flags are not lost on a task that waits for them. A task whose condition does not hold yet is blocked, for
  exactly the time it gave or without limit. When another task sets the missing flags it becomes
  ready at once, a switch is pending if it has the higher priority, its call returns all the flags that were set at that moment, also when
  they have been cleared again since, and the flags it waited for are cleared exactly if it asked for it. When
  the time runs out first its call returns the flags as they are. A task whose condition holds already does not block.
\<close>

theorem event_bits_not_lost:
  assumes "can_run c k" "state_list (tcbs k c) = Some l" "event_list (tcbs k c) = None" "flags_only (ebits k e)"
    "flags_only w" "w \<noteq> 0" "n \<noteq> 0" "flags_only s" "d \<noteq> c" "prvTestWaitCondition (ebits k e OR s) w all"
  shows "(\<not> prvTestWaitCondition (ebits k e) w all \<longrightarrow>
      (\<exists>k1 k2 k3 k4. xEventGroupWaitBits_enter e w clr all n k = Some (None, k1) \<and>
        (if n = portMAX_DELAY then state_list (tcbs k1 c) = Some SuspendedTaskList
         else blocked k1 c \<and> remaining k1 c = unat n) \<and>
        xEventGroupSetBits e s (k1\<lparr>pxCurrentTCB := Some d\<rparr>) = Some k2 \<and> can_run d k2 \<and>
        state_list (tcbs k2 c) = Some (Ready (prio k c)) \<and> (prio k d < prio k c \<longrightarrow> pendsv k2) \<and>
        (clr \<longrightarrow> ebits k2 e AND w = 0) \<and>
        xEventGroupWaitBits_exit e w clr all (k2\<lparr>pxCurrentTCB := Some c\<rparr>) = Some (ebits k e OR s, k3) \<and>
        xEventGroupWaitBits_exit e w clr all k1 = Some (ebits k e, k4))) \<and>
    (prvTestWaitCondition (ebits k e) w all \<longrightarrow>
      (\<exists>k1. xEventGroupWaitBits_enter e w clr all n k = Some (Some (ebits k e), k1) \<and> can_run c k1 \<and> tcbs k1 = tcbs k \<and>
        ebits k1 e = (if clr then ebits k e AND NOT w else ebits k e)))"
proof (intro conjI impI, goal_cases)
  case 1
  obtain k1 k2 k3 where w: "xEventGroupWaitBits_enter e w clr all n k = Some (None, k1)"
    "tcbs k1 = (tcbs k)(c := waiting_tcb e (wait_value w clr all) n k (tcbs k c))" "xTickCount k1 = xTickCount k"
    "xEventGroupSetBits e s (k1\<lparr>pxCurrentTCB := Some d\<rparr>) = Some k2" "can_run d k2"
    "state_list (tcbs k2 c) = Some (Ready (prio k c))" "event_list (tcbs k2 c) = None"
    "prio k d < prio k c \<longrightarrow> pendsv k2" "clr \<longrightarrow> ebits k2 e AND w = 0"
    "xEventGroupWaitBits_exit e w clr all (k2\<lparr>pxCurrentTCB := Some c\<rparr>) = Some (ebits k e OR s, k3)"
    "event_groups k3 = event_groups k2"
    "tcbs k3 = (tcbs k2)(c := (tcbs k2 c)\<lparr>event_value := configMAX_PRIORITIES - prio k c\<rparr>)"
    by (rule wait_then_set [OF assms(1-8) 1 assms(10,9)])
  obtain k1' where b: "xEventGroupWaitBits_enter e w clr all n k = Some (None, k1')" "can_run c k1'" "event_groups k1' = event_groups k"
    by (rule wait_bits_blocks [OF assms(1-3,5-7) 1]) blast
  then have k1: "can_run c k1" "event_groups k1 = event_groups k" using w(1) by simp_all
  obtain k4 where "xEventGroupWaitBits_exit e w clr all k1 = Some (ebits k1 e, k4)"
    by (rule wait_bits_timeout [OF can_run_parts(3) [OF k1(1)], of w clr all e]) (use w(2) k1(2) assms(4,5) 1 in auto)
  moreover have "if n = portMAX_DELAY then state_list (tcbs k1 c) = Some SuspendedTaskList else blocked k1 c \<and> remaining k1 c = unat n"
    using delayed_lists_distinct [OF sched_inv_parts(4) [OF can_run_parts(1) [OF assms(1)]]]
    by (auto simp: blocked_def remaining_def w(2,3) waiting_tcb_def parked_def)
  ultimately show ?case
    using w(1,4-6,8-10)
    by (rule_tac exI [of _ k1], rule_tac exI [of _ k2], rule_tac exI [of _ k3], rule_tac exI [of _ k4]) (simp add: k1(2))
next
  case 2
  then have "prvTestWaitCondition (ebits k e) w all \<or> n = 0" by simp
  then obtain k' where "xEventGroupWaitBits_enter e w clr all n k = Some (Some (ebits k e), k')" "can_run c k'" "tcbs k' = tcbs k"
    "event_groups k' = (event_groups k)(e := (event_groups k e)\<lparr>uxEventBits :=
       (if prvTestWaitCondition (ebits k e) w all \<and> clr then ebits k e AND NOT w else ebits k e)\<rparr>)"
    by (rule wait_bits_now [OF assms(1,5,6)])
  with 2 show ?case by simp
qed

text \<open>
  Tasks meet at \<open>xEventGroupSync\<close>. A task that arrives while flags of the set \<open>W\<close> are missing sets its own, wakes nobody
  and is blocked with the tasks that came before it. The task that brings the last flag does not block;
  every task that waits becomes ready, all the calls return the same flags, which contain \<open>W\<close>, and \<open>W\<close> is cleared for the
  next round, in which nobody waits.
\<close>

theorem xEventGroupSync_rendezvous:
  assumes "can_run c k" "state_list (tcbs k c) = Some l" "event_list (tcbs k c) = None" "sync_group e W k"
    "flags_only W" "W \<noteq> 0" "flags_only s" "n \<noteq> 0"
  shows "((ebits k e OR s) AND W \<noteq> W \<longrightarrow>
      (\<exists>k'. xEventGroupSync_enter e s W n k = Some (None, k') \<and> can_run c k' \<and> pendsv k' \<and> sync_group e W k' \<and>
        ebits k' e = ebits k e OR s \<and> set (members k' (WaitingForBits e)) = insert c (set (members k (WaitingForBits e))))) \<and>
    ((ebits k e OR s) AND W = W \<longrightarrow>
      (\<exists>k'. xEventGroupSync_enter e s W n k = Some (Some (ebits k e OR s), k') \<and> can_run c k' \<and> sync_group e W k' \<and>
        ebits k' e = (ebits k e OR s) AND NOT W \<and> members k' (WaitingForBits e) = [] \<and>
        (\<forall>t\<in>set (members k (WaitingForBits e)). state_list (tcbs k' t) = Some (Ready (prio k t)) \<and>
          (prio k c < prio k t \<longrightarrow> pendsv k') \<and>
          (\<exists>k''. xEventGroupSync_exit e W (k'\<lparr>pxCurrentTCB := Some t\<rparr>) = Some (ebits k e OR s, k'')))))"
proof (intro conjI impI, goal_cases)
  case 1
  let ?E = "WaitingForBits e"
  obtain k' where b: "xEventGroupSync_enter e s W n k = Some (None, k')" "can_run c k'" "pendsv k'"
    "tcbs k' = (tcbs k)(c := waiting_tcb e (wait_value W True True) n k (tcbs k c))" "ebits k' e = ebits k e OR s"
    "xTickCount k' = xTickCount k"
    by (rule sync_blocks [OF assms(1-7) 1 assms(8)])
  have "sync_group e W k'"
    using assms(4) flags_only_simps(1) [OF _ assms(7)] by (simp add: sync_group_def b(4,5))
  moreover have "set (members k' ?E) = insert c (set (members k ?E))"
    using event_member [OF sched_inv_parts(3) [OF can_run_parts(1) [OF assms(1)]], of ?E]
      event_member [OF sched_inv_parts(3) [OF can_run_parts(1) [OF b(2)]], of ?E] assms(3)
    by (auto simp: b(4) split: if_splits)
  ultimately show ?case using b by auto
next
  case 2
  let ?E = "WaitingForBits e" and ?B = "ebits k e OR s"
  obtain k' where b: "xEventGroupSync_enter e s W n k = Some (Some ?B, k')" "can_run c k'"
    "tcbs k' = after_set e s k" "ebits k' e = ?B AND NOT W" "(\<exists>t. set_wakes e s k t \<and> prio k c < prio k t) \<longrightarrow> pendsv k'"
    by (rule sync_completes [OF assms(1,3-7) 2])
  note i = can_run_parts(1) [OF assms(1)] can_run_parts(1) [OF b(2)]
  have w: "set_wakes e s k t \<longleftrightarrow> t \<in> set (members k ?E)" for t
    using sync_woken [OF assms(4,5), of s t] 2 event_member [OF sched_inv_parts(3) [OF i(1)], of ?E t] by simp
  have "members k' ?E = []" using waiters_after_set [OF i b(3)] w by (simp flip: set_empty)
  moreover have fl: "flags_only ?B" using assms(4,7) flags_only_simps(1) by (auto simp: sync_group_def)
  moreover have "sync_group e W k'"
    using event_member [OF sched_inv_parts(3) [OF i(2)], of ?E] calculation flags_only_simps(2) [OF fl]
    by (simp add: sync_group_def b(4))
  moreover have "\<exists>k''. xEventGroupSync_exit e W (k'\<lparr>pxCurrentTCB := Some t\<rparr>) = Some (?B, k'')" if "t \<in> set (members k ?E)" for t
    using wait_bits_exit(2) [of "k'\<lparr>pxCurrentTCB := Some t\<rparr>" t ?B e W] that fl
    by (simp add: b(3) after_set_def w wake_value_def)
  ultimately show ?case using b w by (auto simp: after_set_def)
qed

section \<open>A concrete kernel\<close>

definition demo_ekernel :: ekernel where
  "demo_ekernel = kernel.extend (demo_kernel 0 None)
     \<lparr>queues = (\<lambda>_. demo_ring 0 [0, 0] 0 2 1 (-1)), xQueueRegistry = replicate 8 (None, None),
      event_groups = (\<lambda>_. \<lparr>uxEventBits = 4, uxEventGroupNumber = 0\<rparr>)\<rparr>"

lemma demo_ekernel_run: "can_run 1 demo_ekernel"
  using demo_sched_inv [of None 0] demo_quiet by (simp add: can_run_def demo_ekernel_def demo_kernel_fields)

lemma demo_ekernel_fields:
  "state_list (tcbs demo_ekernel 1) = Some (Ready 5)" "event_list (tcbs demo_ekernel 1) = None" "prio demo_ekernel 1 = 5"
  "prio demo_ekernel 0 = 0" "ebits demo_ekernel e = 4" "event_list (tcbs demo_ekernel t) \<noteq> Some (WaitingForBits e)"
  "state_list (tcbs demo_ekernel 0) = Some (Ready 0)" "event_list (tcbs demo_ekernel 0) = None"
  by (simp_all add: demo_ekernel_def demo_defs) (simp add: kernel.defs)

lemma demo_flags: "flags_only 1" "flags_only 2" "flags_only 3" "flags_only 4"
  by (simp_all add: flags_only_def event_consts)

text \<open>Task 1 waits for flag 0, the idle task sets it.\<close>

theorem xEventGroupSetBits_wakes_witness:
  "\<exists>k1 k2. xEventGroupWaitBits_enter 0 1 True False 9 demo_ekernel = Some (None, k1) \<and>
    xEventGroupSetBits 0 1 (k1\<lparr>pxCurrentTCB := Some 0\<rparr>) = Some k2 \<and> state_list (tcbs k2 1) = Some (Ready 5) \<and> pendsv k2"
proof -
  let ?k = demo_ekernel
  have z: "(1 :: u32) \<noteq> 0" "(9 :: u32) \<noteq> 0" by simp_all
  have nt: "\<not> prvTestWaitCondition (ebits ?k 0) 1 False" by (simp add: demo_ekernel_fields prvTestWaitCondition_def)
  obtain k1 where b: "xEventGroupWaitBits_enter 0 1 True False 9 ?k = Some (None, k1)" "can_run 1 k1"
    "tcbs k1 = (tcbs ?k)(1 := waiting_tcb 0 (wait_value 1 True False) 9 ?k (tcbs ?k 1))" "event_groups k1 = event_groups ?k"
    "group_frame ?k k1" "xTickCount k1 = xTickCount ?k" "pendsv k1"
    by (rule wait_bits_blocks [OF demo_ekernel_run demo_ekernel_fields(1,2) demo_flags(1) z nt])
  let ?k1 = "k1\<lparr>pxCurrentTCB := Some 0\<rparr>"
  have "set_wakes 0 1 ?k1 1"
    by (simp add: set_wakes_def b(3,4) wait_value_parts(1) [OF demo_flags(1)] prvTestWaitCondition_def demo_ekernel_fields del: One_nat_def)
  then show ?thesis
    using b(1) xEventGroupSetBits_wakes [OF can_run_other [OF b(2), of 0], of 1 0] demo_flags(1)
    by (auto simp: flags_only_def b(3) demo_ekernel_fields simp del: One_nat_def)
qed

theorem event_bits_not_lost_witness:
  "\<exists>k1 k2 k3. xEventGroupWaitBits_enter 0 3 True True 9 demo_ekernel = Some (None, k1) \<and> remaining k1 1 = 9 \<and>
    xEventGroupSetBits 0 3 (k1\<lparr>pxCurrentTCB := Some 0\<rparr>) = Some k2 \<and> ebits k2 0 AND 3 = 0 \<and>
    xEventGroupWaitBits_exit 0 3 True True (k2\<lparr>pxCurrentTCB := Some 1\<rparr>) = Some (7, k3)"
proof -
  let ?k = demo_ekernel
  have "flags_only (ebits ?k 0)" "prvTestWaitCondition (ebits ?k 0 OR 3) 3 True" "\<not> prvTestWaitCondition (ebits ?k 0) 3 True"
    by (simp_all add: demo_ekernel_fields prvTestWaitCondition_def demo_flags)
  then show ?thesis
    using event_bits_not_lost [OF demo_ekernel_run demo_ekernel_fields(1,2), of 0 3 9 3 0 True True] demo_flags(3)
    by (auto simp: demo_ekernel_fields portMAX_DELAY_def simp del: One_nat_def)
qed

theorem xEventGroupSync_rendezvous_witness:
  "\<exists>k1 k2 k3. xEventGroupSync_enter 0 1 3 9 demo_ekernel = Some (None, k1) \<and>
    xEventGroupSync_enter 0 2 3 9 (k1\<lparr>pxCurrentTCB := Some 0\<rparr>) = Some (Some 7, k2) \<and> ebits k2 0 = 4 \<and>
    xEventGroupSync_exit 0 3 (k2\<lparr>pxCurrentTCB := Some 1\<rparr>) = Some (7, k3)"
proof -
  let ?k = demo_ekernel
  have g: "sync_group 0 3 ?k" by (simp add: sync_group_def demo_ekernel_fields demo_flags)
  have z: "(3 :: u32) \<noteq> 0" "(9 :: u32) \<noteq> 0" by simp_all
  note first = xEventGroupSync_rendezvous [OF demo_ekernel_run demo_ekernel_fields(1,2) g demo_flags(3) z(1) demo_flags(1) z(2)]
  then obtain k1 where a: "xEventGroupSync_enter 0 1 3 9 ?k = Some (None, k1)" "can_run 1 k1" "sync_group 0 3 k1"
    "ebits k1 0 = 5" "1 \<in> set (members k1 (WaitingForBits 0))"
    by (auto simp: demo_ekernel_fields)
  obtain k1' where "xEventGroupSync_enter 0 1 3 9 ?k = Some (None, k1')" "can_run 1 k1'" "pendsv k1'"
    "tcbs k1' = (tcbs ?k)(1 := waiting_tcb 0 (wait_value 3 True True) 9 ?k (tcbs ?k 1))" "ebits k1' 0 = ebits ?k 0 OR 1"
    "xTickCount k1' = xTickCount ?k"
    by (rule sync_blocks [OF demo_ekernel_run demo_ekernel_fields(1,2) g demo_flags(3) z(1) demo_flags(1) _ z(2)])
      (simp_all add: demo_ekernel_fields)
  with a(1) have t: "tcbs k1 0 = tcbs ?k 0" by simp
  let ?k1 = "k1\<lparr>pxCurrentTCB := Some 0\<rparr>"
  have k1: "can_run 0 ?k1" "state_list (tcbs ?k1 0) = Some (Ready 0)" "event_list (tcbs ?k1 0) = None" "sync_group 0 3 ?k1"
    using can_run_other [OF a(2)] a(3) by (simp_all add: t demo_ekernel_fields sync_group_def)
  from xEventGroupSync_rendezvous [OF k1 demo_flags(3) z(1) demo_flags(2) z(2)] a(4,5)
  obtain k2 where "xEventGroupSync_enter 0 2 3 9 ?k1 = Some (Some 7, k2)" "ebits k2 0 = 4"
    "\<exists>k''. xEventGroupSync_exit 0 3 (k2\<lparr>pxCurrentTCB := Some 1\<rparr>) = Some (7, k'')" by auto
  with a(1) show ?thesis by blast
qed

end
