(* ===== verification/Kernel_Timers.thy ===== *)
theory Kernel_Timers
  imports Event_Groups
begin

text \<open>
  Software timers, \<open>FreeRTOS/timers.c\<close>, and the functions of \<open>event_groups.c\<close> that defer to the timer task.
  Active timers lie on two lists in the order of their expiry times, one for the current round of the tick counter and one for
  the next. The timer task processes expired timers, waits for the next one, and carries out the commands
  that other tasks and interrupts put into its queue.

  Timers are addresses; a message of the queue is the four words of \<open>DaemonTaskMessage_t\<close>. The functions
  that timers and pended calls run are code of the application: \<open>callback\<close> and \<open>pended\<close> stand for what a call
  through a function pointer does to the kernel. The field \<open>fired\<close> has no counterpart in the code: it records the calls of
  timer callbacks, the last one first.
\<close>

section \<open>State\<close>

datatype timer_list = ActiveTimerList1 | ActiveTimerList2

record Timer_t =
  pcTimerName :: string
  timer_value :: TickType_t                  \<comment> \<open>\<open>xTimerListItem.xItemValue\<close>\<close>
  timer_container :: "timer_list option"     \<comment> \<open>\<open>xTimerListItem.pxContainer\<close>\<close>
  xTimerPeriodInTicks :: TickType_t
  pvTimerID :: u32
  pxCallbackFunction :: u32
  uxTimerNumber :: UBaseType_t
  ucStatus :: u8

record timer_state =
  timers :: "u32 \<Rightarrow> Timer_t"
  active_lists :: "timer_list \<Rightarrow> u32 klist"
  pxCurrentTimerList :: timer_list
  pxOverflowTimerList :: timer_list
  xTimerQueue :: "nat option"
  xTimerTaskHandle :: "tid option"
  xLastTime :: TickType_t
  fired :: "u32 list"

record tkernel = ekernel +
  tm :: timer_state

definition tmrSTATUS_IS_ACTIVE :: u8 where "tmrSTATUS_IS_ACTIVE = 0x01"
definition tmrSTATUS_IS_STATICALLY_ALLOCATED :: u8 where "tmrSTATUS_IS_STATICALLY_ALLOCATED = 0x02"
definition tmrSTATUS_IS_AUTORELOAD :: u8 where "tmrSTATUS_IS_AUTORELOAD = 0x04"
definition tmrNO_DELAY :: TickType_t where "tmrNO_DELAY = 0"
definition tmrMAX_TIME_BEFORE_OVERFLOW :: TickType_t where "tmrMAX_TIME_BEFORE_OVERFLOW = -1"
definition configTIMER_QUEUE_LENGTH :: UBaseType_t where "configTIMER_QUEUE_LENGTH = 10"
definition configTIMER_TASK_PRIORITY :: UBaseType_t where "configTIMER_TASK_PRIORITY = 2"

text \<open>The commands, values of a signed type.\<close>

definition tmrCOMMAND_EXECUTE_CALLBACK_FROM_ISR :: u32 where "tmrCOMMAND_EXECUTE_CALLBACK_FROM_ISR = -2"
definition tmrCOMMAND_EXECUTE_CALLBACK :: u32 where "tmrCOMMAND_EXECUTE_CALLBACK = -1"
definition tmrCOMMAND_START :: u32 where "tmrCOMMAND_START = 1"
definition tmrCOMMAND_RESET :: u32 where "tmrCOMMAND_RESET = 2"
definition tmrCOMMAND_STOP :: u32 where "tmrCOMMAND_STOP = 3"
definition tmrCOMMAND_CHANGE_PERIOD :: u32 where "tmrCOMMAND_CHANGE_PERIOD = 4"
definition tmrCOMMAND_DELETE :: u32 where "tmrCOMMAND_DELETE = 5"
definition tmrFIRST_FROM_ISR_COMMAND :: u32 where "tmrFIRST_FROM_ISR_COMMAND = 6"
definition tmrCOMMAND_START_FROM_ISR :: u32 where "tmrCOMMAND_START_FROM_ISR = 6"
definition tmrCOMMAND_RESET_FROM_ISR :: u32 where "tmrCOMMAND_RESET_FROM_ISR = 7"
definition tmrCOMMAND_STOP_FROM_ISR :: u32 where "tmrCOMMAND_STOP_FROM_ISR = 8"
definition tmrCOMMAND_CHANGE_PERIOD_FROM_ISR :: u32 where "tmrCOMMAND_CHANGE_PERIOD_FROM_ISR = 9"

section \<open>The lists of active timers\<close>

definition upd_timer :: "u32 \<Rightarrow> (Timer_t \<Rightarrow> Timer_t) \<Rightarrow> timer_state \<Rightarrow> timer_state" where
  "upd_timer t f s = s\<lparr>timers := (timers s)(t := f (timers s t))\<rparr>"

definition upd_active :: "timer_list \<Rightarrow> (u32 klist \<Rightarrow> u32 klist) \<Rightarrow> timer_state \<Rightarrow> timer_state" where
  "upd_active l f s = s\<lparr>active_lists := (active_lists s)(l := f (active_lists s l))\<rparr>"

abbreviation actives :: "timer_state \<Rightarrow> timer_list \<Rightarrow> u32 list" where
  "actives s l \<equiv> kitems (active_lists s l)"

text \<open>\<open>vListInsert\<close> and \<open>uxListRemove\<close> on the item of a timer.\<close>

definition insert_timer :: "timer_list \<Rightarrow> u32 \<Rightarrow> timer_state \<Rightarrow> timer_state" where
  "insert_timer l t s = upd_timer t (\<lambda>b. b\<lparr>timer_container := Some l\<rparr>)
     (upd_active l (kl_insert (\<lambda>j. timer_value (timers s j)) t) s)"

definition remove_timer :: "u32 \<Rightarrow> timer_state \<Rightarrow> timer_state option" where
  "remove_timer t s = do {
     l \<leftarrow> timer_container (timers s t);
     Some (upd_timer t (\<lambda>b. b\<lparr>timer_container := None\<rparr>) (upd_active l (kl_remove t) s))
   }"

definition prvInsertTimerInActiveList ::
  "u32 \<Rightarrow> TickType_t \<Rightarrow> TickType_t \<Rightarrow> TickType_t \<Rightarrow> timer_state \<Rightarrow> bool \<times> timer_state" where
  "prvInsertTimerInActiveList pxTimer xNextExpiryTime xTimeNow xCommandTime s =
     (let s = upd_timer pxTimer (\<lambda>b. b\<lparr>timer_value := xNextExpiryTime\<rparr>) s
      in if xNextExpiryTime \<le> xTimeNow
         then (if xTimeNow - xCommandTime \<ge> xTimerPeriodInTicks (timers s pxTimer) then (True, s)
               else (False, insert_timer (pxOverflowTimerList s) pxTimer s))
         else (if xTimeNow < xCommandTime \<and> xNextExpiryTime \<ge> xCommandTime then (True, s)
               else (False, insert_timer (pxCurrentTimerList s) pxTimer s)))"

section \<open>Expired timers\<close>

definition upd_tm :: "(timer_state \<Rightarrow> timer_state) \<Rightarrow> 'z tkernel_scheme \<Rightarrow> 'z tkernel_scheme" where
  "upd_tm f k = k\<lparr>tm := f (tm k)\<rparr>"

type_synonym 'k callback = "u32 \<Rightarrow> u32 \<Rightarrow> 'k \<Rightarrow> 'k option"

definition call_timer :: "'z tkernel_scheme callback \<Rightarrow> u32 \<Rightarrow> 'z tkernel_scheme \<Rightarrow> 'z tkernel_scheme option" where
  "call_timer callback t k =
     callback (pxCallbackFunction (timers (tm k) t)) t (upd_tm (\<lambda>s. s\<lparr>fired := t # fired s\<rparr>) k)"

partial_function (option) prvReloadTimer ::
  "'z tkernel_scheme callback \<Rightarrow> u32 \<Rightarrow> TickType_t \<Rightarrow> TickType_t \<Rightarrow> 'z tkernel_scheme \<Rightarrow> 'z tkernel_scheme option" where
  "prvReloadTimer callback pxTimer xExpiredTime xTimeNow k =
     (let (again, s) = prvInsertTimerInActiveList pxTimer
            (xExpiredTime + xTimerPeriodInTicks (timers (tm k) pxTimer)) xTimeNow xExpiredTime (tm k);
          k = k\<lparr>tm := s\<rparr>
      in if again then
           (let xExpiredTime = xExpiredTime + xTimerPeriodInTicks (timers (tm k) pxTimer)
            in Option.bind (call_timer callback pxTimer k) (prvReloadTimer callback pxTimer xExpiredTime xTimeNow))
         else Some k)"

text \<open>What becomes of an expired timer, before its callback runs.\<close>

definition reload_or_stop ::
  "'z tkernel_scheme callback \<Rightarrow> u32 \<Rightarrow> TickType_t \<Rightarrow> TickType_t \<Rightarrow> 'z tkernel_scheme \<Rightarrow> 'z tkernel_scheme option" where
  "reload_or_stop callback pxTimer xExpiredTime xTimeNow k =
     (if ucStatus (timers (tm k) pxTimer) AND tmrSTATUS_IS_AUTORELOAD \<noteq> 0
      then prvReloadTimer callback pxTimer xExpiredTime xTimeNow k
      else Some (upd_tm (upd_timer pxTimer (\<lambda>b. b\<lparr>ucStatus := ucStatus b AND NOT tmrSTATUS_IS_ACTIVE\<rparr>)) k))"

definition prvProcessExpiredTimer ::
  "'z tkernel_scheme callback \<Rightarrow> TickType_t \<Rightarrow> TickType_t \<Rightarrow> 'z tkernel_scheme \<Rightarrow> 'z tkernel_scheme option" where
  "prvProcessExpiredTimer callback xNextExpireTime xTimeNow k = do {
     pxTimer \<leftarrow> first_of (actives (tm k) (pxCurrentTimerList (tm k)));
     s \<leftarrow> remove_timer pxTimer (tm k);
     k \<leftarrow> reload_or_stop callback pxTimer xNextExpireTime xTimeNow (k\<lparr>tm := s\<rparr>);
     call_timer callback pxTimer k
   }"

partial_function (option) prvSwitchTimerLists ::
  "'z tkernel_scheme callback \<Rightarrow> 'z tkernel_scheme \<Rightarrow> 'z tkernel_scheme option" where
  "prvSwitchTimerLists callback k =
     (case actives (tm k) (pxCurrentTimerList (tm k)) of
        [] \<Rightarrow> Some (upd_tm (\<lambda>s. s\<lparr>pxCurrentTimerList := pxOverflowTimerList s, pxOverflowTimerList := pxCurrentTimerList s\<rparr>) k)
      | t # _ \<Rightarrow> Option.bind (prvProcessExpiredTimer callback (timer_value (timers (tm k) t)) tmrMAX_TIME_BEFORE_OVERFLOW k)
                   (prvSwitchTimerLists callback))"

definition prvSampleTimeNow ::
  "'z tkernel_scheme callback \<Rightarrow> 'z tkernel_scheme \<Rightarrow> (TickType_t \<times> bool \<times> 'z tkernel_scheme) option" where
  "prvSampleTimeNow callback k = do {
     let xTimeNow = xTickCount k;
     let xTimerListsWereSwitched = (xTimeNow < xLastTime (tm k));
     k \<leftarrow> (if xTimerListsWereSwitched then prvSwitchTimerLists callback k else Some k);
     Some (xTimeNow, xTimerListsWereSwitched, upd_tm (\<lambda>s. s\<lparr>xLastTime := xTimeNow\<rparr>) k)
   }"

definition prvGetNextExpireTime :: "timer_state \<Rightarrow> TickType_t \<times> bool" where
  "prvGetNextExpireTime s =
     (case actives s (pxCurrentTimerList s) of [] \<Rightarrow> (0, True) | t # _ \<Rightarrow> (timer_value (timers s t), False))"

text \<open>The boolean of the result says that the task has called \<open>vQueueWaitForMessageRestricted\<close>.\<close>

definition prvProcessTimerOrBlockTask ::
  "'z tkernel_scheme callback \<Rightarrow> TickType_t \<Rightarrow> bool \<Rightarrow> 'z tkernel_scheme \<Rightarrow> (bool \<times> 'z tkernel_scheme) option" where
  "prvProcessTimerOrBlockTask callback xNextExpireTime xListWasEmpty k = do {
     let k = vTaskSuspendAll k;
     (xTimeNow, xTimerListsWereSwitched, k) \<leftarrow> prvSampleTimeNow callback k;
     if \<not> xTimerListsWereSwitched then
       (if \<not> xListWasEmpty \<and> xNextExpireTime \<le> xTimeNow then do {
          (_, k) \<leftarrow> xTaskResumeAll k;
          k \<leftarrow> prvProcessExpiredTimer callback xNextExpireTime xTimeNow k;
          Some (False, k)
        } else do {
          let xListWasEmpty = (if xListWasEmpty then actives (tm k) (pxOverflowTimerList (tm k)) = [] else xListWasEmpty);
          q \<leftarrow> xTimerQueue (tm k);
          k \<leftarrow> vQueueWaitForMessageRestricted q (xNextExpireTime - xTimeNow) xListWasEmpty k;
          (y, k) \<leftarrow> xTaskResumeAll k;
          Some (True, if y then k else portYIELD k)
        })
     else do { (_, k) \<leftarrow> xTaskResumeAll k; Some (False, k) }
   }"

section \<open>Commands\<close>

record DaemonTaskMessage_t =
  xMessageID :: u32
  u_words :: "u32 \<times> u32 \<times> u32"     \<comment> \<open>the union of \<open>xTimerParameters\<close> (value, timer) and \<open>xCallbackParameters\<close>\<close>

definition message_bytes :: "DaemonTaskMessage_t \<Rightarrow> u8 list" where
  "message_bytes m = (case u_words m of (a, b, c) \<Rightarrow>
     len_bytes (xMessageID m) @ len_bytes a @ len_bytes b @ len_bytes c)"

definition bytes_message :: "u8 list \<Rightarrow> DaemonTaskMessage_t" where
  "bytes_message b = \<lparr>xMessageID = bytes_len (take 4 b),
     u_words = (bytes_len (take 4 (drop 4 b)), bytes_len (take 4 (drop 8 b)), bytes_len (take 4 (drop 12 b)))\<rparr>"

definition sizeof_DaemonTaskMessage_t :: u32 where "sizeof_DaemonTaskMessage_t = 16"

text \<open>
  \<open>xTimerGenericCommand\<close> on a timer that is not \<open>NULL\<close>. A message to a timer leaves the last word of the union as it
  is on the stack, \<open>stack\<close>. The second component of the result is \<open>*pxHigherPriorityTaskWoken\<close>.
\<close>

definition xTimerGenericCommand ::
  "u32 \<Rightarrow> u32 \<Rightarrow> u32 \<Rightarrow> TickType_t \<Rightarrow> bool \<Rightarrow> TickType_t \<Rightarrow> 'z tkernel_scheme \<Rightarrow>
     (bool pass \<times> bool \<times> 'z tkernel_scheme) option" where
  "xTimerGenericCommand stack xTimer xCommandID xOptionalValue woken xTicks k =
     (case xTimerQueue (tm k) of
        None \<Rightarrow> Some (Returned False, woken, k)
      | Some q \<Rightarrow>
          (let m = message_bytes \<lparr>xMessageID = xCommandID, u_words = (xOptionalValue, xTimer, stack)\<rparr>
           in if sint xCommandID < sint tmrFIRST_FROM_ISR_COMMAND
              then do {
                (r, k) \<leftarrow> xQueueGenericSend q (Some m)
                  (if xTaskGetSchedulerState k = taskSCHEDULER_RUNNING then xTicks else tmrNO_DELAY) queueSEND_TO_BACK k;
                Some (r, woken, k)
              }
              else do {
                (r, woken, k) \<leftarrow> xQueueGenericSendFromISR q (Some m) woken queueSEND_TO_BACK k;
                Some (Returned r, woken, k)
              }))"

definition xTimerPendFunctionCallFromISR ::
  "u32 \<Rightarrow> u32 \<Rightarrow> u32 \<Rightarrow> bool \<Rightarrow> 'z tkernel_scheme \<Rightarrow> (bool \<times> bool \<times> 'z tkernel_scheme) option" where
  "xTimerPendFunctionCallFromISR xFunctionToPend pvParameter1 ulParameter2 woken k = do {
     q \<leftarrow> xTimerQueue (tm k);
     xQueueGenericSendFromISR q (Some (message_bytes \<lparr>xMessageID = tmrCOMMAND_EXECUTE_CALLBACK_FROM_ISR,
       u_words = (xFunctionToPend, pvParameter1, ulParameter2)\<rparr>)) woken queueSEND_TO_BACK k
   }"

definition xTimerPendFunctionCall ::
  "u32 \<Rightarrow> u32 \<Rightarrow> u32 \<Rightarrow> TickType_t \<Rightarrow> 'z tkernel_scheme \<Rightarrow> (bool pass \<times> 'z tkernel_scheme) option" where
  "xTimerPendFunctionCall xFunctionToPend pvParameter1 ulParameter2 xTicks k = do {
     q \<leftarrow> xTimerQueue (tm k);
     xQueueGenericSend q (Some (message_bytes \<lparr>xMessageID = tmrCOMMAND_EXECUTE_CALLBACK,
       u_words = (xFunctionToPend, pvParameter1, ulParameter2)\<rparr>)) xTicks queueSEND_TO_BACK k
   }"

text \<open>What the timer task does with a command for a timer.\<close>

definition timer_command ::
  "'z tkernel_scheme callback \<Rightarrow> u32 \<Rightarrow> u32 \<Rightarrow> TickType_t \<Rightarrow> 'z tkernel_scheme \<Rightarrow> 'z tkernel_scheme option" where
  "timer_command callback ident pxTimer xMessageValue k = do {
     s \<leftarrow> (if timer_container (timers (tm k) pxTimer) \<noteq> None then remove_timer pxTimer (tm k) else Some (tm k));
     (xTimeNow, _, k) \<leftarrow> prvSampleTimeNow callback (k\<lparr>tm := s\<rparr>);
     if ident \<in> {tmrCOMMAND_START, tmrCOMMAND_START_FROM_ISR, tmrCOMMAND_RESET, tmrCOMMAND_RESET_FROM_ISR} then do {
       let k = upd_tm (upd_timer pxTimer (\<lambda>b. b\<lparr>ucStatus := ucStatus b OR tmrSTATUS_IS_ACTIVE\<rparr>)) k;
       let xNext = xMessageValue + xTimerPeriodInTicks (timers (tm k) pxTimer);
       let (now, s) = prvInsertTimerInActiveList pxTimer xNext xTimeNow xMessageValue (tm k);
       let k = k\<lparr>tm := s\<rparr>;
       if now then do {
         k \<leftarrow> reload_or_stop callback pxTimer xNext xTimeNow k;
         call_timer callback pxTimer k
       } else Some k
     }
     else if ident \<in> {tmrCOMMAND_STOP, tmrCOMMAND_STOP_FROM_ISR}
     then Some (upd_tm (upd_timer pxTimer (\<lambda>b. b\<lparr>ucStatus := ucStatus b AND NOT tmrSTATUS_IS_ACTIVE\<rparr>)) k)
     else if ident \<in> {tmrCOMMAND_CHANGE_PERIOD, tmrCOMMAND_CHANGE_PERIOD_FROM_ISR} then do {
       let k = upd_tm (upd_timer pxTimer (\<lambda>b. b\<lparr>ucStatus := ucStatus b OR tmrSTATUS_IS_ACTIVE,
                 xTimerPeriodInTicks := xMessageValue\<rparr>)) k;
       configASSERT (xTimerPeriodInTicks (timers (tm k) pxTimer) > 0);
       let (_, s) = prvInsertTimerInActiveList pxTimer (xTimeNow + xTimerPeriodInTicks (timers (tm k) pxTimer)) xTimeNow xTimeNow (tm k);
       Some (k\<lparr>tm := s\<rparr>)
     }
     else if ident = tmrCOMMAND_DELETE
     then Some (if ucStatus (timers (tm k) pxTimer) AND tmrSTATUS_IS_STATICALLY_ALLOCATED = 0 then k
                else upd_tm (upd_timer pxTimer (\<lambda>b. b\<lparr>ucStatus := ucStatus b AND NOT tmrSTATUS_IS_ACTIVE\<rparr>)) k)
     else Some k
   }"

type_synonym 'k pended = "u32 \<Rightarrow> u32 \<Rightarrow> u32 \<Rightarrow> 'k \<Rightarrow> 'k option"

definition process_message ::
  "'z tkernel_scheme callback \<Rightarrow> 'z tkernel_scheme pended \<Rightarrow> DaemonTaskMessage_t \<Rightarrow> 'z tkernel_scheme \<Rightarrow> 'z tkernel_scheme option" where
  "process_message callback pended m k =
     (case u_words m of (a, b, c) \<Rightarrow> do {
        k \<leftarrow> (if sint (xMessageID m) < 0 then pended a b c k else Some k);
        if sint (xMessageID m) \<ge> 0 then timer_command callback (xMessageID m) b a k else Some k
      })"

text \<open>The queue is read without waiting, so that a pass of \<open>xQueueReceive\<close> always returns.\<close>

partial_function (option) prvProcessReceivedCommands ::
  "'z tkernel_scheme callback \<Rightarrow> 'z tkernel_scheme pended \<Rightarrow> 'z tkernel_scheme \<Rightarrow> 'z tkernel_scheme option" where
  "prvProcessReceivedCommands callback pended k =
     Option.bind (xTimerQueue (tm k)) (\<lambda>q.
     Option.bind (xQueueReceive q False tmrNO_DELAY k) (\<lambda>(r, k).
       (case r of
          Returned (Some b) \<Rightarrow>
            Option.bind (process_message callback pended (bytes_message b) k) (prvProcessReceivedCommands callback pended)
        | _ \<Rightarrow> Some k)))"

text \<open>One round of the loop of the timer task, in two parts: the task may block at the end of the first.\<close>

definition timer_task_wait :: "'z tkernel_scheme callback \<Rightarrow> 'z tkernel_scheme \<Rightarrow> (bool \<times> 'z tkernel_scheme) option" where
  "timer_task_wait callback k =
     (let (xNextExpireTime, xListWasEmpty) = prvGetNextExpireTime (tm k)
      in prvProcessTimerOrBlockTask callback xNextExpireTime xListWasEmpty k)"

definition timer_task_commands ::
  "'z tkernel_scheme callback \<Rightarrow> 'z tkernel_scheme pended \<Rightarrow> 'z tkernel_scheme \<Rightarrow> 'z tkernel_scheme option" where
  "timer_task_commands callback pended k = prvProcessReceivedCommands callback pended k"

section \<open>Creating timers and the timer task\<close>

text \<open>\<open>alloc_q\<close> is what the allocator returned for the queue.\<close>

definition prvCheckForValidListAndQueue ::
  "(nat \<times> u8 list) option \<Rightarrow> 'z tkernel_scheme \<Rightarrow> 'z tkernel_scheme option" where
  "prvCheckForValidListAndQueue alloc_q k =
     (if xTimerQueue (tm k) = None then do {
        let k = upd_tm (\<lambda>s. s\<lparr>active_lists := (\<lambda>_. kl_empty), pxCurrentTimerList := ActiveTimerList1,
                  pxOverflowTimerList := ActiveTimerList2\<rparr>) k;
        (q, k) \<leftarrow> xQueueGenericCreate alloc_q configTIMER_QUEUE_LENGTH sizeof_DaemonTaskMessage_t 0 k;
        let k = upd_tm (\<lambda>s. s\<lparr>xTimerQueue := q\<rparr>) k;
        Some (case q of Some q \<Rightarrow> vQueueAddToRegistry q (Some ''TmrQ'') k | None \<Rightarrow> k)
      } else Some k)"

definition xTimerCreateTimerTask ::
  "(nat \<times> u8 list) option \<Rightarrow> tid option \<Rightarrow> 'z tkernel_scheme \<Rightarrow> (int \<times> 'z tkernel_scheme) option" where
  "xTimerCreateTimerTask alloc_q alloc_t k = do {
     k \<leftarrow> prvCheckForValidListAndQueue alloc_q k;
     (xReturn, k) \<leftarrow> (if xTimerQueue (tm k) \<noteq> None then do {
         (r, k) \<leftarrow> xTaskCreate alloc_t configTIMER_TASK_PRIORITY k;
         Some (r, case alloc_t of Some t \<Rightarrow> upd_tm (\<lambda>s. s\<lparr>xTimerTaskHandle := Some t\<rparr>) k | None \<Rightarrow> k)
       } else Some (0, k));
     configASSERT (xReturn \<noteq> 0);
     Some (xReturn, k)
   }"

definition prvInitialiseNewTimer ::
  "(nat \<times> u8 list) option \<Rightarrow> string \<Rightarrow> TickType_t \<Rightarrow> bool \<Rightarrow> u32 \<Rightarrow> u32 \<Rightarrow> u32 \<Rightarrow> 'z tkernel_scheme \<Rightarrow> 'z tkernel_scheme option" where
  "prvInitialiseNewTimer alloc_q name xPeriod xAutoReload ident fn pxNewTimer k = do {
     configASSERT (xPeriod > 0);
     k \<leftarrow> prvCheckForValidListAndQueue alloc_q k;
     Some (upd_tm (upd_timer pxNewTimer (\<lambda>b. b\<lparr>pcTimerName := name, timer_container := None, xTimerPeriodInTicks := xPeriod,
       pvTimerID := ident, pxCallbackFunction := fn,
       ucStatus := (if xAutoReload then ucStatus b OR tmrSTATUS_IS_AUTORELOAD else ucStatus b)\<rparr>)) k)
   }"

definition xTimerCreate ::
  "u32 option \<Rightarrow> (nat \<times> u8 list) option \<Rightarrow> string \<Rightarrow> TickType_t \<Rightarrow> bool \<Rightarrow> u32 \<Rightarrow> u32 \<Rightarrow> 'z tkernel_scheme \<Rightarrow>
     (u32 option \<times> 'z tkernel_scheme) option" where
  "xTimerCreate alloc alloc_q name xPeriod xAutoReload ident fn k =
     (case alloc of
        None \<Rightarrow> Some (None, k)
      | Some t \<Rightarrow> do {
          k \<leftarrow> prvInitialiseNewTimer alloc_q name xPeriod xAutoReload ident fn t
                 (upd_tm (upd_timer t (\<lambda>b. b\<lparr>ucStatus := 0\<rparr>)) k);
          Some (Some t, k)
        })"

section \<open>Reading and setting a timer\<close>

definition xTimerGetTimerDaemonTaskHandle :: "timer_state \<Rightarrow> tid option" where
  "xTimerGetTimerDaemonTaskHandle s = xTimerTaskHandle s"

definition xTimerGetPeriod :: "u32 \<Rightarrow> timer_state \<Rightarrow> TickType_t" where
  "xTimerGetPeriod t s = xTimerPeriodInTicks (timers s t)"

definition vTimerSetReloadMode :: "u32 \<Rightarrow> bool \<Rightarrow> timer_state \<Rightarrow> timer_state" where
  "vTimerSetReloadMode t xAutoReload = upd_timer t (\<lambda>b. b\<lparr>ucStatus :=
     (if xAutoReload then ucStatus b OR tmrSTATUS_IS_AUTORELOAD else ucStatus b AND NOT tmrSTATUS_IS_AUTORELOAD)\<rparr>)"

definition xTimerGetReloadMode :: "u32 \<Rightarrow> timer_state \<Rightarrow> bool" where
  "xTimerGetReloadMode t s \<longleftrightarrow> ucStatus (timers s t) AND tmrSTATUS_IS_AUTORELOAD \<noteq> 0"

definition uxTimerGetReloadMode :: "u32 \<Rightarrow> timer_state \<Rightarrow> UBaseType_t" where
  "uxTimerGetReloadMode t s = (if xTimerGetReloadMode t s then 1 else 0)"

definition xTimerGetExpiryTime :: "u32 \<Rightarrow> timer_state \<Rightarrow> TickType_t" where
  "xTimerGetExpiryTime t s = timer_value (timers s t)"

definition pcTimerGetName :: "u32 \<Rightarrow> timer_state \<Rightarrow> string" where
  "pcTimerGetName t s = pcTimerName (timers s t)"

definition xTimerIsTimerActive :: "u32 \<Rightarrow> timer_state \<Rightarrow> bool" where
  "xTimerIsTimerActive t s \<longleftrightarrow> ucStatus (timers s t) AND tmrSTATUS_IS_ACTIVE \<noteq> 0"

definition pvTimerGetTimerID :: "u32 \<Rightarrow> timer_state \<Rightarrow> u32" where
  "pvTimerGetTimerID t s = pvTimerID (timers s t)"

definition vTimerSetTimerID :: "u32 \<Rightarrow> u32 \<Rightarrow> timer_state \<Rightarrow> timer_state" where
  "vTimerSetTimerID t pvNewID = upd_timer t (\<lambda>b. b\<lparr>pvTimerID := pvNewID\<rparr>)"

definition uxTimerGetTimerNumber :: "u32 \<Rightarrow> timer_state \<Rightarrow> UBaseType_t" where
  "uxTimerGetTimerNumber t s = uxTimerNumber (timers s t)"

definition vTimerSetTimerNumber :: "u32 \<Rightarrow> UBaseType_t \<Rightarrow> timer_state \<Rightarrow> timer_state" where
  "vTimerSetTimerNumber t n = upd_timer t (\<lambda>b. b\<lparr>uxTimerNumber := n\<rparr>)"

section \<open>Flags set and cleared from interrupts\<close>

text \<open>\<open>fn\<close> is the address of \<open>vEventGroupSetBitsCallback\<close>, \<open>vEventGroupClearBitsCallback\<close>, which the linker chooses.\<close>

definition xEventGroupSetBitsFromISR ::
  "u32 \<Rightarrow> u32 \<Rightarrow> u32 \<Rightarrow> bool \<Rightarrow> 'z tkernel_scheme \<Rightarrow> (bool \<times> bool \<times> 'z tkernel_scheme) option" where
  "xEventGroupSetBitsFromISR fn xEventGroup uxBitsToSet woken k =
     xTimerPendFunctionCallFromISR fn xEventGroup uxBitsToSet woken k"

definition xEventGroupClearBitsFromISR :: "u32 \<Rightarrow> u32 \<Rightarrow> u32 \<Rightarrow> 'z tkernel_scheme \<Rightarrow> (bool \<times> 'z tkernel_scheme) option" where
  "xEventGroupClearBitsFromISR fn xEventGroup uxBitsToClear k = do {
     (r, _, k) \<leftarrow> xTimerPendFunctionCallFromISR fn xEventGroup uxBitsToClear False k;
     Some (r, k)
   }"

end
