(* ===== verification/Timer_Props.thy ===== *)
theory Timer_Props
  imports Kernel_Timers
begin

text \<open>
  Correctness of the software timers. Time is the number of ticks since the start of the kernel, without wrap;
  the code sees it modulo \<open>2^32\<close>. A timer on a list has a true expiry time, of which the value of its item is the
  remainder; the list of the current round holds the timers of the round in which the task last looked at the
  clock, the other list those of the next round.
\<close>

section \<open>When a timer has expired\<close>

abbreviation round_of :: "nat \<Rightarrow> nat" where "round_of n \<equiv> n div 2 ^ 32"

lemma round_split: obtains r where "n = 2 ^ 32 * round_of n + r" "r = n mod 2 ^ 32" "r < 2 ^ 32"
  by simp

lemma unat_diff_ticks:
  assumes "m \<le> n" "n - m < 2 ^ 32"
  shows "unat ((of_nat n :: u32) - of_nat m) = n - m"
proof -
  have "(of_nat n :: u32) - of_nat m = of_nat (n - m)" using assms(1) by (simp add: of_nat_diff)
  then show ?thesis using assms(2) by (simp add: unat_of_nat_less)
qed

lemma expiry_decision:
  assumes "m \<le> n" "n - m < 2 ^ 32" "0 < P" "P < 2 ^ 32"
  defines "a \<equiv> (of_nat (m + P) :: u32)" and "now \<equiv> (of_nat n :: u32)" and "cmd \<equiv> (of_nat m :: u32)"
  shows "m + P \<le> n \<Longrightarrow> (if a \<le> now then now - cmd \<ge> of_nat P else now < cmd \<and> a \<ge> cmd)"
    "n < m + P \<Longrightarrow> round_of (m + P) = round_of n \<Longrightarrow> \<not> a \<le> now \<and> \<not> (now < cmd \<and> a \<ge> cmd)"
    "n < m + P \<Longrightarrow> round_of (m + P) \<noteq> round_of n \<Longrightarrow>
      round_of (m + P) = Suc (round_of n) \<and> a \<le> now \<and> \<not> now - cmd \<ge> of_nat P"
proof -
  have u: "unat a = (m + P) mod 2 ^ 32" "unat now = n mod 2 ^ 32" "unat cmd = m mod 2 ^ 32"
    by (simp_all add: a_def now_def cmd_def of_nat_u32 del: of_nat_add)
  have d: "unat (now - cmd) = n - m" using unat_diff_ticks [OF assms(1,2)] by (simp add: now_def cmd_def)
  have p: "unat (of_nat P :: u32) = P" using assms(4) by (simp add: unat_of_nat_less)
  obtain rn where n: "n = 2 ^ 32 * round_of n + rn" "rn = n mod 2 ^ 32" "rn < 2 ^ 32" by (rule round_split)
  obtain rm where m: "m = 2 ^ 32 * round_of m + rm" "rm = m mod 2 ^ 32" "rm < 2 ^ 32" by (rule round_split)
  obtain ra where e: "m + P = 2 ^ 32 * round_of (m + P) + ra" "ra = (m + P) mod 2 ^ 32" "ra < 2 ^ 32" by (rule round_split)
  have le: "a \<le> now \<longleftrightarrow> ra \<le> rn" "now < cmd \<longleftrightarrow> rn < rm" "a \<ge> cmd \<longleftrightarrow> rm \<le> ra" "now - cmd \<ge> of_nat P \<longleftrightarrow> P \<le> n - m"
    by (simp_all only: word_le_nat_alt word_less_nat_alt u d p n(2) m(2) e(2))
  have le': "round_of m \<le> round_of n" "round_of m \<le> round_of (m + P)"
    using assms(1) by (auto intro: div_le_mono)
  define N where "N = round_of n" define M where "M = round_of m" define R where "R = round_of (m + P)"
  note f = N_def [symmetric] M_def [symmetric] R_def [symmetric]
  note h = n(1) [unfolded f] m(1) [unfolded f] e(1) [unfolded f] n(3) m(3) e(3)
  have "N < M + 2" using h(1,2,4,5) assms(1,2) by simp
  moreover have "R < M + 2" using h(2,3,5,6) assms(4) by simp
  ultimately have q: "N = M \<or> N = Suc M" "R = M \<or> R = Suc M" using le' [unfolded f] by linarith+
  show "if a \<le> now then now - cmd \<ge> of_nat P else now < cmd \<and> a \<ge> cmd" if "m + P \<le> n"
    unfolding le using q h that assms(1-4) by (auto split: if_splits)
  show "\<not> a \<le> now \<and> \<not> (now < cmd \<and> a \<ge> cmd)" if "n < m + P" "round_of (m + P) = round_of n"
    unfolding le using q h that [unfolded f] assms(1-4) by auto
  show "round_of (m + P) = Suc (round_of n) \<and> a \<le> now \<and> \<not> now - cmd \<ge> of_nat P" if "n < m + P" "round_of (m + P) \<noteq> round_of n"
    unfolding le f using q h that [unfolded f] assms(1-4) by auto
qed

section \<open>The invariant of the lists\<close>

abbreviation period :: "timer_state \<Rightarrow> u32 \<Rightarrow> nat" where
  "period s t \<equiv> unat (xTimerPeriodInTicks (timers s t))"

abbreviation listed :: "timer_state \<Rightarrow> u32 \<Rightarrow> bool" where
  "listed s t \<equiv> timer_container (timers s t) \<noteq> None"

abbreviation auto_reload :: "timer_state \<Rightarrow> u32 \<Rightarrow> bool" where
  "auto_reload s t \<equiv> ucStatus (timers s t) AND tmrSTATUS_IS_AUTORELOAD \<noteq> 0"

definition timers_ok :: "nat \<Rightarrow> (u32 \<Rightarrow> nat) \<Rightarrow> timer_state \<Rightarrow> bool" where
  "timers_ok r E s \<longleftrightarrow>
     pxCurrentTimerList s \<noteq> pxOverflowTimerList s \<and>
     (\<forall>l. kl_wf (active_lists s l) \<and> sorted (map (\<lambda>t. timer_value (timers s t)) (actives s l))) \<and>
     (\<forall>l t. t \<in> set (actives s l) \<longleftrightarrow> timer_container (timers s t) = Some l) \<and>
     (\<forall>t l. timer_container (timers s t) = Some l \<longrightarrow> timer_value (timers s t) = of_nat (E t) \<and> 0 < period s t \<and>
        round_of (E t) = (if l = pxCurrentTimerList s then r else Suc r))"

text \<open>What the functions of the timer task leave alone.\<close>

definition timer_frame :: "timer_state \<Rightarrow> timer_state \<Rightarrow> bool" where
  "timer_frame s s' \<longleftrightarrow> xTimerQueue s' = xTimerQueue s \<and> xTimerTaskHandle s' = xTimerTaskHandle s \<and>
     (\<forall>t. xTimerPeriodInTicks (timers s' t) = xTimerPeriodInTicks (timers s t) \<and> auto_reload s' t = auto_reload s t)"

lemma timer_frame_refl [simp]: "timer_frame s s" by (simp add: timer_frame_def)

lemma timer_frame_trans: "timer_frame a b \<Longrightarrow> timer_frame b c \<Longrightarrow> timer_frame a c" by (simp add: timer_frame_def)

lemma timer_list_cases: "c \<noteq> o' \<Longrightarrow> l = c \<or> l = (o' :: timer_list)"
  by (cases l; cases c; cases o'; simp)

lemma set_value_ok:
  assumes "timers_ok r E s" "\<not> listed s t"
  shows "timers_ok r E' (upd_timer t (\<lambda>b. b\<lparr>timer_value := v\<rparr>) s) \<longleftrightarrow> timers_ok r E' s"
proof -
  let ?s = "upd_timer t (\<lambda>b. b\<lparr>timer_value := v\<rparr>) s"
  have "t \<notin> set (actives s l)" for l using assms by (simp add: timers_ok_def)
  then have m: "map (\<lambda>u. timer_value (timers ?s u)) (actives s l) = map (\<lambda>u. timer_value (timers s u)) (actives s l)" for l
    by (auto simp: upd_timer_def)
  have f: "active_lists ?s = active_lists s" "timer_container (timers ?s u) = timer_container (timers s u)"
    "pxCurrentTimerList ?s = pxCurrentTimerList s" "pxOverflowTimerList ?s = pxOverflowTimerList s" "period ?s u = period s u" for u
    by (simp_all add: upd_timer_def)
  have v: "timer_value (timers ?s u) = timer_value (timers s u)" if "timer_container (timers s u) = Some l" for u l
    using that assms(2) by (auto simp: upd_timer_def)
  show ?thesis unfolding timers_ok_def f m using v by auto
qed

lemma status_ok [simp]: "timers_ok r E (upd_timer t (\<lambda>b. b\<lparr>ucStatus := f b\<rparr>) s) = timers_ok r E s"
proof -
  let ?s = "upd_timer t (\<lambda>b. b\<lparr>ucStatus := f b\<rparr>) s"
  have f: "active_lists ?s = active_lists s" "timer_container (timers ?s u) = timer_container (timers s u)"
    "timer_value (timers ?s u) = timer_value (timers s u)" "xTimerPeriodInTicks (timers ?s u) = xTimerPeriodInTicks (timers s u)"
    "pxCurrentTimerList ?s = pxCurrentTimerList s" "pxOverflowTimerList ?s = pxOverflowTimerList s" for u
    by (simp_all add: upd_timer_def)
  show ?thesis unfolding timers_ok_def f ..
qed

lemma unlisted_ok:
  assumes "\<not> listed s t"
  shows "timers_ok r (E(t := e)) s = timers_ok r E s"
proof -
  have "(timer_container (timers s u) = Some l \<longrightarrow> timer_value (timers s u) = of_nat ((E(t := e)) u) \<and> 0 < period s u \<and>
      round_of ((E(t := e)) u) = (if l = pxCurrentTimerList s then r else Suc r)) \<longleftrightarrow>
    (timer_container (timers s u) = Some l \<longrightarrow> timer_value (timers s u) = of_nat (E u) \<and> 0 < period s u \<and>
      round_of (E u) = (if l = pxCurrentTimerList s then r else Suc r))" for u l
    using assms by (cases "u = t") simp_all
  then show ?thesis unfolding timers_ok_def by (simp only:)
qed

lemma insert_timer_ok:
  assumes "timers_ok r E s" "\<not> listed s t" "0 < period s t" "timer_value (timers s t) = of_nat e"
    "round_of e = (if l = pxCurrentTimerList s then r else Suc r)"
  shows "timers_ok r (E(t := e)) (insert_timer l t s)"
proof -
  let ?s = "insert_timer l t s"
  have nt: "t \<notin> set (actives s l')" for l' using assms(1,2) by (simp add: timers_ok_def)
  have wf: "kl_wf (active_lists s l')" "sorted (map (\<lambda>t. timer_value (timers s t)) (actives s l'))" for l'
    using assms(1) by (auto simp: timers_ok_def)
  have v: "timer_value (timers ?s u) = timer_value (timers s u)" for u by (simp add: insert_timer_def upd_timer_def upd_active_def)
  have a: "active_lists ?s l' = (if l' = l then kl_insert (\<lambda>j. timer_value (timers s j)) t (active_lists s l) else active_lists s l')" for l'
    by (simp add: insert_timer_def upd_timer_def upd_active_def)
  have "kl_wf (active_lists ?s l') \<and> sorted (map (\<lambda>t. timer_value (timers ?s t)) (actives ?s l'))" for l'
    using wf [of l'] kl_insert_wf [OF wf(1) nt] kl_insert_sorted [OF wf(2)] unfolding v by (simp add: a)
  moreover have "t' \<in> set (actives ?s l') \<longleftrightarrow> timer_container (timers ?s t') = Some l'" for l' t'
    using assms(1,2) nt [of l'] by (cases "t' = t") (auto simp: a insert_timer_def upd_timer_def upd_active_def timers_ok_def)
  ultimately show ?thesis
    using assms by (auto simp: timers_ok_def v) (auto simp: insert_timer_def upd_timer_def upd_active_def split: if_splits)
qed

text \<open>Only timer \<open>t\<close> changes, and of it not the period and the mode.\<close>

definition only :: "u32 \<Rightarrow> timer_state \<Rightarrow> timer_state \<Rightarrow> bool" where
  "only t s s' \<longleftrightarrow> pxCurrentTimerList s' = pxCurrentTimerList s \<and> pxOverflowTimerList s' = pxOverflowTimerList s \<and>
     xLastTime s' = xLastTime s \<and> timer_frame s s' \<and> (\<forall>u. u \<noteq> t \<longrightarrow> timers s' u = timers s u)"

lemma only_refl [simp]: "only t s s" by (simp add: only_def)

lemma only_trans: "only t a b \<Longrightarrow> only t b c \<Longrightarrow> only t a c"
  using timer_frame_trans by (simp add: only_def) blast

lemma only_fired [simp]: "only t s (s'\<lparr>fired := x\<rparr>) = only t s s'" "only t (s\<lparr>fired := x\<rparr>) s' = only t s s'"
  by (auto simp: only_def timer_frame_def)

lemma timers_ok_fired [simp]: "timers_ok r E (s\<lparr>fired := x\<rparr>) = timers_ok r E s" "timers_ok r E (s\<lparr>xLastTime := y\<rparr>) = timers_ok r E s"
  by (simp_all add: timers_ok_def)

lemma remove_timer_spec:
  assumes "timers_ok r E s" "timer_container (timers s t) = Some l"
  obtains s' where "remove_timer t s = Some s'" "timers_ok r E s'" "\<not> listed s' t" "only t s s'" "fired s' = fired s"
    "actives s' l = remove1 t (actives s l)" "timer_value (timers s' t) = timer_value (timers s t)"
proof -
  let ?s = "upd_timer t (\<lambda>b. b\<lparr>timer_container := None\<rparr>) (upd_active l (kl_remove t) s)"
  have wf: "kl_wf (active_lists s l')" "sorted (map (\<lambda>t. timer_value (timers s t)) (actives s l'))" for l'
    using assms(1) by (auto simp: timers_ok_def)
  have v: "timer_value (timers ?s u) = timer_value (timers s u)" for u by (simp add: upd_timer_def upd_active_def)
  have a: "active_lists ?s l' = (if l' = l then kl_remove t (active_lists s l) else active_lists s l')" for l'
    by (simp add: upd_timer_def upd_active_def)
  have "kl_wf (active_lists ?s l') \<and> sorted (map (\<lambda>t. timer_value (timers ?s t)) (actives ?s l'))" for l'
    using wf [of l'] kl_remove_wf [OF wf(1)] unfolding v by (auto simp: a kl_remove_def intro: sorted_map_remove1)
  moreover have "t' \<in> set (actives ?s l') \<longleftrightarrow> timer_container (timers ?s t') = Some l'" for l' t'
    using assms wf(1) by (cases "t' = t") (auto simp: a upd_timer_def upd_active_def timers_ok_def)
  ultimately have "timers_ok r E ?s"
    using assms by (auto simp: timers_ok_def v) (auto simp: upd_timer_def upd_active_def split: if_splits)
  then show thesis
    using assms(2) v
    by (intro that [of ?s]) (auto simp: remove_timer_def only_def timer_frame_def upd_timer_def upd_active_def kl_remove_def)
qed

lemma insert_spec:
  assumes "timers_ok r E s" "\<not> listed s t" "0 < period s t" "m \<le> n" "n - m < 2 ^ 32" "round_of n = r"
  obtains (expired) s' where "m + period s t \<le> n"
      "prvInsertTimerInActiveList t (of_nat m + xTimerPeriodInTicks (timers s t)) (of_nat n) (of_nat m) s = (True, s')"
      "timers_ok r E s'" "\<not> listed s' t" "only t s s'" "fired s' = fired s"
  | (waits) s' where "n < m + period s t"
      "prvInsertTimerInActiveList t (of_nat m + xTimerPeriodInTicks (timers s t)) (of_nat n) (of_nat m) s = (False, s')"
      "timers_ok r (E(t := m + period s t)) s'" "only t s s'" "fired s' = fired s"
      "timer_container (timers s' t) = Some (if round_of (m + period s t) = r then pxCurrentTimerList s else pxOverflowTimerList s)"
proof -
  let ?P = "period s t"
  define p where "p = xTimerPeriodInTicks (timers s t)"
  define now :: u32 where "now = of_nat n"
  define cmd :: u32 where "cmd = of_nat m"
  define a where "a = cmd + p"
  define s1 where "s1 = upd_timer t (\<lambda>b. b\<lparr>timer_value := a\<rparr>) s"
  have a: "of_nat (m + ?P) = a" and p: "of_nat ?P = p" by (simp_all add: a_def p_def cmd_def)
  have lt: "?P < 2 ^ 32" using unsigned_less [of "xTimerPeriodInTicks (timers s t)"] by simp
  note dec = expiry_decision [OF assms(4,5,3) lt, unfolded a p, folded now_def cmd_def]
  have ok1: "timers_ok r E s1" using set_value_ok [OF assms(1,2)] assms(1) by (simp add: s1_def)
  have o1: "only t s s1" "fired s1 = fired s" "\<not> listed s1 t" "period s1 t = ?P" "timer_value (timers s1 t) = a"
    "xTimerPeriodInTicks (timers s1 t) = p" "pxCurrentTimerList s1 = pxCurrentTimerList s" "pxOverflowTimerList s1 = pxOverflowTimerList s"
    using assms(2) by (simp_all add: only_def timer_frame_def upd_timer_def s1_def p_def)
  have ins: "only t s (insert_timer l t s1)" "fired (insert_timer l t s1) = fired s"
    "timer_container (timers (insert_timer l t s1) t) = Some l" for l
    by (simp_all add: only_def timer_frame_def insert_timer_def upd_timer_def upd_active_def s1_def)
  have call: "prvInsertTimerInActiveList t (of_nat m + xTimerPeriodInTicks (timers s t)) (of_nat n) (of_nat m) s =
    (if a \<le> now then (if now - cmd \<ge> p then (True, s1) else (False, insert_timer (pxOverflowTimerList s) t s1))
     else (if now < cmd \<and> a \<ge> cmd then (True, s1) else (False, insert_timer (pxCurrentTimerList s) t s1)))"
    unfolding prvInsertTimerInActiveList_def Let_def by (simp only: o1(6-8) flip: p_def a_def now_def cmd_def s1_def)
  show thesis
  proof (cases "m + ?P \<le> n")
    case True
    from dec(1) [OF True] have "prvInsertTimerInActiveList t (of_nat m + xTimerPeriodInTicks (timers s t)) (of_nat n) (of_nat m) s = (True, s1)"
      unfolding call by presburger
    then show thesis by (rule expired [OF True _ ok1 o1(3,1,2)])
  next
    case False
    let ?l = "if round_of (m + ?P) = r then pxCurrentTimerList s else pxOverflowTimerList s"
    have n: "n < m + ?P" using False by simp
    note d2 = dec(2) [OF n, unfolded assms(6)] and d3 = dec(3) [OF n, unfolded assms(6)]
    have "prvInsertTimerInActiveList t (of_nat m + xTimerPeriodInTicks (timers s t)) (of_nat n) (of_nat m) s = (False, insert_timer ?l t s1)"
    proof (cases "round_of (m + ?P) = r")
      case True
      from d2 [OF this] show ?thesis unfolding call by (simp only: True if_True if_False simp_thms)
    next
      case r: False
      from d3 [OF this] show ?thesis unfolding call by (simp only: r if_True if_False simp_thms n_not_Suc_n [symmetric] Suc_n_not_n)
    qed
    moreover have "pxCurrentTimerList s \<noteq> pxOverflowTimerList s" using assms(1) by (simp add: timers_ok_def)
    then have "round_of (m + ?P) = (if ?l = pxCurrentTimerList s1 then r else Suc r)"
      using d3 by (cases "round_of (m + ?P) = r") (simp_all only: o1(7) if_True if_False simp_thms eq_commute [of "pxOverflowTimerList s"])
    then have "timers_ok r (E(t := m + ?P)) (insert_timer ?l t s1)"
      using insert_timer_ok [OF ok1 o1(3) _ _ , of "m + ?P" ?l] assms(3) unfolding o1(4,5) a by blast
    ultimately show thesis using waits [OF n] ins by blast
  qed
qed

section \<open>Callbacks\<close>

text \<open>
  What is assumed of the functions of the application: a call returns, and it leaves the timers and the
  scheduler as they are; in the code the functions on timers only send messages to the timer task.
\<close>

definition kernel_same :: "'z tkernel_scheme \<Rightarrow> 'z tkernel_scheme \<Rightarrow> bool" where
  "kernel_same k k' \<longleftrightarrow> kernel.truncate k' = kernel.truncate k \<and> queues k' = queues k"

definition callbacks_ok :: "'z tkernel_scheme callback \<Rightarrow> bool" where
  "callbacks_ok callback \<longleftrightarrow> (\<forall>f t k. \<exists>k'. callback f t k = Some k' \<and> tm k' = tm k \<and> kernel_same k k')"

lemma kernel_same_simps [simp]: "kernel_same k k" "kernel_same k (k'\<lparr>tm := s\<rparr>) = kernel_same k k'" "kernel_same (k\<lparr>tm := s\<rparr>) k' = kernel_same k k'"
  "kernel_same k (upd_tm f k') = kernel_same k k'" "kernel_same (upd_tm f k) k' = kernel_same k k'"
  by (simp_all add: kernel_same_def kernel.defs upd_tm_def)

lemma kernel_same_trans: "kernel_same a b \<Longrightarrow> kernel_same b c \<Longrightarrow> kernel_same a c"
  by (simp add: kernel_same_def)

lemma tm_upd_tm [simp]: "tm (upd_tm f k) = f (tm k)" "xTickCount (upd_tm f k) = xTickCount k"
  by (simp_all add: upd_tm_def)

lemma call_timer_spec:
  assumes "callbacks_ok callback"
  obtains k' where "call_timer callback t k = Some k'" "tm k' = (tm k)\<lparr>fired := t # fired (tm k)\<rparr>" "kernel_same k k'"
proof -
  obtain k' where "call_timer callback t k = Some k'" "tm k' = tm (upd_tm (\<lambda>s. s\<lparr>fired := t # fired s\<rparr>) k)"
    "kernel_same (upd_tm (\<lambda>s. s\<lparr>fired := t # fired s\<rparr>) k) k'"
    using assms unfolding callbacks_ok_def call_timer_def by blast
  then show thesis by (intro that [of k']) simp_all
qed

section \<open>Reloading an expired timer\<close>

lemma div_step: "0 < P \<Longrightarrow> m + P \<le> n \<Longrightarrow> (n - m) div P = Suc ((n - (m + P)) div P)" for m n P :: nat
proof -
  assume "0 < P" "m + P \<le> n"
  then have "n - m = (n - (m + P)) + P" by simp
  then show ?thesis using \<open>0 < P\<close> by (metis div_add_self2 Suc_eq_plus1 not_gr_zero)
qed

lemma replicate_shift: "replicate j t @ t # xs = replicate (Suc j) t @ xs"
  by (simp add: replicate_app_Cons_same)

lemma reload_spec:
  assumes "callbacks_ok callback" "timers_ok r E (tm k)" "\<not> listed (tm k) t" "period (tm k) t = P" "0 < P" "m \<le> n"
    "n - m < 2 ^ 32" "round_of n = r"
  shows "\<exists>k'. prvReloadTimer callback t (of_nat m) (of_nat n) k = Some k' \<and>
    timers_ok r (E(t := m + Suc ((n - m) div P) * P)) (tm k') \<and> only t (tm k) (tm k') \<and> kernel_same k k' \<and>
    fired (tm k') = replicate ((n - m) div P) t @ fired (tm k) \<and>
    timer_container (timers (tm k') t) = Some (if round_of (m + Suc ((n - m) div P) * P) = r
      then pxCurrentTimerList (tm k) else pxOverflowTimerList (tm k))"
  using assms(2-4,6,7)
proof (induction "n - m" arbitrary: m k rule: less_induct)
  case less
  let ?p = "xTimerPeriodInTicks (timers (tm k) t)"
  have pos: "0 < period (tm k) t" using less(4) assms(5) by simp
  show ?case
  proof (cases rule: insert_spec [OF less(2,3) pos less(5,6) assms(8), case_names expired waits])
    case (waits s')
    have "prvReloadTimer callback t (of_nat m) (of_nat n) k = Some (k\<lparr>tm := s'\<rparr>)"
      by (subst prvReloadTimer.simps) (simp add: waits(2))
    moreover have "(n - m) div P = 0" using waits(1) less(4,5) assms(5) by (intro div_less) linarith
    ultimately show ?thesis using waits less(4) by simp
  next
    case (expired s')
    obtain k1 where c: "call_timer callback t (k\<lparr>tm := s'\<rparr>) = Some k1" "tm k1 = s'\<lparr>fired := t # fired s'\<rparr>"
      "kernel_same (k\<lparr>tm := s'\<rparr>) k1"
      by (rule call_timer_spec [OF assms(1), of t "k\<lparr>tm := s'\<rparr>"]) simp
    have p': "xTimerPeriodInTicks (timers s' t) = ?p" using expired(5) by (simp add: only_def timer_frame_def)
    have mp: "m + P \<le> n" "of_nat m + ?p = (of_nat (m + P) :: u32)" using expired(1) less(4) by auto
    have "prvReloadTimer callback t (of_nat m) (of_nat n) k = prvReloadTimer callback t (of_nat m + ?p) (of_nat n) k1"
      by (subst prvReloadTimer.simps) (simp add: expired(2) p' c(1))
    then have "prvReloadTimer callback t (of_nat m) (of_nat n) k = prvReloadTimer callback t (of_nat (m + P)) (of_nat n) k1"
      unfolding mp(2) .
    moreover have "n - (m + P) < n - m" using mp(1) assms(5) by simp
    moreover have "timers_ok r E (tm k1)" "\<not> listed (tm k1) t" "period (tm k1) t = P" "n - (m + P) < 2 ^ 32"
      using expired(3,4) p' less(4,6) by (simp_all add: c(2))
    ultimately obtain k' where IH: "prvReloadTimer callback t (of_nat m) (of_nat n) k = Some k'"
      "timers_ok r (E(t := m + P + Suc ((n - (m + P)) div P) * P)) (tm k')" "only t (tm k1) (tm k')" "kernel_same k1 k'"
      "fired (tm k') = replicate ((n - (m + P)) div P) t @ fired (tm k1)"
      "timer_container (timers (tm k') t) = Some (if round_of (m + P + Suc ((n - (m + P)) div P) * P) = r
        then pxCurrentTimerList (tm k1) else pxOverflowTimerList (tm k1))"
      using less(1) [of "m + P" k1] mp(1) by auto
    have e: "m + P + Suc ((n - (m + P)) div P) * P = m + Suc ((n - m) div P) * P"
      by (simp add: div_step [OF assms(5) mp(1)])
    have f: "fired (tm k') = replicate ((n - m) div P) t @ fired (tm k)"
      by (simp only: IH(5) c(2) div_step [OF assms(5) mp(1)] timer_state.select_convs timer_state.update_convs)
        (simp add: expired(6) replicate_app_Cons_same)
    have o: "only t (tm k) (tm k')" using only_trans [OF expired(5), of "tm k'"] IH(3) by (simp add: c(2))
    have "pxCurrentTimerList (tm k1) = pxCurrentTimerList (tm k)" "pxOverflowTimerList (tm k1) = pxOverflowTimerList (tm k)"
      using expired(5) by (simp_all add: c(2) only_def)
    with IH f o c(3) kernel_same_trans [OF _ IH(4), of k] show ?thesis unfolding e by simp
  qed
qed

section \<open>Serving timers\<close>

text \<open>
  The calls made between two states: timer \<open>u\<close> was called \<open>c u\<close> times. The expiry time of a timer that reloads moves by one
  period per call, a one-shot timer is called at most once and then is off the lists; no call is early.
\<close>

definition served :: "nat \<Rightarrow> (u32 \<Rightarrow> nat) \<Rightarrow> timer_state \<Rightarrow> (u32 \<Rightarrow> nat) \<Rightarrow> timer_state \<Rightarrow> (u32 \<Rightarrow> nat) \<Rightarrow> bool" where
  "served n E s E' s' c \<longleftrightarrow> timer_frame s s' \<and>
     (\<forall>u. count_list (fired s') u = count_list (fired s) u + c u) \<and>
     (\<forall>u. \<not> listed s u \<longrightarrow> \<not> listed s' u \<and> c u = 0) \<and>
     (\<forall>u. listed s u \<and> auto_reload s u \<longrightarrow> listed s' u \<and> E' u = E u + c u * period s u \<and>
        (0 < c u \<longrightarrow> E u + (c u - 1) * period s u \<le> n)) \<and>
     (\<forall>u. listed s u \<and> \<not> auto_reload s u \<longrightarrow>
        (c u = 0 \<and> listed s' u \<and> E' u = E u \<or> c u = 1 \<and> \<not> listed s' u \<and> E u \<le> n))"

lemma served_refl: "served n E s E s (\<lambda>_. 0)"
  by (simp add: served_def)

lemma served_trans:
  assumes "served n E s E' s' c" "served n' E' s' E'' s'' d" "n \<le> n'"
  shows "served n' E s E'' s'' (\<lambda>u. c u + d u)"
proof -
  have f: "timer_frame s s'" "timer_frame s s''" "timer_frame s' s''" using assms(1,2) timer_frame_trans by (auto simp: served_def)
  have p: "period s' u = period s u" "auto_reload s' u = auto_reload s u" for u using f(1) by (simp_all add: timer_frame_def)
  have "listed s'' u \<and> E'' u = E u + (c u + d u) * period s u \<and> (0 < c u + d u \<longrightarrow> E u + (c u + d u - 1) * period s u \<le> n')"
    if u: "listed s u" "auto_reload s u" for u
  proof -
    have 1: "listed s' u" "E' u = E u + c u * period s u" "0 < c u \<Longrightarrow> E u + (c u - 1) * period s u \<le> n"
      using assms(1) u unfolding served_def by blast+
    then have 2: "listed s'' u" "E'' u = E' u + d u * period s u" "0 < d u \<Longrightarrow> E' u + (d u - 1) * period s u \<le> n'"
      using assms(2) u(2) p unfolding served_def by metis+
    have "E u + (c u + d u - 1) * period s u \<le> n'" if "0 < c u + d u"
    proof (cases "d u = 0")
      case True
      then show ?thesis using 1(3) that assms(3) by auto
    next
      case False
      then have "E u + (c u + d u - 1) * period s u = E' u + (d u - 1) * period s u"
        by (cases "d u") (simp_all add: 1(2) algebra_simps)
      then show ?thesis using 2(3) False by simp
    qed
    then show ?thesis using 2(1,2) 1(2) by (simp add: algebra_simps)
  qed
  moreover have "c u + d u = 0 \<and> listed s'' u \<and> E'' u = E u \<or> c u + d u = 1 \<and> \<not> listed s'' u \<and> E u \<le> n'"
    if u: "listed s u" "\<not> auto_reload s u" for u
    using assms p(2) [of u] u unfolding served_def by (metis add.left_neutral add.right_neutral le_trans)
  ultimately show ?thesis using assms(1,2) f(2) unfolding served_def by auto
qed

lemma same_round: "round_of a = round_of n \<Longrightarrow> a \<le> n \<Longrightarrow> n - a < 2 ^ 32"
proof -
  assume r: "round_of a = round_of n" "a \<le> n"
  have "n mod 2 ^ 32 < 2 ^ 32" "n = 2 ^ 32 * round_of n + n mod 2 ^ 32" "a = 2 ^ 32 * round_of a + a mod 2 ^ 32" by simp_all
  then show ?thesis unfolding r(1) by linarith
qed

definition lists_same :: "timer_state \<Rightarrow> timer_state \<Rightarrow> bool" where
  "lists_same s s' \<longleftrightarrow> pxCurrentTimerList s' = pxCurrentTimerList s \<and> pxOverflowTimerList s' = pxOverflowTimerList s \<and> xLastTime s' = xLastTime s"

lemma only_lists_same: "only t s s' \<Longrightarrow> lists_same s s'" by (simp add: only_def lists_same_def)

lemma only_served:
  assumes "only t s s'" "listed s t" "\<And>u. u \<noteq> t \<Longrightarrow> E' u = E u" "fired s' = replicate i t @ fired s"
    "if auto_reload s t then listed s' t \<and> E' t = E t + i * period s t \<and> E t + (i - 1) * period s t \<le> n
     else i = 1 \<and> \<not> listed s' t \<and> E t \<le> n"
  shows "served n E s E' s' ((\<lambda>_. 0)(t := i))"
proof -
  have o: "timers s' u = timers s u" if "u \<noteq> t" for u using assms(1) that by (simp add: only_def)
  have "count_list (replicate i t) u = (if u = t then i else 0)" for u by (induction i) auto
  then show ?thesis
    using assms(1-5) o by (auto simp: served_def only_def split: if_splits)
qed

lemma process_expired_spec:
  assumes "callbacks_ok callback" "timers_ok r E (tm k)" "actives (tm k) (pxCurrentTimerList (tm k)) = t # ts"
    "E t \<le> n" "round_of n = r"
  obtains k' E' i where "prvProcessExpiredTimer callback (timer_value (timers (tm k) t)) (of_nat n) k = Some k'"
    "timers_ok r E' (tm k')" "served n E (tm k) E' (tm k') ((\<lambda>_. 0)(t := i))" "0 < i" "kernel_same k k'" "lists_same (tm k) (tm k')"
    "listed (tm k') t \<longrightarrow> n < E' t"
    "set (actives (tm k') (pxCurrentTimerList (tm k))) \<subseteq> (if Suc n = 2 ^ 32 * Suc r then set ts else set (t # ts))"
proof -
  let ?s = "tm k" and ?cur = "pxCurrentTimerList (tm k)"
  have mem: "timer_container (timers ?s t) = Some ?cur" using assms(2,3) unfolding timers_ok_def by (metis list.set_intros(1))
  then have et: "timer_value (timers ?s t) = of_nat (E t)" "0 < period ?s t" "round_of (E t) = r"
    using assms(2) by (auto simp: timers_ok_def)
  have d: "n - E t < 2 ^ 32" using same_round [of "E t" n] et(3) assms(4,5) by simp
  obtain s1 where r: "remove_timer t ?s = Some s1" "timers_ok r E s1" "\<not> listed s1 t" "only t ?s s1" "fired s1 = fired ?s"
    "actives s1 ?cur = remove1 t (actives ?s ?cur)" "timer_value (timers s1 t) = timer_value (timers ?s t)"
    by (rule remove_timer_spec [OF assms(2) mem])
  let ?k1 = "k\<lparr>tm := s1\<rparr>"
  have p1: "period s1 t = period ?s t" "auto_reload s1 t = auto_reload ?s t" using r(4) by (simp_all add: only_def timer_frame_def)
  let ?P = "period ?s t" and ?j = "(n - E t) div period ?s t"
  let ?E = "E(t := E t + Suc ?j * ?P)"
  have late: "E t + ?j * ?P \<le> n" using assms(4) div_times_less_eq_dividend [of "n - E t" ?P] by linarith
  have "(n - E t) < Suc ?j * ?P" using et(2) by (metis dividend_less_div_times mult_Suc)
  then have early: "n < E t + Suc ?j * ?P" using assms(4) by linarith
  have "\<exists>k2. reload_or_stop callback t (of_nat (E t)) (of_nat n) ?k1 = Some k2 \<and>
    timers_ok r ?E (tm k2) \<and> only t ?s (tm k2) \<and> kernel_same k k2 \<and>
    fired (tm k2) = replicate (if auto_reload ?s t then ?j else 0) t @ fired ?s \<and>
    timer_container (timers (tm k2) t) = (if auto_reload ?s t then
      Some (if round_of (E t + Suc ?j * ?P) = r then ?cur else pxOverflowTimerList ?s) else None)"
  proof (cases "auto_reload ?s t")
    case True
    from reload_spec [OF assms(1), of r E ?k1 t ?P "E t" n] obtain k2 where
      "prvReloadTimer callback t (of_nat (E t)) (of_nat n) ?k1 = Some k2" "timers_ok r ?E (tm k2)" "only t s1 (tm k2)" "kernel_same ?k1 k2"
      "fired (tm k2) = replicate ?j t @ fired s1"
      "timer_container (timers (tm k2) t) = Some (if round_of (E t + Suc ?j * ?P) = r then pxCurrentTimerList s1 else pxOverflowTimerList s1)"
      using r(2,3) p1(1) et(2) assms(4,5) d by auto
    moreover have "pxCurrentTimerList s1 = ?cur" "pxOverflowTimerList s1 = pxOverflowTimerList ?s" using r(4) by (simp_all add: only_def)
    moreover have "auto_reload (tm ?k1) t" using True p1(2) by simp
    ultimately show ?thesis using True r(5) only_trans [OF r(4)] by (intro exI [of _ k2]) (simp add: reload_or_stop_def)
  next
    case False
    let ?k2 = "upd_tm (upd_timer t (\<lambda>b. b\<lparr>ucStatus := ucStatus b AND NOT tmrSTATUS_IS_ACTIVE\<rparr>)) ?k1"
    have a: "(NOT tmrSTATUS_IS_ACTIVE) AND tmrSTATUS_IS_AUTORELOAD = tmrSTATUS_IS_AUTORELOAD"
      by (simp add: tmrSTATUS_IS_ACTIVE_def tmrSTATUS_IS_AUTORELOAD_def)
    have "timers_ok r ?E (tm ?k2)" using r(2) unlisted_ok [OF r(3)] by simp
    moreover have "only t s1 (tm ?k2)"
      by (auto simp: only_def timer_frame_def upd_timer_def and.assoc a)
    moreover have "reload_or_stop callback t (of_nat (E t)) (of_nat n) ?k1 = Some ?k2"
      using False p1(2) by (simp add: reload_or_stop_def)
    ultimately show ?thesis using False r(3,5) only_trans [OF r(4)] by (intro exI [of _ ?k2]) (simp add: upd_timer_def)
  qed
  then obtain k2 where k2: "reload_or_stop callback t (of_nat (E t)) (of_nat n) ?k1 = Some k2"
    "timers_ok r ?E (tm k2)" "only t ?s (tm k2)" "kernel_same k k2"
    "fired (tm k2) = replicate (if auto_reload ?s t then ?j else 0) t @ fired ?s"
    "timer_container (timers (tm k2) t) = (if auto_reload ?s t then
      Some (if round_of (E t + Suc ?j * ?P) = r then ?cur else pxOverflowTimerList ?s) else None)" by blast
  obtain k' where c: "call_timer callback t k2 = Some k'" "tm k' = (tm k2)\<lparr>fired := t # fired (tm k2)\<rparr>" "kernel_same k2 k'"
    by (rule call_timer_spec [OF assms(1)])
  let ?i = "if auto_reload ?s t then Suc ?j else 1"
  have call: "prvProcessExpiredTimer callback (timer_value (timers ?s t)) (of_nat n) k = Some k'"
    using k2(1) c(1) by (simp add: prvProcessExpiredTimer_def first_of_def assms(3) r(1) et(1))
  have ok': "timers_ok r ?E (tm k')" using k2(2) by (simp add: c(2))
  have o': "only t ?s (tm k')" using k2(3) by (simp add: c(2))
  have sv: "served n E ?s ?E (tm k') ((\<lambda>_. 0)(t := ?i))"
    by (rule only_served [OF o']) (use mem k2(5,6) assms(4) late in \<open>simp_all add: c(2)\<close>)
  have inc: "set (actives (tm k') ?cur) \<subseteq> (if Suc n = 2 ^ 32 * Suc r then set ts else set (t # ts))"
  proof -
    have l': "u \<in> set (actives (tm k') ?cur) \<longleftrightarrow> timer_container (timers (tm k') u) = Some ?cur" for u
      using ok' by (simp add: timers_ok_def)
    have l: "u \<in> set (t # ts) \<longleftrightarrow> timer_container (timers ?s u) = Some ?cur" for u
      using assms(2,3) unfolding timers_ok_def by metis
    have "t \<notin> set (actives (tm k') ?cur)" if "Suc n = 2 ^ 32 * Suc r"
    proof -
      have "2 ^ 32 * Suc r \<le> E t + Suc ?j * ?P" using early that by simp
      then have "Suc r \<le> round_of (E t + Suc ?j * ?P)" using div_le_mono [of "2 ^ 32 * Suc r" _ "2 ^ 32"] by simp
      then have "timer_container (timers (tm k') t) \<noteq> Some ?cur"
        using k2(6) ok' o' by (simp add: c(2) timers_ok_def only_def split: if_splits)
      then show ?thesis by (simp add: l')
    qed
    moreover have "u \<in> set (actives (tm k') ?cur) \<Longrightarrow> u \<in> set (t # ts)" for u
      using l l' o' by (cases "u = t") (auto simp: only_def)
    ultimately show ?thesis by auto
  qed
  show thesis
    using that [OF call ok' sv _ _ only_lists_same [OF o'] _ inc] kernel_same_trans [OF k2(4) c(3)] early by simp
qed

section \<open>The end of a round\<close>

lemma served_later: "served n E s E' s' c \<Longrightarrow> n \<le> n' \<Longrightarrow> served n' E s E' s' c"
  using served_trans [OF _ served_refl, of n E s E' s' c n'] by simp

lemma round_end: "(of_nat (2 ^ 32 * Suc r - 1) :: u32) = tmrMAX_TIME_BEFORE_OVERFLOW" "round_of (2 ^ 32 * Suc r - 1) = r"
proof -
  have "2 ^ 32 * Suc r - 1 = 2 ^ 32 * r + (2 ^ 32 - 1)" by simp
  then show "round_of (2 ^ 32 * Suc r - 1) = r" by simp
  have "(of_nat (2 ^ 32 * Suc r) :: u32) = 0" by (rule word_unat_eq_iff [THEN iffD2]) (simp only: of_nat_u32, simp)
  then show "(of_nat (2 ^ 32 * Suc r - 1) :: u32) = tmrMAX_TIME_BEFORE_OVERFLOW"
    unfolding tmrMAX_TIME_BEFORE_OVERFLOW_def by (subst of_nat_diff) simp_all
qed

lemma round_last: "round_of e = r \<Longrightarrow> e \<le> 2 ^ 32 * Suc r - 1"
  using div_mult_mod_eq [of e "2 ^ 32"] mod_less_divisor [of "2 ^ 32" e] by simp

lemma switch_spec:
  assumes "callbacks_ok callback" "timers_ok r E (tm k)"
  shows "\<exists>k' E' c. prvSwitchTimerLists callback k = Some k' \<and> timers_ok (Suc r) E' (tm k') \<and>
    served (2 ^ 32 * Suc r - 1) E (tm k) E' (tm k') c \<and> kernel_same k k'"
  using assms(2)
proof (induction "length (actives (tm k) (pxCurrentTimerList (tm k)))" arbitrary: k E rule: less_induct)
  case less
  let ?N = "2 ^ 32 * Suc r - 1" and ?s = "tm k"
  let ?cur = "pxCurrentTimerList ?s"
  show ?case
  proof (cases "actives ?s ?cur")
    case Nil
    let ?k' = "upd_tm (\<lambda>s. s\<lparr>pxCurrentTimerList := pxOverflowTimerList s, pxOverflowTimerList := pxCurrentTimerList s\<rparr>) k"
    have "timer_container (timers ?s t) \<noteq> Some ?cur" for t
      using less(2) Nil unfolding timers_ok_def by (metis empty_iff list.set(1))
    then have "timers_ok (Suc r) E (tm ?k')"
      using less(2) timer_list_cases [of ?cur "pxOverflowTimerList ?s"] by (auto simp: timers_ok_def)
    moreover have "served ?N E ?s E (tm ?k') (\<lambda>_. 0)" by (simp add: served_def timer_frame_def)
    moreover have "prvSwitchTimerLists callback k = Some ?k'" using Nil by (subst prvSwitchTimerLists.simps) simp
    ultimately show ?thesis by (intro exI [of _ ?k'] exI [of _ E] exI) auto
  next
    case (Cons t ts)
    have "round_of (E t) = r" using less(2) Cons unfolding timers_ok_def by (metis list.set_intros(1))
    then have et: "E t \<le> ?N" by (rule round_last)
    obtain k1 E1 i where p: "prvProcessExpiredTimer callback (timer_value (timers ?s t)) (of_nat ?N) k = Some k1"
      "timers_ok r E1 (tm k1)" "served ?N E ?s E1 (tm k1) ((\<lambda>_. 0)(t := i))" "0 < i" "kernel_same k k1" "lists_same ?s (tm k1)"
      "listed (tm k1) t \<longrightarrow> ?N < E1 t"
      "set (actives (tm k1) ?cur) \<subseteq> (if Suc ?N = 2 ^ 32 * Suc r then set ts else set (t # ts))"
      by (rule process_expired_spec [OF assms(1) less(2) Cons et round_end(2)])
    have c1: "pxCurrentTimerList (tm k1) = ?cur" using p(6) by (simp add: lists_same_def)
    have "distinct (actives (tm k1) ?cur)" using p(2) by (auto simp: timers_ok_def kl_wf_def)
    then have "length (actives (tm k1) ?cur) = card (set (actives (tm k1) ?cur))" by (simp add: distinct_card)
    also have "\<dots> \<le> card (set ts)" using p(8) by (intro card_mono) auto
    also have "\<dots> \<le> length ts" by (rule card_length)
    finally have "length (actives (tm k1) (pxCurrentTimerList (tm k1))) < length (actives ?s ?cur)" using Cons c1 by simp
    from less(1) [OF this p(2)] obtain k' E' c where q: "prvSwitchTimerLists callback k1 = Some k'" "timers_ok (Suc r) E' (tm k')"
      "served ?N E1 (tm k1) E' (tm k') c" "kernel_same k1 k'" by blast
    have "prvSwitchTimerLists callback k = Some k'"
      using p(1) [unfolded round_end(1)] q(1) by (subst prvSwitchTimerLists.simps) (simp add: Cons)
    then show ?thesis
      using q(2) served_trans [OF p(3) q(3)] kernel_same_trans [OF p(5) q(4)] by blast
  qed
qed

text \<open>The task last looked at the clock at tick \<open>n\<close>; a timer expires at most one period, less than \<open>2^32\<close> ticks, later.\<close>

definition timer_inv :: "nat \<Rightarrow> (u32 \<Rightarrow> nat) \<Rightarrow> timer_state \<Rightarrow> bool" where
  "timer_inv n E s \<longleftrightarrow> timers_ok (round_of n) E s \<and> xLastTime s = of_nat n \<and> (\<forall>u. listed s u \<longrightarrow> E u < n + 2 ^ 32)"

lemma served_near:
  assumes "served n' E s E' s' c" "\<forall>u. listed s u \<longrightarrow> E u < n + 2 ^ 32" "n \<le> n'"
  shows "\<forall>u. listed s' u \<longrightarrow> E' u < n' + 2 ^ 32"
proof (intro allI impI)
  fix u assume u: "listed s' u"
  then have l: "listed s u" using assms(1) unfolding served_def by blast
  then have e: "E u < n' + 2 ^ 32" using assms(2,3) by (meson add_le_mono1 order_less_le_trans)
  have p: "period s u < 2 ^ 32" using unsigned_less [of "xTimerPeriodInTicks (timers s u)"] by simp
  show "E' u < n' + 2 ^ 32"
  proof (cases "auto_reload s u \<and> c u \<noteq> 0")
    case True
    then have "E' u = E u + c u * period s u" "E u + (c u - 1) * period s u \<le> n'" using assms(1) l unfolding served_def by blast+
    moreover have "c u * period s u = (c u - 1) * period s u + period s u" using True by (cases "c u") simp_all
    ultimately show ?thesis using p by linarith
  next
    case False
    show ?thesis
    proof (cases "auto_reload s u")
      case True
      then have "E' u = E u + c u * period s u" using assms(1) l unfolding served_def by blast
      then show ?thesis using True False e by simp
    next
      case False
      then have "E' u = E u" using assms(1) l u unfolding served_def by blast
      then show ?thesis using e by simp
    qed
  qed
qed

lemma tick_wraps:
  assumes "n \<le> n'" "n' - n < 2 ^ 32"
  shows "(of_nat n' :: u32) < of_nat n \<longleftrightarrow> round_of n' \<noteq> round_of n" "round_of n' \<noteq> round_of n \<Longrightarrow> round_of n' = Suc (round_of n)"
proof -
  define a where "a = round_of n" define b where "b = round_of n'"
  have d: "n = 2 ^ 32 * a + n mod 2 ^ 32" "n' = 2 ^ 32 * b + n' mod 2 ^ 32" "n mod 2 ^ 32 < 2 ^ 32" "n' mod 2 ^ 32 < 2 ^ 32"
    by (simp_all add: a_def b_def)
  have ab: "a \<le> b" using assms(1) by (simp add: a_def b_def div_le_mono)
  have "b < a + 2" using d assms by simp
  with ab have c: "b = a \<or> b = Suc a" by linarith
  have "(of_nat n' :: u32) < of_nat n \<longleftrightarrow> n' mod 2 ^ 32 < n mod 2 ^ 32" by (simp add: word_less_nat_alt of_nat_u32)
  also have "\<dots> \<longleftrightarrow> b \<noteq> a"
  proof
    assume "n' mod 2 ^ 32 < n mod 2 ^ 32"
    then show "b \<noteq> a" using d assms(1) by auto
  next
    assume "b \<noteq> a"
    then have "n' = 2 ^ 32 * a + 2 ^ 32 + n' mod 2 ^ 32" using c d(2) by auto
    then show "n' mod 2 ^ 32 < n mod 2 ^ 32" using d(1) assms by linarith
  qed
  finally show "(of_nat n' :: u32) < of_nat n \<longleftrightarrow> round_of n' \<noteq> round_of n" by (simp add: a_def b_def)
  show "round_of n' = Suc (round_of n)" if "round_of n' \<noteq> round_of n" using c that by (simp add: a_def b_def)
qed

lemma sample_spec:
  assumes "callbacks_ok callback" "timer_inv n E (tm k)" "xTickCount k = of_nat n'" "n \<le> n'" "n' - n < 2 ^ 32"
  obtains (same) "round_of n' = round_of n" "prvSampleTimeNow callback k = Some (of_nat n', False, k\<lparr>tm := (tm k)\<lparr>xLastTime := of_nat n'\<rparr>\<rparr>)"
      "timer_inv n' E ((tm k)\<lparr>xLastTime := of_nat n'\<rparr>)"
  | (switched) k' E' c where "round_of n' = Suc (round_of n)" "prvSampleTimeNow callback k = Some (of_nat n', True, k')"
      "timer_inv n' E' (tm k')" "served n' E (tm k) E' (tm k') c" "kernel_same k k'"
proof -
  have ok: "timers_ok (round_of n) E (tm k)" "xLastTime (tm k) = of_nat n" "\<forall>u. listed (tm k) u \<longrightarrow> E u < n + 2 ^ 32"
    using assms(2) by (simp_all add: timer_inv_def)
  note w = tick_wraps [OF assms(4,5)]
  show thesis
  proof (cases "round_of n' = round_of n")
    case True
    then have "prvSampleTimeNow callback k = Some (of_nat n', False, k\<lparr>tm := (tm k)\<lparr>xLastTime := of_nat n'\<rparr>\<rparr>)"
      using w(1) by (simp add: prvSampleTimeNow_def Let_def assms(3) ok(2) upd_tm_def)
    moreover have "\<forall>u. listed (tm k) u \<longrightarrow> E u < n' + 2 ^ 32" using served_near [OF served_refl ok(3) assms(4)] .
    ultimately show thesis using same True ok(1) by (simp add: timer_inv_def)
  next
    case False
    from switch_spec [OF assms(1) ok(1)] obtain k1 E' c where s: "prvSwitchTimerLists callback k = Some k1"
      "timers_ok (Suc (round_of n)) E' (tm k1)" "served (2 ^ 32 * Suc (round_of n) - 1) E (tm k) E' (tm k1) c" "kernel_same k k1" by blast
    let ?k' = "upd_tm (\<lambda>s. s\<lparr>xLastTime := of_nat n'\<rparr>) k1"
    have r: "round_of n' = Suc (round_of n)" by (rule w(2) [OF False])
    have "2 ^ 32 * Suc (round_of n) \<le> n'" using r by (metis times_div_less_eq_dividend)
    then have "served n' E (tm k) E' (tm k1) c" by (intro served_later [OF s(3)]) simp
    then have "served n' E (tm k) E' (tm ?k') c" by (simp add: served_def timer_frame_def)
    moreover have "prvSampleTimeNow callback k = Some (of_nat n', True, ?k')"
      using w(1) False s(1) by (simp add: prvSampleTimeNow_def Let_def assms(3) ok(2))
    moreover have "timer_inv n' E' (tm ?k')"
      using s(2) r served_near [OF \<open>served n' E (tm k) E' (tm k1) c\<close> ok(3) assms(4)] by (simp add: timer_inv_def)
    ultimately show thesis using switched [OF r] s(4) by simp
  qed
qed

section \<open>Waiting for a message\<close>

lemma kernel_same_fields:
  assumes "kernel_same k k'"
  shows "tcbs k' = tcbs k" "task_lists k' = task_lists k" "pxCurrentTCB k' = pxCurrentTCB k" "xTickCount k' = xTickCount k"
    "pxDelayedTaskList k' = pxDelayedTaskList k" "pxOverflowDelayedTaskList k' = pxOverflowDelayedTaskList k"
    "xNextTaskUnblockTime k' = xNextTaskUnblockTime k" "uxTopReadyPriority k' = uxTopReadyPriority k"
    "uxSchedulerSuspended k' = uxSchedulerSuspended k" "xPendedTicks k' = xPendedTicks k"
    "uxCurrentNumberOfTasks k' = uxCurrentNumberOfTasks k" "queues k' = queues k"
  using assms by (simp_all add: kernel_same_def kernel.defs)

lemma kernel_same_can_run: "kernel_same k k' \<Longrightarrow> can_run c k' = can_run c k" "kernel_same k k' \<Longrightarrow> sched_inv k' = sched_inv k"
  by (auto simp: can_run_def quiet_def pending_def inv_defs lists_ok_def ready_ok_def delayed_ok_def kernel_same_fields)

lemma tm_more: "kernel.more k' = kernel.more k \<Longrightarrow> tm k' = tm k" "qkernel.more k' = qkernel.more k \<Longrightarrow> tm k' = tm k"
  by (cases k; cases k'; simp)+

lemma lock_fields [simp]:
  "tcbs (prvLockQueue q k) = tcbs k" "task_lists (prvLockQueue q k) = task_lists k" "sched_inv (prvLockQueue q k) = sched_inv k"
  "pxCurrentTCB (prvLockQueue q k) = pxCurrentTCB k" "uxSchedulerSuspended (prvLockQueue q k) = uxSchedulerSuspended k"
  "xPendedTicks (prvLockQueue q k) = xPendedTicks k" "uxCurrentNumberOfTasks (prvLockQueue q k) = uxCurrentNumberOfTasks k"
  "xTickCount (prvLockQueue q k) = xTickCount k" "qkernel.more (prvLockQueue q k) = qkernel.more k"
  by (simp_all add: prvLockQueue_def)

text \<open>
  The timer task goes to wait: it blocks for the given time, or without limit, unless a message is waiting already.
\<close>

definition wait_tcb :: "nat \<Rightarrow> TickType_t \<Rightarrow> bool \<Rightarrow> 'z kernel_scheme \<Rightarrow> tcb \<Rightarrow> tcb" where
  "wait_tcb q n indef k b = parked (if indef then portMAX_DELAY else n) indef k (b\<lparr>event_list := Some (WaitingToReceive q)\<rparr>)"

lemma place_restricted:
  assumes "sched_inv k" "pxCurrentTCB k = Some d" "state_list (tcbs k d) = Some l" "event_list (tcbs k d) = None" "indef \<or> n \<noteq> 0"
  obtains k' where "vTaskPlaceOnEventListRestricted (WaitingToReceive q) n indef k = Some k'" "sched_inv k'"
    "tcbs k' = (tcbs k)(d := wait_tcb q n indef k (tcbs k d))" "kernel.more k' = kernel.more k"
    "same_clock k (k'\<lparr>xNextTaskUnblockTime := xNextTaskUnblockTime k\<rparr>)"
proof -
  let ?E = "WaitingToReceive q" and ?n = "if indef then portMAX_DELAY else n"
  let ?k1 = "insert_end_event ?E d k"
  have li: "list_inv ?k1" by (rule list_inv_insert_event(2) [OF sched_inv_parts(1) [OF assms(1)] assms(4)]) simp
  have f: "same_clock k ?k1" "kernel.more ?k1 = kernel.more k" "tcbs ?k1 = (tcbs k)(d := (tcbs k d)\<lparr>event_list := Some ?E\<rparr>)"
    by (simp_all add: insert_end_event_def upd_defs same_clock_def)
  have nz: "?n \<noteq> 0" using assms(5) by (auto simp: portMAX_DELAY_def)
  obtain k' where p: "prvAddCurrentTaskToDelayedList ?n indef ?k1 = Some k'" "sched_inv k'"
    "tcbs k' = (tcbs k)(d := parked ?n indef k ((tcbs k d)\<lparr>event_list := Some ?E\<rparr>))"
    "kernel.more k' = kernel.more k" "same_clock k (k'\<lparr>xNextTaskUnblockTime := xNextTaskUnblockTime k\<rparr>)"
    "\<And>l'. is_event_list l' \<Longrightarrow> task_lists k' l' = task_lists ?k1 l'"
    by (rule park_waiter [OF assms(1) li assms(2,3) nz f]) (auto intro: that)
  have "vTaskPlaceOnEventListRestricted ?E n indef k = Some k'"
    using assms(2) p(1) by (simp add: vTaskPlaceOnEventListRestricted_def Let_def)
  then show thesis using that p(2-5) by (simp add: wait_tcb_def)
qed

lemma restricted_wait:
  assumes "sched_inv k" "uxSchedulerSuspended k = 1" "xPendedTicks k = 0" "\<And>t. \<not> pending k t" "can_block q d k" "indef \<or> n \<noteq> 0"
  obtains k1 y k' where "vQueueWaitForMessageRestricted q n indef k = Some k1" "xTaskResumeAll k1 = Some (y, k')" "can_run d k'"
    "tcbs k' = (if uxMessagesWaiting (queues k q) = 0 then (tcbs k)(d := wait_tcb q n indef k (tcbs k d)) else tcbs k)"
    "tm k' = tm k" "xTickCount k' = xTickCount k" "queues k' = queues k"
proof -
  obtain l where c: "pxCurrentTCB k = Some d" "state_list (tcbs k d) = Some l" "event_list (tcbs k d) = None"
    "uxCurrentNumberOfTasks k > 0" "cTxLock (queues k q) = queueUNLOCKED" "cRxLock (queues k q) = queueUNLOCKED"
    using assms(5) by (auto simp: can_block_def)
  let ?k0 = "prvLockQueue q k" and ?b = "wait_tcb q n indef k (tcbs k d)"
  have q0: "queues ?k0 = (queues k)(q := (queues k q)\<lparr>cRxLock := 0, cTxLock := 0\<rparr>)"
    using c(5,6) by (simp add: prvLockQueue_def queueLOCKED_UNMODIFIED_def)
  have wt: "wait_tcb q n indef ?k0 = wait_tcb q n indef k"
    by (simp add: wait_tcb_def parked_def fun_eq_iff prvLockQueue_def upd_queue_def)
  obtain k1 where p: "(if uxMessagesWaiting (queues ?k0 q) = 0 then vTaskPlaceOnEventListRestricted (WaitingToReceive q) n indef ?k0 else Some ?k0) = Some k1"
    "sched_inv k1" "tcbs k1 = (if uxMessagesWaiting (queues k q) = 0 then (tcbs k)(d := ?b) else tcbs k)"
    "kernel.more k1 = kernel.more ?k0" "same_clock ?k0 (k1\<lparr>xNextTaskUnblockTime := xNextTaskUnblockTime ?k0\<rparr>)"
  proof (cases "uxMessagesWaiting (queues k q) = 0")
    case True
    obtain k1 where "vTaskPlaceOnEventListRestricted (WaitingToReceive q) n indef ?k0 = Some k1" "sched_inv k1"
      "tcbs k1 = (tcbs ?k0)(d := wait_tcb q n indef ?k0 (tcbs ?k0 d))" "kernel.more k1 = kernel.more ?k0"
      "same_clock ?k0 (k1\<lparr>xNextTaskUnblockTime := xNextTaskUnblockTime ?k0\<rparr>)"
      by (rule place_restricted [of ?k0 d l indef n q]) (use assms(1,6) c in simp_all)
    with True show thesis by (intro that [of k1]) (simp_all add: q0 wt)
  next
    case False
    then show thesis using assms(1) by (intro that [of ?k0]) (simp_all add: q0 same_clock_def)
  qed
  have c1: "pxCurrentTCB k1 = Some d" "uxSchedulerSuspended k1 = 1" "xPendedTicks k1 = 0" "uxCurrentNumberOfTasks k1 > 0"
    "xTickCount k1 = xTickCount k" "queues k1 = queues ?k0" "tm k1 = tm k"
    using p(5) c assms(2,3) queues_more(1) [OF p(4)] tm_more(1) [OF p(4)] tm_more(2) [of ?k0 k] by (simp_all add: same_clock_def)
  obtain k2 where u: "prvUnlockQueue q k1 = Some k2" "sched_inv k2" "pxCurrentTCB k2 = Some d"
    "queues k2 = (queues k1)(q := (queues k1 q)\<lparr>cTxLock := queueUNLOCKED, cRxLock := queueUNLOCKED\<rparr>)"
    "members k2 (WaitingToReceive q) = drop (nat (cTxLock (queues k1 q))) (members k1 (WaitingToReceive q))"
    "members k2 (WaitingToSend q) = drop (nat (cRxLock (queues k1 q))) (members k1 (WaitingToSend q))"
    "tcbs k2 = (\<lambda>t. if t \<in> set (take (nat (cTxLock (queues k1 q))) (members k1 (WaitingToReceive q))) \<or>
         t \<in> set (take (nat (cRxLock (queues k1 q))) (members k1 (WaitingToSend q))) then released k1 (tcbs k1 t) else tcbs k1 t)"
    "uxSchedulerSuspended k2 = uxSchedulerSuspended k1" "xPendedTicks k2 = xPendedTicks k1" "xTickCount k2 = xTickCount k1"
    "uxCurrentNumberOfTasks k2 = uxCurrentNumberOfTasks k1" "pendsv k2 = pendsv k1" "qkernel.more k2 = qkernel.more k1"
    by (rule prvUnlockQueue_effect [OF p(2) c1(1)])
  have q2: "queues k2 = queues k" using c(5,6) by (simp add: u(4) c1(6) q0 fun_eq_iff)
  have t2: "tcbs k2 = tcbs k1" by (simp add: u(7) c1(6) q0)
  have np: "\<not> pending k2 t" for t using assms(4) [of t] by (auto simp: pending_def t2 p(3) wait_tcb_def)
  have f2: "uxSchedulerSuspended k2 = 1" "xPendedTicks k2 = 0" "uxCurrentNumberOfTasks k2 > 0" using u(8,9,11) c1 by simp_all
  obtain y k' where r: "xTaskResumeAll k2 = Some (y, k')" "sched_inv k'" "quiet k'" "tcbs k' = tcbs k2"
    "pxCurrentTCB k' = Some d" "xTickCount k' = xTickCount k2" "kernel.more k' = kernel.more k2"
    "uxCurrentNumberOfTasks k' = uxCurrentNumberOfTasks k2" "xSchedulerRunning k' = xSchedulerRunning k2"
    "y \<longrightarrow> pendsv k'" "xYieldPending k2 \<longrightarrow> y"
    by (rule resume_quiet [OF u(2) f2(1,2) np u(3) f2(3)])
  have "vQueueWaitForMessageRestricted q n indef k = Some k2"
    using p(1) u(1) by (simp add: vQueueWaitForMessageRestricted_def Let_def)
  then show thesis
    by (rule that [OF _ r(1)]) (use r f2 t2 p(3) u(10) c1 q2 tm_more(1) [OF r(7)] tm_more(2) [OF u(13)] queues_more(1) [OF r(7)] in \<open>simp_all add: can_run_def\<close>)
qed

section \<open>One pass of the timer task\<close>

text \<open>The timer task \<open>d\<close> with queue \<open>q\<close> runs at tick \<open>n\<close>.\<close>

definition timer_ready :: "nat \<Rightarrow> tid \<Rightarrow> nat \<Rightarrow> 'z tkernel_scheme \<Rightarrow> bool" where
  "timer_ready q d n k \<longleftrightarrow> can_run d k \<and> can_block q d k \<and> xTimerQueue (tm k) = Some q \<and> xTickCount k = of_nat n"

text \<open>Until when the task waits: until the next expiry, but not past the wrap of the counter; without limit when no timer is active.\<close>

definition sleep_until :: "nat \<Rightarrow> (u32 \<Rightarrow> nat) \<Rightarrow> timer_state \<Rightarrow> nat option" where
  "sleep_until n E s = (if \<exists>u. listed s u then Some (min (Min (E ` {u. listed s u})) (2 ^ 32 * Suc (round_of n))) else None)"

lemma kernel_same_can_block: "kernel_same k k' \<Longrightarrow> can_block q d k' = can_block q d k"
  by (simp add: can_block_def kernel_same_fields)

lemma resume_ready:
  assumes "can_run d (k1 :: 'z tkernel_scheme)" "can_block q d k1" "uxSchedulerSuspended k2 = 1" "kernel_same (vTaskSuspendAll k1) k2"
  obtains y k' where "xTaskResumeAll k2 = Some (y, k')" "can_run d k'" "can_block q d k'" "tm k' = tm k2" "xTickCount k' = xTickCount k1"
    "queues k' = queues k1"
proof -
  note f = kernel_same_fields [OF assms(4)] kernel_same_can_run(2) [OF assms(4)]
  have g: "sched_inv k1" "xPendedTicks k1 = 0" "\<And>t. \<not> pending k1 t" "pxCurrentTCB k1 = Some d" "uxCurrentNumberOfTasks k1 > 0"
    using assms(1) by (simp_all add: can_run_def quiet_def)
  have h: "sched_inv k2" "xPendedTicks k2 = 0" "\<And>t. \<not> pending k2 t" "pxCurrentTCB k2 = Some d" "uxCurrentNumberOfTasks k2 > 0"
    using g f by (simp_all add: pending_def)
  obtain y k' where r: "xTaskResumeAll k2 = Some (y, k')" "sched_inv k'" "quiet k'" "tcbs k' = tcbs k2"
    "pxCurrentTCB k' = Some d" "xTickCount k' = xTickCount k2" "kernel.more k' = kernel.more k2"
    "uxCurrentNumberOfTasks k' = uxCurrentNumberOfTasks k2" "xSchedulerRunning k' = xSchedulerRunning k2"
    "y \<longrightarrow> pendsv k'" "xYieldPending k2 \<longrightarrow> y"
    by (rule resume_quiet [OF h(1) assms(3) h(2-5)])
  have q: "queues k' = queues k1" using queues_more(1) [OF r(7)] f(12) by (simp add: vTaskSuspendAll_def)
  show thesis
    by (rule that [OF r(1)]) (use r(2-6,8) h f q assms(2) tm_more(1) [OF r(7)] in \<open>simp_all add: can_run_def can_block_def\<close>)
qed

lemma same_round_le: "round_of a = round_of b \<Longrightarrow> (of_nat a :: u32) \<le> of_nat b \<longleftrightarrow> a \<le> b"
proof -
  assume r: "round_of a = round_of b"
  have "a = 2 ^ 32 * round_of b + a mod 2 ^ 32" "b = 2 ^ 32 * round_of b + b mod 2 ^ 32" by (metis r mult_div_mod_eq) simp
  then have "a \<le> b \<longleftrightarrow> a mod 2 ^ 32 \<le> b mod 2 ^ 32" by linarith
  then show ?thesis by (simp add: word_le_nat_alt of_nat_u32)
qed

lemma earlier_round: "round_of a < round_of b \<Longrightarrow> a < b \<and> 2 ^ 32 * Suc (round_of a) \<le> b"
proof -
  assume "round_of a < round_of b"
  then have "2 ^ 32 * Suc (round_of a) \<le> 2 ^ 32 * round_of b" by (intro mult_le_mono2) simp
  also have "\<dots> \<le> b" by simp
  finally show ?thesis using round_last [of a] by fastforce
qed

lemma listed_cases:
  assumes "timers_ok r E s" "listed s u"
  obtains (cur) "u \<in> set (actives s (pxCurrentTimerList s))" "round_of (E u) = r" "timer_value (timers s u) = of_nat (E u)"
  | (over) "u \<in> set (actives s (pxOverflowTimerList s))" "round_of (E u) = Suc r"
proof -
  obtain l where l: "timer_container (timers s u) = Some l" using assms(2) by blast
  have "l = pxCurrentTimerList s \<or> l = pxOverflowTimerList s" using assms(1) timer_list_cases by (simp add: timers_ok_def)
  then show thesis using assms(1) l cur over unfolding timers_ok_def by metis
qed

lemma head_earliest:
  assumes "timers_ok r E s" "actives s (pxCurrentTimerList s) = t # ts" "listed s u"
  shows "E t \<le> E u" "listed s t" "round_of (E t) = r" "timer_value (timers s t) = of_nat (E t)"
proof -
  have "timer_container (timers s t) = Some (pxCurrentTimerList s)" using assms(1,2) unfolding timers_ok_def by (metis list.set_intros(1))
  then show t: "listed s t" "round_of (E t) = r" "timer_value (timers s t) = of_nat (E t)" using assms(1) by (auto simp: timers_ok_def)
  show "E t \<le> E u"
  proof (cases rule: listed_cases [OF assms(1,3), case_names cur over])
    case cur
    have "sorted (map (\<lambda>t. timer_value (timers s t)) (t # ts))" using assms(1,2) unfolding timers_ok_def by metis
    then have "timer_value (timers s t) \<le> timer_value (timers s u)" using cur(1) assms(2) by auto
    then show ?thesis using cur(2,3) t same_round_le [of "E t" "E u"] by simp
  next
    case over
    then show ?thesis using t(2) earlier_round [of "E t" "E u"] by simp
  qed
qed

lemma sleep_time:
  assumes "timer_inv n E s" "prvGetNextExpireTime s = (v, emp)" "emp \<or> \<not> v \<le> of_nat n"
  shows "listed s u \<Longrightarrow> n < E u"
    "sleep_until n E s = None \<longleftrightarrow> emp \<and> actives s (pxOverflowTimerList s) = []"
    "sleep_until n E s = Some w \<Longrightarrow> v - of_nat n = of_nat (w - n) \<and> n < w \<and> w - n < 2 ^ 32"
proof -
  let ?cur = "pxCurrentTimerList s" and ?ov = "pxOverflowTimerList s" and ?r = "round_of n" and ?L = "{u. listed s u}"
  have ok: "timers_ok ?r E s" and near: "\<And>u. listed s u \<Longrightarrow> E u < n + 2 ^ 32" using assms(1) by (auto simp: timer_inv_def)
  have fut: "n < E u" if "listed s u" for u
  proof (cases "actives s ?cur")
    case Nil
    then show ?thesis
      using listed_cases [OF ok that] earlier_round [of n "E u"] by (metis empty_iff lessI list.set(1))
  next
    case (Cons t ts)
    then have "\<not> timer_value (timers s t) \<le> of_nat n" using assms(2,3) by (auto simp: prvGetNextExpireTime_def)
    then show ?thesis using head_earliest [OF ok Cons that] same_round_le [of "E t" n] by simp
  qed
  then show "listed s u \<Longrightarrow> n < E u" .
  have mem: "u \<in> set (actives s l) \<longleftrightarrow> timer_container (timers s u) = Some l" for u l using ok by (simp add: timers_ok_def)
  have none: "(\<exists>u. listed s u) \<longleftrightarrow> actives s ?cur \<noteq> [] \<or> actives s ?ov \<noteq> []"
    using listed_cases [OF ok] mem by (metis empty_iff list.set(1) list.set_intros(1) neq_Nil_conv option.distinct(1))
  have e: "emp \<longleftrightarrow> actives s ?cur = []" using assms(2) by (auto simp: prvGetNextExpireTime_def split: list.splits)
  show "sleep_until n E s = None \<longleftrightarrow> emp \<and> actives s ?ov = []" using none e by (simp add: sleep_until_def)
  show "v - of_nat n = of_nat (w - n) \<and> n < w \<and> w - n < 2 ^ 32" if w: "sleep_until n E s = Some w"
  proof -
    have ne: "?L \<noteq> {}" "w = min (Min (E ` ?L)) (2 ^ 32 * Suc ?r)" using w by (auto simp: sleep_until_def split: if_splits)
    have bound: "n < w" "w - n < 2 ^ 32"
    proof -
      have "Min (E ` ?L) \<in> E ` ?L" using ne(1) by (intro Min_in) simp_all
      then obtain u where "listed s u" "Min (E ` ?L) = E u" by auto
      then have "n < Min (E ` ?L)" "Min (E ` ?L) < n + 2 ^ 32" using fut near by simp_all
      moreover have "n < 2 ^ 32 * Suc ?r" by (rule order.strict_trans1 [OF round_last [OF refl]]) simp
      ultimately show "n < w" "w - n < 2 ^ 32" using ne(2) by auto
    qed
    have "(of_nat w :: u32) = v"
    proof (cases "actives s ?cur")
      case Nil
      then have "2 ^ 32 * Suc ?r \<le> E u" if "listed s u" for u
        using listed_cases [OF ok that] earlier_round [of n "E u"] by (metis empty_iff lessI list.set(1))
      then have "2 ^ 32 * Suc ?r \<le> Min (E ` ?L)" using ne(1) by (subst Min_ge_iff) auto
      then have "w = 2 ^ 32 * Suc ?r" using ne(2) by simp
      moreover have "(of_nat (2 ^ 32 * Suc ?r) :: u32) = 0" by (rule word_unat_eq_iff [THEN iffD2]) (simp only: of_nat_u32, simp)
      ultimately show ?thesis using assms(2) Nil by (simp add: prvGetNextExpireTime_def)
    next
      case (Cons t ts)
      obtain u0 where u0: "listed s u0" using ne(1) by auto
      note h = head_earliest(2-4) [OF ok Cons u0]
      have "Min (E ` ?L) = E t" using h(1) head_earliest(1) [OF ok Cons] by (intro Min_eqI) auto
      moreover have "E t < 2 ^ 32 * Suc ?r" by (rule order.strict_trans1 [OF round_last [OF h(2)]]) simp
      ultimately have "w = E t" using ne(2) by simp
      then show ?thesis using assms(2) Cons h(3) by (simp add: prvGetNextExpireTime_def)
    qed
    then show ?thesis using bound by (auto simp: of_nat_diff)
  qed
qed
end
