(* ===== verification/Timer_Task.thy ===== *)
theory Timer_Task
  imports Timer_Props
begin

text \<open>
  The timer task as a whole: a pass of its loop either calls due timers or waits, and over any run of passes every timer is
  called exactly once per expiry. The commands sent through its queue are carried out in order.
\<close>

section \<open>One pass of the loop\<close>

lemma suspend_tm [simp]: "tm (vTaskSuspendAll k) = tm k" "can_block q d (vTaskSuspendAll k) = can_block q d k"
  "queues (vTaskSuspendAll e) = queues e" "pending (vTaskSuspendAll b) t = pending b t"
  by (simp_all add: vTaskSuspendAll_def can_block_def pending_def)

lemma yield_same [simp]: "can_run d (portYIELD b) = can_run d b" "tm (portYIELD k) = tm k" "tcbs (portYIELD b) = tcbs b"
  "xTickCount (portYIELD b) = xTickCount b"
  by (auto simp: portYIELD_def can_run_def quiet_def pending_def inv_defs lists_ok_def ready_ok_def delayed_ok_def)

lemma timer_ready_parts:
  assumes "timer_ready q d n k"
  shows "can_run d k" "can_block q d k" "xTimerQueue (tm k) = Some q" "xTickCount k = of_nat n"
    "sched_inv k" "uxSchedulerSuspended k = 0" "xPendedTicks k = 0" "\<not> pending k t"
  using assms by (simp_all add: timer_ready_def can_run_def quiet_def)

lemma wait_tcb_indef: "wait_tcb q m True k = wait_tcb q 0 True k"
  by (simp add: wait_tcb_def fun_eq_iff)

lemma wait_tcb_same:
  "wait_tcb q m i (k\<lparr>tm := s\<rparr>) = wait_tcb q m i k" "wait_tcb q m i (vTaskSuspendAll k) = wait_tcb q m i k"
  by (simp_all add: wait_tcb_def parked_def fun_eq_iff vTaskSuspendAll_def)

lemma ticks_nonzero: "n < w \<Longrightarrow> w - n < 2 ^ 32 \<Longrightarrow> (of_nat (w - n) :: u32) \<noteq> 0"
proof
  assume a: "n < w" "w - n < 2 ^ 32" "(of_nat (w - n) :: u32) = 0"
  have "unat (of_nat (w - n) :: u32) = w - n" using a(2) by (intro unat_of_nat_less) simp
  then show False using a(1,3) by simp
qed

text \<open>The task control block of the timer task when it waits for its queue from tick \<open>n\<close> on.\<close>

definition sleeping :: "nat \<Rightarrow> nat \<Rightarrow> nat option \<Rightarrow> 'z kernel_scheme \<Rightarrow> tcb \<Rightarrow> tcb" where
  "sleeping q n w k = (case w of None \<Rightarrow> wait_tcb q 0 True k | Some w \<Rightarrow> wait_tcb q (of_nat (w - n)) False k)"

lemma pass_spec:
  assumes "callbacks_ok callback" "timer_inv n E (tm k)" "timer_ready q d n' k" "n \<le> n'" "n' - n < 2 ^ 32"
  obtains (switched) k' E' c where "n < n'" "timer_task_wait callback k = Some (False, k')" "timer_inv n' E' (tm k')"
      "served n' E (tm k) E' (tm k') c" "timer_ready q d n' k'" "queues k' = queues k"
  | (fired) k' E' t i where "timer_task_wait callback k = Some (False, k')" "timer_inv n' E' (tm k')"
      "served n' E (tm k) E' (tm k') ((\<lambda>_. 0)(t := i))" "timer_ready q d n' k'" "listed (tm k) t" "E t \<le> n'"
      "listed (tm k') t \<longrightarrow> n' < E' t" "queues k' = queues k"
  | (waits) k' where "timer_task_wait callback k = Some (True, k')" "timer_inv n' E (tm k')" "tm k' = (tm k)\<lparr>xLastTime := of_nat n'\<rparr>"
      "\<forall>u. listed (tm k) u \<longrightarrow> n' < E u" "can_run d k'" "xTickCount k' = of_nat n'"
      "tcbs k' = (if uxMessagesWaiting (queues k q) = 0
         then (tcbs k)(d := sleeping q n' (sleep_until n' E (tm k)) k (tcbs k d)) else tcbs k)"
proof -
  note r = timer_ready_parts [OF assms(3)]
  let ?k0 = "vTaskSuspendAll k"
  obtain v emp where ne: "prvGetNextExpireTime (tm k) = (v, emp)" by fastforce
  have tick0: "xTickCount ?k0 = of_nat n'" and inv0: "timer_inv n E (tm ?k0)" using r(4) assms(2) by simp_all
  show thesis
  proof (cases rule: sample_spec [OF assms(1) inv0 tick0 assms(4,5), case_names same switched])
    case (switched k1 E' c)
    have s1: "uxSchedulerSuspended k1 = 1" using kernel_same_fields(9) [OF switched(5)] r(6) by simp
    obtain y k' where "xTaskResumeAll k1 = Some (y, k')" "can_run d k'" "can_block q d k'" "tm k' = tm k1" "xTickCount k' = xTickCount k" "queues k' = queues k"
      by (rule resume_ready [OF r(1,2) s1 switched(5)])
    moreover have "xTimerQueue (tm k1) = Some q" using switched(4) r(3) by (simp add: served_def timer_frame_def)
    moreover have "n < n'" using switched(1) assms(4) by (metis n_not_Suc_n nat_less_le)
    ultimately show thesis
      using that(1) [of k' E' c] switched(2-4) r(4) ne
      by (simp add: timer_task_wait_def prvProcessTimerOrBlockTask_def timer_ready_def)
  next
    case same
    let ?s = "(tm k)\<lparr>xLastTime := of_nat n'\<rparr>"
    let ?k1 = "?k0\<lparr>tm := ?s\<rparr>"
    have smp: "prvSampleTimeNow callback ?k0 = Some (of_nat n', False, ?k1)" and inv1: "timer_inv n' E ?s" using same(2,3) by simp_all
    have ks: "kernel_same ?k0 ?k1" "uxSchedulerSuspended ?k1 = 1" using r(6) by simp_all
    have ne1: "prvGetNextExpireTime ?s = (v, emp)" using ne by (simp add: prvGetNextExpireTime_def split: list.splits)
    show thesis
    proof (cases "\<not> emp \<and> v \<le> of_nat n'")
      case True
      obtain y k2 where r2: "xTaskResumeAll ?k1 = Some (y, k2)" "can_run d k2" "can_block q d k2" "tm k2 = tm ?k1" "xTickCount k2 = xTickCount k"
        "queues k2 = queues k"
        by (rule resume_ready [OF r(1,2) ks(2,1)])
      obtain t ts where ts: "actives ?s (pxCurrentTimerList ?s) = t # ts" "v = timer_value (timers (tm k) t)"
        using ne True by (auto simp: prvGetNextExpireTime_def split: list.splits)
      have ok: "timers_ok (round_of n') E ?s" using inv1 by (simp add: timer_inv_def)
      have "t \<in> set (actives ?s (pxCurrentTimerList ?s))" unfolding ts(1) by simp
      then have lt: "listed ?s t" using ok unfolding timers_ok_def by blast
      note h = head_earliest(3,4) [OF ok ts(1) lt]
      have et: "E t \<le> n'" using True ts(2) h same_round_le [of "E t" n'] by simp
      have ok2: "timers_ok (round_of n') E (tm k2)" "actives (tm k2) (pxCurrentTimerList (tm k2)) = t # ts" using ok ts(1) r2(4) by simp_all
      obtain k' E' i where p: "prvProcessExpiredTimer callback (timer_value (timers (tm k2) t)) (of_nat n') k2 = Some k'"
        "timers_ok (round_of n') E' (tm k')" "served n' E (tm k2) E' (tm k') ((\<lambda>_. 0)(t := i))" "0 < i" "kernel_same k2 k'"
        "lists_same (tm k2) (tm k')" "listed (tm k') t \<longrightarrow> n' < E' t"
        "set (actives (tm k') (pxCurrentTimerList (tm k2))) \<subseteq> (if Suc n' = 2 ^ 32 * Suc (round_of n') then set ts else set (t # ts))"
        by (rule process_expired_spec [OF assms(1) ok2 et refl])
      have sv: "served n' E (tm k) E' (tm k') ((\<lambda>_. 0)(t := i))" using p(3) r2(4) by (simp add: served_def timer_frame_def)
      have "timer_inv n' E' (tm k')"
        using p(2,6) r2(4) served_near [OF sv, of n] assms(2,4) by (simp add: timer_inv_def lists_same_def)
      moreover have "timer_ready q d n' k'"
        using r2 r(3,4) kernel_same_can_run(1) [OF p(5)] kernel_same_can_block [OF p(5)] kernel_same_fields(4) [OF p(5)] sv
        by (simp add: timer_ready_def served_def timer_frame_def)
      moreover have "timer_task_wait callback k = Some (False, k')"
        using smp r2 p(1) True ne ts(2) by (simp add: timer_task_wait_def prvProcessTimerOrBlockTask_def)
      ultimately show thesis using that(2) sv lt et p(7) kernel_same_fields(12) [OF p(5)] r2(6) by simp
    next
      case False
      let ?i = "emp \<and> actives (tm k) (pxOverflowTimerList (tm k)) = []"
      note sl = sleep_time [OF inv1 ne1]
      have su: "sleep_until n' E ?s = sleep_until n' E (tm k)" by (simp add: sleep_until_def)
      have pre: "sched_inv ?k1" "xPendedTicks ?k1 = 0" "\<And>t. \<not> pending ?k1 t" "can_block q d ?k1"
        using r kernel_same_can_run(2) [OF ks(1)] kernel_same_can_block [OF ks(1)] by (simp_all add: pending_def)
      have nz: "?i \<or> v - of_nat n' \<noteq> 0"
      proof (cases "sleep_until n' E ?s")
        case None
        then show ?thesis using sl(2) False by simp
      next
        case (Some w)
        then have "v - of_nat n' = of_nat (w - n')" "(of_nat (w - n') :: u32) \<noteq> 0" using sl(3) False ticks_nonzero by blast+
        then show ?thesis by (simp only: simp_thms)
      qed
      obtain k1 y k' where w: "vQueueWaitForMessageRestricted q (v - of_nat n') ?i ?k1 = Some k1" "xTaskResumeAll k1 = Some (y, k')" "can_run d k'"
        "tcbs k' = (if uxMessagesWaiting (queues ?k1 q) = 0 then (tcbs ?k1)(d := wait_tcb q (v - of_nat n') ?i ?k1 (tcbs ?k1 d)) else tcbs ?k1)"
        "tm k' = tm ?k1" "xTickCount k' = xTickCount ?k1" "queues k' = queues ?k1"
        by (rule restricted_wait [OF pre(1) ks(2) pre(2,3,4) nz])
      have i: "(if emp then actives (tm ?k1) (pxOverflowTimerList (tm ?k1)) = [] else emp) = ?i" by simp
      have call: "timer_task_wait callback k = Some (True, if y then k' else portYIELD k')"
        using smp w(1,2) ne r(3) i by (simp add: timer_task_wait_def prvProcessTimerOrBlockTask_def Let_def) (use False in blast)
      have "wait_tcb q (v - of_nat n') ?i ?k1 = sleeping q n' (sleep_until n' E (tm k)) k"
      proof -
        have i: "?i \<longleftrightarrow> sleep_until n' E (tm k) = None" using sl(2) False unfolding su by simp
        show ?thesis unfolding i wait_tcb_same sleeping_def
          using sl(3) False unfolding su by (cases "sleep_until n' E (tm k)") (auto simp: wait_tcb_indef [of q "v - of_nat n'"])
      qed
      then show thesis
        using that(3) [OF call] inv1 w(3-6) sl(1) False r(4) by (auto simp: fun_eq_iff)
    qed
  qed
qed

section \<open>Runs of the task\<close>

text \<open>
  Passes at growing ticks. Between two passes other tasks and interrupts run, which do not touch the timers; the task comes back with
  the tick count \<open>m'\<close>, less than one round later. The boolean says that the last pass waited.
\<close>

inductive timer_run ::
  "'z tkernel_scheme callback \<Rightarrow> nat \<Rightarrow> tid \<Rightarrow> nat \<Rightarrow> 'z tkernel_scheme \<Rightarrow> bool \<Rightarrow> nat \<Rightarrow> 'z tkernel_scheme \<Rightarrow> bool"
  for callback q d n k where
  start: "timer_run callback q d n k False n k"
| pass: "timer_run callback q d n k b m k1 \<Longrightarrow> tm k2 = tm k1 \<Longrightarrow> timer_ready q d m' k2 \<Longrightarrow> m \<le> m' \<Longrightarrow> m' - m < 2 ^ 32 \<Longrightarrow>
    timer_task_wait callback k2 = Some (b', k3) \<Longrightarrow> timer_run callback q d n k b' m' k3"

text \<open>How often timer \<open>u\<close> expires up to tick \<open>m\<close>: at \<open>E u\<close>, and when it reloads once per period from there on.\<close>

definition expiries :: "timer_state \<Rightarrow> (u32 \<Rightarrow> nat) \<Rightarrow> nat \<Rightarrow> u32 \<Rightarrow> nat" where
  "expiries s E m u =
     (if \<not> listed s u \<or> m < E u then 0 else if auto_reload s u then Suc ((m - E u) div period s u) else 1)"

lemma run_spec:
  assumes "timer_run callback q d n k b m k'" "callbacks_ok callback" "timer_inv n E (tm k)"
  shows "\<exists>E' c. timer_inv m E' (tm k') \<and> served m E (tm k) E' (tm k') c \<and> n \<le> m \<and> (b \<longrightarrow> (\<forall>u. listed (tm k') u \<longrightarrow> m < E' u))"
  using assms(1)
proof (induction rule: timer_run.induct)
  case start
  then show ?case using assms(3) served_refl by blast
next
  case (pass b m k1 k2 m' b' k3)
  then obtain E1 c1 where IH: "timer_inv m E1 (tm k2)" "served m E (tm k) E1 (tm k2) c1" "n \<le> m" by auto
  show ?case
  proof (cases rule: pass_spec [OF assms(2) IH(1) pass(3,4,5), case_names switched fired waits])
    case (switched k' E' c)
    then show ?thesis using served_trans [OF IH(2) switched(4) pass(4)] pass(4,6) IH(3) by auto
  next
    case (fired k' E' t i)
    then show ?thesis using served_trans [OF IH(2) fired(3) pass(4)] pass(4,6) IH(3) by auto
  next
    case (waits k')
    have "served m' E1 (tm k2) E1 (tm k') (\<lambda>_. 0)" using waits(3) by (simp add: served_def timer_frame_def)
    then have "served m' E (tm k) E1 (tm k') c1" using served_trans [OF IH(2) _ pass(4)] by fastforce
    then show ?thesis using waits(1-4) pass(4,6) IH(3) by auto
  qed
qed

lemma served_expiries:
  assumes "served m E s E' s' c" "\<And>u. listed s u \<Longrightarrow> 0 < period s u"
  shows "c u \<le> expiries s E m u" "(\<And>u. listed s' u \<Longrightarrow> m < E' u) \<Longrightarrow> c u = expiries s E m u"
proof -
  have off: "c u = 0" if "\<not> listed s u" using assms(1) that unfolding served_def by blast
  have auto: "listed s' u" "E' u = E u + c u * period s u" "0 < c u \<Longrightarrow> E u + (c u - 1) * period s u \<le> m"
    if "listed s u" "auto_reload s u" using assms(1) that unfolding served_def by blast+
  have once: "c u = 0 \<and> listed s' u \<and> E' u = E u \<or> c u = 1 \<and> \<not> listed s' u \<and> E u \<le> m"
    if "listed s u" "\<not> auto_reload s u" using assms(1) that unfolding served_def by blast
  have le: "c u \<le> Suc ((m - E u) div period s u)" "E u \<le> m" if "listed s u" "auto_reload s u" "0 < c u"
  proof -
    note a = auto(3) [OF that(1,2,3)]
    then have "(c u - 1) * period s u \<le> m - E u" by linarith
    then have "c u - 1 \<le> (m - E u) div period s u" using assms(2) [OF that(1)] by (simp add: less_eq_div_iff_mult_less_eq)
    then show "c u \<le> Suc ((m - E u) div period s u)" by linarith
    show "E u \<le> m" using a by linarith
  qed
  show "c u \<le> expiries s E m u"
    using off once le by (cases "c u = 0"; cases "listed s u"; cases "auto_reload s u") (auto simp: expiries_def)
  assume fut: "\<And>u. listed s' u \<Longrightarrow> m < E' u"
  show "c u = expiries s E m u"
  proof (cases "listed s u \<and> auto_reload s u")
    case True
    then have a: "m < E u + c u * period s u" using auto(1,2) fut by metis
    show ?thesis
    proof (cases "E u \<le> m")
      case d: True
      then have "m - E u < c u * period s u" using a by linarith
      then have "(m - E u) div period s u < c u" by (simp add: less_mult_imp_div_less)
      moreover have "0 < c u" using a d by (cases "c u") simp_all
      ultimately show ?thesis using le(1) True d by (auto simp: expiries_def)
    next
      case False
      then have "c u = 0" using le(2) True by blast
      then show ?thesis using False by (simp add: expiries_def)
    qed
  next
    case False
    then show ?thesis using off once fut [of u] by (cases "listed s u") (auto simp: expiries_def)
  qed
qed

lemma inv_period: "timer_inv n E s \<Longrightarrow> listed s u \<Longrightarrow> 0 < period s u"
  unfolding timer_inv_def timers_ok_def by blast

lemma served_calls: "served n E s E' s' c \<Longrightarrow> count_list (fired s') u = count_list (fired s) u + c u"
  by (simp add: served_def)

text \<open>With the clock standing still every pass that does not wait brings one due timer into the future.\<close>

lemma still_catches_up:
  assumes "callbacks_ok callback" "timer_inv m E (tm k1)" "timer_ready q d m k1" "timer_run callback q d n k b m k1"
    "uxMessagesWaiting (queues k1 q) = 0"
  shows "\<exists>b k2 k' E'. timer_run callback q d n k b m k2 \<and> timer_ready q d m k2 \<and> timer_task_wait callback k2 = Some (True, k') \<and>
    timer_inv m E' (tm k') \<and> tcbs k' d = sleeping q m (sleep_until m E' (tm k')) k2 (tcbs k2 d)"
  using assms(2-5)
proof (induction "card {u. listed (tm k1) u \<and> E u \<le> m}" arbitrary: k1 E b rule: less_induct)
  case less
  have mm: "m - m < 2 ^ 32" by simp
  show ?case
  proof (cases rule: pass_spec [OF assms(1) less(2,3) order.refl mm, case_names switched fired waits])
    case switched
    then show ?thesis by simp
  next
    case (fired k2 E' t i)
    have e: "E' u = E u" "listed (tm k1) u" if "listed (tm k2) u" "u \<noteq> t" for u
      using fired(3) that unfolding served_def by (metis add.right_neutral fun_upd_other mult_zero_left, blast)
    have "{u. listed (tm k2) u \<and> E' u \<le> m} \<subseteq> {u. listed (tm k1) u \<and> E u \<le> m} - {t}"
    proof
      fix u assume u: "u \<in> {u. listed (tm k2) u \<and> E' u \<le> m}"
      then have "u \<noteq> t" using fired(7) by auto
      then show "u \<in> {u. listed (tm k1) u \<and> E u \<le> m} - {t}" using u e [of u] by simp
    qed
    also have "\<dots> \<subset> {u. listed (tm k1) u \<and> E u \<le> m}" using fired(5,6) by auto
    finally have "card {u. listed (tm k2) u \<and> E' u \<le> m} < card {u. listed (tm k1) u \<and> E u \<le> m}" by (intro psubset_card_mono) simp_all
    moreover have "timer_run callback q d n k False m k2" by (rule timer_run.pass [OF less(4) refl less(3) order.refl mm fired(1)])
    ultimately show ?thesis using less(1) [OF _ fired(2,4)] fired(8) less(5) by simp
  next
    case (waits k')
    have "sleep_until m E (tm k') = sleep_until m E (tm k1)" using waits(3) by (simp add: sleep_until_def)
    then have "tcbs k' d = sleeping q m (sleep_until m E (tm k')) k1 (tcbs k1 d)" using waits(7) less(5) by simp
    then show ?thesis using less(3,4) waits(1,2) by blast
  qed
qed

lemma run_counts:
  assumes "timer_run callback q d n k b m k'" "callbacks_ok callback" "timer_inv n E (tm k)"
  shows "\<exists>c. count_list (fired (tm k')) u = count_list (fired (tm k)) u + c \<and> c \<le> expiries (tm k) E m u \<and>
    (b \<longrightarrow> c = expiries (tm k) E m u)"
proof -
  obtain E' c where r: "served m E (tm k) E' (tm k') c" "b \<longrightarrow> (\<forall>u. listed (tm k') u \<longrightarrow> m < E' u)"
    using run_spec [OF assms] by blast
  have "c u \<le> expiries (tm k) E m u" "b \<longrightarrow> c u = expiries (tm k) E m u"
    using served_expiries [OF r(1) inv_period [OF assms(3)], of u] r(2) by blast+
  then show ?thesis using served_calls [OF r(1)] by blast
qed



section \<open>Examples\<close>

text \<open>At tick 5: a timer at address 64 with period 1 that reloads, due at tick 3, and a one-shot timer at address 128, due at tick 4.\<close>

definition demo_timer :: "u32 \<Rightarrow> Timer_t" where
  "demo_timer t = \<lparr>pcTimerName = ''t'', timer_value = (if t = 64 then 3 else 4),
     timer_container = (if t = 64 \<or> t = 128 then Some ActiveTimerList1 else None), xTimerPeriodInTicks = 1, pvTimerID = 0,
     pxCallbackFunction = 0, uxTimerNumber = 0, ucStatus = (if t = 64 then 5 else 1)\<rparr>"

definition demo_tm :: "TickType_t \<Rightarrow> timer_state" where
  "demo_tm l = \<lparr>timers = demo_timer, active_lists = (\<lambda>_. kl_empty)(ActiveTimerList1 := \<lparr>kitems = [64, 128], kindex = None\<rparr>),
     pxCurrentTimerList = ActiveTimerList1, pxOverflowTimerList = ActiveTimerList2, xTimerQueue = Some 1, xTimerTaskHandle = Some 1,
     xLastTime = l, fired = []\<rparr>"

definition demo_tkernel :: "TickType_t \<Rightarrow> tkernel" where
  "demo_tkernel l = kernel.extend (demo_kernel 0 None)
     \<lparr>queues = (\<lambda>_. demo_ring 0 (replicate 160 0) 0 160 144 (-1)\<lparr>uxLength := 10, uxItemSize := 16\<rparr>), xQueueRegistry = replicate 8 (None, None),
      event_groups = (\<lambda>_. \<lparr>uxEventBits = 0, uxEventGroupNumber = 0\<rparr>), tm = demo_tm l\<rparr>"

definition demo_E :: "u32 \<Rightarrow> nat" where "demo_E t = (if t = 64 then 3 else 4)"

lemma demo_timer_inv: "n < 2 ^ 32 \<Longrightarrow> timer_inv n demo_E (tm (demo_tkernel (of_nat n)))"
proof -
  assume n: "n < 2 ^ 32"
  have "tm (demo_tkernel (of_nat n)) = demo_tm (of_nat n)" by (simp add: demo_tkernel_def kernel.defs)
  moreover have "timers_ok 0 demo_E (demo_tm (of_nat n))"
    by (auto simp: timers_ok_def demo_tm_def demo_timer_def demo_E_def kl_wf_def kl_empty_def)
  ultimately show ?thesis using n by (simp add: timer_inv_def demo_E_def demo_tm_def)
qed

lemma demo_timer_ready: "timer_ready 1 1 5 (demo_tkernel l)" "uxMessagesWaiting (queues (demo_tkernel l) 1) = 0"
proof -
  have "can_run 1 (demo_tkernel l)"
    using demo_sched_inv [of None 0] demo_quiet by (simp add: can_run_def demo_tkernel_def demo_kernel_fields)
  moreover have "can_block 1 1 (demo_tkernel l)"
    by (simp add: can_block_def demo_tkernel_def demo_defs queueUNLOCKED_def) (simp add: kernel.defs demo_ring_def)
  ultimately show "timer_ready 1 1 5 (demo_tkernel l)"
    by (simp add: timer_ready_def) (simp add: demo_tkernel_def kernel.defs demo_tm_def demo_kernel_def)
  show "uxMessagesWaiting (queues (demo_tkernel l) 1) = 0" by (simp add: demo_tkernel_def kernel.defs demo_ring_def)
qed

lemma demo_callbacks: "callbacks_ok (\<lambda>_ _ k. Some k)"
  by (simp add: callbacks_ok_def)

lemma demo_expiries: "expiries (tm (demo_tkernel l)) demo_E 5 64 = 3" "expiries (tm (demo_tkernel l)) demo_E 5 128 = 1"
  by (simp_all add: expiries_def demo_tkernel_def kernel.defs demo_tm_def demo_timer_def demo_E_def tmrSTATUS_IS_AUTORELOAD_def)



section \<open>Messages to the task\<close>

lemma bytes_message_inverse: "bytes_message (message_bytes m) = m"
  by (cases "u_words m") (simp add: bytes_message_def message_bytes_def bytes_len_inverse)

lemma length_message_bytes [simp]: "length (message_bytes m) = 16"
  by (simp add: message_bytes_def split: prod.split)

lemma waiters_gone_can_run:
  assumes "can_run c k" "sched_inv k'" "waiters_gone l n k k'"
  shows "can_run c k'"
proof -
  have "\<not> pending k' t" for t
    using assms(1,3) by (simp add: can_run_def quiet_def pending_def waiters_gone_def released_def wake_tcb_def)
  then show ?thesis using assms by (simp add: can_run_def quiet_def waiters_gone_def)
qed

lemma can_run_upd_queue [simp]: "can_run c (upd_queue q f k) = can_run c k"
  by (simp add: can_run_def quiet_def pending_def)

lemma send_isr_data:
  assumes "can_run c k" "data_queue (queues k q)" "unat (uxItemSize (queues k q)) = length b" "cTxLock (queues k q) = queueUNLOCKED"
    "uxMessagesWaiting (queues k q) < uxLength (queues k q)"
  obtains Q' k' where "xQueueGenericSendFromISR q (Some b) w queueSEND_TO_BACK k = Some (True, outranked (WaitingToReceive q) k \<or> w, k')"
    "can_run c k'" "waiters_gone (WaitingToReceive q) 1 (upd_queue q (\<lambda>_. Q') k) k'" "data_queue Q'" "same_shape (queues k q) Q'"
    "contents Q' = contents (queues k q) @ [b]"
proof -
  have room: "if queueSEND_TO_BACK = queueOVERWRITE then uxLength (queues k q) = 1
      else uxMessagesWaiting (queues k q) < uxLength (queues k q)" using assms(5) by simp
  have lb: "unat (uxItemSize (queues k q)) \<le> length b" using assms(3) by simp
  obtain Q' where c: "prvCopyDataToQueue q (Some b) queueSEND_TO_BACK k = Some (False, upd_queue q (\<lambda>_. Q') k)"
    "data_queue Q'" "same_shape (queues k q) Q'"
    "contents Q' = stored queueSEND_TO_BACK (take (unat (uxItemSize (queues k q))) b) (contents (queues k q))"
    by (rule prvCopyDataToQueue_data [OF assms(2) lb room])
  let ?k = "upd_queue q (\<lambda>_. Q') k"
  have o: "outranked l ?k = outranked l k" for l
    by (auto simp: outranked_def split: list.splits option.splits)
  have r: "can_run c ?k" using assms(1) by simp
  then have "sched_inv ?k" "pxCurrentTCB ?k = Some c" by (simp_all add: can_run_def)
  then obtain k' where i: "release_from_isr (WaitingToReceive q) w ?k = Some (outranked (WaitingToReceive q) ?k \<or> w, k')" "sched_inv k'"
    "waiters_gone (WaitingToReceive q) 1 ?k k'"
    by (rule release_from_isr_spec [OF _ _ queue_lists(2)])
  have "xQueueGenericSendFromISR q (Some b) w queueSEND_TO_BACK k = Some (True, outranked (WaitingToReceive q) k \<or> w, k')"
    using c(1) i(1) assms(4,5) by (simp add: xQueueGenericSendFromISR_def configASSERT_def Let_def o)
  then show thesis
    using waiters_gone_can_run [OF r i(2,3)] i(3) c(2-4) assms(3) by (intro that) (simp_all add: stored_def)
qed

text \<open>One round of the loop that empties the queue.\<close>

lemma commands_step:
  assumes "can_run d k" "xTimerQueue (tm k) = Some q" "data_queue (queues k q)" "contents (queues k q) = message_bytes m # bs"
  obtains Q' k' where "prvProcessReceivedCommands callback pended k =
      Option.bind (process_message callback pended m k') (prvProcessReceivedCommands callback pended)"
    "can_run d k'" "waiters_gone (WaitingToSend q) 1 (upd_queue q (\<lambda>_. Q') k) k'" "data_queue Q'" "same_shape (queues k q) Q'"
    "contents Q' = bs"
proof -
  have c: "sched_inv k" "pxCurrentTCB k = Some d" using assms(1) by (simp_all add: can_run_def)
  have "unat (uxMessagesWaiting (queues k q)) \<noteq> 0" using assms(4) length_contents [of "queues k q"] by (simp del: length_contents)
  then have n: "uxMessagesWaiting (queues k q) \<noteq> 0" by auto
  obtain Q' k' where r: "recv_try q (new_wait 0) k = Some (Returned (Some (hd (contents (queues k q)))), k')" "sched_inv k'"
    "waiters_gone (WaitingToSend q) 1 (upd_queue q (\<lambda>_. Q') k) k'" "data_queue Q'" "same_shape (queues k q) Q'"
    "contents Q' = tl (contents (queues k q))" "pendsv k' \<longleftrightarrow> pendsv k \<or> outranked (WaitingToSend q) k"
    by (rule recv_try_data [OF c assms(3) n])
  have "xQueueReceive q False tmrNO_DELAY k = Some (Returned (Some (message_bytes m)), k')"
    using r(1) assms(4) by (simp add: xQueueReceive_def recv_pass_def configASSERT_def tmrNO_DELAY_def)
  then have "prvProcessReceivedCommands callback pended k =
      Option.bind (process_message callback pended m k') (prvProcessReceivedCommands callback pended)"
    using assms(2) by (subst prvProcessReceivedCommands.simps) (simp add: bytes_message_inverse)
  then show thesis
    using waiters_gone_can_run [OF _ r(2,3)] assms(1,4) r(3-6) by (intro that) simp_all
qed

lemma commands_end:
  assumes "xTimerQueue (tm k) = Some q" "contents (queues k q) = []"
  shows "prvProcessReceivedCommands callback pended k = Some k"
proof -
  have "uxMessagesWaiting (queues k q) = 0" using assms(2) length_contents [of "queues k q"] by (simp add: unat_eq_zero del: length_contents)
  then have "xQueueReceive q False tmrNO_DELAY k = Some (Returned None, k)"
    by (simp add: xQueueReceive_def recv_pass_def recv_try_def configASSERT_def tmrNO_DELAY_def new_wait_def)
  then show ?thesis using assms(1) by (subst prvProcessReceivedCommands.simps) simp
qed

lemma gone_more:
  assumes "waiters_gone l n (upd_queue q f k) k'"
  shows "tm k' = tm k" "event_groups k' = event_groups k"
proof -
  have m: "qkernel.more k' = qkernel.more k" using waiters_gone_more [OF assms] by simp
  show "tm k' = tm k" by (rule tm_more(2) [OF m])
  show "event_groups k' = event_groups k" using m by (cases k; cases k'; simp)
qed

lemma set_wakes_cong:
  assumes "event_groups k' = event_groups k" "\<And>t. t \<noteq> d \<Longrightarrow> tcbs k' t = tcbs k t"
    "event_list (tcbs k d) \<noteq> Some (WaitingForBits e)" "event_list (tcbs k' d) \<noteq> Some (WaitingForBits e)"
  shows "set_wakes e s k' t = set_wakes e s k t"
  using assms by (cases "t = d") (simp_all add: set_wakes_def)

text \<open>
  C26. Flags set from an interrupt arrive: while the timer task waits for its empty queue, \<open>xEventGroupSetBitsFromISR\<close>
  readies it and asks for a switch exactly when it outranks the running task. When the timer task then empties its queue it sets the flags:
  it readies exactly the tasks whose condition now holds and clears the flags they asked to clear, its queue is
  empty again and no timer has changed.
\<close>

theorem event_bits_from_interrupt:
  assumes "can_run c k" "xTimerQueue (tm k) = Some q" "data_queue (queues k q)" "contents (queues k q) = []"
    "uxItemSize (queues k q) = sizeof_DaemonTaskMessage_t" "uxLength (queues k q) \<noteq> 0" "cTxLock (queues k q) = queueUNLOCKED"
    "members k (WaitingToReceive q) = [d]" "members k (WaitingToSend q) = []" "flags_only s"
    "\<And>k. pended fn g s k = vEventGroupSetBitsCallback (unat g) s k"
  shows "\<exists>w k1 k2. xEventGroupSetBitsFromISR fn g s woken k = Some (True, w, k1) \<and> (w \<longleftrightarrow> woken \<or> prio k c < prio k d) \<and>
    tcbs k1 = (tcbs k)(d := wake_tcb (tcbs k d)) \<and> can_run c k1 \<and>
    timer_task_commands callback pended (k1\<lparr>pxCurrentTCB := Some d\<rparr>) = Some k2 \<and> contents (queues k2 q) = [] \<and> tm k2 = tm k \<and>
    (\<forall>t. tcbs k2 t = (if set_wakes (unat g) s k t
       then (tcbs k t)\<lparr>event_value := wake_value (ebits k (unat g) OR s), event_list := None, state_list := Some (Ready (prio k t))\<rparr>
       else tcbs k1 t)) \<and>
    (\<forall>i<32. bit (ebits k2 (unat g)) i \<longleftrightarrow> bit (ebits k (unat g) OR s) i \<and>
      \<not> (\<exists>t. set_wakes (unat g) s k t \<and> bit (item_clears (event_value (tcbs k t))) i))"
proof -
  let ?g = "unat g"
  let ?m = "\<lparr>xMessageID = tmrCOMMAND_EXECUTE_CALLBACK_FROM_ISR, u_words = (fn, g, s)\<rparr>"
  let ?b = "message_bytes ?m"
  have sz: "unat (uxItemSize (queues k q)) = length ?b" using assms(5) by (simp add: sizeof_DaemonTaskMessage_t_def)
  have room: "uxMessagesWaiting (queues k q) < uxLength (queues k q)"
  proof -
    have "uxMessagesWaiting (queues k q) = 0" using assms(4) length_contents [of "queues k q"] by (simp add: unat_eq_zero del: length_contents)
    then show ?thesis using assms(6) by (simp add: word_gt_0)
  qed
  obtain Q1 k1 where i: "xQueueGenericSendFromISR q (Some ?b) woken queueSEND_TO_BACK k = Some (True, outranked (WaitingToReceive q) k \<or> woken, k1)"
    "can_run c k1" "waiters_gone (WaitingToReceive q) 1 (upd_queue q (\<lambda>_. Q1) k) k1" "data_queue Q1" "same_shape (queues k q) Q1"
    "contents Q1 = contents (queues k q) @ [?b]"
    by (rule send_isr_data [OF assms(1,3) sz assms(7) room])
  have cur: "pxCurrentTCB k = Some c" "uxSchedulerSuspended k = 0" using assms(1) by (simp_all add: can_run_def quiet_def)
  have t1: "tcbs k1 = (tcbs k)(d := wake_tcb (tcbs k d))"
    using i(3) assms(8) cur(2) by (auto simp: waiters_gone_def released_def)
  have o: "outranked (WaitingToReceive q) k \<longleftrightarrow> prio k c < prio k d" using assms(8) cur(1) by (simp add: outranked_def)
  let ?k1 = "k1\<lparr>pxCurrentTCB := Some d\<rparr>"
  have r1: "can_run d ?k1" by (rule can_run_other [OF i(2)])
  have q1: "xTimerQueue (tm ?k1) = Some q" "data_queue (queues ?k1 q)" "contents (queues ?k1 q) = ?b # []"
    using gone_more(1) [OF i(3)] waiters_gone_queue(1) [OF i(3)] assms(2,4) i(4,6) by simp_all
  obtain Q2 k2 where p: "prvProcessReceivedCommands callback pended ?k1 =
      Option.bind (process_message callback pended ?m k2) (prvProcessReceivedCommands callback pended)"
    "can_run d k2" "waiters_gone (WaitingToSend q) 1 (upd_queue q (\<lambda>_. Q2) ?k1) k2" "data_queue Q2" "same_shape (queues ?k1 q) Q2"
    "contents Q2 = []"
    by (rule commands_step [OF r1 q1])
  have ws: "members ?k1 (WaitingToSend q) = []" using i(3) assms(9) by (simp add: waiters_gone_def)
  then have t2: "tcbs k2 = tcbs k1" using waiters_gone_none [OF p(3)] by simp
  obtain k3 where e: "xEventGroupSetBits ?g s k2 = Some k3" "can_run d k3" "tcbs k3 = after_set ?g s k2" "group_frame k2 k3"
    "event_groups k3 = (event_groups k2)(?g := (event_groups k2 ?g)\<lparr>uxEventBits := new_bits ?g s k2\<rparr>)"
    "xTickCount k3 = xTickCount k2" "xSchedulerRunning k3 = xSchedulerRunning k2"
    "(\<exists>t. set_wakes ?g s k2 t \<and> prio k2 d < prio k2 t) \<longrightarrow> pendsv k3"
    by (rule xEventGroupSetBits_spec [OF p(2)]) (use assms(10) in \<open>simp_all add: flags_only_def\<close>)
  have g2: "event_groups k2 = event_groups k" "tm k2 = tm k" using gone_more [OF i(3)] gone_more [OF p(3)] by simp_all
  have m: "process_message callback pended ?m k2 = Some k3"
    using e(1) assms(11) by (simp add: process_message_def tmrCOMMAND_EXECUTE_CALLBACK_FROM_ISR_def vEventGroupSetBitsCallback_def)
  have f3: "tm k3 = tm k2" "queues k3 = queues k2" using e(4) by (simp_all add: group_frame_def) (cases k2; cases k3; simp)
  have "contents (queues k3 q) = []" using f3(2) waiters_gone_queue(1) [OF p(3)] p(6) by simp
  then have "timer_task_commands callback pended ?k1 = Some k3"
    using p(1) m commands_end [of k3 q] f3(1) g2(2) assms(2) by (simp add: timer_task_commands_def)
  note run = this
  have ed: "event_list (tcbs k d) = Some (WaitingToReceive q)"
    using event_member [OF sched_inv_parts(3), of k "WaitingToReceive q" d] assms(1,8) by (simp add: can_run_def)
  have sw: "set_wakes ?g s k2 t = set_wakes ?g s k t" for t
    by (intro set_wakes_cong [of _ _ d]) (simp_all add: g2 t2 t1 wake_tcb_def ed)
  have nd: "\<not> set_wakes ?g s k d" using ed by (simp add: set_wakes_def)
  have t3: "tcbs k3 t = (if set_wakes ?g s k t
       then (tcbs k t)\<lparr>event_value := wake_value (ebits k ?g OR s), event_list := None, state_list := Some (Ready (prio k t))\<rparr>
       else tcbs k1 t)" for t
    using nd by (cases "t = d") (auto simp: e(3) after_set_def sw g2 t2 t1 flagged_def wake_tcb_def wake_value_def)
  have "bit (ebits k3 ?g) j \<longleftrightarrow> bit (ebits k ?g OR s) j \<and>
      \<not> (\<exists>t. set_wakes ?g s k t \<and> bit (item_clears (event_value (tcbs k t))) j)" if "j < 32" for j
    using bit_new_bits [OF can_run_parts(1) [OF p(2)] that, of ?g s] nd unfolding sw g2 t2 t1
    by (simp add: e(5)) metis
  then show ?thesis
    using i(1,2) o t1 run t3 f3 g2 \<open>contents (queues k3 q) = []\<close> assms(2)
    by (intro exI [of _ "outranked (WaitingToReceive q) k \<or> woken"] exI [of _ k1] exI [of _ k3])
      (simp add: xEventGroupSetBitsFromISR_def xTimerPendFunctionCallFromISR_def disj_commute)
qed

text \<open>The timer task is task 2, which waits for queue 0.\<close>

definition demo_isr :: tkernel where
  "demo_isr = (demo_tkernel 5)\<lparr>tm := (demo_tm 5)\<lparr>xTimerQueue := Some 0\<rparr>\<rparr>"

lemma demo_isr_fields:
  "can_run 1 demo_isr" "xTimerQueue (tm demo_isr) = Some 0" "members demo_isr (WaitingToReceive 0) = [2]"
  "members demo_isr (WaitingToSend 0) = []" "prio demo_isr 1 = 5" "prio demo_isr 2 = 7" "ebits demo_isr e = 0"
  "event_list (tcbs demo_isr t) \<noteq> Some (WaitingForBits e)"
proof -
  have "kernel_same (demo_tkernel 5) demo_isr" by (simp add: demo_isr_def)
  then show "can_run 1 demo_isr" using kernel_same_can_run(1) timer_ready_parts(1) [OF demo_timer_ready(1)] by blast
qed (simp_all add: demo_isr_def demo_tkernel_def demo_defs, simp_all add: kernel.defs)

lemma demo_isr_queue:
  "data_queue (queues demo_isr 0)" "contents (queues demo_isr 0) = []" "uxItemSize (queues demo_isr 0) = sizeof_DaemonTaskMessage_t"
  "uxLength (queues demo_isr 0) \<noteq> 0" "cTxLock (queues demo_isr 0) = queueUNLOCKED"
proof -
  have q: "queues demo_isr 0 = demo_ring 0 (replicate 160 0) 0 160 144 (-1)\<lparr>uxLength := 10, uxItemSize := 16\<rparr>"
    by (simp add: demo_isr_def demo_tkernel_def kernel.defs)
  show "data_queue (queues demo_isr 0)" unfolding q by (simp add: data_queue_def ring_at_def demo_ring_def) (rule exI [of _ 0], simp)
qed (simp_all add: demo_isr_def demo_tkernel_def kernel.defs demo_ring_def contents_def queueUNLOCKED_def sizeof_DaemonTaskMessage_t_def)

theorem event_bits_from_interrupt_witness:
  "\<exists>k1 k2. xEventGroupSetBitsFromISR 7 0 1 False demo_isr = Some (True, True, k1) \<and>
    timer_task_commands (\<lambda>_ _ k. Some k) (\<lambda>_ g s. vEventGroupSetBitsCallback (unat g) s) (k1\<lparr>pxCurrentTCB := Some 2\<rparr>) = Some k2 \<and>
    bit (ebits k2 0) 0"
proof -
  have "\<not> set_wakes e s demo_isr t" for e s t by (simp add: set_wakes_def demo_isr_fields)
  then show ?thesis
    using event_bits_from_interrupt [OF demo_isr_fields(1,2) demo_isr_queue demo_isr_fields(3,4) demo_flags(1),
        of "\<lambda>_ g s. vEventGroupSetBitsCallback (unat g) s" 7 0 False "\<lambda>_ _ k. Some k"]
    by (auto simp: demo_isr_fields simp del: One_nat_def)
qed

end
