(* ===== verification/Usb_Core.thy ===== *)
theory Usb_Core
  imports Prelude "HOL-Library.Monad_Syntax"
begin

text \<open>
  The USB device: the part of \<open>tinyusb\<close> that the board is built with, \<open>device/usbd.c\<close>, \<open>device/usbd_control.c\<close>, the
  endpoint helpers of \<open>tusb.c\<close> and the class driver \<open>class/hid/hid_device.c\<close>, in the configuration of
  \<open>Inc/tusb_config.h\<close>: full speed, a control endpoint of 64 bytes, one HID interface, no other class.

  Memory that a transfer reads or writes is a region and an offset; the result \<open>None\<close> of an operation means
  undefined behaviour: an access outside an array or a region, or a write to constant data or to a local variable of a
  function that has returned. A boolean result is the one of the C function; \<open>TU_ASSERT\<close> and \<open>TU_VERIFY\<close> return
  \<open>false\<close>. There is one port, so that the port number is left out. Of the controller driver
  \<open>dcd_dwc2.c\<close> this theory has what the stack sees: the requests, which \<open>dcd_log\<close> records, the division of the FIFO
  memory among the endpoints, and the events it sends.
\<close>

section \<open>State\<close>

definition CFG_TUD_ENDPOINT0_SIZE :: nat where "CFG_TUD_ENDPOINT0_SIZE = 64"
definition CFG_TUD_HID_EP_BUFSIZE :: nat where "CFG_TUD_HID_EP_BUFSIZE = 64"
definition CFG_TUD_ENDPPOINT_MAX :: nat where "CFG_TUD_ENDPPOINT_MAX = 6"
definition CFG_TUD_INTERFACE_MAX :: nat where "CFG_TUD_INTERFACE_MAX = 16"
definition CFG_TUD_TASK_QUEUE_SZ :: nat where "CFG_TUD_TASK_QUEUE_SZ = 16"
definition DRVID_INVALID :: u8 where "DRVID_INVALID = 0xff"
definition RHPORT_INVALID :: u8 where "RHPORT_INVALID = 0xff"

datatype region = Const "u8 list" | Local "u8 list" | DescStr | CtrlBuf | EpinBuf | EpoutBuf | IdleRate | ProtocolMode

type_synonym ptr = "region \<times> nat"

record tusb_control_request_t =
  bmRequestType :: u8
  bRequest :: u8
  wValue :: u16
  wIndex :: u16
  wLength :: u16

datatype dcd_event_t =
    DCD_EVENT_BUS_RESET u8 | DCD_EVENT_UNPLUGGED | DCD_EVENT_SOF | DCD_EVENT_SUSPEND | DCD_EVENT_RESUME
  | DCD_EVENT_SETUP_RECEIVED tusb_control_request_t
  | DCD_EVENT_XFER_COMPLETE u8 u32     \<comment> \<open>endpoint address, length\<close>

record tu_edpt_state_t =
  busy :: bool
  stalled :: bool
  claimed :: bool

record usbd_device_t =
  connected :: bool
  addressed :: bool
  suspended :: bool
  remote_wakeup_en :: bool
  remote_wakeup_support :: bool
  self_powered :: bool
  cfg_num :: u8
  speed :: u8
  itf2drv :: "nat \<Rightarrow> u8"
  ep2drv :: "nat \<Rightarrow> bool \<Rightarrow> u8"                  \<comment> \<open>the second index: direction IN\<close>
  ep_status :: "nat \<Rightarrow> bool \<Rightarrow> tu_edpt_state_t"

record usbd_control_xfer_t =
  request :: tusb_control_request_t
  buffer :: "ptr option"
  data_len :: u16
  total_xferred :: u16
  complete_cb :: bool                      \<comment> \<open>set to \<open>hidd_control_xfer_cb\<close>, or \<open>NULL\<close>\<close>

record hidd_interface_t =
  itf_num :: u8
  ep_in :: u8
  ep_out :: u8
  itf_protocol :: u8
  protocol_mode :: u8
  idle_rate :: u8
  report_desc_len :: u16
  epin_buf :: "u8 list"
  epout_buf :: "u8 list"
  hid_descriptor :: "u8 list option"

text \<open>What the stack asks the controller for. An IN transfer is recorded with the bytes its buffer holds.\<close>

datatype dcd_op =
    Xfer_In nat "u8 list" | Xfer_Out nat nat | Stall u8 | Clear_Stall u8 | Open "u8 list" | Close_All
  | Set_Address u8 | Remote_Wakeup

record usb =
  usbd_dev :: usbd_device_t
  usbd_rhport :: u8
  ctrl_xfer :: usbd_control_xfer_t
  usbd_ctrl_buf :: "u8 list"
  hidd_itf :: hidd_interface_t
  desc_str :: "u8 list"                    \<comment> \<open>the bytes of \<open>_desc_str\<close> of \<open>usb_device.c\<close>\<close>
  usbd_q :: "dcd_event_t list"
  out_buffer :: "nat \<Rightarrow> ptr option"        \<comment> \<open>\<open>xfer_status[n][TUSB_DIR_OUT].buffer\<close>\<close>
  allocated_fifo_words_tx :: nat
  grxfsiz :: nat
  dcd_log :: "dcd_op list"                 \<comment> \<open>the last request first\<close>

definition zero_edpt :: tu_edpt_state_t where
  "zero_edpt = \<lparr>busy = False, stalled = False, claimed = False\<rparr>"

definition zero_request :: tusb_control_request_t where
  "zero_request = \<lparr>bmRequestType = 0, bRequest = 0, wValue = 0, wIndex = 0, wLength = 0\<rparr>"

definition zero_hid :: hidd_interface_t where
  "zero_hid = \<lparr>itf_num = 0, ep_in = 0, ep_out = 0, itf_protocol = 0, protocol_mode = 0, idle_rate = 0, report_desc_len = 0,
     epin_buf = replicate CFG_TUD_HID_EP_BUFSIZE 0, epout_buf = replicate CFG_TUD_HID_EP_BUFSIZE 0, hid_descriptor = None\<rparr>"

definition zero_dev :: usbd_device_t where
  "zero_dev = \<lparr>connected = False, addressed = False, suspended = False, remote_wakeup_en = False, remote_wakeup_support = False,
     self_powered = False, cfg_num = 0, speed = 0, itf2drv = (\<lambda>_. 0), ep2drv = (\<lambda>_ _. 0), ep_status = (\<lambda>_ _. zero_edpt)\<rparr>"

section \<open>Requests, descriptors and memory\<close>

definition recipient :: "tusb_control_request_t \<Rightarrow> u8" where "recipient r = bmRequestType r AND 0x1f"
definition req_type :: "tusb_control_request_t \<Rightarrow> u8" where "req_type r = drop_bit 5 (bmRequestType r) AND 3"
definition direction :: "tusb_control_request_t \<Rightarrow> bool" where "direction r \<longleftrightarrow> bit (bmRequestType r) 7"

definition tu_edpt_dir :: "u8 \<Rightarrow> bool" where "tu_edpt_dir addr \<longleftrightarrow> addr AND 0x80 \<noteq> 0"
definition tu_edpt_number :: "u8 \<Rightarrow> nat" where "tu_edpt_number addr = unat (addr AND NOT 0x80)"
definition tu_u16_low :: "u16 \<Rightarrow> u8" where "tu_u16_low w = ucast w"
definition tu_u16_high :: "u16 \<Rightarrow> u8" where "tu_u16_high w = ucast (drop_bit 8 w)"

definition byte_at :: "u8 list \<Rightarrow> nat \<Rightarrow> u8 option" where
  "byte_at d i = (if i < length d then Some (d ! i) else None)"

definition le16_at :: "u8 list \<Rightarrow> nat \<Rightarrow> u16 option" where
  "le16_at d i = do { lo \<leftarrow> byte_at d i; hi \<leftarrow> byte_at d (i + 1); Some (ucast lo OR push_bit 8 (ucast hi)) }"

definition tu_desc_next :: "u8 list \<Rightarrow> u8 list option" where
  "tu_desc_next d = do { n \<leftarrow> byte_at d 0; if unat n \<le> length d then Some (drop (unat n) d) else None }"

definition tu_desc_type :: "u8 list \<Rightarrow> u8 option" where "tu_desc_type d = byte_at d 1"
definition tu_desc_len :: "u8 list \<Rightarrow> u8 option" where "tu_desc_len d = byte_at d 0"

fun region_bytes :: "region \<Rightarrow> usb \<Rightarrow> u8 list" where
  "region_bytes (Const b) u = b"
| "region_bytes (Local b) u = b"
| "region_bytes DescStr u = desc_str u"
| "region_bytes CtrlBuf u = usbd_ctrl_buf u"
| "region_bytes EpinBuf u = epin_buf (hidd_itf u)"
| "region_bytes EpoutBuf u = epout_buf (hidd_itf u)"
| "region_bytes IdleRate u = [idle_rate (hidd_itf u)]"
| "region_bytes ProtocolMode u = [protocol_mode (hidd_itf u)]"

definition read_mem :: "ptr \<Rightarrow> nat \<Rightarrow> usb \<Rightarrow> u8 list option" where
  "read_mem p n u = (let b = region_bytes (fst p) u in if snd p + n \<le> length b then Some (take n (drop (snd p) b)) else None)"

definition patch :: "nat \<Rightarrow> 'a list \<Rightarrow> 'a list \<Rightarrow> 'a list" where
  "patch i b xs = take i xs @ b @ drop (i + length b) xs"

fun store_region :: "region \<Rightarrow> u8 list \<Rightarrow> usb \<Rightarrow> usb option" where
  "store_region (Const _) b u = None"
| "store_region (Local _) b u = None"
| "store_region DescStr b u = Some (u\<lparr>desc_str := b\<rparr>)"
| "store_region CtrlBuf b u = Some (u\<lparr>usbd_ctrl_buf := b\<rparr>)"
| "store_region EpinBuf b u = Some (u\<lparr>hidd_itf := (hidd_itf u)\<lparr>epin_buf := b\<rparr>\<rparr>)"
| "store_region EpoutBuf b u = Some (u\<lparr>hidd_itf := (hidd_itf u)\<lparr>epout_buf := b\<rparr>\<rparr>)"
| "store_region IdleRate b u = Some (u\<lparr>hidd_itf := (hidd_itf u)\<lparr>idle_rate := hd b\<rparr>\<rparr>)"
| "store_region ProtocolMode b u = Some (u\<lparr>hidd_itf := (hidd_itf u)\<lparr>protocol_mode := hd b\<rparr>\<rparr>)"

definition write_mem :: "ptr \<Rightarrow> u8 list \<Rightarrow> usb \<Rightarrow> usb option" where
  "write_mem p b u = (let m = region_bytes (fst p) u in
     if b = [] then Some u else if snd p + length b \<le> length m then store_region (fst p) (patch (snd p) b m) u else None)"

section \<open>The controller\<close>

definition log_dcd :: "dcd_op \<Rightarrow> usb \<Rightarrow> usb" where
  "log_dcd x u = u\<lparr>dcd_log := x # dcd_log u\<rparr>"

definition dcd_edpt_xfer :: "u8 \<Rightarrow> ptr option \<Rightarrow> nat \<Rightarrow> usb \<Rightarrow> (bool \<times> usb) option" where
  "dcd_edpt_xfer ep_addr buf total_bytes u =
     (if tu_edpt_dir ep_addr then do {
        b \<leftarrow> (if total_bytes = 0 then Some [] else do { p \<leftarrow> buf; read_mem p total_bytes u });
        Some (True, log_dcd (Xfer_In (tu_edpt_number ep_addr) b) u)
      } else
        Some (True, log_dcd (Xfer_Out (tu_edpt_number ep_addr) total_bytes)
          (u\<lparr>out_buffer := (out_buffer u)(tu_edpt_number ep_addr := buf)\<rparr>)))"

definition dcd_set_address :: "u8 \<Rightarrow> usb \<Rightarrow> usb option" where
  "dcd_set_address a u = map_option snd (dcd_edpt_xfer 0x80 None 0 (log_dcd (Set_Address a) u))"

definition calc_grxfsiz :: "nat \<Rightarrow> nat \<Rightarrow> nat" where
  "calc_grxfsiz max_ep_size ep_count = 15 + 2 * (max_ep_size div 4) + 2 * ep_count"

definition tu_edpt_packet_size :: "u8 list \<Rightarrow> nat option" where
  "tu_edpt_packet_size d = map_option (\<lambda>w. unat (w AND 0x7ff)) (le16_at d 4)"

text \<open>Four endpoints and 320 words of FIFO memory.\<close>

definition dcd_edpt_open :: "u8 list \<Rightarrow> usb \<Rightarrow> (bool \<times> usb) option" where
  "dcd_edpt_open d u = do {
     a \<leftarrow> byte_at d 2;
     size \<leftarrow> tu_edpt_packet_size d;
     let fifo_size = (size + 3) div 4;
     if \<not> tu_edpt_number a < 4 then Some (False, u)
     else if \<not> tu_edpt_dir a then
       (let sz = calc_grxfsiz (4 * fifo_size) 4
        in if grxfsiz u < sz then
             (if \<not> sz + allocated_fifo_words_tx u \<le> 320 then Some (False, u)
              else Some (True, log_dcd (Open d) (u\<lparr>grxfsiz := sz\<rparr>)))
           else Some (True, log_dcd (Open d) u))
     else if \<not> allocated_fifo_words_tx u + fifo_size + grxfsiz u \<le> 320 then Some (False, u)
     else Some (True, log_dcd (Open d) (u\<lparr>allocated_fifo_words_tx := allocated_fifo_words_tx u + fifo_size\<rparr>))
   }"

definition dcd_edpt_close_all :: "usb \<Rightarrow> usb" where
  "dcd_edpt_close_all u = log_dcd Close_All (u\<lparr>allocated_fifo_words_tx := 16\<rparr>)"

text \<open>Start of a bus reset, as far as the stack sees it.\<close>

definition dcd_bus_reset :: "usb \<Rightarrow> usb" where
  "dcd_bus_reset u = u\<lparr>out_buffer := (\<lambda>_. None), grxfsiz := calc_grxfsiz 64 4, allocated_fifo_words_tx := 16\<rparr>"

text \<open>An OUT packet is moved from the FIFO to the buffer of its transfer.\<close>

definition dcd_receive :: "nat \<Rightarrow> u8 list \<Rightarrow> usb \<Rightarrow> usb option" where
  "dcd_receive epnum b u =
     (case out_buffer u epnum of
        None \<Rightarrow> if b = [] then Some u else None
      | Some p \<Rightarrow> do {
          u \<leftarrow> write_mem p b u;
          Some (u\<lparr>out_buffer := (out_buffer u)(epnum := Some (fst p, snd p + length b))\<rparr>)
        })"

section \<open>Endpoints\<close>

definition ep_state :: "u8 \<Rightarrow> usb \<Rightarrow> tu_edpt_state_t option" where
  "ep_state ep_addr u = (if tu_edpt_number ep_addr < CFG_TUD_ENDPPOINT_MAX
     then Some (ep_status (usbd_dev u) (tu_edpt_number ep_addr) (tu_edpt_dir ep_addr)) else None)"

definition upd_ep :: "u8 \<Rightarrow> (tu_edpt_state_t \<Rightarrow> tu_edpt_state_t) \<Rightarrow> usb \<Rightarrow> usb" where
  "upd_ep ep_addr f u = u\<lparr>usbd_dev := (usbd_dev u)\<lparr>ep_status := (ep_status (usbd_dev u))(tu_edpt_number ep_addr :=
     (ep_status (usbd_dev u) (tu_edpt_number ep_addr))(tu_edpt_dir ep_addr :=
       f (ep_status (usbd_dev u) (tu_edpt_number ep_addr) (tu_edpt_dir ep_addr))))\<rparr>\<rparr>"

text \<open>The test under the mutex decides; the test before it only saves a lock.\<close>

definition tu_edpt_claim :: "tu_edpt_state_t \<Rightarrow> bool \<times> tu_edpt_state_t" where
  "tu_edpt_claim s = (if \<not> busy s \<and> \<not> claimed s then (True, s\<lparr>claimed := True\<rparr>) else (False, s))"

definition tu_edpt_release :: "tu_edpt_state_t \<Rightarrow> bool \<times> tu_edpt_state_t" where
  "tu_edpt_release s = (if claimed s \<and> \<not> busy s then (True, s\<lparr>claimed := False\<rparr>) else (False, s))"

definition usbd_edpt_claim :: "u8 \<Rightarrow> usb \<Rightarrow> (bool \<times> usb) option" where
  "usbd_edpt_claim ep_addr u = do {
     s \<leftarrow> ep_state ep_addr u;
     let (r, s) = tu_edpt_claim s;
     Some (r, upd_ep ep_addr (\<lambda>_. s) u)
   }"

definition usbd_edpt_release :: "u8 \<Rightarrow> usb \<Rightarrow> (bool \<times> usb) option" where
  "usbd_edpt_release ep_addr u = do {
     s \<leftarrow> ep_state ep_addr u;
     let (r, s) = tu_edpt_release s;
     Some (r, upd_ep ep_addr (\<lambda>_. s) u)
   }"

definition usbd_edpt_xfer :: "u8 \<Rightarrow> ptr option \<Rightarrow> nat \<Rightarrow> usb \<Rightarrow> (bool \<times> usb) option" where
  "usbd_edpt_xfer ep_addr buf total_bytes u = do {
     s \<leftarrow> ep_state ep_addr u;
     if busy s then Some (False, u)
     else do {
       (ok, u) \<leftarrow> dcd_edpt_xfer ep_addr buf total_bytes (upd_ep ep_addr (\<lambda>s. s\<lparr>busy := True\<rparr>) u);
       Some (ok, if ok then u else upd_ep ep_addr (\<lambda>s. s\<lparr>busy := False, claimed := False\<rparr>) u)
     }
   }"

definition usbd_edpt_busy :: "u8 \<Rightarrow> usb \<Rightarrow> bool option" where
  "usbd_edpt_busy ep_addr u = map_option busy (ep_state ep_addr u)"

definition usbd_edpt_stalled :: "u8 \<Rightarrow> usb \<Rightarrow> bool option" where
  "usbd_edpt_stalled ep_addr u = map_option stalled (ep_state ep_addr u)"

definition usbd_edpt_stall :: "u8 \<Rightarrow> usb \<Rightarrow> usb option" where
  "usbd_edpt_stall ep_addr u = do {
     s \<leftarrow> ep_state ep_addr u;
     Some (if stalled s then u
           else upd_ep ep_addr (\<lambda>s. s\<lparr>stalled := True, busy := True\<rparr>) (log_dcd (Stall ep_addr) u))
   }"

definition usbd_edpt_clear_stall :: "u8 \<Rightarrow> usb \<Rightarrow> usb option" where
  "usbd_edpt_clear_stall ep_addr u = do {
     s \<leftarrow> ep_state ep_addr u;
     Some (if stalled s then upd_ep ep_addr (\<lambda>s. s\<lparr>stalled := False, busy := False\<rparr>) (log_dcd (Clear_Stall ep_addr) u) else u)
   }"

definition TUSB_SPEED_HIGH :: u8 where "TUSB_SPEED_HIGH = 2"

definition tu_edpt_validate :: "u8 list \<Rightarrow> u8 \<Rightarrow> bool option" where
  "tu_edpt_validate d sp = do {
     size \<leftarrow> tu_edpt_packet_size d;
     a \<leftarrow> byte_at d 3;
     let x = a AND 3;
     Some (if x = 1 then size \<le> (if sp = TUSB_SPEED_HIGH then 1024 else 1023)
           else if x = 2 then (if sp = TUSB_SPEED_HIGH then size = 512 else size \<le> 64)
           else if x = 3 then size \<le> (if sp = TUSB_SPEED_HIGH then 1024 else 64)
           else False)
   }"

definition usbd_edpt_open :: "u8 list \<Rightarrow> usb \<Rightarrow> (bool \<times> usb) option" where
  "usbd_edpt_open d u = do {
     a \<leftarrow> byte_at d 2;
     if \<not> tu_edpt_number a < CFG_TUD_ENDPPOINT_MAX then Some (False, u)
     else do {
       v \<leftarrow> tu_edpt_validate d (speed (usbd_dev u));
       if \<not> v then Some (False, u) else dcd_edpt_open d u
     }
   }"

section \<open>Control transfers\<close>

definition upd_ctrl :: "(usbd_control_xfer_t \<Rightarrow> usbd_control_xfer_t) \<Rightarrow> usb \<Rightarrow> usb" where
  "upd_ctrl f u = u\<lparr>ctrl_xfer := f (ctrl_xfer u)\<rparr>"

definition status_stage_xact :: "tusb_control_request_t \<Rightarrow> usb \<Rightarrow> (bool \<times> usb) option" where
  "status_stage_xact r u = usbd_edpt_xfer (if direction r then 0x00 else 0x80) None 0 u"

definition usbd_control_set_request :: "tusb_control_request_t \<Rightarrow> usb \<Rightarrow> usb" where
  "usbd_control_set_request r = upd_ctrl (\<lambda>x. x\<lparr>request := r, buffer := None, total_xferred := 0, data_len := 0\<rparr>)"

definition tud_control_status :: "tusb_control_request_t \<Rightarrow> usb \<Rightarrow> (bool \<times> usb) option" where
  "tud_control_status r u =
     status_stage_xact r (upd_ctrl (\<lambda>x. x\<lparr>request := r, buffer := None, total_xferred := 0, data_len := 0\<rparr>) u)"

definition data_stage_xact :: "usb \<Rightarrow> (bool \<times> usb) option" where
  "data_stage_xact u = (
     let x = ctrl_xfer u; n = min (unat (data_len x - total_xferred x)) CFG_TUD_ENDPOINT0_SIZE
     in if direction (request x) then do {
          u \<leftarrow> (if n \<noteq> 0 then do { p \<leftarrow> buffer x; b \<leftarrow> read_mem p n u; write_mem (CtrlBuf, 0) b u } else Some u);
          usbd_edpt_xfer 0x80 (if n \<noteq> 0 then Some (CtrlBuf, 0) else None) n u
        } else usbd_edpt_xfer 0x00 (if n \<noteq> 0 then Some (CtrlBuf, 0) else None) n u)"

definition tud_control_xfer :: "tusb_control_request_t \<Rightarrow> ptr option \<Rightarrow> u16 \<Rightarrow> usb \<Rightarrow> (bool \<times> usb) option" where
  "tud_control_xfer r buf len u = (
     let u = upd_ctrl (\<lambda>x. x\<lparr>request := r, buffer := buf, total_xferred := 0, data_len := min len (wLength r)\<rparr>) u
     in if wLength r > 0 then
          (if data_len (ctrl_xfer u) > 0 \<and> buf = None then Some (False, u) else data_stage_xact u)
        else status_stage_xact r u)"

definition usbd_control_reset :: "usb \<Rightarrow> usb" where
  "usbd_control_reset = upd_ctrl (\<lambda>_. \<lparr>request = zero_request, buffer = None, data_len = 0, total_xferred = 0, complete_cb = False\<rparr>)"

definition usbd_control_set_complete_callback :: "bool \<Rightarrow> usb \<Rightarrow> usb" where
  "usbd_control_set_complete_callback fp = upd_ctrl (\<lambda>x. x\<lparr>complete_cb := fp\<rparr>)"

end
