(* ===== verification/Usb_Device.thy ===== *)
theory Usb_Device
  imports Usb_Core
begin

text \<open>
  The USB device, second part: the application \<open>Src/usb_device.c\<close> with its descriptors and callbacks, the HID class
  driver, and the core of \<open>usbd.c\<close> that takes events from the controller and answers control requests.
\<close>

section \<open>Descriptors and callbacks of the application\<close>

definition desc_device :: "u8 list" where
  "desc_device = [18, 1, 0x00, 0x02, 0, 0, 0, 64, 0x83, 0x04, 0x48, 0x37, 0x00, 0x01, 1, 2, 3, 1]"

definition desc_hid_report :: "u8 list" where
  "desc_hid_report = [0x05, 0x01, 0x09, 0x02, 0xa1, 0x01, 0x09, 0x01, 0xa1, 0x00, 0x05, 0x09, 0x19, 0x01, 0x29, 0x05, 0x15, 0x00,
     0x25, 0x01, 0x95, 0x05, 0x75, 0x01, 0x81, 0x02, 0x95, 0x01, 0x75, 0x03, 0x81, 0x01, 0x05, 0x01, 0x09, 0x30, 0x09, 0x31, 0x15,
     0x81, 0x25, 0x7f, 0x95, 0x02, 0x75, 0x08, 0x81, 0x06, 0x09, 0x38, 0x15, 0x81, 0x25, 0x7f, 0x95, 0x01, 0x75, 0x08, 0x81, 0x06,
     0x05, 0x0c, 0x0a, 0x38, 0x02, 0x15, 0x81, 0x25, 0x7f, 0x95, 0x01, 0x75, 0x08, 0x81, 0x06, 0xc0, 0xc0]"

text \<open>The configuration descriptor, then the interface, HID and endpoint descriptors.\<close>

definition desc_configuration :: "u8 list" where
  "desc_configuration =
     [9, 2, 34, 0, 1, 1, 0, 0x80, 50] @
     [9, 4, 0, 0, 1, 3, 1, 2, 0] @ [9, 0x21, 0x11, 0x01, 0, 1, 0x22, of_nat (length desc_hid_report), 0] @ [7, 5, 0x81, 3, 64, 0, 10]"

definition string_desc_arr :: "string option list" where
  "string_desc_arr = [Some [CHR 0x09, CHR 0x04], Some ''Misha molodets!'', Some ''STM32F407VET6 of Misha'', None]"

definition utf16 :: "string \<Rightarrow> u8 list" where
  "utf16 s = concat (map (\<lambda>c. [of_char c, 0]) s)"

text \<open>
  The string with the given index is put into \<open>_desc_str\<close>, in UTF-16 after a word with length and type; the result is the pointer.
  The entry of the serial number is \<open>NULL\<close>, of which \<open>strlen\<close> is undefined.
\<close>

definition put_string :: "u8 list \<Rightarrow> usb \<Rightarrow> usb" where
  "put_string b u = u\<lparr>desc_str := patch 0 ([of_nat (length b + 2), 3] @ b) (desc_str u)\<rparr>"

definition tud_descriptor_string_cb :: "u8 \<Rightarrow> usb \<Rightarrow> (bool \<times> usb) option" where
  "tud_descriptor_string_cb index u =
     (if index = 0 then Some (True, put_string [0x09, 0x04] u)
      else if \<not> unat index < length string_desc_arr then Some (False, u)
      else do {
        s \<leftarrow> string_desc_arr ! unat index;
        Some (True, put_string (utf16 (take 32 s)) u)
      })"

definition tud_hid_get_report_cb :: "u8 \<Rightarrow> u8 \<Rightarrow> u16" where
  "tud_hid_get_report_cb report_id report_type = 0"

section \<open>Reports\<close>

definition upd_hid :: "(hidd_interface_t \<Rightarrow> hidd_interface_t) \<Rightarrow> usb \<Rightarrow> usb" where
  "upd_hid f u = u\<lparr>hidd_itf := f (hidd_itf u)\<rparr>"

definition tud_mounted :: "usb \<Rightarrow> bool" where "tud_mounted u \<longleftrightarrow> cfg_num (usbd_dev u) \<noteq> 0"
definition tud_suspended :: "usb \<Rightarrow> bool" where "tud_suspended u \<longleftrightarrow> suspended (usbd_dev u)"
definition tud_connected :: "usb \<Rightarrow> bool" where "tud_connected u \<longleftrightarrow> connected (usbd_dev u)"
definition tud_ready :: "usb \<Rightarrow> bool" where "tud_ready u \<longleftrightarrow> tud_mounted u \<and> \<not> tud_suspended u"
definition tud_inited :: "usb \<Rightarrow> bool" where "tud_inited u \<longleftrightarrow> usbd_rhport u \<noteq> RHPORT_INVALID"

definition tud_hid_n_ready :: "usb \<Rightarrow> bool option" where
  "tud_hid_n_ready u =
     (if tud_ready u \<and> ep_in (hidd_itf u) \<noteq> 0 then map_option Not (usbd_edpt_busy (ep_in (hidd_itf u)) u) else Some False)"

definition tud_hid_n_report :: "u8 \<Rightarrow> ptr \<Rightarrow> nat \<Rightarrow> usb \<Rightarrow> (bool \<times> usb) option" where
  "tud_hid_n_report report_id report len u = do {
     let a = ep_in (hidd_itf u);
     (ok, u) \<leftarrow> usbd_edpt_claim a u;
     if \<not> ok then Some (False, u)
     else if report_id \<noteq> 0 then do {
       u \<leftarrow> write_mem (EpinBuf, 0) [report_id] u;
       if len > CFG_TUD_HID_EP_BUFSIZE - 1 then Some (False, u)
       else do {
         b \<leftarrow> read_mem report len u;
         u \<leftarrow> write_mem (EpinBuf, 1) b u;
         usbd_edpt_xfer a (Some (EpinBuf, 0)) (len + 1) u
       }
     }
     else if len > CFG_TUD_HID_EP_BUFSIZE then Some (False, u)
     else do {
       b \<leftarrow> read_mem report len u;
       u \<leftarrow> write_mem (EpinBuf, 0) b u;
       usbd_edpt_xfer a (Some (EpinBuf, 0)) len u
     }
   }"

definition tud_hid_n_mouse_report :: "u8 \<Rightarrow> u8 \<Rightarrow> u8 \<Rightarrow> u8 \<Rightarrow> u8 \<Rightarrow> u8 \<Rightarrow> usb \<Rightarrow> (bool \<times> usb) option" where
  "tud_hid_n_mouse_report report_id buttons x y vertical horizontal u =
     tud_hid_n_report report_id (Local [buttons, x, y, vertical, horizontal], 0) 5 u"

definition tud_hid_n_keyboard_report :: "u8 \<Rightarrow> u8 \<Rightarrow> u8 list option \<Rightarrow> usb \<Rightarrow> (bool \<times> usb) option" where
  "tud_hid_n_keyboard_report report_id modifier keycode u = do {
     keys \<leftarrow> (case keycode of None \<Rightarrow> Some (replicate 6 0) | Some ks \<Rightarrow> if 6 \<le> length ks then Some (take 6 ks) else None);
     tud_hid_n_report report_id (Local ([modifier, 0] @ keys), 0) 8 u
   }"

definition tud_hid_n_gamepad_report ::
  "u8 \<Rightarrow> u8 \<Rightarrow> u8 \<Rightarrow> u8 \<Rightarrow> u8 \<Rightarrow> u8 \<Rightarrow> u8 \<Rightarrow> u8 \<Rightarrow> u32 \<Rightarrow> usb \<Rightarrow> (bool \<times> usb) option" where
  "tud_hid_n_gamepad_report report_id x y z rz rx ry hat buttons u =
     tud_hid_n_report report_id (Local ([x, y, z, rz, rx, ry, hat] @ len_bytes buttons), 0) 11 u"

definition tud_hid_set_report_cb :: "ptr \<Rightarrow> nat \<Rightarrow> usb \<Rightarrow> usb option" where
  "tud_hid_set_report_cb report bufsize u = map_option snd (tud_hid_n_report 0 report bufsize u)"

text \<open>The task that reads the joystick and reports its position as movement of a mouse.\<close>

definition get_delta_by_adc_val :: "int \<Rightarrow> u8" where
  "get_delta_by_adc_val val =
     (if val < 32 then -3 else if val < 64 then -2 else if val < 96 then -1 else if val < 160 then 0
      else if val < 192 then 1 else if val < 224 then 2 else 3)"

definition usb_hid_task_round :: "u32 \<Rightarrow> u32 \<Rightarrow> usb \<Rightarrow> (bool \<times> usb) option" where
  "usb_hid_task_round jdr1 jdr2 u =
     tud_hid_n_mouse_report 0 0 (get_delta_by_adc_val (sint jdr1)) (get_delta_by_adc_val (sint jdr2)) 0 0 u"

section \<open>The HID class driver\<close>

definition hidd_reset :: "usb \<Rightarrow> usb" where
  "hidd_reset u = u\<lparr>hidd_itf := zero_hid\<rparr>"

definition hidd_init :: "usb \<Rightarrow> usb" where "hidd_init u = hidd_reset u"

fun usbd_open_edpt_pair :: "nat \<Rightarrow> u8 list \<Rightarrow> u8 \<Rightarrow> usb \<Rightarrow> (bool \<times> usb) option" where
  "usbd_open_edpt_pair 0 d xfer_type u = Some (True, u)"
| "usbd_open_edpt_pair (Suc n) d xfer_type u = do {
     ty \<leftarrow> tu_desc_type d;
     attr \<leftarrow> byte_at d 3;
     if \<not> (ty = 5 \<and> xfer_type = attr AND 3) then Some (False, u)
     else do {
       (ok, u) \<leftarrow> usbd_edpt_open d u;
       if \<not> ok then Some (False, u)
       else do {
         a \<leftarrow> byte_at d 2;
         let u = upd_hid (\<lambda>h. if tu_edpt_dir a then h\<lparr>ep_in := a\<rparr> else h\<lparr>ep_out := a\<rparr>) u;
         d \<leftarrow> tu_desc_next d;
         usbd_open_edpt_pair n d xfer_type u
       }
     }
   }"

definition hidd_open :: "u8 list \<Rightarrow> u16 \<Rightarrow> usb \<Rightarrow> (u16 \<times> usb) option" where
  "hidd_open desc_itf max_len u = do {
     cls \<leftarrow> byte_at desc_itf 5;
     n \<leftarrow> byte_at desc_itf 4;
     let drv_len = (9 + 9 + ucast n * 7 :: u16);
     if cls \<noteq> 3 then Some (0, u)
     else if \<not> max_len \<ge> drv_len then Some (0, u)
     else if ep_in (hidd_itf u) \<noteq> 0 then Some (0, u)
     else do {
       d \<leftarrow> tu_desc_next desc_itf;
       ty \<leftarrow> tu_desc_type d;
       if ty \<noteq> 0x21 then Some (0, u)
       else do {
         let u = upd_hid (\<lambda>h. h\<lparr>hid_descriptor := Some d\<rparr>) u;
         e \<leftarrow> tu_desc_next d;
         (ok, u) \<leftarrow> usbd_open_edpt_pair (unat n) e 3 u;
         if \<not> ok then Some (0, u)
         else do {
           sub \<leftarrow> byte_at desc_itf 6;
           prot \<leftarrow> byte_at desc_itf 7;
           num \<leftarrow> byte_at desc_itf 2;
           len \<leftarrow> le16_at d 7;
           let u = upd_hid (\<lambda>h. h\<lparr>itf_protocol := (if sub = 1 then prot else itf_protocol h), protocol_mode := 1,
                     itf_num := num, report_desc_len := len\<rparr>) u;
           u \<leftarrow> (if ep_out (hidd_itf u) \<noteq> 0
                 then map_option snd (usbd_edpt_xfer (ep_out (hidd_itf u)) (Some (EpoutBuf, 0)) CFG_TUD_HID_EP_BUFSIZE u)
                 else Some u);
           Some (drv_len, u)
         }
       }
     }
   }"

datatype control_stage = CONTROL_STAGE_SETUP | CONTROL_STAGE_DATA | CONTROL_STAGE_ACK

definition get_index_by_itfnum :: "u8 \<Rightarrow> usb \<Rightarrow> u8" where
  "get_index_by_itfnum num u = (if num = itf_num (hidd_itf u) then 0 else 0xff)"

definition hid_std_request :: "control_stage \<Rightarrow> tusb_control_request_t \<Rightarrow> usb \<Rightarrow> (bool \<times> usb) option" where
  "hid_std_request stage r u =
     (if stage \<noteq> CONTROL_STAGE_SETUP then Some (True, u)
      else if bRequest r = 6 \<and> tu_u16_high (wValue r) = 0x21 then
        (case hid_descriptor (hidd_itf u) of
           None \<Rightarrow> Some (False, u)
         | Some d \<Rightarrow> do { n \<leftarrow> byte_at d 0; tud_control_xfer r (Some (Const d, 0)) (ucast n) u })
      else if bRequest r = 6 \<and> tu_u16_high (wValue r) = 0x22 then do {
        (_, u) \<leftarrow> tud_control_xfer r (Some (Const desc_hid_report, 0)) (report_desc_len (hidd_itf u)) u;
        Some (True, u)
      }
      else Some (False, u))"

definition hid_get_report :: "tusb_control_request_t \<Rightarrow> usb \<Rightarrow> (bool \<times> usb) option" where
  "hid_get_report r u = do {
     let report_id = tu_u16_low (wValue r);
     let req_len = min (wLength r) 64;
     (xferlen, u) \<leftarrow> (if report_id \<noteq> 0 \<and> req_len > 1
        then do { u \<leftarrow> write_mem (EpinBuf, 0) [report_id] u; Some (1, u) } else Some (0, u));
     let xferlen = xferlen + tud_hid_get_report_cb report_id (tu_u16_high (wValue r));
     if \<not> xferlen > 0 then Some (False, u)
     else do { (_, u) \<leftarrow> tud_control_xfer r (Some (EpinBuf, 0)) xferlen u; Some (True, u) }
   }"

definition hid_set_report :: "control_stage \<Rightarrow> tusb_control_request_t \<Rightarrow> usb \<Rightarrow> (bool \<times> usb) option" where
  "hid_set_report stage r u =
     (case stage of
        CONTROL_STAGE_SETUP \<Rightarrow>
          if \<not> unat (wLength r) \<le> CFG_TUD_HID_EP_BUFSIZE then Some (False, u)
          else do { (_, u) \<leftarrow> tud_control_xfer r (Some (EpoutBuf, 0)) (wLength r) u; Some (True, u) }
      | CONTROL_STAGE_ACK \<Rightarrow> do {
          let report_id = tu_u16_low (wValue r);
          let len = min (unat (wLength r)) CFG_TUD_HID_EP_BUFSIZE;
          b \<leftarrow> byte_at (epout_buf (hidd_itf u)) 0;
          u \<leftarrow> (if report_id \<noteq> 0 \<and> len > 1 \<and> report_id = b then tud_hid_set_report_cb (EpoutBuf, 1) (len - 1) u
                else tud_hid_set_report_cb (EpoutBuf, 0) len u);
          Some (True, u)
        }
      | CONTROL_STAGE_DATA \<Rightarrow> Some (True, u))"

definition hid_class_request :: "control_stage \<Rightarrow> tusb_control_request_t \<Rightarrow> usb \<Rightarrow> (bool \<times> usb) option" where
  "hid_class_request stage r u =
     (let setup = (stage = CONTROL_STAGE_SETUP); done = Some (True, u)
      in if bRequest r = 0x01 then (if setup then hid_get_report r u else done)
      else if bRequest r = 0x09 then hid_set_report stage r u
      else if bRequest r = 0x0a then
        (if setup then do {
           let u = upd_hid (\<lambda>h. h\<lparr>idle_rate := tu_u16_high (wValue r)\<rparr>) u;
           (_, u) \<leftarrow> tud_control_status r u;
           Some (True, u)
         } else done)
      else if bRequest r = 0x02 then
        (if setup then do { (_, u) \<leftarrow> tud_control_xfer r (Some (IdleRate, 0)) 1 u; Some (True, u) } else done)
      else if bRequest r = 0x03 then
        (if setup then do { (_, u) \<leftarrow> tud_control_xfer r (Some (ProtocolMode, 0)) 1 u; Some (True, u) } else done)
      else if bRequest r = 0x0b then
        (case stage of
           CONTROL_STAGE_SETUP \<Rightarrow> do { (_, u) \<leftarrow> tud_control_status r u; Some (True, u) }
         | CONTROL_STAGE_ACK \<Rightarrow> Some (True, upd_hid (\<lambda>h. h\<lparr>protocol_mode := ucast (wValue r)\<rparr>) u)
         | CONTROL_STAGE_DATA \<Rightarrow> done)
      else Some (False, u))"

definition hidd_control_xfer_cb :: "control_stage \<Rightarrow> tusb_control_request_t \<Rightarrow> usb \<Rightarrow> (bool \<times> usb) option" where
  "hidd_control_xfer_cb stage r u =
     (if recipient r \<noteq> 1 then Some (False, u)
      else if \<not> get_index_by_itfnum (ucast (wIndex r)) u < 1 then Some (False, u)
      else if req_type r = 0 then hid_std_request stage r u
      else if req_type r = 1 then hid_class_request stage r u
      else Some (False, u))"

definition hidd_xfer_cb :: "u8 \<Rightarrow> u32 \<Rightarrow> usb \<Rightarrow> (bool \<times> usb) option" where
  "hidd_xfer_cb ep_addr xferred u =
     (if \<not> (ep_addr = ep_out (hidd_itf u) \<or> ep_addr = ep_in (hidd_itf u)) then Some (False, u)
      else if ep_addr = ep_in (hidd_itf u) then Some (True, u)
      else do {
        u \<leftarrow> tud_hid_set_report_cb (EpoutBuf, 0) (unat (ucast xferred :: u16)) u;
        usbd_edpt_xfer (ep_out (hidd_itf u)) (Some (EpoutBuf, 0)) CFG_TUD_HID_EP_BUFSIZE u
      })"

section \<open>Completion of a control transaction\<close>

definition data_stage_done :: "usb \<Rightarrow> (bool \<times> usb) option" where
  "data_stage_done u = do {
     let r = request (ctrl_xfer u);
     (ok, u) \<leftarrow> (if complete_cb (ctrl_xfer u) then hidd_control_xfer_cb CONTROL_STAGE_DATA r u else Some (True, u));
     if ok then status_stage_xact (request (ctrl_xfer u)) u
     else Some (True, log_dcd (Stall 0x80) (log_dcd (Stall 0) u))
   }"

definition usbd_control_xfer_cb :: "u8 \<Rightarrow> u32 \<Rightarrow> usb \<Rightarrow> (bool \<times> usb) option" where
  "usbd_control_xfer_cb ep_addr xferred u = (
     let r = request (ctrl_xfer u); n = unat xferred
     in if tu_edpt_dir ep_addr \<noteq> direction r then
          (if xferred \<noteq> 0 then Some (False, u)
           else do {
             (_, u) \<leftarrow> (if complete_cb (ctrl_xfer u) then hidd_control_xfer_cb CONTROL_STAGE_ACK r u else Some (True, u));
             Some (True, u)
           })
        else if \<not> direction r \<and> buffer (ctrl_xfer u) = None then Some (False, u)
        else do {
          u \<leftarrow> (if \<not> direction r then do {
                  p \<leftarrow> buffer (ctrl_xfer u);
                  b \<leftarrow> read_mem (CtrlBuf, 0) n u;
                  write_mem p b u
                } else Some u);
          let u = upd_ctrl (\<lambda>x. x\<lparr>total_xferred := total_xferred x + ucast xferred,
                    buffer := map_option (\<lambda>p. (fst p, snd p + n)) (buffer x)\<rparr>) u;
          if wLength r = total_xferred (ctrl_xfer u) \<or> n < CFG_TUD_ENDPOINT0_SIZE then data_stage_done u
          else data_stage_xact u
        })"

section \<open>Configuration\<close>

definition upd_dev :: "(usbd_device_t \<Rightarrow> usbd_device_t) \<Rightarrow> usb \<Rightarrow> usb" where
  "upd_dev f u = u\<lparr>usbd_dev := f (usbd_dev u)\<rparr>"

text \<open>The HID driver is the only one; it has number 0.\<close>

definition get_driver :: "u8 \<Rightarrow> bool" where "get_driver drvid \<longleftrightarrow> drvid = 0"

definition configuration_reset :: "usb \<Rightarrow> usb" where
  "configuration_reset u = upd_dev (\<lambda>_. zero_dev\<lparr>itf2drv := (\<lambda>_. DRVID_INVALID), ep2drv := (\<lambda>_ _. DRVID_INVALID)\<rparr>) (hidd_reset u)"

definition usbd_reset :: "usb \<Rightarrow> usb" where
  "usbd_reset u = usbd_control_reset (configuration_reset u)"

partial_function (option) tu_edpt_bind_driver :: "u8 list \<Rightarrow> u8 \<Rightarrow> usb \<Rightarrow> usb option" where
  "tu_edpt_bind_driver d drv u =
     (if d = [] then Some u
      else do {
        ty \<leftarrow> tu_desc_type d;
        u \<leftarrow> (if ty = 5 then do {
                a \<leftarrow> byte_at d 2;
                if tu_edpt_number a < CFG_TUD_ENDPPOINT_MAX
                then Some (upd_dev (\<lambda>v. v\<lparr>ep2drv := (ep2drv v)(tu_edpt_number a := (ep2drv v (tu_edpt_number a))(tu_edpt_dir a := drv))\<rparr>) u)
                else None
              } else Some u);
        d \<leftarrow> tu_desc_next d;
        tu_edpt_bind_driver d drv u
      })"

fun bind_interfaces :: "nat \<Rightarrow> u8 \<Rightarrow> u8 \<Rightarrow> usb \<Rightarrow> (bool \<times> usb) option" where
  "bind_interfaces 0 num drv u = Some (True, u)"
| "bind_interfaces (Suc n) num drv u =
     (if \<not> unat num < CFG_TUD_INTERFACE_MAX then None
      else if itf2drv (usbd_dev u) (unat num) \<noteq> DRVID_INVALID then Some (False, u)
      else bind_interfaces n (num + 1) drv (upd_dev (\<lambda>v. v\<lparr>itf2drv := (itf2drv v)(unat num := drv)\<rparr>) u))"

partial_function (option) set_config_loop :: "u8 list \<Rightarrow> usb \<Rightarrow> (bool \<times> usb) option" where
  "set_config_loop d u =
     (if d = [] then Some (True, u)
      else do {
        ty \<leftarrow> tu_desc_type d;
        (assoc_itf_count, d) \<leftarrow> (if ty = 0x0b then do { c \<leftarrow> byte_at d 3; d \<leftarrow> tu_desc_next d; Some (unat c, d) } else Some (1, d));
        ty \<leftarrow> tu_desc_type d;
        if ty \<noteq> 4 then Some (False, u)
        else do {
          (drv_len, u) \<leftarrow> hidd_open d (of_nat (length d)) u;
          if 9 \<le> drv_len \<and> unat drv_len \<le> unat (of_nat (length d) :: u16) then do {
            num \<leftarrow> byte_at d 2;
            (ok, u) \<leftarrow> bind_interfaces assoc_itf_count num 0 u;
            if \<not> ok then Some (False, u)
            else do {
              u \<leftarrow> tu_edpt_bind_driver (take (unat drv_len) d) 0 u;
              set_config_loop (drop (unat drv_len) d) u
            }
          }
          else Some (False, u)
        }
      })"

definition process_set_config :: "usb \<Rightarrow> (bool \<times> usb) option" where
  "process_set_config u = do {
     let desc = desc_configuration;
     ty \<leftarrow> tu_desc_type desc;
     if ty \<noteq> 2 then Some (False, u)
     else do {
       attr \<leftarrow> byte_at desc 7;
       let u = upd_dev (\<lambda>v. v\<lparr>remote_wakeup_support := (attr AND 0x20 \<noteq> 0), self_powered := (attr AND 0x40 \<noteq> 0)\<rparr>) u;
       len \<leftarrow> le16_at desc 2;
       if unat len \<le> length desc then set_config_loop (drop 9 (take (unat len) desc)) u else None
     }
   }"

section \<open>Control requests\<close>

definition process_get_descriptor :: "tusb_control_request_t \<Rightarrow> usb \<Rightarrow> (bool \<times> usb) option" where
  "process_get_descriptor r u =
     (let desc_type = tu_u16_high (wValue r); desc_index = tu_u16_low (wValue r)
      in if desc_type = 1 then
           (if CFG_TUD_ENDPOINT0_SIZE < 18 \<and> \<not> addressed (usbd_dev u) \<and> wLength r > 18
            then tud_control_xfer (r\<lparr>wLength := of_nat CFG_TUD_ENDPOINT0_SIZE\<rparr>) (Some (Const desc_device, 0)) (of_nat CFG_TUD_ENDPOINT0_SIZE) u
            else tud_control_xfer r (Some (Const desc_device, 0)) 18 u)
         else if desc_type = 2 then do {
           len \<leftarrow> le16_at desc_configuration 2;
           tud_control_xfer r (Some (Const desc_configuration, 0)) len u
         }
         else if desc_type = 3 then do {
           (ok, u) \<leftarrow> tud_descriptor_string_cb desc_index u;
           if \<not> ok then Some (False, u)
           else do {
             n \<leftarrow> tu_desc_len (desc_str u);
             tud_control_xfer r (Some (DescStr, 0)) (ucast n) u
           }
         }
         else Some (False, u))"

definition invoke_class_control :: "tusb_control_request_t \<Rightarrow> usb \<Rightarrow> (bool \<times> usb) option" where
  "invoke_class_control r u = hidd_control_xfer_cb CONTROL_STAGE_SETUP r (usbd_control_set_complete_callback True u)"

definition set_configuration :: "tusb_control_request_t \<Rightarrow> usb \<Rightarrow> (bool \<times> usb) option" where
  "set_configuration r u = do {
     let n = (ucast (wValue r) :: u8);
     (ok, u) \<leftarrow> (if cfg_num (usbd_dev u) = n then Some (True, u)
        else do {
          let u = (if cfg_num (usbd_dev u) \<noteq> 0
                   then upd_dev (\<lambda>v. v\<lparr>speed := speed (usbd_dev u)\<rparr>) (configuration_reset (dcd_edpt_close_all u)) else u);
          if n \<noteq> 0 then process_set_config u else Some (True, u)
        });
     if \<not> ok then Some (False, u)
     else do {
       (_, u) \<leftarrow> tud_control_status r (upd_dev (\<lambda>v. v\<lparr>cfg_num := n\<rparr>) u);
       Some (True, u)
     }
   }"

definition std_device_request :: "tusb_control_request_t \<Rightarrow> usb \<Rightarrow> (bool \<times> usb) option" where
  "std_device_request r u =
     (if bRequest r = 5 then do {
        u \<leftarrow> dcd_set_address (ucast (wValue r)) (usbd_control_set_request r u);
        Some (True, upd_dev (\<lambda>v. v\<lparr>addressed := True\<rparr>) u)
      }
      else if bRequest r = 8 then do {
        (_, u) \<leftarrow> tud_control_xfer r (Some (Local [cfg_num (usbd_dev u)], 0)) 1 u;
        Some (True, u)
      }
      else if bRequest r = 9 then set_configuration r u
      else if bRequest r = 6 then process_get_descriptor r u
      else if bRequest r = 3 \<or> bRequest r = 1 then
        (if wValue r \<noteq> 1 then Some (False, u)
         else do {
           (_, u) \<leftarrow> tud_control_status r (upd_dev (\<lambda>v. v\<lparr>remote_wakeup_en := (bRequest r = 3)\<rparr>) u);
           Some (True, u)
         })
      else if bRequest r = 0 then do {
        let v = usbd_dev u;
        let status = (if self_powered v then 1 else 0) OR (if remote_wakeup_en v then 2 else 0);
        (_, u) \<leftarrow> tud_control_xfer r (Some (Local [status, 0], 0)) 2 u;
        Some (True, u)
      }
      else Some (False, u))"

definition interface_request :: "tusb_control_request_t \<Rightarrow> usb \<Rightarrow> (bool \<times> usb) option" where
  "interface_request r u = do {
     let itf = unat (tu_u16_low (wIndex r));
     if \<not> itf < CFG_TUD_INTERFACE_MAX then Some (False, u)
     else if \<not> get_driver (itf2drv (usbd_dev u) itf) then Some (False, u)
     else do {
       (ok, u) \<leftarrow> invoke_class_control r u;
       if ok then Some (True, u)
       else if req_type r \<noteq> 0 then Some (False, u)
       else if bRequest r = 10 then do {
         (_, u) \<leftarrow> tud_control_xfer r (Some (Local [0], 0)) 1 (usbd_control_set_complete_callback False u);
         Some (True, u)
       }
       else if bRequest r = 11 then do {
         (_, u) \<leftarrow> tud_control_status r (usbd_control_set_complete_callback False u);
         Some (True, u)
       }
       else Some (False, u)
     }
   }"

definition endpoint_request :: "tusb_control_request_t \<Rightarrow> usb \<Rightarrow> (bool \<times> usb) option" where
  "endpoint_request r u = do {
     let a = tu_u16_low (wIndex r);
     if \<not> tu_edpt_number a < CFG_TUD_ENDPPOINT_MAX then Some (False, u)
     else do {
       let driver = get_driver (ep2drv (usbd_dev u) (tu_edpt_number a) (tu_edpt_dir a));
       if req_type r \<noteq> 0 then (if \<not> driver then Some (False, u) else invoke_class_control r u)
       else if bRequest r = 0 then do {
         s \<leftarrow> usbd_edpt_stalled a u;
         (_, u) \<leftarrow> tud_control_xfer r (Some (Local [if s then 1 else 0, 0], 0)) 2 u;
         Some (True, u)
       }
       else if bRequest r = 1 \<or> bRequest r = 3 then do {
         u \<leftarrow> (if wValue r = 0 then (if bRequest r = 1 then usbd_edpt_clear_stall a u else usbd_edpt_stall a u) else Some u);
         if driver then do {
           (_, u) \<leftarrow> invoke_class_control r u;
           let u = usbd_control_set_complete_callback False u;
           b \<leftarrow> usbd_edpt_busy 0x80 u;
           u \<leftarrow> (if \<not> b then map_option snd (tud_control_status r u) else Some u);
           Some (True, u)
         } else Some (True, u)
       }
       else Some (False, u)
     }
   }"

definition process_control_request :: "tusb_control_request_t \<Rightarrow> usb \<Rightarrow> (bool \<times> usb) option" where
  "process_control_request r u = (
     let u = usbd_control_set_complete_callback False u
     in if \<not> req_type r < 3 then Some (False, u)
        else if req_type r = 2 then Some (False, u)
        else if recipient r = 0 then
          (if req_type r = 1 then
             (let itf = unat (tu_u16_low (wIndex r))
              in if \<not> itf < CFG_TUD_INTERFACE_MAX then Some (False, u)
                 else if \<not> get_driver (itf2drv (usbd_dev u) itf) then Some (False, u)
                 else invoke_class_control r u)
           else std_device_request r u)
        else if recipient r = 1 then interface_request r u
        else if recipient r = 2 then endpoint_request r u
        else Some (False, u))"

section \<open>Events\<close>

definition free_ep :: "u8 \<Rightarrow> usb \<Rightarrow> usb" where
  "free_ep a = upd_ep a (\<lambda>s. s\<lparr>busy := False, claimed := False\<rparr>)"

text \<open>
  Some handlers let the control transfer point to a local variable. When they have returned, the variable has no bytes any more:
  reading it then is undefined.
\<close>

definition end_of_scope :: "region \<Rightarrow> region" where
  "end_of_scope m = (case m of Local _ \<Rightarrow> Local [] | _ \<Rightarrow> m)"

definition drop_locals :: "usb \<Rightarrow> usb" where
  "drop_locals = upd_ctrl (\<lambda>x. x\<lparr>buffer := map_option (map_prod end_of_scope id) (buffer x)\<rparr>)"

definition setup_received :: "tusb_control_request_t \<Rightarrow> usb \<Rightarrow> usb option" where
  "setup_received r u = do {
     (ok, u) \<leftarrow> process_control_request r (free_ep 0x80 (free_ep 0x00 (upd_dev (\<lambda>v. v\<lparr>connected := True\<rparr>) u)));
     let u = drop_locals u;
     Some (if ok then u else log_dcd (Stall 0x80) (log_dcd (Stall 0) u))
   }"

definition xfer_complete :: "u8 \<Rightarrow> u32 \<Rightarrow> usb \<Rightarrow> usb option" where
  "xfer_complete ep_addr len u = do {
     _ \<leftarrow> ep_state ep_addr u;
     let u = free_ep ep_addr u;
     if tu_edpt_number ep_addr = 0 then map_option snd (usbd_control_xfer_cb ep_addr len u)
     else if \<not> get_driver (ep2drv (usbd_dev u) (tu_edpt_number ep_addr) (tu_edpt_dir ep_addr)) then Some u
     else map_option snd (hidd_xfer_cb ep_addr len u)
   }"

fun usbd_event :: "dcd_event_t \<Rightarrow> usb \<Rightarrow> usb option" where
  "usbd_event (DCD_EVENT_BUS_RESET sp) u = Some (upd_dev (\<lambda>v. v\<lparr>speed := sp\<rparr>) (usbd_reset u))"
| "usbd_event DCD_EVENT_UNPLUGGED u = Some (usbd_reset u)"
| "usbd_event (DCD_EVENT_SETUP_RECEIVED r) u = setup_received r u"
| "usbd_event (DCD_EVENT_XFER_COMPLETE ep_addr len) u = xfer_complete ep_addr len u"
| "usbd_event _ u = Some u"

text \<open>
  \<open>tud_task_ext\<close> takes events until the queue is empty; on an empty queue it waits. An event for an endpoint without a driver
  makes it return, and the task calls it again at once.
\<close>

partial_function (option) tud_task_ext :: "usb \<Rightarrow> usb option" where
  "tud_task_ext u =
     (if \<not> tud_inited u then Some u
      else (case usbd_q u of
        [] \<Rightarrow> Some u
      | e # es \<Rightarrow> Option.bind (usbd_event e (u\<lparr>usbd_q := es\<rparr>)) tud_task_ext))"

definition osal_queue_send :: "dcd_event_t \<Rightarrow> usb \<Rightarrow> usb" where
  "osal_queue_send e u = (if length (usbd_q u) < CFG_TUD_TASK_QUEUE_SZ then u\<lparr>usbd_q := usbd_q u @ [e]\<rparr> else u)"

fun dcd_event_handler :: "dcd_event_t \<Rightarrow> usb \<Rightarrow> usb" where
  "dcd_event_handler DCD_EVENT_UNPLUGGED u =
     osal_queue_send DCD_EVENT_UNPLUGGED (upd_dev (\<lambda>v. v\<lparr>connected := False, addressed := False, cfg_num := 0, suspended := False\<rparr>) u)"
| "dcd_event_handler DCD_EVENT_SUSPEND u =
     (if connected (usbd_dev u) then osal_queue_send DCD_EVENT_SUSPEND (upd_dev (\<lambda>v. v\<lparr>suspended := True\<rparr>) u) else u)"
| "dcd_event_handler DCD_EVENT_RESUME u =
     (if connected (usbd_dev u) then osal_queue_send DCD_EVENT_RESUME (upd_dev (\<lambda>v. v\<lparr>suspended := False\<rparr>) u) else u)"
| "dcd_event_handler DCD_EVENT_SOF u =
     (if suspended (usbd_dev u) then osal_queue_send DCD_EVENT_RESUME (upd_dev (\<lambda>v. v\<lparr>suspended := False\<rparr>) u) else u)"
| "dcd_event_handler e u = osal_queue_send e u"

definition tud_remote_wakeup :: "usb \<Rightarrow> bool \<times> usb" where
  "tud_remote_wakeup u =
     (if suspended (usbd_dev u) \<and> remote_wakeup_support (usbd_dev u) \<and> remote_wakeup_en (usbd_dev u)
      then (True, log_dcd Remote_Wakeup u) else (False, u))"

definition tud_init :: "usb \<Rightarrow> usb" where
  "tud_init u = (if tud_inited u then u
     else (hidd_init (upd_dev (\<lambda>_. zero_dev) (u\<lparr>usbd_q := []\<rparr>)))\<lparr>usbd_rhport := 0\<rparr>)"

declare tu_edpt_bind_driver.simps [code] set_config_loop.simps [code] tud_task_ext.simps [code]

end
