(* ===== verification/Usb_Safety.thy ===== *)
theory Usb_Safety
  imports Usb_Device
begin

text \<open>
  Type safety of the USB device: a well-formedness invariant \<open>usb_ok\<close> of the state of the stack, the class driver and the buffers,
  which every operation keeps, and the proof that no input of a conforming host and controller leads to undefined behaviour. An
  operation is \<open>safe\<close> when it returns and its result is well-formed again; the rules \<open>safe_bind\<close> and \<open>safe_if\<close> follow its control flow.
\<close>

section \<open>Well-formed states\<close>

primrec region_size :: "region \<Rightarrow> nat" where
  "region_size (Const b) = length b"
| "region_size (Local b) = length b"
| "region_size DescStr = 66"
| "region_size CtrlBuf = CFG_TUD_ENDPOINT0_SIZE"
| "region_size EpinBuf = CFG_TUD_HID_EP_BUFSIZE"
| "region_size EpoutBuf = CFG_TUD_HID_EP_BUFSIZE"
| "region_size IdleRate = 1"
| "region_size ProtocolMode = 1"

primrec is_local :: "region \<Rightarrow> bool" where
  "is_local (Const b) = False"
| "is_local (Local b) = True"
| "is_local DescStr = False"
| "is_local CtrlBuf = False"
| "is_local EpinBuf = False"
| "is_local EpoutBuf = False"
| "is_local IdleRate = False"
| "is_local ProtocolMode = False"

primrec writable :: "region \<Rightarrow> bool" where
  "writable (Const b) = False"
| "writable (Local b) = False"
| "writable DescStr = True"
| "writable CtrlBuf = True"
| "writable EpinBuf = True"
| "writable EpoutBuf = True"
| "writable IdleRate = True"
| "writable ProtocolMode = True"

definition desc_hid :: "u8 list" where "desc_hid = drop 18 desc_configuration"

definition hid_ok :: "hidd_interface_t \<Rightarrow> bool" where
  "hid_ok h \<longleftrightarrow> ep_in h \<in> {0, 0x81} \<and> ep_out h = 0 \<and> length (epin_buf h) = CFG_TUD_HID_EP_BUFSIZE \<and>
     length (epout_buf h) = CFG_TUD_HID_EP_BUFSIZE \<and> unat (report_desc_len h) \<le> length desc_hid_report \<and>
     hid_descriptor h \<in> {None, Some desc_hid}"

definition sizes_ok :: "usb \<Rightarrow> bool" where
  "sizes_ok u \<longleftrightarrow> length (usbd_ctrl_buf u) = CFG_TUD_ENDPOINT0_SIZE \<and> length (desc_str u) = 66 \<and> hid_ok (hidd_itf u)"

text \<open>
  What is left of the data stage lies in the region the transfer points to; that region is writable when the host sends
  the data. Data in a local variable fits in one packet, so that it is not read again.
\<close>

definition remaining :: "usbd_control_xfer_t \<Rightarrow> nat" where
  "remaining x = unat (data_len x) - unat (total_xferred x)"

definition xfer_ok :: "usbd_control_xfer_t \<Rightarrow> bool" where
  "xfer_ok x \<longleftrightarrow> unat (total_xferred x) \<le> unat (data_len x) \<and>
     (remaining x \<noteq> 0 \<longrightarrow> (case buffer x of None \<Rightarrow> False
        | Some (m, i) \<Rightarrow> (if is_local m then unat (data_len x) < CFG_TUD_ENDPOINT0_SIZE else i + remaining x \<le> region_size m) \<and>
            (direction (request x) \<or> writable m)))"

definition out_ok :: "(nat \<Rightarrow> ptr option) \<Rightarrow> bool" where
  "out_ok f \<longleftrightarrow> (\<forall>n m i. f n = Some (m, i) \<longrightarrow> m = CtrlBuf \<or> m = EpinBuf)"

definition usb_ok :: "usb \<Rightarrow> bool" where
  "usb_ok u \<longleftrightarrow> sizes_ok u \<and> xfer_ok (ctrl_xfer u) \<and> out_ok (out_buffer u)"

text \<open>Handling an event leaves the queue alone, so that the proofs carry it along.\<close>

definition usb_at :: "dcd_event_t list \<times> u8 \<Rightarrow> usb \<Rightarrow> bool" where
  "usb_at q u \<longleftrightarrow> usb_ok u \<and> (usbd_q u, usbd_rhport u) = q"

lemma region_bytes_size: "sizes_ok u \<Longrightarrow> length (region_bytes m u) = region_size m"
  by (cases m) (auto simp: sizes_ok_def hid_ok_def)

lemma usb_ok_sizes: "usb_at q u \<Longrightarrow> sizes_ok u"
  by (simp add: usb_at_def usb_ok_def)

lemma usb_ok_upd_dev [simp]: "usb_at q (upd_dev f u) = usb_at q u"
  by (simp add: usb_at_def usb_ok_def sizes_ok_def upd_dev_def)

lemma usb_ok_upd_ep [simp]: "usb_at q (upd_ep a f u) = usb_at q u"
  by (simp add: usb_at_def usb_ok_def sizes_ok_def upd_ep_def)

lemma usb_ok_log_dcd [simp]: "usb_at q (log_dcd x u) = usb_at q u"
  by (simp add: usb_at_def usb_ok_def sizes_ok_def log_dcd_def)

lemma log_dcd_sel [simp]:
  "hidd_itf (log_dcd x u) = hidd_itf u" "usbd_dev (log_dcd x u) = usbd_dev u" "ctrl_xfer (log_dcd x u) = ctrl_xfer u"
  "dcd_log (log_dcd x u) = x # dcd_log u" "usbd_ctrl_buf (log_dcd x u) = usbd_ctrl_buf u"
  by (simp_all add: log_dcd_def)

lemma usb_ok_free_ep [simp]: "usb_at q (free_ep a u) = usb_at q u"
  by (simp add: free_ep_def)

lemma xfer_ok_callback [simp]: "xfer_ok (x\<lparr>complete_cb := b\<rparr>) = xfer_ok x"
  by (cases "buffer x") (auto simp: xfer_ok_def remaining_def)

lemma usb_ok_callback [simp]: "usb_at q (usbd_control_set_complete_callback b u) = usb_at q u"
  by (simp add: usb_at_def usb_ok_def sizes_ok_def usbd_control_set_complete_callback_def upd_ctrl_def)

lemma usb_ok_fifo [simp]:
  "usb_at q (u\<lparr>allocated_fifo_words_tx := n\<rparr>) = usb_at q u" "usb_at q (u\<lparr>grxfsiz := n\<rparr>) = usb_at q u"
  by (simp_all add: usb_at_def usb_ok_def sizes_ok_def)

lemma usb_ok_upd_hid: "usb_at q u \<Longrightarrow> hid_ok (f (hidd_itf u)) \<Longrightarrow> usb_at q (upd_hid f u)"
  by (simp add: usb_at_def usb_ok_def sizes_ok_def upd_hid_def)

lemma usb_ok_upd_ctrl: "usb_at q u \<Longrightarrow> xfer_ok (f (ctrl_xfer u)) \<Longrightarrow> usb_at q (upd_ctrl f u)"
  by (simp add: usb_at_def usb_ok_def sizes_ok_def upd_ctrl_def)

lemma zero_hid_ok [simp]: "hid_ok zero_hid"
  by (simp add: hid_ok_def zero_hid_def)

section \<open>Memory and endpoints\<close>

definition safe :: "dcd_event_t list \<times> u8 \<Rightarrow> (bool \<times> usb) option \<Rightarrow> bool" where
  "safe q m \<longleftrightarrow> returns m (\<lambda>x. usb_at q (snd x))"

definition safe1 :: "dcd_event_t list \<times> u8 \<Rightarrow> usb option \<Rightarrow> bool" where
  "safe1 q m \<longleftrightarrow> returns m (usb_at q)"

lemma safe_Some [simp]: "safe q (Some (b, u)) = usb_at q u"
  by (simp add: safe_def returns_def)

lemma safe1_Some [simp]: "safe1 q (Some u) = usb_at q u"
  by (simp add: safe1_def returns_def)

lemma safe_bind: "safe q m \<Longrightarrow> (\<And>b u. usb_at q u \<Longrightarrow> safe q (f (b, u))) \<Longrightarrow> safe q (Option.bind m f)"
  by (auto simp: safe_def returns_def)

lemma safe_bind1: "safe1 q m \<Longrightarrow> (\<And>u. usb_at q u \<Longrightarrow> safe q (f u)) \<Longrightarrow> safe q (Option.bind m f)"
  by (auto simp: safe_def safe1_def returns_def)

lemma safe1_bind: "safe q m \<Longrightarrow> (\<And>b u. usb_at q u \<Longrightarrow> safe1 q (f (b, u))) \<Longrightarrow> safe1 q (Option.bind m f)"
  by (auto simp: safe_def safe1_def returns_def)

lemma safe1_map_snd: "safe q m \<Longrightarrow> safe1 q (map_option snd m)"
  by (auto simp: safe_def safe1_def returns_def)

lemma safe_if: "(c \<Longrightarrow> safe q m) \<Longrightarrow> (\<not> c \<Longrightarrow> safe q n) \<Longrightarrow> safe q (if c then m else n)"
  by simp

lemma safe1_if: "(c \<Longrightarrow> safe1 q m) \<Longrightarrow> (\<not> c \<Longrightarrow> safe1 q n) \<Longrightarrow> safe1 q (if c then m else n)"
  by simp

lemma read_mem_ok:
  assumes "sizes_ok u" "snd p + n \<le> region_size (fst p)"
  shows "read_mem p n u = Some (take n (drop (snd p) (region_bytes (fst p) u)))"
    and "length (take n (drop (snd p) (region_bytes (fst p) u))) = n"
  using assms region_bytes_size [OF assms(1), of "fst p"] by (auto simp: read_mem_def Let_def)

lemma length_patch: "i + length b \<le> length xs \<Longrightarrow> length (patch i b xs) = length xs"
  by (simp add: patch_def)

lemma write_mem_safe:
  assumes "usb_at q u" "b \<noteq> [] \<longrightarrow> writable (fst p) \<and> snd p + length b \<le> region_size (fst p)"
  shows "safe1 q (write_mem p b u)"
proof (cases "b = []")
  case True
  then show ?thesis using assms by (simp add: write_mem_def)
next
  case False
  let ?m = "region_bytes (fst p) u"
  have len: "length ?m = region_size (fst p)" by (rule region_bytes_size [OF usb_ok_sizes [OF assms(1)]])
  with False assms(2) have "length (patch (snd p) b ?m) = region_size (fst p)" by (simp add: length_patch)
  then have "safe1 q (store_region (fst p) (patch (snd p) b ?m) u)"
    using assms False by (cases "fst p") (auto simp: usb_at_def usb_ok_def sizes_ok_def hid_ok_def)
  then show ?thesis using False assms(2) len by (simp add: write_mem_def Let_def)
qed

text \<open>A transfer is well-formed when what it sends lies in its region and it receives into one of the two buffers.\<close>

definition buf_ok :: "u8 \<Rightarrow> ptr option \<Rightarrow> nat \<Rightarrow> bool" where
  "buf_ok a buf n \<longleftrightarrow> tu_edpt_number a < CFG_TUD_ENDPPOINT_MAX \<and>
     (if tu_edpt_dir a then n \<noteq> 0 \<longrightarrow> (case buf of None \<Rightarrow> False | Some p \<Rightarrow> snd p + n \<le> region_size (fst p))
      else (\<forall>m i. buf = Some (m, i) \<longrightarrow> m = CtrlBuf \<or> m = EpinBuf))"

lemma usbd_edpt_xfer_safe:
  assumes "usb_at q u" "buf_ok a buf n"
  shows "safe q (usbd_edpt_xfer a buf n u)"
proof -
  let ?u = "upd_ep a (\<lambda>s. s\<lparr>busy := True\<rparr>) u"
  have ok: "usb_at q ?u" using assms(1) by simp
  have "safe q (dcd_edpt_xfer a buf n ?u)"
  proof (cases "tu_edpt_dir a")
    case True
    show ?thesis
    proof (cases "n = 0")
      case True
      with \<open>tu_edpt_dir a\<close> ok show ?thesis by (simp add: dcd_edpt_xfer_def)
    next
      case False
      with \<open>tu_edpt_dir a\<close> assms(2) obtain p where p: "buf = Some p" "snd p + n \<le> region_size (fst p)"
        by (auto simp: buf_ok_def split: option.splits)
      show ?thesis
        using True False p ok read_mem_ok(1) [OF usb_ok_sizes [OF ok] p(2)] by (simp add: dcd_edpt_xfer_def)
    qed
  next
    case False
    then show ?thesis using ok assms(2)
      by (auto simp: dcd_edpt_xfer_def usb_at_def usb_ok_def sizes_ok_def out_ok_def buf_ok_def log_dcd_def)
  qed
  then show ?thesis
    using assms by (auto simp: usbd_edpt_xfer_def ep_state_def buf_ok_def intro!: safe_bind)
qed

lemma buf_ok_control:
  "buf_ok 0 None 0" "buf_ok 0x80 None 0" "buf_ok 0 (Some (CtrlBuf, 0)) n" "n \<le> 64 \<Longrightarrow> buf_ok 0x80 (Some (CtrlBuf, 0)) n"
  "buf_ok 0 None n"
  by (simp_all add: buf_ok_def tu_edpt_number_def tu_edpt_dir_def CFG_TUD_ENDPPOINT_MAX_def CFG_TUD_ENDPOINT0_SIZE_def)

section \<open>Control transfers\<close>

lemma xfer_ok_none: "buffer x = None \<Longrightarrow> total_xferred x = 0 \<Longrightarrow> data_len x = 0 \<Longrightarrow> xfer_ok x"
  by (simp add: xfer_ok_def remaining_def)

lemma status_stage_safe: "usb_at q u \<Longrightarrow> safe q (status_stage_xact r u)"
  by (simp add: status_stage_xact_def usbd_edpt_xfer_safe buf_ok_control)

lemma tud_control_status_safe: "usb_at q u \<Longrightarrow> safe q (tud_control_status r u)"
  by (auto simp: tud_control_status_def intro!: status_stage_safe usb_ok_upd_ctrl xfer_ok_none)

lemma remaining_word: "unat (total_xferred x) \<le> unat (data_len x) \<Longrightarrow> unat (data_len x - total_xferred x) = remaining x"
  by (simp add: remaining_def unat_sub word_le_nat_alt)

lemma data_stage_safe:
  assumes u: "usb_at q u"
    and fits: "\<And>m i. buffer (ctrl_xfer u) = Some (m, i) \<Longrightarrow> remaining (ctrl_xfer u) \<noteq> 0 \<Longrightarrow> i + remaining (ctrl_xfer u) \<le> region_size m"
  shows "safe q (data_stage_xact u)"
proof -
  let ?x = "ctrl_xfer u"
  define n where "n = min (remaining ?x) 64"
  have x: "xfer_ok ?x" using u by (simp add: usb_at_def usb_ok_def)
  then have n: "min (unat (data_len ?x - total_xferred ?x)) CFG_TUD_ENDPOINT0_SIZE = n"
    by (simp add: n_def remaining_word xfer_ok_def CFG_TUD_ENDPOINT0_SIZE_def)
  have n64: "n \<le> 64" by (simp add: n_def)
  show ?thesis
  proof (cases "direction (request ?x)")
    case False
    then show ?thesis using u by (simp add: data_stage_xact_def n Let_def usbd_edpt_xfer_safe buf_ok_control)
  next
    case dir: True
    show ?thesis
    proof (cases "n = 0")
      case True
      then show ?thesis using u dir by (simp add: data_stage_xact_def n Let_def usbd_edpt_xfer_safe buf_ok_control)
    next
      case False
      then have rem: "remaining ?x \<noteq> 0" by (auto simp: n_def)
      then obtain m i where p: "buffer ?x = Some (m, i)" using x by (auto simp: xfer_ok_def split: option.splits)
      from fits [OF p rem] have fit: "snd (m, i) + n \<le> region_size (fst (m, i))" by (simp add: n_def)
      define b where "b = take n (drop i (region_bytes m u))"
      have b: "read_mem (m, i) n u = Some b" "length b = n"
        using read_mem_ok [OF usb_ok_sizes [OF u] fit] by (simp_all add: b_def)
      have "safe1 q (write_mem (CtrlBuf, 0) b u)"
        using b n64 by (intro write_mem_safe u) (simp add: CFG_TUD_ENDPOINT0_SIZE_def)
      then show ?thesis
        using dir False p b n64
        by (auto simp: data_stage_xact_def n Let_def intro!: safe_bind1 usbd_edpt_xfer_safe buf_ok_control)
    qed
  qed
qed

lemma tud_control_xfer_safe:
  assumes u: "usb_at q u" and len: "unat len \<le> region_size m" and loc: "is_local m \<longrightarrow> unat len < 64"
    and wr: "wLength r = 0 \<or> direction r \<or> writable m"
  shows "safe q (tud_control_xfer r (Some (m, 0)) len u)"
proof -
  let ?v = "upd_ctrl (\<lambda>x. x\<lparr>request := r, buffer := Some (m, 0), total_xferred := 0, data_len := min len (wLength r)\<rparr>) u"
  have min: "unat (min len (wLength r)) \<le> unat len" "wLength r = 0 \<Longrightarrow> min len (wLength r) = 0"
    by (simp add: min_def word_le_nat_alt, simp add: min_def)
  have ok: "usb_at q ?v"
    using min len loc wr
    by (intro usb_ok_upd_ctrl u) (auto simp: xfer_ok_def remaining_def CFG_TUD_ENDPOINT0_SIZE_def)
  have "safe q (data_stage_xact ?v)"
    using min(1) len by (intro data_stage_safe ok) (auto simp: upd_ctrl_def remaining_def)
  then show ?thesis using ok by (simp add: tud_control_xfer_def Let_def status_stage_safe)
qed

section \<open>Reports and the class driver\<close>

lemma ep_in_cases: "usb_at q u \<Longrightarrow> ep_in (hidd_itf u) = 0 \<or> ep_in (hidd_itf u) = 0x81"
  by (simp add: usb_at_def usb_ok_def sizes_ok_def hid_ok_def)

lemma ep_in_number: "usb_at q u \<Longrightarrow> tu_edpt_number (ep_in (hidd_itf u)) < CFG_TUD_ENDPPOINT_MAX"
  using ep_in_cases [of q u] by (auto simp: tu_edpt_number_def CFG_TUD_ENDPPOINT_MAX_def)

lemma usbd_edpt_claim_safe:
  "tu_edpt_number a < CFG_TUD_ENDPPOINT_MAX \<Longrightarrow> usb_at q u \<Longrightarrow> safe q (usbd_edpt_claim a u)"
  by (auto simp: usbd_edpt_claim_def ep_state_def split: prod.splits)

lemma read_mem_safe:
  assumes "usb_at q u" "snd p + n \<le> region_size (fst p)" "\<And>b. length b = n \<Longrightarrow> safe q (f b)"
  shows "safe q (Option.bind (read_mem p n u) f)"
  using read_mem_ok [OF usb_ok_sizes [OF assms(1)] assms(2)] assms(3) by simp

lemma tud_hid_n_report_safe:
  assumes u: "usb_at q u" and fits: "snd p + len \<le> region_size (fst p)"
  shows "safe q (tud_hid_n_report rid p len u)"
proof -
  define a where "a = ep_in (hidd_itf u)"
  have a: "tu_edpt_number a < CFG_TUD_ENDPPOINT_MAX" using ep_in_number [OF u] by (simp add: a_def)
  have buf: "buf_ok a (Some (EpinBuf, 0)) n" if "n \<le> 64" for n
    using a that by (simp add: buf_ok_def CFG_TUD_HID_EP_BUFSIZE_def)
  have id: "safe1 q (write_mem (EpinBuf, 0) [rid] v)" if "usb_at q v" for v
    using that by (intro write_mem_safe) (auto simp: CFG_TUD_HID_EP_BUFSIZE_def)
  have body: "safe q (Option.bind (read_mem p len v) (\<lambda>b. Option.bind (write_mem (EpinBuf, k) b v)
      (usbd_edpt_xfer a (Some (EpinBuf, 0)) (len + k))))" if "usb_at q v" "len + k \<le> 64" for v k
    using that fits
    by (auto intro!: read_mem_safe safe_bind1 write_mem_safe usbd_edpt_xfer_safe buf simp: CFG_TUD_HID_EP_BUFSIZE_def)
  show ?thesis
    unfolding tud_hid_n_report_def a_def [symmetric] Let_def
    using u a body [of _ 0] body [of _ 1]
    by (auto intro!: safe_bind usbd_edpt_claim_safe safe_if safe_bind1 [OF id] simp: CFG_TUD_HID_EP_BUFSIZE_def)
qed

text \<open>
  A conforming host asks for data with requests of direction IN, and does not ask for the string of the serial number. Nothing
  else is assumed of a request.
\<close>

definition reads :: "tusb_control_request_t \<Rightarrow> bool" where
  "reads r \<longleftrightarrow> req_type r = 0 \<and> bRequest r \<in> {0, 6, 8, 10} \<or> req_type r = 1 \<and> bRequest r \<in> {1, 2, 3}"

definition serial_request :: "tusb_control_request_t \<Rightarrow> bool" where
  "serial_request r \<longleftrightarrow> req_type r = 0 \<and> recipient r = 0 \<and> bRequest r = 6 \<and> wValue r = 0x0303"

definition request_ok :: "tusb_control_request_t \<Rightarrow> bool" where
  "request_ok r \<longleftrightarrow> (reads r \<longrightarrow> direction r) \<and> \<not> serial_request r"

lemma desc_hid_simps: "byte_at desc_hid 0 = Some 9" "length desc_hid = 16" "length desc_hid_report = 77"
  by (simp_all add: desc_hid_def desc_configuration_def byte_at_def desc_hid_report_def)

lemma hid_okD: "usb_at q u \<Longrightarrow> unat (report_desc_len (hidd_itf u)) \<le> 77"
  "usb_at q u \<Longrightarrow> hid_descriptor (hidd_itf u) = Some d \<Longrightarrow> d = desc_hid"
  "usb_at q u \<Longrightarrow> length (epout_buf (hidd_itf u)) = 64"
  by (auto simp: usb_at_def usb_ok_def sizes_ok_def hid_ok_def desc_hid_simps CFG_TUD_HID_EP_BUFSIZE_def)

lemma hid_std_request_safe:
  assumes u: "usb_at q u" and r: "request_ok r" "req_type r = 0"
  shows "safe q (hid_std_request stage r u)"
proof -
  have dir: "bRequest r = 6 \<Longrightarrow> direction r" using r by (auto simp: request_ok_def reads_def)
  have d: "d = desc_hid" if "hid_descriptor (hidd_itf u) = Some d" for d using hid_okD(2) [OF u that] .
  show ?thesis
    unfolding hid_std_request_def using u dir hid_okD(1) [OF u]
    by (auto intro!: safe_if safe_bind tud_control_xfer_safe split: option.splits dest!: d simp: desc_hid_simps)
qed

lemma hid_get_report_safe:
  assumes u: "usb_at q u" and r: "direction r"
  shows "safe q (hid_get_report r u)"
proof -
  have w: "safe1 q (write_mem (EpinBuf, 0) [k] u)" for k
    using u by (intro write_mem_safe) (auto simp: CFG_TUD_HID_EP_BUFSIZE_def)
  then obtain v where v: "write_mem (EpinBuf, 0) [tu_u16_low (wValue r)] u = Some v" "usb_at q v"
    by (auto simp: safe1_def returns_def)
  show ?thesis
    using u v r by (auto simp: hid_get_report_def Let_def tud_hid_get_report_cb_def CFG_TUD_HID_EP_BUFSIZE_def
        intro!: safe_bind tud_control_xfer_safe)
qed

lemma tud_hid_set_report_cb_safe:
  "usb_at q u \<Longrightarrow> snd p + len \<le> region_size (fst p) \<Longrightarrow> safe1 q (tud_hid_set_report_cb p len u)"
  by (simp add: tud_hid_set_report_cb_def safe1_map_snd tud_hid_n_report_safe)

lemma hid_set_report_safe:
  assumes u: "usb_at q u"
  shows "safe q (hid_set_report stage r u)"
proof (cases stage)
  case CONTROL_STAGE_SETUP
  then show ?thesis using u
    by (auto simp: hid_set_report_def CFG_TUD_HID_EP_BUFSIZE_def intro!: safe_bind tud_control_xfer_safe)
next
  case CONTROL_STAGE_ACK
  have "byte_at (epout_buf (hidd_itf u)) 0 = Some (epout_buf (hidd_itf u) ! 0)"
    using hid_okD(3) [OF u] by (simp add: byte_at_def)
  then show ?thesis using u CONTROL_STAGE_ACK
    by (auto simp: hid_set_report_def Let_def CFG_TUD_HID_EP_BUFSIZE_def intro!: safe_bind1 tud_hid_set_report_cb_safe)
next
  case CONTROL_STAGE_DATA
  then show ?thesis using u by (simp add: hid_set_report_def)
qed

lemma hid_ok_frame [simp]: "hid_ok (h\<lparr>idle_rate := k\<rparr>) = hid_ok h" "hid_ok (h\<lparr>protocol_mode := k\<rparr>) = hid_ok h"
  by (simp_all add: hid_ok_def)

lemma usb_ok_hid: "usb_at q u \<Longrightarrow> hid_ok (hidd_itf u)"
  by (simp add: usb_at_def usb_ok_def sizes_ok_def)

lemma hid_class_request_safe:
  assumes u: "usb_at q u" and r: "request_ok r" "req_type r = 1"
  shows "safe q (hid_class_request stage r u)"
proof -
  have dir: "bRequest r = 1 \<or> bRequest r = 2 \<or> bRequest r = 3 \<Longrightarrow> direction r"
    using r by (auto simp: request_ok_def reads_def)
  show ?thesis
    unfolding hid_class_request_def Let_def using u dir usb_ok_hid [OF u]
    by (auto intro!: safe_bind tud_control_xfer_safe tud_control_status_safe usb_ok_upd_hid hid_get_report_safe
        hid_set_report_safe split: control_stage.splits)
qed

lemma hidd_control_xfer_cb_safe:
  assumes "usb_at q u" "request_ok r" shows "safe q (hidd_control_xfer_cb stage r u)"
  using assms by (simp add: hidd_control_xfer_cb_def hid_std_request_safe hid_class_request_safe)

lemma hidd_control_xfer_cb_later_safe:
  assumes "usb_at q u" "stage \<noteq> CONTROL_STAGE_SETUP" shows "safe q (hidd_control_xfer_cb stage r u)"
  using assms usb_ok_hid [OF assms(1)]
  by (auto simp: hidd_control_xfer_cb_def hid_std_request_def hid_class_request_def Let_def
      intro!: hid_set_report_safe usb_ok_upd_hid split: control_stage.splits)

lemma hidd_xfer_cb_safe:
  assumes u: "usb_at q u" and a: "tu_edpt_number ep_addr \<noteq> 0"
  shows "safe q (hidd_xfer_cb ep_addr len u)"
proof -
  have "ep_out (hidd_itf u) = 0" using usb_ok_hid [OF u] by (simp add: hid_ok_def)
  moreover have "ep_addr \<noteq> 0" using a by (auto simp: tu_edpt_number_def)
  ultimately show ?thesis using u by (simp add: hidd_xfer_cb_def)
qed

section \<open>Completion of a control transaction\<close>

text \<open>The controller never reports more bytes than the transaction asked for.\<close>

definition length_ok :: "u32 \<Rightarrow> usb \<Rightarrow> bool" where
  "length_ok len u \<longleftrightarrow> unat len \<le> min (remaining (ctrl_xfer u)) CFG_TUD_ENDPOINT0_SIZE"

lemma data_stage_done_safe: "usb_at q u \<Longrightarrow> safe q (data_stage_done u)"
  unfolding data_stage_done_def Let_def
  by (rule safe_bind) (auto intro!: hidd_control_xfer_cb_later_safe status_stage_safe)

definition advance :: "u32 \<Rightarrow> usbd_control_xfer_t \<Rightarrow> usbd_control_xfer_t" where
  "advance len x = x\<lparr>total_xferred := total_xferred x + ucast len,
     buffer := map_option (\<lambda>p. (fst p, snd p + unat len)) (buffer x)\<rparr>"

lemma advance_fold:
  "(\<lambda>x. x\<lparr>total_xferred := total_xferred x + ucast len, buffer := map_option (\<lambda>p. (fst p, snd p + unat len)) (buffer x)\<rparr>) = advance len"
  by (simp add: fun_eq_iff advance_def)

lemma remaining_advance:
  assumes "xfer_ok x" "unat len \<le> remaining x"
  shows "unat (total_xferred x + ucast len) = unat (total_xferred x) + unat len"
    and "remaining (advance len x) = remaining x - unat len"
proof -
  have "unat (total_xferred x) + unat len \<le> unat (data_len x)"
    using assms by (auto simp: xfer_ok_def remaining_def)
  moreover have "unat (data_len x) < 2 ^ LENGTH(16)" by (rule unsigned_less)
  ultimately have lt: "unat (total_xferred x) + unat len < 2 ^ LENGTH(16)" by linarith
  then have "unat (ucast len :: u16) = unat len" by (simp add: unsigned_ucast_eq take_bit_nat_eq_self)
  with lt show *: "unat (total_xferred x + ucast len) = unat (total_xferred x) + unat len"
    by (simp add: unat_word_ariths)
  show "remaining (advance len x) = remaining x - unat len" by (simp add: remaining_def advance_def *)
qed

lemma xfer_ok_advance:
  assumes x: "xfer_ok x" and len: "unat len \<le> remaining x"
  shows "xfer_ok (advance len x)"
proof (cases "remaining (advance len x) = 0")
  case True
  then show ?thesis using remaining_advance [OF x len] x len
    by (auto simp: xfer_ok_def remaining_def advance_def)
next
  case False
  then show ?thesis using remaining_advance [OF x len] x len
    by (cases "buffer x") (auto simp: xfer_ok_def remaining_def advance_def)
qed

lemma write_mem_frame:
  assumes "write_mem p b u = Some v"
  shows "ctrl_xfer v = ctrl_xfer u" "usbd_dev v = usbd_dev u" "dcd_log v = dcd_log u" "out_buffer v = out_buffer u"
  using assms by (cases "fst p"; auto simp: write_mem_def Let_def split: if_splits)+

lemma data_stage_advance_safe:
  assumes u: "usb_at q u" and len: "unat len = CFG_TUD_ENDPOINT0_SIZE" "unat len \<le> remaining (ctrl_xfer u)"
  shows "safe q (data_stage_xact (upd_ctrl (advance len) u))"
proof (rule data_stage_safe)
  let ?x = "ctrl_xfer u"
  have x: "xfer_ok ?x" using u by (simp add: usb_at_def usb_ok_def)
  have y: "xfer_ok (advance len ?x)" by (rule xfer_ok_advance [OF x len(2)])
  show "usb_at q (upd_ctrl (advance len) u)" using u y by (rule usb_ok_upd_ctrl)
  fix m i
  assume b: "buffer (ctrl_xfer (upd_ctrl (advance len) u)) = Some (m, i)"
    and rem: "remaining (ctrl_xfer (upd_ctrl (advance len) u)) \<noteq> 0"
  then have "\<not> is_local m"
    using x len by (auto simp: xfer_ok_def remaining_def advance_def upd_ctrl_def CFG_TUD_ENDPOINT0_SIZE_def)
  then show "i + remaining (ctrl_xfer (upd_ctrl (advance len) u)) \<le> region_size m"
    using y b rem by (simp add: xfer_ok_def upd_ctrl_def)
qed

lemma copy_out_safe:
  assumes u: "usb_at q u" and n: "n \<le> min (remaining (ctrl_xfer u)) CFG_TUD_ENDPOINT0_SIZE"
    and out: "\<not> direction (request (ctrl_xfer u))" and p: "buffer (ctrl_xfer u) = Some p"
  obtains b v where "read_mem (CtrlBuf, 0) n u = Some b" "write_mem p b u = Some v" "usb_at q v" "ctrl_xfer v = ctrl_xfer u"
proof -
  obtain m i where mi: "p = (m, i)" by (cases p)
  have fit: "snd (CtrlBuf, 0) + n \<le> region_size (fst (CtrlBuf, 0))" using n by simp
  obtain b where b: "read_mem (CtrlBuf, 0) n u = Some b" "length b = n"
    using read_mem_ok [OF usb_ok_sizes [OF u] fit] by blast
  have "writable m \<and> i + remaining (ctrl_xfer u) \<le> region_size m" if "n \<noteq> 0"
    using that n u p out mi by (cases m) (auto simp: usb_at_def usb_ok_def xfer_ok_def)
  then have "safe1 q (write_mem p b u)" using b n mi by (intro write_mem_safe u) force
  then obtain v where "write_mem p b u = Some v" "usb_at q v" by (auto simp: safe1_def returns_def)
  then show ?thesis using that b write_mem_frame(1) by blast
qed

lemma data_stage_continue_safe:
  assumes u: "usb_at q u" and n: "unat len \<le> min (remaining (ctrl_xfer u)) CFG_TUD_ENDPOINT0_SIZE"
  shows "safe q (if c \<or> unat len < CFG_TUD_ENDPOINT0_SIZE then data_stage_done (upd_ctrl (advance len) u)
    else data_stage_xact (upd_ctrl (advance len) u))"
proof -
  have "usb_at q (upd_ctrl (advance len) u)"
    using n u by (intro usb_ok_upd_ctrl u xfer_ok_advance) (auto simp: usb_at_def usb_ok_def)
  then show ?thesis using n by (auto intro!: data_stage_done_safe data_stage_advance_safe u)
qed

lemma usbd_control_xfer_cb_safe:
  assumes u: "usb_at q u" and n: "tu_edpt_dir a = direction (request (ctrl_xfer u)) \<longrightarrow> length_ok len u"
  shows "safe q (usbd_control_xfer_cb a len u)"
proof -
  let ?x = "ctrl_xfer u"
  let ?r = "request ?x"
  consider (status) "tu_edpt_dir a \<noteq> direction ?r" | (null) "tu_edpt_dir a = direction ?r" "\<not> direction ?r" "buffer ?x = None"
    | (data_out) p where "tu_edpt_dir a = direction ?r" "\<not> direction ?r" "buffer ?x = Some p"
    | (data_in) "tu_edpt_dir a = direction ?r" "direction ?r" by blast
  then show ?thesis
  proof cases
    case status
    then show ?thesis using u
      by (auto simp: usbd_control_xfer_cb_def Let_def intro!: safe_bind hidd_control_xfer_cb_later_safe)
  next
    case null
    then show ?thesis using u by (simp add: usbd_control_xfer_cb_def Let_def)
  next
    case data_out
    with n have le: "unat len \<le> min (remaining ?x) CFG_TUD_ENDPOINT0_SIZE" by (simp add: length_ok_def)
    obtain b v where v: "read_mem (CtrlBuf, 0) (unat len) u = Some b" "write_mem p b u = Some v" "usb_at q v" "ctrl_xfer v = ?x"
      by (rule copy_out_safe [OF u le data_out(2, 3)])
    show ?thesis
      using data_out v data_stage_continue_safe [OF v(3), of len] le
      by (simp add: usbd_control_xfer_cb_def Let_def advance_fold del: if_split)
  next
    case data_in
    with n have le: "unat len \<le> min (remaining ?x) CFG_TUD_ENDPOINT0_SIZE" by (simp add: length_ok_def)
    show ?thesis
      using data_in data_stage_continue_safe [OF u le]
      by (simp add: usbd_control_xfer_cb_def Let_def advance_fold del: if_split)
  qed
qed

section \<open>Configuration\<close>

definition desc_endpoint :: "u8 list" where "desc_endpoint = [7, 5, 0x81, 3, 64, 0, 10]"

lemma desc_lists:
  "desc_hid_report \<noteq> []" "length desc_hid_report = 77"
  "desc_configuration = [9, 2, 34, 0, 1, 1, 0, 0x80, 50, 9, 4, 0, 0, 1, 3, 1, 2, 0, 9, 0x21, 0x11, 0x01, 0, 1, 0x22, 77, 0, 7, 5, 0x81, 3, 64, 0, 10]"
  "desc_hid = [9, 0x21, 0x11, 0x01, 0, 1, 0x22, 77, 0, 7, 5, 0x81, 3, 64, 0, 10]"
  by (simp_all add: desc_hid_report_def desc_configuration_def desc_hid_def)

text \<open>The interface is open: the endpoint has its part of the FIFO memory and the driver its addresses.\<close>

definition hid_opened :: "hidd_interface_t \<Rightarrow> hidd_interface_t" where
  "hid_opened h = h\<lparr>ep_in := 0x81, itf_protocol := 2, protocol_mode := 1, itf_num := 0, report_desc_len := 77,
     hid_descriptor := Some desc_hid\<rparr>"

definition opened :: "usb \<Rightarrow> usb" where
  "opened u = upd_hid hid_opened (log_dcd (Open desc_endpoint) (u\<lparr>allocated_fifo_words_tx := allocated_fifo_words_tx u + 16\<rparr>))"

lemma edpt_open_eq:
  "usbd_edpt_open desc_endpoint u =
     (if allocated_fifo_words_tx u + 16 + grxfsiz u \<le> 320
      then Some (True, log_dcd (Open desc_endpoint) (u\<lparr>allocated_fifo_words_tx := allocated_fifo_words_tx u + 16\<rparr>))
      else Some (False, u))"
  by (simp add: usbd_edpt_open_def desc_endpoint_def byte_at_def tu_edpt_validate_def tu_edpt_packet_size_def le16_at_def
      dcd_edpt_open_def tu_edpt_number_def tu_edpt_dir_def CFG_TUD_ENDPPOINT_MAX_def)

lemma hidd_open_eq:
  assumes "ep_out (hidd_itf u) = 0"
  shows "hidd_open (drop 9 desc_configuration) 25 u =
    (if ep_in (hidd_itf u) \<noteq> 0 then Some (0, u)
     else if allocated_fifo_words_tx u + 16 + grxfsiz u \<le> 320 then Some (25, opened u)
     else Some (0, upd_hid (\<lambda>h. h\<lparr>hid_descriptor := Some desc_hid\<rparr>) u))"
  using assms
  by (simp add: hidd_open_def desc_lists byte_at_def tu_desc_next_def tu_desc_type_def le16_at_def desc_endpoint_def
      edpt_open_eq [unfolded desc_endpoint_def] tu_edpt_dir_def opened_def hid_opened_def upd_hid_def log_dcd_def)

definition bind_endpoint :: "usbd_device_t \<Rightarrow> usbd_device_t" where
  "bind_endpoint v = v\<lparr>ep2drv := (ep2drv v)(1 := (ep2drv v 1)(True := 0)), itf2drv := (itf2drv v)(0 := 0)\<rparr>"

lemma bind_driver_eq:
  "tu_edpt_bind_driver (drop 9 desc_configuration) 0 u =
     Some (upd_dev (\<lambda>v. v\<lparr>ep2drv := (ep2drv v)(1 := (ep2drv v 1)(True := 0))\<rparr>) u)"
  by (simp add: tu_edpt_bind_driver.simps desc_lists byte_at_def tu_desc_next_def tu_desc_type_def tu_edpt_number_def
      tu_edpt_dir_def CFG_TUD_ENDPPOINT_MAX_def)

definition cfg_attributes :: "usbd_device_t \<Rightarrow> usbd_device_t" where
  "cfg_attributes v = v\<lparr>remote_wakeup_support := False, self_powered := False\<rparr>"

lemma set_config_loop_eq:
  assumes "ep_out (hidd_itf u) = 0"
  shows "set_config_loop (drop 9 desc_configuration) u =
    (if ep_in (hidd_itf u) \<noteq> 0 then Some (False, u)
     else if \<not> allocated_fifo_words_tx u + 16 + grxfsiz u \<le> 320
       then Some (False, upd_hid (\<lambda>h. h\<lparr>hid_descriptor := Some desc_hid\<rparr>) u)
     else if itf2drv (usbd_dev u) 0 \<noteq> DRVID_INVALID then Some (False, opened u)
     else Some (True, upd_dev bind_endpoint (opened u)))"
proof -
  have nil: "set_config_loop [] v = Some (True, v)" for v by (simp add: set_config_loop.simps)
  define d where "d = drop 9 desc_configuration"
  have len: "length d = 25" "d \<noteq> []" by (simp_all add: desc_lists d_def)
  have b: "tu_desc_type d = Some 4" "byte_at d 2 = Some 0" by (simp_all add: desc_lists tu_desc_type_def byte_at_def d_def)
  have i: "itf2drv (usbd_dev (opened u)) = itf2drv (usbd_dev u)" by (simp add: opened_def upd_hid_def log_dcd_def)
  have c: "upd_dev (\<lambda>v. v\<lparr>ep2drv := (ep2drv v)(1 := (ep2drv v 1)(True := 0))\<rparr>) (upd_dev (\<lambda>v. v\<lparr>itf2drv := (itf2drv v)(0 := 0)\<rparr>) w)
     = upd_dev bind_endpoint w" for w
    by (simp add: upd_dev_def bind_endpoint_def)
  show ?thesis
    unfolding d_def [symmetric]
    by (subst set_config_loop.simps)
      (simp add: len b hidd_open_eq [OF assms, folded d_def] bind_driver_eq [folded d_def] nil i CFG_TUD_INTERFACE_MAX_def
        c [simplified])
qed

lemma process_set_config_eq:
  assumes "ep_out (hidd_itf u) = 0"
  shows "process_set_config u = set_config_loop (drop 9 desc_configuration) (upd_dev cfg_attributes u)"
  by (simp add: process_set_config_def desc_lists tu_desc_type_def byte_at_def le16_at_def cfg_attributes_def [abs_def])

lemma hid_opened_ok: "hid_ok h \<Longrightarrow> hid_ok (hid_opened h)"
  by (simp add: hid_ok_def hid_opened_def desc_lists)

lemma opened_ok: "usb_at q u \<Longrightarrow> usb_at q (opened u)"
  unfolding opened_def by (intro usb_ok_upd_hid) (auto intro!: hid_opened_ok usb_ok_hid)

lemma process_set_config_safe:
  assumes u: "usb_at q u" shows "safe q (process_set_config u)"
proof -
  let ?v = "upd_dev cfg_attributes u"
  have v: "usb_at q ?v" using u by simp
  have out: "ep_out (hidd_itf u) = 0" "ep_out (hidd_itf ?v) = 0"
    using usb_ok_hid [OF u] usb_ok_hid [OF v] by (simp_all add: hid_ok_def)
  have h: "usb_at q (upd_hid (\<lambda>h. h\<lparr>hid_descriptor := Some desc_hid\<rparr>) ?v)"
    using usb_ok_hid [OF v] by (intro usb_ok_upd_hid v) (simp add: hid_ok_def)
  show ?thesis
    using u v h opened_ok [OF v]
    by (simp add: process_set_config_eq [OF out(1)] set_config_loop_eq [OF out(2)])
qed

lemma configuration_reset_ok: "usb_at q u \<Longrightarrow> usb_at q (configuration_reset u)"
  by (simp add: configuration_reset_def hidd_reset_def usb_at_def usb_ok_def sizes_ok_def upd_dev_def)

lemma set_configuration_safe:
  assumes u: "usb_at q u" shows "safe q (set_configuration r u)"
proof -
  have "usb_at q (dcd_edpt_close_all u)" using u by (simp add: dcd_edpt_close_all_def)
  then have reset: "usb_at q (configuration_reset (dcd_edpt_close_all u))" by (rule configuration_reset_ok)
  show ?thesis
    unfolding set_configuration_def Let_def
    by (rule safe_bind) (use u reset in \<open>auto intro!: process_set_config_safe safe_bind tud_control_status_safe\<close>)
qed

section \<open>Requests\<close>

lemma put_string_ok: "usb_at q u \<Longrightarrow> length b \<le> 64 \<Longrightarrow> usb_at q (put_string b u)"
  by (simp add: put_string_def usb_at_def usb_ok_def sizes_ok_def length_patch)

lemma put_string_len: "usb_at q u \<Longrightarrow> length b \<le> 64 \<Longrightarrow> tu_desc_len (desc_str (put_string b u)) = Some (of_nat (length b + 2))"
  by (simp add: put_string_def tu_desc_len_def byte_at_def patch_def)

lemma length_utf16: "length (utf16 s) = 2 * length s"
  by (induction s) (simp_all add: utf16_def)

lemma send_string_safe:
  assumes u: "usb_at q u" and b: "length b \<le> 64" and r: "direction r"
  shows "safe q (Option.bind (tu_desc_len (desc_str (put_string b u)))
           (\<lambda>n. tud_control_xfer r (Some (DescStr, 0)) (ucast n) (put_string b u)))"
proof -
  define k where "k = (of_nat (length b + 2) :: u8)"
  have "unat k = length b + 2" unfolding k_def using b by (intro unat_of_nat_less) simp
  with b have k: "unat (ucast k :: u16) \<le> 66"
    unfolding unsigned_ucast_eq by (simp add: take_bit_nat_eq_self)
  have "tu_desc_len (desc_str (put_string b u)) = Some k" unfolding k_def by (rule put_string_len [OF u b])
  then show ?thesis
    using k r put_string_ok [OF u b] by (simp add: tud_control_xfer_safe)
qed

lemma get_string_safe:
  assumes u: "usb_at q u" and i: "index \<noteq> 3" and r: "direction r"
  shows "safe q (do { (ok, u) \<leftarrow> tud_descriptor_string_cb index u;
           if \<not> ok then Some (False, u)
           else do { n \<leftarrow> tu_desc_len (desc_str u); tud_control_xfer r (Some (DescStr, 0)) (ucast n) u } })"
proof -
  note x = send_string_safe [OF u _ r]
  show ?thesis
  proof (cases "index = 0")
    case True
    then show ?thesis using x [of "[9, 4]"] by (simp add: tud_descriptor_string_cb_def)
  next
    case False
    show ?thesis
    proof (cases "unat index < length string_desc_arr")
      case False
      then show ?thesis using u \<open>index \<noteq> 0\<close> by (simp add: tud_descriptor_string_cb_def)
    next
      case True
      moreover have "unat index \<noteq> 0" "unat index \<noteq> 3" using \<open>index \<noteq> 0\<close> i by (simp_all add: word_unat_eq_iff)
      moreover have "length string_desc_arr = 4" by (simp add: string_desc_arr_def)
      ultimately have "unat index = 1 \<or> unat index = 2" by linarith
      then obtain s where "string_desc_arr ! unat index = Some s" by (auto simp: string_desc_arr_def)
      then show ?thesis
        using True \<open>index \<noteq> 0\<close> x [of "utf16 (take 32 s)"] by (simp add: tud_descriptor_string_cb_def length_utf16)
    qed
  qed
qed

lemma u16_bytes: "w = ucast (tu_u16_low w) OR push_bit 8 (ucast (tu_u16_high w))"
  by (rule bit_word_eqI) (auto simp: tu_u16_low_def tu_u16_high_def bit_simps)

lemma process_get_descriptor_safe:
  assumes u: "usb_at q u" and r: "direction r" "wValue r \<noteq> 0x0303"
  shows "safe q (process_get_descriptor r u)"
proof -
  have "tu_u16_low (wValue r) \<noteq> 3" if "tu_u16_high (wValue r) = 3"
  proof
    assume "tu_u16_low (wValue r) = 3"
    with that r(2) show False using u16_bytes [of "wValue r"] by simp
  qed
  moreover have "le16_at desc_configuration 2 = Some 34" by (simp add: desc_lists le16_at_def byte_at_def)
  ultimately show ?thesis
    unfolding process_get_descriptor_def Let_def using u r
    by (auto intro!: tud_control_xfer_safe get_string_safe simp: desc_device_def desc_lists CFG_TUD_ENDPOINT0_SIZE_def)
qed

lemma invoke_class_control_safe: "usb_at q u \<Longrightarrow> request_ok r \<Longrightarrow> safe q (invoke_class_control r u)"
  by (simp add: invoke_class_control_def hidd_control_xfer_cb_safe)

lemma set_request_ok: "usb_at q u \<Longrightarrow> usb_at q (usbd_control_set_request r u)"
  unfolding usbd_control_set_request_def by (rule usb_ok_upd_ctrl) (simp_all add: xfer_ok_none)

lemma dcd_set_address_safe: "usb_at q u \<Longrightarrow> safe1 q (dcd_set_address a u)"
  by (simp add: dcd_set_address_def dcd_edpt_xfer_def tu_edpt_dir_def)

lemma std_device_request_safe:
  assumes u: "usb_at q u" and r: "request_ok r" "req_type r = 0" "recipient r = 0"
  shows "safe q (std_device_request r u)"
proof -
  have dir: "bRequest r = 0 \<or> bRequest r = 6 \<or> bRequest r = 8 \<Longrightarrow> direction r"
    using r by (auto simp: request_ok_def reads_def)
  have serial: "bRequest r = 6 \<Longrightarrow> wValue r \<noteq> 0x0303"
    using r by (auto simp: request_ok_def serial_request_def)
  have addr: "safe1 q (dcd_set_address a (usbd_control_set_request r u))" for a
    by (intro dcd_set_address_safe set_request_ok u)
  show ?thesis
    unfolding std_device_request_def Let_def using u dir serial
    by (auto intro!: safe_bind safe_bind1 [OF addr] tud_control_xfer_safe set_configuration_safe process_get_descriptor_safe
        tud_control_status_safe)
qed

lemma interface_request_safe:
  assumes u: "usb_at q u" and r: "request_ok r"
  shows "safe q (interface_request r u)"
proof -
  have dir: "req_type r = 0 \<Longrightarrow> bRequest r = 10 \<Longrightarrow> direction r" using r by (auto simp: request_ok_def reads_def)
  show ?thesis
    unfolding interface_request_def Let_def using u r dir
    by (auto intro!: safe_bind invoke_class_control_safe tud_control_xfer_safe tud_control_status_safe)
qed

lemma endpoint_request_safe:
  assumes u: "usb_at q u" and r: "request_ok r"
  shows "safe q (endpoint_request r u)"
proof (cases "tu_edpt_number (tu_u16_low (wIndex r)) < CFG_TUD_ENDPPOINT_MAX")
  case False
  then show ?thesis using u by (simp add: endpoint_request_def Let_def)
next
  case a: True
  have dir: "req_type r = 0 \<Longrightarrow> bRequest r = 0 \<Longrightarrow> direction r" using r by (auto simp: request_ok_def reads_def)
  have stall: "safe1 q (if wValue r = 0 then (if bRequest r = 1 then usbd_edpt_clear_stall (tu_u16_low (wIndex r)) u
      else usbd_edpt_stall (tu_u16_low (wIndex r)) u) else Some u)"
    using u a by (simp add: usbd_edpt_clear_stall_def usbd_edpt_stall_def ep_state_def)
  have busy: "\<exists>b. usbd_edpt_busy 0x80 v = Some b" for v
    by (simp add: usbd_edpt_busy_def ep_state_def tu_edpt_number_def CFG_TUD_ENDPPOINT_MAX_def)
  have ack: "safe q (Option.bind (usbd_edpt_busy 0x80 v) (\<lambda>b. Option.bind (if \<not> b then map_option snd (tud_control_status r v) else Some v)
      (\<lambda>v. Some (True, v))))" if "usb_at q v" for v
    using that busy [of v] by (auto intro!: safe_bind1 safe1_map_snd tud_control_status_safe)
  have halt: "safe q (Option.bind (if wValue r = 0 then (if bRequest r = 1 then usbd_edpt_clear_stall (tu_u16_low (wIndex r)) u
      else usbd_edpt_stall (tu_u16_low (wIndex r)) u) else Some u)
      (\<lambda>u. if d then Option.bind (invoke_class_control r u) (\<lambda>(_, u). Option.bind
           (usbd_edpt_busy 0x80 (usbd_control_set_complete_callback False u))
           (\<lambda>b. Option.bind (if \<not> b then map_option snd (tud_control_status r (usbd_control_set_complete_callback False u))
                else Some (usbd_control_set_complete_callback False u)) (\<lambda>v. Some (True, v)))) else Some (True, u)))" for d
    by (rule safe_bind1 [OF stall]) (auto intro!: safe_bind invoke_class_control_safe [OF _ r] ack)
  show ?thesis
    unfolding endpoint_request_def Let_def using u a r dir halt
    by (auto intro!: invoke_class_control_safe tud_control_xfer_safe safe_bind simp: usbd_edpt_stalled_def ep_state_def simp del: if_split)
qed

lemma process_control_request_safe:
  assumes u: "usb_at q u" and r: "request_ok r"
  shows "safe q (process_control_request r u)"
proof -
  let ?u = "usbd_control_set_complete_callback False u"
  have v: "usb_at q ?u" using u by simp
  have t: "req_type r = 0" if "req_type r < 3" "req_type r \<noteq> 1" "req_type r \<noteq> 2"
  proof -
    have "unat (req_type r) < 3" "unat (req_type r) \<noteq> 1" "unat (req_type r) \<noteq> 2"
      using that by (auto simp: word_less_nat_alt word_unat_eq_iff)
    then show ?thesis by (simp add: word_unat_eq_iff)
  qed
  show ?thesis
    unfolding process_control_request_def Let_def
    using v r t by (auto intro!: invoke_class_control_safe std_device_request_safe interface_request_safe endpoint_request_safe)
qed

section \<open>Events and histories\<close>

lemma drop_locals_ok:
  assumes "usb_at q u" shows "usb_at q (drop_locals u)"
proof -
  have m: "is_local (end_of_scope m) = is_local m" "writable (end_of_scope m) = writable m"
    "\<not> is_local m \<Longrightarrow> end_of_scope m = m" for m
    by (cases m; simp add: end_of_scope_def)+
  show ?thesis
    unfolding drop_locals_def
    by (rule usb_ok_upd_ctrl [OF assms], cases "buffer (ctrl_xfer u)")
      (use assms in \<open>auto simp: usb_at_def usb_ok_def xfer_ok_def remaining_def m\<close>)
qed

lemma setup_received_safe:
  assumes "usb_at q u" "request_ok r" shows "safe1 q (setup_received r u)"
  unfolding setup_received_def Let_def
  by (rule safe1_bind [OF process_control_request_safe]) (use assms in \<open>auto intro!: drop_locals_ok\<close>)

text \<open>What the controller may report, at the time when the report is handled.\<close>

fun event_ok :: "dcd_event_t \<Rightarrow> usb \<Rightarrow> bool" where
  "event_ok (DCD_EVENT_SETUP_RECEIVED r) u = request_ok r"
| "event_ok (DCD_EVENT_XFER_COMPLETE a len) u \<longleftrightarrow>
     tu_edpt_number a < CFG_TUD_ENDPPOINT_MAX \<and>
     (tu_edpt_number a = 0 \<and> tu_edpt_dir a = direction (request (ctrl_xfer u)) \<longrightarrow> length_ok len u)"
| "event_ok _ u = True"

lemma upd_ep_sel [simp]: "ctrl_xfer (upd_ep a f u) = ctrl_xfer u" "hidd_itf (upd_ep a f u) = hidd_itf u"
  "dcd_log (upd_ep a f u) = dcd_log u" "usbd_ctrl_buf (upd_ep a f u) = usbd_ctrl_buf u"
  by (simp_all add: upd_ep_def)

lemma xfer_complete_safe:
  assumes u: "usb_at q u" and e: "event_ok (DCD_EVENT_XFER_COMPLETE a len) u"
  shows "safe1 q (xfer_complete a len u)"
proof -
  have "safe q (usbd_control_xfer_cb a len (free_ep a u))" if "tu_edpt_number a = 0"
    using that e u by (intro usbd_control_xfer_cb_safe) (auto simp: length_ok_def free_ep_def)
  moreover have "safe q (hidd_xfer_cb a len (free_ep a u))" if "tu_edpt_number a \<noteq> 0"
    using that u by (intro hidd_xfer_cb_safe) auto
  ultimately show ?thesis
    using u e by (auto simp: xfer_complete_def ep_state_def Let_def intro!: safe1_map_snd)
qed

lemma usbd_reset_ok: "usb_at q u \<Longrightarrow> usb_at q (usbd_reset u)"
  unfolding usbd_reset_def usbd_control_reset_def
  by (rule usb_ok_upd_ctrl [OF configuration_reset_ok]) (simp_all add: xfer_ok_none)

lemma usbd_event_safe: "usb_at q u \<Longrightarrow> event_ok e u \<Longrightarrow> safe1 q (usbd_event e u)"
  by (cases e) (auto simp: setup_received_safe xfer_complete_safe usbd_reset_ok simp del: event_ok.simps(2))

text \<open>
  The inputs of the device: the task handles the next event of its queue, an interrupt reports an event, the controller
  starts a bus reset, the controller stores an OUT packet, and a round of the joystick task.
\<close>

datatype usb_input = Task | Irq dcd_event_t | Bus_Reset | Packet nat "u8 list" | Joystick u32 u32

fun usb_step :: "usb_input \<Rightarrow> usb \<Rightarrow> usb option" where
  "usb_step Task u = (case usbd_q u of [] \<Rightarrow> Some u | e # es \<Rightarrow> usbd_event e (u\<lparr>usbd_q := es\<rparr>))"
| "usb_step (Irq e) u = Some (dcd_event_handler e u)"
| "usb_step Bus_Reset u = Some (dcd_bus_reset u)"
| "usb_step (Packet n b) u = dcd_receive n b u"
| "usb_step (Joystick x y) u = map_option snd (usb_hid_task_round x y u)"

fun input_ok :: "usb_input \<Rightarrow> usb \<Rightarrow> bool" where
  "input_ok Task u = (case usbd_q u of [] \<Rightarrow> True | e # es \<Rightarrow> event_ok e u)"
| "input_ok (Packet n b) u = (case out_buffer u n of None \<Rightarrow> b = [] | Some p \<Rightarrow> snd p + length b \<le> CFG_TUD_ENDPOINT0_SIZE)"
| "input_ok _ u = True"

fun usb_run :: "usb_input list \<Rightarrow> usb \<Rightarrow> usb option" where
  "usb_run [] u = Some u"
| "usb_run (x # xs) u = Option.bind (usb_step x u) (usb_run xs)"

fun conforms :: "usb_input list \<Rightarrow> usb \<Rightarrow> bool" where
  "conforms [] u = True"
| "conforms (x # xs) u = (input_ok x u \<and> (case usb_step x u of None \<Rightarrow> True | Some v \<Rightarrow> conforms xs v))"

lemma usb_ok_at: "usb_ok u \<longleftrightarrow> usb_at (usbd_q u, usbd_rhport u) u"
  by (simp add: usb_at_def)

lemma safe1_ok: "safe1 q m \<Longrightarrow> \<exists>v. m = Some v \<and> usb_ok v"
  by (auto simp: safe1_def returns_def usb_at_def)

lemma usb_ok_dev [simp]: "usb_ok (upd_dev f u) = usb_ok u" "usb_ok (u\<lparr>usbd_q := es\<rparr>) = usb_ok u" "usb_ok (u\<lparr>usbd_rhport := p\<rparr>) = usb_ok u"
  by (simp_all add: usb_ok_def sizes_ok_def upd_dev_def)

lemma osal_queue_send_ok [simp]: "usb_ok (osal_queue_send e u) = usb_ok u"
  by (simp add: osal_queue_send_def)

lemma dcd_event_handler_ok: "usb_ok u \<Longrightarrow> usb_ok (dcd_event_handler e u)"
  by (cases e) auto

lemma dcd_receive_safe:
  assumes u: "usb_at q u" and n: "input_ok (Packet n b) u"
  shows "safe1 q (dcd_receive n b u)"
proof (cases "out_buffer u n")
  case None
  then show ?thesis using u n by (simp add: dcd_receive_def)
next
  case (Some p)
  obtain m i where p: "p = (m, i)" by (cases p)
  have m: "m = CtrlBuf \<or> m = EpinBuf" using u Some p by (auto simp: usb_at_def usb_ok_def out_ok_def)
  then have "safe1 q (write_mem p b u)"
    using n Some p by (intro write_mem_safe u) (auto simp: CFG_TUD_ENDPOINT0_SIZE_def CFG_TUD_HID_EP_BUFSIZE_def)
  then obtain v where v: "write_mem p b u = Some v" "usb_at q v" by (auto simp: safe1_def returns_def)
  then have "usb_at q (v\<lparr>out_buffer := (out_buffer v)(n := Some (m, i + length b))\<rparr>)"
    using m by (auto simp: usb_at_def usb_ok_def sizes_ok_def out_ok_def)
  then show ?thesis using Some v p by (simp add: dcd_receive_def)
qed

lemma usb_step_safe:
  assumes u: "usb_ok u" and x: "input_ok x u" shows "\<exists>v. usb_step x u = Some v \<and> usb_ok v"
proof (cases x)
  case Task
  show ?thesis
  proof (cases "usbd_q u")
    case Nil
    then show ?thesis using u Task by simp
  next
    case (Cons e es)
    let ?v = "u\<lparr>usbd_q := es\<rparr>"
    have "event_ok e ?v = event_ok e u" by (cases e) (simp_all add: length_ok_def)
    moreover have "usb_at (es, usbd_rhport u) ?v" using u by (simp add: usb_at_def)
    ultimately have "safe1 (es, usbd_rhport u) (usbd_event e ?v)" using Task x Cons by (intro usbd_event_safe) auto
    from safe1_ok [OF this] show ?thesis using Task Cons by simp
  qed
next
  case (Irq e)
  then show ?thesis using u by (simp add: dcd_event_handler_ok)
next
  case Bus_Reset
  then show ?thesis using u by (auto simp: dcd_bus_reset_def usb_ok_def sizes_ok_def out_ok_def)
next
  case (Packet n b)
  then show ?thesis using safe1_ok [OF dcd_receive_safe [OF u [unfolded usb_ok_at]]] x by simp
next
  case (Joystick a b)
  have "safe1 (usbd_q u, usbd_rhport u) (map_option snd (usb_hid_task_round a b u))"
    using u unfolding usb_hid_task_round_def tud_hid_n_mouse_report_def usb_ok_at
    by (intro safe1_map_snd tud_hid_n_report_safe) auto
  from safe1_ok [OF this] Joystick show ?thesis by simp
qed

lemma usb_run_safe: "usb_ok u \<Longrightarrow> conforms xs u \<Longrightarrow> \<exists>v. usb_run xs u = Some v \<and> usb_ok v"
proof (induction xs arbitrary: u)
  case (Cons x xs)
  then obtain v where "usb_step x u = Some v" "usb_ok v"
    using usb_step_safe [of u x] by auto
  with Cons show ?case by simp
qed simp

text \<open>The state at power-on and after the initialisation by the USB task.\<close>

definition usb_power_on :: usb where
  "usb_power_on = \<lparr>usbd_dev = zero_dev, usbd_rhport = RHPORT_INVALID,
     ctrl_xfer = \<lparr>request = zero_request, buffer = None, data_len = 0, total_xferred = 0, complete_cb = False\<rparr>,
     usbd_ctrl_buf = replicate CFG_TUD_ENDPOINT0_SIZE 0, hidd_itf = zero_hid, desc_str = replicate 66 0, usbd_q = [],
     out_buffer = (\<lambda>_. None), allocated_fifo_words_tx = 0, grxfsiz = 0, dcd_log = []\<rparr>"

lemma tud_init_ok: "usb_ok (tud_init usb_power_on)"
proof -
  have "usb_ok usb_power_on"
    by (simp add: usb_power_on_def usb_ok_def sizes_ok_def xfer_ok_none out_ok_def)
  then have "usb_ok (hidd_init (upd_dev (\<lambda>_. zero_dev) (usb_power_on\<lparr>usbd_q := []\<rparr>)))"
    by (simp add: hidd_init_def hidd_reset_def usb_ok_def sizes_ok_def upd_dev_def)
  then show ?thesis by (simp add: tud_init_def tud_inited_def usb_power_on_def)
qed


definition host_setup :: "u8 \<Rightarrow> u8 \<Rightarrow> u16 \<Rightarrow> u16 \<Rightarrow> u16 \<Rightarrow> usb_input" where
  "host_setup t b v i l = Irq (DCD_EVENT_SETUP_RECEIVED \<lparr>bmRequestType = t, bRequest = b, wValue = v, wIndex = i, wLength = l\<rparr>)"

definition enumeration :: "usb_input list" where
  "enumeration = [Bus_Reset, Irq (DCD_EVENT_BUS_RESET 0), Task,
     host_setup 0x80 6 0x0100 0 64, Task, Irq (DCD_EVENT_XFER_COMPLETE 0x80 18), Task, Irq (DCD_EVENT_XFER_COMPLETE 0 0), Task,
     host_setup 0x00 9 1 0 0, Task, Irq (DCD_EVENT_XFER_COMPLETE 0x80 0), Task,
     Joystick 10 200, Irq (DCD_EVENT_XFER_COMPLETE 0x81 5), Task]"



definition busy_queue :: usb where
  "busy_queue = (tud_init usb_power_on)\<lparr>usbd_q := [DCD_EVENT_BUS_RESET 0,
     DCD_EVENT_SETUP_RECEIVED \<lparr>bmRequestType = 0x80, bRequest = 6, wValue = 0x0100, wIndex = 0, wLength = 64\<rparr>,
     DCD_EVENT_XFER_COMPLETE 0x80 18]\<rparr>"


end
