(* ===== verification/Usb_Props.thy ===== *)
theory Usb_Props
  imports Usb_Safety
begin

text \<open>
  What the USB device does for its host: the delivery of control reads in packets, the configuration of the device and the path of
  a report, and the behaviour on requests and at times the code does not guard against.
\<close>

section \<open>Control reads\<close>

lemma busy_number [simp]: "tu_edpt_number 0x80 = 0" "tu_edpt_number 0 = 0" "tu_edpt_dir 0x80" "\<not> tu_edpt_dir 0"
  "tu_edpt_number 0x81 = 1" "tu_edpt_dir 0x81"
  by (simp_all add: tu_edpt_number_def tu_edpt_dir_def)

definition ep_busy :: "nat \<Rightarrow> bool \<Rightarrow> usb \<Rightarrow> bool" where
  "ep_busy n d u = busy (ep_status (usbd_dev u) n d)"

definition set_busy :: "u8 \<Rightarrow> usb \<Rightarrow> usb" where
  "set_busy a = upd_ep a (\<lambda>s. s\<lparr>busy := True\<rparr>)"

lemma set_busy_sel [simp]: "ctrl_xfer (set_busy a u) = ctrl_xfer u" "hidd_itf (set_busy a u) = hidd_itf u"
  "dcd_log (set_busy a u) = dcd_log u" "usbd_ctrl_buf (set_busy a u) = usbd_ctrl_buf u" "desc_str (set_busy a u) = desc_str u"
  by (simp_all add: set_busy_def upd_ep_def)

text \<open>A data stage towards the host puts the next packet into the control buffer and starts the transfer.\<close>

definition send_packet :: "u8 list \<Rightarrow> usb \<Rightarrow> usb" where
  "send_packet b u = log_dcd (Xfer_In 0 b) (set_busy 0x80 (u\<lparr>usbd_ctrl_buf := patch 0 b (usbd_ctrl_buf u)\<rparr>))"

lemma patch_prefix: "length b \<le> length xs \<Longrightarrow> take (length b) (patch 0 b xs) = b"
  by (simp add: patch_def)

lemma data_stage_in:
  assumes u: "sizes_ok u" and x: "direction (request (ctrl_xfer u))" "buffer (ctrl_xfer u) = Some (m, i)"
    and t: "unat (total_xferred (ctrl_xfer u)) \<le> unat (data_len (ctrl_xfer u))"
    and fit: "i + remaining (ctrl_xfer u) \<le> region_size m" and free: "\<not> ep_busy 0 True u"
  shows "data_stage_xact u = Some (True, send_packet (take 64 (take (remaining (ctrl_xfer u)) (drop i (region_bytes m u)))) u)"
proof -
  define n where "n = min (remaining (ctrl_xfer u)) 64"
  have n: "min (unat (data_len (ctrl_xfer u) - total_xferred (ctrl_xfer u))) CFG_TUD_ENDPOINT0_SIZE = n"
    using remaining_word [OF t] by (simp add: n_def CFG_TUD_ENDPOINT0_SIZE_def)
  define b where "b = take n (drop i (region_bytes m u))"
  have b: "take 64 (take (remaining (ctrl_xfer u)) (drop i (region_bytes m u))) = b"
    by (simp add: b_def n_def min.commute)
  have fit': "snd (m, i) + n \<le> region_size (fst (m, i))" using fit by (simp add: n_def)
  have len: "length b = n" "read_mem (m, i) n u = Some b"
    using read_mem_ok [OF u fit'] by (simp_all add: b_def)
  have c: "length (usbd_ctrl_buf u) = 64" using u by (simp add: sizes_ok_def CFG_TUD_ENDPOINT0_SIZE_def)
  have n64: "n \<le> 64" by (simp add: n_def)
  let ?v = "u\<lparr>usbd_ctrl_buf := patch 0 b (usbd_ctrl_buf u)\<rparr>"
  have w: "write_mem (CtrlBuf, 0) b u = Some ?v"
    using c n64 len by (auto simp: write_mem_def Let_def patch_def)
  have "read_mem (CtrlBuf, 0) n (set_busy 0x80 ?v) = Some b"
    using c n64 len patch_prefix [of b "usbd_ctrl_buf u"] by (simp add: read_mem_def Let_def length_patch)
  moreover have "b = []" "?v = u" if "n = 0" using that len by (simp_all add: patch_def)
  ultimately have "usbd_edpt_xfer 0x80 (if n \<noteq> 0 then Some (CtrlBuf, 0) else None) n ?v = Some (True, send_packet b u)"
    using free by (simp add: usbd_edpt_xfer_def ep_state_def dcd_edpt_xfer_def ep_busy_def send_packet_def set_busy_def
        CFG_TUD_ENDPPOINT_MAX_def)
  then show ?thesis
    unfolding b using x w len \<open>n = 0 \<Longrightarrow> ?v = u\<close> by (cases "n = 0") (simp_all add: data_stage_xact_def n Let_def)
qed

text \<open>
  While a control read is in progress, \<open>t\<close> bytes of the data \<open>d\<close> have been acknowledged and the packet with the next ones is on its way.
\<close>

definition next_packet :: "u8 list \<Rightarrow> nat \<Rightarrow> u8 list" where
  "next_packet d t = take 64 (drop t d)"

definition callback_ok :: "usb \<Rightarrow> bool" where
  "callback_ok u \<longleftrightarrow> (let r = request (ctrl_xfer u)
     in complete_cb (ctrl_xfer u) \<longrightarrow> recipient r = 1 \<and> req_type r = 0 \<and> ucast (wIndex r) = itf_num (hidd_itf u))"

definition reading :: "region \<Rightarrow> u8 list \<Rightarrow> nat \<Rightarrow> usb \<Rightarrow> bool" where
  "reading m d t u \<longleftrightarrow> sizes_ok u \<and> direction (request (ctrl_xfer u)) \<and> buffer (ctrl_xfer u) = Some (m, t) \<and>
     unat (total_xferred (ctrl_xfer u)) = t \<and> unat (data_len (ctrl_xfer u)) = length d \<and> t \<le> length d \<and>
     length d \<le> unat (wLength (request (ctrl_xfer u))) \<and> length d \<le> region_size m \<and>
     take (length d) (region_bytes m u) = d \<and> m \<noteq> CtrlBuf \<and> callback_ok u"

lemma region_bytes_frame: "m \<noteq> CtrlBuf \<Longrightarrow> region_bytes m (u\<lparr>usbd_ctrl_buf := b\<rparr>) = region_bytes m u"
  "region_bytes m (set_busy a u) = region_bytes m u" "region_bytes m (log_dcd x u) = region_bytes m u"
  "region_bytes m (upd_ctrl f u) = region_bytes m u" "region_bytes m (free_ep a u) = region_bytes m u"
  by (cases m; simp add: set_busy_def upd_ep_def log_dcd_def upd_ctrl_def free_ep_def)+

lemma sizes_ok_frame: "sizes_ok (set_busy a u) = sizes_ok u" "sizes_ok (log_dcd x u) = sizes_ok u"
  "sizes_ok (upd_ctrl f u) = sizes_ok u" "sizes_ok (free_ep a u) = sizes_ok u"
  by (simp_all add: sizes_ok_def set_busy_def upd_ep_def log_dcd_def upd_ctrl_def free_ep_def)

lemma reading_send_packet:
  assumes r: "reading m d t u" and b: "length b \<le> 64" shows "reading m d t (send_packet b u)"
proof -
  have "sizes_ok (u\<lparr>usbd_ctrl_buf := patch 0 b (usbd_ctrl_buf u)\<rparr>)"
    using r b by (simp add: reading_def sizes_ok_def length_patch CFG_TUD_ENDPOINT0_SIZE_def)
  then show ?thesis
    using r by (simp add: reading_def send_packet_def callback_ok_def region_bytes_frame sizes_ok_frame)
qed

lemma reading_packet:
  assumes r: "reading m d t u" and free: "\<not> ep_busy 0 True u"
  shows "data_stage_xact u = Some (True, send_packet (next_packet d t) u)"
proof -
  have rem: "remaining (ctrl_xfer u) = length d - t" using r by (simp add: reading_def remaining_def)
  have "take (length d - t) (drop t (region_bytes m u)) = drop t (take (length d) (region_bytes m u))"
    by (simp add: drop_take)
  also have "\<dots> = drop t d" using r by (simp add: reading_def)
  finally show ?thesis
    using data_stage_in [of u m t] r free rem by (simp add: reading_def next_packet_def)
qed

text \<open>The host acknowledges the packet of the transfer that was started last.\<close>

definition host_ack :: "usb \<Rightarrow> usb option" where
  "host_ack u = (case dcd_log u of Xfer_In n p # _ \<Rightarrow> xfer_complete (0x80 OR of_nat n) (of_nat (length p)) u | _ \<Rightarrow> None)"

fun host_read :: "nat \<Rightarrow> usb \<Rightarrow> usb option" where
  "host_read 0 u = Some u"
| "host_read (Suc n) u = Option.bind (host_ack u) (host_read n)"

lemma callback_data: "callback_ok u \<Longrightarrow> data_stage_done u = status_stage_xact (request (ctrl_xfer u)) u"
  by (auto simp: callback_ok_def Let_def data_stage_done_def hidd_control_xfer_cb_def get_index_by_itfnum_def hid_std_request_def)

lemma status_out:
  assumes "direction r" "\<not> ep_busy 0 False u"
  shows "status_stage_xact r u = Some (True, log_dcd (Xfer_Out 0 0) ((set_busy 0 u)\<lparr>out_buffer := (out_buffer u)(0 := None)\<rparr>))"
  using assms by (simp add: status_stage_xact_def usbd_edpt_xfer_def ep_state_def ep_busy_def dcd_edpt_xfer_def set_busy_def
      CFG_TUD_ENDPPOINT_MAX_def upd_ep_def)

lemma ep_busy_frame [simp]: "ep_busy n d (upd_ctrl f u) = ep_busy n d u" "ep_busy 0 d (free_ep 0x80 u) = (\<not> d \<and> ep_busy 0 d u)"
  "ep_busy 0 d (send_packet b u) = (d \<or> ep_busy 0 d u)"
  by (auto simp: ep_busy_def upd_ctrl_def free_ep_def upd_ep_def send_packet_def set_busy_def log_dcd_def)

lemma advance_reading:
  assumes r: "reading m d t u" and n: "unat (len :: u32) \<le> length d - t"
  shows "reading m d (t + unat len) (upd_ctrl (advance len) (free_ep 0x80 u))"
    and "unat (total_xferred (advance len (ctrl_xfer u))) = t + unat len"
proof -
  have "t \<le> length d" using r by (simp add: reading_def)
  then have le: "t + unat len \<le> length d" using n by linarith
  have "unat (data_len (ctrl_xfer u)) < 2 ^ LENGTH(16)" by (rule unsigned_less)
  with le have lt: "t + unat len < 2 ^ LENGTH(16)" using r by (simp add: reading_def)
  then have "unat (ucast len :: u16) = unat len" by (simp add: unsigned_ucast_eq take_bit_nat_eq_self)
  with lt r show sum: "unat (total_xferred (advance len (ctrl_xfer u))) = t + unat len"
    by (simp add: advance_def unat_word_ariths reading_def)
  show "reading m d (t + unat len) (upd_ctrl (advance len) (free_ep 0x80 u))"
    using r le sum
    by (simp add: reading_def callback_ok_def region_bytes_frame sizes_ok_frame)
      (simp add: upd_ctrl_def advance_def free_ep_def)
qed

lemma free_ep_sel [simp]: "ctrl_xfer (free_ep a u) = ctrl_xfer u" "dcd_log (free_ep a u) = dcd_log u" "hidd_itf (free_ep a u) = hidd_itf u"
  by (simp_all add: free_ep_def)

lemma control_xfer_in:
  assumes "direction (request (ctrl_xfer u))"
  shows "usbd_control_xfer_cb 0x80 len u =
    (if wLength (request (ctrl_xfer u)) = total_xferred (ctrl_xfer (upd_ctrl (advance len) u)) \<or> unat len < CFG_TUD_ENDPOINT0_SIZE
     then data_stage_done (upd_ctrl (advance len) u) else data_stage_xact (upd_ctrl (advance len) u))"
  unfolding usbd_control_xfer_cb_def Let_def advance_fold using assms by simp

lemma host_ack_step:
  assumes r: "reading m d t u" and log: "dcd_log u = Xfer_In 0 (next_packet d t) # l" and free: "\<not> ep_busy 0 False u"
  defines "n \<equiv> length (next_packet d t)"
  shows "t + n = unat (wLength (request (ctrl_xfer u))) \<or> n < 64 \<Longrightarrow>
      \<exists>v. host_ack u = Some v \<and> dcd_log v = Xfer_Out 0 0 # dcd_log u"
    and "t + n \<noteq> unat (wLength (request (ctrl_xfer u))) \<Longrightarrow> n = 64 \<Longrightarrow>
      \<exists>v. host_ack u = Some v \<and> reading m d (t + 64) v \<and> dcd_log v = Xfer_In 0 (next_packet d (t + 64)) # dcd_log u \<and>
        \<not> ep_busy 0 False v \<and> request (ctrl_xfer v) = request (ctrl_xfer u)"
proof -
  define len where "len = (of_nat n :: u32)"
  have n: "n \<le> 64" "n \<le> length d - t" by (simp_all add: n_def next_packet_def)
  have len: "unat len = n" unfolding len_def using n(1) by (intro unat_of_nat_less) simp
  define w where "w = upd_ctrl (advance len) (free_ep 0x80 u)"
  have rw: "reading m d (t + n) w" and tot: "unat (total_xferred (advance len (ctrl_xfer u))) = t + n"
    using advance_reading [OF r, of len] n len by (simp_all add: w_def)
  have busy: "\<not> ep_busy 0 True w" "\<not> ep_busy 0 False w" using free by (simp_all add: w_def)
  have sel: "request (ctrl_xfer w) = request (ctrl_xfer u)" "dcd_log w = dcd_log u"
    by (simp_all add: w_def upd_ctrl_def advance_def free_ep_def)
  have dir: "direction (request (ctrl_xfer u))" using r by (simp add: reading_def)
  have wl: "wLength (request (ctrl_xfer u)) = total_xferred (ctrl_xfer w) \<longleftrightarrow> t + n = unat (wLength (request (ctrl_xfer u)))"
    using tot by (auto simp: w_def upd_ctrl_def free_ep_def word_unat_eq_iff)
  have ack: "host_ack u = map_option snd (if t + n = unat (wLength (request (ctrl_xfer u))) \<or> n < 64
      then data_stage_done w else data_stage_xact w)"
    using log dir len wl
    by (simp add: host_ack_def xfer_complete_def ep_state_def CFG_TUD_ENDPPOINT_MAX_def control_xfer_in
        CFG_TUD_ENDPOINT0_SIZE_def flip: n_def len_def w_def)
  show "\<exists>v. host_ack u = Some v \<and> dcd_log v = Xfer_Out 0 0 # dcd_log u"
    if "t + n = unat (wLength (request (ctrl_xfer u))) \<or> n < 64"
    using that ack rw busy dir sel
    by (simp add: callback_data reading_def status_out)
  show "\<exists>v. host_ack u = Some v \<and> reading m d (t + 64) v \<and> dcd_log v = Xfer_In 0 (next_packet d (t + 64)) # dcd_log u \<and>
        \<not> ep_busy 0 False v \<and> request (ctrl_xfer v) = request (ctrl_xfer u)"
    if "t + n \<noteq> unat (wLength (request (ctrl_xfer u)))" "n = 64"
    using that ack reading_packet [OF rw busy(1)] reading_send_packet [OF rw] busy sel
    by (simp add: next_packet_def) (simp add: send_packet_def)
qed

text \<open>
  The packets of a control read, for data \<open>d\<close> and a request of \<open>w\<close> bytes: full packets, then one that is shorter, possibly empty,
  unless the data are as long as the request.
\<close>

definition packets_of :: "nat \<Rightarrow> u8 list \<Rightarrow> u8 list list \<Rightarrow> bool" where
  "packets_of w d ps \<longleftrightarrow> ps \<noteq> [] \<and> concat ps = d \<and> (\<forall>p \<in> set (butlast ps). length p = 64) \<and> length (last ps) \<le> 64 \<and>
     (length (last ps) = 64 \<longrightarrow> length d = w)"

lemma packets_of_single: "length d < 64 \<or> length d = 64 \<and> w = 64 \<Longrightarrow> packets_of w d [d]"
  by (auto simp: packets_of_def)

lemma packets_of_Cons:
  assumes "packets_of w d ps" "length p = 64" shows "packets_of (w + 64) (p @ d) (p # ps)"
  using assms by (auto simp: packets_of_def)

lemma host_read_delivers:
  assumes "reading m d t u" "dcd_log u = Xfer_In 0 (next_packet d t) # l" "\<not> ep_busy 0 False u"
    and w: "w = unat (wLength (request (ctrl_xfer u)))"
  shows "\<exists>ps v. packets_of (w - t) (drop t d) ps \<and> host_read (length ps) u = Some v \<and>
    dcd_log v = Xfer_Out 0 0 # map (Xfer_In 0) (rev ps) @ l"
  using assms
proof (induction "length d - t" arbitrary: t u l rule: less_induct)
  case less
  let ?n = "length (next_packet d t)"
  have td: "t \<le> length d" "length d \<le> w" using less.prems by (simp_all add: reading_def)
  show ?case
  proof (cases "t + ?n = w \<or> ?n < 64")
    case True
    then have "packets_of (w - t) (drop t d) [next_packet d t]"
      using td by (auto simp: packets_of_def next_packet_def)
    moreover obtain v where "host_ack u = Some v" "dcd_log v = Xfer_Out 0 0 # dcd_log u"
      using host_ack_step(1) [OF less.prems(1, 2, 3)] True less.prems(4) by auto
    ultimately show ?thesis using less.prems(2) by (intro exI [of _ "[next_packet d t]"]) auto
  next
    case False
    moreover have "?n \<le> 64" by (simp add: next_packet_def)
    ultimately have n: "?n = 64" and ne: "t + ?n \<noteq> w" by auto
    obtain v where v: "host_ack u = Some v" "reading m d (t + 64) v" "dcd_log v = Xfer_In 0 (next_packet d (t + 64)) # dcd_log u"
      "\<not> ep_busy 0 False v" "request (ctrl_xfer v) = request (ctrl_xfer u)"
      using host_ack_step(2) [OF less.prems(1, 2, 3)] n ne less.prems(4) by auto
    have long: "t + 64 \<le> length d" using n by (auto simp: next_packet_def)
    then have dec: "length d - (t + 64) < length d - t" by linarith
    have wv: "w = unat (wLength (request (ctrl_xfer v)))" using v(5) less.prems(4) by simp
    obtain ps z where z: "packets_of (w - (t + 64)) (drop (t + 64) d) ps" "host_read (length ps) v = Some z"
      "dcd_log z = Xfer_Out 0 0 # map (Xfer_In 0) (rev ps) @ dcd_log u"
      using less.hyps [OF dec v(2, 3, 4) wv] by blast
    have dt: "drop t d = next_packet d t @ drop (t + 64) d"
      unfolding next_packet_def by (metis add.commute append_take_drop_id drop_drop)
    have wt: "w - t = w - (t + 64) + 64" using long td by linarith
    have "packets_of (w - t) (drop t d) (next_packet d t # ps)"
      unfolding dt wt by (rule packets_of_Cons [OF z(1) n])
    then show ?thesis using z v less.prems(2) by (intro exI [of _ "next_packet d t # ps"]) auto
  qed
qed

lemma control_read_starts:
  assumes u: "sizes_ok u" and r: "direction r" "wLength r \<noteq> 0" and m: "m \<noteq> CtrlBuf" "unat len \<le> region_size m"
    and free: "\<not> ep_busy 0 True u" "\<not> ep_busy 0 False u"
    and cb: "complete_cb (ctrl_xfer u) \<longrightarrow> recipient r = 1 \<and> req_type r = 0 \<and> ucast (wIndex r) = itf_num (hidd_itf u)"
    and d: "d = take (unat (wLength r)) (take (unat len) (region_bytes m u))"
  shows "\<exists>v. tud_control_xfer r (Some (m, 0)) len u = Some (True, v) \<and> reading m d 0 v \<and> request (ctrl_xfer v) = r \<and>
    dcd_log v = Xfer_In 0 (next_packet d 0) # dcd_log u \<and> \<not> ep_busy 0 False v"
proof -
  let ?v = "upd_ctrl (\<lambda>x. x\<lparr>request := r, buffer := Some (m, 0), total_xferred := 0, data_len := min len (wLength r)\<rparr>) u"
  have min: "unat (min len (wLength r)) = min (unat len) (unat (wLength r))" by (simp add: min_def word_le_nat_alt)
  have ld: "length d = min (unat len) (unat (wLength r))" using m(2) region_bytes_size [OF u, of m] by (simp add: d min.commute)
  have rd: "reading m d 0 ?v"
    using u r m cb ld min
    by (simp add: reading_def callback_ok_def region_bytes_frame sizes_ok_frame)
      (simp add: upd_ctrl_def d min.commute)
  have "\<not> ep_busy 0 True ?v" using free by simp
  note eq = reading_packet [OF rd this]
  have "tud_control_xfer r (Some (m, 0)) len u = data_stage_xact ?v"
    using r(2) by (simp add: tud_control_xfer_def word_greater_zero_iff)
  then show ?thesis
    using eq reading_send_packet [OF rd, of "next_packet d 0"] free
    by (simp add: next_packet_def) (simp add: send_packet_def upd_ctrl_def)
qed

section \<open>Descriptors\<close>

definition string_descriptor :: "string \<Rightarrow> u8 list" where
  "string_descriptor s = [of_nat (2 * length s + 2), 3] @ utf16 s"

definition hid_bound :: "usb \<Rightarrow> bool" where
  "hid_bound u \<longleftrightarrow> itf2drv (usbd_dev u) 0 = 0 \<and> itf_num (hidd_itf u) = 0 \<and> hid_descriptor (hidd_itf u) = Some desc_hid \<and>
     report_desc_len (hidd_itf u) = 77"

text \<open>The descriptors a host can ask for, the last two of the interface once it is configured.\<close>

definition descriptor_of :: "tusb_control_request_t \<Rightarrow> usb \<Rightarrow> u8 list option" where
  "descriptor_of r u =
     (if bmRequestType r = 0x80 then
        (if tu_u16_high (wValue r) = 1 then Some desc_device
         else if tu_u16_high (wValue r) = 2 then Some desc_configuration
         else if wValue r = 0x0300 then Some [4, 3, 0x09, 0x04]
         else if wValue r = 0x0301 then Some (string_descriptor ''Misha molodets!'')
         else if wValue r = 0x0302 then Some (string_descriptor ''STM32F407VET6 of Misha'')
         else None)
      else if bmRequestType r = 0x81 \<and> tu_u16_low (wIndex r) = 0 \<and> hid_bound u then
        (if tu_u16_high (wValue r) = 0x21 then Some (take 9 desc_hid)
         else if tu_u16_high (wValue r) = 0x22 then Some desc_hid_report
         else None)
      else None)"

definition prepared :: "usb \<Rightarrow> usb" where
  "prepared u = usbd_control_set_complete_callback False (free_ep 0x80 (free_ep 0 (upd_dev (\<lambda>v. v\<lparr>connected := True\<rparr>) u)))"

lemma prepared_sel [simp]: "dcd_log (prepared u) = dcd_log u" "hidd_itf (prepared u) = hidd_itf u"
  "\<not> complete_cb (ctrl_xfer (prepared u))" "\<not> ep_busy 0 True (prepared u)" "\<not> ep_busy 0 False (prepared u)"
  "itf2drv (usbd_dev (prepared u)) = itf2drv (usbd_dev u)" "sizes_ok (prepared u) = sizes_ok u" "usb_ok (prepared u) = usb_ok u"
  by (auto simp: prepared_def usbd_control_set_complete_callback_def upd_ctrl_def free_ep_def upd_ep_def upd_dev_def ep_busy_def
      sizes_ok_def usb_ok_def)

lemma drop_locals_id: "reading m d t u \<Longrightarrow> \<not> is_local m \<Longrightarrow> drop_locals u = u"
  by (cases m) (auto simp: drop_locals_def upd_ctrl_def reading_def end_of_scope_def)

lemma setup_read_delivers:
  assumes p: "\<exists>v. process_control_request r (free_ep 0x80 (free_ep 0 (upd_dev (\<lambda>v. v\<lparr>connected := True\<rparr>) u))) = Some (True, v) \<and>
      reading m d 0 v \<and> request (ctrl_xfer v) = r \<and> dcd_log v = Xfer_In 0 (next_packet d 0) # dcd_log u \<and> \<not> ep_busy 0 False v"
    and m: "\<not> is_local m"
  shows "\<exists>ps v w. setup_received r u = Some v \<and> packets_of (unat (wLength r)) d ps \<and> host_read (length ps) v = Some w \<and>
    dcd_log w = Xfer_Out 0 0 # map (Xfer_In 0) (rev ps) @ dcd_log u"
proof -
  from p obtain v where v: "process_control_request r (free_ep 0x80 (free_ep 0 (upd_dev (\<lambda>v. v\<lparr>connected := True\<rparr>) u))) = Some (True, v)"
    "reading m d 0 v" "request (ctrl_xfer v) = r" "dcd_log v = Xfer_In 0 (next_packet d 0) # dcd_log u" "\<not> ep_busy 0 False v"
    by blast
  then have "setup_received r u = Some v"
    using drop_locals_id [OF v(2) m] by (simp add: setup_received_def)
  moreover have "unat (wLength r) = unat (wLength (request (ctrl_xfer v)))" using v(3) by simp
  ultimately show ?thesis using host_read_delivers [OF v(2, 4, 5)] by fastforce
qed

lemma get_descriptor_request:
  assumes "bmRequestType r = 0x80" "bRequest r = 6"
  shows "process_control_request r (free_ep 0x80 (free_ep 0 (upd_dev (\<lambda>v. v\<lparr>connected := True\<rparr>) u))) = process_get_descriptor r (prepared u)"
    and "direction r"
  using assms by (simp_all add: process_control_request_def Let_def std_device_request_def recipient_def req_type_def prepared_def direction_def)

definition read_starts :: "tusb_control_request_t \<Rightarrow> region \<Rightarrow> u8 list \<Rightarrow> usb \<Rightarrow> bool" where
  "read_starts r m d u \<longleftrightarrow>
     (\<exists>v. process_control_request r (free_ep 0x80 (free_ep 0 (upd_dev (\<lambda>v. v\<lparr>connected := True\<rparr>) u))) = Some (True, v) \<and>
      reading m d 0 v \<and> request (ctrl_xfer v) = r \<and> dcd_log v = Xfer_In 0 (next_packet d 0) # dcd_log u \<and> \<not> ep_busy 0 False v)"

lemma device_read_starts:
  assumes u: "sizes_ok u" and r: "bmRequestType r = 0x80" "bRequest r = 6" "wLength r \<noteq> 0" and v: "tu_u16_high (wValue r) = 1"
  shows "read_starts r (Const desc_device) (take (unat (wLength r)) desc_device) u"
proof -
  have "process_get_descriptor r (prepared u) = tud_control_xfer r (Some (Const desc_device, 0)) 18 (prepared u)"
    using v by (simp add: process_get_descriptor_def Let_def CFG_TUD_ENDPOINT0_SIZE_def)
  moreover have "length desc_device = 18" "take 18 desc_device = desc_device" by (simp_all add: desc_device_def)
  ultimately show ?thesis
    using control_read_starts [of "prepared u" r "Const desc_device" 18, OF _ _ r(3)] u get_descriptor_request [OF r(1, 2)]
    by (simp add: read_starts_def)
qed

lemma configuration_read_starts:
  assumes u: "sizes_ok u" and r: "bmRequestType r = 0x80" "bRequest r = 6" "wLength r \<noteq> 0" and v: "tu_u16_high (wValue r) = 2"
  shows "read_starts r (Const desc_configuration) (take (unat (wLength r)) desc_configuration) u"
proof -
  have len: "length desc_configuration = 34" "le16_at desc_configuration 2 = Some 34" "take 34 desc_configuration = desc_configuration"
    by (simp_all add: desc_lists le16_at_def byte_at_def)
  then have "process_get_descriptor r (prepared u) = tud_control_xfer r (Some (Const desc_configuration, 0)) 34 (prepared u)"
    using v by (simp add: process_get_descriptor_def Let_def)
  then show ?thesis
    using control_read_starts [of "prepared u" r "Const desc_configuration" 34, OF _ _ r(3)] u get_descriptor_request [OF r(1, 2)] len
    by (simp add: read_starts_def)
qed

lemma put_string_sel [simp]: "dcd_log (put_string b u) = dcd_log u" "ctrl_xfer (put_string b u) = ctrl_xfer u"
  "hidd_itf (put_string b u) = hidd_itf u" "ep_busy n d (put_string b u) = ep_busy n d u"
  by (simp_all add: put_string_def ep_busy_def)

lemma string_read_starts:
  assumes u: "sizes_ok u" and r: "bmRequestType r = 0x80" "bRequest r = 6" "wLength r \<noteq> 0" and v: "tu_u16_high (wValue r) = 3"
    and s: "tud_descriptor_string_cb (tu_u16_low (wValue r)) (prepared u) = Some (True, put_string b (prepared u))" "length b \<le> 64"
  shows "read_starts r DescStr (take (unat (wLength r)) ([of_nat (length b + 2), 3] @ b)) u"
proof -
  define k where "k = (of_nat (length b + 2) :: u8)"
  have k: "unat k = length b + 2" unfolding k_def using s(2) by (intro unat_of_nat_less) simp
  then have k16: "unat (ucast k :: u16) = length b + 2"
    unfolding unsigned_ucast_eq using s(2) by (simp add: take_bit_nat_eq_self)
  let ?u = "put_string b (prepared u)"
  have ds: "desc_str ?u = [k, 3] @ b @ drop (length b + 2) (desc_str (prepared u))"
    by (simp add: put_string_def patch_def k_def)
  have "tu_desc_len (desc_str ?u) = Some k" by (simp add: ds tu_desc_len_def byte_at_def)
  then have eq: "process_get_descriptor r (prepared u) = tud_control_xfer r (Some (DescStr, 0)) (ucast k) ?u"
    using v s by (simp add: process_get_descriptor_def Let_def)
  have szs: "sizes_ok ?u" using u s(2) by (simp add: sizes_ok_def put_string_def length_patch prepared_def
      usbd_control_set_complete_callback_def upd_ctrl_def free_ep_def upd_ep_def upd_dev_def)
  have "take (length b + 2) (desc_str ?u) = [k, 3] @ b" unfolding ds by simp
  then show ?thesis
    unfolding k_def [symmetric]
    using control_read_starts [of ?u r DescStr "ucast k", OF szs _ r(3)] get_descriptor_request [OF r(1, 2)] k16 s(2) eq
    by (simp add: read_starts_def del: take_take)
qed

lemma interface_read_starts:
  assumes u: "sizes_ok u" "hid_bound u" and r: "bmRequestType r = 0x81" "bRequest r = 6" "wLength r \<noteq> 0" "tu_u16_low (wIndex r) = 0"
    and d: "tu_u16_high (wValue r) = 0x21 \<and> m = Const desc_hid \<and> d = take 9 desc_hid \<or>
      tu_u16_high (wValue r) = 0x22 \<and> m = Const desc_hid_report \<and> d = desc_hid_report"
  shows "read_starts r m (take (unat (wLength r)) d) u"
proof -
  let ?u = "usbd_control_set_complete_callback True (prepared u)"
  have bits: "recipient r = 1" "req_type r = 0" "direction r" using r(1) by (simp_all add: recipient_def req_type_def direction_def)
  have i: "(ucast (wIndex r) :: u8) = 0" using r(4) by (simp add: tu_u16_low_def)
  have sel: "hidd_itf ?u = hidd_itf u" "dcd_log ?u = dcd_log u" "sizes_ok ?u" "\<not> ep_busy 0 True ?u" "\<not> ep_busy 0 False ?u"
    using u(1) by (simp_all add: usbd_control_set_complete_callback_def sizes_ok_frame) (simp_all add: upd_ctrl_def)
  define len where "len = (if tu_u16_high (wValue r) = 0x21 then 9 else 77 :: u16)"
  have len: "unat len \<le> region_size m" "take (unat len) (region_bytes m ?u) = d" "m \<noteq> CtrlBuf"
    using d by (auto simp: len_def desc_hid_simps)
  obtain v where v: "tud_control_xfer r (Some (m, 0)) len ?u = Some (True, v)" "reading m (take (unat (wLength r)) d) 0 v"
    "request (ctrl_xfer v) = r" "dcd_log v = Xfer_In 0 (next_packet (take (unat (wLength r)) d) 0) # dcd_log u" "\<not> ep_busy 0 False v"
    using control_read_starts [OF sel(3) bits(3) r(3) len(3, 1) sel(4, 5), of "take (unat (wLength r)) d"] len(2) bits i u(2) sel
    by (auto simp: hid_bound_def)
  have "hid_std_request CONTROL_STAGE_SETUP r ?u = Some (True, v)"
    using v(1) d r u(2) sel by (auto simp: hid_std_request_def hid_bound_def len_def desc_hid_simps)
  then have "invoke_class_control r (prepared u) = Some (True, v)"
    using bits i u(2) sel by (simp add: invoke_class_control_def hidd_control_xfer_cb_def get_index_by_itfnum_def hid_bound_def)
  then have "process_control_request r (free_ep 0x80 (free_ep 0 (upd_dev (\<lambda>v. v\<lparr>connected := True\<rparr>) u))) = Some (True, v)"
    using bits r u(2)
    by (simp add: process_control_request_def Let_def interface_request_def CFG_TUD_INTERFACE_MAX_def get_driver_def hid_bound_def
        flip: prepared_def)
  then show ?thesis using v by (auto simp: read_starts_def)
qed

lemma string_cb:
  "tud_descriptor_string_cb 0 u = Some (True, put_string [0x09, 0x04] u)"
  "tud_descriptor_string_cb 1 u = Some (True, put_string (utf16 ''Misha molodets!'') u)"
  "tud_descriptor_string_cb 2 u = Some (True, put_string (utf16 ''STM32F407VET6 of Misha'') u)"
  by (simp_all add: tud_descriptor_string_cb_def string_desc_arr_def)

lemma string_indices [simp]:
  "tu_u16_high 0x0300 = 3" "tu_u16_low 0x0300 = 0" "tu_u16_high 0x0301 = 3" "tu_u16_low 0x0301 = 1"
  "tu_u16_high 0x0302 = 3" "tu_u16_low 0x0302 = 2"
  by (simp_all add: tu_u16_high_def tu_u16_low_def)

lemma read_starts_descriptor:
  assumes u: "sizes_ok u" and r: "bRequest r = 6" "wLength r \<noteq> 0" and d: "descriptor_of r u = Some d"
  shows "\<exists>m. read_starts r m (take (unat (wLength r)) d) u \<and> \<not> is_local m"
proof (cases "bmRequestType r = 0x80")
  case dev: True
  note str = string_read_starts [OF u dev r]
  consider "tu_u16_high (wValue r) = 1" "d = desc_device" | "tu_u16_high (wValue r) = 2" "d = desc_configuration"
    | "wValue r = 0x0300" "d = [4, 3, 9, 4]" | "wValue r = 0x0301" "d = string_descriptor ''Misha molodets!''"
    | "wValue r = 0x0302" "d = string_descriptor ''STM32F407VET6 of Misha''"
    using d dev by (auto simp: descriptor_of_def split: if_splits)
  then show ?thesis
  proof cases
    case 1
    then show ?thesis using device_read_starts [OF u dev r] is_local.simps(1) by blast
  next
    case 2
    then show ?thesis using configuration_read_starts [OF u dev r] is_local.simps(1) by blast
  next
    case 3
    then show ?thesis using str [of "[9, 4]"] string_cb(1) by auto
  next
    case 4
    then show ?thesis using str [of "utf16 ''Misha molodets!''"] string_cb(2)
      by (auto simp: length_utf16 string_descriptor_def)
  next
    case 5
    then show ?thesis using str [of "utf16 ''STM32F407VET6 of Misha''"] string_cb(3)
      by (auto simp: length_utf16 string_descriptor_def)
  qed
next
  case False
  then have itf: "bmRequestType r = 0x81" "tu_u16_low (wIndex r) = 0" "hid_bound u"
    and d: "tu_u16_high (wValue r) = 0x21 \<and> d = take 9 desc_hid \<or> tu_u16_high (wValue r) = 0x22 \<and> d = desc_hid_report"
    using d by (auto simp: descriptor_of_def split: if_splits)
  show ?thesis
    using interface_read_starts [OF u itf(3) itf(1) r itf(2)] d is_local.simps(1) by metis
qed

text \<open>
  C28. A host that asks for a descriptor gets it. For the descriptors of the device, the configuration and the strings at any time, and
  for those of the HID interface when it is configured: the answer to \<open>GET_DESCRIPTOR\<close> is the descriptor cut to the requested length, in
  packets of the control endpoint that are full but for the last, with a last packet that is short (possibly empty) unless the
  descriptor has the requested length; and after the host has acknowledged them the device opens the status stage.
\<close>

theorem get_descriptor_delivers:
  assumes "usb_ok u" "bRequest r = 6" "wLength r \<noteq> 0" "descriptor_of r u = Some d"
  shows "\<exists>ps v w. setup_received r u = Some v \<and> host_read (length ps) v = Some w \<and>
    dcd_log w = Xfer_Out 0 0 # map (Xfer_In 0) (rev ps) @ dcd_log u \<and>
    packets_of (unat (wLength r)) (take (unat (wLength r)) d) ps"
proof -
  have u: "sizes_ok u" using assms(1) by (simp add: usb_ok_def)
  from read_starts_descriptor [OF u assms(2-4)]
  obtain m where m: "read_starts r m (take (unat (wLength r)) d) u" "\<not> is_local m" by blast
  show ?thesis
    using setup_read_delivers [OF m(1) [unfolded read_starts_def] m(2)] by blast
qed

definition configured_usb :: usb where
  "configured_usb = upd_dev bind_endpoint (opened (tud_init usb_power_on))"

definition get_report_descriptor :: tusb_control_request_t where
  "get_report_descriptor = \<lparr>bmRequestType = 0x81, bRequest = 6, wValue = 0x2200, wIndex = 0, wLength = 77\<rparr>"

theorem get_descriptor_delivers_witness:
  "descriptor_of get_report_descriptor configured_usb = Some desc_hid_report \<and>
   (\<exists>ps v w. setup_received get_report_descriptor configured_usb = Some v \<and> host_read (length ps) v = Some w \<and>
    dcd_log w = Xfer_Out 0 0 # map (Xfer_In 0) (rev ps) @ dcd_log configured_usb \<and> packets_of 77 desc_hid_report ps)"
proof -
  have "usb_at (usbd_q (tud_init usb_power_on), usbd_rhport (tud_init usb_power_on)) (tud_init usb_power_on)"
    using tud_init_ok by (simp add: usb_at_def)
  from opened_ok [OF this] have ok: "usb_ok configured_usb" by (simp add: configured_usb_def usb_at_def)
  have d: "descriptor_of get_report_descriptor configured_usb = Some desc_hid_report"
    by (simp add: descriptor_of_def get_report_descriptor_def tu_u16_high_def tu_u16_low_def hid_bound_def configured_usb_def opened_def
        hid_opened_def bind_endpoint_def upd_dev_def upd_hid_def)
  have w: "unat (wLength get_report_descriptor) = 77" "take 77 desc_hid_report = desc_hid_report"
    by (simp_all add: get_report_descriptor_def desc_hid_simps)
  show ?thesis
    using get_descriptor_delivers [OF ok _ _ d] d w by (simp add: get_report_descriptor_def)
qed

section \<open>Configuration and reports\<close>

definition set_configuration_request :: "u8 \<Rightarrow> tusb_control_request_t" where
  "set_configuration_request c = \<lparr>bmRequestType = 0, bRequest = 9, wValue = ucast c, wIndex = 0, wLength = 0\<rparr>"

lemma set_configuration_bits:
  "recipient (set_configuration_request c) = 0" "req_type (set_configuration_request c) = 0" "\<not> direction (set_configuration_request c)"
  "bRequest (set_configuration_request c) = 9" "(ucast (wValue (set_configuration_request c)) :: u8) = c"
  by (simp_all add: set_configuration_request_def recipient_def req_type_def direction_def)
    (rule bit_word_eqI, simp add: bit_simps)

lemma status_in:
  assumes "\<not> direction r" "\<not> ep_busy 0 True u"
  shows "status_stage_xact r u = Some (True, log_dcd (Xfer_In 0 []) (set_busy 0x80 u))"
  using assms by (simp add: status_stage_xact_def usbd_edpt_xfer_def ep_state_def ep_busy_def dcd_edpt_xfer_def set_busy_def
      CFG_TUD_ENDPPOINT_MAX_def)

text \<open>The state after a bus reset, at the speed the controller has found.\<close>

definition after_reset :: "u8 \<Rightarrow> usb \<Rightarrow> usb" where
  "after_reset sp u = upd_dev (\<lambda>v. v\<lparr>speed := sp\<rparr>) (usbd_reset (dcd_bus_reset u))"

lemma bus_reset_event: "Option.bind (usb_step Bus_Reset u) (usbd_event (DCD_EVENT_BUS_RESET sp)) = Some (after_reset sp u)"
  by (simp add: after_reset_def)

definition configured :: "u8 \<Rightarrow> usb \<Rightarrow> usb" where
  "configured c u = upd_dev (\<lambda>v. v\<lparr>cfg_num := c\<rparr>) (upd_dev bind_endpoint (opened (upd_dev cfg_attributes (prepared u))))"

lemma after_reset_ok: "usb_ok u \<Longrightarrow> usb_ok (after_reset sp u)"
proof -
  assume "usb_ok u"
  then have "usb_ok (dcd_bus_reset u)" by (auto simp: dcd_bus_reset_def usb_ok_def sizes_ok_def out_ok_def)
  from usbd_reset_ok [OF usb_ok_at [THEN iffD1, OF this]] show ?thesis by (simp add: after_reset_def usb_at_def)
qed

lemma after_reset_sel [simp]: "cfg_num (usbd_dev (after_reset sp u)) = 0" "hidd_itf (after_reset sp u) = zero_hid"
  "allocated_fifo_words_tx (after_reset sp u) = 16" "grxfsiz (after_reset sp u) = 55"
  "itf2drv (usbd_dev (after_reset sp u)) 0 = DRVID_INVALID" "dcd_log (after_reset sp u) = dcd_log u"
  "ep_status (usbd_dev (after_reset sp u)) = (\<lambda>_ _. zero_edpt)" "\<not> suspended (usbd_dev (after_reset sp u))"
  by (simp_all add: after_reset_def usbd_reset_def usbd_control_reset_def upd_ctrl_def configuration_reset_def hidd_reset_def
      upd_dev_def dcd_bus_reset_def calc_grxfsiz_def zero_dev_def)

lemma prepared_fifo [simp]: "allocated_fifo_words_tx (prepared u) = allocated_fifo_words_tx u" "grxfsiz (prepared u) = grxfsiz u"
  "cfg_num (usbd_dev (prepared u)) = cfg_num (usbd_dev u)" "suspended (usbd_dev (prepared u)) = suspended (usbd_dev u)"
  by (simp_all add: prepared_def usbd_control_set_complete_callback_def upd_ctrl_def free_ep_def upd_ep_def upd_dev_def)

lemma configure_after_reset:
  fixes sp c :: u8 and u :: usb
  assumes c: "c \<noteq> 0"
  defines "r \<equiv> set_configuration_request c" and "v \<equiv> configured c (after_reset sp u)"
  shows "setup_received r (after_reset sp u) = Some (log_dcd (Xfer_In 0 []) (set_busy 0x80
    (upd_ctrl (\<lambda>x. x\<lparr>request := r, buffer := None, total_xferred := 0, data_len := 0\<rparr>) v)))"
proof -
  let ?p = "prepared (after_reset sp u)"
  let ?w = "upd_ctrl (\<lambda>x. x\<lparr>request := r, buffer := None, total_xferred := 0, data_len := 0\<rparr>) v"
  have out: "ep_out (hidd_itf ?p) = 0" "ep_out (hidd_itf (upd_dev cfg_attributes ?p)) = 0"
    by (simp_all add: zero_hid_def upd_dev_def)
  have "process_set_config ?p = Some (True, upd_dev bind_endpoint (opened (upd_dev cfg_attributes ?p)))"
    by (simp add: process_set_config_eq [OF out(1)] set_config_loop_eq [OF out(2)])
      (simp add: upd_dev_def zero_hid_def cfg_attributes_def)
  moreover have "\<not> ep_busy 0 True ?w"
    by (simp add: v_def configured_def ep_busy_def opened_def upd_hid_def upd_dev_def bind_endpoint_def cfg_attributes_def
        prepared_def usbd_control_set_complete_callback_def upd_ctrl_def free_ep_def upd_ep_def)
  ultimately have "set_configuration r ?p = Some (True, log_dcd (Xfer_In 0 []) (set_busy 0x80 ?w))"
    using c set_configuration_bits [of c]
    by (simp add: set_configuration_def r_def v_def tud_control_status_def status_in configured_def)
  then have "process_control_request r (free_ep 0x80 (free_ep 0 (upd_dev (\<lambda>v. v\<lparr>connected := True\<rparr>) (after_reset sp u)))) =
      Some (True, log_dcd (Xfer_In 0 []) (set_busy 0x80 ?w))"
    using set_configuration_bits [of c]
    by (simp add: process_control_request_def Let_def std_device_request_def r_def flip: prepared_def)
  then show ?thesis
    by (simp add: setup_received_def drop_locals_def upd_ctrl_def set_busy_def upd_ep_def log_dcd_def)
qed

definition mouse_report :: "u32 \<Rightarrow> u32 \<Rightarrow> u8 list" where
  "mouse_report x y = [0, get_delta_by_adc_val (sint x), get_delta_by_adc_val (sint y), 0, 0]"

lemma report_sent:
  assumes v: "usb_ok v" "ep_in (hidd_itf v) = 0x81" and free: "\<not> busy (ep_status (usbd_dev v) 1 True)" "\<not> claimed (ep_status (usbd_dev v) 1 True)"
  shows "usb_hid_task_round x y v = Some (True, log_dcd (Xfer_In 1 (mouse_report x y))
    (upd_ep 0x81 (\<lambda>s. s\<lparr>claimed := True, busy := True\<rparr>)
      (upd_hid (\<lambda>h. h\<lparr>epin_buf := patch 0 (mouse_report x y) (epin_buf h)\<rparr>) v)))"
proof -
  let ?b = "mouse_report x y"
  let ?u = "upd_ep 0x81 (\<lambda>_. ep_status (usbd_dev v) 1 True\<lparr>claimed := True\<rparr>) v"
  let ?w = "upd_hid (\<lambda>h. h\<lparr>epin_buf := patch 0 ?b (epin_buf h)\<rparr>) ?u"
  have len: "length (epin_buf (hidd_itf v)) = 64" using v(1) by (simp add: usb_ok_def sizes_ok_def hid_ok_def CFG_TUD_HID_EP_BUFSIZE_def)
  have b: "length ?b = 5" by (simp add: mouse_report_def)
  have claim: "usbd_edpt_claim 0x81 v = Some (True, ?u)"
    using free by (simp add: usbd_edpt_claim_def ep_state_def CFG_TUD_ENDPPOINT_MAX_def tu_edpt_claim_def)
  have rd: "read_mem (Local ?b, 0) 5 ?u = Some ?b" using b by (simp add: read_mem_def)
  have wr: "write_mem (EpinBuf, 0) ?b ?u = Some ?w"
    using len b by (auto simp: write_mem_def upd_hid_def Let_def)
  have "read_mem (EpinBuf, 0) 5 (set_busy 0x81 ?w) = Some ?b"
    using len b patch_prefix [of ?b "epin_buf (hidd_itf v)"] by (simp add: read_mem_def Let_def length_patch upd_hid_def)
  then have "usbd_edpt_xfer 0x81 (Some (EpinBuf, 0)) 5 ?w = Some (True, log_dcd (Xfer_In 1 ?b) (set_busy 0x81 ?w))"
    using free by (simp add: usbd_edpt_xfer_def ep_state_def CFG_TUD_ENDPPOINT_MAX_def dcd_edpt_xfer_def upd_hid_def flip: set_busy_def)
      (simp add: upd_ep_def)
  moreover have "set_busy 0x81 ?w = upd_ep 0x81 (\<lambda>s. s\<lparr>claimed := True, busy := True\<rparr>)
      (upd_hid (\<lambda>h. h\<lparr>epin_buf := patch 0 ?b (epin_buf h)\<rparr>) v)"
    by (simp add: set_busy_def upd_ep_def upd_hid_def)
  ultimately show ?thesis
    using claim rd wr v(2)
    by (simp add: usb_hid_task_round_def tud_hid_n_mouse_report_def tud_hid_n_report_def CFG_TUD_HID_EP_BUFSIZE_def Let_def
        flip: mouse_report_def)
qed

lemma report_refused:
  assumes "ep_in (hidd_itf v) = 0x81" "busy (ep_status (usbd_dev v) 1 True)"
  shows "usb_hid_task_round x y v = Some (False, v)"
  using assms by (simp add: usb_hid_task_round_def tud_hid_n_mouse_report_def tud_hid_n_report_def Let_def usbd_edpt_claim_def
      ep_state_def CFG_TUD_ENDPPOINT_MAX_def tu_edpt_claim_def upd_ep_def)

text \<open>
  C29. The device works as a mouse once it is configured. After a bus reset, \<open>SET_CONFIGURATION\<close> with any number but 0 opens the interrupt
  endpoint, binds it and the interface to the HID driver, answers with the status stage and makes the device ready. Then a
  round of the joystick task sends one report with the position on that endpoint; while the report is on its way further rounds
  send nothing and change nothing, and after the host has taken it the endpoint is ready again.
\<close>

theorem configured_device_reports:
  assumes "usb_ok u" "c \<noteq> 0"
  shows "\<exists>v w. setup_received (set_configuration_request c) (after_reset sp u) = Some v \<and>
    dcd_log v = Xfer_In 0 [] # Open desc_endpoint # dcd_log u \<and> cfg_num (usbd_dev v) = c \<and> hid_bound v \<and>
    ep2drv (usbd_dev v) 1 True = 0 \<and> tud_hid_n_ready v = Some True \<and>
    usb_hid_task_round x y v = Some (True, w) \<and> dcd_log w = Xfer_In 1 (mouse_report x y) # dcd_log v \<and>
    usb_hid_task_round x' y' w = Some (False, w) \<and>
    (\<exists>z. xfer_complete 0x81 5 w = Some z \<and> tud_hid_n_ready z = Some True \<and> dcd_log z = dcd_log w)"
proof -
  let ?r = "set_configuration_request c"
  define v where "v = log_dcd (Xfer_In 0 []) (set_busy 0x80 (upd_ctrl (\<lambda>x. x\<lparr>request := ?r, buffer := None, total_xferred := 0,
    data_len := 0\<rparr>) (configured c (after_reset sp u))))"
  have v: "setup_received ?r (after_reset sp u) = Some v"
    unfolding v_def by (rule configure_after_reset [OF assms(2)])
  have "request_ok ?r" using set_configuration_bits [of c] by (simp add: request_ok_def reads_def serial_request_def)
  then have "safe1 (usbd_q (after_reset sp u), usbd_rhport (after_reset sp u)) (setup_received ?r (after_reset sp u))"
    using after_reset_ok [OF assms(1)] by (intro setup_received_safe) (simp add: usb_at_def)
  then have ok: "usb_ok v" using v by (simp add: usb_at_def)
  note unfold = v_def configured_def opened_def hid_opened_def upd_hid_def upd_ctrl_def upd_dev_def set_busy_def upd_ep_def
    bind_endpoint_def cfg_attributes_def
  have log: "dcd_log v = Xfer_In 0 [] # Open desc_endpoint # dcd_log u" by (simp add: unfold)
  have dev: "cfg_num (usbd_dev v) = c" "\<not> suspended (usbd_dev v)" "ep2drv (usbd_dev v) 1 True = 0" "itf2drv (usbd_dev v) 0 = 0"
    by (simp_all add: unfold)
  have hid: "hid_bound v" "ep_in (hidd_itf v) = 0x81" by (simp_all add: unfold hid_bound_def)
  have ep: "ep_status (usbd_dev v) 1 True = zero_edpt"
    by (simp add: unfold prepared_def usbd_control_set_complete_callback_def free_ep_def)
  define w where "w = log_dcd (Xfer_In 1 (mouse_report x y)) (upd_ep 0x81 (\<lambda>s. s\<lparr>claimed := True, busy := True\<rparr>)
      (upd_hid (\<lambda>h. h\<lparr>epin_buf := patch 0 (mouse_report x y) (epin_buf h)\<rparr>) v))"
  have w: "usb_hid_task_round x y v = Some (True, w)"
    unfolding w_def using ep by (intro report_sent ok hid) (simp_all add: zero_edpt_def)
  have wsel: "ep_in (hidd_itf w) = 0x81" "busy (ep_status (usbd_dev w) 1 True)" "dcd_log w = Xfer_In 1 (mouse_report x y) # dcd_log v"
    using hid(2) by (simp_all add: w_def upd_hid_def) (simp add: upd_ep_def)
  have ready: "tud_hid_n_ready v = Some True"
    using dev hid ep assms(2) by (simp add: tud_hid_n_ready_def tud_ready_def tud_mounted_def tud_suspended_def usbd_edpt_busy_def
        ep_state_def CFG_TUD_ENDPPOINT_MAX_def zero_edpt_def)
  have drv: "ep2drv (usbd_dev (free_ep 0x81 w)) 1 True = 0" "cfg_num (usbd_dev (free_ep 0x81 w)) = c" "\<not> suspended (usbd_dev (free_ep 0x81 w))"
    "\<not> busy (ep_status (usbd_dev (free_ep 0x81 w)) 1 True)"
    using dev by (simp_all add: w_def free_ep_def upd_hid_def upd_ep_def)
  then have "xfer_complete 0x81 5 w = Some (free_ep 0x81 w)" "tud_hid_n_ready (free_ep 0x81 w) = Some True"
    using wsel(1) assms(2) by (simp_all add: xfer_complete_def ep_state_def CFG_TUD_ENDPPOINT_MAX_def get_driver_def hidd_xfer_cb_def
        tud_hid_n_ready_def tud_ready_def tud_mounted_def tud_suspended_def usbd_edpt_busy_def)
  then show ?thesis
    using v log dev hid ready w wsel report_refused [OF wsel(1, 2)] by auto
qed

theorem configured_device_reports_witness:
  "\<exists>v w. setup_received (set_configuration_request 1) (after_reset 0 (tud_init usb_power_on)) = Some v \<and>
    usb_hid_task_round 10 200 v = Some (True, w) \<and> dcd_log w = [Xfer_In 1 [0, -3, 2, 0, 0], Xfer_In 0 [], Open desc_endpoint]"
proof -
  have "mouse_report 10 200 = [0, -3, 2, 0, 0]" by (simp add: mouse_report_def get_delta_by_adc_val_def)
  moreover have "dcd_log (tud_init usb_power_on) = []"
    by (simp add: tud_init_def tud_inited_def usb_power_on_def hidd_init_def hidd_reset_def upd_dev_def)
  ultimately show ?thesis
    using configured_device_reports [OF tud_init_ok, of 1 0 10 200 0 0] by auto
qed

section \<open>Requests and times the code does not guard against\<close>

lemma usbd_edpt_xfer_out:
  assumes "\<not> ep_busy 0 False u"
  shows "usbd_edpt_xfer 0 buf n u = Some (True, log_dcd (Xfer_Out 0 n) ((set_busy 0 u)\<lparr>out_buffer := (out_buffer u)(0 := buf)\<rparr>))"
  using assms by (simp add: usbd_edpt_xfer_def ep_state_def ep_busy_def dcd_edpt_xfer_def set_busy_def CFG_TUD_ENDPPOINT_MAX_def upd_ep_def)

definition local_request :: "tusb_control_request_t \<Rightarrow> bool" where
  "local_request r \<longleftrightarrow> bmRequestType r = 0 \<and> (bRequest r = 0 \<or> bRequest r = 8)"

definition local_pending :: "nat \<Rightarrow> usb \<Rightarrow> bool" where
  "local_pending k v \<longleftrightarrow> \<not> direction (request (ctrl_xfer v)) \<and> (\<exists>b i. buffer (ctrl_xfer v) = Some (Local b, i)) \<and>
     out_buffer v 0 = Some (CtrlBuf, 0) \<and> (\<exists>l. dcd_log v = Xfer_Out 0 k # l) \<and> sizes_ok v"

lemma local_xfer_pending:
  assumes u: "sizes_ok u" "\<not> ep_busy 0 False u" and r: "\<not> direction r" "wLength r \<noteq> 0" and len: "unat len = length b" "b \<noteq> []"
  shows "\<exists>v. tud_control_xfer r (Some (Local b, 0)) len u = Some (True, v) \<and>
    local_pending (min 64 (min (length b) (unat (wLength r)))) (drop_locals v)"
proof -
  have min: "unat (min len (wLength r)) = min (length b) (unat (wLength r))" using len(1) by (simp add: min_def word_le_nat_alt)
  have pos: "min (length b) (unat (wLength r)) \<noteq> 0" using r(2) len(2) by (auto simp: unat_eq_0 min_def unat_gt_0)
  let ?v = "upd_ctrl (\<lambda>x. x\<lparr>request := r, buffer := Some (Local b, 0), total_xferred := 0, data_len := min len (wLength r)\<rparr>) u"
  have "\<not> ep_busy 0 False ?v" using u(2) by simp
  note x = usbd_edpt_xfer_out [OF this]
  have "data_stage_xact ?v = usbd_edpt_xfer 0 (Some (CtrlBuf, 0)) (min 64 (min (length b) (unat (wLength r)))) ?v"
    using r min pos by (simp add: data_stage_xact_def Let_def upd_ctrl_def CFG_TUD_ENDPOINT0_SIZE_def min.commute min.left_commute)
  then have "tud_control_xfer r (Some (Local b, 0)) len u =
      Some (True, log_dcd (Xfer_Out 0 (min 64 (min (length b) (unat (wLength r))))) ((set_busy 0 ?v)\<lparr>out_buffer := (out_buffer ?v)(0 := Some (CtrlBuf, 0))\<rparr>))"
    using r(2) x by (simp add: tud_control_xfer_def word_greater_zero_iff)
  then show ?thesis
    using u(1) r(1)
    by (auto simp: local_pending_def drop_locals_def end_of_scope_def log_dcd_def set_busy_def upd_ep_def upd_ctrl_def sizes_ok_def)
qed

lemma local_request_pending:
  assumes u: "sizes_ok u" and r: "local_request r" "wLength r \<noteq> 0"
  shows "\<exists>v. setup_received r u = Some v \<and> (\<exists>k. 0 < k \<and> k \<le> unat (wLength r) \<and> local_pending k v)"
proof -
  have bits: "recipient r = 0" "req_type r = 0" "\<not> direction r"
    using r(1) by (simp_all add: local_request_def recipient_def req_type_def direction_def)
  have ex: "\<exists>b len. std_device_request r (prepared u) = Option.bind (tud_control_xfer r (Some (Local b, 0)) len (prepared u))
      (\<lambda>(_, u). Some (True, u)) \<and> unat len = length b \<and> b \<noteq> []"
  proof (cases "bRequest r = 8")
    case True
    then show ?thesis by (intro exI [of _ "[cfg_num (usbd_dev (prepared u))]"] exI [of _ 1]) (simp add: std_device_request_def)
  next
    case False
    then have "bRequest r = 0" using r(1) by (simp add: local_request_def)
    then show ?thesis
      by (intro exI [of _ "[(if self_powered (usbd_dev (prepared u)) then 1 else 0) OR
          (if remote_wakeup_en (usbd_dev (prepared u)) then 2 else 0), 0]"] exI [of _ 2])
        (simp add: std_device_request_def Let_def)
  qed
  then obtain b len where b: "std_device_request r (prepared u) = Option.bind (tud_control_xfer r (Some (Local b, 0)) len (prepared u))
      (\<lambda>(_, u). Some (True, u))" "unat len = length b" "b \<noteq> []" by blast
  from u have "sizes_ok (prepared u)" by simp
  from local_xfer_pending [OF this _ bits(3) r(2) b(2, 3)] obtain v
    where v: "tud_control_xfer r (Some (Local b, 0)) len (prepared u) = Some (True, v)"
      "local_pending (min 64 (min (length b) (unat (wLength r)))) (drop_locals v)" by auto
  have "process_control_request r (free_ep 0x80 (free_ep 0 (upd_dev (\<lambda>v. v\<lparr>connected := True\<rparr>) u))) = std_device_request r (prepared u)"
    using bits by (simp add: process_control_request_def Let_def flip: prepared_def)
  then have "setup_received r u = Some (drop_locals v)" using b(1) v(1) by (simp add: setup_received_def)
  moreover have "0 < unat (wLength r)" using r(2) by (simp add: unat_gt_0)
  then have "0 < min 64 (min (length b) (unat (wLength r)))" using b(3) by simp
  ultimately show ?thesis using v(2)
    by (intro exI [of _ "drop_locals v"] conjI exI [of _ "min 64 (min (length b) (unat (wLength r)))"]) auto
qed

lemma local_write_undefined:
  assumes v: "local_pending k v" and b: "b \<noteq> []" "length b \<le> 64"
  shows "\<exists>w. dcd_receive 0 b v = Some w \<and> xfer_complete 0 (of_nat (length b)) w = None"
proof -
  have sz: "length (usbd_ctrl_buf v) = 64" using v by (simp add: local_pending_def sizes_ok_def CFG_TUD_ENDPOINT0_SIZE_def)
  define w where "w = v\<lparr>usbd_ctrl_buf := patch 0 b (usbd_ctrl_buf v), out_buffer := (out_buffer v)(0 := Some (CtrlBuf, length b))\<rparr>"
  have w: "dcd_receive 0 b v = Some w"
    using v b sz by (auto simp: dcd_receive_def local_pending_def write_mem_def w_def Let_def)
  have len: "unat (of_nat (length b) :: u32) = length b" using b(2) by (intro unat_of_nat_less) simp
  let ?w = "free_ep 0 w"
  have rd: "read_mem (CtrlBuf, 0) (length b) ?w = Some b"
    using sz b patch_prefix [of b "usbd_ctrl_buf v"] by (simp add: read_mem_def Let_def w_def free_ep_def length_patch)
  obtain c i where c: "buffer (ctrl_xfer ?w) = Some (Local c, i)" "\<not> direction (request (ctrl_xfer ?w))"
    using v by (auto simp: local_pending_def w_def)
  have "write_mem (Local c, i) b ?w = None" using b(1) by (simp add: write_mem_def Let_def)
  then have "usbd_control_xfer_cb 0 (of_nat (length b)) ?w = None"
    using c rd len by (simp add: usbd_control_xfer_cb_def Let_def)
  then show ?thesis using w by (simp add: xfer_complete_def ep_state_def CFG_TUD_ENDPPOINT_MAX_def)
qed

lemma local_request_undefined:
  assumes "usb_ok u" "local_request r" "wLength r \<noteq> 0" "b \<noteq> []" "length b \<le> 64"
  shows "\<exists>v k. setup_received r u = Some v \<and> hd (dcd_log v) = Xfer_Out 0 k \<and> 0 < k \<and>
    (\<exists>w. dcd_receive 0 b v = Some w \<and> xfer_complete 0 (of_nat (length b)) w = None)"
proof -
  obtain v k where v: "setup_received r u = Some v" "0 < k" "local_pending k v"
    using local_request_pending [of u r] assms by (auto simp: usb_ok_def)
  moreover have "hd (dcd_log v) = Xfer_Out 0 k" using v(3) by (auto simp: local_pending_def)
  ultimately show ?thesis using local_write_undefined [OF v(3)] assms by blast
qed

lemma serial_request_undefined:
  assumes "bmRequestType s = 0x80" "bRequest s = 6" "wValue s = 0x0303"
  shows "setup_received s u = None"
proof -
  have "tu_u16_high 0x0303 = 3" "tu_u16_low 0x0303 = 3" by (simp_all add: tu_u16_high_def tu_u16_low_def)
  then have "process_get_descriptor s (prepared u) = None"
    by (simp add: process_get_descriptor_def Let_def assms(3) tud_descriptor_string_cb_def string_desc_arr_def)
  then show ?thesis using get_descriptor_request(1) [of s u] assms(1, 2) by (simp add: setup_received_def)
qed

text \<open>
  C31. Two kinds of requests lead to undefined behaviour in any well-formed state. First, \<open>GET_STATUS\<close> or \<open>GET_CONFIGURATION\<close> sent with
  the direction bit OUT: the stack does not check the direction, starts to receive, and when the bytes of the host arrive it
  copies them through a pointer to a local variable of a function that has returned. Second, the string of the serial number, which
  the device descriptor announces: its entry in the table is a null pointer, whose string length is taken.
\<close>

theorem unguarded_requests_undefined:
  assumes "usb_ok u"
  shows "(local_request r \<and> wLength r \<noteq> 0 \<and> b \<noteq> [] \<and> length b \<le> 64 \<longrightarrow>
      (\<exists>v k. setup_received r u = Some v \<and> hd (dcd_log v) = Xfer_Out 0 k \<and> 0 < k \<and>
        (\<exists>w. dcd_receive 0 b v = Some w \<and> xfer_complete 0 (of_nat (length b)) w = None))) \<and>
    (bmRequestType s = 0x80 \<and> bRequest s = 6 \<and> wValue s = 0x0300 + ucast (desc_device ! 16) \<longrightarrow> setup_received s u = None)"
  using local_request_undefined [OF assms, of r b] serial_request_undefined [of s u] by (auto simp: desc_device_def)

theorem unguarded_requests_undefined_witness:
  "(\<exists>v k. setup_received \<lparr>bmRequestType = 0, bRequest = 0, wValue = 0, wIndex = 0, wLength = 2\<rparr> (tud_init usb_power_on) = Some v \<and>
      hd (dcd_log v) = Xfer_Out 0 k \<and> 0 < k \<and>
      (\<exists>w. dcd_receive 0 [0xde, 0xad] v = Some w \<and> xfer_complete 0 (of_nat (length [0xde, 0xad :: u8])) w = None)) \<and>
   setup_received \<lparr>bmRequestType = 0x80, bRequest = 6, wValue = 0x0303, wIndex = 0x0409, wLength = 255\<rparr> (tud_init usb_power_on) = None"
proof -
  let ?r = "\<lparr>bmRequestType = 0, bRequest = 0, wValue = 0, wIndex = 0, wLength = 2\<rparr>"
  let ?s = "\<lparr>bmRequestType = 0x80, bRequest = 6, wValue = 0x0303, wIndex = 0x0409, wLength = 255\<rparr>"
  have r: "local_request ?r \<and> wLength ?r \<noteq> 0 \<and> [0xde, 0xad :: u8] \<noteq> [] \<and> length [0xde, 0xad :: u8] \<le> 64"
    by (simp add: local_request_def)
  have s: "bmRequestType ?s = 0x80 \<and> bRequest ?s = 6 \<and> wValue ?s = 0x0300 + ucast (desc_device ! 16)"
    by (simp add: desc_device_def)
  show ?thesis using unguarded_requests_undefined [OF tud_init_ok, of ?r "[0xde, 0xad]" ?s] r s by blast
qed

text \<open>
  The joystick task does not ask whether the device is ready. Before the configuration the address of its endpoint is still 0, so that
  a round starts an OUT transfer of 5 bytes on the control endpoint, into the buffer of the report, and reports success; from then
  on the status stage of a control read is refused.
\<close>

theorem report_before_configuration:
  assumes "usb_ok u" "ep_in (hidd_itf u) = 0" "\<not> ep_busy 0 False u" "\<not> claimed (ep_status (usbd_dev u) 0 False)"
  shows "\<exists>w. usb_hid_task_round x y u = Some (True, w) \<and> dcd_log w = Xfer_Out 0 5 # dcd_log u \<and> out_buffer w 0 = Some (EpinBuf, 0) \<and>
    (\<forall>r. direction r \<longrightarrow> status_stage_xact r w = Some (False, w))"
proof -
  let ?b = "mouse_report x y"
  let ?u = "upd_ep 0 (\<lambda>_. ep_status (usbd_dev u) 0 False\<lparr>claimed := True\<rparr>) u"
  let ?w = "upd_hid (\<lambda>h. h\<lparr>epin_buf := patch 0 ?b (epin_buf h)\<rparr>) ?u"
  have len: "length (epin_buf (hidd_itf u)) = 64"
    using assms(1) by (simp add: usb_ok_def sizes_ok_def hid_ok_def CFG_TUD_HID_EP_BUFSIZE_def)
  have b: "length ?b = 5" by (simp add: mouse_report_def)
  have claim: "usbd_edpt_claim 0 u = Some (True, ?u)"
    using assms(3, 4) by (simp add: usbd_edpt_claim_def ep_state_def CFG_TUD_ENDPPOINT_MAX_def tu_edpt_claim_def ep_busy_def)
  have rd: "read_mem (Local ?b, 0) 5 ?u = Some ?b" using b by (simp add: read_mem_def)
  have wr: "write_mem (EpinBuf, 0) ?b ?u = Some ?w"
    using len b by (auto simp: write_mem_def upd_hid_def Let_def)
  have "\<not> ep_busy 0 False ?w" using assms(3) by (simp add: ep_busy_def upd_hid_def) (simp add: upd_ep_def)
  note x = usbd_edpt_xfer_out [OF this, of "Some (EpinBuf, 0)" 5]
  define w where "w = log_dcd (Xfer_Out 0 5) ((set_busy 0 ?w)\<lparr>out_buffer := (out_buffer ?w)(0 := Some (EpinBuf, 0))\<rparr>)"
  have "usb_hid_task_round x y u = Some (True, w)"
    using claim rd wr x assms(2)
    by (simp add: usb_hid_task_round_def tud_hid_n_mouse_report_def tud_hid_n_report_def CFG_TUD_HID_EP_BUFSIZE_def Let_def w_def
        flip: mouse_report_def)
  moreover have "dcd_log w = Xfer_Out 0 5 # dcd_log u" "out_buffer w 0 = Some (EpinBuf, 0)" "busy (ep_status (usbd_dev w) 0 False)"
    by (simp_all add: w_def upd_hid_def log_dcd_def set_busy_def upd_ep_def)
  ultimately show ?thesis
    by (auto simp: status_stage_xact_def usbd_edpt_xfer_def ep_state_def CFG_TUD_ENDPPOINT_MAX_def)
qed

theorem report_before_configuration_witness:
  "\<exists>w. usb_hid_task_round 10 200 (tud_init usb_power_on) = Some (True, w) \<and>
    dcd_log w = Xfer_Out 0 5 # dcd_log (tud_init usb_power_on) \<and> out_buffer w 0 = Some (EpinBuf, 0) \<and>
    (\<forall>r. direction r \<longrightarrow> status_stage_xact r w = Some (False, w))"
  by (rule report_before_configuration [OF tud_init_ok])
    (simp_all add: tud_init_def tud_inited_def usb_power_on_def hidd_init_def hidd_reset_def upd_dev_def zero_hid_def zero_dev_def
      ep_busy_def zero_edpt_def)

text \<open>
  Setting or clearing the halt of an endpoint that has no driver is not answered at all: neither a status stage nor a stall of the
  control endpoint follows the request, so that the host waits until it gives up.
\<close>

lemma endpoint_halt_unanswered:
  assumes r: "bmRequestType r = 2" "bRequest r = 1 \<or> bRequest r = 3"
    and a: "tu_edpt_number (tu_u16_low (wIndex r)) < CFG_TUD_ENDPPOINT_MAX"
    and drv: "ep2drv (usbd_dev u) (tu_edpt_number (tu_u16_low (wIndex r))) (tu_edpt_dir (tu_u16_low (wIndex r))) \<noteq> 0"
  shows "\<exists>v. setup_received r u = Some v \<and>
    dcd_log v \<in> {dcd_log u, Stall (tu_u16_low (wIndex r)) # dcd_log u, Clear_Stall (tu_u16_low (wIndex r)) # dcd_log u}"
proof -
  let ?a = "tu_u16_low (wIndex r)"
  have bits: "recipient r = 2" "req_type r = 0" using r(1) by (simp_all add: recipient_def req_type_def)
  have drv': "\<not> get_driver (ep2drv (usbd_dev (prepared u)) (tu_edpt_number ?a) (tu_edpt_dir ?a))"
    using drv by (simp add: get_driver_def prepared_def usbd_control_set_complete_callback_def upd_ctrl_def free_ep_def upd_ep_def upd_dev_def)
  have "\<exists>v. endpoint_request r (prepared u) = Some (True, v) \<and> dcd_log v \<in> {dcd_log u, Stall ?a # dcd_log u, Clear_Stall ?a # dcd_log u}"
    using r(2) bits a drv'
    by (auto simp: endpoint_request_def Let_def usbd_edpt_clear_stall_def usbd_edpt_stall_def ep_state_def)
  then obtain v where v: "endpoint_request r (prepared u) = Some (True, v)"
      "dcd_log v \<in> {dcd_log u, Stall ?a # dcd_log u, Clear_Stall ?a # dcd_log u}" by blast
  have "process_control_request r (free_ep 0x80 (free_ep 0 (upd_dev (\<lambda>v. v\<lparr>connected := True\<rparr>) u))) = Some (True, v)"
    using bits v(1) by (simp add: process_control_request_def Let_def flip: prepared_def)
  then show ?thesis using v(2) by (simp add: setup_received_def drop_locals_def upd_ctrl_def)
qed

end
