(* ===== verification/Task_Info.thy ===== *)
theory Task_Info
  imports Kernel_Timers Kernel_Heap
begin

text \<open>
  The rest of \<open>FreeRTOS/tasks.c\<close>: starting the scheduler, the idle task and the memory of deleted tasks, and the functions that
  tell about tasks. Names, stacks and the numbers that a trace tool gives to tasks are kept beside the kernel in \<open>task_info\<close>.
\<close>

section \<open>Queries\<close>

definition uxTaskPriorityGet :: "tid option \<Rightarrow> 'z kernel_scheme \<Rightarrow> UBaseType_t option" where
  "uxTaskPriorityGet xTask k = map_option (prio k) (get_tcb xTask k)"

definition uxTaskPriorityGetFromISR :: "tid option \<Rightarrow> 'z kernel_scheme \<Rightarrow> UBaseType_t option" where
  "uxTaskPriorityGetFromISR xTask k = map_option (prio k) (get_tcb xTask k)"

definition xTaskGetTickCount :: "'z kernel_scheme \<Rightarrow> TickType_t" where "xTaskGetTickCount k = xTickCount k"
definition xTaskGetTickCountFromISR :: "'z kernel_scheme \<Rightarrow> TickType_t" where "xTaskGetTickCountFromISR k = xTickCount k"
definition uxTaskGetNumberOfTasks :: "'z kernel_scheme \<Rightarrow> UBaseType_t" where "uxTaskGetNumberOfTasks k = uxCurrentNumberOfTasks k"
definition xTaskGetCurrentTaskHandle :: "'z kernel_scheme \<Rightarrow> tid option" where "xTaskGetCurrentTaskHandle k = pxCurrentTCB k"
definition vTaskSetTimeOutState :: "'z kernel_scheme \<Rightarrow> TimeOut_t" where
  "vTaskSetTimeOutState k = \<lparr>xOverflowCount = xNumOfOverflows k, xTimeOnEntering = xTickCount k\<rparr>"

record task_info =
  pcTaskName :: "tid \<Rightarrow> string"
  task_numbers :: "tid \<Rightarrow> UBaseType_t"
  stack_base :: "tid \<Rightarrow> u32"             \<comment> \<open>\<open>pxStack\<close>\<close>
  stacks :: "tid \<Rightarrow> u8 list"            \<comment> \<open>the bytes of the stack from \<open>pxStack\<close> upwards\<close>

definition pcTaskGetName :: "task_info \<Rightarrow> tid option \<Rightarrow> 'z kernel_scheme \<Rightarrow> string option" where
  "pcTaskGetName i xTaskToQuery k = map_option (pcTaskName i) (get_tcb xTaskToQuery k)"

definition uxTaskGetTaskNumber :: "task_info \<Rightarrow> tid option \<Rightarrow> UBaseType_t" where
  "uxTaskGetTaskNumber i xTask = (case xTask of Some t \<Rightarrow> task_numbers i t | None \<Rightarrow> 0)"

definition vTaskSetTaskNumber :: "tid option \<Rightarrow> UBaseType_t \<Rightarrow> task_info \<Rightarrow> task_info" where
  "vTaskSetTaskNumber xTask uxHandle i =
     (case xTask of Some t \<Rightarrow> i\<lparr>task_numbers := (task_numbers i)(t := uxHandle)\<rparr> | None \<Rightarrow> i)"

text \<open>The unused part of a stack still holds the fill byte; a walk that leaves the stack is undefined.\<close>

definition tskSTACK_FILL_BYTE :: u8 where "tskSTACK_FILL_BYTE = 0xa5"

fun count_fill :: "u8 list \<Rightarrow> nat option" where
  "count_fill [] = None"
| "count_fill (b # bs) = (if b = tskSTACK_FILL_BYTE then map_option Suc (count_fill bs) else Some 0)"

definition prvTaskCheckFreeStackSpace :: "u8 list \<Rightarrow> u16 option" where
  "prvTaskCheckFreeStackSpace bs = map_option (\<lambda>n. ucast ((of_nat n :: u32) div 4)) (count_fill bs)"

definition uxTaskGetStackHighWaterMark :: "task_info \<Rightarrow> tid option \<Rightarrow> 'z kernel_scheme \<Rightarrow> UBaseType_t option" where
  "uxTaskGetStackHighWaterMark i xTask k = do {
     t \<leftarrow> get_tcb xTask k;
     n \<leftarrow> prvTaskCheckFreeStackSpace (stacks i t);
     Some (ucast n)
   }"

section \<open>The state of the system\<close>

record TaskStatus_t =
  xHandle :: tid
  status_name :: string
  xTaskNumber :: UBaseType_t
  eCurrentState :: eTaskState
  uxCurrentPriority :: UBaseType_t
  status_base :: UBaseType_t              \<comment> \<open>\<open>uxBasePriority\<close>\<close>
  ulRunTimeCounter :: u32
  pxStackBase :: u32
  usStackHighWaterMark :: u16

text \<open>\<open>None\<close> as state is \<open>eInvalid\<close>: the state is found out.\<close>

definition vTaskGetInfo ::
  "task_info \<Rightarrow> tid option \<Rightarrow> bool \<Rightarrow> eTaskState option \<Rightarrow> 'z kernel_scheme \<Rightarrow> (TaskStatus_t \<times> 'z kernel_scheme) option" where
  "vTaskGetInfo i xTask xGetFreeStackSpace eState k = do {
     t \<leftarrow> get_tcb xTask k;
     (s, k) \<leftarrow> (case eState of
         None \<Rightarrow> Some (eTaskGetState t k, k)
       | Some e \<Rightarrow>
           if Some t = pxCurrentTCB k then Some (eRunning, k)
           else if e = eSuspended then do {
             let k = vTaskSuspendAll k;
             let s = (if event_list (tcbs k t) \<noteq> None then eBlocked else e);
             (_, k) \<leftarrow> xTaskResumeAll k;
             Some (s, k)
           }
           else Some (e, k));
     mark \<leftarrow> (if xGetFreeStackSpace then prvTaskCheckFreeStackSpace (stacks i t) else Some 0);
     Some (\<lparr>xHandle = t, status_name = pcTaskName i t, xTaskNumber = uxTCBNumber (tcbs k t), eCurrentState = s,
            uxCurrentPriority = prio k t, status_base = uxBasePriority (tcbs k t), ulRunTimeCounter = 0,
            pxStackBase = stack_base i t, usStackHighWaterMark = mark\<rparr>, k)
   }"

text \<open>The array has \<open>n\<close> elements, of which \<open>acc\<close> are filled; writing past its end is undefined.\<close>

definition next_owner :: "list_id \<Rightarrow> 'z kernel_scheme \<Rightarrow> (tid \<times> 'z kernel_scheme) option" where
  "next_owner l k = do {
     let k = upd_list l kl_advance k;
     t \<leftarrow> kindex (task_lists k l);
     Some (t, k)
   }"

partial_function (option) list_loop ::
  "task_info \<Rightarrow> nat \<Rightarrow> list_id \<Rightarrow> eTaskState \<Rightarrow> tid \<Rightarrow> TaskStatus_t list \<Rightarrow> 'z kernel_scheme \<Rightarrow> (TaskStatus_t list \<times> 'z kernel_scheme) option" where
  "list_loop i n l e pxFirstTCB acc k = do {
     (pxNextTCB, k) \<leftarrow> next_owner l k;
     if \<not> length acc < n then None
     else do {
       (s, k) \<leftarrow> vTaskGetInfo i (Some pxNextTCB) True (Some e) k;
       if pxNextTCB \<noteq> pxFirstTCB then list_loop i n l e pxFirstTCB (acc @ [s]) k else Some (acc @ [s], k)
     }
   }"

definition prvListTasksWithinSingleList ::
  "task_info \<Rightarrow> nat \<Rightarrow> list_id \<Rightarrow> eTaskState \<Rightarrow> TaskStatus_t list \<Rightarrow> 'z kernel_scheme \<Rightarrow> (TaskStatus_t list \<times> 'z kernel_scheme) option" where
  "prvListTasksWithinSingleList i n l e acc k =
     (if members k l \<noteq> [] then do {
        (pxFirstTCB, k) \<leftarrow> next_owner l k;
        list_loop i n l e pxFirstTCB acc k
      } else Some (acc, k))"

fun list_ready ::
  "task_info \<Rightarrow> nat \<Rightarrow> nat \<Rightarrow> TaskStatus_t list \<Rightarrow> 'z kernel_scheme \<Rightarrow> (TaskStatus_t list \<times> 'z kernel_scheme) option" where
  "list_ready i n 0 acc k = Some (acc, k)"
| "list_ready i n (Suc p) acc k = do {
     (acc, k) \<leftarrow> prvListTasksWithinSingleList i n (Ready (of_nat p)) eReady acc k;
     list_ready i n p acc k
   }"

definition uxTaskGetSystemState ::
  "task_info \<Rightarrow> UBaseType_t \<Rightarrow> 'z kernel_scheme \<Rightarrow> (TaskStatus_t list \<times> 'z kernel_scheme) option" where
  "uxTaskGetSystemState i uxArraySize k = do {
     let k = vTaskSuspendAll k;
     let n = unat uxArraySize;
     (acc, k) \<leftarrow> (if uxArraySize \<ge> uxCurrentNumberOfTasks k then do {
         (acc, k) \<leftarrow> list_ready i n (unat configMAX_PRIORITIES) [] k;
         (acc, k) \<leftarrow> prvListTasksWithinSingleList i n (pxDelayedTaskList k) eBlocked acc k;
         (acc, k) \<leftarrow> prvListTasksWithinSingleList i n (pxOverflowDelayedTaskList k) eBlocked acc k;
         (acc, k) \<leftarrow> prvListTasksWithinSingleList i n TasksWaitingTermination eDeleted acc k;
         prvListTasksWithinSingleList i n SuspendedTaskList eSuspended acc k
       } else Some ([], k));
     (_, k) \<leftarrow> xTaskResumeAll k;
     Some (acc, k)
   }"

section \<open>The memory of deleted tasks\<close>

text \<open>A kernel with the heap, the blocks of each task and the C library contexts that are in use.\<close>

record mkernel = hkernel +
  pxStack :: "tid \<Rightarrow> u32"
  tcb_addr :: "tid \<Rightarrow> u32"
  xTLSBlock :: "tid \<Rightarrow> bool"

definition prvDeleteTCB :: "tid \<Rightarrow> 'z mkernel_scheme \<Rightarrow> 'z mkernel_scheme option" where
  "prvDeleteTCB t k = do {
     c \<leftarrow> pxCurrentTCB k;
     let k = k\<lparr>xTLSBlock := (xTLSBlock k)(c := False)\<rparr>;
     k \<leftarrow> vPortFree (pxStack k t) k;
     vPortFree (tcb_addr k t) k
   }"

text \<open>\<open>vTaskDelete\<close> with the release of the memory: at once, or by the idle task when a task deletes itself.\<close>

definition vTaskDelete_mem :: "tid option \<Rightarrow> 'z mkernel_scheme \<Rightarrow> 'z mkernel_scheme option" where
  "vTaskDelete_mem xTaskToDelete k = do {
     t \<leftarrow> get_tcb xTaskToDelete k;
     k' \<leftarrow> vTaskDelete xTaskToDelete k;
     if Some t \<noteq> pxCurrentTCB k then prvDeleteTCB t k' else Some k'
   }"

partial_function (option) clean_up_loop :: "'z mkernel_scheme \<Rightarrow> 'z mkernel_scheme option" where
  "clean_up_loop k =
     (if uxDeletedTasksWaitingCleanUp k > 0 then do {
        t \<leftarrow> head_owner TasksWaitingTermination k;
        k \<leftarrow> remove_state_item t k;
        k \<leftarrow> prvDeleteTCB t (k\<lparr>uxCurrentNumberOfTasks := uxCurrentNumberOfTasks k - 1,
             uxDeletedTasksWaitingCleanUp := uxDeletedTasksWaitingCleanUp k - 1\<rparr>);
        clean_up_loop k
      } else Some k)"

definition prvIdleTask_round :: "'z mkernel_scheme \<Rightarrow> 'z mkernel_scheme option" where
  "prvIdleTask_round k = do {
     k \<leftarrow> clean_up_loop k;
     Some (if length (members k (Ready tskIDLE_PRIORITY)) > 1 then portYIELD k else k)
   }"

section \<open>Starting the scheduler\<close>

text \<open>
  \<open>alloc_i\<close>, \<open>alloc_q\<close> and \<open>alloc_t\<close> are what the allocator returned for the idle task, the queue and the task of the timers. The first
  task is started by the port, which does not return.
\<close>

definition vTaskStartScheduler ::
  "tid option \<Rightarrow> (nat \<times> u8 list) option \<Rightarrow> tid option \<Rightarrow> 'z tkernel_scheme \<Rightarrow> 'z tkernel_scheme option" where
  "vTaskStartScheduler alloc_i alloc_q alloc_t k = do {
     (xReturn, k) \<leftarrow> xTaskCreate alloc_i tskIDLE_PRIORITY k;
     (xReturn, k) \<leftarrow> (if xReturn = 1 then xTimerCreateTimerTask alloc_q alloc_t k else Some (xReturn, k));
     if xReturn = 1 then
       Some (k\<lparr>xNextTaskUnblockTime := portMAX_DELAY, xSchedulerRunning := True, xTickCount := 0\<rparr>)
     else do {
       configASSERT (xReturn \<noteq> -1);
       Some k
     }
   }"

definition vTaskEndScheduler :: "'z kernel_scheme \<Rightarrow> 'z kernel_scheme" where
  "vTaskEndScheduler k = k\<lparr>xSchedulerRunning := False\<rparr>"

declare list_loop.simps [code] clean_up_loop.simps [code]

end
