(* ===== verification/Task_Props.thy ===== *)
theory Task_Props
  imports Task_Info Heap_Props "HOL-Library.Multiset"
begin

text \<open>
  Properties of theory \<open>Task_Info\<close>: the report of the state of all tasks, and the start of the system from the first \<open>xTaskCreate\<close>
  to the running scheduler.
\<close>

section \<open>Walking the lists\<close>

text \<open>A walk moves the cursors of lists and nothing else.\<close>

definition browsed :: "'z kernel_scheme \<Rightarrow> 'z kernel_scheme \<Rightarrow> bool" where
  "browsed k k' \<longleftrightarrow> k' = k\<lparr>task_lists := task_lists k'\<rparr> \<and>
     (\<forall>l. members k' l = members k l \<and> (kl_wf (task_lists k l) \<longrightarrow> kl_wf (task_lists k' l)))"

lemma browsed_refl [simp]: "browsed k k"
  by (simp add: browsed_def)

lemma browsed_fields:
  assumes "browsed k k'"
  shows "tcbs k' = tcbs k" "pxCurrentTCB k' = pxCurrentTCB k" "uxSchedulerSuspended k' = uxSchedulerSuspended k"
    "pxDelayedTaskList k' = pxDelayedTaskList k" "pxOverflowDelayedTaskList k' = pxOverflowDelayedTaskList k"
    "xPendedTicks k' = xPendedTicks k" "uxCurrentNumberOfTasks k' = uxCurrentNumberOfTasks k"
    "xTickCount k' = xTickCount k" "xNextTaskUnblockTime k' = xNextTaskUnblockTime k"
    "uxTopReadyPriority k' = uxTopReadyPriority k" "kernel.more k' = kernel.more k" "members k' l = members k l"
    "kl_wf (task_lists k l) \<Longrightarrow> kl_wf (task_lists k' l)"
proof -
  have e: "k' = k\<lparr>task_lists := task_lists k'\<rparr>" using assms by (simp add: browsed_def)
  show "tcbs k' = tcbs k" "pxCurrentTCB k' = pxCurrentTCB k" "uxSchedulerSuspended k' = uxSchedulerSuspended k"
    "pxDelayedTaskList k' = pxDelayedTaskList k" "pxOverflowDelayedTaskList k' = pxOverflowDelayedTaskList k"
    "xPendedTicks k' = xPendedTicks k" "uxCurrentNumberOfTasks k' = uxCurrentNumberOfTasks k"
    "xTickCount k' = xTickCount k" "xNextTaskUnblockTime k' = xNextTaskUnblockTime k"
    "uxTopReadyPriority k' = uxTopReadyPriority k" "kernel.more k' = kernel.more k"
    by (subst e, simp)+
qed (use assms in \<open>auto simp: browsed_def\<close>)

lemma browsed_trans:
  assumes "browsed a b" "browsed b c"
  shows "browsed a c"
proof -
  have "b = a\<lparr>task_lists := task_lists b\<rparr>" "c = b\<lparr>task_lists := task_lists c\<rparr>"
    using assms by (simp_all add: browsed_def)
  then have "c = a\<lparr>task_lists := task_lists c\<rparr>" by (metis kernel.update_convs(2) kernel.surjective kernel.select_convs(2))
  with assms show ?thesis by (simp add: browsed_def)
qed

lemma browsed_inv:
  assumes "browsed k k'" "sched_inv k"
  shows "sched_inv k'"
  using assms(2)
  unfolding inv_defs lists_ok_def ready_ok_def delayed_ok_def browsed_fields [OF assms(1)]
  by (auto intro: browsed_fields(13) [OF assms(1)])

lemma browsed_advance:
  assumes "kl_wf (task_lists k l)" "members k l \<noteq> []"
  shows "browsed k (upd_list l kl_advance k)"
  using kl_advance_wf [OF assms] by (auto simp: browsed_def upd_list_def)

lemma next_owner_eq:
  assumes "kl_wf (task_lists k l)" "members k l \<noteq> []"
  shows "next_owner l k = Some (members k l ! kl_pos (task_lists k l), upd_list l kl_advance k)"
  using kl_next_pos [OF assms] by (simp add: next_owner_def upd_list_def kl_advance_def)

text \<open>What the report says of a task that is found on a list of state \<open>e\<close>.\<close>

definition listed_state :: "'z kernel_scheme \<Rightarrow> eTaskState \<Rightarrow> tid \<Rightarrow> eTaskState" where
  "listed_state k e t = (if pxCurrentTCB k = Some t then eRunning
     else if e = eSuspended \<and> event_list (tcbs k t) \<noteq> None then eBlocked else e)"

definition status_entry :: "task_info \<Rightarrow> 'z kernel_scheme \<Rightarrow> eTaskState \<Rightarrow> tid \<Rightarrow> TaskStatus_t" where
  "status_entry i k e t = \<lparr>xHandle = t, status_name = pcTaskName i t, xTaskNumber = uxTCBNumber (tcbs k t),
     eCurrentState = e, uxCurrentPriority = prio k t, status_base = uxBasePriority (tcbs k t), ulRunTimeCounter = 0,
     pxStackBase = stack_base i t, usStackHighWaterMark = the (prvTaskCheckFreeStackSpace (stacks i t))\<rparr>"

definition stack_marked :: "task_info \<Rightarrow> tid \<Rightarrow> bool" where
  "stack_marked i t \<longleftrightarrow> count_fill (stacks i t) \<noteq> None"

lemma vTaskGetInfo_listed:
  assumes "uxSchedulerSuspended k = 1" "stack_marked i t"
  shows "vTaskGetInfo i (Some t) True (Some e) k = Some (status_entry i k (listed_state k e t) t, k)"
  using assms
  by (auto simp: vTaskGetInfo_def get_tcb_def listed_state_def status_entry_def stack_marked_def prvTaskCheckFreeStackSpace_def
      vTaskSuspendAll_def xTaskResumeAll_def configASSERT_def Let_def split: option.splits)

lemma status_browsed:
  assumes "browsed k k'"
  shows "status_entry i k' (listed_state k' e t) t = status_entry i k (listed_state k e t) t"
  by (simp add: status_entry_def listed_state_def browsed_fields [OF assms])

lemma list_loop_eq:
  assumes "uxSchedulerSuspended k = 1" "kl_wf (task_lists k l)" "\<And>t. t \<in> set (members k l) \<Longrightarrow> stack_marked i t"
    "r < length (members k l)" "length acc + Suc r \<le> n"
    "pxFirstTCB = members k l ! ((kl_pos (task_lists k l) + r) mod length (members k l))"
  shows "\<exists>k'. list_loop i n l e pxFirstTCB acc k = Some (acc @ map (\<lambda>t. status_entry i k (listed_state k e t) t)
      (map (\<lambda>j. members k l ! ((kl_pos (task_lists k l) + j) mod length (members k l))) [0..<Suc r]), k') \<and> browsed k k'"
  using assms
proof (induction r arbitrary: k acc)
  case 0
  let ?k = "upd_list l kl_advance k"
  have ne: "members k l \<noteq> []" using 0 by auto
  have b: "browsed k ?k" by (rule browsed_advance [OF 0(2) ne])
  have p: "kl_pos (task_lists k l) < length (members k l)" by (rule kl_pos_less [OF ne])
  have m: "stack_marked i (members k l ! kl_pos (task_lists k l))" using 0(3) p by simp
  have "vTaskGetInfo i (Some (members k l ! kl_pos (task_lists k l))) True (Some e) ?k =
      Some (status_entry i k (listed_state k e (members k l ! kl_pos (task_lists k l))) (members k l ! kl_pos (task_lists k l)), ?k)"
    using vTaskGetInfo_listed [of ?k, OF _ m] 0(1) status_browsed [OF b] browsed_fields(3) [OF b] by simp
  then show ?case using 0(5,6) p b by (subst list_loop.simps) (simp add: next_owner_eq [OF 0(2) ne])
next
  case (Suc r)
  let ?k = "upd_list l kl_advance k" and ?m = "length (members k l)" and ?p = "kl_pos (task_lists k l)"
  let ?t = "members k l ! ?p"
  have ne: "members k l \<noteq> []" using Suc.prems by auto
  have b: "browsed k ?k" by (rule browsed_advance [OF Suc.prems(2) ne])
  note bf = browsed_fields [OF b]
  have p: "?p < ?m" by (rule kl_pos_less [OF ne])
  have m: "stack_marked i ?t" using Suc.prems(3) p by simp
  have info: "vTaskGetInfo i (Some ?t) True (Some e) ?k = Some (status_entry i k (listed_state k e ?t) ?t, ?k)"
    using vTaskGetInfo_listed [of ?k, OF _ m] Suc.prems(1) status_browsed [OF b] bf(3) by simp
  have pos: "kl_pos (task_lists ?k l) = Suc ?p mod ?m"
    using kl_advance_wf [OF Suc.prems(2) ne] by (simp add: upd_list_def)
  have "(?p + Suc r) mod ?m \<noteq> ?p"
  proof
    assume "(?p + Suc r) mod ?m = ?p"
    then have "(?p + Suc r) mod ?m = ?p mod ?m" using p by simp
    then have "?m dvd Suc r" by (metis add_diff_cancel_left' le_add1 mod_eq_dvd_iff_nat)
    then show False using Suc.prems(4) by (auto dest: dvd_imp_le)
  qed
  moreover have "distinct (members k l)" using Suc.prems(2) by (simp add: kl_wf_def)
  ultimately have first: "?t \<noteq> pxFirstTCB"
    using Suc.prems(6) p ne by (simp add: nth_eq_iff_index_eq)
  have "\<exists>k'. list_loop i n l e pxFirstTCB (acc @ [status_entry i k (listed_state k e ?t) ?t]) ?k =
      Some ((acc @ [status_entry i k (listed_state k e ?t) ?t]) @ map (\<lambda>t. status_entry i ?k (listed_state ?k e t) t)
      (map (\<lambda>j. members ?k l ! ((kl_pos (task_lists ?k l) + j) mod length (members ?k l))) [0..<Suc r]), k') \<and> browsed ?k k'"
    by (rule Suc.IH) (use Suc.prems bf pos in \<open>simp_all add: mod_simps\<close>)
  then obtain k' where k': "list_loop i n l e pxFirstTCB (acc @ [status_entry i k (listed_state k e ?t) ?t]) ?k =
      Some ((acc @ [status_entry i k (listed_state k e ?t) ?t]) @ map (\<lambda>t. status_entry i k (listed_state k e t) t)
      (map (\<lambda>j. members k l ! ((?p + Suc j) mod ?m)) [0..<Suc r]), k')" "browsed ?k k'"
    unfolding status_browsed [OF b] bf(12) pos by (auto simp: mod_simps simp del: upt_Suc)
  have "map (\<lambda>j. members k l ! ((?p + j) mod ?m)) [0..<Suc (Suc r)] =
      ?t # map (\<lambda>j. members k l ! ((?p + Suc j) mod ?m)) [0..<Suc r]"
    using p by (simp add: upt_conv_Cons map_Suc_upt [symmetric] o_def del: upt_Suc)
  then show ?case
    using k' info first Suc.prems(5) browsed_trans [OF b k'(2)]
    by (subst list_loop.simps) (simp add: next_owner_eq [OF Suc.prems(2) ne] del: upt_Suc)
qed

lemma single_list:
  assumes "uxSchedulerSuspended k = 1" "kl_wf (task_lists k l)" "\<And>t. t \<in> set (members k l) \<Longrightarrow> stack_marked i t"
    "length acc + length (members k l) \<le> n"
  obtains k' zs where "prvListTasksWithinSingleList i n l e acc k =
      Some (acc @ map (\<lambda>t. status_entry i k (listed_state k e t) t) zs, k')" "mset zs = mset (members k l)" "browsed k k'"
proof (cases "members k l = []")
  case True
  then show thesis by (intro that [of "[]" k]) (simp_all add: prvListTasksWithinSingleList_def)
next
  case False
  let ?k = "upd_list l kl_advance k" and ?m = "length (members k l)" and ?p = "kl_pos (task_lists k l)"
  have b: "browsed k ?k" by (rule browsed_advance [OF assms(2) False])
  note bf = browsed_fields [OF b]
  have p: "?p < ?m" by (rule kl_pos_less [OF False])
  have pos: "kl_pos (task_lists ?k l) = Suc ?p mod ?m"
    using kl_advance_wf [OF assms(2) False] by (simp add: upd_list_def)
  have "(Suc ?p + (?m - 1)) mod ?m = ?p" using p False by simp
  then have last: "(Suc ?p mod ?m + (?m - 1)) mod ?m = ?p" by (simp add: mod_simps)
  obtain k' where k': "list_loop i n l e (members k l ! ?p) acc ?k =
      Some (acc @ map (\<lambda>t. status_entry i ?k (listed_state ?k e t) t)
      (map (\<lambda>j. members ?k l ! ((kl_pos (task_lists ?k l) + j) mod length (members ?k l))) [0..<Suc (?m - 1)]), k')" "browsed ?k k'"
    using list_loop_eq [of ?k l i "?m - 1" acc n "members k l ! ?p" e] assms False bf pos last by auto
  have "map (\<lambda>j. members k l ! ((Suc ?p mod ?m + j) mod ?m)) [0..<?m] = rotate (Suc ?p) (members k l)"
    by (rule nth_equalityI) (simp_all add: nth_rotate mod_simps del: rotate_Suc)
  then have "prvListTasksWithinSingleList i n l e acc k =
      Some (acc @ map (\<lambda>t. status_entry i k (listed_state k e t) t) (rotate (Suc ?p) (members k l)), k')"
    using k'(1) False unfolding status_browsed [OF b] bf(12) pos
    by (simp add: prvListTasksWithinSingleList_def next_owner_eq [OF assms(2) False] del: upt_Suc)
  moreover have "mset (rotate (Suc ?p) (members k l)) = mset (members k l)"
    unfolding rotate_drop_take mset_append by (subst union_commute) (simp flip: mset_append)
  ultimately show thesis using browsed_trans [OF b k'(2)] by (rule that)
qed

lemma list_ready_eq:
  assumes "uxSchedulerSuspended k = 1" "\<And>l. kl_wf (task_lists k l)" "\<And>l t. t \<in> set (members k l) \<Longrightarrow> stack_marked i t"
    "length acc + length (concat (map (\<lambda>q. members k (Ready (of_nat q))) [0..<p])) \<le> n"
  shows "\<exists>k' zs. list_ready i n p acc k = Some (acc @ map (\<lambda>t. status_entry i k (listed_state k eReady t) t) zs, k') \<and>
    mset zs = mset (concat (map (\<lambda>q. members k (Ready (of_nat q))) [0..<p])) \<and> browsed k k'"
  using assms
proof (induction p arbitrary: acc k)
  case (Suc p)
  obtain k1 ys where 1: "prvListTasksWithinSingleList i n (Ready (of_nat p)) eReady acc k =
      Some (acc @ map (\<lambda>t. status_entry i k (listed_state k eReady t) t) ys, k1)"
    "mset ys = mset (members k (Ready (of_nat p)))" "browsed k k1"
    by (rule single_list [of k "Ready (of_nat p)" i acc n eReady]) (use Suc.prems in auto)
  note bf = browsed_fields [OF 1(3)]
  have "length ys = length (members k (Ready (of_nat p)))" using 1(2) by (rule mset_eq_length)
  then have "\<exists>k' zs. list_ready i n p (acc @ map (\<lambda>t. status_entry i k (listed_state k eReady t) t) ys) k1 =
      Some ((acc @ map (\<lambda>t. status_entry i k (listed_state k eReady t) t) ys) @
        map (\<lambda>t. status_entry i k1 (listed_state k1 eReady t) t) zs, k') \<and>
      mset zs = mset (concat (map (\<lambda>q. members k1 (Ready (of_nat q))) [0..<p])) \<and> browsed k1 k'"
  proof (intro Suc.IH)
    show "uxSchedulerSuspended k1 = 1" using Suc.prems(1) bf(3) by simp
    show "kl_wf (task_lists k1 l)" for l using Suc.prems(2) bf(13) by blast
    show "stack_marked i t" if "t \<in> set (members k1 l)" for l t using Suc.prems(3) [of t l] that bf(12) by simp
  qed (use Suc.prems(4) in \<open>simp add: bf(12)\<close>)
  then obtain k' zs where 2: "list_ready i n p (acc @ map (\<lambda>t. status_entry i k (listed_state k eReady t) t) ys) k1 =
      Some ((acc @ map (\<lambda>t. status_entry i k (listed_state k eReady t) t) ys) @
        map (\<lambda>t. status_entry i k (listed_state k eReady t) t) zs, k')"
      "mset zs = mset (concat (map (\<lambda>q. members k (Ready (of_nat q))) [0..<p]))" "browsed k1 k'"
    unfolding status_browsed [OF 1(3)] bf(12) by blast
  show ?case
    using 1 2 browsed_trans [OF 1(3) 2(3)]
    by (intro exI [of _ k'] exI [of _ "ys @ zs"]) (simp add: union_commute)
qed simp

section \<open>The report of all tasks\<close>

text \<open>The lists in the order in which they are reported, up to the order of priorities.\<close>

definition state_lists :: "'z kernel_scheme \<Rightarrow> list_id list" where
  "state_lists k = map (\<lambda>q. Ready (of_nat q)) [0..<unat configMAX_PRIORITIES] @
     [pxDelayedTaskList k, pxOverflowDelayedTaskList k, TasksWaitingTermination, SuspendedTaskList]"

lemma members_disjoint:
  assumes "lists_ok k" "distinct ls" "\<And>l. l \<in> set ls \<Longrightarrow> \<not> is_event_list l"
  shows "distinct (concat (map (members k) ls))"
    "set (concat (map (members k) ls)) = {t. \<exists>l \<in> set ls. state_list (tcbs k t) = Some l}"
proof -
  have m: "t \<in> set (members k l) \<longleftrightarrow> state_list (tcbs k t) = Some l" if "l \<in> set ls" for l t
    using assms(1,3) that by (simp add: lists_ok_def)
  show "set (concat (map (members k) ls)) = {t. \<exists>l \<in> set ls. state_list (tcbs k t) = Some l}"
    using m by auto
  have wf: "distinct (members k l)" for l using assms(1) by (simp add: lists_ok_def kl_wf_def)
  show "distinct (concat (map (members k) ls))"
    using assms(2) m
  proof (induction ls)
    case (Cons l ls)
    then show ?case using wf by fastforce
  qed simp
qed

lemma state_lists_all:
  assumes "sched_inv k"
  shows "distinct (state_lists k)" "\<And>l. l \<in> set (state_lists k) \<Longrightarrow> \<not> is_event_list l"
    "state_list (tcbs k t) = Some l \<Longrightarrow> l \<in> set (state_lists k)"
proof -
  have d: "{pxDelayedTaskList k, pxOverflowDelayedTaskList k} = {Delayed1, Delayed2}"
    using sched_inv_parts(4) [OF assms] by (simp add: delayed_ok_def)
  have "inj_on (\<lambda>q. Ready (of_nat q)) {0..<unat configMAX_PRIORITIES}"
    by (rule inj_onI) (simp add: configMAX_PRIORITIES_def word_of_nat_eq_iff take_bit_nat_eq_self)
  with d show "distinct (state_lists k)"
    by (auto simp: state_lists_def distinct_map doubleton_eq_iff)
  show "\<And>l. l \<in> set (state_lists k) \<Longrightarrow> \<not> is_event_list l"
    using d by (auto simp: state_lists_def doubleton_eq_iff)
  show "l \<in> set (state_lists k)" if s: "state_list (tcbs k t) = Some l"
  proof (cases l)
    case (Ready p)
    have "prio k t = p" using sched_inv_parts(5) [OF assms] s Ready by (auto simp: ready_ok_def)
    then have "p < configMAX_PRIORITIES" using sched_inv_prio(1) [OF assms s] by simp
    then have "p = of_nat (unat p) \<and> unat p < unat configMAX_PRIORITIES" by (simp add: word_less_nat_alt)
    then show ?thesis using Ready by (force simp: state_lists_def)
  qed (use d lists_ok_state [OF sched_inv_parts(3) [OF assms] s] in \<open>auto simp: state_lists_def doubleton_eq_iff\<close>)
qed

text \<open>
  The state that is reported. It is that of \<open>eTaskGetState\<close> but for a task that waits for a notification without time limit: the
  report looks at the event list only, and calls it suspended.
\<close>

definition waits_notification :: "'z kernel_scheme \<Rightarrow> tid \<Rightarrow> bool" where
  "waits_notification k t \<longleftrightarrow> pxCurrentTCB k \<noteq> Some t \<and> state_list (tcbs k t) = Some SuspendedTaskList \<and>
     event_list (tcbs k t) = None \<and> ucNotifyState (tcbs k t) = taskWAITING_NOTIFICATION"

definition reported :: "'z kernel_scheme \<Rightarrow> tid \<Rightarrow> eTaskState" where
  "reported k t = (if waits_notification k t then eSuspended else eTaskGetState t k)"

definition list_state :: "'z kernel_scheme \<Rightarrow> list_id \<Rightarrow> eTaskState" where
  "list_state k l = (if l = pxDelayedTaskList k \<or> l = pxOverflowDelayedTaskList k then eBlocked
     else if l = TasksWaitingTermination then eDeleted else if l = SuspendedTaskList then eSuspended else eReady)"

lemma listed_reported:
  assumes "sched_inv k" "state_list (tcbs k t) = Some l"
  shows "listed_state k (list_state k l) t = reported k t"
proof -
  have "{pxDelayedTaskList k, pxOverflowDelayedTaskList k} = {Delayed1, Delayed2}"
    using sched_inv_parts(4) [OF assms(1)] by (simp add: delayed_ok_def)
  with assms(2) show ?thesis
    by (auto simp: listed_state_def list_state_def reported_def waits_notification_def eTaskGetState_def doubleton_eq_iff)
qed

text \<open>The array holds the entries of the tasks of the lists \<open>ls\<close>.\<close>

definition scanned :: "task_info \<Rightarrow> 'z kernel_scheme \<Rightarrow> list_id list \<Rightarrow> TaskStatus_t list \<Rightarrow> 'z kernel_scheme \<Rightarrow> bool" where
  "scanned i k ls acc k' \<longleftrightarrow> browsed k k' \<and>
     (\<exists>zs. acc = map (\<lambda>t. status_entry i k (reported k t) t) zs \<and> mset zs = mset (concat (map (members k) ls)))"

lemma scan_entries:
  assumes "sched_inv k" "mset zs = mset (members k l)" "\<not> is_event_list l"
  shows "map (\<lambda>t. status_entry i k (listed_state k (list_state k l) t) t) zs = map (\<lambda>t. status_entry i k (reported k t) t) zs"
proof -
  have "state_list (tcbs k t) = Some l" if "t \<in> set zs" for t
    using that mset_eq_setD [OF assms(2)] assms(3) sched_inv_parts(3) [OF assms(1)] by (simp add: lists_ok_def)
  then show ?thesis using listed_reported [OF assms(1)] by simp
qed

lemma scan_step:
  assumes "scanned i k ls acc k1" "sched_inv k" "uxSchedulerSuspended k = 1" "\<And>l t. t \<in> set (members k l) \<Longrightarrow> stack_marked i t"
    "length (concat (map (members k) ls)) + length (members k l) \<le> n" "\<not> is_event_list l" "e = list_state k l"
  obtains acc' k2 where "prvListTasksWithinSingleList i n l e acc k1 = Some (acc', k2)" "scanned i k (ls @ [l]) acc' k2"
proof -
  obtain ys where ys: "acc = map (\<lambda>t. status_entry i k (reported k t) t) ys" "mset ys = mset (concat (map (members k) ls))"
    and b: "browsed k k1" using assms(1) by (auto simp: scanned_def)
  note bf = browsed_fields [OF b]
  have wf: "kl_wf (task_lists k1 l)" using bf(13) sched_inv_parts(3) [OF assms(2)] by (simp add: lists_ok_def)
  have len: "length acc + length (members k1 l) \<le> n" using ys(1) mset_eq_length [OF ys(2)] assms(5) bf(12) by simp
  obtain k2 zs where z: "prvListTasksWithinSingleList i n l e acc k1 =
      Some (acc @ map (\<lambda>t. status_entry i k1 (listed_state k1 e t) t) zs, k2)" "mset zs = mset (members k1 l)" "browsed k1 k2"
    by (rule single_list [of k1 l i acc n e]) (use wf len bf(3,12) assms(3,4) in auto)
  have m: "mset zs = mset (members k l)" using z(2) bf(12) by simp
  have "scanned i k (ls @ [l]) (acc @ map (\<lambda>t. status_entry i k (reported k t) t) zs) k2"
    using browsed_trans [OF b z(3)] ys m unfolding scanned_def by (intro conjI exI [of _ "ys @ zs"]) simp_all
  moreover have "prvListTasksWithinSingleList i n l e acc k1 = Some (acc @ map (\<lambda>t. status_entry i k (reported k t) t) zs, k2)"
    using z(1) unfolding status_browsed [OF b] assms(7) scan_entries [OF assms(2) m assms(6)] .
  ultimately show thesis by (rule that [rotated])
qed

lemma scan_ready:
  assumes "sched_inv k" "uxSchedulerSuspended k = 1" "\<And>l t. t \<in> set (members k l) \<Longrightarrow> stack_marked i t"
    "length (concat (map (members k) (map (\<lambda>q. Ready (of_nat q)) [0..<p]))) \<le> n"
  obtains acc k1 where "list_ready i n p [] k = Some (acc, k1)" "scanned i k (map (\<lambda>q. Ready (of_nat q)) [0..<p]) acc k1"
proof -
  have inv: "lists_ok k" "delayed_ok k" by (fact sched_inv_parts [OF assms(1)])+
  obtain k' zs where z: "list_ready i n p [] k = Some ([] @ map (\<lambda>t. status_entry i k (listed_state k eReady t) t) zs, k')"
    "mset zs = mset (concat (map (\<lambda>q. members k (Ready (of_nat q))) [0..<p]))" "browsed k k'"
    using list_ready_eq [of k i "[]" p n] assms(2-4) inv(1) unfolding lists_ok_def by (auto simp: o_def)
  have "listed_state k eReady t = reported k t" if "t \<in> set zs" for t
  proof -
    have "t \<in> (\<Union>q \<in> {0..<p}. set (members k (Ready (of_nat q))))" using that mset_eq_setD [OF z(2)] by auto
    then obtain q :: nat where "t \<in> set (members k (Ready (of_nat q)))" by blast
    then have "state_list (tcbs k t) = Some (Ready (of_nat q))" using inv(1) by (simp add: lists_ok_def)
    moreover have "list_state k (Ready (of_nat q)) = eReady" using inv(2) by (auto simp: list_state_def delayed_ok_def doubleton_eq_iff)
    ultimately show ?thesis using listed_reported [OF assms(1)] by fastforce
  qed
  then have "map (\<lambda>t. status_entry i k (listed_state k eReady t) t) zs = map (\<lambda>t. status_entry i k (reported k t) t) zs" by simp
  with z(1) have "list_ready i n p [] k = Some (map (\<lambda>t. status_entry i k (reported k t) t) zs, k')" by simp
  then show thesis by (rule that) (use z(2,3) in \<open>auto simp: scanned_def o_def\<close>)
qed

lemma system_state_scan:
  assumes "sched_inv k" "uxSchedulerSuspended k = 1" "\<And>l t. t \<in> set (members k l) \<Longrightarrow> stack_marked i t"
    "length (concat (map (members k) (state_lists k))) \<le> n"
  obtains acc k' where "do {
      (acc, k) \<leftarrow> list_ready i n (unat configMAX_PRIORITIES) [] k;
      (acc, k) \<leftarrow> prvListTasksWithinSingleList i n (pxDelayedTaskList k) eBlocked acc k;
      (acc, k) \<leftarrow> prvListTasksWithinSingleList i n (pxOverflowDelayedTaskList k) eBlocked acc k;
      (acc, k) \<leftarrow> prvListTasksWithinSingleList i n TasksWaitingTermination eDeleted acc k;
      prvListTasksWithinSingleList i n SuspendedTaskList eSuspended acc k
    } = Some (acc, k')" "scanned i k (state_lists k) acc k'"
proof -
  let ?R = "map (\<lambda>q. Ready (of_nat q)) [0..<unat configMAX_PRIORITIES]"
  let ?D = "pxDelayedTaskList k" and ?O = "pxOverflowDelayedTaskList k"
  have d: "{?D, ?O} = {Delayed1, Delayed2}" using sched_inv_parts(4) [OF assms(1)] by (simp add: delayed_ok_def)
  then have e: "\<not> is_event_list ?D" "\<not> is_event_list ?O" "eBlocked = list_state k ?D" "eBlocked = list_state k ?O"
    "eDeleted = list_state k TasksWaitingTermination" "eSuspended = list_state k SuspendedTaskList"
    by (auto simp: list_state_def doubleton_eq_iff)
  have n: "length (concat (map (members k) (?R @ [?D, ?O, TasksWaitingTermination, SuspendedTaskList]))) \<le> n"
    using assms(4) by (simp add: state_lists_def)
  obtain a1 k1 where 1: "list_ready i n (unat configMAX_PRIORITIES) [] k = Some (a1, k1)" "scanned i k ?R a1 k1"
    by (rule scan_ready [OF assms(1-3), where p = "unat configMAX_PRIORITIES" and n = n]) (use n in auto)
  obtain a2 k2 where 2: "prvListTasksWithinSingleList i n ?D eBlocked a1 k1 = Some (a2, k2)" "scanned i k (?R @ [?D]) a2 k2"
    by (rule scan_step [OF 1(2) assms(1-3) _ e(1,3), where n = n]) (use n in auto)
  obtain a3 k3 where 3: "prvListTasksWithinSingleList i n ?O eBlocked a2 k2 = Some (a3, k3)" "scanned i k ((?R @ [?D]) @ [?O]) a3 k3"
    by (rule scan_step [OF 2(2) assms(1-3) _ e(2,4), where n = n]) (use n in auto)
  obtain a4 k4 where 4: "prvListTasksWithinSingleList i n TasksWaitingTermination eDeleted a3 k3 = Some (a4, k4)"
    "scanned i k (((?R @ [?D]) @ [?O]) @ [TasksWaitingTermination]) a4 k4"
    by (rule scan_step [OF 3(2) assms(1-3) _ _ e(5), where n = n]) (use n in auto)
  obtain a5 k5 where 5: "prvListTasksWithinSingleList i n SuspendedTaskList eSuspended a4 k4 = Some (a5, k5)"
    "scanned i k ((((?R @ [?D]) @ [?O]) @ [TasksWaitingTermination]) @ [SuspendedTaskList]) a5 k5"
    by (rule scan_step [OF 4(2) assms(1-3) _ _ e(6), where n = n]) (use n in auto)
  have "pxDelayedTaskList k1 = ?D" "pxOverflowDelayedTaskList k2 = ?O"
    using 1(2) 2(2) browsed_fields(4,5) by (auto simp: scanned_def)
  with 1 2 3 4 5 show thesis by (intro that [of a5 k5]) (simp_all add: state_lists_def)
qed

text \<open>Every task of the kernel is counted.\<close>

definition tasks_counted :: "'z kernel_scheme \<Rightarrow> bool" where
  "tasks_counted k \<longleftrightarrow> card {t. state_list (tcbs k t) \<noteq> None} = unat (uxCurrentNumberOfTasks k)"


section \<open>Deleted tasks\<close>

lemma vPortFree_more:
  assumes "can_run c k" "vPortFree pv k = Some k'"
  shows "hkernel.more k' = hkernel.more k"
proof (cases "pv = NULL")
  case True
  then show ?thesis using assms(2) by (simp add: vPortFree_def)
next
  case False
  then obtain h g y where r: "xTaskResumeAll ((vTaskSuspendAll (k\<lparr>heap := g\<rparr>))\<lparr>heap := h\<rparr>) = Some (y, k')"
    using assms(2) by (auto simp: vPortFree_def Let_def bind_eq_Some_conv)
  let ?k = "(vTaskSuspendAll (k\<lparr>heap := g\<rparr>))\<lparr>heap := h\<rparr>"
  have i: "sched_inv ?k" "uxSchedulerSuspended ?k = 1" "xPendedTicks ?k = 0" "\<And>t. \<not> pending ?k t" "pxCurrentTCB ?k = Some c"
    "uxCurrentNumberOfTasks ?k > 0"
    using assms(1) by (simp_all add: can_run_def vTaskSuspendAll_def quiet_def pending_def inv_defs lists_ok_def ready_ok_def delayed_ok_def)
  have "kernel.more k' = kernel.more ?k"
    by (rule suspend_resume_quiet [OF i]) (use r in simp)
  then show ?thesis by (cases k; cases k') (simp add: vTaskSuspendAll_def)
qed


section \<open>Concrete states\<close>

definition demo_info :: task_info where
  "demo_info = \<lparr>pcTaskName = (\<lambda>_. ''t''), task_numbers = (\<lambda>_. 0), stack_base = (\<lambda>_. 0), stacks = (\<lambda>_. [0xa5, 0xa5, 0xa5, 0xa5, 0])\<rparr>"

lemma demo_kernel_can_run: "can_run 1 (demo_kernel 0 None)"
  using demo_sched_inv [of None 0] demo_quiet by (simp add: can_run_def demo_kernel_fields)


text \<open>A heap with two blocks of 112 bytes in use, the stack and the control block of task 2.\<close>

lemma demo_two_blocks:
  obtains h where "heap_rep h [(0x20000108, 112, True), (0x20000178, 112, True), (0x200001e8, 0x3b10, False)]"
proof -
  have r: "heap_rep (ready_heap demo_heap) ([] @ (0x20000108, 0x3bf0, False) # [])" using demo_heap_rep by simp
  obtain h1 where h1: "heap_rep h1 [(0x20000108, 112, True), (0x20000178, 0x3b80, False)]"
    by (rule malloc_section_fits [OF r, of 100]) (auto simp: demo_wanted cut_def)
  then have "pxEnd h1 = 0x20003cf8" by (auto simp: heap_rep_def)
  then have r1: "heap_rep (ready_heap h1) ([(0x20000108, 112, True)] @ (0x20000178, 0x3b80, False) # [])"
    using h1 by (simp add: ready_heap_def NULL_def)
  show thesis
    by (rule malloc_section_fits [OF r1, of 100]) (auto simp: demo_wanted cut_def intro: that)
qed

definition demo_mkernel :: "heap4 \<Rightarrow> mkernel" where
  "demo_mkernel h = kernel.extend (demo_kernel 0 None)
     \<lparr>heap = h, pxStack = (\<lambda>_. 0x20000110), tcb_addr = (\<lambda>_. 0x20000180), xTLSBlock = (\<lambda>_. True)\<rparr>"


end
