(* ===== verification/Boot.thy ===== *)
theory Boot
  imports Task_Props Timer_Props Semaphores
begin

text \<open>
  The start of the program: \<open>main\<close> of \<open>Src/main.c\<close> with the driver and task set-up it calls, as far as the kernel sees it, and the task
  that blinks the LED and counts presses of the button.
\<close>

section \<open>The program\<close>

definition CLI_TASK_PRIORITY :: UBaseType_t where "CLI_TASK_PRIORITY = 2"
definition BLINK_TASK_PRIORITY :: UBaseType_t where "BLINK_TASK_PRIORITY = 3"
definition TTY_TASK_PRIORITY :: UBaseType_t where "TTY_TASK_PRIORITY = 30"
definition USB_HID_TASK_PRIORITY :: UBaseType_t where "USB_HID_TASK_PRIORITY = 39"
definition USBD_TASK_PRIORITY :: UBaseType_t where "USBD_TASK_PRIORITY = 40"

lemmas priority_defs = CLI_TASK_PRIORITY_def BLINK_TASK_PRIORITY_def TTY_TASK_PRIORITY_def USB_HID_TASK_PRIORITY_def
  USBD_TASK_PRIORITY_def tskIDLE_PRIORITY_def configTIMER_TASK_PRIORITY_def

text \<open>What the allocator returns during the start: the handle of an object, with the bytes behind it for a queue, or \<open>None\<close>.\<close>

record boot_memory =
  mem_lock_tx :: "(nat \<times> u8 list) option"
  mem_lock_rx :: "(nat \<times> u8 list) option"
  mem_sem_tx :: "(nat \<times> u8 list) option"
  mem_sem_rx :: "(nat \<times> u8 list) option"
  mem_q_rx :: "(nat \<times> u8 list) option"
  mem_tty :: "tid option"
  mem_usbd :: "tid option"
  mem_usbhid :: "tid option"
  mem_cli :: "tid option"
  mem_led :: "tid option"
  mem_idle :: "tid option"
  mem_q_timer :: "(nat \<times> u8 list) option"
  mem_timer :: "tid option"

record tty_handles =
  h_lock_tx :: "nat option"
  h_lock_rx :: "nat option"
  h_sem_tx :: "nat option"
  h_sem_rx :: "nat option"
  h_q_rx :: "nat option"

definition queueQUEUE_TYPE_BASE :: u8 where "queueQUEUE_TYPE_BASE = 0"
definition queueQUEUE_TYPE_MUTEX :: u8 where "queueQUEUE_TYPE_MUTEX = 1"
definition queueQUEUE_TYPE_BINARY_SEMAPHORE :: u8 where "queueQUEUE_TYPE_BINARY_SEMAPHORE = 3"

text \<open>The results of \<open>xTaskCreate\<close> are not looked at.\<close>

definition tty_driver_init :: "boot_memory \<Rightarrow> 'z qkernel_scheme \<Rightarrow> (tty_handles \<times> 'z qkernel_scheme) option" where
  "tty_driver_init m k = do {
     (l_tx, k) \<leftarrow> xQueueCreateMutex (mem_lock_tx m) queueQUEUE_TYPE_MUTEX k;
     (l_rx, k) \<leftarrow> xQueueCreateMutex (mem_lock_rx m) queueQUEUE_TYPE_MUTEX k;
     (s_tx, k) \<leftarrow> xQueueGenericCreate (mem_sem_tx m) 1 0 queueQUEUE_TYPE_BINARY_SEMAPHORE k;
     (s_rx, k) \<leftarrow> xQueueGenericCreate (mem_sem_rx m) 1 0 queueQUEUE_TYPE_BINARY_SEMAPHORE k;
     (q, k) \<leftarrow> xQueueGenericCreate (mem_q_rx m) 16 1 queueQUEUE_TYPE_BASE k;
     (_, k) \<leftarrow> xTaskCreate (mem_tty m) TTY_TASK_PRIORITY k;
     Some (\<lparr>h_lock_tx = l_tx, h_lock_rx = l_rx, h_sem_tx = s_tx, h_sem_rx = s_rx, h_q_rx = q\<rparr>, k)
   }"

definition usb_device_init :: "boot_memory \<Rightarrow> 'z kernel_scheme \<Rightarrow> 'z kernel_scheme option" where
  "usb_device_init m k = do {
     (_, k) \<leftarrow> xTaskCreate (mem_usbd m) USBD_TASK_PRIORITY k;
     (_, k) \<leftarrow> xTaskCreate (mem_usbhid m) USB_HID_TASK_PRIORITY k;
     Some k
   }"

definition cli_setup :: "boot_memory \<Rightarrow> 'z kernel_scheme \<Rightarrow> 'z kernel_scheme option" where
  "cli_setup m k = do {
     (_, k) \<leftarrow> xTaskCreate (mem_cli m) CLI_TASK_PRIORITY k;
     Some k
   }"

text \<open>\<open>main\<close> up to the start of the first task; clocks, pins and interrupt priorities are not part of the state.\<close>

definition main_boot :: "boot_memory \<Rightarrow> 'z tkernel_scheme \<Rightarrow> (tty_handles \<times> 'z tkernel_scheme) option" where
  "main_boot m k = do {
     (h, k) \<leftarrow> tty_driver_init m k;
     k \<leftarrow> usb_device_init m k;
     k \<leftarrow> cli_setup m k;
     (_, k) \<leftarrow> xTaskCreate (mem_led m) BLINK_TASK_PRIORITY k;
     k \<leftarrow> vTaskStartScheduler (mem_idle m) (mem_q_timer m) (mem_timer m) k;
     Some (h, k)
   }"

section \<open>Creating tasks\<close>

text \<open>The kernel after reset: no task exists and no queue has a waiter.\<close>

definition at_reset :: "'z kernel_scheme \<Rightarrow> bool" where
  "at_reset k \<longleftrightarrow> pxCurrentTCB k = None \<and> uxCurrentNumberOfTasks k = 0 \<and> xTickCount k = 0 \<and> uxTopReadyPriority k = 0 \<and>
     \<not> xSchedulerRunning k \<and> xPendedTicks k = 0 \<and> uxSchedulerSuspended k = 0 \<and>
     (\<forall>t. state_list (tcbs k t) = None \<and> event_list (tcbs k t) = None) \<and>
     task_lists (prvInitialiseTaskLists k) = (\<lambda>_. kl_empty)"

text \<open>The tasks \<open>ts\<close> have been created and are ready; the one that is to run first has the highest priority.\<close>

definition booted :: "(tid \<times> UBaseType_t) list \<Rightarrow> 'z kernel_scheme \<Rightarrow> bool" where
  "booted ts k \<longleftrightarrow> sched_inv k \<and> quiet k \<and> distinct (map fst ts) \<and> length ts < 2 ^ 32 \<and> uxCurrentNumberOfTasks k = of_nat (length ts) \<and>
     (\<forall>t. event_list (tcbs k t) = None \<and> state_list (tcbs k t) = map_option Ready (map_of ts t)) \<and>
     (\<exists>c p. pxCurrentTCB k = Some c \<and> map_of ts c = Some p \<and> (\<forall>(u, q) \<in> set ts. q \<le> p))"

lemma fresh_tcb_inv:
  assumes "list_inv k" "state_list (tcbs k t) = None" "event_list (tcbs k t) = None"
    "state_list (f (tcbs k t)) = None" "event_list (f (tcbs k t)) = None"
  shows "list_inv (upd_tcb t f k)"
proof -
  have inv: "lists_ok k" "ready_ok k" "delayed_ok k" using assms(1) by (auto simp: list_inv_def)
  have no: "t \<notin> set (members k l)" for l using inv(1) assms(2,3) by (simp add: lists_ok_def)
  have "lists_ok (upd_tcb t f k)" using inv(1) assms(2-5) by (auto simp: lists_ok_def upd_defs)
  moreover have "ready_ok (upd_tcb t f k)" using inv(2) assms(4) by (auto simp: ready_ok_def upd_defs)
  moreover have "delayed_ok (upd_tcb t f k)"
  proof -
    have same: "map (\<lambda>u. state_value (tcbs (upd_tcb t f k) u)) (members k l) = map (\<lambda>u. state_value (tcbs k u)) (members k l)" for l
      using no by (intro map_cong) (auto simp: upd_defs)
    have fields: "task_lists (upd_tcb t f k) = task_lists k" "pxDelayedTaskList (upd_tcb t f k) = pxDelayedTaskList k"
      "pxOverflowDelayedTaskList (upd_tcb t f k) = pxOverflowDelayedTaskList k" "xTickCount (upd_tcb t f k) = xTickCount k"
      "xNextTaskUnblockTime (upd_tcb t f k) = xNextTaskUnblockTime k" by (simp_all add: upd_defs)
    show ?thesis
      using inv(3) assms(4) unfolding delayed_ok_def fields same by (simp add: upd_defs)
  qed
  ultimately show ?thesis by (simp add: list_inv_def)
qed

text \<open>\<open>prvAddNewTaskToReadyList\<close> when the lists are ready for it: the task becomes the current one unless a higher one exists.\<close>

definition task_made :: "UBaseType_t \<Rightarrow> tid \<Rightarrow> 'z kernel_scheme \<Rightarrow> 'z kernel_scheme" where
  "task_made p t k = (upd_tcb t (\<lambda>_. zero_tcb\<lparr>uxPriority := p, uxBasePriority := p, event_value := configMAX_PRIORITIES - p,
       uxTCBNumber := uxTaskNumber k + 1\<rparr>) k)
     \<lparr>uxCurrentNumberOfTasks := uxCurrentNumberOfTasks k + 1, uxTaskNumber := uxTaskNumber k + 1,
       pxCurrentTCB := (case pxCurrentTCB k of None \<Rightarrow> Some t | Some c \<Rightarrow> if prio k c \<le> p then Some t else Some c)\<rparr>"

lemma add_running: "prvAddTaskToReadyList t k = Some k' \<Longrightarrow> xSchedulerRunning k' = xSchedulerRunning k"
  by (auto simp: prvAddTaskToReadyList_def insert_end_state_def taskRECORD_READY_PRIORITY_def upd_defs split: if_splits)

definition initial_lists :: "(list_id \<Rightarrow> tid klist) \<Rightarrow> list_id \<Rightarrow> tid klist" where
  "initial_lists T l = (case l of
       Ready p \<Rightarrow> (if p < configMAX_PRIORITIES then kl_empty else T l)
     | Delayed1 \<Rightarrow> kl_empty | Delayed2 \<Rightarrow> kl_empty | PendingReadyList \<Rightarrow> kl_empty
     | TasksWaitingTermination \<Rightarrow> kl_empty | SuspendedTaskList \<Rightarrow> kl_empty
     | _ \<Rightarrow> T l)"

lemma prvInitialiseTaskLists_eq:
  "prvInitialiseTaskLists k = k\<lparr>task_lists := initial_lists (task_lists k), pxDelayedTaskList := Delayed1, pxOverflowDelayedTaskList := Delayed2\<rparr>"
  by (simp add: prvInitialiseTaskLists_def initial_lists_def fun_eq_iff cong: kernel.fold_congs)

lemma made_parts:
  assumes "\<not> xSchedulerRunning k" "pxCurrentTCB k = Some c" "c \<noteq> t"
    "b = zero_tcb\<lparr>uxPriority := p, uxBasePriority := p, event_value := configMAX_PRIORITIES - p\<rparr>" 
  shows "prvAddNewTaskToReadyList t (upd_tcb t (\<lambda>_. b) k) = do {
      k \<leftarrow> prvAddTaskToReadyList t (task_made p t k);
      if xSchedulerRunning k then do {
        c \<leftarrow> pxCurrentTCB k;
        Some (if prio k c < prio k t then portYIELD k else k)
      } else Some k }"
  using assms(1-3) unfolding assms(4)
  by (cases k) (auto simp add: prvAddNewTaskToReadyList_def task_made_def upd_tcb_def Let_def)

lemma made_first:
  assumes "\<not> xSchedulerRunning k" "pxCurrentTCB k = None" "uxCurrentNumberOfTasks k = 0"
    "b = zero_tcb\<lparr>uxPriority := p, uxBasePriority := p, event_value := configMAX_PRIORITIES - p\<rparr>" 
  shows "prvAddNewTaskToReadyList t (upd_tcb t (\<lambda>_. b) k) = do {
      k \<leftarrow> prvAddTaskToReadyList t (task_made p t (prvInitialiseTaskLists k));
      if xSchedulerRunning k then do {
        c \<leftarrow> pxCurrentTCB k;
        Some (if prio k c < prio k t then portYIELD k else k)
      } else Some k }"
  using assms(1-3) unfolding assms(4)
  by (cases k) (simp add: prvAddNewTaskToReadyList_def task_made_def upd_tcb_def Let_def prvInitialiseTaskLists_eq)

lemma xTaskCreate_made:
  assumes "\<not> xSchedulerRunning k" "p < configMAX_PRIORITIES" "pxCurrentTCB k \<noteq> Some t"
    "pxCurrentTCB k = None \<Longrightarrow> uxCurrentNumberOfTasks k = 0"
  shows "xTaskCreate (Some t) p k = map_option (Pair 1) (prvAddTaskToReadyList t
    (task_made p t (if pxCurrentTCB k = None then prvInitialiseTaskLists k else k)))"
proof -
  let ?K = "task_made p t (if pxCurrentTCB k = None then prvInitialiseTaskLists k else k)"
  let ?b = "zero_tcb\<lparr>uxPriority := p, uxBasePriority := p, event_value := configMAX_PRIORITIES - p\<rparr>"
  have "prvInitialiseNewTask p t (upd_tcb t (\<lambda>_. zero_tcb) k) = Some (upd_tcb t (\<lambda>_. ?b) k)"
    using assms(2) by (simp add: prvInitialiseNewTask_def configASSERT_def Let_def upd_tcb_def zero_tcb_def)
  moreover have "prvAddNewTaskToReadyList t (upd_tcb t (\<lambda>_. ?b) k) = do {
      k \<leftarrow> prvAddTaskToReadyList t ?K;
      if xSchedulerRunning k then do {
        c \<leftarrow> pxCurrentTCB k;
        Some (if prio k c < prio k t then portYIELD k else k)
      } else Some k }"
  proof (cases "pxCurrentTCB k")
    case None
    then show ?thesis using made_first [OF assms(1) None assms(4) [OF None] refl, of t p] by simp
  next
    case (Some c)
    then show ?thesis using made_parts [OF assms(1) Some _ refl, of t p] assms(3) by simp
  qed
  moreover have "\<not> xSchedulerRunning ?K" using assms(1) by (simp add: task_made_def upd_defs prvInitialiseTaskLists_eq)
  ultimately show ?thesis
    by (cases "prvAddTaskToReadyList t ?K") (auto simp: xTaskCreate_def dest: add_running)
qed

text \<open>Adding a new task to lists that hold the tasks \<open>ts\<close>.\<close>

lemma made_booted:
  assumes "sched_inv k" "quiet k" "distinct (map fst ts)" "Suc (length ts) < 2 ^ 32" "uxCurrentNumberOfTasks k = of_nat (length ts)"
    "\<And>t. event_list (tcbs k t) = None \<and> state_list (tcbs k t) = map_option Ready (map_of ts t)"
    "pxCurrentTCB k = None \<and> ts = [] \<or> (\<exists>c p. pxCurrentTCB k = Some c \<and> map_of ts c = Some p \<and> (\<forall>(u, q) \<in> set ts. q \<le> p))"
    "t \<notin> fst ` set ts" "p < configMAX_PRIORITIES"
  obtains k' where "prvAddTaskToReadyList t (task_made p t k) = Some k'" "booted ((t, p) # ts) k'"
    "xSchedulerRunning k' = xSchedulerRunning k" "xTickCount k' = xTickCount k" "xNumOfOverflows k' = xNumOfOverflows k" "kernel.more k' = kernel.more k"
proof -
  let ?b = "zero_tcb\<lparr>uxPriority := p, uxBasePriority := p, event_value := configMAX_PRIORITIES - p, uxTCBNumber := uxTaskNumber k + 1\<rparr>"
  let ?K = "task_made p t k"
  have none: "state_list (tcbs k t) = None" "event_list (tcbs k t) = None"
    using assms(6) [of t] assms(8) by (simp_all add: map_of_eq_None_iff [THEN iffD2])
  have "list_inv (upd_tcb t (\<lambda>_. ?b) k)"
    using sched_inv_parts(1) [OF assms(1)] none by (rule fresh_tcb_inv) (simp_all add: zero_tcb_def)
  then have "list_inv ?K" by (simp add: list_inv_def lists_ok_def ready_ok_def delayed_ok_def task_made_def)
  moreover have tc: "tcbs ?K = (tcbs k)(t := ?b)" by (simp add: task_made_def upd_tcb_def)
  moreover have b: "state_list ?b = None" "uxPriority ?b = p" "uxBasePriority ?b = p" "event_list ?b = None" by (simp_all add: zero_tcb_def)
  ultimately obtain k' where k': "prvAddTaskToReadyList t ?K = Some k'" "list_inv k'" "same_clock ?K k'"
    "kernel.more k' = kernel.more ?K" "tcbs k' = (tcbs ?K)(t := (tcbs ?K t)\<lparr>state_list := Some (Ready (prio ?K t))\<rparr>)"
    using add_ready [of ?K t] assms(9) by (metis fun_upd_same)
  have tk: "tcbs k' = (tcbs k)(t := ?b\<lparr>state_list := Some (Ready p)\<rparr>)" using k'(5) b(2) by (simp add: tc)
  note sc = k'(3) [unfolded same_clock_def]
  have fields: "pxDelayedTaskList k' = pxDelayedTaskList k" "xTickCount k' = xTickCount k"
    "uxSchedulerSuspended k' = uxSchedulerSuspended k" "xPendedTicks k' = xPendedTicks k" "xSchedulerRunning k' = xSchedulerRunning k"
    "uxCurrentNumberOfTasks k' = uxCurrentNumberOfTasks k + 1" "xNumOfOverflows k' = xNumOfOverflows k" "kernel.more ?K = kernel.more k"
    "pxCurrentTCB k' = (case pxCurrentTCB k of None \<Rightarrow> Some t | Some c \<Rightarrow> if prio k c \<le> p then Some t else Some c)"
    using sc by (simp_all add: task_made_def upd_tcb_def)
  have d: "pxDelayedTaskList k \<in> {Delayed1, Delayed2}" using delayed_lists_distinct(2) sched_inv_parts(4) [OF assms(1)] by blast
  have "sched_inv k'"
    using k'(2) assms(1) d b(4) unfolding sched_inv_def no_due_def waiters_ok_def fields tk by auto
  moreover have "quiet k'" using assms(2) b(4) unfolding quiet_def pending_def fields tk by auto
  moreover have "event_list (tcbs k' u) = None \<and> state_list (tcbs k' u) = map_option Ready (map_of ((t, p) # ts) u)" for u
    using assms(6) [of u] b(4) unfolding tk by simp
  moreover have "\<exists>c q. pxCurrentTCB k' = Some c \<and> map_of ((t, p) # ts) c = Some q \<and> (\<forall>(u, r) \<in> set ((t, p) # ts). r \<le> q)"
    using assms(7)
  proof (elim disjE exE conjE)
    fix c q
    assume c: "pxCurrentTCB k = Some c" "map_of ts c = Some q" "\<forall>(u, r) \<in> set ts. r \<le> q"
    then have "c \<noteq> t" using assms(8) by (force dest: map_of_SomeD)
    moreover have "prio k c = q"
      using sched_inv_parts(5) [OF assms(1)] assms(6) [of c] c(2) by (simp add: ready_ok_def)
    ultimately show ?thesis using c unfolding fields by (auto split: prod.splits dest: order.trans)
  qed (simp add: fields)
  ultimately have "booted ((t, p) # ts) k'"
    using assms(3-5,8) unfolding booted_def by (simp add: fields(6))
  with k'(1,4) fields show thesis by (intro that [of k']) simp_all
qed

lemma reset_lists_inv:
  assumes "at_reset k"
  shows "sched_inv (prvInitialiseTaskLists k)" "quiet (prvInitialiseTaskLists k)"
proof -
  let ?k = "prvInitialiseTaskLists k"
  have r: "task_lists ?k = (\<lambda>_. kl_empty)" "state_list (tcbs k t) = None" "event_list (tcbs k t) = None" for t
    using assms by (simp_all add: at_reset_def)
  have f: "tcbs ?k = tcbs k" "pxDelayedTaskList ?k = Delayed1" "pxOverflowDelayedTaskList ?k = Delayed2"
    "uxSchedulerSuspended ?k = uxSchedulerSuspended k" "xPendedTicks ?k = xPendedTicks k"
    by (simp_all add: prvInitialiseTaskLists_eq)
  show "sched_inv ?k"
    unfolding inv_defs lists_ok_def ready_ok_def delayed_ok_def f r by simp
  show "quiet ?k" using assms unfolding quiet_def pending_def f r by (simp add: at_reset_def)
qed

lemma create_first:
  assumes "at_reset k" "p < configMAX_PRIORITIES"
  obtains k' where "xTaskCreate (Some t) p k = Some (1, k')" "booted [(t, p)] k'" "\<not> xSchedulerRunning k'" "xTickCount k' = 0"
    "kernel.more k' = kernel.more k"
proof -
  let ?k = "prvInitialiseTaskLists k"
  have f: "tcbs ?k = tcbs k" "pxCurrentTCB ?k = pxCurrentTCB k" "uxCurrentNumberOfTasks ?k = uxCurrentNumberOfTasks k"
    "xSchedulerRunning ?k = xSchedulerRunning k" "kernel.more ?k = kernel.more k" "xTickCount ?k = xTickCount k"
    by (simp_all add: prvInitialiseTaskLists_eq)
  have r: "pxCurrentTCB k = None" "uxCurrentNumberOfTasks k = 0" "\<not> xSchedulerRunning k" "xTickCount k = 0"
    "state_list (tcbs k t) = None" "event_list (tcbs k t) = None" for t using assms(1) by (simp_all add: at_reset_def)
  obtain k' where "prvAddTaskToReadyList t (task_made p t ?k) = Some k'" "booted [(t, p)] k'"
    "xSchedulerRunning k' = xSchedulerRunning ?k" "xTickCount k' = xTickCount ?k" "xNumOfOverflows k' = xNumOfOverflows ?k" "kernel.more k' = kernel.more ?k"
    by (rule made_booted [OF reset_lists_inv [OF assms(1)], of "[]" t p]) (use assms(2) r f in simp_all)
  then show thesis using xTaskCreate_made [OF r(3) assms(2), of t] r f by (intro that [of k']) simp_all
qed

lemma create_next:
  assumes "booted ts k" "\<not> xSchedulerRunning k" "t \<notin> fst ` set ts" "p < configMAX_PRIORITIES" "Suc (length ts) < 2 ^ 32"
  obtains k' where "xTaskCreate (Some t) p k = Some (1, k')" "booted ((t, p) # ts) k'" "\<not> xSchedulerRunning k'"
    "xTickCount k' = xTickCount k" "kernel.more k' = kernel.more k"
proof -
  have b: "sched_inv k" "quiet k" "distinct (map fst ts)" "uxCurrentNumberOfTasks k = of_nat (length ts)"
    "\<And>t. event_list (tcbs k t) = None \<and> state_list (tcbs k t) = map_option Ready (map_of ts t)"
    "\<exists>c p. pxCurrentTCB k = Some c \<and> map_of ts c = Some p \<and> (\<forall>(u, q) \<in> set ts. q \<le> p)"
    using assms(1) unfolding booted_def by blast+
  then obtain c q where c: "pxCurrentTCB k = Some c" "map_of ts c = Some q" by blast
  then have "c \<noteq> t" using assms(3) by (force dest: map_of_SomeD)
  obtain k' where "prvAddTaskToReadyList t (task_made p t k) = Some k'" "booted ((t, p) # ts) k'"
    "xSchedulerRunning k' = xSchedulerRunning k" "xTickCount k' = xTickCount k" "xNumOfOverflows k' = xNumOfOverflows k" "kernel.more k' = kernel.more k"
    by (rule made_booted [OF b(1-3) assms(5) b(4,5) disjI2 [OF b(6)] assms(3,4)])
  then show thesis using xTaskCreate_made [OF assms(2,4), of t] c(1) \<open>c \<noteq> t\<close> assms(2) by (intro that [of k']) simp_all
qed

section \<open>Creating queues\<close>

definition empty_waiters :: "nat \<Rightarrow> 'z kernel_scheme \<Rightarrow> 'z kernel_scheme" where
  "empty_waiters q k = upd_list (WaitingToReceive q) (\<lambda>_. kl_empty) (upd_list (WaitingToSend q) (\<lambda>_. kl_empty) k)"

definition new_queue :: "u8 list \<Rightarrow> UBaseType_t \<Rightarrow> UBaseType_t \<Rightarrow> u8 \<Rightarrow> Queue_t \<Rightarrow> Queue_t" where
  "new_queue mem len sz ty Q = Q\<lparr>pcHead := Some 0, storage := mem, uxLength := len, uxItemSize := sz,
     u_ptrs := QueuePointers (uint (len * sz)) (uint ((len - 1) * sz)), uxMessagesWaiting := 0, pcWriteTo := 0,
     cRxLock := queueUNLOCKED, cTxLock := queueUNLOCKED, ucQueueType := ty\<rparr>"

definition new_mutex :: "u8 list \<Rightarrow> Queue_t \<Rightarrow> Queue_t" where
  "new_mutex mem Q = (new_queue mem 1 0 queueQUEUE_TYPE_MUTEX Q)\<lparr>pcHead := None, u_ptrs := SemaphoreData None 0, uxMessagesWaiting := 1\<rparr>"

lemma empty_waiters_fields [simp]:
  "tcbs (empty_waiters q k) = tcbs k" "pxCurrentTCB (empty_waiters q k) = pxCurrentTCB k" "kernel.more (empty_waiters q k) = kernel.more k"
  "xSchedulerRunning (empty_waiters q k) = xSchedulerRunning k" "xTickCount (empty_waiters q k) = xTickCount k"
  "uxSchedulerSuspended (empty_waiters q k) = uxSchedulerSuspended k" "xPendedTicks (empty_waiters q k) = xPendedTicks k"
  "uxCurrentNumberOfTasks (empty_waiters q k) = uxCurrentNumberOfTasks k" "uxTopReadyPriority (empty_waiters q k) = uxTopReadyPriority k"
  "members (empty_waiters q k) (WaitingToReceive q) = []" "members (empty_waiters q k) (WaitingToSend q) = []"
  by (simp_all add: empty_waiters_def upd_list_def)

lemma create_queue_eq:
  assumes "len > 0" "sz \<le> 0xffffffff div len" "0xffffffff - sizeof_Queue_t \<ge> len * sz"
  shows "xQueueGenericCreate (Some (q, mem)) len sz ty k = Some (Some q, upd_queue q (new_queue mem len sz ty) (empty_waiters q k))"
proof -
  have "1 \<le> len" using assms(1) by (simp add: word_le_nat_alt word_less_nat_alt)
  then show ?thesis
    using assms by (simp add: xQueueGenericCreate_def prvInitialiseNewQueue_def xQueueGenericReset_def configASSERT_def Let_def
        upd_list_def upd_queue_def new_queue_def empty_waiters_def)
qed

lemma create_mutex_eq:
  "xQueueCreateMutex (Some (q, mem)) queueQUEUE_TYPE_MUTEX k = Some (Some q, upd_queue q (new_mutex mem) (empty_waiters q k))"
proof -
  define k1 where "k1 = upd_queue q (\<lambda>Q. (new_queue mem 1 0 queueQUEUE_TYPE_MUTEX Q)\<lparr>u_ptrs := SemaphoreData None 0, pcHead := None\<rparr>) (empty_waiters q k)"
  have q: "queues k1 q = (new_queue mem 1 0 queueQUEUE_TYPE_MUTEX (queues (empty_waiters q k) q))\<lparr>u_ptrs := SemaphoreData None 0, pcHead := None\<rparr>"
    "members k1 (WaitingToReceive q) = []" "uxSchedulerSuspended k1 = uxSchedulerSuspended k"
    by (simp_all add: k1_def upd_queue_def)
  have "xQueueGenericSend q None 0 queueSEND_TO_BACK k1 = Some (Returned True, upd_queue q (\<lambda>Q. Q\<lparr>uxMessagesWaiting := 1\<rparr>) k1)"
    using q
    by (simp add: xQueueGenericSend_def send_pass_def send_try_def prvCopyDataToQueue_def xTaskPriorityDisinherit_def new_queue_def
       configASSERT_def may_wait_def Let_def set_mutex_holder_def mutex_holder_def new_wait_def upd_queue_def fun_upd_idem)
  moreover have "(\<lambda>Q. (new_queue mem 1 0 queueQUEUE_TYPE_MUTEX Q)\<lparr>u_ptrs := SemaphoreData None 0, pcHead := None, uxMessagesWaiting := 1\<rparr>) =
    new_mutex mem" by (simp add: fun_eq_iff new_mutex_def new_queue_def)
  ultimately show ?thesis
    by (simp add: xQueueCreateMutex_def create_queue_eq sizeof_Queue_t_def prvInitialiseMutex_def k1_def)
qed

lemma at_reset_queue [simp]: "at_reset (upd_queue q f k) = at_reset k"
  by (simp add: at_reset_def prvInitialiseTaskLists_eq upd_queue_def)

lemma at_reset_waiters [simp]:
  assumes "at_reset k"
  shows "at_reset (empty_waiters q k)"
proof -
  have "initial_lists (task_lists k) l = kl_empty" for l
    using assms by (simp add: at_reset_def prvInitialiseTaskLists_eq)
  then have "initial_lists (task_lists (empty_waiters q k)) l = kl_empty" for l
    by (cases l) (auto simp: initial_lists_def empty_waiters_def upd_list_def dest: meta_spec [of _ l] split: if_splits)
  then show ?thesis using assms by (simp add: at_reset_def prvInitialiseTaskLists_eq fun_eq_iff)
qed

lemma booted_queue [simp]: "booted ts (upd_queue q f k) = booted ts k"
  by (simp add: booted_def quiet_def pending_def)

lemma booted_waiters:
  assumes "booted ts k"
  shows "booted ts (empty_waiters q k)"
proof -
  have "fresh_queue q k" using assms by (simp add: booted_def fresh_queue_def)
  then have "sched_inv (empty_waiters q k)" using assms fresh_lists unfolding booted_def empty_waiters_def by blast
  then show ?thesis using assms unfolding booted_def quiet_def pending_def empty_waiters_fields by blast
qed

lemma booted_tm [simp]: "booted ts (upd_tm f k) = booted ts k"
  by (simp add: booted_def inv_defs lists_ok_def ready_ok_def delayed_ok_def quiet_def pending_def upd_tm_def)

lemma booted_registry [simp]: "booted ts (vQueueAddToRegistry q s k) = booted ts k"
  by (simp add: booted_def inv_defs lists_ok_def ready_ok_def delayed_ok_def quiet_def pending_def vQueueAddToRegistry_def split: option.splits)

section \<open>The start\<close>

lemmas queue_sizes = sizeof_Queue_t_def sizeof_DaemonTaskMessage_t_def configTIMER_QUEUE_LENGTH_def

lemma tty_driver_init_spec:
  assumes "at_reset k" "mem_lock_tx m = Some (lt, b1)" "mem_lock_rx m = Some (lr, b2)" "mem_sem_tx m = Some (st, b3)"
    "mem_sem_rx m = Some (sr, b4)" "mem_q_rx m = Some (qr, b5)" "mem_tty m = Some t"
  obtains k' where "tty_driver_init m k = Some (\<lparr>h_lock_tx = Some lt, h_lock_rx = Some lr, h_sem_tx = Some st, h_sem_rx = Some sr,
      h_q_rx = Some qr\<rparr>, k')" "booted [(t, TTY_TASK_PRIORITY)] k'" "\<not> xSchedulerRunning k'" "xTickCount k' = 0"
    "qkernel.more k' = qkernel.more k" "xQueueRegistry k' = xQueueRegistry k"
    "distinct [lt, lr, st, sr, qr] \<Longrightarrow> queues k' = (queues k)(lt := new_mutex b1 (queues k lt), lr := new_mutex b2 (queues k lr),
      st := new_queue b3 1 0 queueQUEUE_TYPE_BINARY_SEMAPHORE (queues k st),
      sr := new_queue b4 1 0 queueQUEUE_TYPE_BINARY_SEMAPHORE (queues k sr), qr := new_queue b5 16 1 queueQUEUE_TYPE_BASE (queues k qr))"
proof -
  define k0 where "k0 = upd_queue qr (new_queue b5 16 1 queueQUEUE_TYPE_BASE) (empty_waiters qr
    (upd_queue sr (new_queue b4 1 0 queueQUEUE_TYPE_BINARY_SEMAPHORE) (empty_waiters sr
    (upd_queue st (new_queue b3 1 0 queueQUEUE_TYPE_BINARY_SEMAPHORE) (empty_waiters st
    (upd_queue lr (new_mutex b2) (empty_waiters lr (upd_queue lt (new_mutex b1) (empty_waiters lt k)))))))))"
  have r: "at_reset k0" using assms(1) by (simp add: k0_def)
  have q: "queues k0 = (queues k)(lt := new_mutex b1 (queues k lt), lr := new_mutex b2 (queues k lr),
      st := new_queue b3 1 0 queueQUEUE_TYPE_BINARY_SEMAPHORE (queues k st),
      sr := new_queue b4 1 0 queueQUEUE_TYPE_BINARY_SEMAPHORE (queues k sr), qr := new_queue b5 16 1 queueQUEUE_TYPE_BASE (queues k qr))"
    if "distinct [lt, lr, st, sr, qr]" using that by (auto simp: k0_def upd_queue_def empty_waiters_def upd_list_def)
  have more: "qkernel.more k0 = qkernel.more k" "xQueueRegistry k0 = xQueueRegistry k"
    by (simp_all add: k0_def empty_waiters_def upd_list_def upd_queue_def)
  obtain k' where k': "xTaskCreate (Some t) TTY_TASK_PRIORITY k0 = Some (1, k')" "booted [(t, TTY_TASK_PRIORITY)] k'"
    "\<not> xSchedulerRunning k'" "xTickCount k' = 0" "kernel.more k' = kernel.more k0"
    by (rule create_first [OF r, of TTY_TASK_PRIORITY t]) (simp add: priority_defs configMAX_PRIORITIES_def)
  have "tty_driver_init m k = Some (\<lparr>h_lock_tx = Some lt, h_lock_rx = Some lr, h_sem_tx = Some st, h_sem_rx = Some sr,
      h_q_rx = Some qr\<rparr>, k')"
    using k'(1) unfolding k0_def by (simp add: tty_driver_init_def assms create_mutex_eq create_queue_eq queue_sizes)
  then show thesis
    using k'(2-4) more q queues_more [OF k'(5)] by (intro that [of k']) simp_all
qed

lemma create_app_tasks:
  assumes "booted [(t, TTY_TASK_PRIORITY)] k" "\<not> xSchedulerRunning k" "xTickCount k = 0" "mem_usbd m = Some u" "mem_usbhid m = Some h"
    "mem_cli m = Some c" "distinct [t, u, h, c, b]"
  obtains k1 k2 k3 where "usb_device_init m k = Some k1" "cli_setup m k1 = Some k2" "xTaskCreate (Some b) BLINK_TASK_PRIORITY k2 = Some (1, k3)"
    "booted [(b, BLINK_TASK_PRIORITY), (c, CLI_TASK_PRIORITY), (h, USB_HID_TASK_PRIORITY), (u, USBD_TASK_PRIORITY), (t, TTY_TASK_PRIORITY)] k3"
    "\<not> xSchedulerRunning k3" "xTickCount k3 = 0" "kernel.more k3 = kernel.more k"
proof -
  have p: "USBD_TASK_PRIORITY < configMAX_PRIORITIES" "USB_HID_TASK_PRIORITY < configMAX_PRIORITIES"
    "CLI_TASK_PRIORITY < configMAX_PRIORITIES" "BLINK_TASK_PRIORITY < configMAX_PRIORITIES"
    by (simp_all add: priority_defs configMAX_PRIORITIES_def)
  obtain a where a: "xTaskCreate (Some u) USBD_TASK_PRIORITY k = Some (1, a)" "booted ((u, USBD_TASK_PRIORITY) # [(t, TTY_TASK_PRIORITY)]) a"
    "\<not> xSchedulerRunning a" "xTickCount a = xTickCount k" "kernel.more a = kernel.more k"
    by (rule create_next [OF assms(1,2) _ p(1), of u]) (use assms(7) in auto)
  obtain b' where b: "xTaskCreate (Some h) USB_HID_TASK_PRIORITY a = Some (1, b')"
    "booted ((h, USB_HID_TASK_PRIORITY) # (u, USBD_TASK_PRIORITY) # [(t, TTY_TASK_PRIORITY)]) b'"
    "\<not> xSchedulerRunning b'" "xTickCount b' = xTickCount a" "kernel.more b' = kernel.more a"
    by (rule create_next [OF a(2,3) _ p(2), of h]) (use assms(7) in auto)
  obtain c' where c: "xTaskCreate (Some c) CLI_TASK_PRIORITY b' = Some (1, c')"
    "booted ((c, CLI_TASK_PRIORITY) # (h, USB_HID_TASK_PRIORITY) # (u, USBD_TASK_PRIORITY) # [(t, TTY_TASK_PRIORITY)]) c'"
    "\<not> xSchedulerRunning c'" "xTickCount c' = xTickCount b'" "kernel.more c' = kernel.more b'"
    by (rule create_next [OF b(2,3) _ p(3), of c]) (use assms(7) in auto)
  obtain d where d: "xTaskCreate (Some b) BLINK_TASK_PRIORITY c' = Some (1, d)"
    "booted ((b, BLINK_TASK_PRIORITY) # (c, CLI_TASK_PRIORITY) # (h, USB_HID_TASK_PRIORITY) # (u, USBD_TASK_PRIORITY) # [(t, TTY_TASK_PRIORITY)]) d"
    "\<not> xSchedulerRunning d" "xTickCount d = xTickCount c'" "kernel.more d = kernel.more c'"
    by (rule create_next [OF c(2,3) _ p(4), of b]) (use assms(7) in auto)
  show thesis
    using a b c d assms(3) by (intro that [of b' c' d]) (simp_all add: usb_device_init_def cli_setup_def assms(4-6))
qed

lemma create_timer_task:
  assumes "booted ts k" "\<not> xSchedulerRunning k" "xTimerQueue (tm k) = None" "t \<notin> fst ` set ts" "Suc (length ts) < 2 ^ 32"
  obtains k' where "xTimerCreateTimerTask (Some (q, mem)) (Some t) k = Some (1, k')" "booted ((t, configTIMER_TASK_PRIORITY) # ts) k'"
    "\<not> xSchedulerRunning k'" "xTickCount k' = xTickCount k"
    "queues k' = (queues k)(q := new_queue mem configTIMER_QUEUE_LENGTH sizeof_DaemonTaskMessage_t 0 (queues k q))"
    "tm k' = (tm k)\<lparr>active_lists := (\<lambda>_. kl_empty), pxCurrentTimerList := ActiveTimerList1, pxOverflowTimerList := ActiveTimerList2,
      xTimerQueue := Some q, xTimerTaskHandle := Some t\<rparr>"
proof -
  let ?k = "upd_tm (\<lambda>s. s\<lparr>active_lists := (\<lambda>_. kl_empty), pxCurrentTimerList := ActiveTimerList1, pxOverflowTimerList := ActiveTimerList2\<rparr>) k"
  define k0 where "k0 = vQueueAddToRegistry q (Some ''TmrQ'') (upd_tm (\<lambda>s. s\<lparr>xTimerQueue := Some q\<rparr>)
    (upd_queue q (new_queue mem configTIMER_QUEUE_LENGTH sizeof_DaemonTaskMessage_t 0) (empty_waiters q ?k)))"
  have p: "configTIMER_TASK_PRIORITY < configMAX_PRIORITIES" by (simp add: priority_defs configMAX_PRIORITIES_def)
  have b: "booted ts k0" using assms(1) unfolding k0_def by (simp add: booted_waiters)
  have f: "\<not> xSchedulerRunning k0" "xTickCount k0 = xTickCount k"
    "queues k0 = (queues k)(q := new_queue mem configTIMER_QUEUE_LENGTH sizeof_DaemonTaskMessage_t 0 (queues k q))"
    "tm k0 = (tm k)\<lparr>active_lists := (\<lambda>_. kl_empty), pxCurrentTimerList := ActiveTimerList1, pxOverflowTimerList := ActiveTimerList2,
      xTimerQueue := Some q\<rparr>"
    using assms(2)
    by (simp_all add: k0_def vQueueAddToRegistry_def upd_tm_def upd_queue_def empty_waiters_def upd_list_def split: option.splits)
  have c: "prvCheckForValidListAndQueue (Some (q, mem)) k = Some k0"
    by (simp add: prvCheckForValidListAndQueue_def assms(3) create_queue_eq queue_sizes k0_def Let_def)
  obtain k1 where k1: "xTaskCreate (Some t) configTIMER_TASK_PRIORITY k0 = Some (1, k1)" "booted ((t, configTIMER_TASK_PRIORITY) # ts) k1"
    "\<not> xSchedulerRunning k1" "xTickCount k1 = xTickCount k0" "kernel.more k1 = kernel.more k0"
    by (rule create_next [OF b f(1) assms(4) p assms(5)])
  define k' where "k' = upd_tm (\<lambda>s. s\<lparr>xTimerTaskHandle := Some t\<rparr>) k1"
  have "xTimerCreateTimerTask (Some (q, mem)) (Some t) k = Some (1, k')"
    using k1(1) by (simp add: xTimerCreateTimerTask_def c f(4) configASSERT_def k'_def)
  moreover have "booted ((t, configTIMER_TASK_PRIORITY) # ts) k'" using k1(2) by (simp add: k'_def)
  moreover have "xSchedulerRunning k' = xSchedulerRunning k1" "xTickCount k' = xTickCount k1" "queues k' = queues k1"
    "tm k' = (tm k1)\<lparr>xTimerTaskHandle := Some t\<rparr>" by (simp_all add: k'_def upd_tm_def)
  ultimately show thesis
    using k1(3,4) f(2-4) queues_more(1) [OF k1(5)] tm_more(1) [OF k1(5)] by (intro that [of k']) simp_all
qed

text \<open>Once the scheduler runs, nothing is delayed and the clock starts at zero.\<close>

lemma start_running:
  assumes "booted ts k" "xTickCount k = 0"
  shows "booted ts (k\<lparr>xNextTaskUnblockTime := portMAX_DELAY, xSchedulerRunning := True, xTickCount := 0\<rparr>)"
proof -
  have "state_list (tcbs k t) \<notin> {Some Delayed1, Some Delayed2}" for t
    using assms(1) by (cases "map_of ts t") (auto simp: booted_def)
  then have "delayed_ok (k\<lparr>xNextTaskUnblockTime := portMAX_DELAY, xSchedulerRunning := True, xTickCount := 0\<rparr>)" if "delayed_ok k"
    using that by (auto simp: delayed_ok_def doubleton_eq_iff)
  then show ?thesis
    using assms by (simp add: booted_def inv_defs lists_ok_def ready_ok_def quiet_def pending_def del: map_of_eq_Some_iff)
qed

lemma vTaskStartScheduler_spec:
  assumes "booted ts k" "\<not> xSchedulerRunning k" "xTickCount k = 0" "xTimerQueue (tm k) = None" "i \<notin> fst ` set ts" "t \<notin> fst ` set ts"
    "i \<noteq> t" "length ts + 2 < 2 ^ 32"
  obtains k' where "vTaskStartScheduler (Some i) (Some (q, mem)) (Some t) k = Some k'"
    "booted ((t, configTIMER_TASK_PRIORITY) # (i, tskIDLE_PRIORITY) # ts) k'" "xSchedulerRunning k'" "xTickCount k' = 0"
    "queues k' = (queues k)(q := new_queue mem configTIMER_QUEUE_LENGTH sizeof_DaemonTaskMessage_t 0 (queues k q))"
    "tm k' = (tm k)\<lparr>active_lists := (\<lambda>_. kl_empty), pxCurrentTimerList := ActiveTimerList1, pxOverflowTimerList := ActiveTimerList2,
      xTimerQueue := Some q, xTimerTaskHandle := Some t\<rparr>"
proof -
  have p: "tskIDLE_PRIORITY < configMAX_PRIORITIES" by (simp add: priority_defs configMAX_PRIORITIES_def)
  obtain k1 where k1: "xTaskCreate (Some i) tskIDLE_PRIORITY k = Some (1, k1)" "booted ((i, tskIDLE_PRIORITY) # ts) k1"
    "\<not> xSchedulerRunning k1" "xTickCount k1 = xTickCount k" "kernel.more k1 = kernel.more k"
    by (rule create_next [OF assms(1,2,5) p]) (use assms(8) in simp)
  have x: "xTimerQueue (tm k1) = None" "t \<notin> fst ` set ((i, tskIDLE_PRIORITY) # ts)" "Suc (length ((i, tskIDLE_PRIORITY) # ts)) < 2 ^ 32"
    using assms(4,6-8) tm_more(1) [OF k1(5)] by auto
  obtain k2 where k2: "xTimerCreateTimerTask (Some (q, mem)) (Some t) k1 = Some (1, k2)"
    "booted ((t, configTIMER_TASK_PRIORITY) # (i, tskIDLE_PRIORITY) # ts) k2" "\<not> xSchedulerRunning k2" "xTickCount k2 = xTickCount k1"
    "queues k2 = (queues k1)(q := new_queue mem configTIMER_QUEUE_LENGTH sizeof_DaemonTaskMessage_t 0 (queues k1 q))"
    "tm k2 = (tm k1)\<lparr>active_lists := (\<lambda>_. kl_empty), pxCurrentTimerList := ActiveTimerList1, pxOverflowTimerList := ActiveTimerList2,
      xTimerQueue := Some q, xTimerTaskHandle := Some t\<rparr>"
    by (rule create_timer_task [OF k1(2,3) x])
  show thesis
    using k1(1) k2 start_running [OF k2(2)] k1(4) assms(3) queues_more(1) [OF k1(5)] tm_more(1) [OF k1(5)]
    by (intro that [of "k2\<lparr>xNextTaskUnblockTime := portMAX_DELAY, xSchedulerRunning := True, xTickCount := 0\<rparr>"])
      (simp_all add: vTaskStartScheduler_def)
qed

lemma booted_highest:
  assumes "booted ts k"
  shows "runs_highest k" "tasks_counted k" "uxCurrentNumberOfTasks k > 0" "state_list (tcbs k t) = map_option Ready (map_of ts t)"
proof -
  have b: "sched_inv k" "distinct (map fst ts)" "length ts < 2 ^ 32" "uxCurrentNumberOfTasks k = of_nat (length ts)"
    "\<And>t. state_list (tcbs k t) = map_option Ready (map_of ts t)"
    using assms unfolding booted_def by blast+
  obtain c p where c: "pxCurrentTCB k = Some c" "map_of ts c = Some p" "\<forall>(u, q) \<in> set ts. q \<le> p"
    using assms unfolding booted_def by blast
  have m: "u \<in> set (members k (Ready q)) \<longleftrightarrow> map_of ts u = Some q" for u q
    using sched_inv_parts(3) [OF b(1)] by (auto simp: lists_ok_def b(5))
  have pr: "prio k u = q" if "map_of ts u = Some q" for u q
    using m ready_member_prio [OF b(1)] that by blast
  show "runs_highest k"
    unfolding runs_highest_def using c m pr by (intro exI [of _ c]) (auto dest!: map_of_SomeD)
  have "{t. state_list (tcbs k t) \<noteq> None} = fst ` set ts" by (auto simp: b(5) map_of_eq_None_iff)
  then have "card {t. state_list (tcbs k t) \<noteq> None} = length ts" using distinct_card [OF b(2)] by simp
  then show "tasks_counted k" using b(3) by (simp add: tasks_counted_def b(4) unat_of_nat_less)
  have "0 < length ts" using c(2) by (cases ts) auto
  then show "uxCurrentNumberOfTasks k > 0" using b(3) by (simp add: b(4) word_less_nat_alt unat_of_nat_less)
  show "state_list (tcbs k t) = map_option Ready (map_of ts t)" by (rule b(5))
qed

text \<open>Objects as they are after their creation.\<close>

definition free_mutex :: "Queue_t \<Rightarrow> bool" where
  "free_mutex Q \<longleftrightarrow> mutex_ok Q \<and> uxMessagesWaiting Q = 1 \<and> cTxLock Q = queueUNLOCKED \<and> cRxLock Q = queueUNLOCKED"

definition empty_semaphore :: "Queue_t \<Rightarrow> bool" where
  "empty_semaphore Q \<longleftrightarrow> semaphore_ok Q \<and> uxMessagesWaiting Q = 0 \<and> uxLength Q = 1 \<and> cTxLock Q = queueUNLOCKED \<and> cRxLock Q = queueUNLOCKED"

definition empty_queue :: "nat \<Rightarrow> nat \<Rightarrow> Queue_t \<Rightarrow> bool" where
  "empty_queue len sz Q \<longleftrightarrow> data_queue Q \<and> contents Q = [] \<and> unat (uxLength Q) = len \<and> unat (uxItemSize Q) = sz"

lemma new_objects:
  "free_mutex (new_mutex mem Q)" "empty_semaphore (new_queue mem 1 0 ty Q)"
  "length mem = 16 \<Longrightarrow> empty_queue 16 1 (new_queue mem 16 1 ty Q)"
  "length mem = 160 \<Longrightarrow> empty_queue 10 16 (new_queue mem configTIMER_QUEUE_LENGTH sizeof_DaemonTaskMessage_t ty Q)"
proof -
  show "free_mutex (new_mutex mem Q)" "empty_semaphore (new_queue mem 1 0 ty Q)"
    by (simp_all add: free_mutex_def empty_semaphore_def mutex_ok_def semaphore_ok_def new_mutex_def new_queue_def)
  show "empty_queue 16 1 (new_queue mem 16 1 ty Q)" if "length mem = 16"
    using that unfolding empty_queue_def data_queue_def
    by (intro conjI exI [of _ 0]) (simp_all add: new_queue_def ring_at_def contents_def Let_def)
  show "empty_queue 10 16 (new_queue mem configTIMER_QUEUE_LENGTH sizeof_DaemonTaskMessage_t ty Q)" if "length mem = 160"
    using that unfolding empty_queue_def data_queue_def
    by (intro conjI exI [of _ 0]) (simp_all add: new_queue_def ring_at_def contents_def Let_def queue_sizes)
qed

definition timers_reset :: "timer_state \<Rightarrow> bool" where
  "timers_reset s \<longleftrightarrow> xTimerQueue s = None \<and> xLastTime s = 0 \<and> (\<forall>t. timer_container (timers s t) = None)"

text \<open>
  C8. From reset to the first task. When the allocator serves every request with distinct blocks of the right size, \<open>main\<close> creates the
  five tasks of the application, the idle task and the timer task, and starts the scheduler without failing an assertion. The invariant
  of the scheduler holds, all seven tasks are ready with their configured priorities, the USB task is the first to run, and it is the
  task of highest priority. The mutexes of the terminal driver are free, its semaphores and its queue are empty, and the timer service
  is set up with an empty queue and no active timer.
\<close>

theorem main_boots:
  assumes "at_reset k" "timers_reset (tm k)" "distinct [lt, lr, st, sr, qr, qt]" "distinct [tty, usbd, hid, cli, led, idle, tmr]"
    "length b5 = 16" "length b6 = 160"
    "m = \<lparr>mem_lock_tx = Some (lt, b1), mem_lock_rx = Some (lr, b2), mem_sem_tx = Some (st, b3), mem_sem_rx = Some (sr, b4),
      mem_q_rx = Some (qr, b5), mem_tty = Some tty, mem_usbd = Some usbd, mem_usbhid = Some hid, mem_cli = Some cli,
      mem_led = Some led, mem_idle = Some idle, mem_q_timer = Some (qt, b6), mem_timer = Some tmr\<rparr>"
  shows "\<exists>k'. main_boot m k = Some (\<lparr>h_lock_tx = Some lt, h_lock_rx = Some lr, h_sem_tx = Some st, h_sem_rx = Some sr, h_q_rx = Some qr\<rparr>, k') \<and>
    can_run usbd k' \<and> xSchedulerRunning k' \<and> xTickCount k' = 0 \<and> runs_highest k' \<and> tasks_counted k' \<and> uxCurrentNumberOfTasks k' = 7 \<and>
    (\<forall>t. state_list (tcbs k' t) = map_option Ready (map_of [(tmr, 2), (idle, 0), (led, 3), (cli, 2), (hid, 39), (usbd, 40), (tty, 30)] t)) \<and>
    free_mutex (queues k' lt) \<and> free_mutex (queues k' lr) \<and> empty_semaphore (queues k' st) \<and> empty_semaphore (queues k' sr) \<and>
    empty_queue 16 1 (queues k' qr) \<and> empty_queue 10 16 (queues k' qt) \<and>
    xTimerQueue (tm k') = Some qt \<and> xTimerTaskHandle (tm k') = Some tmr \<and> timer_inv 0 E (tm k')"
proof -
  obtain k1 where k1: "tty_driver_init m k = Some (\<lparr>h_lock_tx = Some lt, h_lock_rx = Some lr, h_sem_tx = Some st, h_sem_rx = Some sr,
      h_q_rx = Some qr\<rparr>, k1)" "booted [(tty, TTY_TASK_PRIORITY)] k1" "\<not> xSchedulerRunning k1" "xTickCount k1 = 0"
    "qkernel.more k1 = qkernel.more k" "xQueueRegistry k1 = xQueueRegistry k"
    "distinct [lt, lr, st, sr, qr] \<Longrightarrow> queues k1 = (queues k)(lt := new_mutex b1 (queues k lt), lr := new_mutex b2 (queues k lr),
      st := new_queue b3 1 0 queueQUEUE_TYPE_BINARY_SEMAPHORE (queues k st),
      sr := new_queue b4 1 0 queueQUEUE_TYPE_BINARY_SEMAPHORE (queues k sr), qr := new_queue b5 16 1 queueQUEUE_TYPE_BASE (queues k qr))"
    by (rule tty_driver_init_spec [OF assms(1), of m lt b1 lr b2 st b3 sr b4 qr b5 tty]) (simp_all add: assms(7))
  obtain k2 k3 k4 where k4: "usb_device_init m k1 = Some k2" "cli_setup m k2 = Some k3"
    "xTaskCreate (Some led) BLINK_TASK_PRIORITY k3 = Some (1, k4)"
    "booted [(led, BLINK_TASK_PRIORITY), (cli, CLI_TASK_PRIORITY), (hid, USB_HID_TASK_PRIORITY), (usbd, USBD_TASK_PRIORITY), (tty, TTY_TASK_PRIORITY)] k4"
    "\<not> xSchedulerRunning k4" "xTickCount k4 = 0" "kernel.more k4 = kernel.more k1"
    by (rule create_app_tasks [OF k1(2-4), of m usbd hid cli led]) (use assms(4) in \<open>simp_all add: assms(7)\<close>)
  have tm4: "tm k4 = tm k" using tm_more(1) [OF k4(7)] tm_more(2) [OF k1(5)] by simp
  obtain k' where k': "vTaskStartScheduler (Some idle) (Some (qt, b6)) (Some tmr) k4 = Some k'"
    "booted [(tmr, configTIMER_TASK_PRIORITY), (idle, tskIDLE_PRIORITY), (led, BLINK_TASK_PRIORITY), (cli, CLI_TASK_PRIORITY),
      (hid, USB_HID_TASK_PRIORITY), (usbd, USBD_TASK_PRIORITY), (tty, TTY_TASK_PRIORITY)] k'"
    "xSchedulerRunning k'" "xTickCount k' = 0"
    "queues k' = (queues k4)(qt := new_queue b6 configTIMER_QUEUE_LENGTH sizeof_DaemonTaskMessage_t 0 (queues k4 qt))"
    "tm k' = (tm k4)\<lparr>active_lists := (\<lambda>_. kl_empty), pxCurrentTimerList := ActiveTimerList1, pxOverflowTimerList := ActiveTimerList2,
      xTimerQueue := Some qt, xTimerTaskHandle := Some tmr\<rparr>"
    by (rule vTaskStartScheduler_spec [OF k4(4-6), of idle tmr qt b6]) (use assms(2,4) in \<open>auto simp: tm4 timers_reset_def\<close>)
  note b = booted_highest [OF k'(2)]
  have cur: "pxCurrentTCB k' = Some usbd"
    using k'(2) assms(4) unfolding booted_def by (auto simp: priority_defs split: if_splits)
  have "can_run usbd k'" using k'(2) b(3) cur unfolding can_run_def booted_def by blast
  moreover have "uxCurrentNumberOfTasks k' = 7" using k'(2) unfolding booted_def by simp
  moreover have "main_boot m k = Some (\<lparr>h_lock_tx = Some lt, h_lock_rx = Some lr, h_sem_tx = Some st, h_sem_rx = Some sr, h_q_rx = Some qr\<rparr>, k')"
    using k1(1) k4(1-3) k'(1) by (simp add: main_boot_def assms(7))
  moreover have "queues k' = (queues k1)(qt := new_queue b6 configTIMER_QUEUE_LENGTH sizeof_DaemonTaskMessage_t 0 (queues k1 qt))"
    using k'(5) queues_more(1) [OF k4(7)] by simp
  moreover have "timer_inv 0 E (tm k')"
    using assms(2) by (simp add: k'(6) tm4 timer_inv_def timers_ok_def timers_reset_def)
  ultimately show ?thesis
    using k'(3,4,6) b(1,2,4) k1(7) assms(3,5,6) unfolding priority_defs by (intro exI [of _ k'] conjI) (auto simp: new_objects simp del: One_nat_def)
qed

text \<open>Without memory for the idle task, the timer task or the queue of the timers the processor stops.\<close>

lemma start_out_of_memory:
  "vTaskStartScheduler None alloc_q alloc_t k = None"
  "xTaskCreate (Some i) tskIDLE_PRIORITY k = Some (1, k1) \<Longrightarrow> xTimerQueue (tm k1) = None \<Longrightarrow> vTaskStartScheduler (Some i) None alloc_t k = None"
  "vTaskStartScheduler (Some i) alloc_q None k = None"
proof -
  show "vTaskStartScheduler None alloc_q alloc_t k = None"
    by (simp add: vTaskStartScheduler_def xTaskCreate_def configASSERT_def)
  show "vTaskStartScheduler (Some i) None alloc_t k = None"
    if "xTaskCreate (Some i) tskIDLE_PRIORITY k = Some (1, k1)" "xTimerQueue (tm k1) = None"
    using that by (simp add: vTaskStartScheduler_def xTimerCreateTimerTask_def prvCheckForValidListAndQueue_def
        xQueueGenericCreate_def queue_sizes configASSERT_def upd_tm_def Let_def)
  show "vTaskStartScheduler (Some i) alloc_q None k = None"
    by (auto simp: vTaskStartScheduler_def xTimerCreateTimerTask_def xTaskCreate_def configASSERT_def split: bind_splits)
qed

section \<open>The LED and the button\<close>

text \<open>
  One round of \<open>BlinkLed_Task\<close>. The pin of the button is low while it is pressed and is read twice; the result tells whether the LED
  is toggled and the number that is printed. A round ends with \<open>vTaskDelay\<close>.
\<close>

record blink =
  cnt :: u16
  blink_i :: u16
  button_was_pressed :: bool

definition blink_start :: blink where
  "blink_start = \<lparr>cnt = 0, blink_i = 0, button_was_pressed = False\<rparr>"

definition pdMS_TO_TICKS :: "TickType_t \<Rightarrow> TickType_t" where
  "pdMS_TO_TICKS ms = (ms * 1000) div 1000"

definition BlinkLed_round :: "bool \<Rightarrow> bool \<Rightarrow> blink \<Rightarrow> (bool \<times> u16 option) \<times> blink" where
  "BlinkLed_round pin1 pin2 b = (
     let b = b\<lparr>blink_i := blink_i b + 1\<rparr>;
         toggle = (10 = blink_i b);
         b = (if toggle then b\<lparr>blink_i := 0\<rparr> else b);
         press = (\<not> pin1 \<and> \<not> button_was_pressed b);
         b = (if press then b\<lparr>cnt := cnt b + 1, button_was_pressed := True\<rparr> else b);
         out = (if press then Some (cnt b) else None);
         b = (if pin2 then b\<lparr>button_was_pressed := False\<rparr> else b)
     in ((toggle, out), b))"

definition BlinkLed_step :: "bool \<Rightarrow> bool \<Rightarrow> blink \<times> 'z kernel_scheme \<Rightarrow> ((bool \<times> u16 option) \<times> blink \<times> 'z kernel_scheme) option" where
  "BlinkLed_step pin1 pin2 s = (
     let (out, b) = BlinkLed_round pin1 pin2 (fst s) in do {
       k \<leftarrow> vTaskDelay (pdMS_TO_TICKS 50) (snd s);
       Some (out, b, k)
     })"

text \<open>The rounds for the readings of the pin.\<close>

fun blink_rounds :: "(bool \<times> bool) list \<Rightarrow> blink \<Rightarrow> (bool \<times> u16 option) list \<times> blink" where
  "blink_rounds [] b = ([], b)"
| "blink_rounds (p # ps) b = (
     let (out, b) = BlinkLed_round (fst p) (snd p) b; (outs, b) = blink_rounds ps b in (out # outs, b))"

lemma blink_rounds_snoc:
  "blink_rounds (ps @ [p]) b = (case blink_rounds ps b of (outs, b) \<Rightarrow>
     case BlinkLed_round (fst p) (snd p) b of (out, b) \<Rightarrow> (outs @ [out], b))"
  by (induction ps arbitrary: b) (simp_all split: prod.splits)

lemma blink_rounds_length: "length (fst (blink_rounds ps b)) = length ps"
  by (induction ps arbitrary: b) (simp_all split: prod.splits, metis fst_conv)

text \<open>Round \<open>m\<close> printed a number, and the button has been seen released since.\<close>

definition printed :: "(bool \<times> u16 option) list \<Rightarrow> nat \<Rightarrow> bool" where
  "printed outs m \<longleftrightarrow> snd (outs ! m) \<noteq> None"

definition button_released :: "(bool \<times> bool) list \<Rightarrow> nat \<Rightarrow> nat \<Rightarrow> bool" where
  "button_released ps m n \<longleftrightarrow> (\<exists>j. m \<le> j \<and> j < n \<and> snd (ps ! j))"

definition blink_ok :: "(bool \<times> bool) list \<Rightarrow> (bool \<times> u16 option) list \<Rightarrow> nat \<Rightarrow> bool" where
  "blink_ok ps outs n \<longleftrightarrow>
     fst (outs ! n) = (Suc n mod 10 = 0) \<and>
     printed outs n = (\<not> fst (ps ! n) \<and> (\<forall>m < n. printed outs m \<longrightarrow> button_released ps m n)) \<and>
     (printed outs n \<longrightarrow> snd (outs ! n) = Some (of_nat (card {m. m \<le> n \<and> printed outs m})))"

lemma button_released_snoc:
  "n \<le> length ps \<Longrightarrow> button_released (ps @ [p]) m n = button_released ps m n"
  "button_released (ps @ [p]) m (Suc (length ps)) = (button_released ps m (length ps) \<or> m \<le> length ps \<and> snd p)"
proof -
  show prefix: "button_released (ps @ [p]) m n = button_released ps m n" if "n \<le> length ps" for n
  proof -
    have "snd ((ps @ [p]) ! j) = snd (ps ! j)" if "j < n" for j using that \<open>n \<le> length ps\<close> by (simp add: nth_append)
    then show ?thesis unfolding button_released_def by (intro ex_cong1) auto
  qed
  have "button_released (ps @ [p]) m (Suc (length ps)) = (button_released (ps @ [p]) m (length ps) \<or> m \<le> length ps \<and> snd ((ps @ [p]) ! length ps))"
    unfolding button_released_def less_Suc_eq by blast
  then show "button_released (ps @ [p]) m (Suc (length ps)) = (button_released ps m (length ps) \<or> m \<le> length ps \<and> snd p)"
    by (simp add: prefix)
qed

lemma blink_ok_snoc:
  assumes "n < length ps" "length os = length ps"
  shows "blink_ok (ps @ [p]) (os @ [out]) n = blink_ok ps os n"
proof -
  have "(os @ [out]) ! m = os ! m" if "m \<le> n" for m using that assms by (simp add: nth_append)
  then have e: "(os @ [out]) ! n = os ! n" "\<And>m. m \<le> n \<Longrightarrow> printed (os @ [out]) m = printed os m" by (simp_all add: printed_def)
  then have "{m. m \<le> n \<and> printed (os @ [out]) m} = {m. m \<le> n \<and> printed os m}" by auto
  then show ?thesis
    using assms e unfolding blink_ok_def by (simp add: button_released_snoc(1) nth_append [of ps])
qed

lemma tenth_round: "c < 10 \<Longrightarrow> (10 = (of_nat c :: u16) + 1) = (c = 9)"
proof -
  assume "c < 10"
  then have "c \<in> {0, 1, 2, 3, 4, 5, 6, 7, 8, 9}" by auto
  then show ?thesis by (elim insertE emptyE) simp_all
qed

lemma round_count:
  assumes "blink_i b = of_nat (n mod 10)" "BlinkLed_round pin1 pin2 b = (out, b')"
  shows "fst out = (Suc n mod 10 = 0)" "blink_i b' = of_nat (Suc n mod 10)"
    "snd out = (if \<not> pin1 \<and> \<not> button_was_pressed b then Some (cnt b + 1) else None)"
    "cnt b' = (if snd out = None then cnt b else cnt b + 1)"
    "button_was_pressed b' = (\<not> pin2 \<and> (button_was_pressed b \<or> snd out \<noteq> None))"
proof -
  have c: "(10 = blink_i b + 1) = (n mod 10 = 9)" unfolding assms(1) by (rule tenth_round) simp
  have m: "Suc n mod 10 = (if n mod 10 = 9 then 0 else Suc (n mod 10))" by (simp add: mod_Suc)
  show "fst out = (Suc n mod 10 = 0)" "snd out = (if \<not> pin1 \<and> \<not> button_was_pressed b then Some (cnt b + 1) else None)"
    "cnt b' = (if snd out = None then cnt b else cnt b + 1)" "button_was_pressed b' = (\<not> pin2 \<and> (button_was_pressed b \<or> snd out \<noteq> None))"
    using assms(2) c m by (auto simp: BlinkLed_round_def Let_def split: if_splits)
  have "blink_i b' = (if 10 = blink_i b + 1 then 0 else blink_i b + 1)"
    using assms(2) by (auto simp: BlinkLed_round_def Let_def split: if_splits)
  then have "blink_i b' = (if n mod 10 = 9 then 0 else blink_i b + 1)" by (simp only: c)
  then show "blink_i b' = of_nat (Suc n mod 10)" unfolding m assms(1) by simp
qed

lemma blink_inv:
  assumes "blink_rounds ps blink_start = (outs, b)"
  shows "blink_i b = of_nat (length ps mod 10) \<and> cnt b = of_nat (card {m. m < length ps \<and> printed outs m}) \<and>
    button_was_pressed b = (\<exists>m < length ps. printed outs m \<and> \<not> button_released ps m (length ps)) \<and> (\<forall>n < length ps. blink_ok ps outs n)"
  using assms
proof (induction ps arbitrary: outs b rule: rev_induct)
  case Nil
  then show ?case by (auto simp: blink_start_def)
next
  case (snoc p ps)
  let ?N = "length ps"
  obtain os b0 where r: "blink_rounds ps blink_start = (os, b0)" by fastforce
  obtain out where o: "BlinkLed_round (fst p) (snd p) b0 = (out, b)" and outs: "outs = os @ [out]"
    using snoc.prems r by (auto simp: blink_rounds_snoc split: prod.splits)
  have len: "length os = ?N" using blink_rounds_length [of ps blink_start] r by simp
  note ih = snoc.IH [OF r]
  note c = round_count [OF conjunct1 [OF ih] o]
  have pr: "printed outs m = printed os m" if "m < ?N" for m using that len by (simp add: printed_def outs nth_append)
  have last: "outs ! ?N = out" "printed outs ?N = (snd out \<noteq> None)" using len by (simp_all add: printed_def outs nth_append)
  have set: "{m. m < Suc ?N \<and> printed outs m} = {m. m < ?N \<and> printed os m} \<union> (if snd out = None then {} else {?N})"
    using pr last(2) by (auto simp: less_Suc_eq)
  have cnt: "cnt b = of_nat (card {m. m < Suc ?N \<and> printed outs m})"
    using ih c(4) unfolding set by simp
  have no: "\<not> button_was_pressed b0 \<longleftrightarrow> (\<forall>m < ?N. printed outs m \<longrightarrow> button_released ps m ?N)"
    using ih pr by auto
  have "blink_ok (ps @ [p]) outs ?N"
  proof -
    have "printed outs ?N = (\<not> fst p \<and> (\<forall>m < ?N. printed outs m \<longrightarrow> button_released ps m ?N))" using c(3) last no by auto
    moreover have "printed outs ?N \<Longrightarrow> snd (outs ! ?N) = Some (cnt b)" using c(3,4) last by (auto split: if_splits)
    ultimately show ?thesis
      using c(1) last cnt unfolding blink_ok_def by (simp add: button_released_snoc(1) less_Suc_eq_le)
  qed
  moreover have "blink_ok (ps @ [p]) outs n" if "n < ?N" for n
    using blink_ok_snoc [OF that len] that ih by (simp add: outs)
  moreover have "button_was_pressed b = (\<exists>m < Suc ?N. printed outs m \<and> \<not> button_released (ps @ [p]) m (Suc ?N))"
  proof -
    have "button_was_pressed b0 = (\<exists>m < ?N. printed outs m \<and> \<not> button_released ps m ?N)" using ih pr by auto
    moreover have "\<not> button_released ps ?N ?N" by (simp add: button_released_def)
    ultimately show ?thesis unfolding button_released_snoc(2) c(5) less_Suc_eq using last by auto
  qed
  ultimately show ?case using c(2) cnt by (simp add: less_Suc_eq)
qed

text \<open>
  The LED is toggled in every tenth round, that is every half second. A number is printed in a round in which the button is first
  read as pressed, provided that it has been read as released at the end of a round since the last number was printed, so a press that
  lasts for many rounds is counted once; the numbers count the presses, modulo \<open>2\<^sup>1\<^sup>6\<close>. A round ends in a delay of 50 ticks.
\<close>

theorem BlinkLed_counts_presses:
  assumes "blink_rounds ps blink_start = (outs, b)"
  shows "length outs = length ps \<and> (\<forall>n < length ps. blink_ok ps outs n) \<and> pdMS_TO_TICKS 50 = 50"
  using blink_inv [OF assms] blink_rounds_length [of ps blink_start] assms by (simp add: pdMS_TO_TICKS_def)

section \<open>Concrete states\<close>

definition reset_tkernel :: tkernel where
  "reset_tkernel = kernel.extend
     \<lparr>tcbs = (\<lambda>_. zero_tcb), task_lists = (\<lambda>_. kl_empty), pxCurrentTCB = None, pxDelayedTaskList = Delayed1, pxOverflowDelayedTaskList = Delayed1,
      uxDeletedTasksWaitingCleanUp = 0, uxCurrentNumberOfTasks = 0, xTickCount = 0, uxTopReadyPriority = 0, xSchedulerRunning = False,
      xPendedTicks = 0, xYieldPending = False, xNumOfOverflows = 0, uxTaskNumber = 0, xNextTaskUnblockTime = 0, uxSchedulerSuspended = 0,
      pendsv = False\<rparr>
     \<lparr>queues = (\<lambda>_. \<lparr>storage = [], pcHead = None, pcWriteTo = 0, u_ptrs = SemaphoreData None 0, uxMessagesWaiting = 0, uxLength = 0,
        uxItemSize = 0, cRxLock = 0, cTxLock = 0, uxQueueNumber = 0, ucQueueType = 0\<rparr>), xQueueRegistry = replicate 8 (None, None),
      event_groups = (\<lambda>_. \<lparr>uxEventBits = 0, uxEventGroupNumber = 0\<rparr>),
      tm = \<lparr>timers = (\<lambda>_. \<lparr>pcTimerName = [], timer_value = 0, timer_container = None, xTimerPeriodInTicks = 0, pvTimerID = 0,
          pxCallbackFunction = 0, uxTimerNumber = 0, ucStatus = 0\<rparr>), active_lists = (\<lambda>_. kl_empty), pxCurrentTimerList = ActiveTimerList1,
        pxOverflowTimerList = ActiveTimerList1, xTimerQueue = None, xTimerTaskHandle = None, xLastTime = 0, fired = []\<rparr>\<rparr>"

definition boot_memory_demo :: boot_memory where
  "boot_memory_demo = \<lparr>mem_lock_tx = Some (1, []), mem_lock_rx = Some (2, []), mem_sem_tx = Some (3, []), mem_sem_rx = Some (4, []),
      mem_q_rx = Some (5, replicate 16 0), mem_tty = Some 1, mem_usbd = Some 2, mem_usbhid = Some 3, mem_cli = Some 4,
      mem_led = Some 5, mem_idle = Some 6, mem_q_timer = Some (6, replicate 160 0), mem_timer = Some 7\<rparr>"

lemma reset_tkernel_ok: "at_reset reset_tkernel" "timers_reset (tm reset_tkernel)"
proof -
  show "at_reset reset_tkernel"
    by (simp add: at_reset_def reset_tkernel_def prvInitialiseTaskLists_eq initial_lists_def fun_eq_iff zero_tcb_def split: list_id.splits)
  show "timers_reset (tm reset_tkernel)" by (simp add: timers_reset_def reset_tkernel_def kernel.defs)
qed

theorem main_boots_witness:
  "\<exists>h k'. main_boot boot_memory_demo reset_tkernel = Some (h, k') \<and> can_run 2 k' \<and> xSchedulerRunning k' \<and> runs_highest k' \<and>
    uxCurrentNumberOfTasks k' = 7 \<and> free_mutex (queues k' 1) \<and> xTimerQueue (tm k') = Some 6"
  using main_boots [OF reset_tkernel_ok, of 1 2 3 4 5 6 1 2 3 4 5 6 7 "replicate 16 0" "replicate 160 0" boot_memory_demo "[]" "[]" "[]" "[]" "\<lambda>_. 0"]
  by (auto simp: boot_memory_demo_def)

theorem BlinkLed_counts_presses_witness:
  "map snd (fst (blink_rounds [(True, True), (False, False), (False, False), (False, True), (True, True), (False, False)] blink_start)) =
     [None, Some 1, None, None, None, Some 2] \<and>
   blink_ok [(True, True), (False, False), (False, False), (False, True), (True, True), (False, False)]
      (fst (blink_rounds [(True, True), (False, False), (False, False), (False, True), (True, True), (False, False)] blink_start)) 5"
proof -
  let ?ps = "[(True, True), (False, False), (False, False), (False, True), (True, True), (False, False)]"
  have "map snd (fst (blink_rounds ?ps blink_start)) = [None, Some 1, None, None, None, Some 2]"
    by (simp add: BlinkLed_round_def blink_start_def)
  moreover have "blink_ok ?ps (fst (blink_rounds ?ps blink_start)) 5"
    using BlinkLed_counts_presses [of ?ps "fst (blink_rounds ?ps blink_start)" "snd (blink_rounds ?ps blink_start)"] by simp
  ultimately show ?thesis by blast
qed

end
