(* ===== verification/I2c_Flash.thy ===== *)
theory I2c_Flash
  imports Boot
begin

text \<open>
  The driver of the serial memory, \<open>Src/i2c_flash.c\<close>, as far as it has been written: it serialises its callers with a mutex and lets
  them wait for a semaphore that the interrupt handler should give.
\<close>

section \<open>The driver\<close>

text \<open>The buffers are addresses: no code of the driver reads or writes through them.\<close>

record i2c_flash =
  flash_tx_buf :: u32
  flash_rx_buf :: u32
  flash_lock :: "nat option"
  flash_smph :: "nat option"
  flash_tx_len :: u8
  flash_rx_len :: u8

record flash_kernel = qkernel +
  i2c_flash :: i2c_flash

text \<open>The memory of the mutex and the semaphore comes from the heap; pins, clocks and the bus are not part of the state.\<close>

definition i2c_flash_init ::
  "(nat \<times> u8 list) option \<Rightarrow> (nat \<times> u8 list) option \<Rightarrow> 'z flash_kernel_scheme \<Rightarrow> (int \<times> 'z flash_kernel_scheme) option" where
  "i2c_flash_init mem_lock mem_smph k = do {
     (l, k) \<leftarrow> xQueueCreateMutex mem_lock queueQUEUE_TYPE_MUTEX k;
     let k = k\<lparr>i2c_flash := (i2c_flash k)\<lparr>flash_lock := l\<rparr>\<rparr>;
     (s, k) \<leftarrow> xQueueGenericCreate mem_smph 1 0 queueQUEUE_TYPE_BINARY_SEMAPHORE k;
     let k = k\<lparr>i2c_flash := (i2c_flash k)\<lparr>flash_smph := s\<rparr>\<rparr>;
     Some (0, k)
   }"

text \<open>Where a call of \<open>i2c_flash_write\<close> stands. To take a semaphore that was not created fails the assertion of the kernel.\<close>

datatype flash_call = FlashReturned int | FlashAtLock wait_locals | FlashAtSmph wait_locals

definition i2c_flash_write_done :: "'z flash_kernel_scheme \<Rightarrow> (flash_call \<times> 'z flash_kernel_scheme) option" where
  "i2c_flash_write_done k = do {
     l \<leftarrow> flash_lock (i2c_flash k);
     (_, k) \<leftarrow> xQueueGenericSend l None 0 queueSEND_TO_BACK k;
     Some (FlashReturned 0, k)
   }"

definition i2c_flash_write_locked :: "u32 \<Rightarrow> u8 \<Rightarrow> 'z flash_kernel_scheme \<Rightarrow> (flash_call \<times> 'z flash_kernel_scheme) option" where
  "i2c_flash_write_locked buf len k = do {
     let k = k\<lparr>i2c_flash := (i2c_flash k)\<lparr>flash_tx_buf := buf, flash_tx_len := len\<rparr>\<rparr>;
     s \<leftarrow> flash_smph (i2c_flash k);
     (r, k) \<leftarrow> xQueueSemaphoreTake s portMAX_DELAY k;
     case r of Again w \<Rightarrow> Some (FlashAtSmph w, k) | Returned _ \<Rightarrow> i2c_flash_write_done k
   }"

definition i2c_flash_write :: "u32 \<Rightarrow> u8 \<Rightarrow> 'z flash_kernel_scheme \<Rightarrow> (flash_call \<times> 'z flash_kernel_scheme) option" where
  "i2c_flash_write buf len k = do {
     l \<leftarrow> flash_lock (i2c_flash k);
     (r, k) \<leftarrow> xQueueSemaphoreTake l portMAX_DELAY k;
     case r of Again w \<Rightarrow> Some (FlashAtLock w, k) | Returned _ \<Rightarrow> i2c_flash_write_locked buf len k
   }"

definition i2c_flash_write_resume ::
  "u32 \<Rightarrow> u8 \<Rightarrow> flash_call \<Rightarrow> 'z flash_kernel_scheme \<Rightarrow> (flash_call \<times> 'z flash_kernel_scheme) option" where
  "i2c_flash_write_resume buf len c k =
     (case c of
        FlashReturned n \<Rightarrow> Some (FlashReturned n, k)
      | FlashAtLock w \<Rightarrow> do {
          l \<leftarrow> flash_lock (i2c_flash k);
          (r, k) \<leftarrow> take_pass l w k;
          case r of Again w \<Rightarrow> Some (FlashAtLock w, k) | Returned _ \<Rightarrow> i2c_flash_write_locked buf len k }
      | FlashAtSmph w \<Rightarrow> do {
          s \<leftarrow> flash_smph (i2c_flash k);
          (r, k) \<leftarrow> take_pass s w k;
          case r of Again w \<Rightarrow> Some (FlashAtSmph w, k) | Returned _ \<Rightarrow> i2c_flash_write_done k })"

text \<open>Reading and the interrupt handler are empty.\<close>

definition i2c_flash_read :: "u32 \<Rightarrow> u8 \<Rightarrow> 'z flash_kernel_scheme \<Rightarrow> int \<times> 'z flash_kernel_scheme" where
  "i2c_flash_read buf len k = (0, k)"

definition I2C1_EV_IRQHandler :: "'z flash_kernel_scheme \<Rightarrow> 'z flash_kernel_scheme" where
  "I2C1_EV_IRQHandler k = k"

section \<open>A write does not return\<close>

text \<open>What can happen while the writer waits: ticks, interrupts of the bus and switches to other tasks.\<close>

datatype flash_event = Tick | BusEvent | Switch

fun flash_run :: "flash_event list \<Rightarrow> 'z flash_kernel_scheme \<Rightarrow> 'z flash_kernel_scheme option" where
  "flash_run [] k = Some k"
| "flash_run (Tick # es) k = do { (_, k) \<leftarrow> xTaskIncrementTick k; flash_run es k }"
| "flash_run (BusEvent # es) k = flash_run es (I2C1_EV_IRQHandler k)"
| "flash_run (Switch # es) k = do { k \<leftarrow> vTaskSwitchContext k; flash_run es k }"

definition flash_idle :: "nat \<Rightarrow> nat \<Rightarrow> 'z flash_kernel_scheme \<Rightarrow> bool" where
  "flash_idle l s k \<longleftrightarrow> flash_lock (i2c_flash k) = Some l \<and> flash_smph (i2c_flash k) = Some s \<and> l \<noteq> s \<and>
     mutex_ok (queues k l) \<and> uxMessagesWaiting (queues k l) = 1 \<and> members k (WaitingToSend l) = [] \<and>
     semaphore_ok (queues k s) \<and> uxMessagesWaiting (queues k s) = 0 \<and> cTxLock (queues k s) = queueUNLOCKED \<and>
     cRxLock (queues k s) = queueUNLOCKED"

text \<open>The task \<open>c\<close> waits for the semaphore \<open>s\<close> without limit while another task can run.\<close>

definition stuck_on :: "nat \<Rightarrow> tid \<Rightarrow> 'z kernel_scheme \<Rightarrow> bool" where
  "stuck_on s c k \<longleftrightarrow> sched_inv k \<and> uxSchedulerSuspended k = 0 \<and> pxCurrentTCB k \<noteq> None \<and>
     state_list (tcbs k c) = Some SuspendedTaskList \<and> event_list (tcbs k c) = Some (WaitingToReceive s) \<and>
     (\<exists>d p. state_list (tcbs k d) = Some (Ready p))"

lemma flash_more:
  assumes "qkernel.more k' = qkernel.more k"
  shows "i2c_flash k' = i2c_flash k"
  using assms by (cases k; cases k'; simp)

lemma flash_field [simp]:
  "sched_inv (k\<lparr>i2c_flash := a\<rparr>) = sched_inv k" "quiet (k\<lparr>i2c_flash := a\<rparr>) = quiet k"
  "can_block q c (k\<lparr>i2c_flash := a\<rparr>) = can_block q c k" "may_wait n (k\<lparr>i2c_flash := a\<rparr>) = may_wait n k"
  by (simp_all add: inv_defs lists_ok_def ready_ok_def delayed_ok_def quiet_def pending_def can_block_def may_wait_def
      xTaskGetSchedulerState_def)

lemma stuck_tick:
  assumes "stuck_on s c k"
  obtains sw k' where "xTaskIncrementTick k = Some (sw, k')" "stuck_on s c k'" "kernel.more k' = kernel.more k"
proof -
  obtain r d p where r: "sched_inv k" "uxSchedulerSuspended k = 0" "pxCurrentTCB k = Some r" "state_list (tcbs k d) = Some (Ready p)"
    using assms by (auto simp: stuck_on_def)
  obtain sw k' where k': "xTaskIncrementTick k = Some (sw, k')" "sched_inv k'" "same_task_count k k'"
    "tcbs k' = (\<lambda>t. if expires k t then wake_tcb (tcbs k t) else tcbs k t)"
    by (rule xTaskIncrementTick_spec [OF r(1-3)])
  have "\<not> expires k c" "\<not> expires k d" using assms r(4) by (auto simp: stuck_on_def expires_def blocked_def)
  then have "tcbs k' c = tcbs k c" "tcbs k' d = tcbs k d" by (simp_all add: k'(4))
  then have "state_list (tcbs k' c) = state_list (tcbs k c)" "event_list (tcbs k' c) = event_list (tcbs k c)"
    "state_list (tcbs k' d) = Some (Ready p)" using r(4) by simp_all
  then have "stuck_on s c k'" using assms r k'(2,3) unfolding stuck_on_def same_task_count_def by auto
  then show thesis using k'(3) by (intro that [OF k'(1)]) (simp_all add: same_task_count_def)
qed

lemma stuck_switch:
  assumes "stuck_on s c k"
  obtains k' where "vTaskSwitchContext k = Some k'" "stuck_on s c k'" "kernel.more k' = kernel.more k"
proof -
  obtain d p where d: "sched_inv k" "uxSchedulerSuspended k = 0" "state_list (tcbs k d) = Some (Ready p)"
    using assms by (auto simp: stuck_on_def)
  have "d \<in> set (members k (Ready p))" using sched_inv_parts(3) [OF d(1)] d(3) by (simp add: lists_ok_def)
  then have "members k (Ready p) \<noteq> []" by auto
  then obtain k' where k': "vTaskSwitchContext k = Some k'" "sched_inv k'" "runs_highest k'" "tcbs k' = tcbs k"
    using vTaskSwitchContext_spec [OF d(1,2)] by blast
  then have "stuck_on s c k'" using assms switch_more [OF k'(1)] by (auto simp: stuck_on_def runs_highest_def)
  then show thesis using k'(1) switch_more [OF k'(1)] by (intro that)
qed

lemma stuck_run: "stuck_on s c k \<Longrightarrow> \<exists>k'. flash_run es k = Some k' \<and> stuck_on s c k' \<and> kernel.more k' = kernel.more k"
proof (induction es arbitrary: k)
  case (Cons e es)
  show ?case
  proof (cases e)
    case Tick
    obtain sw k1 where "xTaskIncrementTick k = Some (sw, k1)" "stuck_on s c k1" "kernel.more k1 = kernel.more k"
      by (rule stuck_tick [OF Cons.prems])
    then show ?thesis using Cons.IH [of k1] Tick by simp
  next
    case BusEvent
    then show ?thesis using Cons by (simp add: I2C1_EV_IRQHandler_def)
  next
    case Switch
    obtain k1 where "vTaskSwitchContext k = Some k1" "stuck_on s c k1" "kernel.more k1 = kernel.more k"
      by (rule stuck_switch [OF Cons.prems])
    then show ?thesis using Cons.IH [of k1] Switch by simp
  qed
qed simp

lemma i2c_flash_write_waits:
  assumes "sched_inv k" "quiet k" "pxCurrentTCB k = Some c" "state_list (tcbs k c) = Some (Ready (prio k c))"
    "uxCurrentNumberOfTasks k > 0" "may_wait portMAX_DELAY k" "flash_idle l s k" "state_list (tcbs k d) = Some (Ready p)" "d \<noteq> c"
  obtains w k1 where "i2c_flash_write buf len k = Some (FlashAtSmph w, k1)" "stuck_on s c k1"
    "mutex_holder (queues k1 l) = Some (Some c)" "i2c_flash k1 = (i2c_flash k)\<lparr>flash_tx_buf := buf, flash_tx_len := len\<rparr>"
proof -
  have f: "flash_lock (i2c_flash k) = Some l" "flash_smph (i2c_flash k) = Some s" "l \<noteq> s" "mutex_ok (queues k l)"
    "uxMessagesWaiting (queues k l) = 1" "members k (WaitingToSend l) = []" "semaphore_ok (queues k s)"
    "uxMessagesWaiting (queues k s) = 0" "cTxLock (queues k s) = queueUNLOCKED" "cRxLock (queues k s) = queueUNLOCKED"
    using assms(7) by (simp_all add: flash_idle_def)
  let ?m = "mutex_taken l c k"
  let ?k = "?m\<lparr>i2c_flash := (i2c_flash k)\<lparr>flash_tx_buf := buf, flash_tx_len := len\<rparr>\<rparr>"
  have mm: "i2c_flash ?m = i2c_flash k" by (rule flash_more) simp
  have "xQueueSemaphoreTake l portMAX_DELAY k = Some (Returned True, ?m)"
    using mutex_take_now [OF assms(3) f(4-6)] assms(6) f(4) by (simp add: xQueueSemaphoreTake_def configASSERT_def mutex_ok_def)
  then have t: "i2c_flash_write buf len k = i2c_flash_write_locked buf len ?m" by (simp add: i2c_flash_write_def f(1))
  have ev: "event_list (tcbs k c) = None"
    using sched_inv_parts(6) [OF assms(1), of c] assms(4) by (cases "event_list (tcbs k c)") auto
  have p: "sched_inv ?k" "quiet ?k" "can_block s c ?k" "semaphore_ok (queues ?k s)" "uxMessagesWaiting (queues ?k s) = 0"
    "portMAX_DELAY \<noteq> 0" "may_wait portMAX_DELAY ?k"
    using assms(1-6) f(3,7-) ev by (simp_all add: portMAX_DELAY_def) (simp add: can_block_def)
  obtain w k1 where b: "xQueueSemaphoreTake s portMAX_DELAY ?k = Some (Again w, k1)" "sched_inv k1" "quiet k1"
    "tcbs k1 = (tcbs ?k)(c := parked portMAX_DELAY True ?k ((tcbs ?k c)\<lparr>event_list := Some (WaitingToReceive s)\<rparr>))"
    "queues k1 = queues ?k" "pxCurrentTCB k1 = Some c" "qkernel.more k1 = qkernel.more ?k"
    by (rule semaphore_take_blocks [OF p])
  have "i2c_flash_write buf len k = Some (FlashAtSmph w, k1)"
    using b(1) by (simp add: t i2c_flash_write_locked_def mm f(2))
  moreover have "stuck_on s c k1"
    using b(2,3,6) assms(8,9) by (auto simp: stuck_on_def quiet_def b(4) parked_def)
  ultimately show thesis
    using flash_more [OF b(7)] mutex_taken_ok(2) [OF f(4,5)] by (intro that [of w k1]) (simp_all add: b(5))
qed

text \<open>
  A write never returns. With the driver as \<open>i2c_flash_init\<close> leaves it, a task that calls \<open>i2c_flash_write\<close> takes the lock and waits for
  the semaphore without limit; no tick, interrupt of the bus or switch makes it ready, and the lock stays with it.
\<close>

theorem i2c_flash_write_blocks_forever:
  assumes "sched_inv k" "quiet k" "pxCurrentTCB k = Some c" "state_list (tcbs k c) = Some (Ready (prio k c))"
    "uxCurrentNumberOfTasks k > 0" "may_wait portMAX_DELAY k" "flash_idle l s k" "state_list (tcbs k d) = Some (Ready p)" "d \<noteq> c"
  shows "\<exists>w k1. i2c_flash_write buf len k = Some (FlashAtSmph w, k1) \<and>
    (\<forall>es. \<exists>k2. flash_run es k1 = Some k2 \<and> state_list (tcbs k2 c) = Some SuspendedTaskList \<and>
      event_list (tcbs k2 c) = Some (WaitingToReceive s) \<and> mutex_holder (queues k2 l) = Some (Some c))"
proof -
  obtain w k1 where k1: "i2c_flash_write buf len k = Some (FlashAtSmph w, k1)" "stuck_on s c k1"
    "mutex_holder (queues k1 l) = Some (Some c)"
    by (rule i2c_flash_write_waits [OF assms]) blast
  have "\<exists>k2. flash_run es k1 = Some k2 \<and> state_list (tcbs k2 c) = Some SuspendedTaskList \<and>
      event_list (tcbs k2 c) = Some (WaitingToReceive s) \<and> mutex_holder (queues k2 l) = Some (Some c)" for es
    using stuck_run [OF k1(2), of es] k1(3) queues_more by (fastforce simp: stuck_on_def)
  then show ?thesis using k1(1) by blast
qed

text \<open>The driver is at rest after its initialisation.\<close>

lemma i2c_flash_init_idle:
  assumes "l \<noteq> s"
  obtains k' where "i2c_flash_init (Some (l, m1)) (Some (s, m2)) k = Some (0, k')" "flash_idle l s k'"
proof -
  let ?k1 = "upd_queue l (new_mutex m1) (empty_waiters l k)"
  let ?k2 = "?k1\<lparr>i2c_flash := (i2c_flash ?k1)\<lparr>flash_lock := Some l\<rparr>\<rparr>"
  let ?k3 = "upd_queue s (new_queue m2 1 0 queueQUEUE_TYPE_BINARY_SEMAPHORE) (empty_waiters s ?k2)"
  let ?k4 = "?k3\<lparr>i2c_flash := (i2c_flash ?k3)\<lparr>flash_smph := Some s\<rparr>\<rparr>"
  have "i2c_flash_init (Some (l, m1)) (Some (s, m2)) k = Some (0, ?k4)"
    by (simp add: i2c_flash_init_def create_mutex_eq create_queue_eq sizeof_Queue_t_def Let_def)
  moreover have "flash_idle l s ?k4"
    using assms by (simp add: flash_idle_def upd_queue_def empty_waiters_def upd_list_def new_mutex_def new_queue_def mutex_ok_def
        semaphore_ok_def kl_empty_def)
  ultimately show thesis by (rule that)
qed

end
