(* ===== verification/Port.thy ===== *)
theory Port
  imports Scheduler_Ops
begin

text \<open>
  The port of the kernel to the processor, \<open>FreeRTOS/portable/GCC/ARM_CM4F\<close>: stacks of new tasks, the context switch and the start of
  the first task in assembler, critical sections, the tick interrupt and the checks on interrupt priorities.
\<close>

section \<open>The processor\<close>

text \<open>
  The registers that the port uses beside the state of the kernel. \<open>core\<close> are the registers \<open>r0\<close> to \<open>r14\<close>, \<open>vfp\<close> those of the floating
  point unit; \<open>ram\<close> holds the words of the stacks; \<open>pxTopOfStack\<close> is the first member of a control block. \<open>prio_mask\<close> has the bits of a
  priority register that the processor implements. Registers that an exception saves and restores by itself (\<open>r0\<close> to \<open>r3\<close>, \<open>r12\<close>, the
  program counter) lie in the frame above \<open>psp\<close>.
\<close>

record pkernel = kernel +
  core :: "nat \<Rightarrow> u32"
  vfp :: "nat \<Rightarrow> u32"
  psp :: u32
  basepri :: u32
  ram :: "u32 \<Rightarrow> u32"
  pxTopOfStack :: "tid \<Rightarrow> u32"
  uxCriticalNesting :: UBaseType_t
  ipsr :: u32
  nvic_ip :: "u32 \<Rightarrow> u8"
  prio_mask :: u8
  aircr :: u32
  shpr3 :: u32
  systick_ctrl :: u32
  systick_load :: u32
  systick_val :: u32
  fpccr :: u32
  cpacr :: u32
  ucMaxSysCallPriority :: u8
  ulMaxPRIGROUPValue :: u32

text \<open>Storing and loading a list of registers at ascending addresses.\<close>

fun stm :: "u32 \<Rightarrow> u32 list \<Rightarrow> (u32 \<Rightarrow> u32) \<Rightarrow> u32 \<Rightarrow> u32" where
  "stm a [] m = m"
| "stm a (v # vs) m = stm (a + 4) vs (m(a := v))"

definition ldm :: "u32 \<Rightarrow> nat \<Rightarrow> (u32 \<Rightarrow> u32) \<Rightarrow> u32 list" where
  "ldm a n m = map (\<lambda>i. m (a + of_nat (4 * i))) [0..<n]"

fun set_regs :: "nat list \<Rightarrow> u32 list \<Rightarrow> (nat \<Rightarrow> u32) \<Rightarrow> nat \<Rightarrow> u32" where
  "set_regs (i # is) (v # vs) f = set_regs is vs (f(i := v))"
| "set_regs _ _ f = f"

definition core_regs :: "nat list" where "core_regs = [4, 5, 6, 7, 8, 9, 10, 11, 14]"
definition vfp_regs :: "nat list" where "vfp_regs = [16..<32]"

section \<open>Stacks and contexts\<close>

definition portINITIAL_XPSR :: u32 where "portINITIAL_XPSR = 0x01000000"
definition portINITIAL_EXC_RETURN :: u32 where "portINITIAL_EXC_RETURN = 0xfffffffd"
definition portSTART_ADDRESS_MASK :: u32 where "portSTART_ADDRESS_MASK = 0xfffffffe"
definition configMAX_SYSCALL_INTERRUPT_PRIORITY :: u32 where "configMAX_SYSCALL_INTERRUPT_PRIORITY = push_bit 4 5"
definition configKERNEL_INTERRUPT_PRIORITY :: u32 where "configKERNEL_INTERRUPT_PRIORITY = push_bit 4 15"

text \<open>\<open>exit_error\<close> is the address of \<open>prvTaskExitError\<close>.\<close>

definition pxPortInitialiseStack :: "u32 \<Rightarrow> u32 \<Rightarrow> u32 \<Rightarrow> u32 \<Rightarrow> (u32 \<Rightarrow> u32) \<Rightarrow> u32 \<times> (u32 \<Rightarrow> u32)" where
  "pxPortInitialiseStack exit_error pxTop pxCode pvParameters m = (
     let top = pxTop - 4; m = m(top := portINITIAL_XPSR);
         top = top - 4; m = m(top := pxCode AND portSTART_ADDRESS_MASK);
         top = top - 4; m = m(top := exit_error);
         top = top - 20; m = m(top := pvParameters);
         top = top - 4; m = m(top := portINITIAL_EXC_RETURN);
         top = top - 32
     in (top, m))"

text \<open>The part of \<open>prvInitialiseNewTask\<close> that finds the top of the new stack of \<open>ulStackDepth\<close> words. The mask makes the top aligned,
  as the assertion behind it checks.\<close>

definition new_task_stack :: "u32 \<Rightarrow> u32 \<Rightarrow> u32 \<Rightarrow> u32 \<Rightarrow> u32 \<Rightarrow> tid \<Rightarrow> 'z pkernel_scheme \<Rightarrow> 'z pkernel_scheme" where
  "new_task_stack exit_error stack ulStackDepth pxCode pvParameters t k = (
     let top = (stack + 4 * (ulStackDepth - 1)) AND NOT 7;
         (top, m) = pxPortInitialiseStack exit_error top pxCode pvParameters (ram k)
     in k\<lparr>ram := m, pxTopOfStack := (pxTopOfStack k)(t := top)\<rparr>)"

definition uses_fpu :: "u32 \<Rightarrow> bool" where
  "uses_fpu exc_return \<longleftrightarrow> exc_return AND 0x10 = 0"

text \<open>The two halves of the switch, before and after the call of \<open>vTaskSwitchContext\<close>.\<close>

definition save_context :: "tid \<Rightarrow> 'z pkernel_scheme \<Rightarrow> 'z pkernel_scheme" where
  "save_context t k = (
     let r0 = psp k;
         (r0, m) = (if uses_fpu (core k 14) then (r0 - 64, stm (r0 - 64) (map (vfp k) vfp_regs) (ram k)) else (r0, ram k));
         r0 = r0 - 36;
         m = stm r0 (map (core k) core_regs) m
     in k\<lparr>ram := m, pxTopOfStack := (pxTopOfStack k)(t := r0)\<rparr>)"

definition restore_context :: "tid \<Rightarrow> 'z pkernel_scheme \<Rightarrow> 'z pkernel_scheme" where
  "restore_context t k = (
     let r0 = pxTopOfStack k t;
         c = set_regs core_regs (ldm r0 9 (ram k)) (core k);
         r0 = r0 + 36;
         (r0, v) = (if uses_fpu (c 14) then (r0 + 64, set_regs vfp_regs (ldm r0 16 (ram k)) (vfp k)) else (r0, vfp k))
     in k\<lparr>core := c, vfp := v, psp := r0\<rparr>)"

definition xPortPendSVHandler :: "'z pkernel_scheme \<Rightarrow> 'z pkernel_scheme option" where
  "xPortPendSVHandler k = do {
     let k = k\<lparr>pendsv := False\<rparr>;
     t \<leftarrow> pxCurrentTCB k;
     let k = (save_context t k)\<lparr>basepri := configMAX_SYSCALL_INTERRUPT_PRIORITY\<rparr>;
     k \<leftarrow> vTaskSwitchContext k;
     let k = k\<lparr>basepri := 0\<rparr>;
     t \<leftarrow> pxCurrentTCB k;
     Some (restore_context t k)
   }"

text \<open>\<open>prvPortStartFirstTask\<close> raises the exception that \<open>vPortSVCHandler\<close> handles.\<close>

definition vPortSVCHandler :: "'z pkernel_scheme \<Rightarrow> 'z pkernel_scheme option" where
  "vPortSVCHandler k = do {
     t \<leftarrow> pxCurrentTCB k;
     let r0 = pxTopOfStack k t;
     Some (k\<lparr>core := set_regs core_regs (ldm r0 9 (ram k)) (core k), psp := r0 + 36, basepri := 0\<rparr>)
   }"

section \<open>Interrupts\<close>

definition vPortRaiseBASEPRI :: "'z pkernel_scheme \<Rightarrow> 'z pkernel_scheme" where
  "vPortRaiseBASEPRI k = k\<lparr>basepri := configMAX_SYSCALL_INTERRUPT_PRIORITY\<rparr>"

definition ulPortRaiseBASEPRI :: "'z pkernel_scheme \<Rightarrow> u32 \<times> 'z pkernel_scheme" where
  "ulPortRaiseBASEPRI k = (basepri k, k\<lparr>basepri := configMAX_SYSCALL_INTERRUPT_PRIORITY\<rparr>)"

definition vPortSetBASEPRI :: "u32 \<Rightarrow> 'z pkernel_scheme \<Rightarrow> 'z pkernel_scheme" where
  "vPortSetBASEPRI ulNewMaskValue k = k\<lparr>basepri := ulNewMaskValue\<rparr>"

definition xPortIsInsideInterrupt :: "'z pkernel_scheme \<Rightarrow> bool" where
  "xPortIsInsideInterrupt k \<longleftrightarrow> ipsr k \<noteq> 0"

definition portVECTACTIVE_MASK :: u32 where "portVECTACTIVE_MASK = 0xff"

definition vPortEnterCritical :: "'z pkernel_scheme \<Rightarrow> 'z pkernel_scheme option" where
  "vPortEnterCritical k = do {
     let k = (vPortRaiseBASEPRI k)\<lparr>uxCriticalNesting := uxCriticalNesting k + 1\<rparr>;
     if uxCriticalNesting k = 1 then do {
       configASSERT (ipsr k AND portVECTACTIVE_MASK = 0);
       Some k
     } else Some k
   }"

definition vPortExitCritical :: "'z pkernel_scheme \<Rightarrow> 'z pkernel_scheme option" where
  "vPortExitCritical k = do {
     configASSERT (uxCriticalNesting k \<noteq> 0);
     let k = k\<lparr>uxCriticalNesting := uxCriticalNesting k - 1\<rparr>;
     Some (if uxCriticalNesting k = 0 then vPortSetBASEPRI 0 k else k)
   }"

definition xPortSysTickHandler :: "'z pkernel_scheme \<Rightarrow> 'z pkernel_scheme option" where
  "xPortSysTickHandler k = do {
     let k = vPortRaiseBASEPRI k;
     (sw, k) \<leftarrow> xTaskIncrementTick k;
     let k = (if sw then k\<lparr>pendsv := True\<rparr> else k);
     Some (vPortSetBASEPRI 0 k)
   }"

definition prvTaskExitError :: "'z pkernel_scheme \<Rightarrow> unit option" where
  "prvTaskExitError k = do {
     configASSERT (uxCriticalNesting k = NOT 0);
     None
   }"

definition vPortEndScheduler :: "'z pkernel_scheme \<Rightarrow> unit option" where
  "vPortEndScheduler k = configASSERT (uxCriticalNesting k = 1000)"

section \<open>Starting the scheduler\<close>

definition portMAX_PRIGROUP_BITS :: u32 where "portMAX_PRIGROUP_BITS = 7"
definition portTOP_BIT_OF_BYTE :: u8 where "portTOP_BIT_OF_BYTE = 0x80"
definition portPRIORITY_GROUP_MASK :: u32 where "portPRIORITY_GROUP_MASK = push_bit 8 7"
definition portPRIGROUP_SHIFT :: nat where "portPRIGROUP_SHIFT = 8"
definition portFIRST_USER_INTERRUPT_NUMBER :: u32 where "portFIRST_USER_INTERRUPT_NUMBER = 16"
definition NVIC_PRIO_BITS :: u32 where "NVIC_PRIO_BITS = 4"
definition configTICK_RATE_HZ :: u32 where "configTICK_RATE_HZ = 1000"

lemma shift_out_less:
  assumes "v AND (0x80 :: u8) = 0x80"
  shows "unat (v * 2) < unat v"
proof -
  have "0x80 \<le> v" using word_and_le2 [of v "0x80"] assms by simp
  then have "128 \<le> unat v" by (simp add: word_le_nat_alt)
  then obtain j where j: "unat v = 128 + j" using le_Suc_ex by blast
  moreover have "unat v < 256" using unsigned_less [of v] by simp
  then have "j < 128" using j by simp
  moreover have "unat (v * 2) = (unat v * 2) mod 256" by (simp add: unat_word_ariths)
  ultimately show ?thesis using \<open>j < 128\<close> by simp
qed

text \<open>The loop that counts the implemented bits of a priority.\<close>

function prigroup_loop :: "u8 \<Rightarrow> u32 \<Rightarrow> u32" where
  "prigroup_loop v g = (if v AND portTOP_BIT_OF_BYTE = portTOP_BIT_OF_BYTE then prigroup_loop (push_bit 1 v) (g - 1) else g)"
  by pat_completeness auto
termination
  by (relation "measure (\<lambda>(v, g). unat v)") (auto simp: portTOP_BIT_OF_BYTE_def shift_out_less)

declare prigroup_loop.simps [simp del]

text \<open>\<open>clock\<close> is \<open>configCPU_CLOCK_HZ\<close>, the variable \<open>SystemCoreClock\<close>.\<close>

definition vPortSetupTimerInterrupt :: "u32 \<Rightarrow> 'z pkernel_scheme \<Rightarrow> 'z pkernel_scheme" where
  "vPortSetupTimerInterrupt clock k = k\<lparr>systick_val := 0, systick_load := clock div configTICK_RATE_HZ - 1, systick_ctrl := 7\<rparr>"

definition vPortEnableVFP :: "'z pkernel_scheme \<Rightarrow> 'z pkernel_scheme" where
  "vPortEnableVFP k = k\<lparr>cpacr := cpacr k OR push_bit 20 0xf\<rparr>"

text \<open>\<open>cpuid\<close> is the identification register. The first user priority register is written and read back to find the bits that are
  implemented, then gets its old value again. \<open>prvPortStartFirstTask\<close> does not return: it resets the main stack and raises the exception that
  \<open>vPortSVCHandler\<close> handles.\<close>

definition xPortStartScheduler :: "u32 \<Rightarrow> u32 \<Rightarrow> 'z pkernel_scheme \<Rightarrow> 'z pkernel_scheme option" where
  "xPortStartScheduler cpuid clock k = do {
     configASSERT (configMAX_SYSCALL_INTERRUPT_PRIORITY \<noteq> 0);
     configASSERT (cpuid \<noteq> 0x410FC271);
     configASSERT (cpuid \<noteq> 0x410FC270);
     let ucMaxPriorityValue = 0xff AND prio_mask k;
     let k = k\<lparr>ucMaxSysCallPriority := ucast configMAX_SYSCALL_INTERRUPT_PRIORITY AND ucMaxPriorityValue\<rparr>;
     let g = prigroup_loop ucMaxPriorityValue portMAX_PRIGROUP_BITS;
     configASSERT (portMAX_PRIGROUP_BITS - g = NVIC_PRIO_BITS);
     let k = k\<lparr>ulMaxPRIGROUPValue := push_bit portPRIGROUP_SHIFT g AND portPRIORITY_GROUP_MASK\<rparr>;
     let k = k\<lparr>shpr3 := shpr3 k OR push_bit 16 configKERNEL_INTERRUPT_PRIORITY OR push_bit 24 configKERNEL_INTERRUPT_PRIORITY\<rparr>;
     let k = vPortSetupTimerInterrupt clock k;
     let k = vPortEnableVFP (k\<lparr>uxCriticalNesting := 0\<rparr>);
     vPortSVCHandler (k\<lparr>fpccr := fpccr k OR push_bit 30 3\<rparr>)
   }"

definition vPortValidateInterruptPriority :: "'z pkernel_scheme \<Rightarrow> unit option" where
  "vPortValidateInterruptPriority k = do {
     (if ipsr k \<ge> portFIRST_USER_INTERRUPT_NUMBER then configASSERT (nvic_ip k (ipsr k) \<ge> ucMaxSysCallPriority k) else Some ());
     configASSERT (aircr k AND portPRIORITY_GROUP_MASK \<le> ulMaxPRIGROUPValue k)
   }"

section \<open>Memory\<close>

definition area :: "u32 \<Rightarrow> nat \<Rightarrow> u32 set" where
  "area a n = (\<lambda>i. a + of_nat (4 * i)) ` {..<n}"

lemma area_Suc: "area a (Suc n) = insert a (area (a + 4) n)"
proof -
  have "area a (Suc n) = insert a ((\<lambda>i. a + of_nat (4 * Suc i)) ` {..<n})"
    unfolding area_def lessThan_Suc_eq_insert_0 image_insert image_image by simp
  also have "(\<lambda>i. a + of_nat (4 * Suc i)) = (\<lambda>i. (a + 4) + (of_nat (4 * i) :: u32))" by (simp add: fun_eq_iff)
  finally show ?thesis by (simp only: area_def)
qed

lemma area_split: "area a (m + n) = area a m \<union> area (a + of_nat (4 * m)) n"
proof (induction m arbitrary: a)
  case 0
  then show ?case by (simp add: area_def)
next
  case (Suc m)
  have "a + 4 + of_nat (4 * m) = a + (of_nat (4 * Suc m) :: u32)" by simp
  then show ?case unfolding add_Suc area_Suc Suc by (simp add: add.assoc)
qed

lemma offset_inj:
  assumes "a + of_nat (4 * i) = a + (of_nat (4 * j) :: u32)" "i < 2 ^ 30" "j < 2 ^ 30"
  shows "i = j"
proof -
  have "(of_nat (4 * i) :: u32) = of_nat (4 * j)" using assms(1) by (simp only: add_left_cancel)
  moreover have "unat (of_nat (4 * i) :: u32) = 4 * i" by (rule unat_of_nat_less) (use assms(2) in simp)
  moreover have "unat (of_nat (4 * j) :: u32) = 4 * j" by (rule unat_of_nat_less) (use assms(3) in simp)
  ultimately show ?thesis by (metis mult_cancel1 zero_neq_numeral)
qed

lemma area_head:
  assumes "n < 2 ^ 30"
  shows "a \<notin> area (a + 4) n"
proof
  assume "a \<in> area (a + 4) n"
  then obtain i where "i < n" "a = (a + 4) + of_nat (4 * i)" by (auto simp: area_def)
  then have "a + of_nat (4 * 0) = a + (of_nat (4 * Suc i) :: u32)" by simp
  from offset_inj [OF this] \<open>i < n\<close> assms show False by simp
qed

lemma area_disjoint:
  assumes "m + n < 2 ^ 30"
  shows "area a m \<inter> area (a + of_nat (4 * m)) n = {}"
proof -
  have "a + of_nat (4 * i) \<noteq> a + of_nat (4 * m) + (of_nat (4 * j) :: u32)" if "i < m" "j < n" for i j
  proof
    assume "a + of_nat (4 * i) = a + of_nat (4 * m) + (of_nat (4 * j) :: u32)"
    also have "\<dots> = a + of_nat (4 * (m + j))" by (simp add: algebra_simps)
    finally show False by (rule offset_inj [THEN notE [rotated]]) (use that assms in simp_all)
  qed
  then show ?thesis by (force simp: area_def)
qed

lemma stm_other: "x \<notin> area a (length vs) \<Longrightarrow> stm a vs m x = m x"
  by (induction vs arbitrary: a m) (simp_all add: area_Suc)

lemma ldm_Suc: "ldm a (Suc n) m = m a # ldm (a + 4) n m"
proof -
  have "map (\<lambda>i. m (a + of_nat (4 * Suc i))) [0..<n] = map (\<lambda>i. m (a + 4 + of_nat (4 * i))) [0..<n]" by (simp add: add.assoc)
  then show ?thesis unfolding ldm_def by (simp add: upt_conv_Cons map_Suc_upt [symmetric] o_def del: upt_Suc)
qed

lemma ldm_stm: "length vs < 2 ^ 30 \<Longrightarrow> ldm a (length vs) (stm a vs m) = vs"
proof (induction vs arbitrary: a m)
  case (Cons v vs)
  have "stm (a + 4) vs (m(a := v)) a = v" using stm_other [OF area_head, of vs a "m(a := v)"] Cons.prems by simp
  with Cons show ?case by (simp add: ldm_Suc)
qed (simp add: ldm_def)

lemma ldm_frame: "(\<And>x. x \<in> area a n \<Longrightarrow> m x = m' x) \<Longrightarrow> ldm a n m = ldm a n m'"
  by (auto simp: ldm_def area_def)

section \<open>The registers of every task\<close>

text \<open>
  What a task sees: the registers that survive a call and an exception, and its stack pointer. For the running task they are in the
  processor, for any other task in the frame below its stack.
\<close>

record task_context =
  ctx_core :: "u32 list"
  ctx_vfp :: "u32 list"
  ctx_psp :: u32

definition running_context :: "'z pkernel_scheme \<Rightarrow> task_context" where
  "running_context k = \<lparr>ctx_core = map (core k) core_regs,
     ctx_vfp = (if uses_fpu (core k 14) then map (vfp k) vfp_regs else []), ctx_psp = psp k\<rparr>"

definition frame_words :: "u32 \<Rightarrow> nat" where
  "frame_words exc_return = (if uses_fpu exc_return then 25 else 9)"

definition saved_exc_return :: "'z pkernel_scheme \<Rightarrow> tid \<Rightarrow> u32" where
  "saved_exc_return k t = ram k (pxTopOfStack k t + 32)"

definition saved_context :: "'z pkernel_scheme \<Rightarrow> tid \<Rightarrow> task_context" where
  "saved_context k t = (let a = pxTopOfStack k t; f = uses_fpu (saved_exc_return k t) in
     \<lparr>ctx_core = ldm a 9 (ram k), ctx_vfp = (if f then ldm (a + 36) 16 (ram k) else []),
      ctx_psp = a + 4 * of_nat (frame_words (saved_exc_return k t))\<rparr>)"

definition context_of :: "'z pkernel_scheme \<Rightarrow> tid \<Rightarrow> task_context" where
  "context_of k t = (if pxCurrentTCB k = Some t then running_context k else saved_context k t)"

text \<open>The words that hold, or would hold, the frame of a task.\<close>

definition frame_of :: "'z pkernel_scheme \<Rightarrow> tid \<Rightarrow> u32 set" where
  "frame_of k t = (if pxCurrentTCB k = Some t
     then area (psp k - 4 * of_nat (frame_words (core k 14))) (frame_words (core k 14))
     else area (pxTopOfStack k t) (frame_words (saved_exc_return k t)))"

text \<open>Every task of \<open>T\<close> keeps its frame on its own stack.\<close>

definition stacks_ok :: "(tid \<Rightarrow> u32 set) \<Rightarrow> tid set \<Rightarrow> 'z pkernel_scheme \<Rightarrow> bool" where
  "stacks_ok S T k \<longleftrightarrow> (\<forall>t \<in> T. frame_of k t \<subseteq> S t) \<and> (\<forall>t \<in> T. \<forall>u \<in> T. t \<noteq> u \<longrightarrow> S t \<inter> S u = {})"

lemma regs_simps [simp]: "length core_regs = 9" "length vfp_regs = 16"
  by (simp_all add: core_regs_def vfp_regs_def)

lemma set_core_regs:
  assumes "length vs = 9"
  shows "map (set_regs core_regs vs f) core_regs = vs" "set_regs core_regs vs f 14 = vs ! 8"
proof -
  obtain a b c d e g h i j where "vs = [a, b, c, d, e, g, h, i, j]"
    using assms by (auto simp: eval_nat_numeral length_Suc_conv)
  then show "map (set_regs core_regs vs f) core_regs = vs" "set_regs core_regs vs f 14 = vs ! 8"
    by (simp_all add: core_regs_def)
qed

lemma set_regs_other: "i \<notin> set is \<Longrightarrow> set_regs is vs f i = f i"
  by (induction "is" vs f rule: set_regs.induct) auto

lemma map_set_regs: "distinct is \<Longrightarrow> length vs = length is \<Longrightarrow> map (set_regs is vs f) is = vs"
proof (induction "is" vs f rule: set_regs.induct)
  case (1 i "is" v vs f)
  then show ?case by (simp add: set_regs_other fun_upd_def)
qed auto

lemma ldm_8: "ldm a 9 m ! 8 = m (a + 32)"
  by (simp add: ldm_def nth_map_upt)

text \<open>Restoring a task makes its saved registers the current ones.\<close>

lemma restore_running:
  "running_context (restore_context t k) = saved_context k t"
proof -
  have l: "length (ldm (pxTopOfStack k t) 9 (ram k)) = 9" by (simp add: ldm_def)
  note c = set_core_regs [OF l]
  have v: "map (set_regs vfp_regs (ldm a 16 m) f) vfp_regs = ldm a 16 m" for a m f
    by (rule map_set_regs) (simp_all add: vfp_regs_def ldm_def)
  show ?thesis
    by (simp add: restore_context_def running_context_def saved_context_def Let_def c ldm_8 saved_exc_return_def frame_words_def v)
qed

text \<open>Saving the running task puts its registers in its frame.\<close>

lemma core_regs_last: "map f core_regs ! 8 = f 14"
  by (simp add: core_regs_def)

lemma save_plain:
  assumes "\<not> uses_fpu (core k 14)"
  shows "ram (save_context t k) = stm (psp k - 36) (map (core k) core_regs) (ram k)" "pxTopOfStack (save_context t k) t = psp k - 36"
  using assms by (simp_all add: save_context_def Let_def)

lemma save_fpu:
  assumes "uses_fpu (core k 14)"
  shows "ram (save_context t k) = stm (psp k - 100) (map (core k) core_regs) (stm (psp k - 64) (map (vfp k) vfp_regs) (ram k))"
    "pxTopOfStack (save_context t k) t = psp k - 100"
  using assms by (simp_all add: save_context_def Let_def diff_diff_eq)

lemma save_saved:
  shows "pxTopOfStack (save_context t k) t = psp k - 4 * of_nat (frame_words (core k 14))"
    "saved_exc_return (save_context t k) t = core k 14"
    "saved_context (save_context t k) t = running_context k"
    "x \<notin> area (psp k - 4 * of_nat (frame_words (core k 14))) (frame_words (core k 14)) \<Longrightarrow> ram (save_context t k) x = ram k x"
proof -
  let ?n = "frame_words (core k 14)" and ?k = "save_context t k"
  show top: "pxTopOfStack ?k t = psp k - 4 * of_nat ?n"
    by (cases "uses_fpu (core k 14)") (simp_all add: save_plain save_fpu frame_words_def)
  have core: "ldm (pxTopOfStack ?k t) 9 (ram ?k) = map (core k) core_regs"
    using ldm_stm [of "map (core k) core_regs"] by (cases "uses_fpu (core k 14)") (simp_all add: save_plain save_fpu)
  show exc: "saved_exc_return ?k t = core k 14"
    using ldm_8 [of "pxTopOfStack ?k t" "ram ?k"] unfolding core core_regs_last saved_exc_return_def by simp
  have vfp: "ldm (pxTopOfStack ?k t + 36) 16 (ram ?k) = map (vfp k) vfp_regs" if f: "uses_fpu (core k 14)"
  proof -
    let ?m = "stm (psp k - 64) (map (vfp k) vfp_regs) (ram k)"
    have "x \<notin> area (psp k - 100) 9" if "x \<in> area (psp k - 64) 16" for x
      using area_disjoint [of 9 16 "psp k - 100"] that by auto
    then have "ldm (psp k - 64) 16 (ram ?k) = ldm (psp k - 64) 16 ?m"
      by (intro ldm_frame) (simp add: save_fpu f stm_other)
    also have "\<dots> = map (vfp k) vfp_regs" using ldm_stm [of "map (vfp k) vfp_regs"] by simp
    finally show ?thesis by (simp add: save_fpu f)
  qed
  show "saved_context ?k t = running_context k"
    using core vfp exc unfolding saved_context_def running_context_def Let_def by (simp add: top)
  show "ram ?k x = ram k x" if "x \<notin> area (psp k - 4 * of_nat ?n) ?n"
  proof (cases "uses_fpu (core k 14)")
    case True
    then have "x \<notin> area (psp k - 100) (9 + 16)" using that by (simp add: frame_words_def)
    then have "x \<notin> area (psp k - 100) 9" "x \<notin> area (psp k - 64) 16" unfolding area_split by simp_all
    then show ?thesis by (simp add: save_fpu True stm_other)
  qed (use that in \<open>simp add: save_plain frame_words_def stm_other\<close>)
qed

lemma saved_basepri [simp]:
  "saved_context (k\<lparr>basepri := b\<rparr>) t = saved_context k t" "saved_exc_return (k\<lparr>basepri := b\<rparr>) t = saved_exc_return k t"
  by (simp_all add: saved_context_def saved_exc_return_def Let_def cong: if_cong)

lemma port_more:
  assumes "kernel.more k' = kernel.more k"
  shows "core k' = core k" "vfp k' = vfp k" "psp k' = psp k" "ram k' = ram k" "pxTopOfStack k' = pxTopOfStack k"
  using assms by (cases k; cases k'; simp)+

lemma word_in_area: "i < n \<Longrightarrow> a + of_nat (4 * i) \<in> area a n"
  by (auto simp: area_def)

lemma frame_words_ge: "9 \<le> frame_words e"
  by (simp add: frame_words_def)

text \<open>A change of memory outside the frame of a task does not change what it has saved.\<close>

lemma saved_frame:
  assumes "\<And>x. x \<in> area (pxTopOfStack k t) (frame_words (saved_exc_return k t)) \<Longrightarrow> ram k' x = ram k x" "pxTopOfStack k' t = pxTopOfStack k t"
  shows "saved_exc_return k' t = saved_exc_return k t" "saved_context k' t = saved_context k t"
proof -
  let ?a = "pxTopOfStack k t" and ?n = "frame_words (saved_exc_return k t)"
  have "?a + of_nat (4 * 8) \<in> area ?a ?n" using frame_words_ge [of "saved_exc_return k t"] by (intro word_in_area) simp
  then show e: "saved_exc_return k' t = saved_exc_return k t" using assms by (simp add: saved_exc_return_def)
  have core: "x \<in> area ?a 9 \<Longrightarrow> x \<in> area ?a ?n" for x using frame_words_ge [of "saved_exc_return k t"] by (auto simp: area_def)
  have "ldm ?a 9 (ram k') = ldm ?a 9 (ram k)" by (intro ldm_frame) (simp add: assms(1) core)
  moreover have "ldm (?a + 36) 16 (ram k') = ldm (?a + 36) 16 (ram k)" if "uses_fpu (saved_exc_return k t)"
  proof (rule ldm_frame)
    fix x
    assume "x \<in> area (?a + 36) 16"
    moreover have "area ?a 25 = area ?a 9 \<union> area (?a + 36) 16" using area_split [of ?a 9 16] by simp
    ultimately show "ram k' x = ram k x" using that by (intro assms(1)) (simp add: frame_words_def)
  qed
  ultimately show "saved_context k' t = saved_context k t" by (simp add: saved_context_def Let_def e assms(2))
qed

text \<open>After the first half every task is saved.\<close>

lemma all_saved:
  assumes "pxCurrentTCB k = Some c" "stacks_ok S T k" "c \<in> T" "t \<in> T"
  shows "saved_context (save_context c k) t = context_of k t"
    "area (pxTopOfStack (save_context c k) t) (frame_words (saved_exc_return (save_context c k) t)) = frame_of k t"
proof -
  let ?k = "save_context c k"
  have f: "frame_of k c = area (psp k - 4 * of_nat (frame_words (core k 14))) (frame_words (core k 14))"
    using assms(1) by (simp add: frame_of_def)
  have "saved_context ?k t = context_of k t \<and> area (pxTopOfStack ?k t) (frame_words (saved_exc_return ?k t)) = frame_of k t"
  proof (cases "t = c")
    case True
    then show ?thesis using assms(1) f by (simp add: save_saved(1-3) context_of_def)
  next
    case False
    have fr: "frame_of k t = area (pxTopOfStack k t) (frame_words (saved_exc_return k t))"
      using False assms(1) by (simp add: frame_of_def)
    have "frame_of k t \<inter> frame_of k c = {}"
      using assms(2-4) False unfolding stacks_ok_def by blast
    then have same: "ram ?k x = ram k x" if "x \<in> area (pxTopOfStack k t) (frame_words (saved_exc_return k t))" for x
      using that unfolding fr f by (intro save_saved(4)) blast
    have top: "pxTopOfStack ?k t = pxTopOfStack k t"
      using False by (cases "uses_fpu (core k 14)") (simp_all add: save_context_def Let_def)
    show ?thesis using saved_frame [of k t ?k, OF same top] False assms(1) fr top by (simp add: context_of_def)
  qed
  then show "saved_context ?k t = context_of k t"
    "area (pxTopOfStack ?k t) (frame_words (saved_exc_return ?k t)) = frame_of k t" by simp_all
qed

text \<open>The second half gives the processor to the task \<open>t\<close>.\<close>

lemma all_restored:
  assumes "pxCurrentTCB k = Some t"
  shows "context_of (restore_context t k) u = saved_context k u"
    "frame_of (restore_context t k) u = area (pxTopOfStack k u) (frame_words (saved_exc_return k u))"
proof -
  let ?k = "restore_context t k"
  have l: "length (ldm (pxTopOfStack k t) 9 (ram k)) = 9" by (simp add: ldm_def)
  have f: "pxCurrentTCB ?k = Some t" "ram ?k = ram k" "pxTopOfStack ?k = pxTopOfStack k" "core ?k 14 = saved_exc_return k t"
    "psp ?k = pxTopOfStack k t + 4 * of_nat (frame_words (saved_exc_return k t))"
    using assms set_core_regs(2) [OF l, of "core k"]
    by (simp_all add: restore_context_def Let_def ldm_8 saved_exc_return_def frame_words_def split: prod.splits)
  show "context_of ?k u = saved_context k u"
    using f by (cases "u = t") (simp_all add: context_of_def restore_running saved_context_def saved_exc_return_def Let_def cong: if_cong)
  show "frame_of ?k u = area (pxTopOfStack k u) (frame_words (saved_exc_return k u))"
    using f by (cases "u = t") (simp_all add: frame_of_def saved_exc_return_def)
qed

lemma pendsv_switch_spec:
  assumes "sched_inv k" "pxCurrentTCB k = Some c" "members k (Ready r) \<noteq> []"
  obtains k' t where "vTaskSwitchContext k = Some k'" "sched_inv k'" "tcbs k' = tcbs k" "pxCurrentTCB k' = Some t"
    "uxSchedulerSuspended k = 0 \<Longrightarrow> runs_highest k' \<and> (\<exists>p. t \<in> set (members k (Ready p)))"
    "uxSchedulerSuspended k \<noteq> 0 \<Longrightarrow> t = c \<and> xYieldPending k'" "pendsv k' = pendsv k"
proof (cases "uxSchedulerSuspended k = 0")
  case True
  obtain k' where k': "vTaskSwitchContext k = Some k'" "sched_inv k'" "runs_highest k'" "tcbs k' = tcbs k"
    using vTaskSwitchContext_spec [OF assms(1) True assms(3)] by blast
  then obtain t where t: "pxCurrentTCB k' = Some t" "t \<in> set (members k' (Ready (prio k' t)))" by (auto simp: runs_highest_def)
  then have "t \<in> set (members k (Ready (prio k' t)))"
    using sched_inv_parts(3) [OF k'(2)] sched_inv_parts(3) [OF assms(1)] k'(4) by (simp add: lists_ok_def)
  moreover have "pendsv k' = pendsv k"
    using k'(1) True by (auto simp: vTaskSwitchContext_def taskSELECT_HIGHEST_PRIORITY_TASK_def upd_list_def bind_eq_Some_conv Let_def)
  ultimately show thesis using that [OF k'(1,2,4) t(1)] k'(3) True by blast
next
  case False
  have "sched_inv (k\<lparr>xYieldPending := True\<rparr>)"
    using assms(1) by (simp add: inv_defs lists_ok_def ready_ok_def delayed_ok_def)
  then show thesis using False assms(2) by (intro that [of "k\<lparr>xYieldPending := True\<rparr>" c]) (simp_all add: vTaskSwitchContext_def)
qed


section \<open>The stack of a new task\<close>

lemma round_down:
  assumes "(a :: u32) AND 7 = 0"
  shows "(a + of_nat (4 * n)) AND NOT 7 = a + of_nat (4 * (2 * (n div 2)))"
proof -
  let ?e = "of_nat (4 * (2 * (n div 2))) :: u32" and ?d = "of_nat (4 * (n mod 2)) :: u32"
  have "unat ?e = (4 * (2 * (n div 2))) mod 2 ^ 32" by (rule of_nat_u32)
  then have "?e AND 7 = 0" unfolding aligned_iff by (simp add: dvd_mod)
  then have "(a + ?e) AND 7 = 0" using assms by (simp add: aligned_add)
  moreover have "?d < 8" by (cases "even n") (auto elim!: oddE)
  moreover have "a + of_nat (4 * n) = (a + ?e) + ?d"
  proof -
    have "4 * n = 4 * (2 * (n div 2)) + 4 * (n mod 2)" by presburger
    then have "(of_nat (4 * n) :: u32) = ?e + ?d" by (simp only: of_nat_add)
    then show ?thesis by (simp only: add.assoc)
  qed
  ultimately show ?thesis using align_down_add by metis
qed

lemma init_stack:
  "pxPortInitialiseStack ex (b + 68) code param m = (b, m(b + 64 := portINITIAL_XPSR, b + 60 := code AND portSTART_ADDRESS_MASK,
     b + 56 := ex, b + 36 := param, b + 32 := portINITIAL_EXC_RETURN))"
  by (simp add: pxPortInitialiseStack_def Let_def add.commute [of b])

lemma area_mono: "i + n \<le> d \<Longrightarrow> area (a + of_nat (4 * i)) n \<subseteq> area a d"
proof (clarsimp simp: area_def)
  fix j
  assume "i + n \<le> d" "j < n"
  then show "a + 4 * of_nat i + 4 * of_nat j \<in> (\<lambda>i. a + 4 * of_nat i) ` {..<d}"
    by (intro image_eqI [of _ _ "i + j"]) (simp_all add: algebra_simps)
qed

lemma aligned_words: "(of_nat (4 * (2 * n)) :: u32) AND 7 = 0"
proof -
  have "unat (of_nat (4 * (2 * n)) :: u32) = (4 * (2 * n)) mod 2 ^ 32" by (rule of_nat_u32)
  then show ?thesis unfolding aligned_iff by (simp add: dvd_mod)
qed

lemma new_stack_top:
  fixes stack depth :: u32
  assumes "stack AND 7 = 0" "19 \<le> unat depth"
  obtains e where "(stack + 4 * (depth - 1)) AND NOT 7 = (stack + of_nat (4 * e)) + 68" "e + 17 < unat depth"
    "(stack + of_nat (4 * e) + 36) AND 7 = 0"
proof -
  define n where "n = unat depth - 1"
  define j where "j = n div 2 - 9"
  have n: "n div 2 = j + 9" "n + 1 = unat depth" using assms(2) by (auto simp: n_def j_def)
  have "4 * (depth - 1) = of_nat (4 * n)" using assms(2) by (simp add: n_def of_nat_diff)
  then have "(stack + 4 * (depth - 1)) AND NOT 7 = stack + of_nat (4 * (2 * (j + 9)))"
    by (simp only: round_down [OF assms(1)] n(1))
  also have "\<dots> = (stack + of_nat (4 * (2 * j + 1))) + 68" by (simp add: algebra_simps)
  finally have top: "(stack + 4 * (depth - 1)) AND NOT 7 = (stack + of_nat (4 * (2 * j + 1))) + 68" .
  have "stack + of_nat (4 * (2 * j + 1)) + 36 = stack + of_nat (4 * (2 * (j + 5)))" by (simp add: algebra_simps)
  then have "(stack + of_nat (4 * (2 * j + 1)) + 36) AND 7 = 0"
    using aligned_add [OF assms(1) aligned_words, of "j + 5"] by (simp only:)
  moreover have "2 * j + 1 + 17 < unat depth" using n by linarith
  ultimately show thesis using top by (intro that)
qed

text \<open>
  C6. A new task starts in its function. The frame that is prepared on its stack makes the exception return to thread mode on the
  task's own stack pointer without floating point state, with the program counter at the entry point, the parameter in the first argument
  register and the return address at \<open>prvTaskExitError\<close>; the stack pointer is aligned to eight bytes. The frame lies inside the stack, and
  nothing outside the stack is written. The task that is the first to run gets exactly these registers from \<open>vPortSVCHandler\<close>.
\<close>

theorem new_task_starts_at_entry:
  assumes "stack AND 7 = 0" "19 \<le> unat depth" "k' = new_task_stack exit_error stack depth code param t k"
  shows "let c = saved_context k' t; frame = ldm (ctx_psp c) 8 (ram k') in
      last (ctx_core c) = 0xfffffffd \<and> ctx_vfp c = [] \<and> ctx_psp c AND 7 = 0 \<and>
      frame ! 0 = param \<and> frame ! 5 = exit_error \<and> frame ! 6 = code AND 0xfffffffe \<and> frame ! 7 = 0x01000000 \<and>
      area (pxTopOfStack k' t) 17 \<subseteq> area stack (unat depth) \<and> {x. ram k' x \<noteq> ram k x} \<subseteq> area stack (unat depth) \<and>
      (pxCurrentTCB k = Some t \<longrightarrow> (\<exists>k2. vPortSVCHandler k' = Some k2 \<and> running_context k2 = c \<and> basepri k2 = 0))"
proof -
  obtain e where e: "(stack + 4 * (depth - 1)) AND NOT 7 = (stack + of_nat (4 * e)) + 68" "e + 17 < unat depth"
    "(stack + of_nat (4 * e) + 36) AND 7 = 0"
    by (rule new_stack_top [OF assms(1,2)])
  define b where "b = stack + (of_nat (4 * e) :: u32)"
  let ?m = "(ram k)(b + 64 := portINITIAL_XPSR, b + 60 := code AND portSTART_ADDRESS_MASK,
     b + 56 := exit_error, b + 36 := param, b + 32 := portINITIAL_EXC_RETURN)"
  have k': "ram k' = ?m" "pxTopOfStack k' t = b" "pxCurrentTCB k' = pxCurrentTCB k" "core k' = core k"
    unfolding assms(3) new_task_stack_def Let_def e(1) b_def [symmetric] init_stack by simp_all
  have exc: "saved_exc_return k' t = 0xfffffffd" by (simp add: saved_exc_return_def k' portINITIAL_EXC_RETURN_def)
  have nofpu: "\<not> uses_fpu 0xfffffffd" by (simp add: uses_fpu_def)
  have c: "saved_context k' t = \<lparr>ctx_core = ldm b 9 (ram k'), ctx_vfp = [], ctx_psp = b + 36\<rparr>"
    using nofpu by (simp add: saved_context_def Let_def exc k'(2) frame_words_def)
  have l: "length (ldm b 9 (ram k')) = 9" by (simp add: ldm_def)
  then have last: "last (ldm b 9 (ram k')) = 0xfffffffd"
    using exc unfolding saved_exc_return_def k'(2) by (simp add: last_conv_nth ldm_8 flip: length_0_conv)
  have sub: "area b 17 \<subseteq> area stack (unat depth)" unfolding b_def using e(2) by (intro area_mono) simp
  have "{x. ram k' x \<noteq> ram k x} \<subseteq> area b 17"
  proof -
    have "b + of_nat (4 * i) \<in> area b 17" if "i < 17" for i using that by (rule word_in_area)
    from this [of 16] this [of 15] this [of 14] this [of 9] this [of 8] show ?thesis by (auto simp: k' split: if_splits)
  qed
  moreover have "\<exists>k2. vPortSVCHandler k' = Some k2 \<and> running_context k2 = saved_context k' t \<and> basepri k2 = 0" if "pxCurrentTCB k = Some t"
    using that nofpu set_core_regs [OF l, of "core k"] last l
    by (simp add: vPortSVCHandler_def k'(2-4) running_context_def c last_conv_nth flip: length_0_conv)
  moreover have "ldm (b + 36) 8 (ram k') ! 0 = param" "ldm (b + 36) 8 (ram k') ! 5 = exit_error"
    "ldm (b + 36) 8 (ram k') ! 6 = code AND 0xfffffffe" "ldm (b + 36) 8 (ram k') ! 7 = 0x01000000"
    by (simp_all add: ldm_def k' portINITIAL_XPSR_def portSTART_ADDRESS_MASK_def)
  moreover have "(b + 36) AND 7 = 0" using e(3) unfolding b_def .
  ultimately show ?thesis
    using last sub unfolding Let_def by (simp add: c k'(2))
qed

section \<open>Critical sections\<close>

datatype critical_op = Enter | Leave

fun critical_run :: "critical_op list \<Rightarrow> 'z pkernel_scheme \<Rightarrow> 'z pkernel_scheme option" where
  "critical_run [] k = Some k"
| "critical_run (Enter # ops) k = do { k \<leftarrow> vPortEnterCritical k; critical_run ops k }"
| "critical_run (Leave # ops) k = do { k \<leftarrow> vPortExitCritical k; critical_run ops k }"

text \<open>The depth after a sequence of calls, \<open>None\<close> when a section is left that was not entered.\<close>

fun depth_after :: "nat \<Rightarrow> critical_op list \<Rightarrow> nat option" where
  "depth_after n [] = Some n"
| "depth_after n (Enter # ops) = depth_after (Suc n) ops"
| "depth_after 0 (Leave # ops) = None"
| "depth_after (Suc n) (Leave # ops) = depth_after n ops"

text \<open>An interrupt of priority \<open>p\<close> is taken when it is more urgent than the mask.\<close>

definition interrupt_taken :: "u32 \<Rightarrow> 'z pkernel_scheme \<Rightarrow> bool" where
  "interrupt_taken p k \<longleftrightarrow> basepri k = 0 \<or> p < basepri k"

definition in_critical :: "nat \<Rightarrow> 'z pkernel_scheme \<Rightarrow> 'z pkernel_scheme" where
  "in_critical n k = k\<lparr>uxCriticalNesting := of_nat n, basepri := (if n = 0 then 0 else configMAX_SYSCALL_INTERRUPT_PRIORITY)\<rparr>"

lemma enter_critical:
  assumes "ipsr k = 0" "Suc n < 2 ^ 32"
  shows "vPortEnterCritical (in_critical n k) = Some (in_critical (Suc n) k)"
  using assms by (simp add: vPortEnterCritical_def vPortRaiseBASEPRI_def in_critical_def configASSERT_def Let_def add.commute)

lemma leave_critical:
  assumes "n < 2 ^ 32"
  shows "vPortExitCritical (in_critical n k) = (case n of 0 \<Rightarrow> None | Suc m \<Rightarrow> Some (in_critical m k))"
proof (cases n)
  case (Suc m)
  have "(of_nat (Suc m) :: u32) \<noteq> 0" "(of_nat m :: u32) = 0 \<longleftrightarrow> m = 0"
    using assms Suc unat_of_nat_less [of "Suc m", where 'a = 32] unat_of_nat_less [of m, where 'a = 32] by (auto simp: unat_eq_0 [symmetric])
  then show ?thesis
    using Suc by (auto simp: vPortExitCritical_def in_critical_def configASSERT_def vPortSetBASEPRI_def Let_def)
qed (simp add: vPortExitCritical_def in_critical_def configASSERT_def)

text \<open>
  C7. Critical sections nest. Any sequence of entries and exits made by a task amounts to counting: interrupts that use the kernel
  and the context switch are masked from the first entry to the exit that matches it, interrupts above the kernel's priority never
  are, and an exit without an entry is caught by an assertion. Nothing else changes.
\<close>

theorem critical_sections_nest:
  assumes "ipsr k = 0" "n + length ops < 2 ^ 32"
  shows "critical_run ops (in_critical n k) = map_option (\<lambda>m. in_critical m k) (depth_after n ops) \<and>
    (configMAX_SYSCALL_INTERRUPT_PRIORITY \<le> p \<longrightarrow> interrupt_taken p (in_critical m k) = (m = 0)) \<and>
    (p < configMAX_SYSCALL_INTERRUPT_PRIORITY \<longrightarrow> interrupt_taken p (in_critical m k))"
proof -
  have "critical_run ops (in_critical n k) = map_option (\<lambda>m. in_critical m k) (depth_after n ops)"
    using assms
  proof (induction ops arbitrary: n)
    case (Cons x ops)
    then show ?case
      by (cases x) (simp_all add: enter_critical leave_critical split: nat.splits)
  qed simp
  then show ?thesis
    by (auto simp: interrupt_taken_def in_critical_def configMAX_SYSCALL_INTERRUPT_PRIORITY_def)
qed

section \<open>The start of the scheduler and the tick\<close>

text \<open>The loop counts the implemented priority bits; the start insists on the four bits of the processor.\<close>

definition priority_bits :: "nat \<Rightarrow> u8" where
  "priority_bits b = NOT (mask (8 - b))"

lemma prigroup_bits:
  assumes "b \<le> 8"
  shows "prigroup_loop (priority_bits b) portMAX_PRIGROUP_BITS = 7 - of_nat b"
proof -
  have "b \<in> {0, 1, 2, 3, 4, 5, 6, 7, 8}" using assms by auto
  then show ?thesis
    by (elim insertE emptyE)
      (simp_all add: priority_bits_def mask_eq_exp_minus_1 prigroup_loop.simps portTOP_BIT_OF_BYTE_def portMAX_PRIGROUP_BITS_def)
qed

lemma xPortStartScheduler_priorities:
  assumes "pxCurrentTCB k = Some t" "cpuid \<notin> {0x410FC270, 0x410FC271}" "prio_mask k = priority_bits b" "b \<le> 8"
  shows "(\<exists>k'. xPortStartScheduler cpuid clock k = Some k') \<longleftrightarrow> b = 4"
    "xPortStartScheduler cpuid clock k = Some k' \<Longrightarrow> ucMaxSysCallPriority k' = 0x50 \<and> ulMaxPRIGROUPValue k' = 0x300 \<and>
      uxCriticalNesting k' = 0 \<and> basepri k' = 0 \<and> systick_load k' = clock div 1000 - 1"
proof -
  have g: "portMAX_PRIGROUP_BITS - (7 - of_nat b) = (4 :: u32) \<longleftrightarrow> b = 4"
  proof -
    have "b \<in> {0, 1, 2, 3, 4, 5, 6, 7, 8}" using assms(4) by auto
    then show ?thesis by (elim insertE emptyE) (simp_all add: portMAX_PRIGROUP_BITS_def)
  qed
  have "(0xff :: u8) = - 1" by simp
  then have f: "(0xff :: u8) AND x = x" for x :: u8 by (simp only: and.left_neutral)
  show four: "(\<exists>k'. xPortStartScheduler cpuid clock k = Some k') \<longleftrightarrow> b = 4"
    using assms g f
    by (simp add: xPortStartScheduler_def configASSERT_def prigroup_bits NVIC_PRIO_BITS_def configMAX_SYSCALL_INTERRUPT_PRIORITY_def
        vPortSVCHandler_def vPortSetupTimerInterrupt_def vPortEnableVFP_def Let_def)
  show "ucMaxSysCallPriority k' = 0x50 \<and> ulMaxPRIGROUPValue k' = 0x300 \<and> uxCriticalNesting k' = 0 \<and> basepri k' = 0 \<and>
      systick_load k' = clock div 1000 - 1"
    if s: "xPortStartScheduler cpuid clock k = Some k'"
  proof -
    have b: "b = 4" using four s by blast
    have p4: "priority_bits 4 = 0xf0" by (simp add: priority_bits_def mask_eq_exp_minus_1)
    with b have m: "prio_mask k = 0xf0" using assms(3) by simp
    have "prigroup_loop 0xf0 portMAX_PRIGROUP_BITS = 3" using prigroup_bits [of 4] unfolding p4 by simp
    then show ?thesis
      using s assms(1,2) m
      by (auto simp: xPortStartScheduler_def configASSERT_def NVIC_PRIO_BITS_def configMAX_SYSCALL_INTERRUPT_PRIORITY_def
        vPortSVCHandler_def vPortSetupTimerInterrupt_def vPortEnableVFP_def Let_def portMAX_PRIGROUP_BITS_def portPRIGROUP_SHIFT_def
        portPRIORITY_GROUP_MASK_def configTICK_RATE_HZ_def)
  qed
qed

text \<open>
  The tick interrupt counts a tick with the kernel's interrupts masked, asks for a switch when the tick did, and leaves interrupts unmasked.
\<close>

lemma xPortSysTickHandler_spec:
  assumes "sched_inv k" "uxSchedulerSuspended k = 0" "pxCurrentTCB k = Some c"
  obtains sw k1 k' where "xTaskIncrementTick (vPortRaiseBASEPRI k) = Some (sw, k1)" "xPortSysTickHandler k = Some k'"
    "k' = k1\<lparr>pendsv := pendsv k1 \<or> sw, basepri := 0\<rparr>" "xTickCount k' = xTickCount k + 1" "sched_inv k'"
proof -
  let ?k = "vPortRaiseBASEPRI k"
  have "sched_inv ?k" "uxSchedulerSuspended ?k = 0" "pxCurrentTCB ?k = Some c" "xTickCount ?k = xTickCount k"
    using assms by (simp_all add: vPortRaiseBASEPRI_def inv_defs lists_ok_def ready_ok_def delayed_ok_def)
  then obtain sw k1 where k1: "xTaskIncrementTick ?k = Some (sw, k1)" "sched_inv k1" "xTickCount k1 = xTickCount k + 1"
    using xTaskIncrementTick_spec [of ?k c] by metis
  let ?k' = "k1\<lparr>pendsv := pendsv k1 \<or> sw, basepri := 0\<rparr>"
  have "xPortSysTickHandler k = Some ?k'"
    using k1(1) by (cases sw) (simp_all add: xPortSysTickHandler_def vPortSetBASEPRI_def)
  moreover have "sched_inv ?k'" using k1(2) by (simp add: inv_defs lists_ok_def ready_ok_def delayed_ok_def)
  ultimately show thesis using k1 by (intro that [of sw k1 ?k']) simp_all
qed

section \<open>Concrete states\<close>

definition demo_port :: pkernel where
  "demo_port = kernel.extend (demo_kernel 0 None)
     \<lparr>core = (\<lambda>i. of_nat i)(14 := 0xffffffed), vfp = (\<lambda>i. of_nat (100 + i)), psp = 0x2064, basepri = 0, ram = (\<lambda>_. 0xfffffffd),
      pxTopOfStack = (\<lambda>_. 0x1000), uxCriticalNesting = 0, ipsr = 0, nvic_ip = (\<lambda>_. 0x50), prio_mask = 0xf0, aircr = 0x300, shpr3 = 0,
      systick_ctrl = 0, systick_load = 0, systick_val = 0, fpccr = 0, cpacr = 0, ucMaxSysCallPriority = 0x50, ulMaxPRIGROUPValue = 0x300\<rparr>"

definition demo_stacks :: "tid \<Rightarrow> u32 set" where
  "demo_stacks t = (if t = 1 then area 0x2000 25 else area 0x1000 25)"

lemma demo_port_kernel:
  "sched_inv demo_port" "pxCurrentTCB demo_port = Some 1" "members demo_port (Ready 0) = [0]"
  "tcbs demo_port = tcbs (demo_kernel 0 None)"
  using demo_sched_inv [of None 0] by (simp_all add: demo_port_def demo_kernel_fields)

lemma demo_port_cpu:
  "core demo_port 14 = 0xffffffed" "psp demo_port = 0x2064" "ram demo_port = (\<lambda>_. 0xfffffffd)" "pxTopOfStack demo_port = (\<lambda>_. 0x1000)"
  "ipsr demo_port = 0"
  by (simp_all add: demo_port_def kernel.defs)

lemma demo_port_ready: "t \<in> set (members demo_port (Ready p)) \<Longrightarrow> t \<in> {0, 1}"
  using sched_inv_parts(3) [OF demo_port_kernel(1)]
  by (auto simp: lists_ok_def demo_port_kernel(4) demo_defs split: if_splits)

lemma demo_stacks_ok: "stacks_ok demo_stacks {0, 1} demo_port"
proof -
  have "area 0x1000 25 \<inter> area (0x1000 + of_nat (4 * 1024)) 25 = {}"
    using area_disjoint [of 1024 25 "0x1000"] area_mono [of 0 25 1024 "0x1000"] by auto
  then have d: "area 0x1000 25 \<inter> area 0x2000 25 = {}" by simp
  have "frame_of demo_port 1 = area 0x2000 25" "frame_of demo_port 0 = area 0x1000 9"
    by (simp_all add: frame_of_def demo_port_kernel demo_port_cpu frame_words_def uses_fpu_def saved_exc_return_def)
  moreover have "area 0x1000 9 \<subseteq> area 0x1000 25" using area_mono [of 0 9 25 "0x1000"] by simp
  ultimately show ?thesis using d by (auto simp: stacks_ok_def demo_stacks_def)
qed


theorem new_task_starts_at_entry_witness:
  "ctx_psp (saved_context (new_task_stack 0x08000101 0x20001000 256 0x08000201 7 3 demo_port) 3) = 0x200013d8 \<and>
   ldm 0x200013d8 8 (ram (new_task_stack 0x08000101 0x20001000 256 0x08000201 7 3 demo_port)) ! 6 = 0x08000200"
proof -
  let ?k = "new_task_stack 0x08000101 0x20001000 256 0x08000201 7 3 demo_port"
  have psp: "ctx_psp (saved_context ?k 3) = 0x200013d8"
    by (simp add: saved_context_def saved_exc_return_def new_task_stack_def pxPortInitialiseStack_def Let_def
        frame_words_def uses_fpu_def portINITIAL_EXC_RETURN_def)
  have "ldm (ctx_psp (saved_context ?k 3)) 8 (ram ?k) ! 6 = 0x08000201 AND 0xfffffffe"
    using new_task_starts_at_entry [of "0x20001000" 256 ?k "0x08000101" "0x08000201" 7 3 demo_port] by (simp add: Let_def)
  then show ?thesis using psp by simp
qed

theorem critical_sections_nest_witness:
  "critical_run [Enter, Enter, Leave, Leave] (in_critical 0 demo_port) = Some (in_critical 0 demo_port) \<and>
   critical_run [Enter, Leave, Leave] (in_critical 0 demo_port) = None \<and> \<not> interrupt_taken 0xf0 (in_critical 1 demo_port)"
  using critical_sections_nest [OF demo_port_cpu(5), of 0 "[Enter, Enter, Leave, Leave]" "0xf0" 1]
    critical_sections_nest [OF demo_port_cpu(5), of 0 "[Enter, Leave, Leave]" "0xf0" 1]
  by (simp add: configMAX_SYSCALL_INTERRUPT_PRIORITY_def)

end
