(* ===== verification/Spec2Isabelle.thy ===== *)
theory Spec2Isabelle
  imports Syscalls Stream_Props Heap_Props Timer_Task Usb_Props I2c_Flash Port
begin

text \<open>
  \<^bold>\<open>The program.\<close> \<open>src/\<close> is the firmware of an STM32F407 board: the FreeRTOS kernel (\<open>FreeRTOS/\<close>), a terminal over USART1
  (\<open>Src/usart1_driver.c\<close>, \<open>Src/newlib_syscalls.c\<close>) with a command line for the clock and an LED (\<open>Src/cli.c\<close>), and a USB mouse that is
  moved by a joystick (\<open>Src/usb_device.c\<close> on \<open>tinyusb/\<close>). The tasks of the application block on queues, semaphores and delays of the
  kernel; interrupt handlers release them through the functions whose names end in \<open>FromISR\<close>; newlib's \<open>printf\<close> and \<open>scanf\<close> reach the
  terminal through the system calls.

  \<^bold>\<open>How the code is modelled.\<close> A C function is a function on the state of its component, with the name it has in the source. A structure
  is a record, an enumeration a datatype, an integer of \<open>n\<close> bits a word of \<open>n\<close> bits, so that tick counters, lock counts, priorities
  and lengths wrap as they do in C. The result \<open>None\<close> is a failed \<open>configASSERT\<close> or undefined behaviour (an access outside an
  array, a null or dangling pointer); an error code or a boolean result is an ordinary value. A loop is a structural recursion, or a
  \<open>partial_function (option)\<close> for which the lemmas prove that it returns; no fuel is used anywhere. A call that may block is cut at the
  points where the task can be switched away: the part up to the block leaves the task on its lists with a switch pended, the
  part after it runs when the task has been released, and what happens in between is an arbitrary sequence of the other operations. Critical
  sections and the suspended scheduler make the parts atomic. The kernel is taken in the configuration of \<open>Inc/FreeRTOSConfig.h\<close>, the
  USB stack in that of \<open>Inc/tusb_config.h\<close>; code that these configurations leave out is not part of the model.

  \<^bold>\<open>The theories.\<close>
  \<^item> \<open>Prelude\<close>: the C types, collections of rewrite rules, facts on words and lists, and \<open>returns\<close>, total correctness of a
    computation that may fail.
  \<^item> \<open>Kernel_List\<close> (\<open>list.c\<close>, \<open>list.h\<close>): items with pointers in a store. The locale \<open>kernel_lists\<close> states what the kernel relies on, over
    an abstract store of sequences; its interpretation \<open>clist\<close> on the pointer structure is the refinement proof.
  \<^item> \<open>Kernel_Tasks\<close> (\<open>tasks.c\<close>): ready, delayed, pending, suspended and event lists, ticks, delays, suspension, priorities, timeouts, task
    creation and deletion. \<open>Scheduler\<close> has the invariant \<open>sched_inv\<close> and \<open>Scheduler_Ops\<close> shows that the operations return, keep it, and
    what they do: delays are exact across the wrap of the tick counter, a tick readies exactly the tasks that are due, resuming the
    scheduler loses nothing, the running task has the highest ready priority, mutex holders inherit priorities.
    \<open>Kernel_Notify\<close> is the part of \<open>tasks.c\<close> on direct notifications, \<open>Task_Info\<close> the start of the scheduler, the idle task with the memory
    of deleted tasks, and the functions that tell about tasks; \<open>Task_Props\<close>: the report of all tasks is complete, and what the
    deletion of a task releases.
  \<^item> \<open>Ring\<close>: rings of slots and of bytes, and the locale \<open>bounded_fifo\<close>, the interface of a bounded queue.
  \<^item> \<open>Kernel_Queue\<close> (\<open>queue.c\<close>): queues, semaphores, mutexes, locks, the registry. \<open>Queue_Props\<close>: the storage area is a ring
    (interpretation \<open>kq\<close> of \<open>bounded_fifo\<close>), senders and receivers are released and blocked as they should, the lock counts lose no
    wake-up. \<open>Semaphores\<close>: binary and counting semaphores as such queues.
  \<^item> \<open>Stream_Buffer\<close>, \<open>Stream_Props\<close> (\<open>stream_buffer.c\<close>): byte streams and messages in a ring with one writer and one reader; nothing is
    lost, reordered or split, and a waiting reader is woken.
  \<^item> \<open>Event_Groups\<close> (\<open>event_groups.c\<close>): flags with waiting tasks; the walk that sets flags is equivalent to its definition without a walk.
  \<^item> \<open>Kernel_Timers\<close>, \<open>Timer_Props\<close>, \<open>Timer_Task\<close> (\<open>timers.c\<close>): the timer task, its two lists and its command queue; over any run of the
    task (\<open>timer_run\<close>) every timer is called exactly once per expiry, across wraps of the counter. The functions that timers and
    pended calls run are parameters; \<open>callbacks_ok\<close> says what is assumed of them (they leave the kernel's lists and the timer
    lists well-formed), and the witnesses instantiate them.
  \<^item> \<open>Kernel_Heap\<close>, \<open>Heap_Props\<close> (\<open>portable/MemMang/heap_4.c\<close>): block headers in a memory of 32-bit addresses represent a tiling of
    the heap; over any history (\<open>heap_run\<close>) blocks are aligned, disjoint and inside, and freed neighbours are merged.
  \<^item> \<open>Tty\<close> (\<open>Src/usart1_driver.c\<close>): transmission and reception through the interrupt handler, and the line editor, which refines an
    editor of lists. \<open>Cli\<close> (\<open>Src/cli.c\<close> and the RTC and GPIO functions of the ST drivers it calls): every command returns, reads within its
    buffer, and what is set is what is printed. \<open>Syscalls\<close> (\<open>Src/newlib_syscalls.c\<close>): the heap break and the terminal as files.
  \<^item> \<open>Usb_Core\<close>, \<open>Usb_Device\<close> (\<open>tinyusb/device/usbd.c\<close>, \<open>usbd_control.c\<close>, \<open>class/hid/hid_device.c\<close>, \<open>tusb.c\<close>, \<open>Src/usb_device.c\<close>): endpoints, control
    transfers, standard and HID requests, configuration, events, reports of the joystick. Pointers are regions with offsets. \<open>Usb_Safety\<close>:
    the invariant \<open>usb_ok\<close> and that no input of a conforming host leads to undefined behaviour. \<open>Usb_Props\<close>: descriptors are
    delivered, the configured device reports, and what goes wrong with unguarded requests and before the configuration.
  \<^item> \<open>Boot\<close> (\<open>Src/main.c\<close>): \<open>main\<close> with the set-up functions of the drivers. From reset it establishes the invariants that the theorems on the
    components assume. The task that blinks the LED and counts presses of the button.
  \<^item> \<open>I2c_Flash\<close> (\<open>Src/i2c_flash.c\<close>): the driver of the serial memory as far as it is written; a write takes the lock and, since the interrupt
    handler is empty, never returns.
  \<^item> \<open>Port\<close> (\<open>portable/GCC/ARM_CM4F/port.c\<close>, \<open>portmacro.h\<close>): the kernel's state extended by the registers of the processor and the memory of the
    stacks. Seen from the tasks the context switch changes no register; a new task starts in its function on an aligned stack; critical
    sections nest; \<open>xPortStartScheduler\<close> finds the priorities and \<open>xPortSysTickHandler\<close> is a tick of the kernel.

  \<^bold>\<open>Assumptions.\<close> The hypotheses of a theorem are visible in its statement, and each has a witness on a concrete state. The recurring ones
  are the invariants (\<open>store_repr\<close>, \<open>sched_inv\<close>, \<open>queue_inv\<close>, \<open>usb_ok\<close> and so on), which the operations are shown to keep and which hold
  of concrete initial states; those of the kernel are established by the start of the program (\<open>main_boots\<close>). Interrupts that use the kernel have a priority the kernel can mask, so that they occur between the parts of
  a function, never inside a critical section.

  \<^bold>\<open>Not modelled.\<close> What the processor does by itself when an exception starts and ends (the frame above the saved registers is memory
  of the stack), the main stack pointer, barriers, and the tickless idle mode of \<open>port.c\<close>, which is configured out; the set-up of clocks, pins, ADC and interrupt priorities in \<open>main.c\<close>, \<open>system_stm32f4xx.c\<close>, \<open>startup_stm32f407xx.s\<close> and most of
  the ST low-layer drivers, which are writes to registers without logic; the registers of the USB controller; the run-time
  statistics and trace functions of the kernel that the configuration leaves out, and \<open>croutine.c\<close>; the other classes, the
  host stack and the Type-C stack of \<open>tinyusb\<close>, which the configuration does not build; and LwIP, which is linked as a library but which
  no part of \<open>Src/\<close> starts or calls.
\<close>

end
